(* ===== verification/Py_Prelude.thy ===== *)
theory Py_Prelude
  imports Main "HOL-Library.AList" "HOL-Library.Sublist"
begin

text \<open>
  The shared prelude: the Python built-ins the modelled code relies on, with the lemmas
  every component uses.

  Strings are \<^typ>\<open>string\<close>, that is lists of the first 256 code points; slicing,
  \<open>find\<close>, \<open>startswith\<close> and concatenation act on code points exactly as Python's \<open>str\<close>
  does on texts over that alphabet.  A \<open>dict\<close> is an association list in insertion order:
  \<^const>\<open>AList.update\<close> overwrites in place or appends at the end, as \<open>d[k] = v\<close> does,
  \<^const>\<open>AList.delete\<close> is \<open>d.pop(k, None)\<close> and \<^const>\<open>map_of\<close> is \<open>d.get(k)\<close>.
  Exceptions are the left summand of a sum type.
\<close>

section \<open>Automation collections\<close>

named_theorems dict_simps "how dictionary updates act on lookup, keys and membership"
named_theorems str_simps "facts about find, startswith, join and slicing"

section \<open>Dictionaries\<close>

type_synonym ('k, 'v) dict = "('k \<times> 'v) list"

abbreviation dkeys :: "('k, 'v) dict \<Rightarrow> 'k list" where
  "dkeys d \<equiv> map fst d"

abbreviation dvalues :: "('k, 'v) dict \<Rightarrow> 'v list" where
  "dvalues d \<equiv> map snd d"

abbreviation dset :: "'k \<Rightarrow> 'v \<Rightarrow> ('k, 'v) dict \<Rightarrow> ('k, 'v) dict" where
  "dset k v d \<equiv> AList.update k v d"

abbreviation ddel :: "'k \<Rightarrow> ('k, 'v) dict \<Rightarrow> ('k, 'v) dict" where
  "ddel k d \<equiv> AList.delete k d"

text \<open>\<open>dict(pairs)\<close>: the last value of a repeated key wins, at its first position.\<close>

definition dict_of_pairs :: "('k \<times> 'v) list \<Rightarrow> ('k, 'v) dict" where
  "dict_of_pairs ps = fold (\<lambda>(k, v) d. dset k v d) ps []"

lemma map_of_dset [dict_simps]: "map_of (dset k v d) k' = (if k' = k then Some v else map_of d k')"
  by (simp add: update_conv)

lemma map_of_ddel [dict_simps]: "map_of (ddel k d) k' = (if k' = k then None else map_of d k')"
  by (simp add: delete_conv)

lemma set_dkeys_dset [dict_simps]: "set (dkeys (dset k v d)) = insert k (set (dkeys d))"
  by (induction d) auto

lemma set_dkeys_ddel [dict_simps]: "set (dkeys (ddel k d)) = set (dkeys d) - {k}"
  by (auto simp: AList.delete_eq image_iff)

text \<open>The same facts in the form the simplifier brings a key set into.\<close>

lemmas fst_dset [dict_simps] = set_dkeys_dset [unfolded list.set_map]
lemmas fst_ddel [dict_simps] = set_dkeys_ddel [unfolded list.set_map]

lemma map_of_fst: "map_of d k = Some v \<Longrightarrow> k \<in> fst ` set d"
  by (induction d) (auto split: if_splits)

lemma distinct_dset [dict_simps, intro]: "distinct (dkeys d) \<Longrightarrow> distinct (dkeys (dset k v d))"
  by (rule AList.distinct_update)

lemma distinct_ddel [dict_simps, intro]: "distinct (dkeys d) \<Longrightarrow> distinct (dkeys (ddel k d))"
  by (induction d) (auto simp: AList.delete_eq)

lemma dset_new [dict_simps]: "k \<notin> set (dkeys d) \<Longrightarrow> dset k v d = d @ [(k, v)]"
  by (induction d) auto

lemma dkeys_dset_old [dict_simps]: "k \<in> set (dkeys d) \<Longrightarrow> dkeys (dset k v d) = dkeys d"
  by (induction d) auto

lemma map_of_in_dkeys: "map_of d k = Some v \<Longrightarrow> k \<in> set (dkeys d)"
  by (induction d) (auto split: if_splits)

lemma map_of_notin_iff: "map_of d k = None \<longleftrightarrow> k \<notin> set (dkeys d)"
  by (auto simp: map_of_eq_None_iff)

lemma set_dset_distinct:
  "distinct (dkeys d) \<Longrightarrow> set (dset k v d) = insert (k, v) {p \<in> set d. fst p \<noteq> k}"
  by (induction d) (auto simp: image_iff)

lemma dict_of_pairs_distinct: "distinct (dkeys ps) \<Longrightarrow> dict_of_pairs ps = ps"
proof -
  have "distinct (dkeys (d @ ps)) \<Longrightarrow> fold (\<lambda>(k, v) d. dset k v d) ps d = d @ ps" for d
  proof (induction ps arbitrary: d)
    case (Cons p ps)
    obtain k v where p: "p = (k, v)" by (cases p)
    with Cons.prems have "k \<notin> set (dkeys d)" by auto
    then have "dset k v d = d @ [(k, v)]" by (rule dset_new)
    with Cons p show ?case by simp
  qed simp
  from this [of "[]"] show "distinct (dkeys ps) \<Longrightarrow> dict_of_pairs ps = ps"
    by (simp add: dict_of_pairs_def)
qed

section \<open>Strings\<close>

text \<open>\<open>s.find(p)\<close>, with \<^const>\<open>None\<close> for Python's \<open>-1\<close>.\<close>

fun py_find :: "string \<Rightarrow> string \<Rightarrow> nat option" where
  "py_find p [] = (if p = [] then Some 0 else None)"
| "py_find p (c # s) = (if prefix p (c # s) then Some 0 else map_option Suc (py_find p s))"

text \<open>\<open>s.rfind(c)\<close> for a single character.\<close>

fun py_rfind_char :: "char \<Rightarrow> string \<Rightarrow> nat option" where
  "py_rfind_char c [] = None"
| "py_rfind_char c (x # s) =
     (case py_rfind_char c s of Some i \<Rightarrow> Some (Suc i) | None \<Rightarrow> if x = c then Some 0 else None)"

definition py_startswith :: "string \<Rightarrow> string \<Rightarrow> bool" where
  "py_startswith s p = prefix p s"

definition py_endswith :: "string \<Rightarrow> string \<Rightarrow> bool" where
  "py_endswith s p = suffix p s"

definition py_contains :: "string \<Rightarrow> string \<Rightarrow> bool" where
  "py_contains p s = (py_find p s \<noteq> None)"

fun py_join :: "string \<Rightarrow> string list \<Rightarrow> string" where
  "py_join sep [] = []"
| "py_join sep [x] = x"
| "py_join sep (x # y # xs) = x @ sep @ py_join sep (y # xs)"

definition is_space :: "char \<Rightarrow> bool" where
  "is_space c = (let n = of_char c :: nat in
     (9 \<le> n \<and> n \<le> 13) \<or> (28 \<le> n \<and> n \<le> 32) \<or> n = 133 \<or> n = 160)"

definition py_lstrip :: "string \<Rightarrow> string" where
  "py_lstrip s = dropWhile is_space s"

definition py_rstrip :: "string \<Rightarrow> string" where
  "py_rstrip s = rev (dropWhile is_space (rev s))"

definition py_strip :: "string \<Rightarrow> string" where
  "py_strip s = py_rstrip (py_lstrip s)"

text \<open>\<open>str.splitlines()\<close>: the line boundaries of the modelled alphabet, with \<open>\r\n\<close> as one.\<close>

definition is_linebreak :: "char \<Rightarrow> bool" where
  "is_linebreak c = (let n = of_char c :: nat in
     (10 \<le> n \<and> n \<le> 13) \<or> (28 \<le> n \<and> n \<le> 30) \<or> n = 133)"

definition CR :: char where "CR = char_of (13 :: nat)"
definition LF :: char where "LF = char_of (10 :: nat)"

fun splitlines_aux :: "string \<Rightarrow> string \<Rightarrow> string list" where
  "splitlines_aux acc [] = (if acc = [] then [] else [rev acc])"
| "splitlines_aux acc [c] = (if is_linebreak c then [rev acc] else [rev (c # acc)])"
| "splitlines_aux acc (c # d # s) =
     (if c = CR \<and> d = LF then rev acc # splitlines_aux [] s
      else if is_linebreak c then rev acc # splitlines_aux [] (d # s)
      else splitlines_aux (c # acc) (d # s))"

definition py_splitlines :: "string \<Rightarrow> string list" where
  "py_splitlines s = splitlines_aux [] s"

lemma py_find_Some_prefix: "py_find p s = Some i \<Longrightarrow> prefix p (drop i s)"
  by (induction p s arbitrary: i rule: py_find.induct) (auto split: if_splits)

lemma py_find_Some_le: "py_find p s = Some i \<Longrightarrow> i + length p \<le> length s"
  by (induction p s arbitrary: i rule: py_find.induct)
     (auto split: if_splits dest: prefix_length_le)

lemma py_find_Some_first: "py_find p s = Some i \<Longrightarrow> j < i \<Longrightarrow> \<not> prefix p (drop j s)"
proof (induction p s arbitrary: i j rule: py_find.induct)
  case (2 p c s)
  then show ?case by (cases j) (auto split: if_splits)
qed (auto split: if_splits)

lemma py_find_None: "py_find p s = None \<Longrightarrow> j \<le> length s \<Longrightarrow> \<not> prefix p (drop j s)"
proof (induction p s arbitrary: j rule: py_find.induct)
  case (2 p c s)
  then show ?case by (cases j) (auto split: if_splits)
qed (auto split: if_splits)

lemma prefix_find: "prefix p s \<Longrightarrow> p \<noteq> [] \<Longrightarrow> prefix p (s @ t)" for p :: string
  by (rule prefix_prefix)

lemma find_append: "py_find p s = Some i \<Longrightarrow> p \<noteq> [] \<Longrightarrow> py_find p (s @ t) = Some i"
proof (induction p s arbitrary: i rule: py_find.induct)
  case (2 p c s)
  show ?case
  proof (cases "prefix p (c # s)")
    case True
    then have "prefix p ((c # s) @ t)" by (rule prefix_prefix)
    with True 2 show ?thesis by simp
  next
    case False
    with 2 obtain j where j: "py_find p s = Some j" "i = Suc j" by auto
    have "j + length p \<le> length s" using py_find_Some_le [OF j(1)] .
    have "\<not> prefix p (c # s @ t)"
    proof
      assume "prefix p (c # s @ t)"
      moreover have "length p \<le> length (c # s)" using \<open>j + length p \<le> length s\<close> by simp
      ultimately have "prefix p (c # s)" by (metis append_Cons prefix_append prefix_length_prefix prefixI)
      with False show False by simp
    qed
    moreover have "py_find p (s @ t) = Some j" using 2(1) [OF False j(1) 2(3)] .
    ultimately show ?thesis using j(2) by simp
  qed
qed auto

lemma py_find_None_iff: "py_find p s = None \<longleftrightarrow> (\<forall>j \<le> length s. \<not> prefix p (drop j s))"
  by (metis py_find_None py_find_Some_le py_find_Some_prefix add_leE not_None_eq)

lemma py_rfind_Some:
  "py_rfind_char c s = Some i \<Longrightarrow> i < length s \<and> s ! i = c \<and> (\<forall>j. i < j \<longrightarrow> j < length s \<longrightarrow> s ! j \<noteq> c)"
proof (induction s arbitrary: i)
  case (Cons x s)
  show ?case
  proof (cases "py_rfind_char c s")
    case None
    then have "c \<notin> set s"
    proof (induction s)
      case (Cons y s) then show ?case by (auto split: option.splits if_splits)
    qed simp
    with Cons.prems None show ?thesis
      by (auto split: if_splits simp: nth_Cons' in_set_conv_nth)
  next
    case (Some k)
    with Cons.IH [OF Some] Cons.prems show ?thesis by (auto simp: nth_Cons')
  qed
qed simp

lemma py_rfind_None: "py_rfind_char c s = None \<longleftrightarrow> c \<notin> set s"
  by (induction s) (auto split: option.splits)

lemma py_join_empty [str_simps]: "py_join [] xs = concat xs"
proof (induction xs)
  case (Cons x xs)
  then show ?case by (cases xs) auto
qed simp

lemma py_join_snoc:
  "xs \<noteq> [] \<Longrightarrow> py_join sep (xs @ [y]) = py_join sep xs @ sep @ y"
proof (induction xs)
  case (Cons x xs)
  then show ?case by (cases xs) auto
qed simp

section \<open>Results: a value or a Python exception\<close>

datatype py_error = KeyError | AttributeError | TypeError | ValueError | IndexError

fun rbind :: "'e + 'a \<Rightarrow> ('a \<Rightarrow> 'e + 'b) \<Rightarrow> 'e + 'b" where
  "rbind (Inl e) f = Inl e"
| "rbind (Inr x) f = f x"

fun rmap :: "('a \<Rightarrow> 'e + 'b) \<Rightarrow> 'a list \<Rightarrow> 'e + 'b list" where
  "rmap f [] = Inr []"
| "rmap f (x # xs) = rbind (f x) (\<lambda>y. rbind (rmap f xs) (\<lambda>ys. Inr (y # ys)))"

lemma rbind_Inr_iff [simp]: "rbind r f = Inr y \<longleftrightarrow> (\<exists>x. r = Inr x \<and> f x = Inr y)"
  by (cases r) auto

lemma rbind_Inl_iff [simp]: "rbind r f = Inl e \<longleftrightarrow> r = Inl e \<or> (\<exists>x. r = Inr x \<and> f x = Inl e)"
  by (cases r) auto

lemma rmap_length: "rmap f xs = Inr ys \<Longrightarrow> length ys = length xs"
  by (induction xs arbitrary: ys) auto

lemma rmap_all: "rmap f xs = Inr ys \<Longrightarrow> list_all2 (\<lambda>x y. f x = Inr y) xs ys"
  by (induction xs arbitrary: ys) auto

end
