(* ===== verification/Py_Json.thy ===== *)
theory Py_Json
  imports Py_Prelude
begin

text \<open>
  JSON values as the code handles them after \<open>json.loads\<close>: \<open>None\<close>, \<open>bool\<close>, \<open>int\<close>,
  \<open>float\<close>, \<open>str\<close>, \<open>list\<close> and \<open>dict\<close>.  A float is carried as its lexeme: the modelled code
  never computes with one.  The theory gives the \<open>isinstance\<close> tests and \<open>dict.get\<close> as total
  functions, \<open>str()\<close>, truth, and Python's own \<open>json.dumps\<close> and \<open>json.loads\<close> (standard
  library) on the modelled alphabet: a \<open>\u\<close> escape above U+00FF has no value here and is
  rejected.  \<open>json_roundtrip\<close> shows that the parser inverts the printer.
\<close>

section \<open>Values\<close>

datatype json =
    JNull
  | JBool bool
  | JInt int
  | JFloat string
  | JStr string
  | JArr "json list"
  | JObj "(string \<times> json) list"

type_synonym jdict = "(string, json) dict"

text \<open>\<open>isinstance(v, int)\<close> is true of booleans, which are the integers 0 and 1.\<close>

fun as_int :: "json \<Rightarrow> int option" where
  "as_int (JInt i) = Some i"
| "as_int (JBool b) = Some (if b then 1 else 0)"
| "as_int _ = None"

fun as_str :: "json \<Rightarrow> string option" where
  "as_str (JStr s) = Some s"
| "as_str _ = None"

fun as_obj :: "json \<Rightarrow> jdict option" where
  "as_obj (JObj d) = Some d"
| "as_obj _ = None"

fun as_list :: "json \<Rightarrow> json list option" where
  "as_list (JArr xs) = Some xs"
| "as_list _ = None"

text \<open>\<open>d.get(k)\<close> and \<open>d.get(k, default)\<close>.\<close>

definition jget :: "jdict \<Rightarrow> string \<Rightarrow> json" where
  "jget d k = (case map_of d k of Some v \<Rightarrow> v | None \<Rightarrow> JNull)"

definition jget_default :: "jdict \<Rightarrow> string \<Rightarrow> json \<Rightarrow> json" where
  "jget_default d k v = (case map_of d k of Some w \<Rightarrow> w | None \<Rightarrow> v)"

lemma map_of_str_simps [simp]:
  "jget ((k, v) # d) k' = (if k' = k then v else jget d k')" "jget [] k' = JNull"
  "jget_default ((k, v) # d) k' w = (if k' = k then v else jget_default d k' w)"
  "jget_default [] k' w = w"
  by (auto simp: jget_def jget_default_def)

lemma jget_dset [simp]: "jget (dset k v d) k' = (if k' = k then v else jget d k')"
  "jget_default (dset k v d) k' w = (if k' = k then v else jget_default d k' w)"
  by (simp_all add: jget_def jget_default_def dict_simps)

text \<open>Truth of a float: some digit of its mantissa is not zero (\<open>NaN\<close> and infinities are true).\<close>

definition float_truthy :: "string \<Rightarrow> bool" where
  "float_truthy s = list_ex (\<lambda>c. c \<notin> set ''0.-+'') (takeWhile (\<lambda>c. c \<noteq> CHR ''e'' \<and> c \<noteq> CHR ''E'') s)"

fun truthy :: "json \<Rightarrow> bool" where
  "truthy JNull = False"
| "truthy (JBool b) = b"
| "truthy (JInt i) = (i \<noteq> 0)"
| "truthy (JFloat s) = float_truthy s"
| "truthy (JStr s) = (s \<noteq> [])"
| "truthy (JArr xs) = (xs \<noteq> [])"
| "truthy (JObj d) = (d \<noteq> [])"

section \<open>Printing\<close>

definition digit_char :: "nat \<Rightarrow> char" where
  "digit_char n = char_of (48 + n)"

fun nat_digits :: "nat \<Rightarrow> string" where
  "nat_digits n = (if n < 10 then [digit_char n] else nat_digits (n div 10) @ [digit_char (n mod 10)])"

declare nat_digits.simps [simp del]

definition int_str :: "int \<Rightarrow> string" where
  "int_str i = (if i < 0 then CHR ''-'' # nat_digits (nat (- i)) else nat_digits (nat i))"

definition hex_char :: "nat \<Rightarrow> char" where
  "hex_char n = (if n < 10 then char_of (48 + n) else char_of (87 + n))"

definition hex2 :: "nat \<Rightarrow> string" where
  "hex2 n = [hex_char (n div 16), hex_char (n mod 16)]"

definition DQ :: char where "DQ = CHR 0x22"
definition BSL :: char where "BSL = CHR 0x5C"

text \<open>
  \<open>json.dumps\<close>: the short escapes, then \<open>\u00XX\<close> for what is not printable ASCII
  (\<open>ensure_ascii=True\<close>) or for control characters only (\<open>ensure_ascii=False\<close>).
\<close>

definition esc_char :: "bool \<Rightarrow> char \<Rightarrow> string" where
  "esc_char ascii c = (let n = of_char c :: nat in
     if c = DQ then [BSL, DQ]
     else if c = BSL then [BSL, BSL]
     else if c = CHR 0x0A then [BSL, CHR ''n'']
     else if c = CHR 0x0D then [BSL, CHR ''r'']
     else if c = CHR 0x09 then [BSL, CHR ''t'']
     else if c = CHR 0x0C then [BSL, CHR ''f'']
     else if c = CHR 0x08 then [BSL, CHR ''b'']
     else if n < 32 \<or> (ascii \<and> 126 < n) then [BSL, CHR ''u'', CHR ''0'', CHR ''0''] @ hex2 n
     else [c])"

definition json_quote :: "bool \<Rightarrow> string \<Rightarrow> string" where
  "json_quote ascii s = DQ # concat (map (esc_char ascii) s) @ [DQ]"

record json_style =
  ensure_ascii :: bool
  item_sep :: string
  key_sep :: string

definition default_style :: json_style where
  "default_style = \<lparr>ensure_ascii = True, item_sep = '', '', key_sep = '': ''\<rparr>"

definition compact_style :: json_style where
  "compact_style = \<lparr>ensure_ascii = True, item_sep = '','', key_sep = '':''\<rparr>"

definition utf8_style :: json_style where
  "utf8_style = \<lparr>ensure_ascii = False, item_sep = '', '', key_sep = '': ''\<rparr>"

fun dumps_style :: "json_style \<Rightarrow> json \<Rightarrow> string"
  and dumps_items :: "json_style \<Rightarrow> json list \<Rightarrow> string"
  and dumps_members :: "json_style \<Rightarrow> (string \<times> json) list \<Rightarrow> string"
where
  "dumps_style y JNull = ''null''"
| "dumps_style y (JBool b) = (if b then ''true'' else ''false'')"
| "dumps_style y (JInt i) = int_str i"
| "dumps_style y (JFloat s) = s"
| "dumps_style y (JStr s) = json_quote (ensure_ascii y) s"
| "dumps_style y (JArr xs) = ''['' @ dumps_items y xs @ '']''"
| "dumps_style y (JObj d) = ''{'' @ dumps_members y d @ ''}''"
| "dumps_items y [] = []"
| "dumps_items y [x] = dumps_style y x"
| "dumps_items y (x # z # xs) = dumps_style y x @ item_sep y @ dumps_items y (z # xs)"
| "dumps_members y [] = []"
| "dumps_members y [(k, v)] = json_quote (ensure_ascii y) k @ key_sep y @ dumps_style y v"
| "dumps_members y ((k, v) # m # ms) =
     json_quote (ensure_ascii y) k @ key_sep y @ dumps_style y v @ item_sep y @ dumps_members y (m # ms)"

definition json_dumps :: "json \<Rightarrow> string" where
  "json_dumps j = dumps_style default_style j"

text \<open>\<open>repr\<close> of a string: single quotes unless the text has one and no double quote.\<close>

definition SQ :: char where "SQ = CHR 0x27"

definition repr_char :: "char \<Rightarrow> char \<Rightarrow> string" where
  "repr_char q c = (let n = of_char c :: nat in
     if c = q \<or> c = BSL then [BSL, c]
     else if c = CHR 0x0A then [BSL, CHR ''n'']
     else if c = CHR 0x0D then [BSL, CHR ''r'']
     else if c = CHR 0x09 then [BSL, CHR ''t'']
     else if n < 32 \<or> (127 \<le> n \<and> n \<le> 160) \<or> n = 173 then [BSL, CHR ''x''] @ hex2 n
     else [c])"

definition str_repr :: "string \<Rightarrow> string" where
  "str_repr s = (let q = (if SQ \<in> set s \<and> DQ \<notin> set s then DQ else SQ)
                 in q # concat (map (repr_char q) s) @ [q])"

fun py_repr :: "json \<Rightarrow> string"
  and repr_items :: "json list \<Rightarrow> string"
  and repr_members :: "(string \<times> json) list \<Rightarrow> string"
where
  "py_repr JNull = ''None''"
| "py_repr (JBool b) = (if b then ''True'' else ''False'')"
| "py_repr (JInt i) = int_str i"
| "py_repr (JFloat s) = s"
| "py_repr (JStr s) = str_repr s"
| "py_repr (JArr xs) = ''['' @ repr_items xs @ '']''"
| "py_repr (JObj d) = ''{'' @ repr_members d @ ''}''"
| "repr_items [] = []"
| "repr_items [x] = py_repr x"
| "repr_items (x # y # xs) = py_repr x @ '', '' @ repr_items (y # xs)"
| "repr_members [] = []"
| "repr_members [(k, v)] = str_repr k @ '': '' @ py_repr v"
| "repr_members ((k, v) # m # ms) = str_repr k @ '': '' @ py_repr v @ '', '' @ repr_members (m # ms)"

text \<open>\<open>str(v)\<close>: a string is itself, anything else its \<open>repr\<close>.\<close>

definition py_str :: "json \<Rightarrow> string" where
  "py_str j = (case j of JStr s \<Rightarrow> s | _ \<Rightarrow> py_repr j)"

section \<open>Parsing\<close>

definition is_digit :: "char \<Rightarrow> bool" where
  "is_digit c = (let n = of_char c :: nat in 48 \<le> n \<and> n \<le> 57)"

definition digit_val :: "char \<Rightarrow> nat" where
  "digit_val c = of_char c - 48"

definition digits_val :: "string \<Rightarrow> nat" where
  "digits_val s = foldl (\<lambda>a c. 10 * a + digit_val c) 0 s"

definition hex_val :: "char \<Rightarrow> nat option" where
  "hex_val c = (let n = of_char c :: nat in
     if 48 \<le> n \<and> n \<le> 57 then Some (n - 48)
     else if 97 \<le> n \<and> n \<le> 102 then Some (n - 87)
     else if 65 \<le> n \<and> n \<le> 70 then Some (n - 55)
     else None)"

definition json_ws :: "char \<Rightarrow> bool" where
  "json_ws c = (let n = of_char c :: nat in n = 32 \<or> n = 9 \<or> n = 10 \<or> n = 13)"

definition skip_ws :: "string \<Rightarrow> string" where
  "skip_ws s = dropWhile json_ws s"

definition hex4 :: "char \<Rightarrow> char \<Rightarrow> char \<Rightarrow> char \<Rightarrow> char option" where
  "hex4 a b c d =
     (case (hex_val a, hex_val b, hex_val c, hex_val d) of
        (Some x, Some y, Some z, Some w) \<Rightarrow>
          (let n = ((x * 16 + y) * 16 + z) * 16 + w in if n < 256 then Some (char_of n) else None)
      | _ \<Rightarrow> None)"

definition short_escape :: "char \<Rightarrow> char option" where
  "short_escape c = map_of
     [(DQ, DQ), (BSL, BSL), (CHR ''/'', CHR ''/''), (CHR ''b'', CHR 0x08), (CHR ''f'', CHR 0x0C),
      (CHR ''n'', CHR 0x0A), (CHR ''r'', CHR 0x0D), (CHR ''t'', CHR 0x09)] c"

text \<open>The characters of a string literal up to its closing quote.\<close>

fun scan_string :: "string \<Rightarrow> (string \<times> string) option" where
  "scan_string [] = None"
| "scan_string (c # s) =
     (if c = DQ then Some ([], s)
      else if c = BSL then
        (case s of
           [] \<Rightarrow> None
         | e # r \<Rightarrow>
             (if e = CHR ''u'' then
                (case r of
                   h1 # h2 # h3 # h4 # r' \<Rightarrow>
                     (case hex4 h1 h2 h3 h4 of
                        None \<Rightarrow> None
                      | Some d \<Rightarrow> map_option (\<lambda>(t, q). (d # t, q)) (scan_string r'))
                 | _ \<Rightarrow> None)
              else
                (case short_escape e of
                   None \<Rightarrow> None
                 | Some d \<Rightarrow> map_option (\<lambda>(t, q). (d # t, q)) (scan_string r))))
      else if (of_char c :: nat) < 32 then None
      else map_option (\<lambda>(t, q). (c # t, q)) (scan_string s))"

text \<open>\<open>(-?(?:0|[1-9][0-9]*))(\.[0-9]+)?([eE][-+]?[0-9]+)?\<close>\<close>

definition scan_digits :: "string \<Rightarrow> string \<times> string" where
  "scan_digits s = (takeWhile is_digit s, dropWhile is_digit s)"

definition scan_int_part :: "string \<Rightarrow> (string \<times> string) option" where
  "scan_int_part s =
     (case s of
        [] \<Rightarrow> None
      | c # r \<Rightarrow> (if c = CHR ''0'' then Some ([c], r)
                  else if is_digit c then Some (scan_digits s) else None))"

definition scan_frac :: "string \<Rightarrow> string \<times> string" where
  "scan_frac s =
     (case s of
        c # d # r \<Rightarrow> (if c = CHR ''.'' \<and> is_digit d
                      then (c # fst (scan_digits (d # r)), snd (scan_digits (d # r))) else ([], s))
      | _ \<Rightarrow> ([], s))"

definition scan_exp :: "string \<Rightarrow> string \<times> string" where
  "scan_exp s =
     (case s of
        c # r \<Rightarrow>
          (if c = CHR ''e'' \<or> c = CHR ''E'' then
             (let (sg, r') = (case r of x # q \<Rightarrow> if x = CHR ''+'' \<or> x = CHR ''-'' then ([x], q) else ([], r)
                              | [] \<Rightarrow> ([], r));
                  (ds, q) = scan_digits r'
              in if ds = [] then ([], s) else (c # sg @ ds, q))
           else ([], s))
      | [] \<Rightarrow> ([], s))"

definition scan_unsigned :: "bool \<Rightarrow> string \<Rightarrow> (json \<times> string) option" where
  "scan_unsigned neg s =
     (case scan_int_part s of
        None \<Rightarrow> None
      | Some (ip, r) \<Rightarrow>
          (let (fp, r1) = scan_frac r; (ep, r2) = scan_exp r1
           in if fp = [] \<and> ep = []
              then Some (JInt (if neg then - int (digits_val ip) else int (digits_val ip)), r)
              else Some (JFloat ((if neg then ''-'' else []) @ ip @ fp @ ep), r2)))"

text \<open>\<open>s[0] == c\<close>: the rest of the text after an expected character.\<close>

fun expect :: "char \<Rightarrow> string \<Rightarrow> string option" where
  "expect c [] = None"
| "expect c (x # r) = (if x = c then Some r else None)"

definition scan_number :: "string \<Rightarrow> (json \<times> string) option" where
  "scan_number s =
     (case expect (CHR ''-'') s of Some r \<Rightarrow> scan_unsigned True r | None \<Rightarrow> scan_unsigned False s)"

definition scan_literals :: "(string \<times> json) list" where
  "scan_literals =
     [(''null'', JNull), (''true'', JBool True), (''false'', JBool False), (''NaN'', JFloat ''NaN''),
      (''Infinity'', JFloat ''Infinity''), (''-Infinity'', JFloat ''-Infinity'')]"

fun scan_literal :: "(string \<times> json) list \<Rightarrow> string \<Rightarrow> (json \<times> string) option" where
  "scan_literal [] s = None"
| "scan_literal ((l, j) # ls) s =
     (if prefix l s then Some (j, drop (length l) s) else scan_literal ls s)"

definition scan_atom :: "string \<Rightarrow> (json \<times> string) option" where
  "scan_atom s =
     (case scan_literal scan_literals s of Some r \<Rightarrow> Some r | None \<Rightarrow> scan_number s)"

text \<open>
  The recursive scanner.  Every descent consumes a character or spends fuel once without
  consuming, so twice the length of the text (and one) is enough fuel.
\<close>

fun scan_value :: "nat \<Rightarrow> string \<Rightarrow> (json \<times> string) option"
  and scan_items :: "nat \<Rightarrow> string \<Rightarrow> (json list \<times> string) option"
  and scan_members :: "nat \<Rightarrow> string \<Rightarrow> ((string \<times> json) list \<times> string) option"
where
  "scan_value 0 s = None"
| "scan_value (Suc n) s =
     (case expect DQ s of
        Some r \<Rightarrow> map_option (\<lambda>(t, q). (JStr t, q)) (scan_string r)
      | None \<Rightarrow>
     (case expect (CHR ''['') s of
        Some r \<Rightarrow>
          (case expect (CHR '']'') (skip_ws r) of
             Some q \<Rightarrow> Some (JArr [], q)
           | None \<Rightarrow> map_option (\<lambda>(xs, q). (JArr xs, q)) (scan_items n (skip_ws r)))
      | None \<Rightarrow>
     (case expect (CHR ''{'') s of
        Some r \<Rightarrow>
          (case expect (CHR ''}'') (skip_ws r) of
             Some q \<Rightarrow> Some (JObj [], q)
           | None \<Rightarrow>
               map_option (\<lambda>(ms, q). (JObj (dict_of_pairs ms), q)) (scan_members n (skip_ws r)))
      | None \<Rightarrow> scan_atom s)))"
| "scan_items 0 s = None"
| "scan_items (Suc n) s =
     (case scan_value n s of
        None \<Rightarrow> None
      | Some (x, r) \<Rightarrow>
          (case expect (CHR '']'') (skip_ws r) of
             Some q \<Rightarrow> Some ([x], q)
           | None \<Rightarrow>
               (case expect (CHR '','') (skip_ws r) of
                  Some q \<Rightarrow> map_option (\<lambda>(xs, q'). (x # xs, q')) (scan_items n (skip_ws q))
                | None \<Rightarrow> None)))"
| "scan_members 0 s = None"
| "scan_members (Suc n) s =
     (case Option.bind (expect DQ s) scan_string of
        None \<Rightarrow> None
      | Some (k, r1) \<Rightarrow>
          (case Option.bind (expect (CHR '':'') (skip_ws r1)) (\<lambda>r2. scan_value n (skip_ws r2)) of
             None \<Rightarrow> None
           | Some (v, r3) \<Rightarrow>
               (case expect (CHR ''}'') (skip_ws r3) of
                  Some q \<Rightarrow> Some ([(k, v)], q)
                | None \<Rightarrow>
                    (case expect (CHR '','') (skip_ws r3) of
                       Some q \<Rightarrow>
                         map_option (\<lambda>(ms, q'). ((k, v) # ms, q')) (scan_members n (skip_ws q))
                     | None \<Rightarrow> None))))"

definition json_loads :: "string \<Rightarrow> json option" where
  "json_loads s =
     (case scan_value (2 * length s + 1) (skip_ws s) of
        Some (j, r) \<Rightarrow> (if skip_ws r = [] then Some j else None)
      | None \<Rightarrow> None)"

section \<open>The parser inverts the printer\<close>

lemma of_char_less: "(of_char c :: nat) < 256"
  by simp

lemma hex_val_hex_char: "k < 16 \<Longrightarrow> hex_val (hex_char k) = Some k"
  by (auto simp: hex_val_def hex_char_def Let_def)

lemma hex_val_0: "hex_val (CHR ''0'') = Some 0"
  by (simp add: hex_val_def)

lemma hex4_hex2:
  "n < 256 \<Longrightarrow> hex4 (CHR ''0'') (CHR ''0'') (hex_char (n div 16)) (hex_char (n mod 16)) = Some (char_of n)"
  by (simp add: hex4_def hex_val_0 hex_val_hex_char less_mult_imp_div_less)

lemma esc_char_shape:
  obtains (short) e where "esc_char a c = [BSL, e]" "short_escape e = Some c" "e \<noteq> CHR ''u''"
  | (unicode) "esc_char a c = [BSL, CHR ''u'', CHR ''0'', CHR ''0''] @ hex2 (of_char c)"
  | (plain) "esc_char a c = [c]" "c \<noteq> DQ" "c \<noteq> BSL" "\<not> (of_char c :: nat) < 32"
  by (cases "c \<in> {DQ, BSL, CHR 0x0A, CHR 0x0D, CHR 0x09, CHR 0x0C, CHR 0x08}")
     (force simp: esc_char_def Let_def short_escape_def DQ_def BSL_def split: if_splits)+

lemma char_of_eqI: "(of_char c :: nat) = n \<Longrightarrow> char_of n = c"
  by (metis char_of_char)

lemma scan_string_esc:
  "scan_string (esc_char a c @ r) = map_option (\<lambda>(t, q). (c # t, q)) (scan_string r)"
proof (cases rule: esc_char_shape [of a c])
  case short
  then show ?thesis by (simp add: DQ_def BSL_def)
next
  case unicode
  then show ?thesis
    using hex4_hex2 [of "of_char c"] by (simp add: hex2_def DQ_def BSL_def)
next
  case plain
  then show ?thesis by simp
qed

lemma scan_string_quote:
  "scan_string (concat (map (esc_char a) s) @ DQ # r) = Some (s, r)"
  by (induction s) (simp_all add: scan_string_esc)

declare scan_string.simps [simp del]

text \<open>Numbers: an integer is read back when no digit, point or exponent follows.\<close>

definition num_end :: "string \<Rightarrow> bool" where
  "num_end r \<longleftrightarrow> (r = [] \<or> (\<not> is_digit (hd r) \<and> hd r \<notin> {CHR ''.'', CHR ''e'', CHR ''E''}))"

lemma digit_char_simps:
  "k < 10 \<Longrightarrow> is_digit (digit_char k)" "k < 10 \<Longrightarrow> digit_val (digit_char k) = k"
  "k < 10 \<Longrightarrow> digit_char k = CHR ''0'' \<longleftrightarrow> k = 0"
proof -
  assume k: "k < 10"
  then have n: "(of_char (digit_char k) :: nat) = 48 + k" by (simp add: digit_char_def)
  with k show "is_digit (digit_char k)" "digit_val (digit_char k) = k"
    by (simp_all add: is_digit_def digit_val_def)
  have "digit_char k = CHR ''0'' \<longleftrightarrow> (of_char (digit_char k) :: nat) = of_char (CHR ''0'')"
    by (simp only: of_char_eq_iff)
  with n show "digit_char k = CHR ''0'' \<longleftrightarrow> k = 0" by simp
qed

lemma nat_digits_ne [simp]: "nat_digits n \<noteq> []"
  by (subst nat_digits.simps) simp

lemma nat_digits_all: "\<forall>c \<in> set (nat_digits n). is_digit c"
proof (induction n rule: nat_digits.induct)
  case (1 n)
  then show ?case by (subst nat_digits.simps) (auto simp: digit_char_simps)
qed

lemma digits_val_snoc: "digits_val (s @ [c]) = 10 * digits_val s + digit_val c"
  by (simp add: digits_val_def)

lemma digits_val_nat_digits: "digits_val (nat_digits n) = n"
proof (induction n rule: nat_digits.induct)
  case (1 n)
  show ?case
  proof (cases "n < 10")
    case True
    then show ?thesis by (subst nat_digits.simps) (simp add: digits_val_def digit_char_simps)
  next
    case False
    with 1 show ?thesis
      by (subst nat_digits.simps) (simp add: digits_val_snoc digit_char_simps)
  qed
qed

lemma hd_nat_digits: "hd (nat_digits n) = CHR ''0'' \<longleftrightarrow> n = 0"
proof (induction n rule: nat_digits.induct)
  case (1 n)
  show ?case
  proof (cases "n < 10")
    case True
    then show ?thesis by (subst nat_digits.simps) (simp add: digit_char_simps)
  next
    case False
    with 1 show ?thesis by (subst nat_digits.simps) (auto simp: div_greater_zero_iff)
  qed
qed

lemma nat_digits_0: "nat_digits 0 = ''0''"
  using char_of_eqI [of "CHR ''0''" 48] by (subst nat_digits.simps) (simp add: digit_char_def)

lemma scan_int_part_digits:
  assumes "num_end r"
  shows "scan_int_part (nat_digits n @ r) = Some (nat_digits n, r)"
proof (cases "n = 0")
  case True
  then show ?thesis by (simp add: nat_digits_0 scan_int_part_def)
next
  case False
  obtain c t where ct: "nat_digits n = c # t" by (cases "nat_digits n") auto
  with False hd_nat_digits [of n] nat_digits_all [of n] have "c \<noteq> CHR ''0''" "is_digit c" by auto
  moreover have "takeWhile is_digit (nat_digits n @ r) = nat_digits n"
    "dropWhile is_digit (nat_digits n @ r) = r"
    using nat_digits_all [of n] assms
    by (cases r; simp add: takeWhile_append2 dropWhile_append2 num_end_def)+
  ultimately show ?thesis using ct by (simp add: scan_int_part_def scan_digits_def)
qed

lemma num_end_no_frac_exp: "num_end r \<Longrightarrow> scan_frac r = ([], r) \<and> scan_exp r = ([], r)"
  by (cases r) (auto simp: num_end_def scan_frac_def scan_exp_def split: list.splits)

lemma scan_unsigned_digits:
  "num_end r \<Longrightarrow> scan_unsigned neg (nat_digits n @ r) = Some (JInt (if neg then - int n else int n), r)"
  by (simp add: scan_unsigned_def scan_int_part_digits num_end_no_frac_exp digits_val_nat_digits)

lemma nat_digits_Cons: obtains c t where "nat_digits n = c # t" "is_digit c"
  using nat_digits_all [of n] by (cases "nat_digits n") auto

lemma scan_number_int:
  assumes "num_end r"
  shows "scan_number (int_str i @ r) = Some (JInt i, r)"
proof (cases "i < 0")
  case True
  then show ?thesis using scan_unsigned_digits [OF assms] by (simp add: scan_number_def int_str_def)
next
  case False
  obtain c t where "nat_digits (nat i) = c # t" "is_digit c" by (rule nat_digits_Cons)
  then have "expect (CHR ''-'') (nat_digits (nat i) @ r) = None" by (auto simp: is_digit_def)
  with False show ?thesis
    using scan_unsigned_digits [OF assms] by (simp add: scan_number_def int_str_def)
qed

lemma int_str_cases:
  obtains (neg) c t where "int_str i = CHR ''-'' # c # t" "is_digit c"
  | (pos) c t where "int_str i = c # t" "is_digit c"
proof (cases "i < 0")
  case True
  obtain c t where "nat_digits (nat (- i)) = c # t" by (cases "nat_digits (nat (- i))") auto
  with True neg nat_digits_all [of "nat (- i)"] show ?thesis by (auto simp: int_str_def)
next
  case False
  obtain c t where "nat_digits (nat i) = c # t" by (cases "nat_digits (nat i)") auto
  with False pos nat_digits_all [of "nat i"] show ?thesis by (auto simp: int_str_def)
qed

lemma scan_literal_digit:
  assumes "is_digit c"
  shows "scan_literal scan_literals (c # t) = None"
    and "scan_literal scan_literals (CHR ''-'' # c # t) = None"
proof -
  have "c \<noteq> CHR ''n''" "c \<noteq> CHR ''t''" "c \<noteq> CHR ''f''" "c \<noteq> CHR ''N''" "c \<noteq> CHR ''I''" "c \<noteq> CHR ''-''"
    using assms by (auto simp: is_digit_def)
  then show "scan_literal scan_literals (c # t) = None"
    "scan_literal scan_literals (CHR ''-'' # c # t) = None"
    by (simp_all add: scan_literals_def)
qed

lemma scan_atom_int:
  assumes "num_end r"
  shows "scan_atom (int_str i @ r) = Some (JInt i, r)"
proof -
  have "scan_literal scan_literals (int_str i @ r) = None"
    by (cases i rule: int_str_cases) (simp_all add: scan_literal_digit)
  then show ?thesis by (simp add: scan_atom_def scan_number_int [OF assms])
qed

text \<open>The values the code serialises: distinct keys (they come from dictionaries), no floats.\<close>

fun wf_json :: "json \<Rightarrow> bool"
  and wf_members :: "(string \<times> json) list \<Rightarrow> bool"
where
  "wf_json (JFloat s) = False"
| "wf_json (JArr xs) = list_all wf_json xs"
| "wf_json (JObj d) = (distinct (dkeys d) \<and> wf_members d)"
| "wf_json _ = True"
| "wf_members [] = True"
| "wf_members ((k, v) # ms) = (wf_json v \<and> wf_members ms)"

definition style_ok :: "json_style \<Rightarrow> bool" where
  "style_ok y \<longleftrightarrow> (\<exists>w. item_sep y = CHR '','' # w \<and> list_all json_ws w) \<and>
                  (\<exists>w. key_sep y = CHR '':'' # w \<and> list_all json_ws w)"

lemma styles_ok [simp]: "style_ok default_style" "style_ok compact_style" "style_ok utf8_style"
  by (simp_all add: style_ok_def default_style_def compact_style_def utf8_style_def json_ws_def)

text \<open>How the text of a value starts.\<close>

definition value_start :: "string \<Rightarrow> bool" where
  "value_start t \<longleftrightarrow> t \<noteq> [] \<and> \<not> json_ws (hd t) \<and> hd t \<notin> {CHR '']'', CHR ''}'', CHR '',''}"

lemma is_digit_value_start: "is_digit c \<Longrightarrow> value_start (c # t)"
  by (auto simp: is_digit_def value_start_def json_ws_def Let_def)

lemma value_start_dumps: "wf_json j \<Longrightarrow> value_start (dumps_style y j)"
proof (cases j)
  case (JInt i)
  then show ?thesis
    by (cases i rule: int_str_cases) (auto simp: is_digit_value_start, simp add: value_start_def json_ws_def)
qed (auto simp: value_start_def json_ws_def json_quote_def DQ_def)

lemma value_start_append: "value_start t \<Longrightarrow> value_start (t @ r)"
  by (cases t) (auto simp: value_start_def)

lemma skip_ws_value: "value_start t \<Longrightarrow> skip_ws t = t"
  by (cases t) (auto simp: value_start_def skip_ws_def)

lemma skip_ws_all: "list_all json_ws w \<Longrightarrow> skip_ws (w @ t) = skip_ws t"
  by (induction w) (auto simp: skip_ws_def)

lemma expect_value: "value_start t \<Longrightarrow> c \<in> {CHR '']'', CHR ''}'', CHR '',''} \<Longrightarrow> expect c t = None"
  by (cases t) (auto simp: value_start_def)

lemma num_end_punct [simp]:
  "num_end (CHR '']'' # r)" "num_end (CHR ''}'' # r)" "num_end (CHR '','' # r)" "num_end []"
  by (simp_all add: num_end_def is_digit_def)

lemma skip_ws_punct [simp]:
  "skip_ws (CHR '']'' # r) = CHR '']'' # r" "skip_ws (CHR ''}'' # r) = CHR ''}'' # r"
  "skip_ws (CHR '','' # r) = CHR '','' # r" "skip_ws (CHR '':'' # r) = CHR '':'' # r"
  by (simp_all add: skip_ws_def json_ws_def)

lemma item_sep_facts:
  assumes "style_ok y" and "value_start t"
  obtains q where "item_sep y @ t = CHR '','' # q" "skip_ws q = t"
  using assms skip_ws_all skip_ws_value unfolding style_ok_def by (metis append_Cons)

lemma key_sep_facts:
  assumes "style_ok y" and "value_start t"
  obtains q where "key_sep y @ t = CHR '':'' # q" "skip_ws q = t"
  using assms skip_ws_all skip_ws_value unfolding style_ok_def by (metis append_Cons)

lemma scan_atom_literals:
  "scan_atom (''null'' @ r) = Some (JNull, r)" "scan_atom (''true'' @ r) = Some (JBool True, r)"
  "scan_atom (''false'' @ r) = Some (JBool False, r)"
  by (simp_all add: scan_atom_def scan_literals_def)

lemma int_str_expect:
  "expect DQ (int_str i @ r) = None" "expect (CHR ''['') (int_str i @ r) = None"
  "expect (CHR ''{'') (int_str i @ r) = None"
  by (cases i rule: int_str_cases; auto simp: DQ_def is_digit_def)+

lemma items_start: "list_all wf_json (x # xs) \<Longrightarrow> value_start (dumps_items y (x # xs))"
  by (cases xs) (auto intro: value_start_append value_start_dumps)

lemma members_start: "value_start (dumps_members y (m # ms))"
  by (cases m; cases ms) (auto simp: value_start_def json_quote_def DQ_def json_ws_def)

lemma quote_value_start: "value_start (json_quote a k @ t)"
  by (auto simp: value_start_def json_quote_def DQ_def json_ws_def)

lemma scan_quote: "Option.bind (expect DQ (json_quote a k @ r)) scan_string = Some (k, r)"
  by (simp add: json_quote_def scan_string_quote)

lemma scan_items_one:
  assumes "scan_value n (t @ CHR '']'' # r) = Some (x, CHR '']'' # r)"
  shows "scan_items (Suc n) (t @ CHR '']'' # r) = Some ([x], r)"
  using assms by simp

lemma scan_items_more:
  assumes "style_ok y" and "value_start u"
    and "scan_value n (t @ item_sep y @ u) = Some (x, item_sep y @ u)"
    and "scan_items n u = Some (xs, r)"
  shows "scan_items (Suc n) (t @ item_sep y @ u) = Some (x # xs, r)"
proof -
  obtain q where q: "item_sep y @ u = CHR '','' # q" "skip_ws q = u"
    using item_sep_facts [OF assms(1,2)] .
  with assms(3,4) show ?thesis by simp
qed

lemma scan_members_one:
  assumes "style_ok y" and "value_start t"
    and "scan_value n (t @ CHR ''}'' # r) = Some (v, CHR ''}'' # r)"
  shows "scan_members (Suc n) (json_quote a k @ key_sep y @ t @ CHR ''}'' # r) = Some ([(k, v)], r)"
proof -
  obtain q where q: "key_sep y @ t @ CHR ''}'' # r = CHR '':'' # q" "skip_ws q = t @ CHR ''}'' # r"
    using key_sep_facts [OF assms(1) value_start_append [OF assms(2)]] .
  with assms(3) scan_quote [of a k "key_sep y @ t @ CHR ''}'' # r"] show ?thesis by simp
qed

lemma scan_members_more:
  assumes "style_ok y" and "value_start t" and "value_start u"
    and "scan_value n (t @ item_sep y @ u) = Some (v, item_sep y @ u)"
    and "scan_members n u = Some (ms, r)"
  shows "scan_members (Suc n) (json_quote a k @ key_sep y @ t @ item_sep y @ u) = Some ((k, v) # ms, r)"
proof -
  obtain q where q: "key_sep y @ t @ item_sep y @ u = CHR '':'' # q" "skip_ws q = t @ item_sep y @ u"
    using key_sep_facts [OF assms(1) value_start_append [OF assms(2)]] .
  obtain q' where q': "item_sep y @ u = CHR '','' # q'" "skip_ws q' = u"
    using item_sep_facts [OF assms(1,3)] .
  from q q' assms(4,5) scan_quote [of a k "key_sep y @ t @ item_sep y @ u"] show ?thesis by simp
qed

lemma num_end_item_sep: "style_ok y \<Longrightarrow> num_end (item_sep y @ u)"
  by (auto simp: style_ok_def)

lemma Suc_of_less: "(k :: nat) < n \<Longrightarrow> \<exists>m. n = Suc m \<and> k \<le> m"
  by (cases n) auto

lemma value_nonempty: "wf_json j \<Longrightarrow> 0 < length (dumps_style y j)"
  using value_start_dumps [of j y] by (simp add: value_start_def)

lemma scan_atomic:
  assumes "expect DQ s = None" "expect (CHR ''['') s = None" "expect (CHR ''{'') s = None"
    and "scan_atom s = Some (j, r)" and "0 < n"
  shows "scan_value n s = Some (j, r)"
  using assms by (cases n) auto

lemma scan_array:
  assumes "value_start u" and "scan_items n (u @ CHR '']'' # r) = Some (xs, r)"
  shows "scan_value (Suc n) (''['' @ (u @ '']'') @ r) = Some (JArr xs, r)"
  using assms skip_ws_value [OF value_start_append [OF assms(1), of "CHR '']'' # r"]]
    expect_value [OF value_start_append [OF assms(1), of "CHR '']'' # r"], of "CHR '']''"]
  by (simp add: DQ_def)

lemma scan_object:
  assumes "value_start u" and "scan_members n (u @ CHR ''}'' # r) = Some (ms, r)"
    and "distinct (dkeys ms)"
  shows "scan_value (Suc n) (''{'' @ (u @ ''}'') @ r) = Some (JObj ms, r)"
  using assms skip_ws_value [OF value_start_append [OF assms(1), of "CHR ''}'' # r"]]
    expect_value [OF value_start_append [OF assms(1), of "CHR ''}'' # r"], of "CHR ''}''"]
  by (simp add: DQ_def dict_of_pairs_distinct)

lemma scan_dumps:
  shows "style_ok y \<Longrightarrow> wf_json j \<Longrightarrow> num_end r \<Longrightarrow> 2 * length (dumps_style y j) \<le> n \<Longrightarrow>
      scan_value n (dumps_style y j @ r) = Some (j, r)"
    and "style_ok y \<Longrightarrow> list_all wf_json xs \<Longrightarrow> xs \<noteq> [] \<Longrightarrow> 2 * length (dumps_items y xs) < n \<Longrightarrow>
      scan_items n (dumps_items y xs @ CHR '']'' # r) = Some (xs, r)"
    and "style_ok y \<Longrightarrow> wf_members ms \<Longrightarrow> ms \<noteq> [] \<Longrightarrow> 2 * length (dumps_members y ms) < n \<Longrightarrow>
      scan_members n (dumps_members y ms @ CHR ''}'' # r) = Some (ms, r)"
proof (induction y j and y xs and y ms arbitrary: n r and n r and n r
    rule: dumps_style_dumps_items_dumps_members.induct)
  case (1 y)
  then show ?case by (auto intro!: scan_atomic scan_atom_literals [simplified] simp: DQ_def)
next
  case (2 y b)
  then show ?case by (auto intro!: scan_atomic scan_atom_literals [simplified] simp: DQ_def)
next
  case (3 y i)
  then have "0 < n" using value_nonempty [of "JInt i" y] by (cases n) auto
  with 3 show ?case by (auto intro!: scan_atomic simp: int_str_expect scan_atom_int)
next
  case (5 y s)
  then obtain m where "n = Suc m" by (cases n) (auto simp: json_quote_def)
  then show ?case by (simp add: json_quote_def scan_string_quote)
next
  case (6 y xs)
  then obtain m where n: "n = Suc m" "2 * length (dumps_items y xs) < m" by (cases n) auto
  show ?case
  proof (cases xs)
    case Nil
    with n show ?thesis by (simp add: DQ_def)
  next
    case (Cons x xs')
    then have "value_start (dumps_items y xs)" using items_start "6.prems"(2) by auto
    with scan_array [of "dumps_items y xs" m r xs] "6.IH" "6.prems" n Cons show ?thesis by simp
  qed
next
  case (7 y d)
  then obtain m where n: "n = Suc m" "2 * length (dumps_members y d) < m" by (cases n) auto
  show ?case
  proof (cases d)
    case Nil
    with n show ?thesis by (simp add: DQ_def)
  next
    case (Cons x d')
    then have "value_start (dumps_members y d)" using members_start by auto
    with scan_object [of "dumps_members y d" m r d] "7.IH" "7.prems" n Cons show ?thesis by simp
  qed
next
  case (9 y x)
  then obtain m where n: "n = Suc m" "2 * length (dumps_style y x) \<le> m" by (cases n) auto
  with 9 show ?case using scan_items_one [of m "dumps_style y x" r x] by simp
next
  case (10 y x z xs)
  let ?u = "dumps_items y (z # xs) @ CHR '']'' # r"
  have "1 \<le> length (item_sep y)" using 10 by (auto simp: style_ok_def)
  moreover have "2 * (length (dumps_style y x) + length (item_sep y) + length (dumps_items y (z # xs))) < n"
    using "10.prems"(4) by (simp only: dumps_items.simps length_append) simp
  ultimately obtain m where n: "n = Suc m" "2 * length (dumps_style y x) \<le> m"
      "2 * length (dumps_items y (z # xs)) < m" by (cases n) auto
  have wf: "wf_json x" "list_all wf_json (z # xs)" using "10.prems"(2) by simp_all
  have eq: "dumps_items y (x # z # xs) @ CHR '']'' # r = dumps_style y x @ item_sep y @ ?u"
    by (simp only: dumps_items.simps append_assoc)
  show ?case unfolding n(1) eq
  proof (rule scan_items_more)
    show "value_start ?u" by (rule value_start_append [OF items_start [OF wf(2)]])
    show "scan_value m (dumps_style y x @ item_sep y @ ?u) = Some (x, item_sep y @ ?u)"
      by (rule "10.IH"(1) [OF "10.prems"(1) wf(1) num_end_item_sep [OF "10.prems"(1)] n(2)])
    show "scan_items m ?u = Some (z # xs, r)"
      by (rule "10.IH"(2) [OF "10.prems"(1) wf(2) _ n(3)]) simp
  qed (rule "10.prems"(1))
next
  case (12 y k v)
  then obtain m where n: "n = Suc m" "2 * length (dumps_style y v) \<le> m"
    by (cases n) (auto simp: json_quote_def)
  with 12 show ?case using scan_members_one [of y "dumps_style y v" m r v] value_start_dumps by simp
next
  case (13 y k v m ms)
  let ?u = "dumps_members y (m # ms) @ CHR ''}'' # r"
  have "2 * (length (dumps_style y v) + length (dumps_members y (m # ms)) + 2) < n"
    using "13.prems"(4) by (simp only: dumps_members.simps length_append) (simp add: json_quote_def)
  then obtain l where n: "n = Suc l" "2 * length (dumps_style y v) \<le> l"
      "2 * length (dumps_members y (m # ms)) < l" by (cases n) auto
  have wf: "wf_json v" "wf_members (m # ms)" using "13.prems"(2) by simp_all
  have eq: "dumps_members y ((k, v) # m # ms) @ CHR ''}'' # r =
      json_quote (ensure_ascii y) k @ key_sep y @ dumps_style y v @ item_sep y @ ?u"
    by (simp only: dumps_members.simps append_assoc)
  show ?case unfolding n(1) eq
  proof (rule scan_members_more)
    show "value_start (dumps_style y v)" by (rule value_start_dumps [OF wf(1)])
    show "value_start ?u" by (rule value_start_append [OF members_start])
    show "scan_value l (dumps_style y v @ item_sep y @ ?u) = Some (v, item_sep y @ ?u)"
      by (rule "13.IH"(1) [OF "13.prems"(1) wf(1) num_end_item_sep [OF "13.prems"(1)] n(2)])
    show "scan_members l ?u = Some (m # ms, r)"
      by (rule "13.IH"(2) [OF "13.prems"(1) wf(2) _ n(3)]) simp
  qed (rule "13.prems"(1))
qed auto

text \<open>\<open>json.loads(json.dumps(v)) == v\<close>, for every separator and escaping style the code uses.\<close>

lemma loads_dumps_style:
  assumes "style_ok y" and "wf_json j"
  shows "json_loads (dumps_style y j) = Some j"
proof -
  have "scan_value (2 * length (dumps_style y j) + 1) (dumps_style y j @ []) = Some (j, [])"
    by (rule scan_dumps(1) [OF assms num_end_punct(4)]) simp
  with skip_ws_value [OF value_start_dumps [OF assms(2)], of y] show ?thesis
    by (simp add: json_loads_def skip_ws_def)
qed

lemma loads_dumps: "wf_json j \<Longrightarrow> json_loads (json_dumps j) = Some j"
  by (simp add: json_dumps_def loads_dumps_style)

end
