(* ===== verification/Stream_Recovery.thy ===== *)
theory Stream_Recovery
  imports Complex_Main Py_Json
begin

text \<open>
  Recovery of truncated streams (\<open>core/anthropic/stream_recovery.py\<close> and
  \<open>stream_recovery_session.py\<close>): the holdback buffer, the classification of errors, tool-input
  validation and JSON repair, continuation suffixes, the recovery request bodies, and the
  session that decides between a transparent retry, midstream recovery and a final error.

  The clock is a function of the number of times it was read, the byte length of an event and
  the \<open>jsonschema\<close> validator are parameters.
\<close>

section \<open>Constants and errors\<close>

definition EARLY_TRANSPARENT_TOTAL_ATTEMPTS :: nat where "EARLY_TRANSPARENT_TOTAL_ATTEMPTS = 5"

definition EARLY_TRANSPARENT_MAX_RETRIES :: nat where
  "EARLY_TRANSPARENT_MAX_RETRIES = EARLY_TRANSPARENT_TOTAL_ATTEMPTS - 1"

definition MIDSTREAM_RECOVERY_ATTEMPTS :: nat where "MIDSTREAM_RECOVERY_ATTEMPTS = 5"
definition EARLY_HOLDBACK_SECONDS :: rat where "EARLY_HOLDBACK_SECONDS = 3 / 4"
definition RECOVERY_BUFFER_MAX_BYTES :: nat where "RECOVERY_BUFFER_MAX_BYTES = 65536"

text \<open>
  The exception classes the code tells apart.  A constructor stands for its own class;
  \<open>APIStatusError\<close> for the remaining status errors of the SDK, \<open>PythonError\<close> for anything else.
\<close>

datatype stream_exn =
    TruncatedProviderStreamError
  | AuthenticationError
  | BadRequestError
  | HTTPStatusError int
  | RateLimitError
  | APIStatusError "int option"
  | APIError
  | TimeoutError
  | ReadTimeout
  | ReadError
  | RemoteProtocolError
  | ConnectError
  | NetworkError
  | APITimeoutError
  | APIConnectionError
  | PythonError py_error
  | OtherError string

definition retryable_status :: "int \<Rightarrow> bool" where
  "retryable_status status \<longleftrightarrow> status = 408 \<or> status = 429 \<or> (500 \<le> status \<and> status \<le> 599)"

fun is_retryable_stream_error :: "stream_exn \<Rightarrow> bool" where
  "is_retryable_stream_error TruncatedProviderStreamError = True"
| "is_retryable_stream_error AuthenticationError = False"
| "is_retryable_stream_error BadRequestError = False"
| "is_retryable_stream_error (HTTPStatusError status) = retryable_status status"
| "is_retryable_stream_error RateLimitError = True"
| "is_retryable_stream_error (APIStatusError status) =
     (case status of Some s \<Rightarrow> retryable_status s | None \<Rightarrow> False)"
| "is_retryable_stream_error APIError = True"
| "is_retryable_stream_error TimeoutError = True"
| "is_retryable_stream_error ReadTimeout = True"
| "is_retryable_stream_error ReadError = True"
| "is_retryable_stream_error RemoteProtocolError = True"
| "is_retryable_stream_error ConnectError = True"
| "is_retryable_stream_error NetworkError = True"
| "is_retryable_stream_error APITimeoutError = True"
| "is_retryable_stream_error APIConnectionError = True"
| "is_retryable_stream_error (PythonError _) = False"
| "is_retryable_stream_error (OtherError _) = False"

section \<open>The holdback buffer\<close>

record 'e holdback =
  hb_seconds :: rat
  hb_max_bytes :: nat
  hb_events :: "'e list"
  hb_bytes :: nat
  hb_started_at :: "rat option"
  hb_committed :: bool
  hb_reads :: nat

text \<open>\<open>hb_reads\<close> counts the readings of the clock, so that \<open>now\<close> is a function of it.\<close>

definition new_holdback :: "nat \<Rightarrow> 'e holdback" where
  "new_holdback reads =
     \<lparr>hb_seconds = EARLY_HOLDBACK_SECONDS, hb_max_bytes = RECOVERY_BUFFER_MAX_BYTES, hb_events = [],
      hb_bytes = 0, hb_started_at = None, hb_committed = False, hb_reads = reads\<rparr>"

definition hb_flush :: "'e holdback \<Rightarrow> 'e list \<times> 'e holdback" where
  "hb_flush h =
     (if hb_committed h then ([], h)
      else (hb_events h,
            h\<lparr>hb_committed := True, hb_events := [], hb_bytes := 0, hb_started_at := None\<rparr>))"

definition hb_read :: "(nat \<Rightarrow> rat) \<Rightarrow> 'e holdback \<Rightarrow> rat \<times> 'e holdback" where
  "hb_read now h = (now (hb_reads h), h\<lparr>hb_reads := Suc (hb_reads h)\<rparr>)"

text \<open>The second reading of the clock is skipped when the byte cap already decides.\<close>

definition hb_push :: "(nat \<Rightarrow> rat) \<Rightarrow> ('e \<Rightarrow> nat) \<Rightarrow> 'e \<Rightarrow> 'e holdback \<Rightarrow> 'e list \<times> 'e holdback" where
  "hb_push now size_of event h =
     (if hb_committed h then ([event], h)
      else
        (let h = (case hb_started_at h of
                    None \<Rightarrow> (let (t, h) = hb_read now h in h\<lparr>hb_started_at := Some t\<rparr>)
                  | Some _ \<Rightarrow> h);
             h = h\<lparr>hb_events := hb_events h @ [event], hb_bytes := hb_bytes h + size_of event\<rparr>
         in if hb_max_bytes h \<le> hb_bytes h then hb_flush h
            else
              (let (t, h) = hb_read now h
               in if hb_seconds h \<le> t - the (hb_started_at h) then hb_flush h else ([], h))))"

definition hb_discard :: "'e holdback \<Rightarrow> 'e holdback" where
  "hb_discard h = h\<lparr>hb_events := [], hb_bytes := 0, hb_started_at := None\<rparr>"

definition hb_has_buffered :: "'e holdback \<Rightarrow> bool" where
  "hb_has_buffered h \<longleftrightarrow> hb_events h \<noteq> []"

text \<open>\<open>len(event.encode("utf-8"))\<close> on the modelled alphabet.\<close>

definition utf8_len :: "string \<Rightarrow> nat" where
  "utf8_len s = sum_list (map (\<lambda>c. if (of_char c :: nat) < 128 then 1 else 2) s)"

section \<open>Tool schemas and validation\<close>

record tool_schema =
  ts_name :: string
  ts_input_schema :: jdict

type_synonym schemas = "(string, tool_schema) dict"

datatype schema_result = SchemaValid | SchemaError | ValidationError

text \<open>\<open>_tool_attr\<close>: a tool, object or mapping, is given by its attributes.\<close>

definition tool_attr :: "jdict \<Rightarrow> string \<Rightarrow> json" where
  "tool_attr tool attr = jget tool attr"

definition add_tool_schema :: "schemas \<Rightarrow> jdict \<Rightarrow> schemas" where
  "add_tool_schema schemas tool =
     (case tool_attr tool ''name'' of
        JStr name \<Rightarrow>
          if name = [] then schemas
          else (let schema = (case tool_attr tool ''input_schema'' of JObj d \<Rightarrow> d
                              | _ \<Rightarrow> [(''type'', JStr ''object'')])
                in dset name \<lparr>ts_name = name, ts_input_schema = schema\<rparr> schemas)
      | _ \<Rightarrow> schemas)"

definition tool_schemas_by_name :: "jdict list \<Rightarrow> schemas" where
  "tool_schemas_by_name tools = foldl add_tool_schema [] tools"

definition validate_tool_input ::
  "(jdict \<Rightarrow> jdict \<Rightarrow> schema_result) \<Rightarrow> string \<Rightarrow> jdict \<Rightarrow> schemas \<Rightarrow> bool" where
  "validate_tool_input validator tool_name parsed_input schemas =
     (case map_of schemas tool_name of
        None \<Rightarrow> True
      | Some s \<Rightarrow>
          (case validator (ts_input_schema s) parsed_input of
             SchemaValid \<Rightarrow> True | SchemaError \<Rightarrow> True | ValidationError \<Rightarrow> False))"

definition parse_complete_tool_input ::
  "(jdict \<Rightarrow> jdict \<Rightarrow> schema_result) \<Rightarrow> string \<Rightarrow> string \<Rightarrow> schemas \<Rightarrow> jdict option" where
  "parse_complete_tool_input validator raw_json tool_name schemas =
     (case json_loads raw_json of
        Some (JObj d) \<Rightarrow> if validate_tool_input validator tool_name d schemas then Some d else None
      | _ \<Rightarrow> None)"

section \<open>Repairing tool JSON\<close>

definition FENCE :: string where "FENCE = replicate 3 (CHR 0x60)"

text \<open>\<open>list(dict.fromkeys(xs))\<close>: the first occurrence of each element.\<close>

fun dedupe :: "'a list \<Rightarrow> 'a list" where
  "dedupe [] = []"
| "dedupe (x # xs) = x # List.filter (\<lambda>y. y \<noteq> x) (dedupe xs)"

definition unfence :: "string \<Rightarrow> string" where
  "unfence raw =
     (if py_startswith raw FENCE then
        (let ls = py_splitlines raw;
             ls = (if ls \<noteq> [] \<and> py_startswith (hd ls) FENCE then tl ls else ls);
             ls = (if ls \<noteq> [] \<and> py_strip (last ls) = FENCE then butlast ls else ls)
         in py_strip (py_join [LF] ls))
      else raw)"

definition repair_suffix_candidates :: "string \<Rightarrow> string \<Rightarrow> string list" where
  "repair_suffix_candidates pre candidate =
     (let raw = py_strip candidate
      in if raw = [] then []
         else (let raw = unfence raw
               in dedupe (raw # (if py_startswith raw pre then [drop (length pre) raw] else []))))"

record tool_repair =
  tr_suffix :: string
  tr_parsed_input :: jdict

fun first_repair ::
  "(jdict \<Rightarrow> jdict \<Rightarrow> schema_result) \<Rightarrow> string \<Rightarrow> string \<Rightarrow> schemas \<Rightarrow> string list \<Rightarrow> tool_repair option"
where
  "first_repair v pre tool_name schemas [] = None"
| "first_repair v pre tool_name schemas (s # ss) =
     (case parse_complete_tool_input v (pre @ s) tool_name schemas of
        Some parsed \<Rightarrow> Some \<lparr>tr_suffix = s, tr_parsed_input = parsed\<rparr>
      | None \<Rightarrow> first_repair v pre tool_name schemas ss)"

definition accept_tool_json_repair ::
  "(jdict \<Rightarrow> jdict \<Rightarrow> schema_result) \<Rightarrow> string \<Rightarrow> string \<Rightarrow> string \<Rightarrow> schemas \<Rightarrow> tool_repair option" where
  "accept_tool_json_repair v pre candidate tool_name schemas =
     first_repair v pre tool_name schemas (repair_suffix_candidates pre candidate)"

section \<open>Continuing a text\<close>

text \<open>\<open>for size in range(max_overlap, 0, -1)\<close>.\<close>

fun longest_overlap :: "string \<Rightarrow> string \<Rightarrow> nat \<Rightarrow> nat option" where
  "longest_overlap existing candidate 0 = None"
| "longest_overlap existing candidate (Suc n) =
     (if py_endswith existing (take (Suc n) candidate) then Some (Suc n)
      else longest_overlap existing candidate n)"

definition continuation_suffix :: "string \<Rightarrow> string \<Rightarrow> string option" where
  "continuation_suffix existing candidate =
     (if candidate = [] then Some []
      else if existing = [] then Some candidate
      else if py_startswith candidate existing then Some (drop (length existing) candidate)
      else (case longest_overlap existing candidate (min (length existing) (length candidate)) of
              Some n \<Rightarrow> Some (drop n candidate)
            | None \<Rightarrow> if length candidate < max 200 (length existing div 2) then Some candidate else None))"

section \<open>Recovery requests\<close>

definition RECOVERY_USER_PREFIX :: string where
  "RECOVERY_USER_PREFIX =
     ''The previous provider stream was interrupted. Continue the assistant response '' @
     ''exactly where it stopped. Do not repeat text already written.''"

definition copied_messages :: "jdict \<Rightarrow> json list" where
  "copied_messages body = (case jget body ''messages'' of JArr xs \<Rightarrow> xs | _ \<Rightarrow> [])"

definition strip_tools :: "jdict \<Rightarrow> jdict" where
  "strip_tools body = dset ''stream'' (JBool True) (ddel ''tool_choice'' (ddel ''tools'' body))"

definition chat_message :: "string \<Rightarrow> string \<Rightarrow> json" where
  "chat_message role content = JObj [(''role'', JStr role), (''content'', JStr content)]"

definition make_openai_text_recovery_body :: "jdict \<Rightarrow> string \<Rightarrow> jdict" where
  "make_openai_text_recovery_body body partial =
     (let recovery = strip_tools body;
          messages = copied_messages recovery;
          messages = (if partial \<noteq> [] then messages @ [chat_message ''assistant'' partial] else messages);
          messages = messages @ [chat_message ''user'' RECOVERY_USER_PREFIX]
      in dset ''messages'' (JArr messages) recovery)"

definition tool_repair_prompt :: "string \<Rightarrow> string \<Rightarrow> jdict option \<Rightarrow> string" where
  "tool_repair_prompt tool_name pre input_schema =
     (let schema = (case input_schema of
                      Some d \<Rightarrow> if d \<noteq> [] then d else [(''type'', JStr ''object'')]
                    | None \<Rightarrow> [(''type'', JStr ''object'')])
      in ''A streamed tool call was interrupted while writing JSON arguments.'' @ [LF] @
         ''Tool name: '' @ tool_name @ [LF] @
         ''JSON schema: '' @ dumps_style compact_style (JObj schema) @ [LF] @
         ''Already emitted JSON prefix: '' @ pre @ [LF, LF] @
         ''Return only the exact missing JSON suffix needed to complete the same object. '' @
         ''Do not repeat the prefix. Do not include markdown or explanation.'')"

definition make_openai_tool_repair_body ::
  "jdict \<Rightarrow> string \<Rightarrow> string \<Rightarrow> jdict option \<Rightarrow> jdict" where
  "make_openai_tool_repair_body body tool_name pre input_schema =
     (let recovery = strip_tools body;
          messages = copied_messages recovery
                     @ [chat_message ''user'' (tool_repair_prompt tool_name pre input_schema)]
      in dset ''messages'' (JArr messages) recovery)"

definition make_native_text_recovery_body :: "jdict \<Rightarrow> string \<Rightarrow> jdict" where
  "make_native_text_recovery_body body partial =
     (let recovery = strip_tools body;
          messages = copied_messages recovery;
          messages = (if partial \<noteq> [] then messages @ [chat_message ''assistant'' partial] else messages);
          messages = messages @ [chat_message ''user'' RECOVERY_USER_PREFIX]
      in dset ''messages'' (JArr messages) recovery)"

definition make_native_tool_repair_body ::
  "jdict \<Rightarrow> string \<Rightarrow> string \<Rightarrow> jdict option \<Rightarrow> jdict" where
  "make_native_tool_repair_body body tool_name pre input_schema =
     (let recovery = strip_tools body;
          messages = copied_messages recovery
                     @ [chat_message ''user'' (tool_repair_prompt tool_name pre input_schema)]
      in dset ''messages'' (JArr messages) recovery)"

section \<open>The recovery session\<close>

datatype failure_action = EARLY_RETRY | MIDSTREAM_RECOVERY | FINAL_ERROR

record failure_decision =
  fd_action :: failure_action
  fd_retryable :: bool
  fd_committed :: bool
  fd_has_buffered :: bool
  fd_early_retry_attempt :: "nat option"

record 'e recovery_session =
  rs_holdback :: "'e holdback"
  rs_early_retries :: nat

definition new_recovery_session :: "'e recovery_session" where
  "new_recovery_session = \<lparr>rs_holdback = new_holdback 0, rs_early_retries = 0\<rparr>"

definition session_push ::
  "(nat \<Rightarrow> rat) \<Rightarrow> ('e \<Rightarrow> nat) \<Rightarrow> 'e \<Rightarrow> 'e recovery_session \<Rightarrow> 'e list \<times> 'e recovery_session" where
  "session_push now size_of event s =
     (let (out, h) = hb_push now size_of event (rs_holdback s) in (out, s\<lparr>rs_holdback := h\<rparr>))"

definition session_flush :: "'e recovery_session \<Rightarrow> 'e list \<times> 'e recovery_session" where
  "session_flush s = (let (out, h) = hb_flush (rs_holdback s) in (out, s\<lparr>rs_holdback := h\<rparr>))"

definition flush_uncommitted ::
  "failure_decision \<Rightarrow> 'e recovery_session \<Rightarrow> 'e list \<times> 'e recovery_session" where
  "flush_uncommitted decision s = (if fd_committed decision then ([], s) else session_flush s)"

definition session_discard :: "'e recovery_session \<Rightarrow> 'e recovery_session" where
  "session_discard s = s\<lparr>rs_holdback := hb_discard (rs_holdback s)\<rparr>"

definition reset_holdback :: "'e recovery_session \<Rightarrow> 'e recovery_session" where
  "reset_holdback s = s\<lparr>rs_holdback := new_holdback (hb_reads (rs_holdback s))\<rparr>"

definition advance_failure ::
  "stream_exn \<Rightarrow> bool \<Rightarrow> bool \<Rightarrow> bool \<Rightarrow> 'e recovery_session \<Rightarrow> failure_decision \<times> 'e recovery_session" where
  "advance_failure error stream_opened generated_output complete_tool_salvageable s =
     (let committed = hb_committed (rs_holdback s);
          has_buffered = hb_has_buffered (rs_holdback s);
          retryable = is_retryable_stream_error error
      in if \<not> committed \<and> stream_opened \<and> retryable \<and> \<not> complete_tool_salvageable
            \<and> rs_early_retries s < EARLY_TRANSPARENT_MAX_RETRIES
         then
           (let attempt = rs_early_retries s + 1
            in (\<lparr>fd_action = EARLY_RETRY, fd_retryable = retryable, fd_committed = committed,
                 fd_has_buffered = has_buffered, fd_early_retry_attempt = Some attempt\<rparr>,
                reset_holdback (s\<lparr>rs_early_retries := attempt\<rparr>)))
         else if generated_output \<and> retryable
         then (\<lparr>fd_action = MIDSTREAM_RECOVERY, fd_retryable = retryable, fd_committed = committed,
                fd_has_buffered = has_buffered, fd_early_retry_attempt = None\<rparr>, s)
         else (\<lparr>fd_action = FINAL_ERROR, fd_retryable = retryable, fd_committed = committed,
                fd_has_buffered = has_buffered, fd_early_retry_attempt = None\<rparr>, s))"

section \<open>The buffer loses and reorders nothing\<close>

text \<open>What went out and what is still held, for a run of pushes.\<close>

fun push_all ::
  "(nat \<Rightarrow> rat) \<Rightarrow> ('e \<Rightarrow> nat) \<Rightarrow> 'e list \<Rightarrow> 'e holdback \<Rightarrow> 'e list \<times> 'e holdback" where
  "push_all now size_of [] h = ([], h)"
| "push_all now size_of (e # es) h =
     (let (out, h) = hb_push now size_of e h; (out', h) = push_all now size_of es h in (out @ out', h))"

definition hb_ok :: "('e \<Rightarrow> nat) \<Rightarrow> 'e holdback \<Rightarrow> bool" where
  "hb_ok size_of h \<longleftrightarrow>
     (hb_committed h \<longrightarrow> hb_events h = []) \<and> hb_bytes h = sum_list (map size_of (hb_events h)) \<and>
     (\<not> hb_committed h \<longrightarrow> hb_events h \<noteq> [] \<longrightarrow> hb_bytes h < hb_max_bytes h) \<and>
     (hb_events h \<noteq> [] \<longleftrightarrow> hb_started_at h \<noteq> None)"

lemma hb_ok_new: "hb_ok size_of (new_holdback n)"
  by (simp add: hb_ok_def new_holdback_def)

lemma hb_events_new: "hb_events (new_holdback n) = []"
  by (simp add: new_holdback_def)

lemma hb_ok_flush: "hb_ok size_of h \<Longrightarrow> hb_ok size_of (snd (hb_flush h))"
  by (auto simp: hb_ok_def hb_flush_def)

lemma hb_ok_discard: "hb_ok size_of h \<Longrightarrow> hb_ok size_of (hb_discard h)"
  by (auto simp: hb_ok_def hb_discard_def)

lemma hb_flush_out: "hb_ok size_of h \<Longrightarrow> fst (hb_flush h) = hb_events h \<and> hb_committed (snd (hb_flush h))"
  by (auto simp: hb_flush_def hb_ok_def)

lemma hb_push_cases:
  assumes "hb_ok size_of h" and "hb_push now size_of e h = (out, h')"
  shows "hb_ok size_of h'" and "out @ hb_events h' = hb_events h @ [e]"
    and "hb_committed h \<Longrightarrow> hb_committed h'" and "out \<noteq> [] \<Longrightarrow> hb_committed h'"
    and "hb_max_bytes h' = hb_max_bytes h"
  using assms
  by (auto simp: hb_push_def hb_read_def hb_flush_def hb_ok_def Let_def split: if_splits option.splits)

text \<open>What a session holds back, and whether anything went out.\<close>

abbreviation held :: "'e recovery_session \<Rightarrow> 'e list" where
  "held s \<equiv> hb_events (rs_holdback s)"

abbreviation gone :: "'e recovery_session \<Rightarrow> bool" where
  "gone s \<equiv> hb_committed (rs_holdback s)"

lemma flush_held: "hb_ok size_of (rs_holdback s) \<Longrightarrow> fst (session_flush s) = held s"
  using hb_flush_out [of size_of "rs_holdback s"] by (simp add: session_flush_def split_beta)

lemma push_all_committed:
  "push_all now size_of es h = (out, h') \<Longrightarrow> hb_committed h \<Longrightarrow> hb_committed h'"
  by (induction es arbitrary: h out) (auto simp: hb_push_def split: prod.splits)

lemma push_all_run:
  "hb_ok size_of h \<Longrightarrow> push_all now size_of es h = (out, h') \<Longrightarrow>
   hb_ok size_of h' \<and> out @ hb_events h' = hb_events h @ es \<and> (out \<noteq> [] \<longrightarrow> hb_committed h') \<and>
   hb_max_bytes h' = hb_max_bytes h"
proof (induction es arbitrary: h out h')
  case (Cons e es)
  obtain o1 h1 where p: "hb_push now size_of e h = (o1, h1)" by (cases "hb_push now size_of e h")
  obtain o2 h2 where q: "push_all now size_of es h1 = (o2, h2)" by (cases "push_all now size_of es h1")
  note P = hb_push_cases [OF Cons.prems(1) p] and Q = Cons.IH [OF hb_push_cases(1) [OF Cons.prems(1) p] q]
  have r: "out = o1 @ o2" "h' = h2" using Cons.prems(2) p q by simp_all
  have "o1 @ o2 @ hb_events h2 = hb_events h @ e # es"
    using P(2) Q by (metis append.assoc append_Cons append_Nil)
  moreover have "o1 @ o2 \<noteq> [] \<longrightarrow> hb_committed h2"
    using P(4) Q push_all_committed [OF q] by auto
  ultimately show ?case using P(5) Q r by simp
qed simp

section \<open>Lemmas on suffixes and repairs\<close>

lemma longest_overlap_Some:
  "longest_overlap e c n = Some k \<Longrightarrow> 0 < k \<and> k \<le> n \<and> suffix (take k c) e \<and>
     (\<forall>j. k < j \<longrightarrow> j \<le> n \<longrightarrow> \<not> suffix (take j c) e)"
  by (induction n) (auto simp: py_endswith_def le_Suc_eq split: if_splits)

lemma longest_overlap_None:
  "longest_overlap e c n = None \<Longrightarrow> 0 < j \<Longrightarrow> j \<le> n \<Longrightarrow> \<not> suffix (take j c) e"
  by (induction n) (auto simp: py_endswith_def le_Suc_eq split: if_splits)

lemma continuation_suffix_sound:
  assumes "continuation_suffix e c = Some s"
  shows "suffix c (e @ s)" and "suffix s c"
proof -
  consider "c = []" "s = []" | "e = []" "s = c" | "prefix e c" "s = drop (length e) c"
    | k where "suffix (take k c) e" "s = drop k c" | "s = c"
  proof (cases "longest_overlap e c (min (length e) (length c))")
    case None
    with assms that(1,2,3,5) show ?thesis
      by (auto simp: continuation_suffix_def py_startswith_def split: if_splits)
  next
    case (Some k)
    with longest_overlap_Some [OF Some] assms that(1-4) show ?thesis
      by (auto simp: continuation_suffix_def py_startswith_def split: if_splits)
  qed
  then show "suffix c (e @ s)"
  proof cases
    case 3 then show ?thesis by (auto elim!: prefixE)
  next
    case (4 k)
    then obtain p where "e = p @ take k c" by (auto simp: suffix_def)
    with 4 show ?thesis by (auto simp: suffix_def)
  qed (auto simp: suffix_def)
  from \<open>continuation_suffix e c = Some s\<close> show "suffix s c"
    by (auto simp: continuation_suffix_def suffix_drop split: if_splits option.splits)
qed

lemma first_repair_Some:
  "first_repair v p n ss cs = Some r \<Longrightarrow>
   tr_suffix r \<in> set cs \<and> parse_complete_tool_input v (p @ tr_suffix r) n ss = Some (tr_parsed_input r)"
  by (induction cs) (auto split: option.splits)

lemma first_repair_None:
  "first_repair v p n ss cs = None \<longleftrightarrow> (\<forall>s \<in> set cs. parse_complete_tool_input v (p @ s) n ss = None)"
  by (induction cs) (auto split: option.splits)

lemma set_dedupe: "set (dedupe xs) = set xs"
  by (induction xs) auto

lemma parse_complete_valid:
  "parse_complete_tool_input v raw n ss = Some d \<Longrightarrow>
   json_loads raw = Some (JObj d) \<and> validate_tool_input v n d ss"
  by (auto simp: parse_complete_tool_input_def split: option.splits json.splits if_splits)

section \<open>Properties\<close>

text \<open>
  C6: whatever is pushed through the holdback buffer, at whatever clock readings, comes out in
  order and exactly once: what was let through followed by what a flush returns is the pushed
  sequence, and nothing is let through before the buffer commits.
\<close>

theorem holdback_preserves_events:
  "let (out, h) = push_all now size_of es (new_holdback n); (rest, h') = hb_flush h
   in out @ rest = es \<and> (hb_committed h \<or> out = []) \<and> hb_committed h' \<and> \<not> hb_has_buffered h'"
proof -
  obtain out h where p: "push_all now size_of es (new_holdback n) = (out, h)"
    by (cases "push_all now size_of es (new_holdback n)")
  note P = push_all_run [OF hb_ok_new p]
  obtain rest h' where f: "hb_flush h = (rest, h')" by (cases "hb_flush h")
  have "rest = hb_events h" "hb_committed h'" using hb_flush_out [of size_of h] P f by auto
  moreover have "\<not> hb_has_buffered h'"
    using f P by (auto simp: hb_flush_def hb_ok_def hb_has_buffered_def split: if_splits)
  ultimately show ?thesis using P by (simp add: p f hb_events_new) blast
qed

text \<open>
  A buffer that has not committed never holds as many bytes as its cap: it commits in the
  very push that reaches it.
\<close>

lemma holdback_bounded:
  "case push_all now size_of es (new_holdback n) of
     (out, h) \<Rightarrow> sum_list (map size_of (hb_events h)) < RECOVERY_BUFFER_MAX_BYTES"
proof -
  obtain out h where p: "push_all now size_of es (new_holdback n) = (out, h)"
    by (cases "push_all now size_of es (new_holdback n)")
  have "hb_ok size_of h" "hb_max_bytes h = RECOVERY_BUFFER_MAX_BYTES"
    using push_all_run [OF hb_ok_new p] by (simp_all add: new_holdback_def)
  then have "sum_list (map size_of (hb_events h)) < RECOVERY_BUFFER_MAX_BYTES"
    by (cases "hb_events h = []") (auto simp: hb_ok_def RECOVERY_BUFFER_MAX_BYTES_def)
  then show ?thesis by (simp add: p)
qed

text \<open>
  C4: an accepted tool repair is append-only and complete: its suffix is one of the candidates,
  and the emitted prefix followed by it parses as a JSON object that the tool's schema accepts.
\<close>

theorem accepted_repair_valid:
  assumes "accept_tool_json_repair v pre candidate name schemas = Some r"
  shows "json_loads (pre @ tr_suffix r) = Some (JObj (tr_parsed_input r)) \<and>
         validate_tool_input v name (tr_parsed_input r) schemas \<and>
         tr_suffix r \<in> set (repair_suffix_candidates pre candidate)"
  using assms first_repair_Some parse_complete_valid
  unfolding accept_tool_json_repair_def by blast

theorem accepted_repair_valid_witness:
  "\<exists>r. accept_tool_json_repair (\<lambda>_ _. SchemaValid) ''{'' ''}'' ''Read'' [] = Some r \<and>
       json_loads (''{'' @ tr_suffix r) = Some (JObj (tr_parsed_input r))"
proof -
  have "accept_tool_json_repair (\<lambda>_ _. SchemaValid) ''{'' ''}'' ''Read'' [] =
        Some \<lparr>tr_suffix = ''}'', tr_parsed_input = []\<rparr>"
    by code_simp
  with accepted_repair_valid [OF this] show ?thesis by blast
qed



end
