(* ===== verification/Rate_Limit.thy ===== *)
theory Rate_Limit
  imports Stream_Recovery
begin

text \<open>
  Rate limiting: the strict sliding window of \<open>core/rate_limit.py\<close> and the provider limiter of
  \<open>providers/rate_limit.py\<close> with its retry loop.

  Times are rationals.  \<open>time.monotonic()\<close> is a state: the time of the last reading and the
  number of readings so far; reading \<open>n\<close> comes \<open>elapse n\<close> after the time reached before it, and
  \<open>asyncio.sleep(d)\<close> moves the time by \<open>d\<close>.  That \<open>elapse\<close> is never negative is what the
  documentation of \<open>monotonic\<close> promises; it is a hypothesis where it is used.
\<close>

section \<open>The sliding window\<close>

record sliding_window =
  sw_limit :: int
  sw_window :: rat
  sw_times :: "rat list"

definition new_sliding_window :: "int \<Rightarrow> rat \<Rightarrow> py_error + sliding_window" where
  "new_sliding_window rate_limit rate_window =
     (if rate_limit \<le> 0 then Inl ValueError
      else if rate_window \<le> 0 then Inl ValueError
      else Inr \<lparr>sw_limit = rate_limit, sw_window = rate_window, sw_times = []\<rparr>)"

text \<open>\<open>while self._times and self._times[0] <= cutoff: self._times.popleft()\<close>.\<close>

definition sw_purge :: "rat \<Rightarrow> sliding_window \<Rightarrow> sliding_window" where
  "sw_purge now l = l\<lparr>sw_times := dropWhile (\<lambda>t. t \<le> now - sw_window l) (sw_times l)\<rparr>"

text \<open>
  One pass of \<open>acquire\<close> under its lock: \<open>None\<close> when a slot was taken, otherwise how long to sleep
  before the next pass.
\<close>

definition acquire_pass :: "rat \<Rightarrow> sliding_window \<Rightarrow> rat option \<times> sliding_window" where
  "acquire_pass now l =
     (let l = sw_purge now l
      in if int (length (sw_times l)) < sw_limit l
         then (None, l\<lparr>sw_times := sw_times l @ [now]\<rparr>)
         else (Some (max 0 (hd (sw_times l) + sw_window l - now)), l))"

text \<open>\<open>acquire\<close> alone on the limiter: passes and sleeps until a slot is taken, or for ever.\<close>

partial_function (option) sw_acquire ::
  "(nat \<Rightarrow> rat) \<Rightarrow> nat \<Rightarrow> rat \<Rightarrow> sliding_window \<Rightarrow> (nat \<times> rat \<times> sliding_window) option" where
  "sw_acquire elapse n time l =
     (let now = time + elapse n
      in case acquire_pass now l of
           (None, l) \<Rightarrow> Some (Suc n, now, l)
         | (Some wait_time, l) \<Rightarrow> sw_acquire elapse (Suc n) (now + wait_time) l)"

text \<open>
  Any number of tasks share the limiter; each pass holds the lock and reads the clock inside it,
  so a history is a list of readings in time order.  The result is the list of acquisitions.
\<close>

fun sw_passes :: "rat list \<Rightarrow> sliding_window \<Rightarrow> rat list \<times> sliding_window" where
  "sw_passes [] l = ([], l)"
| "sw_passes (now # nows) l =
     (case acquire_pass now l of
        (r, l) \<Rightarrow> (case sw_passes nows l of
                     (acquired, l) \<Rightarrow> ((if r = None then now # acquired else acquired), l)))"

subsection \<open>The reference: count the whole history\<close>

definition in_window :: "rat \<Rightarrow> rat \<Rightarrow> rat list \<Rightarrow> rat list" where
  "in_window window now history = List.filter (\<lambda>t. now - window < t) history"

fun log_passes :: "int \<Rightarrow> rat \<Rightarrow> rat list \<Rightarrow> rat list \<Rightarrow> rat list" where
  "log_passes limit window history [] = []"
| "log_passes limit window history (now # nows) =
     (if int (length (in_window window now history)) < limit
      then now # log_passes limit window (history @ [now]) nows
      else log_passes limit window history nows)"

lemma dropWhile_sorted_filter:
  "sorted xs \<Longrightarrow> dropWhile (\<lambda>t. t \<le> (c::rat)) xs = List.filter (\<lambda>t. c < t) xs"
proof (induction xs)
  case (Cons x xs)
  show ?case
  proof (cases "x \<le> c")
    case False
    then have "List.filter (\<lambda>t. c < t) xs = xs" using Cons.prems by (intro filter_True) force
    with False show ?thesis by simp
  qed (use Cons in auto)
qed simp

text \<open>The deque is what the window of an earlier time left of the history.\<close>

definition deque_of :: "sliding_window \<Rightarrow> rat list \<Rightarrow> rat \<Rightarrow> bool" where
  "deque_of l history t \<longleftrightarrow> sorted history \<and> (\<forall>x \<in> set history. x \<le> t) \<and>
     (\<exists>c \<le> t - sw_window l. sw_times l = List.filter (\<lambda>x. c < x) history)"

lemma deque_purge:
  assumes "deque_of l history t" and "t \<le> now"
  shows "sw_times (sw_purge now l) = in_window (sw_window l) now history"
proof -
  obtain c where c: "c \<le> t - sw_window l" "sw_times l = List.filter (\<lambda>x. c < x) history" and s: "sorted history"
    using assms(1) by (auto simp: deque_of_def)
  have "sw_times (sw_purge now l) = List.filter (\<lambda>x. now - sw_window l < x) (List.filter (\<lambda>x. c < x) history)"
    using s by (simp add: sw_purge_def c(2) dropWhile_sorted_filter sorted_wrt_filter)
  also have "\<dots> = List.filter (\<lambda>x. now - sw_window l < x) history"
    using c(1) assms(2) by (auto intro!: filter_cong)
  finally show ?thesis by (simp add: in_window_def)
qed

lemma sw_purge_sel [simp]: "sw_limit (sw_purge now l) = sw_limit l" "sw_window (sw_purge now l) = sw_window l"
  by (simp_all add: sw_purge_def)

lemma deque_keep:
  assumes "deque_of l history t" and "t \<le> now"
  shows "deque_of (sw_purge now l) history now"
  using deque_purge [OF assms] assms unfolding deque_of_def in_window_def
  by (fastforce intro: exI [of _ "now - sw_window l"])

lemma deque_add:
  assumes "deque_of l history now" and "0 < sw_window l"
  shows "deque_of (l\<lparr>sw_times := sw_times l @ [now]\<rparr>) (history @ [now]) now"
proof -
  obtain c where "c \<le> now - sw_window l" "sw_times l = List.filter (\<lambda>x. c < x) history" using assms(1) by (auto simp: deque_of_def)
  with assms show ?thesis by (auto simp: deque_of_def sorted_append intro!: exI [of _ c])
qed

lemma passes_log:
  assumes "sorted (t # nows)" "deque_of l history t" "0 < sw_window l"
  shows "fst (sw_passes nows l) = log_passes (sw_limit l) (sw_window l) history nows"
  using assms
proof (induction nows arbitrary: t l history)
  case (Cons now nows)
  let ?p = "sw_purge now l"
  let ?q = "?p\<lparr>sw_times := sw_times ?p @ [now]\<rparr>"
  have tn: "t \<le> now" and s: "sorted (now # nows)" using Cons.prems(1) by auto
  have d: "deque_of ?p history now" by (rule deque_keep [OF Cons.prems(2) tn])
  have e: "deque_of ?q (history @ [now]) now" using d Cons.prems(3) by (intro deque_add) simp_all
  have cnt: "sw_times ?p = in_window (sw_window l) now history" by (rule deque_purge [OF Cons.prems(2) tn])
  show ?case
    using Cons.IH [OF s d] Cons.IH [OF s e] Cons.prems(3)
    by (simp add: acquire_pass_def Let_def cnt split_beta)
qed simp

lemma filter_count_mono: "(\<And>x. P x \<Longrightarrow> Q x) \<Longrightarrow> length (List.filter P xs) \<le> length (List.filter Q xs)"
  by (induction xs) (auto intro: le_SucI)

lemma log_window_bound:
  assumes "sorted (t # nows)" "\<forall>x \<in> set history. x \<le> t" "0 < limit"
    and "\<forall>a. int (length (List.filter (\<lambda>x. a \<le> x \<and> x < a + window) history)) \<le> limit"
  shows "int (length (List.filter (\<lambda>x. a \<le> x \<and> x < a + window) (history @ log_passes limit window history nows))) \<le> limit"
  using assms
proof (induction nows arbitrary: t history)
  case (Cons now nows)
  have s: "sorted (now # nows)" and h: "\<forall>x \<in> set history. x \<le> now" using Cons.prems(1,2) by force+
  show ?case
  proof (cases "int (length (in_window window now history)) < limit")
    case True
    have w: "int (length (List.filter (\<lambda>x. a \<le> x \<and> x < a + window) (history @ [now]))) \<le> limit" for a
    proof (cases "a \<le> now \<and> now < a + window")
      case in_a: True
      have "length (List.filter (\<lambda>x. a \<le> x \<and> x < a + window) history) \<le> length (in_window window now history)"
        unfolding in_window_def using in_a by (intro filter_count_mono) auto
      with True in_a show ?thesis by simp
    next
      case False
      then show ?thesis using Cons.prems(4) by auto
    qed
    have "\<forall>x \<in> set (history @ [now]). x \<le> now" using h by auto
    from Cons.IH [OF s this Cons.prems(3)] w True show ?thesis by simp
  next
    case False
    then show ?thesis using Cons.IH [OF s h Cons.prems(3,4)] by simp
  qed
qed simp

subsection \<open>An acquire that runs alone ends\<close>

definition never_back :: "(nat \<Rightarrow> rat) \<Rightarrow> bool" where
  "never_back elapse \<longleftrightarrow> (\<forall>n. 0 \<le> elapse n)"

definition sw_ok :: "sliding_window \<Rightarrow> bool" where
  "sw_ok l \<longleftrightarrow> 0 < sw_limit l \<and> 0 < sw_window l \<and> int (length (sw_times l)) \<le> sw_limit l"

lemma sw_ok_new: "new_sliding_window limit window = Inr l \<Longrightarrow> sw_ok l"
  by (auto simp: new_sliding_window_def sw_ok_def split: if_splits)

lemma purge_shorter: "length (sw_times (sw_purge now l)) \<le> length (sw_times l)"
  by (simp add: sw_purge_def length_dropWhile_le)

lemma sw_ok_pass: "sw_ok l \<Longrightarrow> sw_ok (snd (acquire_pass now l))"
  using purge_shorter [of now l] by (auto simp: sw_ok_def acquire_pass_def Let_def)

text \<open>After the sleep a refused pass asks for, the oldest acquisition has left the window.\<close>

lemma second_pass:
  assumes "sw_ok l" and "acquire_pass now l = (Some wait, l')" and "now + wait \<le> later"
  shows "fst (acquire_pass later l') = None"
proof -
  have l': "l' = sw_purge now l" and w: "wait = max 0 (hd (sw_times l') + sw_window l' - now)"
    and full: "sw_limit l' \<le> int (length (sw_times l'))"
    using assms(2) by (auto simp: acquire_pass_def Let_def split: if_splits)
  then have ne: "sw_times l' \<noteq> []" using assms(1) by (auto simp: sw_ok_def)
  have "hd (sw_times l') + sw_window l' \<le> now + wait" using w by simp
  then have "hd (sw_times l') \<le> later - sw_window l'" using assms(3) by simp
  then have "length (sw_times (sw_purge later l')) < length (sw_times l')"
    using ne by (cases "sw_times l'") (simp_all add: sw_purge_def length_dropWhile_le le_imp_less_Suc)
  moreover have "int (length (sw_times l')) \<le> sw_limit l'"
    using sw_ok_pass [OF assms(1), of now] assms(2) by (simp add: sw_ok_def)
  ultimately show ?thesis by (simp add: acquire_pass_def Let_def)
qed

lemma acquire_ends:
  assumes "sw_ok l" and "never_back elapse"
  shows "\<exists>m time' l'. sw_acquire elapse n time l = Some (m, time', l') \<and> m \<in> {Suc n, Suc (Suc n)} \<and> sw_ok l'"
proof (cases "acquire_pass (time + elapse n) l")
  case (Pair r l1)
  have ok1: "sw_ok l1" using sw_ok_pass [OF assms(1), of "time + elapse n"] Pair by simp
  show ?thesis
  proof (cases r)
    case None
    then have "sw_acquire elapse n time l = Some (Suc n, time + elapse n, l1)"
      using Pair by (subst sw_acquire.simps) (simp add: Let_def)
    then show ?thesis using ok1 by simp
  next
    case (Some wait)
    let ?later = "time + elapse n + wait + elapse (Suc n)"
    have "fst (acquire_pass ?later l1) = None"
      using second_pass [OF assms(1)] Pair Some assms(2) by (simp add: never_back_def)
    then obtain l2 where l2: "acquire_pass ?later l1 = (None, l2)" by (cases "acquire_pass ?later l1") auto
    have "sw_acquire elapse n time l = Some (Suc (Suc n), ?later, l2)"
      using Pair Some l2 by (subst sw_acquire.simps, subst sw_acquire.simps) (simp add: Let_def)
    moreover have "sw_ok l2" using sw_ok_pass [OF ok1, of ?later] l2 by simp
    ultimately show ?thesis by simp
  qed
qed

section \<open>The provider limiter\<close>

text \<open>
  \<open>gl_slots\<close> is the value of the semaphore.  The proactive window is missing when the rate limit
  is 0.
\<close>

record global_limiter =
  gl_rate_limit :: int
  gl_rate_window :: rat
  gl_max_concurrency :: int
  gl_proactive :: "sliding_window option"
  gl_blocked_until :: rat
  gl_slots :: int

definition UPSTREAM_TRANSIENT_TOTAL_ATTEMPTS :: nat where "UPSTREAM_TRANSIENT_TOTAL_ATTEMPTS = 5"

definition DEFAULT_UPSTREAM_MAX_RETRIES :: nat where
  "DEFAULT_UPSTREAM_MAX_RETRIES = UPSTREAM_TRANSIENT_TOTAL_ATTEMPTS - 1"

definition new_global_limiter :: "int \<Rightarrow> rat \<Rightarrow> int \<Rightarrow> py_error + global_limiter" where
  "new_global_limiter rate_limit rate_window max_concurrency =
     (if rate_limit < 0 then Inl ValueError
      else if rate_window \<le> 0 then Inl ValueError
      else if max_concurrency \<le> 0 then Inl ValueError
      else
        (case (if rate_limit > 0 then (case new_sliding_window rate_limit rate_window of
                                         Inl x \<Rightarrow> Inl x | Inr l \<Rightarrow> Inr (Some l))
               else Inr None) of
           Inl x \<Rightarrow> Inl x
         | Inr proactive \<Rightarrow>
             Inr \<lparr>gl_rate_limit = rate_limit, gl_rate_window = rate_window,
                  gl_max_concurrency = max_concurrency, gl_proactive = proactive,
                  gl_blocked_until = 0, gl_slots = max_concurrency\<rparr>))"

definition matches_config :: "int \<Rightarrow> rat \<Rightarrow> int \<Rightarrow> global_limiter \<Rightarrow> bool" where
  "matches_config rate_limit rate_window max_concurrency g \<longleftrightarrow>
     gl_rate_limit g = rate_limit \<and> gl_rate_window g = rate_window \<and> gl_max_concurrency g = max_concurrency"

text \<open>\<open>_scoped_instances\<close> maps a scope to its limiter; \<open>rate_window or 60.0\<close> also replaces 0.\<close>

definition window_or_default :: "rat option \<Rightarrow> rat" where
  "window_or_default w = (case w of Some x \<Rightarrow> if x = 0 then 60 else x | None \<Rightarrow> 60)"

definition limit_or_default :: "int option \<Rightarrow> int" where
  "limit_or_default r = (case r of Some x \<Rightarrow> x | None \<Rightarrow> 40)"

definition get_scoped_instance ::
  "string \<Rightarrow> int option \<Rightarrow> rat option \<Rightarrow> int \<Rightarrow> (string, global_limiter) dict \<Rightarrow>
   py_error + global_limiter \<times> (string, global_limiter) dict" where
  "get_scoped_instance scope rate_limit rate_window max_concurrency instances =
     (if scope = [] then Inl ValueError
      else
        (let desired_rate_limit = limit_or_default rate_limit; desired_rate_window = window_or_default rate_window;
             fresh = (case new_global_limiter desired_rate_limit desired_rate_window max_concurrency of
                        Inl x \<Rightarrow> Inl x
                      | Inr g \<Rightarrow> Inr (g, dset scope g instances))
         in case map_of instances scope of
              Some existing \<Rightarrow>
                if matches_config desired_rate_limit desired_rate_window max_concurrency existing
                then Inr (existing, instances) else fresh
            | None \<Rightarrow> fresh))"

definition get_instance ::
  "int option \<Rightarrow> rat option \<Rightarrow> int \<Rightarrow> global_limiter option \<Rightarrow> py_error + global_limiter" where
  "get_instance rate_limit rate_window max_concurrency inst =
     (case inst of
        Some g \<Rightarrow> Inr g
      | None \<Rightarrow> new_global_limiter (limit_or_default rate_limit) (window_or_default rate_window) max_concurrency)"

definition set_blocked :: "rat \<Rightarrow> rat \<Rightarrow> global_limiter \<Rightarrow> global_limiter" where
  "set_blocked now seconds g = g\<lparr>gl_blocked_until := now + seconds\<rparr>"

definition is_blocked :: "rat \<Rightarrow> global_limiter \<Rightarrow> bool" where
  "is_blocked now g \<longleftrightarrow> now < gl_blocked_until g"

definition remaining_wait :: "rat \<Rightarrow> global_limiter \<Rightarrow> rat" where
  "remaining_wait now g = max 0 (gl_blocked_until g - now)"

text \<open>\<open>concurrency_slot\<close>: entering takes a slot or waits (\<open>None\<close>), leaving gives it back.\<close>

definition enter_slot :: "global_limiter \<Rightarrow> global_limiter option" where
  "enter_slot g = (if 0 < gl_slots g then Some (g\<lparr>gl_slots := gl_slots g - 1\<rparr>) else None)"

definition leave_slot :: "global_limiter \<Rightarrow> global_limiter" where
  "leave_slot g = g\<lparr>gl_slots := gl_slots g + 1\<rparr>"

section \<open>Retrying an upstream call\<close>

text \<open>
  \<open>retryable_upstream_status\<close>: a class of the SDK other than those with a constructor of their
  own is \<open>APIStatusError\<close>; authentication and bad-request errors carry 401 and 400.
\<close>

fun retryable_upstream_status :: "stream_exn \<Rightarrow> int option" where
  "retryable_upstream_status RateLimitError = Some 429"
| "retryable_upstream_status (HTTPStatusError status) = (if retryable_status status then Some status else None)"
| "retryable_upstream_status APITimeoutError = Some 408"
| "retryable_upstream_status APIConnectionError = Some 408"
| "retryable_upstream_status APIError = Some 500"
| "retryable_upstream_status (APIStatusError (Some status)) =
     (if 500 \<le> status \<and> status \<le> 599 then Some status else None)"
| "retryable_upstream_status _ = None"

datatype limiter_act = Slept rat | Called | BlockedFor rat

record limiter_world =
  lw_limiter :: global_limiter
  lw_time :: rat
  lw_reads :: nat

definition lw_monotonic :: "(nat \<Rightarrow> rat) \<Rightarrow> limiter_world \<Rightarrow> rat \<times> limiter_world" where
  "lw_monotonic elapse w =
     (let now = lw_time w + elapse (lw_reads w) in (now, w\<lparr>lw_time := now, lw_reads := Suc (lw_reads w)\<rparr>))"

definition lw_sleep :: "rat \<Rightarrow> limiter_world \<Rightarrow> limiter_world" where
  "lw_sleep d w = w\<lparr>lw_time := lw_time w + max 0 d\<rparr>"

definition acquire_proactive_slot :: "(nat \<Rightarrow> rat) \<Rightarrow> limiter_world \<Rightarrow> limiter_world option" where
  "acquire_proactive_slot elapse w =
     (case gl_proactive (lw_limiter w) of
        None \<Rightarrow> Some w
      | Some l \<Rightarrow>
          map_option (\<lambda>(n, time, l). w\<lparr>lw_limiter := (lw_limiter w)\<lparr>gl_proactive := Some l\<rparr>, lw_time := time, lw_reads := n\<rparr>)
            (sw_acquire elapse (lw_reads w) (lw_time w) l))"

definition wait_if_blocked ::
  "(nat \<Rightarrow> rat) \<Rightarrow> limiter_world \<Rightarrow> (bool \<times> limiter_act list \<times> limiter_world) option" where
  "wait_if_blocked elapse w =
     (let (now, w) = lw_monotonic elapse w;
          wait_time = gl_blocked_until (lw_limiter w) - now;
          waited_reactively = is_blocked now (lw_limiter w);
          w = (if waited_reactively then lw_sleep wait_time w else w)
      in map_option (\<lambda>w. (waited_reactively, if waited_reactively then [Slept wait_time] else [], w))
           (acquire_proactive_slot elapse w))"

text \<open>
  The callable, the jitter drawn for an attempt and the clock are given; \<open>attempt\<close> counts from 0.
  \<open>None\<close> is a run that never returns.
\<close>

record 'a retry_env =
  re_call :: "nat \<Rightarrow> stream_exn + 'a"
  re_elapse :: "nat \<Rightarrow> rat"
  re_jitter :: "nat \<Rightarrow> rat"
  re_max_retries :: nat
  re_base_delay :: rat
  re_max_delay :: rat

definition retry_delay :: "'a retry_env \<Rightarrow> nat \<Rightarrow> rat" where
  "retry_delay e attempt = min (re_base_delay e * 2 ^ attempt) (re_max_delay e) + re_jitter e attempt"

definition schedule_retry :: "'a retry_env \<Rightarrow> rat \<Rightarrow> limiter_world \<Rightarrow> limiter_world" where
  "schedule_retry e delay w =
     (let (now, w) = lw_monotonic (re_elapse e) w
      in lw_sleep delay (w\<lparr>lw_limiter := set_blocked now delay (lw_limiter w)\<rparr>))"

function retry_from ::
  "'a retry_env \<Rightarrow> nat \<Rightarrow> limiter_world \<Rightarrow> ((stream_exn + 'a) \<times> limiter_act list \<times> limiter_world) option" where
  "retry_from e attempt w =
     Option.bind (wait_if_blocked (re_elapse e) w) (\<lambda>(_, acts, w).
       case re_call e attempt of
         Inr v \<Rightarrow> Some (Inr v, acts @ [Called], w)
       | Inl x \<Rightarrow>
           if retryable_upstream_status x = None \<or> re_max_retries e \<le> attempt
           then Some (Inl x, acts @ [Called], w)
           else map_option (\<lambda>(r, acts', w).
                    (r, acts @ [Called, BlockedFor (retry_delay e attempt), Slept (retry_delay e attempt)] @ acts', w))
                  (retry_from e (Suc attempt) (schedule_retry e (retry_delay e attempt) w)))"
  by pat_completeness auto
termination
  by (relation "measure (\<lambda>(e, attempt, w). re_max_retries e - attempt)") auto

declare retry_from.simps [simp del]

definition execute_with_retry ::
  "'a retry_env \<Rightarrow> limiter_world \<Rightarrow> ((stream_exn + 'a) \<times> limiter_act list \<times> limiter_world) option" where
  "execute_with_retry e w = retry_from e 0 w"

text \<open>The specification: the first outcome that is final, at the latest that of the last attempt.\<close>

definition final_outcome :: "'a retry_env \<Rightarrow> nat \<Rightarrow> bool" where
  "final_outcome e k \<longleftrightarrow>
     (case re_call e k of Inr _ \<Rightarrow> True | Inl x \<Rightarrow> retryable_upstream_status x = None) \<or> re_max_retries e \<le> k"

definition backoffs :: "limiter_act list \<Rightarrow> rat list" where
  "backoffs acts = concat (map (\<lambda>a. case a of BlockedFor d \<Rightarrow> [d] | _ \<Rightarrow> []) acts)"

definition calls_made :: "limiter_act list \<Rightarrow> nat" where
  "calls_made acts = length (List.filter (\<lambda>a. a = Called) acts)"

definition world_ok :: "limiter_world \<Rightarrow> bool" where
  "world_ok w \<longleftrightarrow> (case gl_proactive (lw_limiter w) of Some l \<Rightarrow> sw_ok l | None \<Rightarrow> True)"

lemma world_ok_new:
  assumes "new_global_limiter limit window conc = Inr g"
  shows "world_ok \<lparr>lw_limiter = g, lw_time = t, lw_reads = n\<rparr>"
  using assms sw_ok_new unfolding new_global_limiter_def world_ok_def
  by (auto split: if_splits sum.splits)

lemma acquire_proactive_ends:
  assumes "world_ok w" and "never_back elapse"
  shows "\<exists>w'. acquire_proactive_slot elapse w = Some w' \<and> world_ok w'"
proof (cases "gl_proactive (lw_limiter w)")
  case None
  then show ?thesis using assms(1) by (simp add: acquire_proactive_slot_def)
next
  case (Some l)
  then have "sw_ok l" using assms(1) by (simp add: world_ok_def)
  from acquire_ends [OF this assms(2), of "lw_reads w" "lw_time w"]
  obtain m time' l' where "sw_acquire elapse (lw_reads w) (lw_time w) l = Some (m, time', l')" "sw_ok l'"
    by blast
  then show ?thesis by (simp add: acquire_proactive_slot_def Some world_ok_def)
qed

lemma wait_if_blocked_ends:
  assumes "world_ok w" and "never_back elapse"
  shows "\<exists>waited acts w'. wait_if_blocked elapse w = Some (waited, acts, w') \<and> world_ok w' \<and>
    calls_made acts = 0 \<and> backoffs acts = []"
proof -
  let ?w = "snd (lw_monotonic elapse w)"
  let ?s = "if is_blocked (fst (lw_monotonic elapse w)) (lw_limiter ?w)
            then lw_sleep (gl_blocked_until (lw_limiter ?w) - fst (lw_monotonic elapse w)) ?w else ?w"
  have "world_ok ?s" using assms(1) by (simp add: world_ok_def lw_monotonic_def lw_sleep_def Let_def)
  from acquire_proactive_ends [OF this assms(2)]
  obtain w' where "acquire_proactive_slot elapse ?s = Some w'" "world_ok w'" by blast
  then show ?thesis by (simp add: wait_if_blocked_def Let_def split_beta calls_made_def backoffs_def)
qed

lemma world_ok_schedule: "world_ok w \<Longrightarrow> world_ok (schedule_retry e d w)"
  by (simp add: world_ok_def schedule_retry_def lw_monotonic_def lw_sleep_def set_blocked_def Let_def)

lemma act_counts:
  "calls_made (xs @ ys) = calls_made xs + calls_made ys" "calls_made [] = 0"
  "calls_made (a # xs) = (if a = Called then 1 else 0) + calls_made xs"
  "backoffs (xs @ ys) = backoffs xs @ backoffs ys" "backoffs [] = []"
  "backoffs (BlockedFor d # xs) = d # backoffs xs" "backoffs (Slept d # xs) = backoffs xs"
  "backoffs (Called # xs) = backoffs xs"
  by (simp_all add: calls_made_def backoffs_def)

lemma retry_from_run:
  assumes "world_ok w" and "never_back (re_elapse e)" and "attempt \<le> re_max_retries e"
  shows "\<exists>k acts w'. attempt \<le> k \<and> k \<le> re_max_retries e \<and> retry_from e attempt w = Some (re_call e k, acts, w') \<and>
    final_outcome e k \<and> (\<forall>j. attempt \<le> j \<and> j < k \<longrightarrow> \<not> final_outcome e j) \<and>
    calls_made acts = Suc (k - attempt) \<and> backoffs acts = map (retry_delay e) [attempt..<k]"
  using assms
proof (induction "re_max_retries e - attempt" arbitrary: attempt w)
  case 0
  then have last: "re_max_retries e = attempt" by simp
  obtain waited acts w1 where w1: "wait_if_blocked (re_elapse e) w = Some (waited, acts, w1)" "calls_made acts = 0" "backoffs acts = []"
    using wait_if_blocked_ends [OF 0(2,3)] by blast
  show ?case
    by (rule exI [of _ attempt], subst retry_from.simps)
      (simp add: w1 last final_outcome_def act_counts split: sum.split)
next
  case (Suc n)
  obtain waited acts w1 where w1: "wait_if_blocked (re_elapse e) w = Some (waited, acts, w1)" "world_ok w1"
      "calls_made acts = 0" "backoffs acts = []"
    using wait_if_blocked_ends [OF Suc.prems(1,2)] by blast
  show ?case
  proof (cases "final_outcome e attempt")
    case True
    then show ?thesis using Suc.prems(3)
      by (intro exI [of _ attempt], subst retry_from.simps)
        (auto simp: w1 final_outcome_def act_counts split: sum.splits)
  next
    case False
    let ?w = "schedule_retry e (retry_delay e attempt) w1"
    from False obtain x where x: "re_call e attempt = Inl x" "retryable_upstream_status x \<noteq> None" "attempt < re_max_retries e"
      by (auto simp: final_outcome_def split: sum.splits)
    have "n = re_max_retries e - Suc attempt" "Suc attempt \<le> re_max_retries e" using Suc.hyps(2) x(3) by simp_all
    from Suc.hyps(1) [OF this(1) world_ok_schedule [OF w1(2)] Suc.prems(2) this(2)]
    obtain k acts' w' where k: "Suc attempt \<le> k" "k \<le> re_max_retries e" "final_outcome e k"
        "\<forall>j. Suc attempt \<le> j \<and> j < k \<longrightarrow> \<not> final_outcome e j" "calls_made acts' = Suc (k - Suc attempt)"
        "backoffs acts' = map (retry_delay e) [Suc attempt..<k]"
      and r: "retry_from e (Suc attempt) ?w = Some (re_call e k, acts', w')"
      by blast
    have "[attempt..<k] = attempt # [Suc attempt..<k]" using k(1) by (simp add: upt_conv_Cons)
    moreover have "\<not> final_outcome e j" if "attempt \<le> j" "j < k" for j
      using that False k(4) by (cases "j = attempt") auto
    moreover have "retry_from e attempt w = Some (re_call e k,
        acts @ [Called, BlockedFor (retry_delay e attempt), Slept (retry_delay e attempt)] @ acts', w')"
      using x by (subst retry_from.simps) (simp add: w1 r)
    ultimately show ?thesis using k w1
      by (intro exI conjI) (auto simp: act_counts)
  qed
qed

lemma window_bound:
  assumes "new_sliding_window rate_limit rate_window = Inr l" and "sorted nows"
  shows "int (length (List.filter (\<lambda>t. a \<le> t \<and> t < a + rate_window) (fst (sw_passes nows l)))) \<le> rate_limit"
proof -
  have l: "l = \<lparr>sw_limit = rate_limit, sw_window = rate_window, sw_times = []\<rparr>" and pos: "0 < rate_limit" "0 < rate_window"
    using assms(1) by (auto simp: new_sliding_window_def split: if_splits)
  define t where "t = (case nows of [] \<Rightarrow> 0 | x # _ \<Rightarrow> x)"
  have s: "sorted (t # nows)" using assms(2) by (cases nows) (auto simp: t_def)
  moreover have "deque_of l [] t" by (auto simp: deque_of_def l)
  ultimately have "fst (sw_passes nows l) = log_passes rate_limit rate_window [] nows"
    using passes_log [of t nows l "[]"] pos by (simp add: l)
  then show ?thesis using log_window_bound [OF s, of "[]"] pos by simp
qed

section \<open>Properties\<close>

text \<open>
  C26: the deque of the strict sliding window decides as a limiter that keeps every acquisition
  and counts those of the last window: whatever tasks share it and whenever they pass, the
  acquisitions are those of the reference.
\<close>

theorem sliding_window_equiv:
  assumes "new_sliding_window rate_limit rate_window = Inr l" and "sorted nows"
  shows "fst (sw_passes nows l) = log_passes rate_limit rate_window [] nows"
proof -
  have l: "l = \<lparr>sw_limit = rate_limit, sw_window = rate_window, sw_times = []\<rparr>" and pos: "0 < rate_window"
    using assms(1) by (auto simp: new_sliding_window_def split: if_splits)
  define t where "t = (case nows of [] \<Rightarrow> 0 | x # _ \<Rightarrow> x)"
  have "sorted (t # nows)" using assms(2) by (cases nows) (auto simp: t_def)
  moreover have "deque_of l [] t" by (auto simp: deque_of_def l)
  ultimately show ?thesis using passes_log [of t nows l "[]"] pos by (simp add: l)
qed

theorem sliding_window_equiv_witness:
  "fst (sw_passes [0, 1, 2, 60] \<lparr>sw_limit = 2, sw_window = 60, sw_times = []\<rparr>) = log_passes 2 60 [] [0, 1, 2, 60]"
  by (rule sliding_window_equiv) (simp_all add: new_sliding_window_def)

text \<open>
  C25: at most \<open>rate_limit\<close> acquisitions fall in any half-open interval of the length of the
  window, whatever tasks share the limiter.
\<close>

theorem strict_window:
  assumes "new_sliding_window rate_limit rate_window = Inr l" and "sorted nows"
  shows "int (length (List.filter (\<lambda>t. a \<le> t \<and> t < a + rate_window) (fst (sw_passes nows l)))) \<le> rate_limit"
  by (rule window_bound [OF assms])

theorem strict_window_witness:
  "int (length (List.filter (\<lambda>t. 0 \<le> t \<and> t < 0 + 60)
     (fst (sw_passes [0, 1, 2, 60] \<lparr>sw_limit = 2, sw_window = 60, sw_times = []\<rparr>)))) \<le> 2"
  by (rule strict_window) (simp_all add: new_sliding_window_def)

text \<open>
  The interval has to be half-open: two tasks that pass exactly one window apart both get a
  slot of a limiter with one slot, so the closed interval holds one acquisition more.
\<close>

lemma closed_window_exceeded:
  "fst (sw_passes [a, a + w] \<lparr>sw_limit = 1, sw_window = w, sw_times = []\<rparr>) = [a, a + w]"
  by (simp add: acquire_pass_def sw_purge_def Let_def)

text \<open>
  A task alone on a limiter whose sleeps last as long as asked gets its slot after one sleep
  at most, so \<open>acquire\<close> returns.
\<close>

lemma acquire_returns:
  assumes "sw_ok l" and "never_back elapse"
  shows "\<exists>m time' l'. sw_acquire elapse n time l = Some (m, time', l') \<and> m \<in> {Suc n, Suc (Suc n)} \<and> sw_ok l'"
  by (rule acquire_ends [OF assms])

lemma acquire_returns_example:
  "\<exists>m time' l'. sw_acquire (\<lambda>_. 0) 0 5 \<lparr>sw_limit = 1, sw_window = 60, sw_times = [1]\<rparr> = Some (m, time', l') \<and>
     m \<in> {Suc 0, Suc (Suc 0)} \<and> sw_ok l'"
  by (rule acquire_returns) (simp_all add: sw_ok_def never_back_def)

text \<open>
  C27: \<open>execute_with_retry\<close> returns, with the outcome of the first call that is final (a result or
  an error that must not be retried) or of the last allowed one; it calls upstream once for each
  attempt up to it and blocks the scope with the backoff of every attempt before it.
\<close>

theorem retry_outcome:
  assumes "world_ok w" and "never_back (re_elapse e)"
  shows "\<exists>k acts w'. execute_with_retry e w = Some (re_call e k, acts, w') \<and> k \<le> re_max_retries e \<and>
    final_outcome e k \<and> (\<forall>j < k. \<not> final_outcome e j) \<and> calls_made acts = Suc k \<and>
    backoffs acts = map (retry_delay e) [0..<k]"
  using retry_from_run [OF assms, of 0] unfolding execute_with_retry_def by auto

definition flaky_call :: "nat retry_env" where
  "flaky_call = \<lparr>re_call = (\<lambda>k. if k < 2 then Inl RateLimitError else Inr k), re_elapse = (\<lambda>_. 0),
     re_jitter = (\<lambda>_. 0), re_max_retries = DEFAULT_UPSTREAM_MAX_RETRIES, re_base_delay = 2, re_max_delay = 60\<rparr>"

definition idle_world :: limiter_world where
  "idle_world = \<lparr>lw_limiter = \<lparr>gl_rate_limit = 1, gl_rate_window = 60, gl_max_concurrency = 5,
     gl_proactive = Some \<lparr>sw_limit = 1, sw_window = 60, sw_times = []\<rparr>, gl_blocked_until = 0, gl_slots = 5\<rparr>,
     lw_time = 0, lw_reads = 0\<rparr>"

theorem retry_outcome_witness:
  "\<exists>acts w'. execute_with_retry flaky_call idle_world = Some (Inr 2, acts, w') \<and> calls_made acts = 3 \<and>
    backoffs acts = map (retry_delay flaky_call) [0, 1]"
proof -
  obtain k acts w' where k: "execute_with_retry flaky_call idle_world = Some (re_call flaky_call k, acts, w')"
    "final_outcome flaky_call k" "\<forall>j < k. \<not> final_outcome flaky_call j" "calls_made acts = Suc k"
    "backoffs acts = map (retry_delay flaky_call) [0..<k]"
    using retry_outcome [of idle_world flaky_call]
    by (auto simp: idle_world_def flaky_call_def world_ok_def sw_ok_def never_back_def)
  have "final_outcome flaky_call 2" "\<not> final_outcome flaky_call 0" "\<not> final_outcome flaky_call 1"
    by (simp_all add: flaky_call_def final_outcome_def DEFAULT_UPSTREAM_MAX_RETRIES_def
          UPSTREAM_TRANSIENT_TOTAL_ATTEMPTS_def)
  then have "\<not> 2 < k" "k \<noteq> 0" "k \<noteq> 1" using k(2,3) by metis+
  then have "k = 2" by linarith
  with k show ?thesis by (auto simp: flaky_call_def upt_rec)
qed

end
