(* ===== verification/Message_Tree.thy ===== *)
theory Message_Tree
  imports Py_Json
begin

text \<open>
  The message tree of a conversation (\<open>messaging/trees/data.py\<close>): the queue with its set index,
  nodes, and the tree with its lookup tables and queue.

  Every method runs without giving up control between its first and last statement (the lock is
  never held across a suspension), so each is one function on the tree.  Node objects live in the
  tree's table; a method that mutates a node updates its entry.  Time stamps are their ISO texts;
  the current time is an argument.
\<close>

section \<open>The queue\<close>

record snapshot_queue =
  sq_deque :: "string list"
  sq_set :: "string set"

definition new_queue :: snapshot_queue where
  "new_queue = \<lparr>sq_deque = [], sq_set = {}\<rparr>"

definition sq_put :: "string \<Rightarrow> snapshot_queue \<Rightarrow> snapshot_queue" where
  "sq_put item q = \<lparr>sq_deque = sq_deque q @ [item], sq_set = insert item (sq_set q)\<rparr>"

text \<open>\<open>get_nowait\<close>: \<open>None\<close> for \<open>QueueEmpty\<close>.\<close>

definition sq_get :: "snapshot_queue \<Rightarrow> (string \<times> snapshot_queue) option" where
  "sq_get q =
     (case sq_deque q of
        [] \<Rightarrow> None
      | item # rest \<Rightarrow> Some (item, \<lparr>sq_deque = rest, sq_set = sq_set q - {item}\<rparr>))"

definition sq_remove :: "string \<Rightarrow> snapshot_queue \<Rightarrow> bool \<times> snapshot_queue" where
  "sq_remove item q =
     (if item \<notin> sq_set q then (False, q)
      else (True, \<lparr>sq_deque = List.filter (\<lambda>x. x \<noteq> item) (sq_deque q), sq_set = sq_set q - {item}\<rparr>))"

text \<open>The set index agrees with the deque as long as no item is queued twice.\<close>

definition queue_ok :: "snapshot_queue \<Rightarrow> bool" where
  "queue_ok q \<longleftrightarrow> distinct (sq_deque q) \<and> sq_set q = set (sq_deque q)"

lemma queue_ok_new: "queue_ok new_queue"
  by (simp add: queue_ok_def new_queue_def)

lemma queue_ok_put: "queue_ok q \<Longrightarrow> x \<notin> set (sq_deque q) \<Longrightarrow> queue_ok (sq_put x q)"
  by (auto simp: queue_ok_def sq_put_def)

lemma queue_ok_get: "queue_ok q \<Longrightarrow> sq_get q = Some (x, q') \<Longrightarrow> queue_ok q'"
  by (auto simp: queue_ok_def sq_get_def split: list.splits)

lemma queue_ok_remove: "queue_ok q \<Longrightarrow> queue_ok (snd (sq_remove x q))"
  by (auto simp: queue_ok_def sq_remove_def)

lemma sq_remove_deque:
  "queue_ok q \<Longrightarrow> sq_deque (snd (sq_remove x q)) = List.filter (\<lambda>y. y \<noteq> x) (sq_deque q)"
  by (auto simp: queue_ok_def sq_remove_def intro!: filter_True [symmetric])

section \<open>Nodes\<close>

datatype message_state = PENDING | IN_PROGRESS | COMPLETED | ERROR

fun state_value :: "message_state \<Rightarrow> string" where
  "state_value PENDING = ''pending''"
| "state_value IN_PROGRESS = ''in_progress''"
| "state_value COMPLETED = ''completed''"
| "state_value ERROR = ''error''"

text \<open>\<open>MessageState(value)\<close>.\<close>

definition state_of_value :: "json \<Rightarrow> py_error + message_state" where
  "state_of_value v =
     (if v = JStr ''pending'' then Inr PENDING
      else if v = JStr ''in_progress'' then Inr IN_PROGRESS
      else if v = JStr ''completed'' then Inr COMPLETED
      else if v = JStr ''error'' then Inr ERROR
      else Inl ValueError)"

record incoming_message =
  im_text :: json
  im_chat_id :: json
  im_user_id :: json
  im_message_id :: json
  im_platform :: json
  im_reply_to_message_id :: json
  im_message_thread_id :: json
  im_username :: json

record message_node =
  mn_node_id :: string
  mn_incoming :: incoming_message
  mn_status_message_id :: string
  mn_state :: message_state
  mn_parent_id :: "string option"
  mn_session_id :: "string option"
  mn_children_ids :: "string list"
  mn_created_at :: string
  mn_completed_at :: "string option"
  mn_error_message :: "string option"

definition new_node :: "string \<Rightarrow> string \<Rightarrow> incoming_message \<Rightarrow> string \<Rightarrow> string option \<Rightarrow> message_node" where
  "new_node now node_id incoming status_message_id parent_id =
     \<lparr>mn_node_id = node_id, mn_incoming = incoming, mn_status_message_id = status_message_id,
      mn_state = PENDING, mn_parent_id = parent_id, mn_session_id = None, mn_children_ids = [],
      mn_created_at = now, mn_completed_at = None, mn_error_message = None\<rparr>"

section \<open>The tree\<close>

text \<open>
  \<open>mt_tasks\<close> are the asyncio tasks created for the tree, in order; \<open>_current_task\<close> is one of them.
  A task that was asked to cancel before its first step never runs its body; one in its body gets
  \<open>CancelledError\<close> at the next suspension.  \<open>mt_detached\<close> holds the node objects that left the
  table: a task may still look at its own.
\<close>

datatype task_phase = TaskCreated | TaskRunning | TaskNotifying | TaskDone

record task =
  tk_node :: string
  tk_phase :: task_phase
  tk_cancel :: bool

record message_tree =
  mt_root_id :: string
  mt_nodes :: "(string, message_node) dict"
  mt_status :: "(string, string) dict"
  mt_queue :: snapshot_queue
  mt_is_processing :: bool
  mt_current :: "string option"
  mt_task :: "nat option"
  mt_tasks :: "task list"
  mt_detached :: "message_node list"

definition new_tree :: "message_node \<Rightarrow> message_tree" where
  "new_tree root = \<lparr>mt_root_id = mn_node_id root, mt_nodes = [(mn_node_id root, root)],
     mt_status = [(mn_status_message_id root, mn_node_id root)], mt_queue = new_queue,
     mt_is_processing = False, mt_current = None, mt_task = None, mt_tasks = [], mt_detached = []\<rparr>"

definition set_current_task :: "nat option \<Rightarrow> message_tree \<Rightarrow> message_tree" where
  "set_current_task task t = t\<lparr>mt_task := task\<rparr>"

abbreviation get_node :: "message_tree \<Rightarrow> string \<Rightarrow> message_node option" where
  "get_node t \<equiv> map_of (mt_nodes t)"

definition put_node :: "message_node \<Rightarrow> message_tree \<Rightarrow> message_tree" where
  "put_node n t = t\<lparr>mt_nodes := dset (mn_node_id n) n (mt_nodes t)\<rparr>"

text \<open>The new entry is in the table before its parent's list of children grows.\<close>

definition add_node ::
  "string \<Rightarrow> string \<Rightarrow> incoming_message \<Rightarrow> string \<Rightarrow> string \<Rightarrow> message_tree \<Rightarrow> py_error + message_node \<times> message_tree" where
  "add_node now node_id incoming status_message_id parent_id t =
     (if get_node t parent_id = None then Inl ValueError
      else
        (let node = new_node now node_id incoming status_message_id (Some parent_id);
             nodes = dset node_id node (mt_nodes t);
             parent = the (map_of nodes parent_id)
         in Inr (node, t\<lparr>mt_nodes := dset parent_id (parent\<lparr>mn_children_ids := mn_children_ids parent @ [node_id]\<rparr>) nodes,
                         mt_status := dset status_message_id node_id (mt_status t)\<rparr>)))"

definition get_root :: "message_tree \<Rightarrow> py_error + message_node" where
  "get_root t = (case get_node t (mt_root_id t) of Some n \<Rightarrow> Inr n | None \<Rightarrow> Inl KeyError)"

definition get_children :: "message_tree \<Rightarrow> string \<Rightarrow> message_node list" where
  "get_children t node_id =
     (case get_node t node_id of
        None \<Rightarrow> []
      | Some node \<Rightarrow> List.map_filter (get_node t) (mn_children_ids node))"

definition get_parent :: "message_tree \<Rightarrow> string \<Rightarrow> message_node option" where
  "get_parent t node_id =
     (case get_node t node_id of
        None \<Rightarrow> None
      | Some node \<Rightarrow>
          (case mn_parent_id node of
             None \<Rightarrow> None
           | Some p \<Rightarrow> if p = [] then None else get_node t p))"

definition get_parent_session_id :: "message_tree \<Rightarrow> string \<Rightarrow> string option" where
  "get_parent_session_id t node_id = Option.bind (get_parent t node_id) mn_session_id"

definition update_state ::
  "string \<Rightarrow> string \<Rightarrow> message_state \<Rightarrow> string option \<Rightarrow> string option \<Rightarrow> message_tree \<Rightarrow> message_tree" where
  "update_state now node_id state session_id error_message t =
     (case get_node t node_id of
        None \<Rightarrow> t
      | Some node \<Rightarrow>
          (let node = node\<lparr>mn_state := state\<rparr>;
               node = (case session_id of Some s \<Rightarrow> if s \<noteq> [] then node\<lparr>mn_session_id := Some s\<rparr> else node | None \<Rightarrow> node);
               node = (case error_message of Some m \<Rightarrow> if m \<noteq> [] then node\<lparr>mn_error_message := Some m\<rparr> else node | None \<Rightarrow> node);
               node = (if state = COMPLETED \<or> state = ERROR then node\<lparr>mn_completed_at := Some now\<rparr> else node)
           in t\<lparr>mt_nodes := dset node_id node (mt_nodes t)\<rparr>))"

definition tree_enqueue :: "string \<Rightarrow> message_tree \<Rightarrow> nat \<times> message_tree" where
  "tree_enqueue node_id t =
     (let q = sq_put node_id (mt_queue t) in (length (sq_deque q), t\<lparr>mt_queue := q\<rparr>))"

definition tree_dequeue :: "message_tree \<Rightarrow> string option \<times> message_tree" where
  "tree_dequeue t =
     (case sq_get (mt_queue t) of
        None \<Rightarrow> (None, t)
      | Some (item, q) \<Rightarrow> (Some item, t\<lparr>mt_queue := q\<rparr>))"

definition get_queue_snapshot :: "message_tree \<Rightarrow> string list" where
  "get_queue_snapshot t = sq_deque (mt_queue t)"

definition get_queue_size :: "message_tree \<Rightarrow> nat" where
  "get_queue_size t = length (sq_deque (mt_queue t))"

definition remove_from_queue :: "string \<Rightarrow> message_tree \<Rightarrow> bool \<times> message_tree" where
  "remove_from_queue node_id t = (case sq_remove node_id (mt_queue t) of (b, q) \<Rightarrow> (b, t\<lparr>mt_queue := q\<rparr>))"

definition set_processing_state :: "string option \<Rightarrow> bool \<Rightarrow> message_tree \<Rightarrow> message_tree" where
  "set_processing_state node_id p t = t\<lparr>mt_is_processing := p, mt_current := (if p then node_id else None)\<rparr>"

definition clear_current_node :: "message_tree \<Rightarrow> message_tree" where
  "clear_current_node t = t\<lparr>mt_current := None\<rparr>"

definition is_current_node :: "message_tree \<Rightarrow> string \<Rightarrow> bool" where
  "is_current_node t node_id \<longleftrightarrow> mt_current t = Some node_id"

definition put_queue_unlocked :: "string \<Rightarrow> message_tree \<Rightarrow> message_tree" where
  "put_queue_unlocked node_id t = t\<lparr>mt_queue := sq_put node_id (mt_queue t)\<rparr>"

definition cancel_current_task :: "message_tree \<Rightarrow> bool \<times> message_tree" where
  "cancel_current_task t =
     (case mt_task t of
        None \<Rightarrow> (False, t)
      | Some i \<Rightarrow>
          if i < length (mt_tasks t) \<and> tk_phase (mt_tasks t ! i) \<noteq> TaskDone
          then (True, t\<lparr>mt_tasks := (mt_tasks t)[i := (mt_tasks t ! i)\<lparr>tk_cancel := True\<rparr>]\<rparr>)
          else (False, t))"

definition set_node_error :: "string \<Rightarrow> string \<Rightarrow> message_node \<Rightarrow> message_node" where
  "set_node_error now error_message n =
     n\<lparr>mn_state := ERROR, mn_error_message := Some error_message, mn_completed_at := Some now\<rparr>"

definition mark_error :: "string \<Rightarrow> string \<Rightarrow> string \<Rightarrow> message_tree \<Rightarrow> message_tree" where
  "mark_error now error_message node_id t =
     (case get_node t node_id of
        None \<Rightarrow> t
      | Some n \<Rightarrow> t\<lparr>mt_nodes := dset node_id (set_node_error now error_message n) (mt_nodes t)\<rparr>)"

text \<open>Each queued id that has a node marks it; the affected ids come in queue order.\<close>

fun drain_items :: "string \<Rightarrow> string \<Rightarrow> string list \<Rightarrow> message_tree \<Rightarrow> string list \<times> message_tree" where
  "drain_items now msg [] t = ([], t)"
| "drain_items now msg (x # xs) t =
     (case drain_items now msg xs (mark_error now msg x t) of
        (ns, t') \<Rightarrow> (if get_node t x = None then ns else x # ns, t'))"

definition drain_queue_and_mark_cancelled :: "string \<Rightarrow> string \<Rightarrow> message_tree \<Rightarrow> string list \<times> message_tree" where
  "drain_queue_and_mark_cancelled now error_message t =
     (case drain_items now error_message (sq_deque (mt_queue t)) t of
        (ns, t') \<Rightarrow> (ns, t'\<lparr>mt_queue := \<lparr>sq_deque = [], sq_set = sq_set (mt_queue t) - set (sq_deque (mt_queue t))\<rparr>\<rparr>))"

definition reset_processing_state :: "message_tree \<Rightarrow> message_tree" where
  "reset_processing_state t = t\<lparr>mt_is_processing := False, mt_current := None\<rparr>"

definition all_nodes :: "message_tree \<Rightarrow> message_node list" where
  "all_nodes t = dvalues (mt_nodes t)"

definition has_node :: "message_tree \<Rightarrow> string \<Rightarrow> bool" where
  "has_node t node_id \<longleftrightarrow> get_node t node_id \<noteq> None"

definition find_node_by_status_message :: "message_tree \<Rightarrow> string \<Rightarrow> message_node option" where
  "find_node_by_status_message t status_msg_id =
     (case map_of (mt_status t) status_msg_id of
        None \<Rightarrow> None
      | Some node_id \<Rightarrow> if node_id = [] then None else get_node t node_id)"

section \<open>Walking down\<close>

text \<open>
  \<open>while stack: nid = stack.pop()\<close>; the top of the stack is the head of the list, so
  \<open>stack.extend(xs)\<close> pushes \<open>rev xs\<close>.  The loops keep no set of visited nodes: \<open>None\<close> is a run
  that does not end.
\<close>

partial_function (option) walk :: "('k \<Rightarrow> 'k list) \<Rightarrow> ('k \<Rightarrow> 'r list) \<Rightarrow> 'k list \<Rightarrow> 'r list \<Rightarrow> 'r list option" where
  "walk succ out stack result =
     (case stack of
        [] \<Rightarrow> Some result
      | nid # rest \<Rightarrow> walk succ out (rev (succ nid) @ rest) (result @ out nid))"

definition children_of :: "message_tree \<Rightarrow> string \<Rightarrow> string list" where
  "children_of t node_id = (case get_node t node_id of Some node \<Rightarrow> mn_children_ids node | None \<Rightarrow> [])"

definition get_descendants :: "message_tree \<Rightarrow> string \<Rightarrow> string list option" where
  "get_descendants t node_id =
     (if get_node t node_id = None then Some [] else walk (children_of t) (\<lambda>n. [n]) [node_id] [])"

text \<open>
  The loop of \<open>remove_branch\<close> over the ids found; deleting a missing status entry raises
  \<open>KeyError\<close>, after the node itself is gone.
\<close>

fun remove_ids :: "string list \<Rightarrow> message_tree \<Rightarrow> py_error option \<times> message_node list \<times> message_tree" where
  "remove_ids [] t = (None, [], t)"
| "remove_ids (nid # nids) t =
     (case get_node t nid of
        None \<Rightarrow> remove_ids nids t
      | Some node \<Rightarrow>
          (let t = t\<lparr>mt_detached := node # mt_detached t, mt_nodes := ddel nid (mt_nodes t)\<rparr>
           in if map_of (mt_status t) (mn_status_message_id node) = None then (Some KeyError, [node], t)
              else (case remove_ids nids (t\<lparr>mt_status := ddel (mn_status_message_id node) (mt_status t)\<rparr>) of
                      (x, removed, t) \<Rightarrow> (x, node # removed, t))))"

text \<open>
  The parent object is fetched before the loop.  Its list is updated in the table when the parent
  is still there: an object that left the table is nobody's any more.
\<close>

definition forget_child :: "message_node option \<Rightarrow> string \<Rightarrow> message_tree \<Rightarrow> message_tree" where
  "forget_child parent b t =
     (case parent of
        Some p \<Rightarrow>
          if b \<in> set (mn_children_ids p) \<and> get_node t (mn_node_id p) \<noteq> None
          then put_node (p\<lparr>mn_children_ids := List.filter (\<lambda>c. c \<noteq> b) (mn_children_ids p)\<rparr>) t
          else t
      | None \<Rightarrow> t)"

definition tree_remove_branch ::
  "string \<Rightarrow> message_tree \<Rightarrow> (py_error option \<times> message_node list \<times> message_tree) option" where
  "tree_remove_branch branch_root_id t =
     (if get_node t branch_root_id = None then Some (None, [], t)
      else
        map_option
          (\<lambda>ids. case remove_ids ids t of
             (x, removed, t') \<Rightarrow>
               (x, removed, if x = None then forget_child (get_parent t branch_root_id) branch_root_id t' else t'))
          (get_descendants t branch_root_id))"

section \<open>To and from JSON values\<close>

definition opt_str :: "string option \<Rightarrow> json" where
  "opt_str s = (case s of Some x \<Rightarrow> JStr x | None \<Rightarrow> JNull)"

definition incoming_to_dict :: "incoming_message \<Rightarrow> jdict" where
  "incoming_to_dict m =
     [(''text'', im_text m), (''chat_id'', im_chat_id m), (''user_id'', im_user_id m),
      (''message_id'', im_message_id m), (''platform'', im_platform m),
      (''reply_to_message_id'', im_reply_to_message_id m), (''message_thread_id'', im_message_thread_id m),
      (''username'', im_username m)]"

definition node_to_dict :: "message_node \<Rightarrow> jdict" where
  "node_to_dict n =
     [(''node_id'', JStr (mn_node_id n)), (''incoming'', JObj (incoming_to_dict (mn_incoming n))),
      (''status_message_id'', JStr (mn_status_message_id n)), (''state'', JStr (state_value (mn_state n))),
      (''parent_id'', opt_str (mn_parent_id n)), (''session_id'', opt_str (mn_session_id n)),
      (''children_ids'', JArr (map JStr (mn_children_ids n))), (''created_at'', JStr (mn_created_at n)),
      (''completed_at'', opt_str (mn_completed_at n)), (''error_message'', opt_str (mn_error_message n))]"

definition tree_to_dict :: "message_tree \<Rightarrow> jdict" where
  "tree_to_dict t =
     [(''root_id'', JStr (mt_root_id t)), (''nodes'', JObj (map (\<lambda>(nid, n). (nid, JObj (node_to_dict n))) (mt_nodes t)))]"

text \<open>
  \<open>data[key]\<close>.  A value that is not of the annotated type of its field has no counterpart in the
  records; it is rejected with \<open>TypeError\<close>.
\<close>

definition field :: "jdict \<Rightarrow> string \<Rightarrow> py_error + json" where
  "field d k = (case map_of d k of Some v \<Rightarrow> Inr v | None \<Rightarrow> Inl KeyError)"

definition typed :: "('a \<Rightarrow> 'b option) \<Rightarrow> 'a \<Rightarrow> py_error + 'b" where
  "typed f v = (case f v of Some x \<Rightarrow> Inr x | None \<Rightarrow> Inl TypeError)"

fun as_opt_str :: "json \<Rightarrow> string option option" where
  "as_opt_str JNull = Some None"
| "as_opt_str (JStr s) = Some (Some s)"
| "as_opt_str _ = None"

fun as_str_list :: "json list \<Rightarrow> string list option" where
  "as_str_list [] = Some []"
| "as_str_list (JStr s # xs) = map_option ((#) s) (as_str_list xs)"
| "as_str_list _ = None"

definition as_ids :: "json \<Rightarrow> string list option" where
  "as_ids v = Option.bind (as_list v) as_str_list"

text \<open>\<open>datetime.fromisoformat\<close>, seen through \<open>isoformat\<close>, is a parameter.\<close>

definition parse_stamp :: "(string \<Rightarrow> string option) \<Rightarrow> json \<Rightarrow> py_error + string" where
  "parse_stamp stamp v =
     rbind (typed as_str v) (\<lambda>s. case stamp s of Some x \<Rightarrow> Inr x | None \<Rightarrow> Inl ValueError)"

definition parse_completed :: "(string \<Rightarrow> string option) \<Rightarrow> json \<Rightarrow> py_error + string option" where
  "parse_completed stamp v = (if truthy v then rbind (parse_stamp stamp v) (\<lambda>x. Inr (Some x)) else Inr None)"

definition incoming_from_dict :: "jdict \<Rightarrow> py_error + incoming_message" where
  "incoming_from_dict d =
     rbind (field d ''text'') (\<lambda>txt. rbind (field d ''chat_id'') (\<lambda>chat. rbind (field d ''user_id'') (\<lambda>user.
     rbind (field d ''message_id'') (\<lambda>mid. rbind (field d ''platform'') (\<lambda>platform.
       Inr \<lparr>im_text = txt, im_chat_id = chat, im_user_id = user, im_message_id = mid, im_platform = platform,
            im_reply_to_message_id = jget d ''reply_to_message_id'',
            im_message_thread_id = jget d ''message_thread_id'', im_username = jget d ''username''\<rparr>)))))"

definition node_from_dict :: "(string \<Rightarrow> string option) \<Rightarrow> jdict \<Rightarrow> py_error + message_node" where
  "node_from_dict stamp d =
     rbind (rbind (field d ''incoming'') (typed as_obj)) (\<lambda>inc. rbind (incoming_from_dict inc) (\<lambda>incoming.
     rbind (rbind (field d ''node_id'') (typed as_str)) (\<lambda>nid.
     rbind (rbind (field d ''status_message_id'') (typed as_str)) (\<lambda>sid.
     rbind (rbind (field d ''state'') state_of_value) (\<lambda>st.
     rbind (typed as_opt_str (jget d ''parent_id'')) (\<lambda>parent.
     rbind (typed as_opt_str (jget d ''session_id'')) (\<lambda>session.
     rbind (typed as_ids (jget_default d ''children_ids'' (JArr []))) (\<lambda>children.
     rbind (rbind (field d ''created_at'') (parse_stamp stamp)) (\<lambda>created.
     rbind (parse_completed stamp (jget d ''completed_at'')) (\<lambda>completed.
     rbind (typed as_opt_str (jget d ''error_message'')) (\<lambda>err.
       Inr \<lparr>mn_node_id = nid, mn_incoming = incoming, mn_status_message_id = sid, mn_state = st, mn_parent_id = parent,
            mn_session_id = session, mn_children_ids = children, mn_created_at = created,
            mn_completed_at = completed, mn_error_message = err\<rparr>)))))))))))"

definition add_node_from_dict :: "message_node \<Rightarrow> message_tree \<Rightarrow> message_tree" where
  "add_node_from_dict n t =
     t\<lparr>mt_nodes := dset (mn_node_id n) n (mt_nodes t),
       mt_status := dset (mn_status_message_id n) (mn_node_id n) (mt_status t)\<rparr>"

fun add_rest :: "(string \<Rightarrow> string option) \<Rightarrow> string \<Rightarrow> (string \<times> json) list \<Rightarrow> message_tree \<Rightarrow> py_error + message_tree" where
  "add_rest stamp root_id [] t = Inr t"
| "add_rest stamp root_id ((node_id, v) # rest) t =
     (if node_id = root_id then add_rest stamp root_id rest t
      else rbind (rbind (typed as_obj v) (node_from_dict stamp)) (\<lambda>n. add_rest stamp root_id rest (add_node_from_dict n t)))"

definition tree_from_dict :: "(string \<Rightarrow> string option) \<Rightarrow> jdict \<Rightarrow> py_error + message_tree" where
  "tree_from_dict stamp d =
     rbind (rbind (field d ''root_id'') (typed as_str)) (\<lambda>root_id.
     rbind (rbind (field d ''nodes'') (typed as_obj)) (\<lambda>nodes_data.
     rbind (rbind (rbind (field nodes_data root_id) (typed as_obj)) (node_from_dict stamp)) (\<lambda>root.
       add_rest stamp root_id nodes_data (new_tree root))))"

end
