(* ===== verification/Tree_Shape.thy ===== *)
theory Tree_Shape
  imports Message_Tree
begin

text \<open>
  The shape of a message tree: a contract for walks without a visited set (\<open>forest\<close>), the
  well-formedness of a tree, its preservation by every operation, and what the walks and the
  removal of a branch return on well-formed trees.
\<close>

section \<open>Walks over a forest\<close>

definition edges_of :: "('k \<Rightarrow> 'k list) \<Rightarrow> ('k \<times> 'k) set" where
  "edges_of succ = {(p, c). c \<in> set (succ p)}"

text \<open>
  The client walks down from a node; the provider promises that no node has two parents, that
  lists of children have no duplicates, that the depth grows along an edge and that finitely many
  nodes have children.
\<close>

locale forest =
  fixes succ :: "'t \<Rightarrow> 'k \<Rightarrow> 'k list" and ok :: "'t \<Rightarrow> bool"
  assumes kids_distinct: "ok t \<Longrightarrow> distinct (succ t p)"
    and one_parent: "ok t \<Longrightarrow> c \<in> set (succ t p) \<Longrightarrow> c \<in> set (succ t q) \<Longrightarrow> p = q"
    and ranked: "ok t \<Longrightarrow> \<exists>d :: 'k \<Rightarrow> nat. \<forall>p. \<forall>c \<in> set (succ t p). d c = Suc (d p)"
    and finite_parents: "ok t \<Longrightarrow> finite {p. succ t p \<noteq> []}"
begin

definition sub :: "'t \<Rightarrow> 'k \<Rightarrow> 'k set" where
  "sub t n = (edges_of (succ t))\<^sup>* `` {n}"

lemma sub_refl: "n \<in> sub t n"
  by (simp add: sub_def)

lemma sub_unfold: "sub t n = insert n (\<Union>c \<in> set (succ t n). sub t c)"
proof (intro set_eqI iffI)
  fix x assume "x \<in> sub t n"
  then have "(n, x) \<in> (edges_of (succ t))\<^sup>*" by (simp add: sub_def)
  then show "x \<in> insert n (\<Union>c \<in> set (succ t n). sub t c)"
    by (cases rule: converse_rtranclE) (auto simp: sub_def edges_of_def)
next
  fix x assume "x \<in> insert n (\<Union>c \<in> set (succ t n). sub t c)"
  then show "x \<in> sub t n"
    by (auto simp: sub_def edges_of_def intro: converse_rtrancl_into_rtrancl)
qed

lemma finite_sub:
  assumes "ok t" shows "finite (sub t n)"
proof (rule finite_subset)
  show "sub t n \<subseteq> insert n (\<Union>p \<in> {p. succ t p \<noteq> []}. set (succ t p))"
  proof
    fix x assume "x \<in> sub t n"
    then have "(n, x) \<in> (edges_of (succ t))\<^sup>*" by (simp add: sub_def)
    then show "x \<in> insert n (\<Union>p \<in> {p. succ t p \<noteq> []}. set (succ t p))"
    proof (cases rule: rtranclE)
      case (step y)
      then have "x \<in> set (succ t y)" by (simp add: edges_of_def)
      moreover from this have "succ t y \<noteq> []" by auto
      ultimately show ?thesis by blast
    qed simp
  qed
  show "finite (insert n (\<Union>p \<in> {p. succ t p \<noteq> []}. set (succ t p)))"
    using finite_parents [OF assms] by simp
qed

text \<open>The ancestors of a node form a chain.\<close>

lemma above_chain:
  assumes "ok t" "x \<in> sub t a" "x \<in> sub t b"
  shows "a \<in> sub t b \<or> b \<in> sub t a"
proof -
  have "(a, x) \<in> (edges_of (succ t))\<^sup>*" "(b, x) \<in> (edges_of (succ t))\<^sup>*" using assms(2,3) by (simp_all add: sub_def)
  then show ?thesis
  proof (induction arbitrary: b rule: rtrancl_induct)
    case base
    then show ?case by (simp add: sub_def)
  next
    case (step y z)
    from step.prems show ?case
    proof (cases rule: rtranclE)
      case base
      then show ?thesis using step.hyps by (auto simp: sub_def intro: rtrancl_into_rtrancl)
    next
      case (step y')
      then have "y' = y" using one_parent [OF assms(1)] \<open>(y, z) \<in> edges_of (succ t)\<close> by (auto simp: edges_of_def)
      with step show ?thesis using local.step.IH by blast
    qed
  qed
qed

lemma sub_depth:
  assumes "\<forall>p. \<forall>c \<in> set (succ t p). d c = Suc (d p)" "x \<in> sub t n"
  shows "d n \<le> d x" "d n = d x \<Longrightarrow> x = n"
proof -
  have "(n, x) \<in> (edges_of (succ t))\<^sup>*" using assms(2) by (simp add: sub_def)
  then have "d n \<le> d x \<and> (d n = d x \<longrightarrow> x = n)"
    by (induction rule: rtrancl_induct) (use assms(1) in \<open>auto simp: edges_of_def\<close>)
  then show "d n \<le> d x" "d n = d x \<Longrightarrow> x = n" by auto
qed

lemma sibling_subs:
  assumes "ok t" "a \<in> set (succ t p)" "b \<in> set (succ t p)" "a \<noteq> b"
  shows "sub t a \<inter> sub t b = {}"
proof (rule ccontr)
  assume "sub t a \<inter> sub t b \<noteq> {}"
  then obtain x where "x \<in> sub t a" "x \<in> sub t b" by blast
  from above_chain [OF assms(1) this] have "a \<in> sub t b \<or> b \<in> sub t a" .
  moreover obtain d :: "'k \<Rightarrow> nat" where d: "\<forall>p. \<forall>c \<in> set (succ t p). d c = Suc (d p)" using ranked [OF assms(1)] by blast
  ultimately show False using sub_depth(2) [OF d, of a b] sub_depth(2) [OF d, of b a] assms(2-4) by force
qed

lemma parent_not_below:
  assumes "ok t" "c \<in> set (succ t p)" shows "p \<notin> sub t c"
proof
  assume p: "p \<in> sub t c"
  obtain d :: "'k \<Rightarrow> nat" where d: "\<forall>p. \<forall>c \<in> set (succ t p). d c = Suc (d p)" using ranked [OF assms(1)] by blast
  from sub_depth(1) [OF d p] d assms(2) show False by force
qed

text \<open>The subtrees on the stack stay apart, so every node below them is visited once.\<close>

definition apart :: "'t \<Rightarrow> 'k list \<Rightarrow> bool" where
  "apart t stack \<longleftrightarrow> distinct stack \<and> (\<forall>a \<in> set stack. \<forall>b \<in> set stack. a \<noteq> b \<longrightarrow> sub t a \<inter> sub t b = {})"

lemma apart_step:
  assumes "ok t" "apart t (n # stack)"
  shows "apart t (rev (succ t n) @ stack)" "n \<notin> (\<Union>x \<in> set (rev (succ t n) @ stack). sub t x)"
proof -
  have below: "sub t c \<subseteq> sub t n" if "c \<in> set (succ t n)" for c
    using that by (subst (2) sub_unfold) blast
  have other: "sub t n \<inter> sub t s = {}" if "s \<in> set stack" for s
    using assms(2) that by (auto simp: apart_def)
  have new: "c \<notin> set stack" if "c \<in> set (succ t n)" for c
    using below [OF that] other [of c] sub_refl [of c t] by blast
  have dj: "sub t a \<inter> sub t b = {}" if "a \<in> set (rev (succ t n) @ stack)" "b \<in> set (rev (succ t n) @ stack)" "a \<noteq> b" for a b
  proof -
    have "a \<in> set (succ t n) \<or> a \<in> set stack" "b \<in> set (succ t n) \<or> b \<in> set stack" using that(1,2) by auto
    then consider "a \<in> set (succ t n)" "b \<in> set (succ t n)" | "a \<in> set (succ t n)" "b \<in> set stack"
      | "a \<in> set stack" "b \<in> set (succ t n)" | "a \<in> set stack" "b \<in> set stack" by blast
    then show ?thesis
    proof cases
      case 1 then show ?thesis using sibling_subs [OF assms(1)] that(3) by blast
    next
      case 2 then show ?thesis using below [of a] other [of b] by blast
    next
      case 3 then show ?thesis using below [of b] other [of a] by blast
    next
      case 4 then show ?thesis using assms(2) that(3) by (auto simp: apart_def)
    qed
  qed
  show "apart t (rev (succ t n) @ stack)"
    unfolding apart_def using kids_distinct [OF assms(1), of n] assms(2) new dj by (auto simp: apart_def)
  show "n \<notin> (\<Union>x \<in> set (rev (succ t n) @ stack). sub t x)"
    using parent_not_below [OF assms(1)] other sub_refl [of n t] by auto
qed

lemma walk_run:
  assumes "ok t" "apart t stack"
  shows "\<exists>order. walk (succ t) out stack result = Some (result @ concat (map out order)) \<and> distinct order \<and>
    set order = (\<Union>n \<in> set stack. sub t n)"
  using assms(2)
proof (induction "card (\<Union>n \<in> set stack. sub t n)" arbitrary: stack result rule: less_induct)
  case less
  show ?case
  proof (cases stack)
    case Nil
    then show ?thesis by (subst walk.simps) (auto intro: exI [of _ "[]"])
  next
    case (Cons n rest)
    let ?next = "rev (succ t n) @ rest"
    have ap: "apart t (n # rest)" using less.prems Cons by simp
    note step = apart_step [OF assms(1) ap]
    have U: "(\<Union>x \<in> set stack. sub t x) = insert n (\<Union>x \<in> set ?next. sub t x)"
      unfolding Cons by (simp add: sub_unfold [of t n] Un_assoc)
    have "finite (\<Union>x \<in> set ?next. sub t x)" using finite_sub [OF assms(1)] by simp
    then have "card (\<Union>x \<in> set ?next. sub t x) < card (\<Union>x \<in> set stack. sub t x)"
      unfolding U card_insert_disjoint [OF _ step(2)] by (simp add: card_insert_disjoint [OF _ step(2)] del: set_append set_rev)
    from less.hyps [OF this step(1), of "result @ out n"]
    obtain order where "walk (succ t) out ?next (result @ out n) = Some ((result @ out n) @ concat (map out order))"
      "distinct order" "set order = (\<Union>x \<in> set ?next. sub t x)" by blast
    then show ?thesis
      using step(2) unfolding U by (intro exI [of _ "n # order"]) (subst walk.simps, simp add: Cons)
  qed
qed

lemma walk_one:
  assumes "ok t"
  shows "\<exists>order. walk (succ t) out [n] [] = Some (concat (map out order)) \<and> distinct order \<and> set order = sub t n"
  using walk_run [OF assms, of "[n]" out "[]"] by (simp add: apart_def)

end

section \<open>Well-formed trees\<close>

definition parent_of :: "message_tree \<Rightarrow> string \<Rightarrow> string option" where
  "parent_of t k = Option.bind (get_node t k) mn_parent_id"

definition status_of :: "message_tree \<Rightarrow> string \<Rightarrow> string option" where
  "status_of t k = map_option mn_status_message_id (get_node t k)"

text \<open>
  The table has the root first and every node under its own id; parents and children agree; there
  are no dangling or repeated children; depths grow; the status table is the inverse of the
  nodes' status ids.
\<close>

definition tree_wf :: "message_tree \<Rightarrow> bool" where
  "tree_wf t \<longleftrightarrow>
     distinct (dkeys (mt_nodes t)) \<and> (\<exists>rest. dkeys (mt_nodes t) = mt_root_id t # rest) \<and> [] \<notin> set (dkeys (mt_nodes t)) \<and>
     (\<forall>k n. get_node t k = Some n \<longrightarrow> mn_node_id n = k) \<and>
     parent_of t (mt_root_id t) = None \<and>
     (\<forall>k \<in> set (dkeys (mt_nodes t)). k \<noteq> mt_root_id t \<longrightarrow> (\<exists>p. parent_of t k = Some p \<and> k \<in> set (children_of t p))) \<and>
     (\<forall>p c. c \<in> set (children_of t p) \<longrightarrow> c \<in> set (dkeys (mt_nodes t)) \<and> parent_of t c = Some p) \<and>
     (\<forall>p. distinct (children_of t p)) \<and>
     (\<exists>d :: string \<Rightarrow> nat. \<forall>p. \<forall>c \<in> set (children_of t p). d c = Suc (d p)) \<and>
     distinct (dkeys (mt_status t)) \<and> (\<forall>s k. map_of (mt_status t) s = Some k \<longleftrightarrow> status_of t k = Some s)"

lemma wfD:
  assumes "tree_wf t"
  shows "distinct (dkeys (mt_nodes t))" "\<exists>rest. dkeys (mt_nodes t) = mt_root_id t # rest" "[] \<notin> set (dkeys (mt_nodes t))"
    "get_node t k = Some n \<Longrightarrow> mn_node_id n = k" "parent_of t (mt_root_id t) = None"
    "k \<in> set (dkeys (mt_nodes t)) \<Longrightarrow> k \<noteq> mt_root_id t \<Longrightarrow> \<exists>p. parent_of t k = Some p \<and> k \<in> set (children_of t p)"
    "c \<in> set (children_of t p) \<Longrightarrow> c \<in> set (dkeys (mt_nodes t))" "c \<in> set (children_of t p) \<Longrightarrow> parent_of t c = Some p"
    "distinct (children_of t p)" "\<exists>d :: string \<Rightarrow> nat. \<forall>p. \<forall>c \<in> set (children_of t p). d c = Suc (d p)"
    "distinct (dkeys (mt_status t))" "map_of (mt_status t) s = Some k' \<longleftrightarrow> status_of t k' = Some s"
  using assms unfolding tree_wf_def by blast+

lemma children_key: "children_of t p \<noteq> [] \<Longrightarrow> p \<in> set (dkeys (mt_nodes t))"
  by (auto simp: children_of_def dest: map_of_in_dkeys split: option.splits)

interpretation desc: forest children_of tree_wf
proof unfold_locales
  fix t assume wf: "tree_wf t"
  show "distinct (children_of t p)" for p using wfD(9) [OF wf] .
  show "p = q" if "c \<in> set (children_of t p)" "c \<in> set (children_of t q)" for c p q
    using wfD(8) [OF wf that(1)] wfD(8) [OF wf that(2)] by simp
  show "\<exists>d :: string \<Rightarrow> nat. \<forall>p. \<forall>c \<in> set (children_of t p). d c = Suc (d p)" using wfD(10) [OF wf] .
  show "finite {p. children_of t p \<noteq> []}"
    by (rule finite_subset [of _ "set (dkeys (mt_nodes t))"]) (use children_key in auto)
qed

section \<open>Operations that keep the shape\<close>

definition shape :: "message_node \<Rightarrow> string \<times> string option \<times> string list \<times> string" where
  "shape n = (mn_node_id n, mn_parent_id n, mn_children_ids n, mn_status_message_id n)"

definition same_shape :: "message_tree \<Rightarrow> message_tree \<Rightarrow> bool" where
  "same_shape t t' \<longleftrightarrow> mt_root_id t' = mt_root_id t \<and> mt_status t' = mt_status t \<and>
     dkeys (mt_nodes t') = dkeys (mt_nodes t) \<and> (\<forall>k. map_option shape (get_node t' k) = map_option shape (get_node t k))"

lemma same_shape_refl: "same_shape t t" by (simp add: same_shape_def)

lemma same_shape_trans: "same_shape t t' \<Longrightarrow> same_shape t' t'' \<Longrightarrow> same_shape t t''"
  by (simp add: same_shape_def)

lemma same_shape_parts:
  assumes "same_shape t t'"
  shows "parent_of t' = parent_of t" "status_of t' = status_of t" "children_of t' = children_of t"
    "get_node t' k = Some n' \<Longrightarrow> \<exists>n. get_node t k = Some n \<and> shape n = shape n'"
proof -
  have s: "map_option shape (get_node t' k) = map_option shape (get_node t k)" for k
    using assms by (simp add: same_shape_def)
  have "parent_of t' k = parent_of t k \<and> status_of t' k = status_of t k \<and> children_of t' k = children_of t k" for k
    using s [of k] by (cases "get_node t k"; cases "get_node t' k")
      (auto simp: parent_of_def status_of_def children_of_def shape_def)
  then show "parent_of t' = parent_of t" "status_of t' = status_of t" "children_of t' = children_of t" by auto
  show "get_node t' k = Some n' \<Longrightarrow> \<exists>n. get_node t k = Some n \<and> shape n = shape n'"
    using s [of k] by (cases "get_node t k") auto
qed

lemma wf_same_shape:
  assumes "tree_wf t" "same_shape t t'" shows "tree_wf t'"
proof -
  note parts = same_shape_parts [OF assms(2)]
  have "mn_node_id n = k" if "get_node t' k = Some n" for k n
    using parts(4) [OF that] wfD(4) [OF assms(1)] by (auto simp: shape_def)
  with assms show ?thesis unfolding tree_wf_def parts by (simp add: same_shape_def)
qed

lemma same_shape_fields:
  "mt_nodes t' = mt_nodes t \<Longrightarrow> mt_root_id t' = mt_root_id t \<Longrightarrow> mt_status t' = mt_status t \<Longrightarrow> same_shape t t'"
  by (simp add: same_shape_def)

lemma same_shape_replace:
  assumes "get_node t k = Some n" "shape n' = shape n"
  shows "same_shape t (t\<lparr>mt_nodes := dset k n' (mt_nodes t)\<rparr>)"
  using assms map_of_in_dkeys [OF assms(1)] by (simp add: same_shape_def dict_simps)

lemma same_shape_update: "same_shape t (update_state now k st sid err t)"
  unfolding update_state_def Let_def
  by (auto intro!: same_shape_replace same_shape_refl simp: shape_def split: option.split)

lemma same_shape_mark: "same_shape t (mark_error now msg k t)"
  by (auto simp: mark_error_def set_node_error_def shape_def intro!: same_shape_replace same_shape_refl split: option.split)

lemma same_shape_drain_items: "drain_items now msg xs t = (ns, t') \<Longrightarrow> same_shape t t'"
  by (induction xs arbitrary: t ns t')
    (auto split: prod.splits if_splits intro: same_shape_refl same_shape_trans [OF same_shape_mark])

lemma same_shape_drain: "same_shape t (snd (drain_queue_and_mark_cancelled now msg t))"
proof -
  obtain ns t' where d: "drain_items now msg (sq_deque (mt_queue t)) t = (ns, t')" by fastforce
  have "same_shape t' (t'\<lparr>mt_queue := q\<rparr>)" for q by (rule same_shape_fields) simp_all
  with same_shape_drain_items [OF d] show ?thesis
    by (simp add: drain_queue_and_mark_cancelled_def d) (rule same_shape_trans)
qed

lemma same_shape_queue:
  "same_shape t (snd (tree_enqueue k t))" "same_shape t (snd (tree_dequeue t))" "same_shape t (snd (remove_from_queue k t))"
  "same_shape t (put_queue_unlocked k t)" "same_shape t (set_processing_state x p t)" "same_shape t (clear_current_node t)"
  "same_shape t (reset_processing_state t)" "same_shape t (set_current_task task t)" "same_shape t (snd (cancel_current_task t))"
  by (auto simp: tree_enqueue_def tree_dequeue_def remove_from_queue_def put_queue_unlocked_def set_processing_state_def
      clear_current_node_def reset_processing_state_def set_current_task_def cancel_current_task_def Let_def
      intro!: same_shape_fields split: option.split prod.split)

section \<open>Operations that change the shape\<close>

lemma wf_new_tree:
  assumes "node_id \<noteq> []" shows "tree_wf (new_tree (new_node now node_id inc sid None))"
  using assms by (auto simp: tree_wf_def new_tree_def new_node_def parent_of_def children_of_def status_of_def split: if_splits)

lemma add_node_parts:
  assumes "add_node now node_id inc sid parent t = Inr (node, t')" "node_id \<notin> set (dkeys (mt_nodes t))"
  shows "dkeys (mt_nodes t') = dkeys (mt_nodes t) @ [node_id]" "mt_root_id t' = mt_root_id t"
    "mt_status t' = dset sid node_id (mt_status t)" "parent \<in> set (dkeys (mt_nodes t))"
    "parent_of t' = (parent_of t)(node_id := Some parent)" "status_of t' = (status_of t)(node_id := Some sid)"
    "children_of t' = (children_of t)(node_id := [], parent := children_of t parent @ [node_id])"
    "get_node t' k = Some n \<Longrightarrow> \<forall>k n. get_node t k = Some n \<longrightarrow> mn_node_id n = k \<Longrightarrow> mn_node_id n = k"
proof -
  obtain pn where pn: "get_node t parent = Some pn" using assms(1) by (auto simp: add_node_def split: if_splits)
  have ne: "parent \<noteq> node_id" using map_of_in_dkeys [OF pn] assms(2) by auto
  let ?node = "new_node now node_id inc sid (Some parent)"
  let ?pn = "pn\<lparr>mn_children_ids := mn_children_ids pn @ [node_id]\<rparr>"
  have t': "t' = t\<lparr>mt_nodes := dset parent ?pn (dset node_id ?node (mt_nodes t)), mt_status := dset sid node_id (mt_status t)\<rparr>"
    using assms(1) pn ne by (auto simp: add_node_def Let_def dict_simps)
  have none: "get_node t node_id = None" using assms(2) map_of_notin_iff by metis
  show "parent \<in> set (dkeys (mt_nodes t))" using map_of_in_dkeys [OF pn] .
  then show "dkeys (mt_nodes t') = dkeys (mt_nodes t) @ [node_id]"
    using assms(2) by (simp add: t' dict_simps)
  show "mt_root_id t' = mt_root_id t" "mt_status t' = dset sid node_id (mt_status t)" by (simp_all add: t')
  have g: "get_node t' k = (if k = parent then Some ?pn else if k = node_id then Some ?node else get_node t k)" for k
    by (simp add: t' dict_simps)
  show "parent_of t' = (parent_of t)(node_id := Some parent)" "status_of t' = (status_of t)(node_id := Some sid)"
    "children_of t' = (children_of t)(node_id := [], parent := children_of t parent @ [node_id])"
    using ne pn by (auto simp: parent_of_def status_of_def children_of_def g new_node_def fun_eq_iff)
  show "mn_node_id n = k" if "get_node t' k = Some n" "\<forall>k n. get_node t k = Some n \<longrightarrow> mn_node_id n = k"
    using that pn by (auto simp: g new_node_def split: if_splits)
qed

lemma wf_add_node:
  assumes wf: "tree_wf t" and a: "add_node now node_id inc sid parent t = Inr (node, t')"
    and fresh: "node_id \<notin> set (dkeys (mt_nodes t))" "node_id \<noteq> []" "sid \<notin> set (dkeys (mt_status t))"
  shows "tree_wf t'"
proof -
  note p = add_node_parts [OF a fresh(1)]
  have ne: "parent \<noteq> node_id" using p(4) fresh(1) by auto
  have none: "children_of t node_id = []" "parent_of t node_id = None" "status_of t node_id = None"
    using fresh(1) map_of_notin_iff [of "mt_nodes t" node_id] by (simp_all add: children_of_def parent_of_def status_of_def)
  have notkid: "node_id \<notin> set (children_of t q)" for q using wfD(7) [OF wf] fresh(1) by blast
  obtain d :: "string \<Rightarrow> nat" where d: "\<forall>p. \<forall>c \<in> set (children_of t p). d c = Suc (d p)" using wfD(10) [OF wf] by blast
  have rank: "\<exists>d :: string \<Rightarrow> nat. \<forall>p. \<forall>c \<in> set (children_of t' p). d c = Suc (d p)"
    by (rule exI [of _ "d(node_id := Suc (d parent))"]) (use d notkid ne in \<open>auto simp: p(7)\<close>)
  have root: "mt_root_id t \<noteq> node_id" using wfD(2) [OF wf] fresh(1) by auto
  have st: "map_of (mt_status t') s = Some k \<longleftrightarrow> status_of t' k = Some s" for s k
  proof -
    have "map_of (mt_status t) s \<noteq> Some node_id" using wfD(12) [OF wf, of s node_id] none(3) by simp
    moreover have "map_of (mt_status t) sid = None" using fresh(3) map_of_notin_iff by metis
    then have "status_of t k \<noteq> Some sid" using wfD(12) [OF wf, of sid k] by simp
    ultimately show ?thesis using wfD(12) [OF wf, of s k] by (auto simp: p(3,6) dict_simps)
  qed
  have ids: "\<forall>k n. get_node t' k = Some n \<longrightarrow> mn_node_id n = k"
    using p(8) wfD(4) [OF wf] by blast
  have up: "\<exists>q. parent_of t' k = Some q \<and> k \<in> set (children_of t' q)" if "k \<in> set (dkeys (mt_nodes t'))" "k \<noteq> mt_root_id t'" for k
  proof (cases "k = node_id")
    case True
    then show ?thesis by (simp add: p(5,7))
  next
    case False
    with that have "k \<in> set (dkeys (mt_nodes t))" "k \<noteq> mt_root_id t" by (auto simp: p(1,2))
    then obtain q where "parent_of t k = Some q" "k \<in> set (children_of t q)"
      using wfD(6) [OF wf, of k] by blast
    moreover from this(2) have "q \<noteq> node_id" using none(1) by auto
    ultimately show ?thesis using False by (intro exI [of _ q]) (auto simp: p(5,7))
  qed
  have down: "c \<in> set (dkeys (mt_nodes t')) \<and> parent_of t' c = Some q" if "c \<in> set (children_of t' q)" for q c
  proof (cases "c = node_id")
    case True
    with that notkid have "q = parent" by (simp add: p(7) split: if_splits)
    with True show ?thesis by (simp add: p(1,5))
  next
    case False
    with that have "c \<in> set (children_of t q)" by (auto simp: p(7) split: if_splits)
    with wfD(7,8) [OF wf this] False show ?thesis by (simp add: p(1,5))
  qed
  have keys: "distinct (dkeys (mt_nodes t'))" "\<exists>rest. dkeys (mt_nodes t') = mt_root_id t' # rest" "[] \<notin> set (dkeys (mt_nodes t'))"
    using wfD(1,2,3) [OF wf] fresh by (auto simp: p(1,2))
  have kids: "distinct (children_of t' q)" for q using wfD(9) [OF wf] notkid by (simp add: p(7))
  have "parent_of t' (mt_root_id t') = None" using wfD(5) [OF wf] root by (simp add: p(2,5))
  moreover have "distinct (dkeys (mt_status t'))" using wfD(11) [OF wf] by (simp add: p(3) distinct_dset)
  ultimately show ?thesis unfolding tree_wf_def using keys kids ids up down rank st by blast
qed

lemma add_node_links:
  assumes "tree_wf t" and "add_node now node_id inc sid parent t = Inr (node, t')"
    and "get_node t node_id = None" and "node_id \<noteq> []" and "sid \<notin> set (dkeys (mt_status t))"
  shows "tree_wf t' \<and> get_parent t' node_id = get_node t' parent \<and>
    node_id \<in> set (children_of t' parent) \<and> map_option mn_node_id (find_node_by_status_message t' sid) = Some node_id"
proof -
  have new: "node_id \<notin> set (dkeys (mt_nodes t))" using assms(3) map_of_notin_iff by metis
  have wf: "tree_wf t'" using wf_add_node [OF assms(1,2) new assms(4,5)] .
  note p = add_node_parts [OF assms(2) new]
  have kid: "node_id \<in> set (children_of t' parent)" by (simp add: p(7))
  obtain n where n: "get_node t' node_id = Some n" "mn_parent_id n = Some parent"
    using wfD(8) [OF wf kid] by (auto simp: parent_of_def bind_eq_Some_conv)
  have "parent \<noteq> []" using wfD(3) [OF assms(1)] p(4) by metis
  moreover have "status_of t' node_id = Some sid" by (simp add: p(6))
  then have "map_of (mt_status t') sid = Some node_id" using wfD(12) [OF wf, of sid node_id] by simp
  ultimately show ?thesis
    using wf kid n wfD(4) [OF wf n(1)] assms(4) by (simp add: get_parent_def find_node_by_status_message_def)
qed

section \<open>Removing a branch\<close>

definition drop_keys :: "string list \<Rightarrow> (string, 'v) dict \<Rightarrow> (string, 'v) dict" where
  "drop_keys ks d = List.filter (\<lambda>p. fst p \<notin> set ks) d"

lemma drop_keys_Cons: "drop_keys (k # ks) d = drop_keys ks (ddel k d)"
  by (auto simp: drop_keys_def AList.delete_eq intro!: filter_cong)

lemma map_of_drop_keys: "map_of (drop_keys ks d) k = (if k \<in> set ks then None else map_of d k)"
  by (induction d) (auto simp: drop_keys_def)

lemma dkeys_drop_keys: "dkeys (drop_keys ks d) = List.filter (\<lambda>k. k \<notin> set ks) (dkeys d)"
  by (induction d) (auto simp: drop_keys_def)

lemma remove_ids_run:
  assumes "distinct ids" and "\<And>k. k \<in> set ids \<Longrightarrow> get_node t k = Some (nd k)"
    and "\<And>s k. map_of (mt_status t) s = Some k \<longleftrightarrow> status_of t k = Some s"
  shows "remove_ids ids t = (None, map nd ids,
    t\<lparr>mt_detached := rev (map nd ids) @ mt_detached t, mt_nodes := drop_keys ids (mt_nodes t), mt_status := drop_keys (map (\<lambda>k. mn_status_message_id (nd k)) ids) (mt_status t)\<rparr>)"
  using assms
proof (induction ids arbitrary: t)
  case (Cons nid nids)
  let ?s = "mn_status_message_id (nd nid)"
  let ?t = "t\<lparr>mt_detached := nd nid # mt_detached t, mt_nodes := ddel nid (mt_nodes t), mt_status := ddel ?s (mt_status t)\<rparr>"
  have n: "get_node t nid = Some (nd nid)" using Cons.prems(2) by simp
  then have st: "map_of (mt_status t) ?s = Some nid" using Cons.prems(3) by (simp add: status_of_def)
  have "map_of (mt_status ?t) s = Some k \<longleftrightarrow> status_of ?t k = Some s" for s k
  proof (cases "k = nid")
    case True
    then have "map_of (mt_status t) s = Some nid \<longleftrightarrow> s = ?s" using Cons.prems(3) n by (auto simp: status_of_def)
    with True show ?thesis by (auto simp: dict_simps status_of_def)
  next
    case False
    then have "status_of t k \<noteq> Some ?s" using Cons.prems(3) [of ?s k] st by simp
    with False Cons.prems(3) [of s k] show ?thesis by (auto simp: dict_simps status_of_def)
  qed
  moreover have "get_node ?t k = Some (nd k)" if "k \<in> set nids" for k
    using that Cons.prems(1) Cons.prems(2) [of k] by (auto simp: dict_simps)
  ultimately have "remove_ids nids ?t = (None, map nd nids,
      ?t\<lparr>mt_detached := rev (map nd nids) @ mt_detached ?t, mt_nodes := drop_keys nids (mt_nodes ?t), mt_status := drop_keys (map (\<lambda>k. mn_status_message_id (nd k)) nids) (mt_status ?t)\<rparr>)"
    using Cons.IH Cons.prems(1) by simp
  then show ?case using n st by (simp add: Let_def drop_keys_Cons)
qed (simp add: drop_keys_def)

lemma desc_keys:
  assumes "tree_wf t" "n \<in> set (dkeys (mt_nodes t))" "x \<in> desc.sub t n"
  shows "x \<in> set (dkeys (mt_nodes t))"
proof -
  have "(n, x) \<in> (edges_of (children_of t))\<^sup>*" using assms(3) by (simp add: desc.sub_def)
  then show ?thesis using assms(2)
    by (induction rule: rtrancl_induct) (use wfD(7) [OF assms(1)] in \<open>auto simp: edges_of_def\<close>)
qed

lemma descendants_run:
  assumes "tree_wf t" "n \<in> set (dkeys (mt_nodes t))"
  shows "\<exists>ids. get_descendants t n = Some ids \<and> distinct ids \<and> set ids = desc.sub t n"
proof -
  obtain v where "get_node t n = Some v" using assms(2) map_of_notin_iff [of "mt_nodes t" n] by (cases "get_node t n") auto
  moreover have "concat (map (\<lambda>n. [n]) xs) = xs" for xs :: "string list" by (induction xs) auto
  ultimately show ?thesis
    using desc.walk_one [OF assms(1), of "\<lambda>n. [n]" n] by (simp add: get_descendants_def)
qed

text \<open>A node below another is the branch root or hangs from a node of the branch.\<close>

lemma child_in_branch:
  assumes "tree_wf t" "c \<in> set (children_of t p)" "c \<in> desc.sub t b" "c \<noteq> b"
  shows "p \<in> desc.sub t b"
proof -
  have "(b, c) \<in> (edges_of (children_of t))\<^sup>*" using assms(3) by (simp add: desc.sub_def)
  then obtain q where "(b, q) \<in> (edges_of (children_of t))\<^sup>*" "c \<in> set (children_of t q)"
    using assms(4) by (cases rule: rtranclE) (auto simp: edges_of_def)
  with desc.one_parent [OF assms(1,2)] show ?thesis by (simp add: desc.sub_def)
qed

lemma branch_down: "p \<in> desc.sub t b \<Longrightarrow> c \<in> set (children_of t p) \<Longrightarrow> c \<in> desc.sub t b"
  by (auto simp: desc.sub_def edges_of_def intro: rtrancl_into_rtrancl)

lemma root_above:
  assumes "tree_wf t" "b \<noteq> mt_root_id t" shows "mt_root_id t \<notin> desc.sub t b"
proof
  assume "mt_root_id t \<in> desc.sub t b"
  then have "(b, mt_root_id t) \<in> (edges_of (children_of t))\<^sup>*" by (simp add: desc.sub_def)
  then show False using assms wfD(5,8) [OF assms(1)]
    by (cases rule: rtranclE) (auto simp: edges_of_def)
qed

lemma remove_branch_result:
  assumes wf: "tree_wf t" and b: "b \<in> set (dkeys (mt_nodes t))" "b \<noteq> mt_root_id t"
  obtains removed t' where "tree_remove_branch b t = Some (None, removed, t')"
    "mt_root_id t' = mt_root_id t" "mt_queue t' = mt_queue t"
    "dkeys (mt_nodes t') = List.filter (\<lambda>k. k \<notin> desc.sub t b) (dkeys (mt_nodes t))"
    "set (map mn_node_id removed) = desc.sub t b"
    "\<And>k. children_of t' k = (if k \<in> desc.sub t b then [] else List.filter (\<lambda>c. c \<noteq> b) (children_of t k))"
    "\<And>k. parent_of t' k = (if k \<in> desc.sub t b then None else parent_of t k)"
    "\<And>k. status_of t' k = (if k \<in> desc.sub t b then None else status_of t k)"
    "distinct (dkeys (mt_status t'))"
    "\<And>s k. map_of (mt_status t') s = Some k \<longleftrightarrow> status_of t' k = Some s"
    "\<And>k n. get_node t' k = Some n \<Longrightarrow> mn_node_id n = k"
proof -
  let ?S = "desc.sub t b"
  obtain ids where ids: "get_descendants t b = Some ids" "distinct ids" "set ids = ?S"
    using descendants_run [OF wf b(1)] by blast
  define nd where "nd k = the (get_node t k)" for k
  have nd: "get_node t k = Some (nd k)" if "k \<in> set ids" for k
    using desc_keys [OF wf b(1), of k] that ids(3) map_of_notin_iff [of "mt_nodes t" k] by (cases "get_node t k") (auto simp: nd_def)
  let ?t1 = "t\<lparr>mt_detached := rev (map nd ids) @ mt_detached t, mt_nodes := drop_keys ids (mt_nodes t), mt_status := drop_keys (map (\<lambda>k. mn_status_message_id (nd k)) ids) (mt_status t)\<rparr>"
  have run: "remove_ids ids t = (None, map nd ids, ?t1)"
    using remove_ids_run [OF ids(2) nd wfD(12) [OF wf]] .
  obtain p where p: "parent_of t b = Some p" "b \<in> set (children_of t p)" using wfD(6) [OF wf b] by blast
  then obtain pn where pn: "get_node t p = Some pn" "mn_children_ids pn = children_of t p"
    by (cases "get_node t p") (auto simp: children_of_def)
  have pid: "mn_node_id pn = p" using wfD(4) [OF wf pn(1)] .
  have pS: "p \<notin> ?S" using desc.parent_not_below [OF wf p(2)] .
  have pne: "p \<noteq> []" using wfD(3) [OF wf] map_of_in_dkeys [OF pn(1)] by metis
  obtain bn where bn: "get_node t b = Some bn" "mn_parent_id bn = Some p"
    using p(1) by (auto simp: parent_of_def bind_eq_Some_conv)
  have gp: "get_parent t b = Some pn" using bn pne pn(1) by (simp add: get_parent_def)
  let ?pn = "pn\<lparr>mn_children_ids := List.filter (\<lambda>c. c \<noteq> b) (mn_children_ids pn)\<rparr>"
  let ?t = "put_node ?pn ?t1"
  have res: "tree_remove_branch b t = Some (None, map nd ids, ?t)"
    using bn(1) ids(1,3) run gp p(2) pn pid pS
    by (simp add: tree_remove_branch_def forget_child_def map_of_drop_keys)
  have g: "get_node ?t k = (if k \<in> ?S then None else if k = p then Some ?pn else get_node t k)" for k
    using pS ids(3) pid by (auto simp: put_node_def dict_simps map_of_drop_keys)
  have other: "b \<notin> set (children_of t k)" if "k \<noteq> p" for k
    using desc.one_parent [OF wf, of b k p] p(2) that by blast
  have keys: "dkeys (mt_nodes ?t) = List.filter (\<lambda>k. k \<notin> ?S) (dkeys (mt_nodes t))"
  proof -
    have "p \<in> set (dkeys (drop_keys ids (mt_nodes t)))"
      using map_of_in_dkeys [OF pn(1)] pS ids(3) by (simp add: dkeys_drop_keys)
    then show ?thesis using pid ids(3) by (simp add: put_node_def dkeys_dset_old dkeys_drop_keys)
  qed
  have st: "status_of ?t k = (if k \<in> ?S then None else status_of t k)" for k
    using pn(1) by (simp add: status_of_def g)
  have stat: "map_of (mt_status ?t) s = Some k \<longleftrightarrow> status_of ?t k = Some s" for s k
  proof -
    have "s \<in> set (map (\<lambda>k. mn_status_message_id (nd k)) ids) \<longleftrightarrow> (\<exists>j \<in> ?S. status_of t j = Some s)"
      using nd ids(3) by (auto simp: status_of_def image_iff)
    then have "map_of (mt_status ?t) s = (if \<exists>j \<in> ?S. status_of t j = Some s then None else map_of (mt_status t) s)"
      by (simp only: put_node_def map_of_drop_keys message_tree.select_convs message_tree.update_convs)
        (simp add: map_of_drop_keys)
    moreover have "j = k" if "status_of t j = Some s" "status_of t k = Some s" for j
      using that wfD(12) [OF wf, of s j] wfD(12) [OF wf, of s k] by simp
    ultimately show ?thesis using wfD(12) [OF wf, of s k] unfolding st by auto
  qed
  show thesis
  proof (rule that [OF res])
    show "mt_root_id ?t = mt_root_id t" "mt_queue ?t = mt_queue t" by (simp_all add: put_node_def)
    show "set (map mn_node_id (map nd ids)) = ?S"
      using wfD(4) [OF wf nd] ids(3) by (force simp: image_iff)
    show "distinct (dkeys (mt_status ?t))"
      using wfD(11) [OF wf] by (simp add: put_node_def dkeys_drop_keys del: list.map)
    show "children_of ?t k = (if k \<in> ?S then [] else List.filter (\<lambda>c. c \<noteq> b) (children_of t k))" for k
      using pn other [of k] by (auto simp: children_of_def g intro!: filter_True [symmetric] split: option.splits)
    show "parent_of ?t k = (if k \<in> ?S then None else parent_of t k)" for k
      using pn(1) by (simp add: parent_of_def g)
    show "mn_node_id n = k" if "get_node ?t k = Some n" for k n
      using that wfD(4) [OF wf] pid by (auto simp: g split: if_splits)
  qed (fact keys st stat)+
qed

lemma remove_branch_run:
  assumes wf: "tree_wf t" and b: "b \<in> set (dkeys (mt_nodes t))" "b \<noteq> mt_root_id t"
  shows "\<exists>removed t'. tree_remove_branch b t = Some (None, removed, t') \<and> tree_wf t' \<and>
    mt_root_id t' = mt_root_id t \<and> mt_queue t' = mt_queue t \<and>
    set (dkeys (mt_nodes t')) = set (dkeys (mt_nodes t)) - desc.sub t b \<and>
    set (map mn_node_id removed) = desc.sub t b"
proof -
  let ?S = "desc.sub t b"
  obtain removed t' where r: "tree_remove_branch b t = Some (None, removed, t')"
    "mt_root_id t' = mt_root_id t" "mt_queue t' = mt_queue t"
    "dkeys (mt_nodes t') = List.filter (\<lambda>k. k \<notin> ?S) (dkeys (mt_nodes t))"
    "set (map mn_node_id removed) = ?S"
    and ch: "\<And>k. children_of t' k = (if k \<in> ?S then [] else List.filter (\<lambda>c. c \<noteq> b) (children_of t k))"
    and pa: "\<And>k. parent_of t' k = (if k \<in> ?S then None else parent_of t k)"
    and rest: "distinct (dkeys (mt_status t'))" "\<And>s k. map_of (mt_status t') s = Some k \<longleftrightarrow> status_of t' k = Some s"
    "\<And>k n. get_node t' k = Some n \<Longrightarrow> mn_node_id n = k"
    by (rule remove_branch_result [OF assms]) blast
  have root: "mt_root_id t \<notin> ?S" using root_above [OF wf b(2)] .
  obtain d :: "string \<Rightarrow> nat" where d: "\<forall>p. \<forall>c \<in> set (children_of t p). d c = Suc (d p)" using wfD(10) [OF wf] by blast
  have up: "\<exists>q. parent_of t' k = Some q \<and> k \<in> set (children_of t' q)" if "k \<in> set (dkeys (mt_nodes t'))" "k \<noteq> mt_root_id t'" for k
  proof -
    have k: "k \<in> set (dkeys (mt_nodes t))" "k \<notin> ?S" "k \<noteq> mt_root_id t" using that unfolding r(2,4) by auto
    then obtain q where q: "parent_of t k = Some q" "k \<in> set (children_of t q)" using wfD(6) [OF wf k(1,3)] by blast
    have "q \<notin> ?S" using branch_down [OF _ q(2)] k(2) by blast
    moreover have "k \<noteq> b" using k(2) desc.sub_refl by blast
    ultimately show ?thesis using q k(2) by (intro exI [of _ q]) (simp add: pa ch)
  qed
  have down: "c \<in> set (dkeys (mt_nodes t')) \<and> parent_of t' c = Some q" if "c \<in> set (children_of t' q)" for q c
  proof -
    have c: "c \<in> set (children_of t q)" "c \<noteq> b" "q \<notin> ?S" using that by (auto simp: ch split: if_splits)
    have "c \<notin> ?S" using child_in_branch [OF wf c(1) _ c(2)] c(3) by blast
    then show ?thesis using wfD(7,8) [OF wf c(1)] by (simp add: r(4) pa)
  qed
  have "\<exists>rest. dkeys (mt_nodes t') = mt_root_id t' # rest" using wfD(2) [OF wf] root by (auto simp: r(2,4))
  moreover have "distinct (dkeys (mt_nodes t'))" "[] \<notin> set (dkeys (mt_nodes t'))" using wfD(1,3) [OF wf] by (simp_all add: r(4))
  moreover have "parent_of t' (mt_root_id t') = None" using wfD(5) [OF wf] by (simp add: pa r(2))
  moreover have "distinct (children_of t' q)" for q using wfD(9) [OF wf] by (simp add: ch)
  moreover have "\<exists>d :: string \<Rightarrow> nat. \<forall>p. \<forall>c \<in> set (children_of t' p). d c = Suc (d p)"
    by (rule exI [of _ d]) (use d in \<open>simp add: ch\<close>)
  ultimately have "tree_wf t'" unfolding tree_wf_def using up down rest by blast
  moreover have "set (dkeys (mt_nodes t')) = set (dkeys (mt_nodes t)) - ?S" by (auto simp: r(4))
  ultimately show ?thesis using r by blast
qed

section \<open>Round trip through the saved form\<close>

text \<open>What the saved form keeps of a tree: a time stamp must survive its own text.\<close>

definition node_stamps_ok :: "(string \<Rightarrow> string option) \<Rightarrow> message_node \<Rightarrow> bool" where
  "node_stamps_ok stamp n \<longleftrightarrow> stamp (mn_created_at n) = Some (mn_created_at n) \<and>
     (case mn_completed_at n of Some s \<Rightarrow> s \<noteq> [] \<and> stamp s = Some s | None \<Rightarrow> True)"

lemma as_str_list_map: "as_str_list (map JStr xs) = Some xs"
  by (induction xs) auto

lemma state_roundtrip: "state_of_value (JStr (state_value st)) = Inr st"
  by (cases st) (simp_all add: state_of_value_def)

lemma as_opt_str_opt: "as_opt_str (opt_str s) = Some s"
  by (cases s) (simp_all add: opt_str_def)

lemma incoming_roundtrip: "incoming_from_dict (incoming_to_dict m) = Inr m"
  by (simp add: incoming_from_dict_def incoming_to_dict_def field_def jget_def)

lemma node_roundtrip:
  assumes "node_stamps_ok stamp n" shows "node_from_dict stamp (node_to_dict n) = Inr n"
proof -
  have "map_of (node_to_dict n) ''incoming'' = Some (JObj (incoming_to_dict (mn_incoming n)))"
    "map_of (node_to_dict n) ''node_id'' = Some (JStr (mn_node_id n))"
    "map_of (node_to_dict n) ''status_message_id'' = Some (JStr (mn_status_message_id n))"
    "map_of (node_to_dict n) ''state'' = Some (JStr (state_value (mn_state n)))"
    "map_of (node_to_dict n) ''parent_id'' = Some (opt_str (mn_parent_id n))"
    "map_of (node_to_dict n) ''session_id'' = Some (opt_str (mn_session_id n))"
    "map_of (node_to_dict n) ''children_ids'' = Some (JArr (map JStr (mn_children_ids n)))"
    "map_of (node_to_dict n) ''created_at'' = Some (JStr (mn_created_at n))"
    "map_of (node_to_dict n) ''completed_at'' = Some (opt_str (mn_completed_at n))"
    "map_of (node_to_dict n) ''error_message'' = Some (opt_str (mn_error_message n))"
    by (simp_all add: node_to_dict_def)
  note look = this
  have fin: "parse_completed stamp (opt_str (mn_completed_at n)) = Inr (mn_completed_at n)"
    using assms by (cases "mn_completed_at n") (simp_all add: parse_completed_def node_stamps_ok_def opt_str_def parse_stamp_def typed_def)
  have made: "parse_stamp stamp (JStr (mn_created_at n)) = Inr (mn_created_at n)"
    using assms by (simp add: node_stamps_ok_def parse_stamp_def typed_def)
  show ?thesis
    by (simp add: node_from_dict_def field_def look jget_def jget_default_def typed_def incoming_roundtrip state_roundtrip
        as_opt_str_opt as_ids_def as_str_list_map fin made)
qed

abbreviation saved_nodes :: "(string \<times> message_node) list \<Rightarrow> (string \<times> json) list" where
  "saved_nodes ns \<equiv> map (\<lambda>(nid, n). (nid, JObj (node_to_dict n))) ns"

lemma add_rest_run:
  assumes "\<forall>(k, n) \<in> set ns. k \<noteq> root \<and> mn_node_id n = k \<and> node_stamps_ok stamp n"
    and "distinct (dkeys (mt_nodes t) @ dkeys ns)"
    and "distinct (dkeys (mt_status t) @ map (\<lambda>(k, n). mn_status_message_id n) ns)"
  shows "add_rest stamp root (saved_nodes ns) t =
    Inr (t\<lparr>mt_nodes := mt_nodes t @ ns, mt_status := mt_status t @ map (\<lambda>(k, n). (mn_status_message_id n, k)) ns\<rparr>)"
  using assms
proof (induction ns arbitrary: t)
  case (Cons kn ns)
  obtain k n where kn: "kn = (k, n)" by (cases kn)
  have n: "k \<noteq> root" "mn_node_id n = k" "node_stamps_ok stamp n" using Cons.prems(1) kn by auto
  let ?t = "add_node_from_dict n t"
  have t: "?t = t\<lparr>mt_nodes := mt_nodes t @ [(k, n)], mt_status := mt_status t @ [(mn_status_message_id n, k)]\<rparr>"
    using Cons.prems(2,3) kn n by (simp add: add_node_from_dict_def dset_new)
  have "add_rest stamp root (saved_nodes ns) ?t =
    Inr (?t\<lparr>mt_nodes := mt_nodes ?t @ ns, mt_status := mt_status ?t @ map (\<lambda>(k, n). (mn_status_message_id n, k)) ns\<rparr>)"
    by (rule Cons.IH) (use Cons.prems kn in \<open>auto simp: t\<close>)
  then show ?case using n by (simp add: kn node_roundtrip typed_def t)
qed simp

lemma option_eqI: "(\<And>k. a = Some k \<longleftrightarrow> b = Some k) \<Longrightarrow> a = b"
  by (cases a; cases b) auto

text \<open>The status entries read off the nodes are those of the status table.\<close>

abbreviation status_pairs :: "message_tree \<Rightarrow> (string \<times> string) list" where
  "status_pairs t \<equiv> map (\<lambda>(k, n). (mn_status_message_id n, k)) (mt_nodes t)"

lemma status_distinct:
  assumes "tree_wf t" shows "distinct (map (\<lambda>(k, n). mn_status_message_id n) (mt_nodes t))"
proof -
  have inj: "k = k'" if "(k, n) \<in> set (mt_nodes t)" "(k', n') \<in> set (mt_nodes t)"
    "mn_status_message_id n = mn_status_message_id n'" for k k' n n'
  proof -
    have "get_node t k = Some n" "get_node t k' = Some n'" using that wfD(1) [OF assms] by simp_all
    then have "status_of t k = Some (mn_status_message_id n)" "status_of t k' = Some (mn_status_message_id n)"
      using that(3) by (simp_all add: status_of_def)
    then show ?thesis
      using wfD(12) [OF assms, of "mn_status_message_id n" k] wfD(12) [OF assms, of "mn_status_message_id n" k'] by simp
  qed
  have "inj_on (\<lambda>(k, n). mn_status_message_id n) (set (mt_nodes t))"
    proof (rule inj_onI)
      fix x y assume xy: "x \<in> set (mt_nodes t)" "y \<in> set (mt_nodes t)"
        "(case x of (k, n) \<Rightarrow> mn_status_message_id n) = (case y of (k, n) \<Rightarrow> mn_status_message_id n)"
      obtain k n k' n' where e: "x = (k, n)" "y = (k', n')" by fastforce
      with xy inj [of k n k' n'] have "k = k'" by simp
      with xy e eq_key_imp_eq_value [OF wfD(1) [OF assms]] show "x = y" by blast
    qed
  moreover have "distinct (mt_nodes t)" using wfD(1) [OF assms] by (simp add: distinct_map)
  ultimately show ?thesis by (simp add: distinct_map)
qed

lemma status_lookup:
  assumes "tree_wf t" shows "map_of (status_pairs t) s = map_of (mt_status t) s"
proof -
  let ?st = "status_pairs t"
    have e: "map fst ?st = map (\<lambda>(k, n). mn_status_message_id n) (mt_nodes t)" by auto
    have d: "distinct (map fst ?st)" unfolding e by (rule status_distinct [OF assms])
    have "map_of ?st s = Some k \<longleftrightarrow> map_of (mt_status t) s = Some k" for k
    proof -
      have "map_of ?st s = Some k \<longleftrightarrow> (s, k) \<in> set ?st" using map_of_eq_Some_iff [OF d] by blast
      also have "\<dots> \<longleftrightarrow> (\<exists>n. (k, n) \<in> set (mt_nodes t) \<and> mn_status_message_id n = s)" by force
      also have "\<dots> \<longleftrightarrow> status_of t k = Some s"
        using map_of_eq_Some_iff [OF wfD(1) [OF assms]] by (auto simp: status_of_def)
      finally show ?thesis using wfD(12) [OF assms, of s k] by simp
    qed
    then show ?thesis by (rule option_eqI)
qed

section \<open>Properties\<close>

text \<open>A conversation of two messages, for the examples.\<close>

definition demo_incoming :: incoming_message where
  "demo_incoming = \<lparr>im_text = JStr ''hi'', im_chat_id = JStr ''c'', im_user_id = JStr ''u'', im_message_id = JStr ''m1'',
     im_platform = JStr ''telegram'', im_reply_to_message_id = JNull, im_message_thread_id = JNull, im_username = JNull\<rparr>"

definition demo_start :: message_tree where
  "demo_start = new_tree (new_node ''t0'' ''m1'' demo_incoming ''s1'' None)"

definition demo_tree :: message_tree where
  "demo_tree = (case add_node ''t1'' ''m2'' demo_incoming ''s2'' ''m1'' demo_start of Inr (_, t) \<Rightarrow> t | Inl _ \<Rightarrow> demo_start)"

lemmas demo_simps = demo_tree_def demo_start_def new_tree_def new_node_def add_node_def Let_def

lemma demo_start_wf: "tree_wf demo_start"
  unfolding demo_start_def by (rule wf_new_tree) simp

lemma demo_add: "add_node ''t1'' ''m2'' demo_incoming ''s2'' ''m1'' demo_start = Inr (new_node ''t1'' ''m2'' demo_incoming ''s2'' (Some ''m1''), demo_tree)"
  by (simp add: demo_simps)

lemma demo_wf: "tree_wf demo_tree"
  by (rule wf_add_node [OF demo_start_wf demo_add]) (simp_all add: demo_simps)

lemma demo_nodes: "get_node demo_tree ''m2'' \<noteq> None" "dkeys (mt_nodes demo_tree) = [''m1'', ''m2'']" "mt_root_id demo_tree = ''m1''"
  by (simp_all add: demo_simps)

text \<open>
  C34: adding a message with fresh ids under a node of the tree keeps the tree well-formed; the new
  node hangs from its parent and is found under its status message.
\<close>

theorem add_node_wf:
  assumes "tree_wf t" and "add_node now node_id inc sid parent t = Inr (node, t')"
    and "get_node t node_id = None" and "node_id \<noteq> []" and "sid \<notin> set (dkeys (mt_status t))"
  shows "tree_wf t' \<and> get_parent t' node_id = get_node t' parent \<and>
    node_id \<in> set (children_of t' parent) \<and> map_option mn_node_id (find_node_by_status_message t' sid) = Some node_id"
  by (rule add_node_links [OF assms])

theorem add_node_wf_witness:
  "tree_wf demo_tree \<and> get_parent demo_tree ''m2'' = get_node demo_tree ''m1'' \<and>
    ''m2'' \<in> set (children_of demo_tree ''m1'') \<and> map_option mn_node_id (find_node_by_status_message demo_tree ''s2'') = Some ''m2''"
  by (rule add_node_wf [OF demo_start_wf demo_add]) (simp_all add: demo_simps)

text \<open>
  C32: on a well-formed tree the search for descendants ends, and lists every node of the
  subtree exactly once.
\<close>

theorem descendants_exact:
  assumes "tree_wf t" and "get_node t n \<noteq> None"
  shows "\<exists>ids. get_descendants t n = Some ids \<and> distinct ids \<and> set ids = (edges_of (children_of t))\<^sup>* `` {n}"
  using descendants_run [OF assms(1), of n] assms(2) map_of_notin_iff [of "mt_nodes t" n]
  unfolding desc.sub_def by metis

theorem descendants_exact_witness:
  "\<exists>ids. get_descendants demo_tree ''m2'' = Some ids \<and> distinct ids \<and>
     set ids = (edges_of (children_of demo_tree))\<^sup>* `` {''m2''}"
  by (rule descendants_exact [OF demo_wf demo_nodes(1)])

text \<open>
  C31: removing a branch below the root of a well-formed tree raises nothing, removes exactly the
  subtree of the branch and leaves a well-formed tree.
\<close>

theorem remove_branch_exact:
  assumes "tree_wf t" and "get_node t b \<noteq> None" and "b \<noteq> mt_root_id t"
  shows "\<exists>removed t'. tree_remove_branch b t = Some (None, removed, t') \<and> tree_wf t' \<and>
    set (map mn_node_id removed) = (edges_of (children_of t))\<^sup>* `` {b} \<and>
    set (dkeys (mt_nodes t')) = set (dkeys (mt_nodes t)) - (edges_of (children_of t))\<^sup>* `` {b}"
  using remove_branch_run [OF assms(1) _ assms(3)] assms(2) map_of_notin_iff [of "mt_nodes t" b]
  unfolding desc.sub_def by metis

theorem remove_branch_exact_witness:
  "\<exists>removed t'. tree_remove_branch ''m2'' demo_tree = Some (None, removed, t') \<and> tree_wf t' \<and>
    set (map mn_node_id removed) = (edges_of (children_of demo_tree))\<^sup>* `` {''m2''} \<and>
    set (dkeys (mt_nodes t')) = set (dkeys (mt_nodes demo_tree)) - (edges_of (children_of demo_tree))\<^sup>* `` {''m2''}"
  by (rule remove_branch_exact [OF demo_wf demo_nodes(1)]) (simp add: demo_nodes)

text \<open>
  C33: a well-formed tree survives being saved and loaded: the same root, the same table of
  nodes and the same status lookup, with an empty queue and nothing in progress.
\<close>

theorem tree_roundtrip:
  assumes "tree_wf t" and "\<forall>n \<in> set (all_nodes t). node_stamps_ok stamp n"
  shows "\<exists>t'. tree_from_dict stamp (tree_to_dict t) = Inr t' \<and> mt_root_id t' = mt_root_id t \<and>
    mt_nodes t' = mt_nodes t \<and> map_of (mt_status t') = map_of (mt_status t) \<and>
    mt_queue t' = new_queue \<and> \<not> mt_is_processing t'"
proof -
  let ?r = "mt_root_id t"
  obtain rn ns where nodes: "mt_nodes t = (?r, rn) # ns"
    using wfD(2) [OF assms(1)] by (cases "mt_nodes t") auto
  have key: "mn_node_id n = k" if "(k, n) \<in> set (mt_nodes t)" for k n
    using wfD(4) [OF assms(1) map_of_is_SomeI [OF wfD(1) [OF assms(1)] that]] .
  have ok: "node_stamps_ok stamp n" if "(k, n) \<in> set (mt_nodes t)" for k n
    using bspec [OF assms(2), of n] imageI [OF that, of snd] by (simp add: all_nodes_def)
  have root: "mn_node_id rn = ?r" "node_stamps_ok stamp rn" using key [of ?r rn] ok [of ?r rn] nodes by simp_all
  have dk: "distinct (?r # dkeys ns)" using wfD(1) [OF assms(1)] nodes by simp
  have rest: "\<forall>(k, n) \<in> set ns. k \<noteq> ?r \<and> mn_node_id n = k \<and> node_stamps_ok stamp n"
  proof (clarify, intro conjI)
    fix k n assume kn: "(k, n) \<in> set ns"
    then show "k \<noteq> ?r" using imageI [OF kn, of fst] dk by (metis distinct.simps(2) fst_conv set_map)
    show "mn_node_id n = k" "node_stamps_ok stamp n" using key [of k n] ok [of k n] kn nodes by simp_all
  qed
  note sd = status_distinct [OF assms(1)]
  let ?t' = "(new_tree rn)\<lparr>mt_nodes := mt_nodes (new_tree rn) @ ns,
      mt_status := mt_status (new_tree rn) @ map (\<lambda>(k, n). (mn_status_message_id n, k)) ns\<rparr>"
  have add: "add_rest stamp ?r (saved_nodes ns) (new_tree rn) = Inr ?t'"
    by (rule add_rest_run [OF rest]) (use dk sd root nodes in \<open>simp_all add: new_tree_def\<close>)
  have "tree_from_dict stamp (tree_to_dict t) = Inr ?t'"
    using root add by (simp add: tree_from_dict_def tree_to_dict_def field_def nodes typed_def node_roundtrip)
  moreover have "map_of (mt_status ?t') s = map_of (mt_status t) s" for s
    using status_lookup [OF assms(1), of s] root nodes by (simp add: new_tree_def)
  ultimately show ?thesis using root nodes by (intro exI [of _ ?t']) (auto simp: new_tree_def fun_eq_iff)
qed

theorem tree_roundtrip_witness:
  "\<exists>t'. tree_from_dict Some (tree_to_dict demo_tree) = Inr t' \<and> mt_root_id t' = mt_root_id demo_tree \<and>
    mt_nodes t' = mt_nodes demo_tree \<and> map_of (mt_status t') = map_of (mt_status demo_tree) \<and>
    mt_queue t' = new_queue \<and> \<not> mt_is_processing t'"
  by (rule tree_roundtrip [OF demo_wf]) (simp add: demo_simps all_nodes_def node_stamps_ok_def)

end
