(* ===== verification/Tree_Queue.thy ===== *)
theory Tree_Queue
  imports Tree_Shape
begin

text \<open>
  Queue processing and the index of trees (\<open>messaging/trees/queue_manager.py\<close>):
  \<open>TreeRepository\<close>, \<open>TreeQueueProcessor\<close> and \<open>TreeQueueManager\<close>.

  No method gives up control while it holds a lock, so its statements up to the next suspension
  are one step.  The steps of the processor are the events of a tree: handing in a node, a task
  entering and leaving the user's processor, the notifications after it, and the operations of
  the manager in between.  Logging and the two notification callbacks have no effect on the
  state.
\<close>

section \<open>The index of trees\<close>

record repository =
  tr_trees :: "(string, message_tree) dict"
  tr_node_to_tree :: "(string, string) dict"

definition new_repository :: repository where
  "new_repository = \<lparr>tr_trees = [], tr_node_to_tree = []\<rparr>"

definition get_tree :: "repository \<Rightarrow> string \<Rightarrow> message_tree option" where
  "get_tree r root_id = map_of (tr_trees r) root_id"

definition get_tree_for_node :: "repository \<Rightarrow> string \<Rightarrow> message_tree option" where
  "get_tree_for_node r node_id =
     (case map_of (tr_node_to_tree r) node_id of
        None \<Rightarrow> None
      | Some root_id \<Rightarrow> if root_id = [] then None else map_of (tr_trees r) root_id)"

definition repo_get_node :: "repository \<Rightarrow> string \<Rightarrow> message_node option" where
  "repo_get_node r node_id = Option.bind (get_tree_for_node r node_id) (\<lambda>t. get_node t node_id)"

definition add_tree :: "string \<Rightarrow> message_tree \<Rightarrow> repository \<Rightarrow> repository" where
  "add_tree root_id t r =
     r\<lparr>tr_trees := dset root_id t (tr_trees r), tr_node_to_tree := dset root_id root_id (tr_node_to_tree r)\<rparr>"

definition register_node :: "string \<Rightarrow> string \<Rightarrow> repository \<Rightarrow> repository" where
  "register_node node_id root_id r = r\<lparr>tr_node_to_tree := dset node_id root_id (tr_node_to_tree r)\<rparr>"

definition repo_has_node :: "repository \<Rightarrow> string \<Rightarrow> bool" where
  "repo_has_node r node_id \<longleftrightarrow> map_of (tr_node_to_tree r) node_id \<noteq> None"

definition tree_count :: "repository \<Rightarrow> nat" where
  "tree_count r = length (tr_trees r)"

definition is_tree_busy :: "repository \<Rightarrow> string \<Rightarrow> bool" where
  "is_tree_busy r root_id = (case map_of (tr_trees r) root_id of Some t \<Rightarrow> mt_is_processing t | None \<Rightarrow> False)"

definition is_node_tree_busy :: "repository \<Rightarrow> string \<Rightarrow> bool" where
  "is_node_tree_busy r node_id =
     (case get_tree_for_node r node_id of Some t \<Rightarrow> mt_is_processing t | None \<Rightarrow> False)"

definition repo_queue_size :: "repository \<Rightarrow> string \<Rightarrow> nat" where
  "repo_queue_size r node_id =
     (case get_tree_for_node r node_id of Some t \<Rightarrow> get_queue_size t | None \<Rightarrow> 0)"

definition resolve_parent_node_id :: "repository \<Rightarrow> string \<Rightarrow> string option" where
  "resolve_parent_node_id r msg_id =
     (case get_tree_for_node r msg_id of
        None \<Rightarrow> None
      | Some t \<Rightarrow>
          if has_node t msg_id then Some msg_id
          else map_option mn_node_id (find_node_by_status_message t msg_id))"

text \<open>The pending children of a node; the search goes on below pending nodes only.\<close>

definition pending_kids :: "message_tree \<Rightarrow> string \<Rightarrow> string list" where
  "pending_kids t n =
     List.filter (\<lambda>c. case get_node t c of Some cn \<Rightarrow> mn_state cn = PENDING | None \<Rightarrow> False) (children_of t n)"

definition get_pending_children :: "repository \<Rightarrow> string \<Rightarrow> string list option" where
  "get_pending_children r node_id =
     (case get_tree_for_node r node_id of
        None \<Rightarrow> Some []
      | Some t \<Rightarrow> walk (pending_kids t) (pending_kids t) [node_id] [])"

definition unregister_nodes :: "string list \<Rightarrow> repository \<Rightarrow> repository" where
  "unregister_nodes node_ids r = r\<lparr>tr_node_to_tree := fold ddel node_ids (tr_node_to_tree r)\<rparr>"

definition remove_tree :: "string \<Rightarrow> repository \<Rightarrow> message_tree option \<times> repository" where
  "remove_tree root_id r =
     (case map_of (tr_trees r) root_id of
        None \<Rightarrow> (None, r)
      | Some t \<Rightarrow>
          (Some t, unregister_nodes (map mn_node_id (all_nodes t)) (r\<lparr>tr_trees := ddel root_id (tr_trees r)\<rparr>)))"

definition get_message_ids_for_chat :: "repository \<Rightarrow> string \<Rightarrow> string \<Rightarrow> string set" where
  "get_message_ids_for_chat r platform chat_id =
     (\<Union>t \<in> set (dvalues (tr_trees r)). \<Union>n \<in> set (all_nodes t).
        if py_str (im_platform (mn_incoming n)) = platform \<and> py_str (im_chat_id (mn_incoming n)) = chat_id
        then (if im_message_id (mn_incoming n) \<noteq> JNull then {py_str (im_message_id (mn_incoming n))} else {}) \<union>
             (if mn_status_message_id n \<noteq> [] then {mn_status_message_id n} else {})
        else {})"

definition repo_to_dict :: "repository \<Rightarrow> jdict" where
  "repo_to_dict r =
     [(''trees'', JObj (map (\<lambda>(rid, t). (rid, JObj (tree_to_dict t))) (tr_trees r))),
      (''node_to_tree'', JObj (map (\<lambda>(n, rid). (n, JStr rid)) (tr_node_to_tree r)))]"

fun trees_from_dict :: "(string \<Rightarrow> string option) \<Rightarrow> (string \<times> json) list \<Rightarrow> (string, message_tree) dict \<Rightarrow>
    py_error + (string, message_tree) dict" where
  "trees_from_dict stamp [] acc = Inr acc"
| "trees_from_dict stamp ((root_id, v) # rest) acc =
     rbind (rbind (typed as_obj v) (tree_from_dict stamp)) (\<lambda>t. trees_from_dict stamp rest (dset root_id t acc))"

fun as_str_dict :: "(string \<times> json) list \<Rightarrow> (string, string) dict option" where
  "as_str_dict [] = Some []"
| "as_str_dict ((k, JStr s) # d) = map_option ((#) (k, s)) (as_str_dict d)"
| "as_str_dict _ = None"

definition repo_from_dict :: "(string \<Rightarrow> string option) \<Rightarrow> jdict \<Rightarrow> py_error + repository" where
  "repo_from_dict stamp d =
     rbind (typed as_obj (jget_default d ''trees'' (JObj []))) (\<lambda>td. rbind (trees_from_dict stamp td []) (\<lambda>trees.
     rbind (rbind (typed as_obj (jget_default d ''node_to_tree'' (JObj []))) (typed as_str_dict)) (\<lambda>nt.
       Inr \<lparr>tr_trees = trees, tr_node_to_tree = nt\<rparr>)))"

section \<open>The processor\<close>

definition create_task :: "string \<Rightarrow> message_tree \<Rightarrow> message_tree" where
  "create_task node_id t =
     set_current_task (Some (length (mt_tasks t)))
       (t\<lparr>mt_tasks := mt_tasks t @ [\<lparr>tk_node = node_id, tk_phase = TaskCreated, tk_cancel = False\<rparr>]\<rparr>)"

text \<open>\<open>_process_next\<close>: the next id, if any, and the tree with its task under way.\<close>

definition process_next :: "message_tree \<Rightarrow> string option \<times> message_tree" where
  "process_next t =
     (case tree_dequeue t of
        (None, t) \<Rightarrow> (None, set_processing_state None False t)
      | (Some next_node_id, t) \<Rightarrow>
          if next_node_id = [] then (None, set_processing_state None False t)
          else
            (let t = set_processing_state (Some next_node_id) True t
             in (Some next_node_id, if get_node t next_node_id \<noteq> None then create_task next_node_id t else t)))"

definition enqueue_and_start :: "string \<Rightarrow> message_tree \<Rightarrow> bool \<times> message_tree" where
  "enqueue_and_start node_id t =
     (if mt_is_processing t then (True, put_queue_unlocked node_id t)
      else
        (let t = set_processing_state (Some node_id) True t
         in (False, if get_node t node_id \<noteq> None then create_task node_id t else t)))"

definition set_phase :: "nat \<Rightarrow> task_phase \<Rightarrow> message_tree \<Rightarrow> message_tree" where
  "set_phase i p t = t\<lparr>mt_tasks := (mt_tasks t)[i := (mt_tasks t ! i)\<lparr>tk_phase := p\<rparr>]\<rparr>"

text \<open>After \<open>_process_next\<close> the task still runs the notifications when there was a next node.\<close>

definition leave_task :: "nat \<Rightarrow> message_tree \<Rightarrow> message_tree" where
  "leave_task i t =
     (case process_next t of
        (None, t) \<Rightarrow> set_phase i TaskDone t
      | (Some _, t) \<Rightarrow> set_phase i TaskNotifying t)"

definition node_object :: "message_tree \<Rightarrow> string \<Rightarrow> message_node option" where
  "node_object t k =
     (case get_node t k of Some n \<Rightarrow> Some n | None \<Rightarrow> find (\<lambda>n. mn_node_id n = k) (mt_detached t))"

definition start_task :: "nat \<Rightarrow> message_tree \<Rightarrow> message_tree" where
  "start_task i t =
     (case node_object t (tk_node (mt_tasks t ! i)) of
        Some n \<Rightarrow> if mn_state n = ERROR then leave_task i t else set_phase i TaskRunning t
      | None \<Rightarrow> set_phase i TaskRunning t)"

datatype task_outcome = Returned | Raised string | Cancelled

definition finish_task :: "string \<Rightarrow> nat \<Rightarrow> task_outcome \<Rightarrow> message_tree \<Rightarrow> message_tree" where
  "finish_task now i outcome t =
     (let t = (case outcome of
                 Raised message \<Rightarrow> update_state now (tk_node (mt_tasks t ! i)) ERROR None (Some message) t
               | _ \<Rightarrow> t)
      in leave_task i (clear_current_node t))"

section \<open>The manager, on one tree\<close>

definition active_state :: "message_node \<Rightarrow> bool" where
  "active_state n \<longleftrightarrow> mn_state n \<noteq> COMPLETED \<and> mn_state n \<noteq> ERROR"

definition is_active :: "message_tree \<Rightarrow> string \<Rightarrow> bool" where
  "is_active t k = (case get_node t k of Some n \<Rightarrow> active_state n | None \<Rightarrow> False)"

definition CANCELLED_BY_USER :: string where "CANCELLED_BY_USER = ''Cancelled by user''"

definition cancel_running :: "string \<Rightarrow> message_tree \<Rightarrow> string list \<times> message_tree" where
  "cancel_running now t =
     (case cancel_current_task t of
        (False, t) \<Rightarrow> ([], t)
      | (True, t) \<Rightarrow>
          (case mt_current t of
             None \<Rightarrow> ([], t)
           | Some cur \<Rightarrow> if cur \<noteq> [] \<and> is_active t cur then ([cur], mark_error now CANCELLED_BY_USER cur t) else ([], t)))"

fun mark_stale :: "string \<Rightarrow> string \<Rightarrow> string list \<Rightarrow> string list \<Rightarrow> message_tree \<Rightarrow> message_tree" where
  "mark_stale now msg done_ids [] t = t"
| "mark_stale now msg done_ids (k # ks) t =
     mark_stale now msg done_ids ks
       (if is_active t k \<and> k \<notin> set done_ids then mark_error now msg k t else t)"

definition cancel_one_tree :: "string \<Rightarrow> message_tree \<Rightarrow> string list \<times> message_tree" where
  "cancel_one_tree now t =
     (case cancel_running now t of
        (running, t) \<Rightarrow>
          (case drain_queue_and_mark_cancelled now CANCELLED_BY_USER t of
             (queued, t) \<Rightarrow>
               (running @ queued,
                reset_processing_state (mark_stale now ''Stale task cleaned up'' (running @ queued) (dkeys (mt_nodes t)) t))))"

definition cancel_one_node :: "string \<Rightarrow> string \<Rightarrow> message_tree \<Rightarrow> string list \<times> message_tree" where
  "cancel_one_node now node_id t =
     (if \<not> is_active t node_id then ([], t)
      else
        (let t = (if is_current_node t node_id then snd (cancel_current_task t) else t);
             t = snd (remove_from_queue node_id t)
         in ([node_id], mark_error now CANCELLED_BY_USER node_id t)))"

text \<open>The ids of the branch are walked in the order found; the code walks a set.\<close>

fun cancel_ids :: "string \<Rightarrow> string list \<Rightarrow> message_tree \<Rightarrow> string list \<times> message_tree" where
  "cancel_ids now [] t = ([], t)"
| "cancel_ids now (nid # nids) t =
     (if \<not> is_active t nid then cancel_ids now nids t
      else
        (let t = (if is_current_node t nid then snd (cancel_current_task t) else snd (remove_from_queue nid t))
         in (case cancel_ids now nids (mark_error now CANCELLED_BY_USER nid t) of
               (ids, t) \<Rightarrow> (nid # ids, t))))"

definition cancel_one_branch :: "string \<Rightarrow> string \<Rightarrow> message_tree \<Rightarrow> (string list \<times> message_tree) option" where
  "cancel_one_branch now b t = map_option (\<lambda>ids. cancel_ids now ids t) (get_descendants t b)"

section \<open>The manager, on the index\<close>

definition upd_tree :: "message_tree \<Rightarrow> repository \<Rightarrow> repository" where
  "upd_tree t r = r\<lparr>tr_trees := dset (mt_root_id t) t (tr_trees r)\<rparr>"

definition create_tree :: "string \<Rightarrow> string \<Rightarrow> incoming_message \<Rightarrow> string \<Rightarrow> repository \<Rightarrow> message_tree \<times> repository" where
  "create_tree now node_id incoming status_message_id r =
     (let t = new_tree (new_node now node_id incoming status_message_id None) in (t, add_tree node_id t r))"

definition add_to_tree ::
  "string \<Rightarrow> string \<Rightarrow> string \<Rightarrow> incoming_message \<Rightarrow> string \<Rightarrow> repository \<Rightarrow>
   py_error + (message_tree \<times> message_node) \<times> repository" where
  "add_to_tree now parent_node_id node_id incoming status_message_id r =
     (if \<not> repo_has_node r parent_node_id then Inl ValueError
      else
        (case get_tree_for_node r parent_node_id of
           None \<Rightarrow> Inl ValueError
         | Some t \<Rightarrow>
             rbind (add_node now node_id incoming status_message_id parent_node_id t) (\<lambda>(node, t).
               Inr ((t, node), register_node node_id (mt_root_id t) (upd_tree t r)))))"

definition manager_enqueue :: "string \<Rightarrow> repository \<Rightarrow> bool \<times> repository" where
  "manager_enqueue node_id r =
     (case get_tree_for_node r node_id of
        None \<Rightarrow> (False, r)
      | Some t \<Rightarrow> (case enqueue_and_start node_id t of (queued, t) \<Rightarrow> (queued, upd_tree t r)))"

fun fail_children :: "string \<Rightarrow> string \<Rightarrow> string list \<Rightarrow> message_tree \<Rightarrow> message_tree" where
  "fail_children now msg [] t = t"
| "fail_children now msg (c # cs) t = fail_children now msg cs (update_state now c ERROR None (Some (''Parent failed: '' @ msg)) t)"

definition mark_node_error :: "string \<Rightarrow> string \<Rightarrow> string \<Rightarrow> bool \<Rightarrow> repository \<Rightarrow> (string list \<times> repository) option" where
  "mark_node_error now node_id error_message propagate_to_children r =
     (case get_tree_for_node r node_id of
        None \<Rightarrow> Some ([], r)
      | Some t \<Rightarrow>
          (let own = (if get_node t node_id = None then [] else [node_id]);
               t = update_state now node_id ERROR None (Some error_message) t
           in if propagate_to_children
              then map_option (\<lambda>pending. (own @ pending, upd_tree (fail_children now error_message pending t) r))
                     (get_pending_children (upd_tree t r) node_id)
              else Some (own, upd_tree t r)))"

definition cancel_tree :: "string \<Rightarrow> string \<Rightarrow> repository \<Rightarrow> string list \<times> repository" where
  "cancel_tree now root_id r =
     (case get_tree r root_id of
        None \<Rightarrow> ([], r)
      | Some t \<Rightarrow> (case cancel_one_tree now t of (ids, t) \<Rightarrow> (ids, r\<lparr>tr_trees := dset root_id t (tr_trees r)\<rparr>)))"

definition cancel_node :: "string \<Rightarrow> string \<Rightarrow> repository \<Rightarrow> string list \<times> repository" where
  "cancel_node now node_id r =
     (case get_tree_for_node r node_id of
        None \<Rightarrow> ([], r)
      | Some t \<Rightarrow> (case cancel_one_node now node_id t of (ids, t) \<Rightarrow> (ids, upd_tree t r)))"

fun cancel_trees :: "string \<Rightarrow> string list \<Rightarrow> repository \<Rightarrow> string list \<times> repository" where
  "cancel_trees now [] r = ([], r)"
| "cancel_trees now (rid # rids) r =
     (case cancel_tree now rid r of
        (ids, r) \<Rightarrow> (case cancel_trees now rids r of (ids', r) \<Rightarrow> (ids @ ids', r)))"

definition cancel_all :: "string \<Rightarrow> repository \<Rightarrow> string list \<times> repository" where
  "cancel_all now r = cancel_trees now (dkeys (tr_trees r)) r"

definition cancel_branch :: "string \<Rightarrow> string \<Rightarrow> repository \<Rightarrow> (string list \<times> repository) option" where
  "cancel_branch now b r =
     (case get_tree_for_node r b of
        None \<Rightarrow> Some ([], r)
      | Some t \<Rightarrow> map_option (\<lambda>(ids, t). (ids, upd_tree t r)) (cancel_one_branch now b t))"

definition cleanup_stale_nodes :: "string \<Rightarrow> repository \<Rightarrow> nat \<times> repository" where
  "cleanup_stale_nodes now r =
     (sum_list (map (\<lambda>t. length (List.filter active_state (all_nodes t))) (dvalues (tr_trees r))),
      r\<lparr>tr_trees := map (\<lambda>(rid, t). (rid, mark_stale now ''Lost during server restart'' [] (dkeys (mt_nodes t)) t)) (tr_trees r)\<rparr>)"

text \<open>The nodes removed, the id of the tree and whether all of it went.\<close>

definition remove_branch ::
  "string \<Rightarrow> string \<Rightarrow> repository \<Rightarrow> (py_error option \<times> (string list \<times> string \<times> bool) \<times> repository) option" where
  "remove_branch now b r =
     (case get_tree_for_node r b of
        None \<Rightarrow> Some (None, ([], [], False), r)
      | Some t \<Rightarrow>
          if b = mt_root_id t then
            (case cancel_tree now b r of
               (cancelled, r) \<Rightarrow>
                 (case remove_tree b r of
                    (Some removed_tree, r) \<Rightarrow> Some (None, (map mn_node_id (all_nodes removed_tree), b, True), r)
                  | (None, r) \<Rightarrow> Some (None, (cancelled, b, True), r)))
          else
            map_option
              (\<lambda>(x, removed, t'). case x of
                 Some err \<Rightarrow> (Some err, ([], mt_root_id t, False), upd_tree t' r)
               | None \<Rightarrow> (None, (map mn_node_id removed, mt_root_id t, False),
                          unregister_nodes (map mn_node_id removed) (upd_tree t' r)))
              (tree_remove_branch b t))"

section \<open>The events of a tree\<close>

datatype tree_event =
    AddNode string string incoming_message string string
  | Submit string
  | StartTask nat
  | FinishTask string nat task_outcome
  | AbortTask nat
  | EndNotify nat
  | SetState string string message_state "string option" "string option"
  | CancelNode string string
  | CancelTree string
  | RemoveBranch string

abbreviation phase_of :: "message_tree \<Rightarrow> nat \<Rightarrow> task_phase" where
  "phase_of t i \<equiv> tk_phase (mt_tasks t ! i)"

text \<open>
  An event that is not enabled is \<open>None\<close>.  \<open>AbortTask\<close> is asyncio's handling of a task cancelled
  before its first step: its coroutine is thrown away, the \<open>finally\<close> block included.
\<close>

fun tree_event_step :: "tree_event \<Rightarrow> message_tree \<Rightarrow> message_tree option" where
  "tree_event_step (AddNode now k inc sid p) t =
     (case add_node now k inc sid p t of Inr (_, t) \<Rightarrow> Some t | Inl _ \<Rightarrow> None)"
| "tree_event_step (Submit k) t = Some (snd (enqueue_and_start k t))"
| "tree_event_step (StartTask i) t =
     (if i < length (mt_tasks t) \<and> phase_of t i = TaskCreated \<and> \<not> tk_cancel (mt_tasks t ! i)
      then Some (start_task i t) else None)"
| "tree_event_step (FinishTask now i outcome) t =
     (if i < length (mt_tasks t) \<and> phase_of t i = TaskRunning \<and> (outcome = Cancelled \<longrightarrow> tk_cancel (mt_tasks t ! i))
      then Some (finish_task now i outcome t) else None)"
| "tree_event_step (AbortTask i) t =
     (if i < length (mt_tasks t) \<and> phase_of t i = TaskCreated \<and> tk_cancel (mt_tasks t ! i)
      then Some (set_phase i TaskDone t) else None)"
| "tree_event_step (EndNotify i) t =
     (if i < length (mt_tasks t) \<and> phase_of t i = TaskNotifying then Some (set_phase i TaskDone t) else None)"
| "tree_event_step (SetState now k st sid err) t = Some (update_state now k st sid err t)"
| "tree_event_step (CancelNode now k) t = Some (snd (cancel_one_node now k t))"
| "tree_event_step (CancelTree now) t = Some (snd (cancel_one_tree now t))"
| "tree_event_step (RemoveBranch b) t =
     (if b = mt_root_id t then None
      else (case tree_remove_branch b t of Some (None, _, t) \<Rightarrow> Some t | _ \<Rightarrow> None))"

text \<open>
  The trees reached from a new one by events that a client is allowed to cause, with the events
  in order.
\<close>

inductive reached :: "(message_tree \<Rightarrow> tree_event \<Rightarrow> bool) \<Rightarrow> tree_event list \<Rightarrow> message_tree \<Rightarrow> bool"
  for allowed where
  fresh: "node_id \<noteq> [] \<Longrightarrow> reached allowed [] (new_tree (new_node now node_id inc sid None))"
| event: "reached allowed es t \<Longrightarrow> allowed t e \<Longrightarrow> tree_event_step e t = Some t' \<Longrightarrow> reached allowed (es @ [e]) t'"

inductive_cases reached_nilE: "reached allowed [] t"
inductive_cases reached_snocE: "reached allowed (es @ [e]) t"

fun run_events :: "tree_event list \<Rightarrow> message_tree \<Rightarrow> message_tree option" where
  "run_events [] t = Some t"
| "run_events (e # es) t = Option.bind (tree_event_step e t) (run_events es)"

lemma reached_run:
  assumes "reached (\<lambda>_ _. True) es t" "run_events es' t = Some t'"
  shows "reached (\<lambda>_ _. True) (es @ es') t'"
  using assms
proof (induction es' arbitrary: es t)
  case (Cons e es')
  then obtain t1 where "tree_event_step e t = Some t1" "run_events es' t1 = Some t'" by (auto simp: bind_eq_Some_conv)
  with Cons.IH [of "es @ [e]" t1] reached.event [OF Cons.prems(1)] show ?case by simp
qed simp

end
