(* ===== verification/Tree_Runs.thy ===== *)
theory Tree_Runs
  imports Tree_Queue
begin

text \<open>
  What the events of a tree keep: at most one task inside the user's processor, the order of the
  queue, and that a queue is emptied; and the runs in which a cancellation breaks this.
\<close>

section \<open>Tasks inside the processor\<close>

definition working :: "task \<Rightarrow> bool" where
  "working k \<longleftrightarrow> tk_phase k = TaskCreated \<or> tk_phase k = TaskRunning"

definition working_tasks :: "message_tree \<Rightarrow> nat set" where
  "working_tasks t = {i. i < length (mt_tasks t) \<and> working (mt_tasks t ! i)}"

text \<open>What an event may touch without starting or ending a task.\<close>

definition same_run :: "message_tree \<Rightarrow> message_tree \<Rightarrow> bool" where
  "same_run t t' \<longleftrightarrow> map tk_phase (mt_tasks t') = map tk_phase (mt_tasks t) \<and> mt_is_processing t' = mt_is_processing t"

lemma same_run_refl: "same_run t t" by (simp add: same_run_def)

lemma same_run_trans: "same_run t t' \<Longrightarrow> same_run t' t'' \<Longrightarrow> same_run t t''"
  by (simp add: same_run_def)

lemma same_run_length: "same_run t t' \<Longrightarrow> length (mt_tasks t') = length (mt_tasks t)"
  unfolding same_run_def by (auto dest: map_eq_imp_length_eq)

lemma same_run_working:
  assumes "same_run t t'" shows "working_tasks t' = working_tasks t"
proof -
  have "length (mt_tasks t') = length (mt_tasks t)" using same_run_length [OF assms] .
  moreover have "tk_phase (mt_tasks t' ! i) = tk_phase (mt_tasks t ! i)" if "i < length (mt_tasks t)" for i
  proof -
    have "map tk_phase (mt_tasks t') ! i = map tk_phase (mt_tasks t) ! i" using assms by (simp add: same_run_def)
    then show ?thesis using that calculation by simp
  qed
  ultimately show ?thesis by (auto simp: working_tasks_def working_def)
qed

lemma same_run_fields:
  "mt_tasks t' = mt_tasks t \<Longrightarrow> mt_is_processing t' = mt_is_processing t \<Longrightarrow> same_run t t'"
  by (simp add: same_run_def)

lemma same_run_mark: "same_run t (mark_error now msg k t)"
  by (auto simp: mark_error_def intro!: same_run_fields split: option.split)

lemma same_run_update: "same_run t (update_state now k st sid err t)"
  by (auto simp: update_state_def Let_def intro!: same_run_fields split: option.split)

lemma same_run_cancel: "same_run t (snd (cancel_current_task t))"
  by (auto simp: cancel_current_task_def same_run_def map_update nth_list_update split: option.split
      intro!: list_update_same_conv [THEN iffD2])

lemma same_run_clear: "same_run t u \<Longrightarrow> same_run t (clear_current_node u)"
  by (simp add: same_run_def clear_current_node_def)

lemma same_run_remove: "same_run t (snd (remove_from_queue k t))"
  by (auto simp: remove_from_queue_def intro!: same_run_fields split: prod.split)

lemma same_run_cancel_node: "same_run t (snd (cancel_one_node now k t))"
  unfolding cancel_one_node_def Let_def
  by (auto intro: same_run_refl same_run_trans [OF same_run_trans [OF same_run_cancel same_run_remove] same_run_mark]
      same_run_trans [OF same_run_remove same_run_mark])

lemma same_run_add: "add_node now k inc sid p t = Inr (n, t') \<Longrightarrow> same_run t t'"
  by (auto simp: add_node_def Let_def intro!: same_run_fields split: if_splits)

lemma remove_ids_same: "remove_ids ids t = (x, removed, t') \<Longrightarrow> same_run t t' \<and> mt_queue t' = mt_queue t"
  by (induction ids arbitrary: t x removed t')
    (auto simp: same_run_def Let_def split: option.splits if_splits prod.splits)

lemma same_run_remove_branch:
  assumes "tree_remove_branch b t = Some (x, removed, t')" shows "same_run t t'"
proof (cases "get_node t b")
  case None
  then show ?thesis using assms by (simp add: tree_remove_branch_def same_run_refl)
next
  case (Some n)
  have forget: "same_run u (forget_child p b u)" for u p
    by (auto simp: forget_child_def put_node_def intro!: same_run_fields split: option.split)
  from Some assms obtain ids where ids: "get_descendants t b = Some ids" by (auto simp: tree_remove_branch_def)
  obtain y r t1 where r: "remove_ids ids t = (y, r, t1)" by (cases "remove_ids ids t") blast
  then have "t' = (if y = None then forget_child (get_parent t b) b t1 else t1)"
    using Some assms ids by (auto simp: tree_remove_branch_def)
  with remove_ids_same [OF r] forget show ?thesis by (auto intro: same_run_trans)
qed

lemma drain_items_same: "drain_items now msg xs t = (ns, t') \<Longrightarrow> same_run t t'"
  by (induction xs arbitrary: t ns t')
    (auto split: prod.splits if_splits intro: same_run_refl same_run_trans [OF same_run_mark])

section \<open>At most one task at a time\<close>

definition one_at_a_time :: "message_tree \<Rightarrow> bool" where
  "one_at_a_time t \<longleftrightarrow> (\<exists>i. working_tasks t \<subseteq> {i}) \<and> (working_tasks t \<noteq> {} \<longrightarrow> mt_is_processing t)"

lemma one_same_run: "same_run t t' \<Longrightarrow> one_at_a_time t \<Longrightarrow> one_at_a_time t'"
  by (simp add: one_at_a_time_def same_run_working) (simp add: same_run_def)

lemma working_set_phase:
  assumes "i < length (mt_tasks t)"
  shows "working_tasks (set_phase i p t) =
    (if p = TaskCreated \<or> p = TaskRunning then insert i (working_tasks t) else working_tasks t - {i})"
  using assms by (auto simp: working_tasks_def set_phase_def working_def nth_list_update split: if_splits)

lemma working_create_task: "working_tasks (create_task k t) = insert (length (mt_tasks t)) (working_tasks t)"
  by (auto simp: working_tasks_def create_task_def set_current_task_def working_def nth_append split: if_splits)

lemma tree_dequeue_same: "same_run t (snd (tree_dequeue t))"
  by (auto simp: tree_dequeue_def intro!: same_run_fields split: option.split prod.split)

lemma working_fields: "working_tasks (t\<lparr>mt_queue := q\<rparr>) = working_tasks t"
  "working_tasks (set_processing_state n p t) = working_tasks t" "working_tasks (clear_current_node t) = working_tasks t"
  "working_tasks (put_queue_unlocked k t) = working_tasks t"
  by (simp_all add: working_tasks_def set_processing_state_def clear_current_node_def put_queue_unlocked_def)

text \<open>How \<open>_process_next\<close> moves the set of working tasks.\<close>

lemma process_next_working:
  "case process_next t of
     (None, t') \<Rightarrow> working_tasks t' = working_tasks t \<and> \<not> mt_is_processing t' \<and> mt_tasks t' = mt_tasks t
   | (Some k, t') \<Rightarrow> mt_is_processing t' \<and>
       (working_tasks t' = insert (length (mt_tasks t)) (working_tasks t) \<and> length (mt_tasks t') = Suc (length (mt_tasks t)) \<or>
        working_tasks t' = working_tasks t \<and> mt_tasks t' = mt_tasks t)"
proof (cases "tree_dequeue t")
  case (Pair k t1)
  have w: "working_tasks t1 = working_tasks t" "mt_tasks t1 = mt_tasks t"
    using Pair by (auto simp: tree_dequeue_def working_fields split: option.splits prod.splits)
  have f: "mt_tasks (set_processing_state x y u) = mt_tasks u" "mt_is_processing (set_processing_state x y u) = y"
    "mt_nodes (set_processing_state x y u) = mt_nodes u" for x y u
    by (simp_all add: set_processing_state_def)
  have g: "mt_is_processing (create_task n u) = mt_is_processing u" "length (mt_tasks (create_task n u)) = Suc (length (mt_tasks u))" for n u
    by (simp_all add: create_task_def set_current_task_def)
  show ?thesis
  proof (cases k)
    case None
    with w show ?thesis by (simp add: process_next_def Pair working_fields f)
  next
    case (Some n)
    show ?thesis
      using w Some by (cases "n = []"; cases "get_node t1 n")
        (simp_all add: process_next_def Pair Let_def working_fields working_create_task f g)
  qed
qed

lemma leave_task_one:
  assumes "i < length (mt_tasks t)" "working_tasks t \<subseteq> {i}"
  shows "one_at_a_time (leave_task i t)"
proof (cases "process_next t")
  case (Pair k t')
  show ?thesis
  proof (cases k)
    case None
    then show ?thesis using assms process_next_working [of t] Pair
      by (auto simp: leave_task_def one_at_a_time_def working_set_phase)
  next
    case (Some n)
    then have w: "mt_is_processing t'" "working_tasks t' = insert (length (mt_tasks t)) (working_tasks t) \<and> length (mt_tasks t') = Suc (length (mt_tasks t))
      \<or> working_tasks t' = working_tasks t \<and> mt_tasks t' = mt_tasks t"
      using process_next_working [of t] Pair by simp_all
    have l: "i < length (mt_tasks t')" using w(2) assms(1) by auto
    have "working_tasks (set_phase i TaskNotifying t') \<subseteq> {length (mt_tasks t)}"
      unfolding working_set_phase [OF l] using w(2) assms(2) by auto
    moreover have "mt_is_processing (set_phase i TaskNotifying t')" using w(1) by (simp add: set_phase_def)
    ultimately show ?thesis using Some Pair by (auto simp: leave_task_def one_at_a_time_def)
  qed
qed

lemma enqueue_one: "one_at_a_time t \<Longrightarrow> one_at_a_time (snd (enqueue_and_start k t))"
  by (auto simp: enqueue_and_start_def Let_def one_at_a_time_def working_fields working_create_task)
    (auto simp: set_processing_state_def create_task_def set_current_task_def put_queue_unlocked_def)

lemma one_step:
  assumes "one_at_a_time t" "tree_event_step e t = Some t'" "\<And>now. e \<noteq> CancelTree now"
  shows "one_at_a_time t'"
proof (cases e)
  case (AddNode now k inc sid p)
  with assms show ?thesis by (auto intro: one_same_run same_run_add split: sum.splits)
next
  case (Submit k)
  with assms enqueue_one show ?thesis by auto
next
  case (StartTask i)
  with assms(2) have i: "i \<in> working_tasks t" "i < length (mt_tasks t)" and t': "t' = start_task i t"
    by (auto simp: working_tasks_def working_def split: if_splits)
  with assms(1) have "working_tasks t \<subseteq> {i}" by (auto simp: one_at_a_time_def)
  with i have "one_at_a_time (set_phase i TaskRunning t)" "one_at_a_time (leave_task i t)"
    using assms(1) leave_task_one by (auto simp: one_at_a_time_def working_set_phase) (auto simp: set_phase_def)
  with t' show ?thesis by (auto simp: start_task_def split: option.split)
next
  case (FinishTask now i out)
  with assms(2) have i: "i \<in> working_tasks t" "i < length (mt_tasks t)" and t': "t' = finish_task now i out t"
    by (auto simp: working_tasks_def working_def split: if_splits)
  with assms(1) have w: "working_tasks t \<subseteq> {i}" by (auto simp: one_at_a_time_def)
  define u where "u = (case out of Raised m \<Rightarrow> update_state now (tk_node (mt_tasks t ! i)) ERROR None (Some m) t | _ \<Rightarrow> t)"
  have "same_run t (clear_current_node u)"
    unfolding u_def by (cases out) (auto intro: same_run_clear same_run_refl same_run_update)
  moreover from this have "length (mt_tasks (clear_current_node u)) = length (mt_tasks t)" by (rule same_run_length)
  ultimately show ?thesis
    using leave_task_one [of i "clear_current_node u"] i w t'
    by (simp add: finish_task_def u_def [symmetric] same_run_working)
next
  case (AbortTask i)
  with assms show ?thesis
    by (auto simp: one_at_a_time_def working_set_phase split: if_splits) (auto simp: set_phase_def)
next
  case (EndNotify i)
  with assms show ?thesis
    by (auto simp: one_at_a_time_def working_set_phase split: if_splits) (auto simp: set_phase_def)
next
  case (SetState now k st sid err)
  with assms show ?thesis by (auto intro: one_same_run same_run_update)
next
  case (CancelNode now k)
  with assms show ?thesis by (auto intro: one_same_run same_run_cancel_node)
next
  case (CancelTree now)
  with assms(3) show ?thesis by blast
next
  case (RemoveBranch b)
  with assms show ?thesis by (auto intro: one_same_run [OF same_run_remove_branch] split: if_splits option.splits)
qed

section \<open>First in, first out\<close>

text \<open>
  The events of undisturbed work: nothing is cancelled or removed, and what is handed in is a node
  of the tree.
\<close>

fun undisturbed :: "message_tree \<Rightarrow> tree_event \<Rightarrow> bool" where
  "undisturbed t (Submit k) \<longleftrightarrow> k \<noteq> [] \<and> get_node t k \<noteq> None"
| "undisturbed t (CancelNode _ _) \<longleftrightarrow> False"
| "undisturbed t (CancelTree _) \<longleftrightarrow> False"
| "undisturbed t (RemoveBranch _) \<longleftrightarrow> False"
| "undisturbed t _ \<longleftrightarrow> True"

fun submitted :: "tree_event list \<Rightarrow> string list" where
  "submitted [] = []"
| "submitted (Submit k # es) = k # submitted es"
| "submitted (e # es) = submitted es"

lemma submitted_append: "submitted (xs @ ys) = submitted xs @ submitted ys"
  by (induction xs rule: submitted.induct) auto

text \<open>The tasks created so far and the queue behind them.\<close>

definition started :: "message_tree \<Rightarrow> string list" where
  "started t = map tk_node (mt_tasks t)"

definition queue_known :: "message_tree \<Rightarrow> bool" where
  "queue_known t \<longleftrightarrow> (\<forall>k \<in> set (sq_deque (mt_queue t)). k \<noteq> [] \<and> get_node t k \<noteq> None)"

definition steady :: "message_tree \<Rightarrow> bool" where
  "steady t \<longleftrightarrow> queue_known t \<and> (mt_is_processing t \<longleftrightarrow> working_tasks t \<noteq> {}) \<and> one_at_a_time t \<and>
     (sq_deque (mt_queue t) \<noteq> [] \<longrightarrow> mt_is_processing t) \<and> (\<forall>k \<in> set (mt_tasks t). \<not> tk_cancel k)"

lemma leave_nil:
  "sq_deque (mt_queue t) = [] \<Longrightarrow> leave_task i t = set_phase i TaskDone (set_processing_state None False t)"
  by (simp add: leave_task_def process_next_def tree_dequeue_def sq_get_def)

lemma leave_cons:
  "sq_deque (mt_queue t) = k # rest \<Longrightarrow> k \<noteq> [] \<Longrightarrow> get_node t k \<noteq> None \<Longrightarrow>
   leave_task i t = set_phase i TaskNotifying (create_task k (set_processing_state (Some k) True
     (t\<lparr>mt_queue := \<lparr>sq_deque = rest, sq_set = sq_set (mt_queue t) - {k}\<rparr>\<rparr>)))"
  by (auto simp: leave_task_def process_next_def tree_dequeue_def sq_get_def Let_def set_processing_state_def)

lemma run_fields:
  "mt_tasks (create_task k t) = mt_tasks t @ [\<lparr>tk_node = k, tk_phase = TaskCreated, tk_cancel = False\<rparr>]"
  "mt_queue (create_task k t) = mt_queue t" "mt_nodes (create_task k t) = mt_nodes t"
  "mt_is_processing (create_task k t) = mt_is_processing t"
  "mt_tasks (set_processing_state n p t) = mt_tasks t" "mt_queue (set_processing_state n p t) = mt_queue t"
  "mt_nodes (set_processing_state n p t) = mt_nodes t" "mt_is_processing (set_processing_state n p t) = p"
  "mt_queue (set_phase i ph t) = mt_queue t" "mt_nodes (set_phase i ph t) = mt_nodes t"
  "mt_is_processing (set_phase i ph t) = mt_is_processing t"
  "mt_queue (clear_current_node t) = mt_queue t" "mt_nodes (clear_current_node t) = mt_nodes t"
  "mt_tasks (clear_current_node t) = mt_tasks t" "mt_is_processing (clear_current_node t) = mt_is_processing t"
  "mt_tasks (update_state now x st sid err t) = mt_tasks t" "mt_queue (update_state now x st sid err t) = mt_queue t"
  "mt_is_processing (update_state now x st sid err t) = mt_is_processing t"
  by (simp_all add: create_task_def set_current_task_def set_processing_state_def set_phase_def clear_current_node_def
      update_state_def Let_def split: option.split)

lemma update_state_nodes: "get_node (update_state now x st sid err t) k = None \<longleftrightarrow> get_node t k = None"
  by (auto simp: update_state_def Let_def dict_simps split: option.split)

lemma started_set_phase: "i < length (mt_tasks t) \<Longrightarrow> started (set_phase i p t) = started t"
  by (simp add: started_def set_phase_def map_update list_update_same_conv)

lemma cancel_set_phase:
  "i < length (mt_tasks t) \<Longrightarrow> \<forall>k \<in> set (mt_tasks t). \<not> tk_cancel k \<Longrightarrow> \<forall>k \<in> set (mt_tasks (set_phase i p t)). \<not> tk_cancel k"
  by (auto simp: set_phase_def dest!: set_update_subset_insert [THEN subsetD])

definition queue_log :: "message_tree \<Rightarrow> string list" where
  "queue_log t = started t @ sq_deque (mt_queue t)"

lemma leave_steady:
  assumes "queue_known t" "working_tasks t = {i}" "\<forall>k \<in> set (mt_tasks t). \<not> tk_cancel k"
  shows "steady (leave_task i t)" "queue_log (leave_task i t) = queue_log t"
    "sq_deque (mt_queue (leave_task i t)) = tl (sq_deque (mt_queue t))"
proof -
  have i: "i < length (mt_tasks t)" using assms(2) by (auto simp: working_tasks_def)
  have one: "one_at_a_time (leave_task i t)" using leave_task_one [OF i] assms(2) by simp
  have "steady (leave_task i t) \<and> queue_log (leave_task i t) = queue_log t \<and>
    sq_deque (mt_queue (leave_task i t)) = tl (sq_deque (mt_queue t))"
  proof (cases "sq_deque (mt_queue t)")
    case Nil
    let ?u = "set_processing_state None False t"
    let ?v = "set_phase i TaskDone ?u"
    have l: "i < length (mt_tasks ?u)" using i by (simp add: run_fields)
    have "working_tasks ?v = {}" using assms(2) by (simp add: working_set_phase [OF l] working_fields)
    moreover have "started ?v = started t" unfolding started_set_phase [OF l] by (simp add: started_def run_fields)
    moreover have "\<forall>k \<in> set (mt_tasks ?v). \<not> tk_cancel k" using cancel_set_phase [OF l] assms(3) by (simp add: run_fields)
    moreover have "sq_deque (mt_queue ?v) = []" "\<not> mt_is_processing ?v" using Nil by (simp_all add: run_fields)
    ultimately show ?thesis
      using one unfolding leave_nil [OF Nil] steady_def queue_log_def queue_known_def Nil by simp
  next
    case (Cons k rest)
    let ?q = "t\<lparr>mt_queue := \<lparr>sq_deque = rest, sq_set = sq_set (mt_queue t) - {k}\<rparr>\<rparr>"
    let ?u = "create_task k (set_processing_state (Some k) True ?q)"
    have k: "k \<noteq> []" "get_node t k \<noteq> None" using assms(1) Cons by (auto simp: queue_known_def)
    have l: "i < length (mt_tasks ?u)" using i by (simp add: run_fields)
    have w: "working_tasks ?u = insert (length (mt_tasks t)) {i}"
      using assms(2) by (simp add: working_create_task working_fields run_fields)
    let ?v = "set_phase i TaskNotifying ?u"
    have wv: "working_tasks ?v \<noteq> {}" using w i by (auto simp: working_set_phase [OF l])
    have q: "sq_deque (mt_queue ?v) = rest" "mt_is_processing ?v" "mt_nodes ?v = mt_nodes t" by (simp_all add: run_fields)
    have "started ?v = started t @ [k]" unfolding started_set_phase [OF l] by (simp add: started_def run_fields)
    moreover have "\<forall>k \<in> set (mt_tasks ?v). \<not> tk_cancel k" using cancel_set_phase [OF l] assms(3) by (simp add: run_fields)
    moreover have "queue_known ?v" using assms(1) Cons by (simp add: queue_known_def q)
    ultimately show ?thesis
      using one wv q(2) unfolding leave_cons [OF Cons k] steady_def queue_log_def q(1,3) Cons by simp
  qed
  then show "steady (leave_task i t)" "queue_log (leave_task i t) = queue_log t"
    "sq_deque (mt_queue (leave_task i t)) = tl (sq_deque (mt_queue t))" by auto
qed

lemma steady_same:
  assumes "steady t" "same_run t t'" "map tk_node (mt_tasks t') = map tk_node (mt_tasks t)"
    "\<forall>k \<in> set (mt_tasks t'). \<not> tk_cancel k" "mt_queue t' = mt_queue t" "\<And>k. get_node t k \<noteq> None \<Longrightarrow> get_node t' k \<noteq> None"
  shows "steady t' \<and> queue_log t' = queue_log t"
proof -
  have "queue_known t'" using assms(1,5,6) unfolding steady_def queue_known_def by metis
  moreover have "one_at_a_time t'" using assms(1,2) one_same_run by (simp add: steady_def)
  moreover have "mt_is_processing t' = mt_is_processing t" using assms(2) by (simp add: same_run_def)
  ultimately show ?thesis
    using assms(1,3,4,5) same_run_working [OF assms(2)] by (auto simp: steady_def queue_log_def started_def)
qed

lemma steady_submit:
  assumes "steady t" "k \<noteq> []" "get_node t k \<noteq> None"
  shows "steady (snd (enqueue_and_start k t)) \<and> queue_log (snd (enqueue_and_start k t)) = queue_log t @ [k]"
proof (cases "mt_is_processing t")
  case True
  let ?t = "put_queue_unlocked k t"
  have q: "sq_deque (mt_queue ?t) = sq_deque (mt_queue t) @ [k]" "mt_tasks ?t = mt_tasks t" "mt_nodes ?t = mt_nodes t"
    "mt_is_processing ?t = mt_is_processing t"
    by (simp_all add: put_queue_unlocked_def sq_put_def)
  have "one_at_a_time ?t" using assms(1) enqueue_one [of t k] True by (simp add: steady_def enqueue_and_start_def)
  then show ?thesis
    using assms True unfolding enqueue_and_start_def
    by (simp add: steady_def queue_log_def started_def queue_known_def q working_fields)
next
  case False
  let ?u = "set_processing_state (Some k) True t"
  have "one_at_a_time (create_task k ?u)"
    using assms(1,3) enqueue_one [of t k] False by (simp add: steady_def enqueue_and_start_def Let_def run_fields)
  then show ?thesis
    using assms False unfolding enqueue_and_start_def
    by (simp add: Let_def steady_def queue_log_def started_def queue_known_def run_fields working_create_task)
qed

lemma steady_working: "steady t \<Longrightarrow> i \<in> working_tasks t \<Longrightarrow> working_tasks t = {i}"
  by (auto simp: steady_def one_at_a_time_def)

lemma steady_finish:
  assumes "steady t" "i \<in> working_tasks t"
  shows "steady (finish_task now i out t)" "queue_log (finish_task now i out t) = queue_log t"
    "sq_deque (mt_queue (finish_task now i out t)) = tl (sq_deque (mt_queue t))"
proof -
  define u where "u = clear_current_node
    (case out of Raised m \<Rightarrow> update_state now (tk_node (mt_tasks t ! i)) ERROR None (Some m) t | _ \<Rightarrow> t)"
  have u: "mt_tasks u = mt_tasks t" "mt_queue u = mt_queue t"
    by (cases out; simp add: u_def run_fields)+
  have n: "get_node t k \<noteq> None \<Longrightarrow> get_node u k \<noteq> None" for k
    by (cases out) (simp_all add: u_def run_fields update_state_nodes del: not_None_eq)
  have "queue_known u" using assms(1) n u(2) unfolding steady_def queue_known_def by metis
  moreover have "working_tasks u = {i}" using steady_working [OF assms] by (simp add: working_tasks_def u(1))
  moreover have "\<forall>k \<in> set (mt_tasks u). \<not> tk_cancel k" using assms(1) by (simp add: steady_def u(1))
  moreover have "queue_log u = queue_log t" by (simp add: queue_log_def started_def u)
  moreover have "finish_task now i out t = leave_task i u" by (simp add: finish_task_def u_def)
  ultimately show "steady (finish_task now i out t)" "queue_log (finish_task now i out t) = queue_log t"
    "sq_deque (mt_queue (finish_task now i out t)) = tl (sq_deque (mt_queue t))"
    using leave_steady [of u i] u(2) by simp_all
qed

lemma steady_start:
  assumes "steady t" "i \<in> working_tasks t"
  shows "start_task i t = leave_task i t \<or> start_task i t = set_phase i TaskRunning t"
    "steady (start_task i t)" "queue_log (start_task i t) = queue_log t"
proof -
  have i: "i < length (mt_tasks t)" using assms(2) by (simp add: working_tasks_def)
  let ?r = "set_phase i TaskRunning t"
  have r: "steady ?r" "queue_log ?r = queue_log t"
    using assms steady_working [OF assms] cancel_set_phase [OF i, of TaskRunning]
    by (auto simp: steady_def queue_log_def queue_known_def started_set_phase [OF i] working_set_phase [OF i] run_fields
        one_at_a_time_def)
  have l: "steady (leave_task i t)" "queue_log (leave_task i t) = queue_log t"
    using leave_steady(1,2) [OF _ steady_working [OF assms]] assms(1) unfolding steady_def by blast+
  show c: "start_task i t = leave_task i t \<or> start_task i t = ?r"
    by (auto simp: start_task_def split: option.split)
  with r l show "steady (start_task i t)" "queue_log (start_task i t) = queue_log t" by auto
qed

lemma steady_step:
  assumes "steady t" "undisturbed t e" "tree_event_step e t = Some t'"
  shows "steady t' \<and> queue_log t' = queue_log t @ submitted [e]"
proof (cases e)
  case (AddNode now k inc sid p)
  then obtain n where a: "add_node now k inc sid p t = Inr (n, t')" using assms(3) by (auto split: sum.splits)
  then have f: "mt_tasks t' = mt_tasks t" "mt_queue t' = mt_queue t" "get_node t x \<noteq> None \<Longrightarrow> get_node t' x \<noteq> None" for x
    by (auto simp: add_node_def Let_def dict_simps split: if_splits)
  have "steady t' \<and> queue_log t' = queue_log t"
    by (rule steady_same [OF assms(1) same_run_add [OF a]]) (use assms(1) f in \<open>simp_all add: steady_def\<close>)
  then show ?thesis by (simp add: AddNode)
next
  case (Submit k)
  with assms steady_submit [of t k] show ?thesis by auto
next
  case (StartTask i)
  with assms steady_start(2,3) [of t i] show ?thesis
    by (auto simp: working_tasks_def working_def split: if_splits)
next
  case (FinishTask now i out)
  with assms steady_finish(1,2) [of t i now out] show ?thesis
    by (auto simp: working_tasks_def working_def split: if_splits)
next
  case (AbortTask i)
  with assms show ?thesis by (auto simp: steady_def split: if_splits)
next
  case (EndNotify i)
  then have i: "i < length (mt_tasks t)" "phase_of t i = TaskNotifying" "t' = set_phase i TaskDone t"
    using assms(3) by (auto split: if_splits)
  then have "i \<notin> working_tasks t" by (simp add: working_tasks_def working_def)
  then have "working_tasks t' = working_tasks t" using i by (simp add: working_set_phase)
  then show ?thesis
    using assms(1) cancel_set_phase [OF i(1), of TaskDone] i
    by (auto simp: EndNotify steady_def queue_log_def queue_known_def started_set_phase run_fields one_at_a_time_def)
next
  case (SetState now k st sid err)
  have "steady t' \<and> queue_log t' = queue_log t"
    by (rule steady_same [OF assms(1)])
      (use assms(1,3) SetState update_state_nodes [of now k st sid err t] in \<open>auto simp: steady_def run_fields same_run_update\<close>)
  then show ?thesis by (simp add: SetState)
qed (use assms(2) in simp_all)

lemma steady_new: "steady (new_tree n) \<and> queue_log (new_tree n) = []"
  by (simp add: steady_def queue_log_def started_def queue_known_def one_at_a_time_def working_tasks_def new_tree_def new_queue_def)

lemma reached_steady: "reached undisturbed es t \<Longrightarrow> steady t \<and> queue_log t = submitted es"
proof (induction rule: reached.induct)
  case (event es t e t')
  then show ?case using steady_step [of t e t'] by (simp add: submitted_append)
qed (use steady_new in simp)

section \<open>The queue is emptied\<close>

definition backlog :: "message_tree \<Rightarrow> nat" where
  "backlog t = (if mt_is_processing t then Suc (length (sq_deque (mt_queue t))) else 0)"

fun is_work :: "tree_event \<Rightarrow> bool" where
  "is_work (StartTask _) = True"
| "is_work (FinishTask _ _ _) = True"
| "is_work _ = False"

lemma submitted_work: "\<forall>e \<in> set es. is_work e \<Longrightarrow> submitted es = []"
  by (induction es rule: submitted.induct) auto

lemma idle_backlog: "\<not> mt_is_processing t \<Longrightarrow> backlog t = 0"
  by (simp add: backlog_def)

lemma leave_backlog:
  assumes "queue_known t" "working_tasks t = {i}" "\<forall>k \<in> set (mt_tasks t). \<not> tk_cancel k" "mt_is_processing t"
  shows "backlog (leave_task i t) < backlog t"
proof (cases "sq_deque (mt_queue t)")
  case Nil
  then have "\<not> mt_is_processing (leave_task i t)" by (simp add: leave_nil run_fields)
  then show ?thesis using assms(4) by (simp add: idle_backlog) (simp add: backlog_def)
next
  case (Cons k rest)
  have "backlog (leave_task i t) \<le> Suc (length rest)"
    using leave_steady(3) [OF assms(1-3)] Cons by (simp add: backlog_def)
  then show ?thesis using assms(4) Cons by (simp add: backlog_def)
qed

lemma return_backlog:
  assumes "steady t" "i \<in> working_tasks t"
  shows "backlog (finish_task now i Returned t) < backlog t"
proof -
  let ?u = "clear_current_node t"
  have "queue_known ?u" "\<forall>k \<in> set (mt_tasks ?u). \<not> tk_cancel k" "mt_is_processing ?u"
    using assms by (auto simp: steady_def queue_known_def run_fields)
  moreover have "working_tasks ?u = {i}" using steady_working [OF assms] by (simp add: working_fields)
  ultimately have "backlog (leave_task i ?u) < backlog ?u" by (intro leave_backlog)
  moreover have "backlog ?u = backlog t" by (simp add: backlog_def run_fields)
  ultimately show ?thesis by (simp add: finish_task_def)
qed

text \<open>A running task that returns; a created one that starts and, unless it left at once, returns.\<close>

lemma work_running:
  assumes "reached undisturbed es t" "i \<in> working_tasks t" "phase_of t i = TaskRunning"
  shows "\<exists>t'. reached undisturbed (es @ [FinishTask [] i Returned]) t' \<and> backlog t' < backlog t"
proof -
  have "tree_event_step (FinishTask [] i Returned) t = Some (finish_task [] i Returned t)"
    using assms(2,3) by (simp add: working_tasks_def)
  from reached.event [OF assms(1) _ this] return_backlog [of t i "[]"] reached_steady [OF assms(1)] assms(2)
  show ?thesis by auto
qed

lemma work_step:
  assumes r: "reached undisturbed es t" and p: "mt_is_processing t"
  shows "\<exists>es' t'. (\<forall>e \<in> set es'. is_work e) \<and> reached undisturbed (es @ es') t' \<and> backlog t' < backlog t"
proof -
  have st: "steady t" using reached_steady [OF r] by simp
  then obtain i where i: "i \<in> working_tasks t" using p by (auto simp: steady_def)
  show ?thesis
  proof (cases "phase_of t i = TaskRunning")
    case True
    from work_running [OF r i True] obtain t' where "reached undisturbed (es @ [FinishTask [] i Returned]) t'" "backlog t' < backlog t"
      by blast
    then show ?thesis by (intro exI [of _ "[FinishTask [] i Returned]"]) auto
  next
    case False
    with i have c: "phase_of t i = TaskCreated" "i < length (mt_tasks t)" by (auto simp: working_tasks_def working_def)
    then have "tree_event_step (StartTask i) t = Some (start_task i t)" using st by (simp add: steady_def)
    then have r1: "reached undisturbed (es @ [StartTask i]) (start_task i t)"
      using reached.event [OF r] by simp
    show ?thesis
    proof (cases "start_task i t = leave_task i t")
      case True
      have "backlog (leave_task i t) < backlog t"
        using leave_backlog [of t i] st steady_working [OF st i] p by (simp add: steady_def)
      then show ?thesis using r1 True by (intro exI [of _ "[StartTask i]"]) auto
    next
      case False
      then have run: "start_task i t = set_phase i TaskRunning t" using steady_start(1) [OF st i] by blast
      have "i \<in> working_tasks (start_task i t)" "phase_of (start_task i t) i = TaskRunning"
        using c(2) unfolding run by (simp_all add: working_set_phase) (simp add: set_phase_def)
      from work_running [OF r1 this] obtain t' where
        "reached undisturbed ((es @ [StartTask i]) @ [FinishTask [] i Returned]) t'" "backlog t' < backlog (start_task i t)"
        by blast
      moreover have "backlog (start_task i t) = backlog t" unfolding run by (simp add: backlog_def run_fields)
      ultimately show ?thesis by (intro exI [of _ "[StartTask i, FinishTask [] i Returned]"]) auto
    qed
  qed
qed

lemma work_off:
  assumes "reached undisturbed es t"
  shows "\<exists>es' t'. (\<forall>e \<in> set es'. is_work e) \<and> reached undisturbed (es @ es') t' \<and> \<not> mt_is_processing t'"
  using assms
proof (induction "backlog t" arbitrary: es t rule: less_induct)
  case less
  show ?case
  proof (cases "mt_is_processing t")
    case False
    then show ?thesis using less.prems by (intro exI [of _ "[]"]) auto
  next
    case True
    from work_step [OF less.prems True] obtain es1 t1 where
      1: "\<forall>e \<in> set es1. is_work e" "reached undisturbed (es @ es1) t1" "backlog t1 < backlog t" by blast
    from less.hyps [OF 1(3,2)] obtain es2 t2 where
      "\<forall>e \<in> set es2. is_work e" "reached undisturbed ((es @ es1) @ es2) t2" "\<not> mt_is_processing t2" by blast
    with 1(1) show ?thesis by (intro exI [of _ "es1 @ es2"]) auto
  qed
qed

section \<open>A tree that will never work again\<close>

definition stuck :: "message_tree \<Rightarrow> bool" where
  "stuck t \<longleftrightarrow> mt_is_processing t \<and> (\<forall>k \<in> set (mt_tasks t). tk_phase k = TaskDone)"

lemma stuck_same_run: "stuck t \<Longrightarrow> same_run t t' \<Longrightarrow> stuck t' \<and> length (mt_tasks t') = length (mt_tasks t)"
proof -
  assume s: "stuck t" and r: "same_run t t'"
  have "tk_phase k = TaskDone" if "k \<in> set (mt_tasks t')" for k
  proof -
    have "tk_phase k \<in> set (map tk_phase (mt_tasks t))"
      using that r unfolding same_run_def by (metis image_eqI set_map)
    then show ?thesis using s by (auto simp: stuck_def)
  qed
  then show ?thesis using s r same_run_length [OF r] by (auto simp: stuck_def same_run_def)
qed

lemma stuck_step:
  assumes "stuck t" "tree_event_step e t = Some t'" "\<And>now. e \<noteq> CancelTree now"
  shows "stuck t' \<and> length (mt_tasks t') = length (mt_tasks t)"
proof (cases e)
  case (AddNode now k inc sid p)
  with assms(2) show ?thesis by (auto intro!: stuck_same_run [OF assms(1)] same_run_add split: sum.splits)
next
  case (Submit k)
  then have "t' = put_queue_unlocked k t" using assms(1,2) by (simp add: enqueue_and_start_def stuck_def)
  then have "same_run t t'" by (simp add: put_queue_unlocked_def same_run_def)
  then show ?thesis by (rule stuck_same_run [OF assms(1)])
next
  case (SetState now k st sid err)
  with assms(2) show ?thesis by (auto intro!: stuck_same_run [OF assms(1)] same_run_update)
next
  case (CancelNode now k)
  with assms(2) show ?thesis using stuck_same_run [OF assms(1) same_run_cancel_node] by auto
next
  case (RemoveBranch b)
  with assms(2) show ?thesis
    by (auto intro!: stuck_same_run [OF assms(1) same_run_remove_branch] split: if_splits option.splits)
next
  case (CancelTree now)
  with assms(3) show ?thesis by blast
qed (use assms(1,2) in \<open>auto simp: stuck_def split: if_splits\<close>)

lemma stuck_run:
  "stuck t \<Longrightarrow> run_events es t = Some t' \<Longrightarrow> (\<And>e now. e \<in> set es \<Longrightarrow> e \<noteq> CancelTree now) \<Longrightarrow>
   stuck t' \<and> length (mt_tasks t') = length (mt_tasks t)"
proof (induction es arbitrary: t)
  case (Cons e es)
  then obtain t1 where t1: "tree_event_step e t = Some t1" "run_events es t1 = Some t'" by (auto simp: bind_eq_Some_conv)
  with stuck_step [OF Cons.prems(1) t1(1)] Cons.IH [of t1] Cons.prems(3) show ?case by auto
qed simp

section \<open>Properties\<close>

text \<open>
  C28: as long as nobody cancels a whole tree, at most one task of a tree is about to enter or
  inside the user's processor, whatever is handed in, cancelled or removed, and while there is
  one the tree counts as busy.
\<close>

theorem one_task_per_tree:
  assumes "reached (\<lambda>_ e. \<forall>now. e \<noteq> CancelTree now) es t"
  shows "card (working_tasks t) \<le> 1 \<and> (working_tasks t \<noteq> {} \<longrightarrow> mt_is_processing t)"
proof -
  have "one_at_a_time t" using assms
  proof (induction rule: reached.induct)
    case (fresh node_id now inc sid)
    then show ?case by (simp add: one_at_a_time_def working_tasks_def new_tree_def)
  next
    case (event es t e t')
    then show ?case using one_step by blast
  qed
  then obtain i where "working_tasks t \<subseteq> {i}" "working_tasks t \<noteq> {} \<longrightarrow> mt_is_processing t"
    unfolding one_at_a_time_def by blast
  then show ?thesis using card_mono [of "{i}" "working_tasks t"] by simp
qed

lemma demo_reached: "reached allowed [] demo_start"
  unfolding demo_start_def by (rule reached.fresh) simp

lemmas demo_run_simps = demo_start_def new_tree_def new_node_def add_node_def Let_def enqueue_and_start_def
  set_processing_state_def create_task_def set_current_task_def start_task_def node_object_def set_phase_def
  cancel_one_node_def is_active_def active_state_def is_current_node_def cancel_current_task_def
  remove_from_queue_def sq_remove_def mark_error_def set_node_error_def new_queue_def put_queue_unlocked_def sq_put_def
  cancel_one_tree_def cancel_running_def drain_queue_and_mark_cancelled_def reset_processing_state_def
  finish_task_def leave_task_def process_next_def tree_dequeue_def sq_get_def clear_current_node_def

theorem one_task_per_tree_witness:
  "card (working_tasks (snd (enqueue_and_start ''m1'' demo_start))) \<le> 1 \<and>
    0 \<in> working_tasks (snd (enqueue_and_start ''m1'' demo_start)) \<and>
    mt_is_processing (snd (enqueue_and_start ''m1'' demo_start))"
proof -
  let ?t = "snd (enqueue_and_start ''m1'' demo_start)"
  have "reached (\<lambda>_ e. \<forall>now. e \<noteq> CancelTree now) [Submit ''m1''] ?t"
    by (rule reached.event [OF demo_reached, of _ "Submit ''m1''", simplified]) simp_all
  from one_task_per_tree [OF this] have t: "card (working_tasks ?t) \<le> 1" "working_tasks ?t \<noteq> {} \<longrightarrow> mt_is_processing ?t"
    by blast+
  have w: "0 \<in> working_tasks ?t"
    by (simp add: demo_run_simps working_tasks_def working_def)
  with t show ?thesis by blast
qed

definition overlap_run :: "tree_event list" where
  "overlap_run = [Submit ''m1'', StartTask 0, CancelTree ''t1'', AddNode ''t2'' ''m2'' demo_incoming ''s2'' ''m1'',
     Submit ''m2'', StartTask 1]"


text \<open>
  C30: undisturbed, a tree starts its messages in the order they were handed in: the nodes of the
  tasks created so far followed by the queue are the nodes handed in.
\<close>

theorem first_in_first_out:
  assumes "reached undisturbed es t"
  shows "started t @ get_queue_snapshot t = submitted es"
  using reached_steady [OF assms] by (simp add: queue_log_def get_queue_snapshot_def)

text \<open>
  C29: undisturbed, from any state the tasks at hand can run the queue empty: after finitely many
  task steps every message handed in has been started and the tree is free.
\<close>

theorem queue_is_emptied:
  assumes "reached undisturbed es t"
  shows "\<exists>es' t'. (\<forall>e \<in> set es'. is_work e) \<and> reached undisturbed (es @ es') t' \<and>
    started t' = submitted es \<and> get_queue_size t' = 0 \<and> \<not> mt_is_processing t'"
proof -
  obtain es' t' where w: "\<forall>e \<in> set es'. is_work e" "reached undisturbed (es @ es') t'" "\<not> mt_is_processing t'"
    using work_off [OF assms] by blast
  have "steady t'" "queue_log t' = submitted es"
    using reached_steady [OF w(2)] submitted_work [OF w(1)] by (simp_all add: submitted_append)
  then have "sq_deque (mt_queue t') = []" "started t' = submitted es"
    using w(3) by (auto simp: steady_def queue_log_def)
  with w show ?thesis by (auto simp: get_queue_size_def)
qed

theorem first_in_first_out_witness:
  "started (snd (enqueue_and_start ''m1'' demo_start)) @ get_queue_snapshot (snd (enqueue_and_start ''m1'' demo_start)) = [''m1'']"
  using first_in_first_out [of "[] @ [Submit ''m1'']", OF reached.event [OF demo_reached, of _ "Submit ''m1''"]]
  by (simp add: demo_start_def new_tree_def new_node_def)

theorem queue_is_emptied_witness:
  "\<exists>es' t'. reached undisturbed ([Submit ''m1''] @ es') t' \<and>
    started t' = [''m1''] \<and> get_queue_size t' = 0 \<and> \<not> mt_is_processing t'"
  using queue_is_emptied [of "[] @ [Submit ''m1'']", OF reached.event [OF demo_reached, of _ "Submit ''m1''"]]
  by (simp add: demo_start_def new_tree_def new_node_def) blast

definition blocked_run :: "tree_event list" where
  "blocked_run = [Submit ''m1'', CancelNode ''t1'' ''m1'', AbortTask 0, AddNode ''t2'' ''m2'' demo_incoming ''s2'' ''m1'',
     Submit ''m2'']"

text \<open>
  A node cancelled before its task takes its first step blocks its tree: the task ends
  without asking for the next node, so the tree stays busy, and whatever happens short of
  cancelling the whole tree no further task is ever created.
\<close>

lemma cancel_before_start_blocks:
  "\<exists>t. reached (\<lambda>_ _. True) blocked_run t \<and> get_queue_snapshot t = [''m2''] \<and>
     (\<forall>es t'. run_events es t = Some t' \<and> (\<forall>e \<in> set es. \<forall>now. e \<noteq> CancelTree now) \<longrightarrow>
        length (mt_tasks t') = length (mt_tasks t) \<and> mt_is_processing t')"
proof -
  obtain t where t: "run_events blocked_run demo_start = Some t" "stuck t" "get_queue_snapshot t = [''m2'']"
    by (simp add: blocked_run_def demo_run_simps stuck_def get_queue_snapshot_def)
  have "reached (\<lambda>_ _. True) ([] @ blocked_run) t" by (rule reached_run [OF demo_reached t(1)])
  moreover have "length (mt_tasks t') = length (mt_tasks t) \<and> mt_is_processing t'"
    if "run_events es t = Some t'" "\<forall>e \<in> set es. \<forall>now. e \<noteq> CancelTree now" for es t'
    using stuck_run [OF t(2) that(1)] that(2) by (auto simp: stuck_def)
  ultimately show ?thesis using t(3) by auto
qed

lemma cancel_before_start_blocks_example:
  "\<exists>t t'. reached (\<lambda>_ _. True) blocked_run t \<and> run_events [Submit ''m1''] t = Some t' \<and>
     length (mt_tasks t') = length (mt_tasks t) \<and> mt_is_processing t'"
proof -
  obtain t where t: "reached (\<lambda>_ _. True) blocked_run t"
    "\<And>es t'. run_events es t = Some t' \<Longrightarrow> (\<forall>e \<in> set es. \<forall>now. e \<noteq> CancelTree now) \<Longrightarrow>
        length (mt_tasks t') = length (mt_tasks t) \<and> mt_is_processing t'"
    using cancel_before_start_blocks by blast
  have "run_events [Submit ''m1''] t = Some (snd (enqueue_and_start ''m1'' t))" by simp
  with t show ?thesis by fastforce
qed

end
