(* ===== verification/Tree_Manager.thy ===== *)
theory Tree_Manager
  imports Tree_Runs
begin

text \<open>
  The manager's operations on the index: what cancelling a tree leaves, which nodes an error
  reaches, how replies find their parent, and that the index agrees with its trees.
\<close>

section \<open>Marking nodes\<close>

lemma mark_error_node:
  "get_node (mark_error now msg k t) k' =
     (if k' = k then map_option (set_node_error now msg) (get_node t k) else get_node t k')"
  by (auto simp: mark_error_def dict_simps split: option.split)

lemma mark_error_active: "is_active (mark_error now msg k t) k' \<longleftrightarrow> k' \<noteq> k \<and> is_active t k'"
  by (auto simp: is_active_def mark_error_node active_state_def set_node_error_def split: option.split)

lemma drain_items_nodes:
  "drain_items now msg xs t = (ns, t') \<Longrightarrow> mt_queue t' = mt_queue t \<and>
     (\<forall>k. is_active t' k \<longrightarrow> is_active t k \<and> k \<notin> set xs) \<and> (\<forall>k. k \<notin> set xs \<longrightarrow> get_node t' k = get_node t k)"
proof (induction xs arbitrary: t ns t')
  case (Cons x xs)
  obtain ns1 t1 where d: "drain_items now msg xs (mark_error now msg x t) = (ns1, t1)" by fastforce
  have q: "mt_queue (mark_error now msg x t) = mt_queue t" by (simp add: mark_error_def split: option.split)
  from Cons.prems d have "t' = t1" by (simp split: if_splits)
  with Cons.IH [OF d] q show ?case by (auto simp: mark_error_active mark_error_node)
qed auto

lemma mark_stale_active:
  "is_active (mark_stale now msg ids ks t) k \<longleftrightarrow> is_active t k \<and> (k \<in> set ids \<or> k \<notin> set ks)"
proof (induction ks arbitrary: t)
  case (Cons x ks)
  show ?case unfolding mark_stale.simps Cons by (auto simp: mark_error_active)
qed simp

lemma mark_stale_kept: "\<not> is_active t k \<Longrightarrow> get_node (mark_stale now msg ids ks t) k = get_node t k"
proof (induction ks arbitrary: t)
  case (Cons x ks)
  let ?t = "if is_active t x \<and> x \<notin> set ids then mark_error now msg x t else t"
  have "\<not> is_active ?t k" "get_node ?t k = get_node t k"
    using Cons.prems by (auto simp: mark_error_active mark_error_node)
  with Cons.IH [of ?t] show ?case by simp
qed simp

lemma same_shape_stale: "same_shape t (mark_stale now msg ids ks t)"
proof (induction ks arbitrary: t)
  case (Cons x ks)
  show ?case using Cons [of t] same_shape_trans [OF same_shape_mark Cons] by (simp add: same_shape_refl)
qed (simp add: same_shape_refl)

lemma cancel_running_nodes:
  assumes "cancel_running now t = (ids, t1)"
  shows "mt_queue t1 = mt_queue t" "\<And>k. is_active t1 k \<Longrightarrow> is_active t k \<and> k \<notin> set ids" "same_shape t t1"
    "\<And>k. \<not> is_active t k \<Longrightarrow> get_node t1 k = get_node t k"
proof -
  have c: "mt_queue u = mt_queue t \<and> mt_nodes u = mt_nodes t \<and> same_shape t u" if "cancel_current_task t = (b, u)" for b u
    using that same_shape_queue(9) [of t] by (auto simp: cancel_current_task_def split: option.splits if_splits)
  obtain b u where u: "cancel_current_task t = (b, u)" by fastforce
  have cases: "ids = [] \<and> t1 = u \<or> (\<exists>x. ids = [x] \<and> is_active u x \<and> t1 = mark_error now CANCELLED_BY_USER x u)"
    using assms u by (auto simp: cancel_running_def split: bool.splits option.splits if_splits)
  have q: "mt_queue (mark_error now m x u) = mt_queue u" for m x by (simp add: mark_error_def split: option.split)
  have a: "is_active u k = is_active t k" "get_node u k = get_node t k" for k using c [OF u] by (simp_all add: is_active_def)
  show "mt_queue t1 = mt_queue t" using cases c [OF u] q by auto
  show "is_active t1 k \<Longrightarrow> is_active t k \<and> k \<notin> set ids" for k using cases a by (auto simp: mark_error_active)
  show "same_shape t t1" using cases c [OF u] by (auto intro: same_shape_trans [OF _ same_shape_mark])
  show "\<not> is_active t k \<Longrightarrow> get_node t1 k = get_node t k" for k using cases a by (auto simp: mark_error_node)
qed

lemma active_key: "is_active t k \<Longrightarrow> k \<in> set (dkeys (mt_nodes t))"
  by (auto simp: is_active_def dest: map_of_in_dkeys split: option.splits)

lemma drain_items_ids: "drain_items now msg xs t = (ns, t') \<Longrightarrow> set ns \<subseteq> set xs"
proof (induction xs arbitrary: t ns t')
  case (Cons x xs)
  obtain ns1 t1 where "drain_items now msg xs (mark_error now msg x t) = (ns1, t1)" by fastforce
  with Cons.IH [OF this] Cons.prems show ?case by (auto split: if_splits)
qed simp

lemma mark_stale_queue: "mt_queue (mark_stale now msg ids ks t) = mt_queue t"
  by (induction ks arbitrary: t) (simp_all add: mark_error_def split: option.split)

lemma cancel_one_tree_run:
  assumes "cancel_one_tree now t = (ids, t')"
  shows "\<not> is_active t' k" "sq_deque (mt_queue t') = []" "\<not> mt_is_processing t'" "same_shape t t'"
    "\<not> is_active t k \<Longrightarrow> k \<notin> set (sq_deque (mt_queue t)) \<Longrightarrow> get_node t' k = get_node t k"
proof -
  obtain running t1 where r: "cancel_running now t = (running, t1)" by fastforce
  obtain queued t2 where d: "drain_items now CANCELLED_BY_USER (sq_deque (mt_queue t1)) t1 = (queued, t2)" by fastforce
  let ?q = "\<lparr>sq_deque = [], sq_set = sq_set (mt_queue t1) - set (sq_deque (mt_queue t1))\<rparr>"
  let ?t3 = "t2\<lparr>mt_queue := ?q\<rparr>"
  let ?ids = "running @ queued"
  let ?t4 = "mark_stale now ''Stale task cleaned up'' ?ids (dkeys (mt_nodes ?t3)) ?t3"
  have t': "t' = reset_processing_state ?t4"
    using assms by (auto simp: cancel_one_tree_def r drain_queue_and_mark_cancelled_def d)
  have drained: "set queued \<subseteq> set (sq_deque (mt_queue t1))" using drain_items_ids [OF d] .
  note run = cancel_running_nodes [OF r]
  note dr = drain_items_nodes [OF d]
  have reset: "get_node t' k = get_node ?t4 k" "mt_queue t' = mt_queue ?t4" for k
    by (simp_all add: t' reset_processing_state_def)
  have act: "is_active t' k \<longleftrightarrow> is_active ?t4 k" "is_active ?t3 k \<longleftrightarrow> is_active t2 k" for k
    by (simp_all add: is_active_def reset)
  have gone: "k \<notin> set ?ids" if "is_active t2 k" for k
    using that dr run(2) [of k] drained by auto
  show "\<not> is_active t' k"
    using gone [of k] active_key [of ?t3 k] unfolding act mark_stale_active by auto
  show "sq_deque (mt_queue t') = []" unfolding reset by (simp add: mark_stale_queue)
  show "\<not> mt_is_processing t'" by (simp add: t' reset_processing_state_def)
  have "same_shape t2 ?t3" by (rule same_shape_fields) simp_all
  with run(3) same_shape_drain_items [OF d] have "same_shape t ?t3" by (blast intro: same_shape_trans)
  then have "same_shape t ?t4" using same_shape_stale by (blast intro: same_shape_trans)
  then show "same_shape t t'" unfolding t' by (rule same_shape_trans) (rule same_shape_queue)
  show "get_node t' k = get_node t k" if "\<not> is_active t k" "k \<notin> set (sq_deque (mt_queue t))"
  proof -
    have "get_node t1 k = get_node t k" using run(4) [OF that(1)] .
    then have "get_node ?t3 k = get_node t k" using dr that(2) run(1) by simp
    moreover from this have "\<not> is_active ?t3 k" using that(1) by (simp add: is_active_def)
    ultimately show ?thesis using mark_stale_kept [of ?t3 k] unfolding reset by simp
  qed
qed

section \<open>Pending nodes below a node\<close>

lemma pending_kids_sub: "set (pending_kids t p) \<subseteq> set (children_of t p)"
  by (auto simp: pending_kids_def)

interpretation pend: forest pending_kids tree_wf
proof unfold_locales
  fix t assume wf: "tree_wf t"
  show "distinct (pending_kids t p)" for p using wfD(9) [OF wf] by (simp add: pending_kids_def)
  show "p = q" if "c \<in> set (pending_kids t p)" "c \<in> set (pending_kids t q)" for c p q
    using desc.one_parent [OF wf, of c p q] that pending_kids_sub by blast
  show "\<exists>d :: string \<Rightarrow> nat. \<forall>p. \<forall>c \<in> set (pending_kids t p). d c = Suc (d p)"
    using wfD(10) [OF wf] pending_kids_sub by blast
  show "finite {p. pending_kids t p \<noteq> []}"
    by (rule finite_subset [OF _ desc.finite_parents [OF wf]]) (auto simp: pending_kids_def filter_empty_conv)
qed

lemma pending_run:
  assumes "tree_wf t"
  shows "\<exists>ids. walk (pending_kids t) (pending_kids t) [n] [] = Some ids \<and> set ids = (edges_of (pending_kids t))\<^sup>+ `` {n}"
proof -
  obtain order where o: "walk (pending_kids t) (pending_kids t) [n] [] = Some (concat (map (pending_kids t) order))"
    "set order = pend.sub t n" using pend.walk_one [OF assms] by blast
  have "set (concat (map (pending_kids t) order)) = (edges_of (pending_kids t))\<^sup>+ `` {n}"
  proof (intro set_eqI iffI)
    fix c assume "c \<in> set (concat (map (pending_kids t) order))"
    then obtain p where "p \<in> pend.sub t n" "c \<in> set (pending_kids t p)" using o(2) by auto
    then show "c \<in> (edges_of (pending_kids t))\<^sup>+ `` {n}"
      by (auto simp: pend.sub_def edges_of_def intro: rtrancl_into_trancl1)
  next
    fix c assume "c \<in> (edges_of (pending_kids t))\<^sup>+ `` {n}"
    then obtain p where "(n, p) \<in> (edges_of (pending_kids t))\<^sup>*" "(p, c) \<in> edges_of (pending_kids t)"
      by (auto dest: tranclD2)
    then show "c \<in> set (concat (map (pending_kids t) order))" using o(2) by (auto simp: pend.sub_def edges_of_def)
  qed
  with o(1) show ?thesis by blast
qed

section \<open>The index agrees with its trees\<close>

definition repo_wf :: "repository \<Rightarrow> bool" where
  "repo_wf r \<longleftrightarrow> distinct (dkeys (tr_trees r)) \<and>
     (\<forall>rid t. map_of (tr_trees r) rid = Some t \<longrightarrow> mt_root_id t = rid \<and> tree_wf t \<and>
        (\<forall>k \<in> set (dkeys (mt_nodes t)). map_of (tr_node_to_tree r) k = Some rid))"

lemma repo_wfD:
  assumes "repo_wf r" "map_of (tr_trees r) rid = Some t"
  shows "mt_root_id t = rid" "tree_wf t" "k \<in> set (dkeys (mt_nodes t)) \<Longrightarrow> map_of (tr_node_to_tree r) k = Some rid"
  using assms unfolding repo_wf_def by blast+

lemma found_tree:
  assumes "repo_wf r" "get_tree_for_node r k = Some t"
  shows "map_of (tr_trees r) (mt_root_id t) = Some t" "tree_wf t" "map_of (tr_node_to_tree r) k = Some (mt_root_id t)"
proof -
  obtain rid where r: "map_of (tr_node_to_tree r) k = Some rid" "map_of (tr_trees r) rid = Some t"
    using assms(2) by (auto simp: get_tree_for_node_def split: option.splits if_splits)
  with repo_wfD [OF assms(1) r(2)] show "map_of (tr_trees r) (mt_root_id t) = Some t" "tree_wf t"
    "map_of (tr_node_to_tree r) k = Some (mt_root_id t)" by simp_all
qed

lemma repo_wf_new: "repo_wf new_repository"
  by (simp add: repo_wf_def new_repository_def)

text \<open>Replacing a tree by one with no new nodes.\<close>

lemma repo_wf_upd:
  assumes "repo_wf r" "map_of (tr_trees r) (mt_root_id t) = Some t0" "tree_wf t"
    "set (dkeys (mt_nodes t)) \<subseteq> set (dkeys (mt_nodes t0))"
  shows "repo_wf (upd_tree t r)"
  using assms repo_wfD(3) [OF assms(1,2)] unfolding repo_wf_def upd_tree_def
  by (auto simp: dict_simps distinct_dset split: if_splits)

lemma same_shape_keys: "same_shape t t' \<Longrightarrow> dkeys (mt_nodes t') = dkeys (mt_nodes t)"
  by (simp add: same_shape_def)

lemma repo_wf_shape:
  assumes "repo_wf r" "map_of (tr_trees r) (mt_root_id t) = Some t" "same_shape t t'"
  shows "repo_wf (upd_tree t' r)"
proof (rule repo_wf_upd [OF assms(1), of t' t])
  show "map_of (tr_trees r) (mt_root_id t') = Some t" using assms(2,3) by (simp add: same_shape_def)
  show "tree_wf t'" using wf_same_shape [OF repo_wfD(2) [OF assms(1,2)] assms(3)] .
  show "set (dkeys (mt_nodes t')) \<subseteq> set (dkeys (mt_nodes t))" using same_shape_keys [OF assms(3)] by simp
qed

lemma update_state_other: "k' \<noteq> k \<Longrightarrow> get_node (update_state now k st sid err t) k' = get_node t k'"
  by (auto simp: update_state_def Let_def dict_simps split: option.split)

lemma update_state_own:
  "get_node t k \<noteq> None \<Longrightarrow> map_option mn_state (get_node (update_state now k st sid err t) k) = Some st"
  by (auto simp: update_state_def Let_def dict_simps split: option.split)

lemma same_shape_fail: "same_shape t (fail_children now msg cs t)"
  by (induction cs arbitrary: t) (auto intro: same_shape_refl same_shape_trans [OF same_shape_update])

lemma fail_children_kept: "k \<notin> set cs \<Longrightarrow> get_node (fail_children now msg cs t) k = get_node t k"
  by (induction cs arbitrary: t) (auto simp: update_state_other)

lemma fail_children_state:
  "get_node t k \<noteq> None \<Longrightarrow> k \<in> set cs \<or> map_option mn_state (get_node t k) = Some ERROR \<Longrightarrow>
   map_option mn_state (get_node (fail_children now msg cs t) k) = Some ERROR"
proof (induction cs arbitrary: t)
  case (Cons c cs)
  let ?t = "update_state now c ERROR None (Some (''Parent failed: '' @ msg)) t"
  have "get_node ?t k \<noteq> None" using Cons.prems(1) by (simp add: update_state_nodes del: not_None_eq)
  moreover have "k \<in> set cs \<or> map_option mn_state (get_node ?t k) = Some ERROR"
    using Cons.prems update_state_own [of t k now ERROR] update_state_other [of k c now ERROR None _ t] by (cases "k = c") auto
  ultimately show ?case using Cons.IH [of ?t] by simp
qed simp

lemma repo_wf_register:
  assumes "repo_wf r" "\<And>rid t. map_of (tr_trees r) rid = Some t \<Longrightarrow> k \<in> set (dkeys (mt_nodes t)) \<Longrightarrow> rid = root"
  shows "repo_wf (register_node k root r)"
  using assms unfolding repo_wf_def register_node_def by (auto simp: dict_simps)

lemma resolved_node:
  assumes "repo_wf r" "resolve_parent_node_id r msg_id = Some p" "get_tree_for_node r p = Some t"
  shows "get_node t p \<noteq> None"
proof -
  obtain u where u: "get_tree_for_node r msg_id = Some u"
    and p: "(if has_node u msg_id then Some msg_id else map_option mn_node_id (find_node_by_status_message u msg_id)) = Some p"
    using assms(2) by (auto simp: resolve_parent_node_id_def split: option.splits)
  note fu = found_tree [OF assms(1) u]
  have "get_node u p \<noteq> None"
  proof (cases "has_node u msg_id")
    case True
    with p show ?thesis by (simp add: has_node_def)
  next
    case False
    with p obtain n k where "get_node u k = Some n" "mn_node_id n = p"
      by (auto simp: find_node_by_status_message_def split: option.splits if_splits)
    then show ?thesis using wfD(4) [OF fu(2), of k n] by simp
  qed
  then obtain pn where pn: "get_node u p = Some pn" by (cases "get_node u p") simp_all
  then have "p \<in> set (dkeys (mt_nodes u))" by (rule map_of_in_dkeys)
  from repo_wfD(3) [OF assms(1) fu(1) this] have "map_of (tr_node_to_tree r) p = Some (mt_root_id u)" .
  then have "mt_root_id t = mt_root_id u" using found_tree(3) [OF assms(1,3)] by simp
  then have "t = u" using found_tree(1) [OF assms(1,3)] fu(1) by (metis option.inject)
  with pn show ?thesis by simp
qed

lemma unregister_lookup:
  "map_of (tr_node_to_tree (unregister_nodes ks r)) k = (if k \<in> set ks then None else map_of (tr_node_to_tree r) k)"
proof -
  have "map_of (fold ddel ks d) k = (if k \<in> set ks then None else map_of d k)" for d :: "(string, string) dict"
    by (induction ks arbitrary: d) (auto simp: dict_simps)
  then show ?thesis by (simp add: unregister_nodes_def)
qed

lemma repo_wf_unregister:
  assumes "distinct (dkeys (tr_trees r))"
    and "\<And>rid u. map_of (tr_trees r) rid = Some u \<Longrightarrow> mt_root_id u = rid \<and> tree_wf u \<and>
      (\<forall>k \<in> set (dkeys (mt_nodes u)). map_of (tr_node_to_tree r) k = Some rid)"
    and "\<And>rid u. map_of (tr_trees r) rid = Some u \<Longrightarrow> set (dkeys (mt_nodes u)) \<inter> set ks = {}"
  shows "repo_wf (unregister_nodes ks r)"
proof -
  have t: "tr_trees (unregister_nodes ks r) = tr_trees r" by (simp add: unregister_nodes_def)
  show ?thesis unfolding repo_wf_def t
  proof (intro conjI allI impI ballI)
    fix rid u k assume u: "map_of (tr_trees r) rid = Some u" and k: "k \<in> set (dkeys (mt_nodes u))"
    then have "k \<notin> set ks" using assms(3) [OF u] by blast
    then show "map_of (tr_node_to_tree (unregister_nodes ks r)) k = Some rid"
      using assms(2) [OF u] k unfolding unregister_lookup by auto
  qed (use assms(1,2) in blast)+
qed

text \<open>No node is in two trees of a consistent index.\<close>

lemma trees_apart:
  assumes "repo_wf r" "map_of (tr_trees r) rid = Some u" "map_of (tr_trees r) rid' = Some t" "rid \<noteq> rid'"
  shows "set (dkeys (mt_nodes u)) \<inter> set (dkeys (mt_nodes t)) = {}"
proof (rule ccontr)
  assume "set (dkeys (mt_nodes u)) \<inter> set (dkeys (mt_nodes t)) \<noteq> {}"
  then obtain k where "k \<in> set (dkeys (mt_nodes u))" "k \<in> set (dkeys (mt_nodes t))" by blast
  with repo_wfD(3) [OF assms(1,2), of k] repo_wfD(3) [OF assms(1,3), of k] assms(4) show False by simp
qed

lemma node_ids:
  assumes "tree_wf t" shows "map mn_node_id (all_nodes t) = dkeys (mt_nodes t)"
proof -
  have "mn_node_id (snd p) = fst p" if "p \<in> set (mt_nodes t)" for p
    using wfD(4) [OF assms map_of_is_SomeI [OF wfD(1) [OF assms]], of "fst p" "snd p"] that by simp
  then show ?thesis by (simp add: all_nodes_def)
qed

section \<open>Properties\<close>

text \<open>
  Cancelling a tree leaves no message pending or in progress, an empty queue and a free,
  well-formed tree, and does not touch a finished message that was not queued.
\<close>

lemma cancel_tree_settles:
  assumes "repo_wf r" and "get_tree r root_id = Some t" and "cancel_tree now root_id r = (ids, r')"
  shows "\<exists>t'. get_tree r' root_id = Some t' \<and> tree_wf t' \<and> repo_wf r' \<and> (\<forall>k. \<not> is_active t' k) \<and>
    get_queue_size t' = 0 \<and> \<not> mt_is_processing t' \<and>
    (\<forall>k. \<not> is_active t k \<and> k \<notin> set (get_queue_snapshot t) \<longrightarrow> get_node t' k = get_node t k)"
proof -
  obtain t' where c: "cancel_one_tree now t = (ids, t')" and r': "r' = r\<lparr>tr_trees := dset root_id t' (tr_trees r)\<rparr>"
    using assms(2,3) by (auto simp: cancel_tree_def split: prod.splits)
  have t: "map_of (tr_trees r) root_id = Some t" using assms(2) by (simp add: get_tree_def)
  note wf = repo_wfD [OF assms(1) t]
  note run = cancel_one_tree_run [OF c]
  have rid: "mt_root_id t' = root_id" using run(4) wf(1) by (simp add: same_shape_def)
  have "repo_wf r'" using repo_wf_shape [OF assms(1) _ run(4)] t wf(1) rid by (simp add: r' upd_tree_def)
  moreover have "get_tree r' root_id = Some t'" by (simp add: r' get_tree_def dict_simps)
  ultimately show ?thesis
    using run wf_same_shape [OF wf(2) run(4)] by (auto simp: get_queue_size_def get_queue_snapshot_def)
qed

text \<open>
  Marking a node as failed reaches exactly the nodes below it along pending messages: those
  and the node itself end in \<open>ERROR\<close>, every other node is as before.
\<close>

lemma error_reaches_pending:
  assumes "repo_wf r" and "get_tree_for_node r n = Some t" and "get_node t n \<noteq> None"
  shows "\<exists>ids t'. mark_node_error now n msg True r = Some (n # ids, upd_tree t' r) \<and> repo_wf (upd_tree t' r) \<and>
    set ids = (edges_of (pending_kids (update_state now n ERROR None (Some msg) t)))\<^sup>+ `` {n} \<and>
    (\<forall>k \<in> set (n # ids). map_option mn_state (get_node t' k) = Some ERROR) \<and>
    (\<forall>k. k \<notin> set (n # ids) \<longrightarrow> get_node t' k = get_node t k)"
proof -
  note ft = found_tree [OF assms(1,2)]
  let ?t1 = "update_state now n ERROR None (Some msg) t"
  have sh: "same_shape t ?t1" by (rule same_shape_update)
  have wf1: "tree_wf ?t1" using wf_same_shape [OF ft(2) sh] .
  have root: "mt_root_id ?t1 = mt_root_id t" using sh by (simp add: same_shape_def)
  obtain ids where ids: "walk (pending_kids ?t1) (pending_kids ?t1) [n] [] = Some ids"
    "set ids = (edges_of (pending_kids ?t1))\<^sup>+ `` {n}" using pending_run [OF wf1] by blast
  let ?t2 = "fail_children now msg ids ?t1"
  have sh2: "same_shape t ?t2" using same_shape_trans [OF sh same_shape_fail] .
  have "mt_root_id t \<noteq> []"
    using wfD(2,3) [OF ft(2)] by auto
  then have "get_tree_for_node (upd_tree ?t1 r) n = Some ?t1"
    using ft(3) root by (simp add: get_tree_for_node_def upd_tree_def dict_simps)
  then have "get_pending_children (upd_tree ?t1 r) n = Some ids" by (simp add: get_pending_children_def ids(1))
  moreover have "upd_tree ?t2 r = upd_tree ?t2 r" by simp
  ultimately have m: "mark_node_error now n msg True r = Some (n # ids, upd_tree ?t2 r)"
    using assms(2,3) by (auto simp: mark_node_error_def Let_def)
  have present: "get_node ?t1 k \<noteq> None" if "k \<in> set (n # ids)" for k
  proof (cases "k = n")
    case True
    then show ?thesis using assms(3) by (simp add: update_state_nodes del: not_None_eq)
  next
    case False
    then have "k \<in> (edges_of (pending_kids ?t1))\<^sup>+ `` {n}" using that ids(2) by simp
    then obtain q where "k \<in> set (pending_kids ?t1 q)" by (auto simp: edges_of_def dest: tranclD2)
    then have "k \<in> set (dkeys (mt_nodes ?t1))" using pending_kids_sub wfD(7) [OF wf1] by blast
    then show ?thesis using map_of_notin_iff by metis
  qed
  have err: "map_option mn_state (get_node ?t2 k) = Some ERROR" if "k \<in> set (n # ids)" for k
    using fail_children_state [OF present [OF that]] update_state_own [OF assms(3)] that by (cases "k = n") auto
  have kept: "get_node ?t2 k = get_node t k" if "k \<notin> set (n # ids)" for k
    using that by (simp add: fail_children_kept update_state_other)
  show ?thesis using m ids(2) err kept repo_wf_shape [OF assms(1) ft(1) sh2] by blast
qed

text \<open>
  A reply under a node found for any known message id, with fresh ids, is added under that
  node and keeps the index consistent; from then on its own id and its status message both
  resolve to it.
\<close>

lemma reply_resolves:
  assumes "repo_wf r" and "resolve_parent_node_id r msg_id = Some p" and "get_tree_for_node r p = Some t"
    and "\<forall>u \<in> set (dvalues (tr_trees r)). get_node u node_id = None \<and> get_node u sid = None"
    and "node_id \<noteq> []" and "sid \<notin> set (dkeys (mt_status t))" and "sid \<noteq> node_id"
  shows "\<exists>t' node r'. add_to_tree now p node_id inc sid r = Inr ((t', node), r') \<and> repo_wf r' \<and>
    mn_parent_id node = Some p \<and> resolve_parent_node_id r' node_id = Some node_id \<and>
    resolve_parent_node_id (register_node sid (mt_root_id t') r') sid = Some node_id"
proof -
  have p: "get_node t p \<noteq> None" using resolved_node [OF assms(1-3)] .
  note ft = found_tree [OF assms(1,3)]
  have new: "get_node t node_id = None" "get_node t sid = None"
    using assms(4) map_of_SomeD [OF ft(1)] by (auto simp: image_iff)
  have key: "node_id \<notin> set (dkeys (mt_nodes t))" using new(1) map_of_notin_iff by metis
  obtain node t' where a: "add_node now node_id inc sid p t = Inr (node, t')" and node: "mn_parent_id node = Some p"
    using p by (auto simp: add_node_def Let_def new_node_def)
  note parts = add_node_parts [OF a key]
  note links = add_node_links [OF ft(2) a new(1) assms(5,6)]
  let ?root = "mt_root_id t"
  let ?r' = "register_node node_id ?root (upd_tree t' r)"
  have add: "add_to_tree now p node_id inc sid r = Inr ((t', node), ?r')"
    using assms(3) ft(3) a parts(2) by (auto simp: add_to_tree_def repo_has_node_def get_tree_for_node_def split: option.splits)
  have trees: "map_of (tr_trees ?r') rid = (if rid = ?root then Some t' else map_of (tr_trees r) rid)"
    "map_of (tr_node_to_tree ?r') k = (if k = node_id then Some ?root else map_of (tr_node_to_tree r) k)" for rid k
    by (simp_all add: register_node_def upd_tree_def parts(2) dict_simps)
  have other: "node_id \<notin> set (dkeys (mt_nodes u))" if "map_of (tr_trees r) rid = Some u" for rid u
    using assms(4) map_of_SomeD [OF that] map_of_notin_iff [of "mt_nodes u" node_id] by (auto simp: image_iff)
  have wf: "repo_wf ?r'" unfolding repo_wf_def
  proof (intro conjI allI impI)
    show "distinct (dkeys (tr_trees ?r'))"
      using assms(1) by (simp add: repo_wf_def register_node_def upd_tree_def distinct_dset)
    fix rid u assume u: "map_of (tr_trees ?r') rid = Some u"
    show "mt_root_id u = rid" "tree_wf u"
      using u repo_wfD(1,2) [OF assms(1), of rid u] links parts(2) by (auto simp: trees split: if_splits)
    show "\<forall>k \<in> set (dkeys (mt_nodes u)). map_of (tr_node_to_tree ?r') k = Some rid"
    proof (cases "rid = ?root")
      case True
      then have "u = t'" using u by (simp add: trees)
      then show ?thesis using True repo_wfD(3) [OF assms(1) ft(1)] parts(1) by (auto simp only: trees set_append Un_iff list.set if_cancel if_True simp_thms split: if_split)
    next
      case False
      then have u0: "map_of (tr_trees r) rid = Some u" using u by (simp add: trees)
      show ?thesis
      proof
        fix k assume "k \<in> set (dkeys (mt_nodes u))"
        with other [OF u0] repo_wfD(3) [OF assms(1) u0] show "map_of (tr_node_to_tree ?r') k = Some rid"
          unfolding trees by metis
      qed
    qed
  qed
  have rne: "?root \<noteq> []" using wfD(2,3) [OF ft(2)] by auto
  have res1: "resolve_parent_node_id ?r' node_id = Some node_id"
    using rne parts(1) map_of_notin_iff [of "mt_nodes t'" node_id]
    by (simp add: resolve_parent_node_id_def get_tree_for_node_def trees has_node_def)
  have "get_node t' sid = None"
    using new(2) assms(7) parts(1) map_of_notin_iff [of "mt_nodes t'" sid] map_of_notin_iff [of "mt_nodes t" sid] by simp
  then have res2: "resolve_parent_node_id (register_node sid (mt_root_id t') ?r') sid = Some node_id"
    using rne links parts(2) trees(1) [of ?root]
    by (simp add: resolve_parent_node_id_def get_tree_for_node_def has_node_def register_node_def dict_simps)
  show ?thesis using add wf node res1 res2 by blast
qed

text \<open>
  Removing a branch from a consistent index raises nothing and leaves a consistent index:
  below the root it removes exactly the subtree; at the root the whole tree goes, with every
  message in it cancelled.
\<close>

lemma remove_branch_index:
  assumes "repo_wf r" and "get_tree_for_node r b = Some t" and "get_node t b \<noteq> None"
  shows "\<exists>ids r'. remove_branch now b r = Some (None, (ids, mt_root_id t, b = mt_root_id t), r') \<and> repo_wf r' \<and>
    set ids = (if b = mt_root_id t then set (dkeys (mt_nodes t)) else (edges_of (children_of t))\<^sup>* `` {b}) \<and>
    (\<forall>k \<in> set ids. map_of (tr_node_to_tree r') k = None)"
proof (cases "b = mt_root_id t")
  case True
  note ft = found_tree [OF assms(1,2)]
  obtain ids0 t' where c: "cancel_one_tree now t = (ids0, t')" by fastforce
  have sh: "same_shape t t'" by (rule cancel_one_tree_run(4) [OF c])
  have wf': "tree_wf t'" by (rule wf_same_shape [OF ft(2) sh])
  let ?r1 = "r\<lparr>tr_trees := dset b t' (tr_trees r)\<rparr>"
  let ?r2 = "r\<lparr>tr_trees := ddel b (dset b t' (tr_trees r))\<rparr>"
  let ?ids = "map mn_node_id (all_nodes t')"
  have ids: "?ids = dkeys (mt_nodes t)" using node_ids [OF wf'] same_shape_keys [OF sh] by simp
  have "remove_branch now b r = Some (None, (?ids, b, True), unregister_nodes ?ids ?r2)"
    using assms(2) ft(1) True by (simp add: remove_branch_def cancel_tree_def get_tree_def c remove_tree_def dict_simps)
  moreover have "repo_wf (unregister_nodes ?ids ?r2)"
  proof (rule repo_wf_unregister)
    fix rid u assume "map_of (tr_trees ?r2) rid = Some u"
    then have u: "map_of (tr_trees r) rid = Some u" "rid \<noteq> mt_root_id t" using True by (auto simp: dict_simps split: if_splits)
    show "mt_root_id u = rid \<and> tree_wf u \<and> (\<forall>k \<in> set (dkeys (mt_nodes u)). map_of (tr_node_to_tree ?r2) k = Some rid)"
      using repo_wfD [OF assms(1) u(1)] by simp
    show "set (dkeys (mt_nodes u)) \<inter> set ?ids = {}"
      unfolding ids using trees_apart [OF assms(1) u(1) ft(1) u(2)] .
  qed (use assms(1) in \<open>simp add: repo_wf_def distinct_dset distinct_ddel\<close>)
  ultimately show ?thesis
    using ids True by (intro exI [of _ ?ids] exI [of _ "unregister_nodes ?ids ?r2"]) (simp add: unregister_lookup)
next
  case False
  note ft = found_tree [OF assms(1,2)]
  have b: "b \<in> set (dkeys (mt_nodes t))" using assms(3) unfolding map_of_notin_iff by simp
  obtain removed t' where rm: "tree_remove_branch b t = Some (None, removed, t')" "tree_wf t'" "mt_root_id t' = mt_root_id t"
    "set (dkeys (mt_nodes t')) = set (dkeys (mt_nodes t)) - desc.sub t b" "set (map mn_node_id removed) = desc.sub t b"
    using remove_branch_run [OF ft(2) b False] by blast
  let ?ids = "map mn_node_id removed"
  let ?r1 = "upd_tree t' r"
  have run: "remove_branch now b r = Some (None, (?ids, mt_root_id t, False), unregister_nodes ?ids ?r1)"
    using assms(2) False rm(1) by (simp add: remove_branch_def)
  have sub: "desc.sub t b \<subseteq> set (dkeys (mt_nodes t))" using desc_keys [OF ft(2) b] by blast
  have wf1: "repo_wf ?r1" using repo_wf_upd [OF assms(1), of t' t] ft(1) rm(2-4) by auto
  have "repo_wf (unregister_nodes ?ids ?r1)"
  proof (rule repo_wf_unregister)
    fix rid u assume u: "map_of (tr_trees ?r1) rid = Some u"
    show "mt_root_id u = rid \<and> tree_wf u \<and> (\<forall>k \<in> set (dkeys (mt_nodes u)). map_of (tr_node_to_tree ?r1) k = Some rid)"
      using repo_wfD [OF wf1 u] by blast
    show "set (dkeys (mt_nodes u)) \<inter> set ?ids = {}"
    proof (cases "rid = mt_root_id t")
      case True
      then have "u = t'" using u rm(3) by (simp add: upd_tree_def dict_simps)
      then show ?thesis unfolding rm(5) using rm(4) by auto
    next
      case False
      then have "map_of (tr_trees r) rid = Some u" using u rm(3) by (simp add: upd_tree_def dict_simps)
      from trees_apart [OF assms(1) this ft(1) False] sub show ?thesis unfolding rm(5) by blast
    qed
  qed (use wf1 in \<open>simp add: repo_wf_def\<close>)
  with run rm(5) show ?thesis
    using False by (intro exI [of _ ?ids] exI [of _ "unregister_nodes ?ids ?r1"]) (simp add: unregister_lookup desc.sub_def)
qed

section \<open>Examples\<close>

definition demo_repo :: repository where
  "demo_repo = \<lparr>tr_trees = [(''m1'', demo_tree)], tr_node_to_tree = [(''m1'', ''m1''), (''m2'', ''m1'')]\<rparr>"

lemma demo_repo_wf: "repo_wf demo_repo"
  using demo_wf demo_nodes by (auto simp: repo_wf_def demo_repo_def)

lemma demo_found: "get_tree_for_node demo_repo ''m2'' = Some demo_tree" "get_tree demo_repo ''m1'' = Some demo_tree"
  by (simp_all add: get_tree_for_node_def get_tree_def demo_repo_def)

lemma cancel_tree_settles_example:
  "\<exists>ids r' t'. cancel_tree ''t9'' ''m1'' demo_repo = (ids, r') \<and> get_tree r' ''m1'' = Some t' \<and> (\<forall>k. \<not> is_active t' k)"
proof -
  obtain ids r' where c: "cancel_tree ''t9'' ''m1'' demo_repo = (ids, r')" by fastforce
  from cancel_tree_settles [OF demo_repo_wf demo_found(2) c] c show ?thesis by blast
qed

lemma error_reaches_pending_example:
  "\<exists>ids t'. mark_node_error ''t9'' ''m2'' ''boom'' True demo_repo = Some (''m2'' # ids, upd_tree t' demo_repo)"
  using error_reaches_pending [OF demo_repo_wf demo_found(1) demo_nodes(1), of "''t9''" "''boom''"] by blast

lemma reply_resolves_example:
  "\<exists>t' node r'. add_to_tree ''t9'' ''m2'' ''m3'' demo_incoming ''s3'' demo_repo = Inr ((t', node), r') \<and> repo_wf r' \<and>
    mn_parent_id node = Some ''m2'' \<and> resolve_parent_node_id r' ''m3'' = Some ''m3'' \<and>
    resolve_parent_node_id (register_node ''s3'' (mt_root_id t') r') ''s3'' = Some ''m3''"
proof (rule reply_resolves [OF demo_repo_wf _ demo_found(1)])
  show "resolve_parent_node_id demo_repo ''m2'' = Some ''m2''"
    using demo_nodes(1) by (simp add: resolve_parent_node_id_def demo_found has_node_def del: not_None_eq)
  show "\<forall>u \<in> set (dvalues (tr_trees demo_repo)). get_node u ''m3'' = None \<and> get_node u ''s3'' = None"
    "''s3'' \<notin> set (dkeys (mt_status demo_tree))"
    by (simp_all add: demo_repo_def demo_simps)
qed simp_all

lemma remove_branch_index_example:
  "\<exists>ids r'. remove_branch ''t9'' ''m2'' demo_repo = Some (None, (ids, mt_root_id demo_tree, ''m2'' = mt_root_id demo_tree), r') \<and>
    repo_wf r'"
  using remove_branch_index [OF demo_repo_wf demo_found(1) demo_nodes(1), of "''t9''"] by blast

end
