(* ===== verification/Think_Tags.thy ===== *)
theory Think_Tags
  imports Py_Prelude
begin

text \<open>
  The streaming parser for \<open><think>\<close> tags (\<open>core/anthropic/thinking.py\<close>): the parser's
  buffer and mode, its two parsing steps, the loop of \<open>feed\<close> and \<open>flush\<close>, and a
  non-streaming reference \<open>think_spec\<close> on the whole text.  The main lemma says that the
  stepwise parser, however its input is cut into chunks, yields the reference's output.
\<close>

section \<open>The parser\<close>

datatype content_type = TEXT | THINKING

record content_chunk =
  chunk_type :: content_type
  chunk_content :: string

record think_parser =
  tp_buffer :: string
  tp_in_think :: bool

definition new_think_parser :: think_parser where
  "new_think_parser = \<lparr>tp_buffer = [], tp_in_think = False\<rparr>"

definition OPEN_TAG :: string where "OPEN_TAG = ''<think>''"
definition CLOSE_TAG :: string where "CLOSE_TAG = ''</think>''"

text \<open>\<open>if content: return ContentChunk(...)\<close>, else \<open>return None\<close>.\<close>

definition chunk_if :: "content_type \<Rightarrow> string \<Rightarrow> content_chunk option" where
  "chunk_if t s = (if s = [] then None else Some \<lparr>chunk_type = t, chunk_content = s\<rparr>)"

definition parse_outside_think :: "think_parser \<Rightarrow> content_chunk option \<times> think_parser" where
  "parse_outside_think p =
     (let b = tp_buffer p;
          think_start = py_find OPEN_TAG b;
          orphan_close = py_find CLOSE_TAG b;
          emit_all = (chunk_if TEXT b, p\<lparr>tp_buffer := []\<rparr>)
      in if orphan_close \<noteq> None \<and> (think_start = None \<or> the orphan_close < the think_start)
         then (chunk_if TEXT (take (the orphan_close) b),
               p\<lparr>tp_buffer := drop (the orphan_close + length CLOSE_TAG) b\<rparr>)
         else (case think_start of
           None \<Rightarrow>
             (case py_rfind_char (CHR ''<'') b of
                Some last_bracket \<Rightarrow>
                  (let potential_tag = drop last_bracket b; tag_len = length potential_tag
                   in if (tag_len < length OPEN_TAG \<and> py_startswith OPEN_TAG potential_tag) \<or>
                         (tag_len < length CLOSE_TAG \<and> py_startswith CLOSE_TAG potential_tag)
                      then (chunk_if TEXT (take last_bracket b), p\<lparr>tp_buffer := potential_tag\<rparr>)
                      else emit_all)
              | None \<Rightarrow> emit_all)
         | Some ts \<Rightarrow>
             (chunk_if TEXT (take ts b),
              p\<lparr>tp_buffer := drop (ts + length OPEN_TAG) b, tp_in_think := True\<rparr>)))"

definition parse_inside_think :: "think_parser \<Rightarrow> content_chunk option \<times> think_parser" where
  "parse_inside_think p =
     (let b = tp_buffer p; emit_all = (chunk_if THINKING b, p\<lparr>tp_buffer := []\<rparr>)
      in case py_find CLOSE_TAG b of
           None \<Rightarrow>
             (case py_rfind_char (CHR ''<'') b of
                Some last_bracket \<Rightarrow>
                  (if length b - last_bracket < length CLOSE_TAG
                      \<and> py_startswith CLOSE_TAG (drop last_bracket b)
                   then (chunk_if THINKING (take last_bracket b),
                         p\<lparr>tp_buffer := drop last_bracket b\<rparr>)
                   else emit_all)
              | None \<Rightarrow> emit_all)
         | Some think_end \<Rightarrow>
             (chunk_if THINKING (take think_end b),
              p\<lparr>tp_buffer := drop (think_end + length CLOSE_TAG) b, tp_in_think := False\<rparr>))"

definition parse_step :: "think_parser \<Rightarrow> content_chunk option \<times> think_parser" where
  "parse_step p = (if \<not> tp_in_think p then parse_outside_think p else parse_inside_think p)"

lemma tag_lengths [simp]: "length OPEN_TAG = 7" "length CLOSE_TAG = 8"
  by (simp_all add: OPEN_TAG_def CLOSE_TAG_def)

text \<open>
  Every iteration that emits a chunk shortens the buffer, and none lengthens it: the loop of
  \<open>feed\<close> terminates.
\<close>

lemma parse_step_shorter:
  assumes "(c, p') = parse_step p" and "tp_buffer p \<noteq> []"
  shows "length (tp_buffer p') \<le> length (tp_buffer p)"
    and "c \<noteq> None \<Longrightarrow> length (tp_buffer p') < length (tp_buffer p)"
  using assms
  by (auto simp: parse_step_def parse_outside_think_def parse_inside_think_def chunk_if_def Let_def
           split: option.splits if_splits dest: py_rfind_Some)

function feed_loop :: "think_parser \<Rightarrow> content_chunk list \<times> think_parser" where
  "feed_loop p =
     (if tp_buffer p = [] then ([], p)
      else (case parse_step p of
              (Some c, p') \<Rightarrow> (let (cs, q) = feed_loop p' in (c # cs, q))
            | (None, p') \<Rightarrow>
                (if length (tp_buffer p') = length (tp_buffer p) then ([], p')
                 else feed_loop p')))"
  by pat_completeness auto
termination
proof (relation "measure (\<lambda>p. length (tp_buffer p))", goal_cases)
  case 1 show ?case by simp
next
  case 2 then show ?case by (auto dest: parse_step_shorter)
next
  case 3 then show ?case by (auto dest: parse_step_shorter)
qed

declare feed_loop.simps [simp del]

definition feed :: "think_parser \<Rightarrow> string \<Rightarrow> content_chunk list \<times> think_parser" where
  "feed p content = feed_loop (p\<lparr>tp_buffer := tp_buffer p @ content\<rparr>)"

definition think_flush :: "think_parser \<Rightarrow> content_chunk option \<times> think_parser" where
  "think_flush p =
     (if tp_buffer p \<noteq> []
      then (Some \<lparr>chunk_type = (if tp_in_think p then THINKING else TEXT),
                  chunk_content = tp_buffer p\<rparr>,
            p\<lparr>tp_buffer := []\<rparr>)
      else (None, p))"

text \<open>A stream: one \<open>feed\<close> per delta, then \<open>flush\<close>.\<close>

fun feed_all :: "think_parser \<Rightarrow> string list \<Rightarrow> content_chunk list \<times> think_parser" where
  "feed_all p [] = ([], p)"
| "feed_all p (d # ds) =
     (let (cs, q) = feed p d; (cs', r) = feed_all q ds in (cs @ cs', r))"

definition parse_stream :: "string list \<Rightarrow> content_chunk list" where
  "parse_stream ds =
     (let (cs, p) = feed_all new_think_parser ds
      in cs @ (case fst (think_flush p) of None \<Rightarrow> [] | Some c \<Rightarrow> [c]))"

section \<open>The reference: the same text parsed in one piece\<close>

text \<open>
  Every character of the text outside the tags is labelled with the mode it was read in.  A
  closing tag is dropped in either mode, an opening tag only outside.
\<close>

function think_spec :: "bool \<Rightarrow> string \<Rightarrow> (content_type \<times> char) list" where
  "think_spec m s =
     (if s = [] then []
      else if \<not> m \<and> prefix OPEN_TAG s then think_spec True (drop (length OPEN_TAG) s)
      else if prefix CLOSE_TAG s then think_spec False (drop (length CLOSE_TAG) s)
      else ((if m then THINKING else TEXT), hd s) # think_spec m (tl s))"
  by pat_completeness auto
termination
  by (relation "measure (\<lambda>(m, s). length s)") (auto dest: prefix_length_le)

declare think_spec.simps [simp del]

definition mode_type :: "bool \<Rightarrow> content_type" where
  "mode_type m = (if m then THINKING else TEXT)"

definition tagged_chunk :: "content_chunk \<Rightarrow> (content_type \<times> char) list" where
  "tagged_chunk c = map (Pair (chunk_type c)) (chunk_content c)"

definition tagged :: "content_chunk list \<Rightarrow> (content_type \<times> char) list" where
  "tagged cs = concat (map tagged_chunk cs)"

text \<open>A tag that the reference would consume at the head of \<open>s\<close> in mode \<open>m\<close>.\<close>

definition tag_here :: "bool \<Rightarrow> string \<Rightarrow> bool" where
  "tag_here m s \<longleftrightarrow> (\<not> m \<and> prefix OPEN_TAG s) \<or> prefix CLOSE_TAG s"

lemma think_spec_skip:
  assumes "n \<le> length s" and "\<And>j. j < n \<Longrightarrow> \<not> tag_here m (drop j s)"
  shows "think_spec m s = map (Pair (mode_type m)) (take n s) @ think_spec m (drop n s)"
  using assms
proof (induction n arbitrary: s)
  case (Suc n)
  then obtain c r where s: "s = c # r" by (cases s) auto
  have "\<not> tag_here m s" using Suc.prems(2) [of 0] by simp
  then have "think_spec m s = (mode_type m, c) # think_spec m r"
    using think_spec.simps [of m s] by (auto simp: s tag_here_def mode_type_def)
  moreover have "think_spec m r = map (Pair (mode_type m)) (take n r) @ think_spec m (drop n r)"
  proof (rule Suc.IH)
    show "n \<le> length r" using Suc.prems(1) s by simp
    show "\<And>j. j < n \<Longrightarrow> \<not> tag_here m (drop j r)" using Suc.prems(2) [of "Suc j" for j] s by auto
  qed
  ultimately show ?case by (simp add: s)
qed simp

lemma prefix_drop_append:
  assumes "prefix t (drop j (b @ r))" and "j + length t \<le> length b"
  shows "prefix t (drop j b)"
proof -
  have "take (length t) (drop j (b @ r)) = t" using assms(1) by (metis append_eq_conv_conj prefixE)
  moreover have "take (length t) (drop j (b @ r)) = take (length t) (drop j b)"
    using assms(2) by simp
  ultimately show ?thesis by (metis take_is_prefix)
qed

text \<open>A tag that starts in \<open>b\<close> and ends beyond it shows a proper prefix of itself in \<open>b\<close>.\<close>

lemma straddling_prefix:
  assumes "prefix t (drop j (b @ r))" and "j < length b" and "length b < j + length t"
  shows "prefix (drop j b) t" and "length (drop j b) < length t"
proof -
  have "drop j (b @ r) = drop j b @ r" using assms(2) by simp
  with assms(1) have "prefix t (drop j b @ r)" by simp
  moreover have "prefix (drop j b) (drop j b @ r)" by simp
  ultimately have "prefix (drop j b) t \<or> prefix t (drop j b)"
    by (rule prefix_same_cases [THEN disjE]) auto
  moreover have "length (drop j b) < length t" using assms(2,3) by simp
  ultimately show "prefix (drop j b) t" by (auto dest: prefix_length_le)
  show "length (drop j b) < length t" by fact
qed

text \<open>The only \<open><\<close> of either tag is its first character.\<close>

lemma tag_bracket:
  assumes "t = OPEN_TAG \<or> t = CLOSE_TAG" and "prefix u t" and "u \<noteq> []"
  shows "u ! 0 = CHR ''<''" and "\<And>k. 0 < k \<Longrightarrow> k < length u \<Longrightarrow> u ! k \<noteq> CHR ''<''"
proof -
  have "t ! 0 = CHR ''<''" and "\<And>k. 0 < k \<Longrightarrow> k < length t \<Longrightarrow> t ! k \<noteq> CHR ''<''"
    using assms(1) by (auto simp: OPEN_TAG_def CLOSE_TAG_def nth_Cons' split: if_splits)
  moreover have "u ! k = t ! k" "k < length t" if "k < length u" for k
    using assms(2) that by (auto elim!: prefixE simp: nth_append)
  ultimately show "u ! 0 = CHR ''<''" and "\<And>k. 0 < k \<Longrightarrow> k < length u \<Longrightarrow> u ! k \<noteq> CHR ''<''"
    using assms(3) by auto
qed

section \<open>One parsing step follows the reference\<close>

lemma no_tag_before:
  assumes "i + 7 \<le> length b" and "\<And>j. j < i \<Longrightarrow> \<not> tag_here m (drop j b)" and "j < i"
  shows "\<not> tag_here m (drop j (b @ r))"
proof
  assume "tag_here m (drop j (b @ r))"
  then have "tag_here m (drop j b)"
    using assms(1,3) prefix_drop_append [of OPEN_TAG j b r] prefix_drop_append [of CLOSE_TAG j b r]
    by (auto simp: tag_here_def)
  with assms(2,3) show False by blast
qed

lemma straddle_bracket:
  assumes "tag_here m (drop j (b @ r))" and "j < length b" and "\<not> tag_here m (drop j b)"
  obtains t where "t = OPEN_TAG \<and> \<not> m \<or> t = CLOSE_TAG" "prefix (drop j b) t"
    "length (drop j b) < length t" "b ! j = CHR ''<''"
    "\<And>k. j < k \<Longrightarrow> k < length b \<Longrightarrow> b ! k \<noteq> CHR ''<''"
proof -
  obtain t where t: "t = OPEN_TAG \<and> \<not> m \<or> t = CLOSE_TAG" "prefix t (drop j (b @ r))"
    using assms(1) by (auto simp: tag_here_def)
  have "length b < j + length t"
    using prefix_drop_append [OF t(2)] t(1) assms(3) by (force simp: tag_here_def)
  note * = straddling_prefix [OF t(2) assms(2) this]
  have tt: "t = OPEN_TAG \<or> t = CLOSE_TAG" using t(1) by blast
  have ne: "drop j b \<noteq> []" using assms(2) by simp
  have "b ! j = CHR ''<''" using tag_bracket(1) [OF tt *(1) ne] assms(2) by simp
  moreover have "b ! k \<noteq> CHR ''<''" if "j < k" "k < length b" for k
    using tag_bracket(2) [OF tt *(1) ne, of "k - j"] that assms(2) by simp
  ultimately show ?thesis using that t(1) * by blast
qed

text \<open>Text held back at the last \<open><\<close>, or not held back at all, contains no part of a tag.\<close>

lemma no_tag_hold:
  assumes "\<And>j. j \<le> length b \<Longrightarrow> \<not> tag_here m (drop j b)"
    and "py_rfind_char (CHR ''<'') b = Some lb" and "j < lb"
  shows "\<not> tag_here m (drop j (b @ r))"
proof
  assume th: "tag_here m (drop j (b @ r))"
  have lb: "lb < length b" "b ! lb = CHR ''<''" using py_rfind_Some [OF assms(2)] by auto
  show False
    by (rule straddle_bracket [OF th]) (use assms lb in auto)
qed

lemma no_tag_all:
  assumes "\<And>j. j \<le> length b \<Longrightarrow> \<not> tag_here m (drop j b)"
    and "\<And>lb. py_rfind_char (CHR ''<'') b = Some lb \<Longrightarrow>
           \<not> (prefix (drop lb b) CLOSE_TAG \<and> length b - lb < 8) \<and>
           (m \<or> \<not> (prefix (drop lb b) OPEN_TAG \<and> length b - lb < 7))"
    and "j < length b"
  shows "\<not> tag_here m (drop j (b @ r))"
proof
  assume th: "tag_here m (drop j (b @ r))"
  obtain t where t: "t = OPEN_TAG \<and> \<not> m \<or> t = CLOSE_TAG" "prefix (drop j b) t"
      "length (drop j b) < length t" "b ! j = CHR ''<''"
      "\<And>k. j < k \<Longrightarrow> k < length b \<Longrightarrow> b ! k \<noteq> CHR ''<''"
    using straddle_bracket [OF th assms(3)] assms(1,3) by (metis less_imp_le)
  have "CHR ''<'' \<in> set b" using t(4) assms(3) by (metis nth_mem)
  then obtain lb where lb: "py_rfind_char (CHR ''<'') b = Some lb"
    using py_rfind_None by (metis option.exhaust)
  note l = py_rfind_Some [OF lb]
  have "lb = j" using l t(4,5) assms(3) by (metis linorder_neqE_nat)
  with assms(2) [OF lb] t(1,2,3) show False by auto
qed

lemma spec_take_drop:
  assumes "n \<le> length b" and "\<And>j. j < n \<Longrightarrow> \<not> tag_here m (drop j (b @ r))"
  shows "think_spec m (b @ r) = map (Pair (mode_type m)) (take n b) @ think_spec m (drop n b @ r)"
  using think_spec_skip [of n "b @ r" m] assms by simp

lemma spec_open:
  assumes "prefix OPEN_TAG (drop n b)"
  shows "think_spec False (drop n b @ r) = think_spec True (drop (n + 7) b @ r)"
proof -
  obtain z where z: "drop n b = OPEN_TAG @ z" using assms by (rule prefixE)
  then have "drop (n + 7) b = z" by (metis add.commute append_eq_conv_conj drop_drop tag_lengths(1))
  then show ?thesis unfolding z by (subst think_spec.simps) (simp add: OPEN_TAG_def)
qed

lemma spec_close:
  assumes "prefix CLOSE_TAG (drop n b)"
  shows "think_spec m (drop n b @ r) = think_spec False (drop (n + 8) b @ r)"
proof -
  obtain z where z: "drop n b = CLOSE_TAG @ z" using assms by (rule prefixE)
  then have "drop (n + 8) b = z" by (metis add.commute append_eq_conv_conj drop_drop tag_lengths(2))
  then show ?thesis unfolding z
    by (subst think_spec.simps) (simp add: OPEN_TAG_def CLOSE_TAG_def)
qed

definition tagged_opt :: "content_chunk option \<Rightarrow> (content_type \<times> char) list" where
  "tagged_opt c = (case c of None \<Rightarrow> [] | Some k \<Rightarrow> tagged_chunk k)"

lemma tagged_opt_chunk_if [simp]: "tagged_opt (chunk_if t s) = map (Pair t) s"
  by (simp add: tagged_opt_def chunk_if_def tagged_chunk_def)

lemma mode_type_simps [simp]: "mode_type False = TEXT" "mode_type True = THINKING"
  by (simp_all add: mode_type_def)

lemma tag_here_False: "tag_here False s \<longleftrightarrow> prefix OPEN_TAG s \<or> prefix CLOSE_TAG s"
  and tag_here_True: "tag_here True s \<longleftrightarrow> prefix CLOSE_TAG s"
  by (simp_all add: tag_here_def)

lemma inside_step_spec:
  assumes "parse_inside_think p = (c, p')" and "tp_in_think p"
  shows "think_spec True (tp_buffer p @ r) =
         tagged_opt c @ think_spec (tp_in_think p') (tp_buffer p' @ r)"
proof (cases "py_find CLOSE_TAG (tp_buffer p)")
  case None
  let ?b = "tp_buffer p"
  have none: "\<not> tag_here True (drop j ?b)" if "j \<le> length ?b" for j
    using py_find_None [OF None that] by (simp add: tag_here_True)
  show ?thesis
  proof (cases "\<exists>lb. py_rfind_char (CHR ''<'') ?b = Some lb \<and> length ?b - lb < 8
                   \<and> prefix (drop lb ?b) CLOSE_TAG")
    case True
    then obtain lb where lb: "py_rfind_char (CHR ''<'') ?b = Some lb" "length ?b - lb < 8"
      "prefix (drop lb ?b) CLOSE_TAG" by blast
    have "think_spec True (?b @ r) =
        map (Pair THINKING) (take lb ?b) @ think_spec True (drop lb ?b @ r)"
      using spec_take_drop [of lb ?b True r] no_tag_hold [OF none lb(1)] py_rfind_Some [OF lb(1)]
      by simp
    moreover have "c = chunk_if THINKING (take lb ?b)" "p' = p\<lparr>tp_buffer := drop lb ?b\<rparr>"
      using assms(1) None lb by (auto simp: parse_inside_think_def Let_def py_startswith_def)
    ultimately show ?thesis using assms(2) by simp
  next
    case False
    have "think_spec True (?b @ r) = map (Pair THINKING) ?b @ think_spec True r"
      using spec_take_drop [of "length ?b" ?b True r] no_tag_all [OF none] False
      by auto
    moreover have "c = chunk_if THINKING ?b" "p' = p\<lparr>tp_buffer := []\<rparr>"
      using assms(1) None False
      by (auto simp: parse_inside_think_def Let_def py_startswith_def split: option.splits if_splits)
    ultimately show ?thesis using assms(2) by simp
  qed
next
  case (Some i)
  let ?b = "tp_buffer p"
  have i: "prefix CLOSE_TAG (drop i ?b)" "i + 8 \<le> length ?b"
    using py_find_Some_prefix [OF Some] py_find_Some_le [OF Some] by simp_all
  have "\<not> tag_here True (drop j ?b)" if "j < i" for j
    using py_find_Some_first [OF Some that] by (simp add: tag_here_True)
  then have "think_spec True (?b @ r) =
      map (Pair THINKING) (take i ?b) @ think_spec True (drop i ?b @ r)"
    using spec_take_drop [of i ?b True r] no_tag_before [of i ?b True _ r] i by simp
  moreover have "c = chunk_if THINKING (take i ?b)"
    "p' = p\<lparr>tp_buffer := drop (i + 8) ?b, tp_in_think := False\<rparr>"
    using assms(1) Some by (auto simp: parse_inside_think_def Let_def)
  ultimately show ?thesis using spec_close [OF i(1)] by simp
qed

text \<open>The three shapes of a step outside the tags.\<close>

lemma outside_close:
  assumes "py_find CLOSE_TAG b = Some i" and "\<And>k. py_find OPEN_TAG b = Some k \<Longrightarrow> i < k"
  shows "think_spec False (b @ r) =
         map (Pair TEXT) (take i b) @ think_spec False (drop (i + 8) b @ r)"
proof -
  have i: "prefix CLOSE_TAG (drop i b)" "i + 8 \<le> length b"
    using py_find_Some_prefix [OF assms(1)] py_find_Some_le [OF assms(1)] by simp_all
  have "\<not> prefix OPEN_TAG (drop j b)" if "j < i" for j
    using that assms(2) i(2) py_find_None [of OPEN_TAG b j] py_find_Some_first [of OPEN_TAG b _ j]
    by (cases "py_find OPEN_TAG b") (auto dest: less_trans)
  then have "\<not> tag_here False (drop j b)" if "j < i" for j
    using py_find_Some_first [OF assms(1) that] that by (simp add: tag_here_False)
  then show ?thesis
    using spec_take_drop [of i b False r] no_tag_before [of i b False _ r] i spec_close [OF i(1)]
    by simp
qed

lemma outside_open:
  assumes "py_find OPEN_TAG b = Some i" and "\<And>k. py_find CLOSE_TAG b = Some k \<Longrightarrow> i \<le> k"
  shows "think_spec False (b @ r) =
         map (Pair TEXT) (take i b) @ think_spec True (drop (i + 7) b @ r)"
proof -
  have i: "prefix OPEN_TAG (drop i b)" "i + 7 \<le> length b"
    using py_find_Some_prefix [OF assms(1)] py_find_Some_le [OF assms(1)] by simp_all
  have "\<not> prefix CLOSE_TAG (drop j b)" if "j < i" for j
    using that assms(2) i(2) py_find_None [of CLOSE_TAG b j] py_find_Some_first [of CLOSE_TAG b _ j]
    by (cases "py_find CLOSE_TAG b") (auto dest: less_le_trans)
  then have "\<not> tag_here False (drop j b)" if "j < i" for j
    using py_find_Some_first [OF assms(1) that] that by (simp add: tag_here_False)
  then show ?thesis
    using spec_take_drop [of i b False r] no_tag_before [of i b False _ r] i spec_open [OF i(1)]
    by simp
qed

lemma outside_none:
  assumes "py_find OPEN_TAG b = None" and "py_find CLOSE_TAG b = None"
  shows "\<And>j. j \<le> length b \<Longrightarrow> \<not> tag_here False (drop j b)"
  using py_find_None [OF assms(1)] py_find_None [OF assms(2)] by (auto simp: tag_here_False)

lemma outside_step_spec:
  assumes "parse_outside_think p = (c, p')" and m: "\<not> tp_in_think p"
  shows "think_spec False (tp_buffer p @ r) =
         tagged_opt c @ think_spec (tp_in_think p') (tp_buffer p' @ r)"
proof -
  let ?b = "tp_buffer p" and ?o = "py_find OPEN_TAG (tp_buffer p)"
  let ?c = "py_find CLOSE_TAG (tp_buffer p)" and ?lt = "py_rfind_char (CHR ''<'') (tp_buffer p)"
  let ?held = "\<lambda>lb. (length ?b - lb < 7 \<and> prefix (drop lb ?b) OPEN_TAG) \<or>
                   (length ?b - lb < 8 \<and> prefix (drop lb ?b) CLOSE_TAG)"
  consider (close) i where "?c = Some i" "\<forall>k. ?o = Some k \<longrightarrow> i < k"
    | (open_tag) i where "?o = Some i" "\<forall>k. ?c = Some k \<longrightarrow> i \<le> k"
    | (hold) lb where "?o = None" "?c = None" "?lt = Some lb" "?held lb"
    | (all) "?o = None" "?c = None" "\<And>lb. ?lt = Some lb \<Longrightarrow> \<not> ?held lb"
    by (cases ?c; cases ?o; cases ?lt; (fastforce | (metis le_less_linear option.sel)))
  then show ?thesis
  proof cases
    case close
    then have "c = chunk_if TEXT (take i ?b)" "p' = p\<lparr>tp_buffer := drop (i + 8) ?b\<rparr>"
      using assms(1) by (cases ?o; auto simp: parse_outside_think_def Let_def)+
    with outside_close [OF close(1), of r] close(2) m show ?thesis by auto
  next
    case open_tag
    then have "c = chunk_if TEXT (take i ?b)"
      "p' = p\<lparr>tp_buffer := drop (i + 7) ?b, tp_in_think := True\<rparr>"
      using assms(1) by (cases ?c; auto simp: parse_outside_think_def Let_def)+
    with outside_open [OF open_tag(1), of r] open_tag(2) show ?thesis by auto
  next
    case hold
    then have "c = chunk_if TEXT (take lb ?b)" "p' = p\<lparr>tp_buffer := drop lb ?b\<rparr>"
      using assms(1) by (auto simp: parse_outside_think_def Let_def py_startswith_def)
    with spec_take_drop [of lb ?b False r] no_tag_hold [OF outside_none [OF hold(1,2)] hold(3)]
      py_rfind_Some [OF hold(3)] m show ?thesis by simp
  next
    case all
    then have "c = chunk_if TEXT ?b" "p' = p\<lparr>tp_buffer := []\<rparr>"
      using assms(1)
      by (auto simp: parse_outside_think_def Let_def py_startswith_def split: option.splits if_splits)
    with spec_take_drop [of "length ?b" ?b False r] no_tag_all [OF outside_none [OF all(1,2)]]
      all(3) m show ?thesis by auto
  qed
qed

lemma parse_step_spec:
  assumes "parse_step p = (c, p')"
  shows "think_spec (tp_in_think p) (tp_buffer p @ r) =
         tagged_opt c @ think_spec (tp_in_think p') (tp_buffer p' @ r)"
  using assms outside_step_spec [of p c p' r] inside_step_spec [of p c p' r]
  by (cases "tp_in_think p") (auto simp: parse_step_def)

section \<open>The streaming parser refines the reference\<close>

lemma tagged_simps [simp]:
  "tagged [] = []" "tagged (c # cs) = tagged_chunk c @ tagged cs"
  "tagged (cs @ ds) = tagged cs @ tagged ds"
  by (simp_all add: tagged_def)

lemma feed_loop_spec:
  "feed_loop p = (cs, q) \<Longrightarrow>
   think_spec (tp_in_think p) (tp_buffer p @ r) = tagged cs @ think_spec (tp_in_think q) (tp_buffer q @ r)"
proof (induction p arbitrary: cs q rule: feed_loop.induct)
  case (1 p)
  show ?case
  proof (cases "tp_buffer p = []")
    case True
    with "1.prems" show ?thesis by (simp add: feed_loop.simps)
  next
    case ne: False
    obtain c p' where step: "parse_step p = (c, p')" by (cases "parse_step p")
    note spec = parse_step_spec [OF step, of r]
    show ?thesis
    proof (cases c)
      case None
      with ne step "1.prems" spec "1.IH"(1) [OF ne step [symmetric] None]
      show ?thesis
        by (auto simp: feed_loop.simps [of p] tagged_opt_def split: if_splits)
    next
      case (Some k)
      obtain cs' q' where rest: "feed_loop p' = (cs', q')" by (cases "feed_loop p'")
      with ne step Some "1.prems" have "cs = k # cs'" "q = q'"
        by (simp_all add: feed_loop.simps [of p])
      with "1.IH"(2) [OF ne step [symmetric] Some rest] spec Some show ?thesis
        by (simp add: tagged_opt_def)
    qed
  qed
qed

lemma feed_all_spec:
  "feed_all p ds = (cs, q) \<Longrightarrow>
   think_spec (tp_in_think p) (tp_buffer p @ concat ds @ r) =
   tagged cs @ think_spec (tp_in_think q) (tp_buffer q @ r)"
proof (induction ds arbitrary: p cs q)
  case (Cons d ds)
  obtain cs1 p1 where f: "feed p d = (cs1, p1)" by (cases "feed p d")
  obtain cs2 p2 where g: "feed_all p1 ds = (cs2, p2)" by (cases "feed_all p1 ds")
  have "think_spec (tp_in_think p) (tp_buffer p @ d @ concat ds @ r) =
        tagged cs1 @ think_spec (tp_in_think p1) (tp_buffer p1 @ concat ds @ r)"
    using feed_loop_spec [OF f [unfolded feed_def], of "concat ds @ r"] by simp
  with Cons.IH [OF g] Cons.prems f g show ?case by auto
qed simp

text \<open>What stays in the buffer is plain text of the current mode: flushing it is right.\<close>

definition tp_settled :: "think_parser \<Rightarrow> bool" where
  "tp_settled p \<longleftrightarrow> (\<forall>j \<le> length (tp_buffer p). \<not> tag_here (tp_in_think p) (drop j (tp_buffer p)))"

lemma tag_here_Nil [simp]: "\<not> tag_here m []"
  by (simp add: tag_here_def OPEN_TAG_def CLOSE_TAG_def)

lemma parse_step_break:
  assumes "parse_step p = (None, p')" and "length (tp_buffer p') = length (tp_buffer p)"
    and ne: "tp_buffer p \<noteq> []"
  shows "tp_settled p'"
proof (cases "tp_in_think p")
  case True
  then have "py_find CLOSE_TAG (tp_buffer p) = None" "tp_buffer p' = tp_buffer p" "tp_in_think p'"
    using assms by (auto simp: parse_step_def parse_inside_think_def chunk_if_def Let_def
        split: option.splits if_splits dest: py_find_Some_le)
  then show ?thesis using py_find_None by (simp add: tp_settled_def tag_here_True)
next
  case False
  then have "py_find CLOSE_TAG (tp_buffer p) = None" "py_find OPEN_TAG (tp_buffer p) = None"
    "tp_buffer p' = tp_buffer p" "\<not> tp_in_think p'"
    using assms by (auto simp: parse_step_def parse_outside_think_def chunk_if_def Let_def
        split: option.splits if_splits dest: py_find_Some_le)
  then show ?thesis using py_find_None by (simp add: tp_settled_def tag_here_False)
qed

lemma feed_loop_settled: "feed_loop p = (cs, q) \<Longrightarrow> tp_settled q"
proof (induction p arbitrary: cs q rule: feed_loop.induct)
  case (1 p)
  show ?case
  proof (cases "tp_buffer p = []")
    case True
    with "1.prems" show ?thesis by (simp add: feed_loop.simps tp_settled_def)
  next
    case ne: False
    obtain c p' where step: "parse_step p = (c, p')" by (cases "parse_step p")
    show ?thesis
    proof (cases c)
      case None
      with ne step "1.prems" "1.IH"(1) [OF ne step [symmetric] None] parse_step_break [of p p']
      show ?thesis by (auto simp: feed_loop.simps [of p] split: if_splits)
    next
      case (Some k)
      obtain cs' q' where rest: "feed_loop p' = (cs', q')" by (cases "feed_loop p'")
      with ne step Some "1.prems" have "q = q'" by (simp add: feed_loop.simps [of p])
      with "1.IH"(2) [OF ne step [symmetric] Some rest] show ?thesis by simp
    qed
  qed
qed

lemma feed_all_settled: "feed_all p ds = (cs, q) \<Longrightarrow> tp_settled p \<Longrightarrow> tp_settled q"
proof (induction ds arbitrary: p cs)
  case (Cons d ds)
  then show ?case by (auto simp: feed_def split: prod.splits dest: feed_loop_settled)
qed simp

lemma settled_spec:
  "tp_settled p \<Longrightarrow>
   think_spec (tp_in_think p) (tp_buffer p) = map (Pair (mode_type (tp_in_think p))) (tp_buffer p)"
  using think_spec_skip [of "length (tp_buffer p)" "tp_buffer p" "tp_in_think p"]
  by (auto simp: tp_settled_def think_spec.simps [of _ "[]"])

lemma parse_stream_spec: "tagged (parse_stream ds) = think_spec False (concat ds)"
proof -
  obtain cs q where f: "feed_all new_think_parser ds = (cs, q)"
    by (cases "feed_all new_think_parser ds")
  have "tp_settled q"
    by (rule feed_all_settled [OF f]) (simp add: tp_settled_def new_think_parser_def)
  then have "think_spec False (concat ds) =
      tagged cs @ map (Pair (mode_type (tp_in_think q))) (tp_buffer q)"
    using feed_all_spec [OF f, of "[]"] settled_spec by (simp add: new_think_parser_def)
  then show ?thesis
    by (simp add: parse_stream_def f think_flush_def tagged_chunk_def mode_type_def)
qed

section \<open>Properties\<close>

text \<open>
  C2: however a provider cuts its text into deltas, feeding the deltas to the parser and
  flushing it yields exactly the characters the reference reads off the whole text, each
  labelled text or thinking: no character is lost, duplicated, reordered or mislabelled, no tag
  leaks, and a tag split across deltas is still recognised.
\<close>

theorem think_parser_refines_spec: "tagged (parse_stream ds) = think_spec False (concat ds)"
  by (rule parse_stream_spec)

end
