(* ===== verification/Heuristic_Tools.thy ===== *)
theory Heuristic_Tools
  imports Py_Json
begin

text \<open>
  Tool calls written as text (\<open>core/anthropic/tools.py\<close>): the buffer, the three states of
  \<open>HeuristicToolParser\<close>, its regular expressions as matching functions, and \<open>feed\<close> and \<open>flush\<close>.
  The marker of the source, the black circle U+25CF, lies outside the modelled alphabet: it is
  the parameter \<open>bullet\<close>, any character.  \<open>uuid8\<close> gives the eight hexadecimal digits of an
  identifier.
\<close>

section \<open>Matching functions\<close>

definition CONTROL_TOKEN_START :: string where "CONTROL_TOKEN_START = ''<|''"
definition CONTROL_TOKEN_END :: string where "CONTROL_TOKEN_END = ''|>''"

definition control_inner :: "char \<Rightarrow> bool" where
  "control_inner c \<longleftrightarrow> c \<noteq> CHR ''|'' \<and> c \<noteq> CHR ''>''"

text \<open>\<open><\|[^|>]{1,80}\|>\<close> at the head of the text: what follows the token.\<close>

definition match_control :: "string \<Rightarrow> string option" where
  "match_control s =
     (if py_startswith s CONTROL_TOKEN_START then
        (let r = drop 2 s; inner = takeWhile control_inner r; rest = dropWhile control_inner r
         in if 1 \<le> length inner \<and> length inner \<le> 80 \<and> py_startswith rest CONTROL_TOKEN_END
            then Some (drop 2 rest) else None)
      else None)"

lemma match_control_shorter:
  assumes "match_control s = Some r"
  shows "length r < length s"
proof -
  have r: "r = drop 2 (dropWhile control_inner (drop 2 s))" and p: "prefix CONTROL_TOKEN_START s"
    using assms by (auto simp: match_control_def Let_def py_startswith_def split: if_splits)
  have "length r \<le> length (dropWhile control_inner (drop 2 s))" by (simp add: r)
  also have "\<dots> \<le> length (drop 2 s)" by (rule length_dropWhile_le)
  also have "\<dots> < length s" using prefix_length_le [OF p] by (simp add: CONTROL_TOKEN_START_def)
  finally show ?thesis .
qed

function strip_control_tokens :: "string \<Rightarrow> string" where
  "strip_control_tokens s =
     (case s of
        [] \<Rightarrow> []
      | c # r \<Rightarrow> (case match_control s of
                   Some rest \<Rightarrow> strip_control_tokens rest
                 | None \<Rightarrow> c # strip_control_tokens r))"
  by pat_completeness auto
termination
  by (relation "measure length") (auto dest: match_control_shorter)

declare strip_control_tokens.simps [simp del]

text \<open>\<open>s.rfind(p)\<close>.\<close>

fun py_rfind :: "string \<Rightarrow> string \<Rightarrow> nat option" where
  "py_rfind p [] = (if p = [] then Some 0 else None)"
| "py_rfind p (c # s) =
     (case py_rfind p s of Some i \<Rightarrow> Some (Suc i) | None \<Rightarrow> if prefix p (c # s) then Some 0 else None)"

text \<open>The characters of \<open>\w\<close> in the modelled alphabet.\<close>

definition is_word :: "char \<Rightarrow> bool" where
  "is_word c = (let n = of_char c :: nat in
     (48 \<le> n \<and> n \<le> 57) \<or> (65 \<le> n \<and> n \<le> 90) \<or> n = 95 \<or> (97 \<le> n \<and> n \<le> 122) \<or>
     n \<in> {170, 178, 179, 181, 185, 186, 188, 189, 190} \<or> (192 \<le> n \<and> n \<noteq> 215 \<and> n \<noteq> 247))"

definition lower_char :: "char \<Rightarrow> char" where
  "lower_char c = (let n = of_char c :: nat in if 65 \<le> n \<and> n \<le> 90 then char_of (n + 32) else c)"

definition starts_ci :: "string \<Rightarrow> string \<Rightarrow> bool" where
  "starts_ci p s = (map lower_char (take (length p) s) = map lower_char p)"

text \<open>The tool name at the head of \<open>s\<close>, between word boundaries.\<close>

definition web_tool_here :: "char option \<Rightarrow> string \<Rightarrow> nat option" where
  "web_tool_here prev s =
     (let boundary = (case prev of None \<Rightarrow> True | Some c \<Rightarrow> \<not> is_word c);
          ends = (\<lambda>n. case drop n s of [] \<Rightarrow> True | c # _ \<Rightarrow> \<not> is_word c)
      in if boundary \<and> starts_ci ''WebFetch'' s \<and> ends 8 then Some 8
         else if boundary \<and> starts_ci ''WebSearch'' s \<and> ends 9 then Some 9
         else None)"

text \<open>The first brace and the first closing brace after it.\<close>

definition first_braces :: "string \<Rightarrow> (string \<times> string) option" where
  "first_braces s =
     (let t = dropWhile (\<lambda>c. c \<noteq> CHR ''{'') s; inner = takeWhile (\<lambda>c. c \<noteq> CHR ''}'') t;
          rest = dropWhile (\<lambda>c. c \<noteq> CHR ''}'') t
      in if t \<noteq> [] \<and> rest \<noteq> [] then Some (inner @ ''}'', tl rest) else None)"

lemma first_braces_shorter: "first_braces s = Some (j, r) \<Longrightarrow> length r < length s"
proof -
  assume a: "first_braces s = Some (j, r)"
  let ?t = "dropWhile (\<lambda>c. c \<noteq> CHR ''{'') s"
  have "r = tl (dropWhile (\<lambda>c. c \<noteq> CHR ''}'') ?t)" "dropWhile (\<lambda>c. c \<noteq> CHR ''}'') ?t \<noteq> []"
    using a by (auto simp: first_braces_def Let_def split: if_splits)
  then have "length r < length (dropWhile (\<lambda>c. c \<noteq> CHR ''}'') ?t)" by (cases "dropWhile (\<lambda>c. c \<noteq> CHR ''}'') ?t") auto
  also have "\<dots> \<le> length s" by (meson length_dropWhile_le order_trans)
  finally show ?thesis .
qed

text \<open>
  \<open>finditer\<close> of the web-tool pattern: the tool names and their JSON texts, in order.  The
  optional \<open>use\<close> before a name only moves the start of a match, never its groups or its end.
\<close>

function web_matches :: "char option \<Rightarrow> string \<Rightarrow> (string \<times> string) list" where
  "web_matches prev s =
     (case s of
        [] \<Rightarrow> []
      | c # r \<Rightarrow>
          (case web_tool_here prev s of
             None \<Rightarrow> web_matches (Some c) r
           | Some n \<Rightarrow>
               (case first_braces (drop n s) of
                  None \<Rightarrow> web_matches (Some c) r
                | Some (j, rest) \<Rightarrow> (take n s, j) # web_matches (Some (CHR ''}'')) rest)))"
  by pat_completeness auto
termination
  by (relation "measure (\<lambda>(p, s). length s)")
     (auto dest!: first_braces_shorter)

declare web_matches.simps [simp del]

section \<open>State\<close>

datatype parser_state = TEXT_MODE | MATCHING_FUNCTION | PARSING_PARAMETERS

record heuristic_tool =
  ht_id :: string
  ht_name :: string
  ht_input :: jdict

record heuristic_parser =
  hp_state :: parser_state
  hp_buffer :: string
  hp_tool_id :: string
  hp_function_name :: string
  hp_parameters :: jdict
  hp_ids :: nat

definition new_heuristic_parser :: heuristic_parser where
  "new_heuristic_parser =
     \<lparr>hp_state = TEXT_MODE, hp_buffer = [], hp_tool_id = [], hp_function_name = [], hp_parameters = [],
      hp_ids = 0\<rparr>"

section \<open>Web-tool JSON in text\<close>

definition web_tool_call :: "string \<times> string \<Rightarrow> (string \<times> jdict) option" where
  "web_tool_call m =
     (case json_loads (snd m) of
        Some (JObj d) \<Rightarrow>
          (if fst m = ''WebFetch'' \<and> ''url'' \<notin> set (dkeys d) then None
           else if fst m = ''WebSearch'' \<and> ''query'' \<notin> set (dkeys d) then None
           else Some (fst m, d))
      | _ \<Rightarrow> None)"

definition heuristic_id :: "(nat \<Rightarrow> string) \<Rightarrow> nat \<Rightarrow> string" where
  "heuristic_id uuid8 n = ''toolu_heuristic_'' @ uuid8 n"

fun number_tools :: "(nat \<Rightarrow> string) \<Rightarrow> nat \<Rightarrow> (string \<times> jdict) list \<Rightarrow> heuristic_tool list" where
  "number_tools uuid8 n [] = []"
| "number_tools uuid8 n ((name, d) # cs) =
     \<lparr>ht_id = heuristic_id uuid8 n, ht_name = name, ht_input = d\<rparr> # number_tools uuid8 (Suc n) cs"

text \<open>When a call is detected, the whole buffer is dropped with it.\<close>

definition extract_web_tool_json_calls ::
  "(nat \<Rightarrow> string) \<Rightarrow> heuristic_parser \<Rightarrow> heuristic_tool list \<times> heuristic_parser" where
  "extract_web_tool_json_calls uuid8 p =
     (let calls = List.map_filter web_tool_call (web_matches None (hp_buffer p))
      in if calls = [] then ([], p)
         else (number_tools uuid8 (hp_ids p) calls,
               p\<lparr>hp_buffer := [], hp_ids := hp_ids p + length calls\<rparr>))"

definition split_incomplete_control_token_tail :: "heuristic_parser \<Rightarrow> string \<times> heuristic_parser" where
  "split_incomplete_control_token_tail p =
     (let b = hp_buffer p
      in case py_rfind CONTROL_TOKEN_START b of
           None \<Rightarrow> ([], p)
         | Some start \<Rightarrow>
             if py_find CONTROL_TOKEN_END (drop start b) \<noteq> None then ([], p)
             else (take start b, p\<lparr>hp_buffer := drop start b\<rparr>))"

section \<open>Functions and parameters in text\<close>

definition FUNCTION_OPEN :: string where "FUNCTION_OPEN = ''<function=''"
definition PARAMETER_OPEN :: string where "PARAMETER_OPEN = ''<parameter=''"
definition PARAMETER_CLOSE :: string where "PARAMETER_CLOSE = ''</parameter>''"

text \<open>A tag \<open><word=name>\<close> at the head: the name and what follows.\<close>

definition match_open :: "string \<Rightarrow> string \<Rightarrow> (string \<times> string) option" where
  "match_open tag s =
     (if py_startswith s tag then
        (let r = drop (length tag) s; name = takeWhile (\<lambda>c. c \<noteq> CHR ''>'') r;
             rest = dropWhile (\<lambda>c. c \<noteq> CHR ''>'') r
         in if name \<noteq> [] \<and> rest \<noteq> [] then Some (name, tl rest) else None)
      else None)"

fun search_function :: "char \<Rightarrow> string \<Rightarrow> (string \<times> string) option" where
  "search_function bullet [] = None"
| "search_function bullet (c # r) =
     (case (if c = bullet then match_open FUNCTION_OPEN (py_lstrip r) else None) of
        Some m \<Rightarrow> Some m
      | None \<Rightarrow> search_function bullet r)"

text \<open>The leftmost opening tag: the text before it, its name and what follows.\<close>

fun search_parameter :: "string \<Rightarrow> (string \<times> string \<times> string) option" where
  "search_parameter [] = None"
| "search_parameter (c # r) =
     (case match_open PARAMETER_OPEN (c # r) of
        Some (key, rest) \<Rightarrow> Some ([], key, rest)
      | None \<Rightarrow> map_option (\<lambda>(pre, key, rest). (c # pre, key, rest)) (search_parameter r))"

definition next_parameter :: "string \<Rightarrow> (string \<times> string \<times> string \<times> string) option" where
  "next_parameter s =
     (case search_parameter s of
        None \<Rightarrow> None
      | Some (pre, key, rest) \<Rightarrow>
          (case py_find PARAMETER_CLOSE rest of
             None \<Rightarrow> None
           | Some i \<Rightarrow> Some (pre, key, take i rest, drop (i + length PARAMETER_CLOSE) rest)))"

lemma match_open_shorter: "match_open tag s = Some (k, r) \<Longrightarrow> length r < length s"
proof -
  assume a: "match_open tag s = Some (k, r)"
  let ?r = "drop (length tag) s"
  have "r = tl (dropWhile (\<lambda>c. c \<noteq> CHR ''>'') ?r)" "dropWhile (\<lambda>c. c \<noteq> CHR ''>'') ?r \<noteq> []"
    using a by (auto simp: match_open_def Let_def split: if_splits)
  then have "length r < length (dropWhile (\<lambda>c. c \<noteq> CHR ''>'') ?r)"
    by (cases "dropWhile (\<lambda>c. c \<noteq> CHR ''>'') ?r") auto
  also have "\<dots> \<le> length ?r" by (rule length_dropWhile_le)
  also have "\<dots> \<le> length s" by simp
  finally show ?thesis .
qed

lemma search_function_shorter: "search_function bullet s = Some (k, r) \<Longrightarrow> length r < length s"
proof (induction s)
  case (Cons c s)
  have "length (py_lstrip s) \<le> length s" by (simp add: py_lstrip_def length_dropWhile_le)
  with Cons show ?case
    by (fastforce dest: match_open_shorter split: option.splits if_splits)
qed simp

lemma search_parameter_shorter: "search_parameter s = Some (pre, k, r) \<Longrightarrow> length r < length s"
  by (induction s arbitrary: pre) (fastforce dest: match_open_shorter split: option.splits)+

lemma next_parameter_shorter: "next_parameter s = Some (pre, k, v, r) \<Longrightarrow> length r < length s"
  by (fastforce simp: next_parameter_def dest: search_parameter_shorter split: option.splits)

text \<open>The inner loop: the text between the parameters, the parameters and the rest.\<close>

function take_parameters :: "jdict \<Rightarrow> string \<Rightarrow> string \<times> jdict \<times> string" where
  "take_parameters params s =
     (case next_parameter s of
        None \<Rightarrow> ([], params, s)
      | Some (pre, key, val, rest) \<Rightarrow>
          (case take_parameters (dset (py_strip key) (JStr (py_strip val)) params) rest of
             (out, params', rest') \<Rightarrow> (pre @ out, params', rest')))"
  by pat_completeness auto
termination
  by (relation "measure (\<lambda>(d, s). length s)") (auto dest: next_parameter_shorter)

declare take_parameters.simps [simp del]

lemma take_parameters_shorter: "take_parameters d s = (out, d', r) \<Longrightarrow> length r \<le> length s"
proof (induction d s arbitrary: out d' r rule: take_parameters.induct)
  case (1 d s)
  then show ?case
    by (subst (asm) (2) take_parameters.simps)
       (fastforce dest: next_parameter_shorter split: option.splits prod.splits)
qed

section \<open>The loop of feed\<close>

definition mode_rank :: "parser_state \<Rightarrow> nat" where
  "mode_rank m = (case m of TEXT_MODE \<Rightarrow> 1 | MATCHING_FUNCTION \<Rightarrow> 0 | PARSING_PARAMETERS \<Rightarrow> 2)"

text \<open>Whether the parameter phase ends, what it lets through and what it leaves.\<close>

definition finish_parameters :: "char \<Rightarrow> string \<Rightarrow> bool \<times> string \<times> string" where
  "finish_parameters bullet b =
     (case py_find [bullet] b of
        Some idx \<Rightarrow> (True, take idx b, drop idx b)
      | None \<Rightarrow>
          if b \<noteq> [] \<and> \<not> py_startswith (py_strip b) ''<'' \<and> \<not> py_contains PARAMETER_OPEN b
          then (True, b, []) else (False, [], b))"

lemma search_function_measure:
  "search_function bullet s = Some x \<Longrightarrow> x = (k, r) \<Longrightarrow> Suc (Suc (3 * length r)) < 3 * length s"
  using search_function_shorter [of bullet s k r] by simp

lemma finish_parameters_measure:
  assumes "(m, y) = take_parameters d s" and "y = (d', b)"
    and "(f, z) = finish_parameters bullet b" and "z = (out, r)"
  shows "3 * length r < Suc (3 * length s)" and "length r \<le> length s"
proof -
  have "take_parameters d s = (m, d', b)" using assms(1,2) by simp
  then have "length b \<le> length s" by (rule take_parameters_shorter)
  moreover have "length r \<le> length b"
    using assms(3,4) by (auto simp: finish_parameters_def split: option.splits if_splits)
  ultimately show "3 * length r < Suc (3 * length s)" and "length r \<le> length s" by simp_all
qed

function feed_steps ::
  "char \<Rightarrow> (nat \<Rightarrow> string) \<Rightarrow> heuristic_parser \<Rightarrow> string \<times> heuristic_tool list \<times> heuristic_parser" where
  "feed_steps bullet uuid8 p =
     (case hp_state p of
        TEXT_MODE \<Rightarrow>
          (case py_find [bullet] (hp_buffer p) of
             Some idx \<Rightarrow>
               (case feed_steps bullet uuid8
                       (p\<lparr>hp_buffer := drop idx (hp_buffer p), hp_state := MATCHING_FUNCTION\<rparr>) of
                  (out, tools, q) \<Rightarrow> (take idx (hp_buffer p) @ out, tools, q))
           | None \<Rightarrow>
               (case split_incomplete_control_token_tail p of
                  (safe_prefix, q) \<Rightarrow>
                    if safe_prefix \<noteq> [] then (safe_prefix, [], q)
                    else (hp_buffer q, [], q\<lparr>hp_buffer := []\<rparr>)))
      | MATCHING_FUNCTION \<Rightarrow>
          (case search_function bullet (hp_buffer p) of
             Some (name, rest) \<Rightarrow>
               feed_steps bullet uuid8
                 (p\<lparr>hp_function_name := py_strip name, hp_tool_id := heuristic_id uuid8 (hp_ids p),
                    hp_ids := Suc (hp_ids p), hp_parameters := [], hp_buffer := rest,
                    hp_state := PARSING_PARAMETERS\<rparr>)
           | None \<Rightarrow>
               if 100 < length (hp_buffer p)
               then (case feed_steps bullet uuid8
                            (p\<lparr>hp_buffer := tl (hp_buffer p), hp_state := TEXT_MODE\<rparr>) of
                       (out, tools, q) \<Rightarrow> (hd (hp_buffer p) # out, tools, q))
               else ([], [], p))
      | PARSING_PARAMETERS \<Rightarrow>
          (case take_parameters (hp_parameters p) (hp_buffer p) of
             (between, params, b) \<Rightarrow>
               (case finish_parameters bullet b of
                  (finished, out, rest) \<Rightarrow>
                    (let p = p\<lparr>hp_parameters := params, hp_buffer := rest\<rparr>
                     in if finished
                        then (case feed_steps bullet uuid8 (p\<lparr>hp_state := TEXT_MODE\<rparr>) of
                                (out', tools, q) \<Rightarrow>
                                  (between @ out @ out',
                                   \<lparr>ht_id = hp_tool_id p, ht_name = hp_function_name p, ht_input = params\<rparr> # tools,
                                   q))
                        else (between @ out, [], p)))))"
  by pat_completeness auto
termination
  by (relation "measure (\<lambda>(b, u, p). 3 * length (hp_buffer p) + mode_rank (hp_state p))")
     (auto simp: mode_rank_def search_function_measure finish_parameters_measure)

declare feed_steps.simps [simp del]

definition hp_feed ::
  "char \<Rightarrow> (nat \<Rightarrow> string) \<Rightarrow> heuristic_parser \<Rightarrow> string \<Rightarrow> string \<times> heuristic_tool list \<times> heuristic_parser" where
  "hp_feed bullet uuid8 p text =
     (let p = p\<lparr>hp_buffer := strip_control_tokens (hp_buffer p @ text)\<rparr>;
          (web_tools, p) = extract_web_tool_json_calls uuid8 p;
          (out, tools, p) = feed_steps bullet uuid8 p
      in (out, web_tools @ tools, p))"

definition hp_flush :: "heuristic_parser \<Rightarrow> heuristic_tool list \<times> heuristic_parser" where
  "hp_flush p =
     (let p = p\<lparr>hp_buffer := strip_control_tokens (hp_buffer p)\<rparr>
      in case hp_state p of
           PARSING_PARAMETERS \<Rightarrow>
             (let params = (case search_parameter (hp_buffer p) of
                              Some (_, key, rest) \<Rightarrow> dset (py_strip key) (JStr (py_strip rest)) (hp_parameters p)
                            | None \<Rightarrow> hp_parameters p);
                  p = p\<lparr>hp_parameters := params\<rparr>
              in ([\<lparr>ht_id = hp_tool_id p, ht_name = hp_function_name p, ht_input = params\<rparr>],
                  p\<lparr>hp_state := TEXT_MODE, hp_buffer := []\<rparr>))
         | _ \<Rightarrow> ([], p))"

section \<open>Ordinary text\<close>

lemma match_control_none: "py_find CONTROL_TOKEN_START s = None \<Longrightarrow> match_control s = None"
  using py_find_None [of CONTROL_TOKEN_START s 0] by (simp add: match_control_def py_startswith_def)

lemma strip_control_none: "py_find CONTROL_TOKEN_START s = None \<Longrightarrow> strip_control_tokens s = s"
proof (induction s)
  case (Cons c s)
  from Cons.prems have "py_find CONTROL_TOKEN_START s = None" by (auto split: if_splits)
  with Cons match_control_none [OF Cons.prems] show ?case by (simp add: strip_control_tokens.simps)
qed (simp add: strip_control_tokens.simps)

lemma py_rfind_none: "py_find p s = None \<Longrightarrow> py_rfind p s = None"
  by (induction s) (auto split: if_splits)

lemma py_find_char: "py_find [c] s = None \<longleftrightarrow> c \<notin> set s"
  by (induction s) auto

lemma extract_none:
  "web_matches None (hp_buffer p) = [] \<Longrightarrow> extract_web_tool_json_calls uuid8 p = ([], p)"
  by (simp add: extract_web_tool_json_calls_def map_filter_simps)

lemma search_function_bullet: "search_function c s = Some m \<Longrightarrow> c \<in> set s"
  by (induction s) (auto split: option.splits if_splits)

section \<open>Properties\<close>

text \<open>
  C7: text without the marker, without the start of a control token and without a web-tool
  pattern passes through the parser unchanged, produces no tool call and leaves it as it was.
\<close>

theorem heuristic_plain_text:
  assumes "bullet \<notin> set text" and "py_find CONTROL_TOKEN_START text = None" and "web_matches None text = []"
    and "hp_state p = TEXT_MODE" and "hp_buffer p = []"
  shows "hp_feed bullet uuid8 p text = (text, [], p)"
proof -
  let ?p = "p\<lparr>hp_buffer := text\<rparr>"
  have "py_find [bullet] text = None" using assms(1) by (simp only: py_find_char not_False_eq_True)
  moreover have "p\<lparr>hp_buffer := []\<rparr> = p" using assms(5) by simp
  ultimately have "feed_steps bullet uuid8 ?p = (text, [], p)"
    using assms(4) py_rfind_none [OF assms(2)]
    by (subst feed_steps.simps) (simp add: split_incomplete_control_token_tail_def)
  then show ?thesis
    using assms(3,5) by (simp add: hp_feed_def strip_control_none [OF assms(2)] extract_none)
qed

theorem heuristic_plain_text_witness:
  "hp_feed (CHR ''*'') (\<lambda>n. ''00000000'') new_heuristic_parser ''hi < 3''
   = (''hi < 3'', [], new_heuristic_parser)"
  by (rule heuristic_plain_text; code_simp)

text \<open>
  Text that starts with the marker, opens no function and is at most 100 characters long is
  held back by \<open>feed\<close> and not returned by \<open>flush\<close>: at the end of a stream it is lost.
\<close>

lemma heuristic_marked_tail_lost:
  assumes "hd text = bullet" and "text \<noteq> []" and "search_function bullet text = None"
    and "length text \<le> 100" and "py_find CONTROL_TOKEN_START text = None"
    and "web_matches None text = []" and "hp_state p = TEXT_MODE" and "hp_buffer p = []"
  shows "case hp_feed bullet uuid8 p text of
           (out, tools, q) \<Rightarrow> out = [] \<and> tools = [] \<and> fst (hp_flush q) = []"
proof -
  let ?p = "p\<lparr>hp_buffer := text\<rparr>" and ?q = "p\<lparr>hp_buffer := text, hp_state := MATCHING_FUNCTION\<rparr>"
  obtain t where t: "text = bullet # t" using assms(1,2) by (cases "text") auto
  have "feed_steps bullet uuid8 ?q = ([], [], ?q)"
    using assms by (subst feed_steps.simps) simp
  then have "feed_steps bullet uuid8 ?p = ([], [], ?q)"
    using assms t by (subst feed_steps.simps) simp
  then show ?thesis
    using assms by (simp add: hp_feed_def strip_control_none [OF assms(5)] extract_none hp_flush_def)
qed

lemma heuristic_marked_tail_lost_example:
  "case hp_feed (CHR ''*'') (\<lambda>n. ''00000000'') new_heuristic_parser ''* done'' of
     (out, tools, q) \<Rightarrow> out = [] \<and> tools = [] \<and> fst (hp_flush q) = []"
  by (rule heuristic_marked_tail_lost; code_simp)

end
