(* ===== verification/Stream_Contracts.thy ===== *)
theory Stream_Contracts
  imports Py_Json
begin

text \<open>
  The event stream a client reads (\<open>core/anthropic/stream_contracts.py\<close>): events, the line
  parser, the contract checker \<open>assert_anthropic_stream_contract\<close> with every assertion as an
  error value, and the readers of text, thinking and tool use.

  A frame is what a producer writes, an event name and its payload; \<open>SSEEvent\<close> adds the raw
  text.  Producers are generators: \<open>gen\<close> is a step on their state that yields frames and may
  stop with an exception after having yielded some.  The locale \<open>block_source\<close> is the interface
  between a producer and the checker: a producer that can name its open blocks and the indexes
  it has used is tracked by the checker, and its yields compose.
\<close>

section \<open>Events\<close>

record frame =
  ev_name :: string
  ev_data :: jdict

record sse_event = frame +
  ev_raw :: string

definition mk_frame :: "string \<Rightarrow> jdict \<Rightarrow> frame" where
  "mk_frame n d = \<lparr>ev_name = n, ev_data = d\<rparr>"

lemma mk_frame_sel [simp]: "ev_name (mk_frame n d) = n" "ev_data (mk_frame n d) = d"
  by (simp_all add: mk_frame_def)

section \<open>Parsing a text stream\<close>

definition rstrip_crlf :: "string \<Rightarrow> string" where
  "rstrip_crlf s = rev (dropWhile (\<lambda>c. c = CR \<or> c = LF) (rev s))"

text \<open>\<open>stripped.split(":", 1)[1]\<close> on a line that has a colon.\<close>

definition after_colon :: "string \<Rightarrow> string" where
  "after_colon s = tl (dropWhile (\<lambda>c. c \<noteq> CHR '':'') s)"

record sse_parse_state =
  ps_events :: "sse_event list"
  ps_event :: string
  ps_data :: "string list"
  ps_raw :: "string list"

definition append_event :: "sse_event list \<Rightarrow> string \<Rightarrow> string list \<Rightarrow> string list \<Rightarrow> sse_event list" where
  "append_event events current_event data_parts raw_parts =
     (if current_event = [] \<and> data_parts = [] then events
      else
        (let data_text = py_join [LF] data_parts;
             data = (if data_text = [] then []
                     else case json_loads data_text of
                            Some (JObj d) \<Rightarrow> d
                          | Some j \<Rightarrow> [(''value'', j)]
                          | None \<Rightarrow> [(''raw'', JStr data_text)])
         in events @ [\<lparr>ev_name = current_event, ev_data = data, ev_raw = py_join [LF] raw_parts\<rparr>]))"

definition parse_sse_line :: "sse_parse_state \<Rightarrow> string \<Rightarrow> sse_parse_state" where
  "parse_sse_line st line =
     (let stripped = rstrip_crlf line
      in if stripped = []
         then \<lparr>ps_events = append_event (ps_events st) (ps_event st) (ps_data st) (ps_raw st),
               ps_event = [], ps_data = [], ps_raw = []\<rparr>
         else
           (let st = st\<lparr>ps_raw := ps_raw st @ [stripped]\<rparr>
            in if py_startswith stripped ''event:''
               then st\<lparr>ps_event := py_strip (after_colon stripped)\<rparr>
               else if py_startswith stripped ''data:''
               then st\<lparr>ps_data := ps_data st @ [py_strip (after_colon stripped)]\<rparr>
               else st))"

definition parse_sse_lines :: "string list \<Rightarrow> sse_event list" where
  "parse_sse_lines lines =
     (let st = foldl parse_sse_line \<lparr>ps_events = [], ps_event = [], ps_data = [], ps_raw = []\<rparr> lines
      in append_event (ps_events st) (ps_event st) (ps_data st) (ps_raw st))"

definition parse_sse_text :: "string \<Rightarrow> sse_event list" where
  "parse_sse_text text = parse_sse_lines (py_splitlines text)"

section \<open>The contract checker\<close>

definition SERVER_TOOL_USE :: string where "SERVER_TOOL_USE = ''server_tool_use''"
definition WEB_SEARCH_TOOL_RESULT :: string where "WEB_SEARCH_TOOL_RESULT = ''web_search_tool_result''"
definition WEB_FETCH_TOOL_RESULT :: string where "WEB_FETCH_TOOL_RESULT = ''web_fetch_tool_result''"

definition NO_DELTA_BLOCK_KINDS :: "string list" where
  "NO_DELTA_BLOCK_KINDS =
     [SERVER_TOOL_USE, WEB_SEARCH_TOOL_RESULT, WEB_FETCH_TOOL_RESULT, ''text_eager'', ''redacted_thinking'']"

definition ALLOWED_BLOCK_START_TYPES :: "string list" where
  "ALLOWED_BLOCK_START_TYPES =
     [''text'', ''thinking'', ''tool_use'', ''redacted_thinking'', SERVER_TOOL_USE,
      WEB_SEARCH_TOOL_RESULT, WEB_FETCH_TOOL_RESULT]"

datatype contract_error =
    NoEvents
  | NoMessageStart
  | NoFinalMessageStop
  | UnexpectedErrorEvent
  | BadIndex
  | BadContentBlock
  | BadBlockType string
  | StartedTwice int
  | ReusedAfterStop int
  | DeltaForUnopened int
  | DeltaForStartStopOnly int
  | BadDelta
  | WrongDeltaType int string
  | NoExpectedDelta string
  | StopForUnopened int
  | UnclosedBlocks "int list"
  | NoContentBlocks

record check_state =
  open_blocks :: "(int, string) dict"
  seen_blocks :: "int set"

definition check_init :: check_state where
  "check_init = \<lparr>open_blocks = [], seen_blocks = {}\<rparr>"

definition event_index :: "'a frame_scheme \<Rightarrow> contract_error + int" where
  "event_index e = (case as_int (jget (ev_data e) ''index'') of Some i \<Rightarrow> Inr i | None \<Rightarrow> Inl BadIndex)"

definition check_block_start :: "check_state \<Rightarrow> 'a frame_scheme \<Rightarrow> contract_error + check_state" where
  "check_block_start c e =
     rbind (event_index e) (\<lambda>index.
       case as_obj (jget_default (ev_data e) ''content_block'' (JObj [])) of
         None \<Rightarrow> Inl BadContentBlock
       | Some block \<Rightarrow>
           (let block_type = py_str (jget_default block ''type'' (JStr []))
            in if block_type \<notin> set ALLOWED_BLOCK_START_TYPES then Inl (BadBlockType block_type)
               else if index \<in> set (dkeys (open_blocks c)) then Inl (StartedTwice index)
               else if index \<in> seen_blocks c then Inl (ReusedAfterStop index)
               else
                 (let storage =
                        (if block_type = ''text''
                            \<and> py_strip (py_str (jget_default block ''text'' (JStr []))) \<noteq> []
                         then ''text_eager'' else block_type)
                  in Inr (c\<lparr>open_blocks := dset index storage (open_blocks c),
                            seen_blocks := insert index (seen_blocks c)\<rparr>))))"

definition expected_delta :: "(string \<times> string) list" where
  "expected_delta = [(''text'', ''text_delta''), (''tool_use'', ''input_json_delta'')]"

definition check_block_delta :: "check_state \<Rightarrow> 'a frame_scheme \<Rightarrow> contract_error + check_state" where
  "check_block_delta c e =
     rbind (event_index e) (\<lambda>index.
       case map_of (open_blocks c) index of
         None \<Rightarrow> Inl (DeltaForUnopened index)
       | Some kind \<Rightarrow>
           if kind \<in> set NO_DELTA_BLOCK_KINDS then Inl (DeltaForStartStopOnly index)
           else case as_obj (jget_default (ev_data e) ''delta'' (JObj [])) of
             None \<Rightarrow> Inl BadDelta
           | Some delta \<Rightarrow>
               (let delta_type = py_str (jget_default delta ''type'' (JStr []))
                in if kind = ''thinking''
                   then (if delta_type = ''thinking_delta'' \<or> delta_type = ''signature_delta''
                         then Inr c else Inl (WrongDeltaType index delta_type))
                   else case map_of expected_delta kind of
                          None \<Rightarrow> Inl (NoExpectedDelta kind)
                        | Some expected \<Rightarrow>
                            if delta_type = expected then Inr c
                            else Inl (WrongDeltaType index delta_type)))"

definition check_block_stop :: "check_state \<Rightarrow> 'a frame_scheme \<Rightarrow> contract_error + check_state" where
  "check_block_stop c e =
     rbind (event_index e) (\<lambda>index.
       if index \<in> set (dkeys (open_blocks c))
       then Inr (c\<lparr>open_blocks := ddel index (open_blocks c)\<rparr>)
       else Inl (StopForUnopened index))"

definition check_event :: "bool \<Rightarrow> check_state \<Rightarrow> 'a frame_scheme \<Rightarrow> contract_error + check_state" where
  "check_event allow_error c e =
     (if ev_name e = ''error'' \<and> \<not> allow_error then Inl UnexpectedErrorEvent
      else if ev_name e = ''content_block_start'' then check_block_start c e
      else if ev_name e = ''content_block_delta'' then check_block_delta c e
      else if ev_name e = ''content_block_stop'' then check_block_stop c e
      else Inr c)"

fun check_events :: "bool \<Rightarrow> check_state \<Rightarrow> 'a frame_scheme list \<Rightarrow> contract_error + check_state" where
  "check_events a c [] = Inr c"
| "check_events a c (e # es) = rbind (check_event a c e) (\<lambda>c'. check_events a c' es)"

definition stream_contract :: "'a frame_scheme list \<Rightarrow> bool \<Rightarrow> contract_error + unit" where
  "stream_contract events allow_error =
     (if events = [] then Inl NoEvents
      else if ''message_start'' \<notin> set (map ev_name events) then Inl NoMessageStart
      else if last (map ev_name events) \<noteq> ''message_stop'' then Inl NoFinalMessageStop
      else rbind (check_events allow_error check_init events) (\<lambda>c.
        if open_blocks c \<noteq> [] then Inl (UnclosedBlocks (dkeys (open_blocks c)))
        else if seen_blocks c = {} then Inl NoContentBlocks
        else Inr ()))"

section \<open>Reading a stream\<close>

definition delta_of :: "'a frame_scheme \<Rightarrow> jdict option" where
  "delta_of e = as_obj (jget_default (ev_data e) ''delta'' (JObj []))"

definition block_of :: "'a frame_scheme \<Rightarrow> jdict option" where
  "block_of e = as_obj (jget_default (ev_data e) ''content_block'' (JObj []))"

definition event_text :: "'a frame_scheme \<Rightarrow> string" where
  "event_text e =
     (if ev_name e = ''content_block_start'' then
        (case block_of e of
           Some b \<Rightarrow> (if jget b ''type'' = JStr ''text'' then py_str (jget_default b ''text'' (JStr [])) else [])
         | None \<Rightarrow> [])
      else []) @
     (case delta_of e of
        Some d \<Rightarrow> (if jget d ''type'' = JStr ''text_delta'' then py_str (jget_default d ''text'' (JStr [])) else [])
      | None \<Rightarrow> [])"

definition text_content :: "'a frame_scheme list \<Rightarrow> string" where
  "text_content events = concat (map event_text events)"

definition event_thinking :: "'a frame_scheme \<Rightarrow> string" where
  "event_thinking e =
     (case delta_of e of
        Some d \<Rightarrow> (if jget d ''type'' = JStr ''thinking_delta''
                   then py_str (jget_default d ''thinking'' (JStr [])) else [])
      | None \<Rightarrow> [])"

definition thinking_content :: "'a frame_scheme list \<Rightarrow> string" where
  "thinking_content events = concat (map event_thinking events)"

definition has_tool_use :: "'a frame_scheme list \<Rightarrow> bool" where
  "has_tool_use events =
     list_ex (\<lambda>e. case block_of e of Some b \<Rightarrow> jget b ''type'' = JStr ''tool_use'' | None \<Rightarrow> False) events"

section \<open>Facts about the checker\<close>

lemma check_events_append:
  "check_events a c (xs @ ys) = rbind (check_events a c xs) (\<lambda>c'. check_events a c' ys)"
proof (induction xs arbitrary: c)
  case (Cons x xs)
  then show ?case by (cases "check_event a c x") auto
qed simp

lemma check_events_append_iff:
  "check_events a c (xs @ ys) = Inr c'' \<longleftrightarrow>
   (\<exists>c'. check_events a c xs = Inr c' \<and> check_events a c' ys = Inr c'')"
  by (simp add: check_events_append)

lemma text_content_simps [simp]:
  "text_content [] = []" "text_content (e # es) = event_text e @ text_content es"
  "text_content (es @ fs) = text_content es @ text_content fs"
  by (simp_all add: text_content_def)

lemma thinking_content_simps [simp]:
  "thinking_content [] = []" "thinking_content (e # es) = event_thinking e @ thinking_content es"
  "thinking_content (es @ fs) = thinking_content es @ thinking_content fs"
  by (simp_all add: thinking_content_def)

section \<open>How a stream ends\<close>

text \<open>What a complete tail must yield from a tracked state.\<close>

definition closes_stream :: "bool \<Rightarrow> check_state \<Rightarrow> 'a frame_scheme list \<Rightarrow> bool" where
  "closes_stream a c fs \<longleftrightarrow>
     (\<exists>c'. check_events a c fs = Inr c' \<and> open_blocks c' = [] \<and> seen_blocks c' \<noteq> {}) \<and>
     fs \<noteq> [] \<and> ev_name (last fs) = ''message_stop''"

lemma check_seen_mono: "check_events a c fs = Inr c' \<Longrightarrow> seen_blocks c \<subseteq> seen_blocks c'"
proof (induction fs arbitrary: c)
  case (Cons f fs)
  then obtain c1 where c1: "check_event a c f = Inr c1" "check_events a c1 fs = Inr c'" by auto
  have "seen_blocks c \<subseteq> seen_blocks c1"
    using c1(1) by (auto simp: check_event_def check_block_start_def check_block_delta_def check_block_stop_def Let_def
        split: if_splits option.splits)
  with Cons.IH [OF c1(2)] show ?case by blast
qed simp

lemma closes_stream_append:
  assumes "check_events a c fs = Inr c1" and "closes_stream a c1 gs"
  shows "closes_stream a c (fs @ gs)"
  using assms by (auto simp: closes_stream_def check_events_append)

lemma closes_contract:
  "closes_stream a check_init es \<Longrightarrow> ''message_start'' \<in> ev_name ` set es \<Longrightarrow> stream_contract es a = Inr ()"
  by (auto simp: closes_stream_def stream_contract_def last_map)

end
