(* ===== verification/Stream_Producer.thy ===== *)
theory Stream_Producer
  imports Stream_Contracts
begin

text \<open>
  Generators and the interface between a producer of events and the contract checker.

  A generator is a step on the producer's state that yields frames and may stop with an
  exception after some of them: the frames it yielded and the state it reached stay, as they do
  for a Python generator that raises.  The locale \<open>block_source\<close> asks of a producer only that
  it can name its open blocks and the indexes it has used; inside it, starting, extending and
  stopping blocks, and every composition of such steps, are shown to keep the checker in step.
\<close>

section \<open>Generators\<close>

type_synonym ('s, 'e, 'x) gen = "'s \<Rightarrow> 'e list \<times> 'x option \<times> 's"

definition gskip :: "('s, 'e, 'x) gen" where
  "gskip s = ([], None, s)"

definition gyield :: "('s \<Rightarrow> 'e \<times> 's) \<Rightarrow> ('s, 'e, 'x) gen" where
  "gyield f s = ([fst (f s)], None, snd (f s))"

definition gdo :: "('s \<Rightarrow> 's) \<Rightarrow> ('s, 'e, 'x) gen" where
  "gdo f s = ([], None, f s)"

definition graise :: "'x \<Rightarrow> ('s, 'e, 'x) gen" where
  "graise x s = ([], Some x, s)"

definition gseq :: "('s, 'e, 'x) gen \<Rightarrow> ('s, 'e, 'x) gen \<Rightarrow> ('s, 'e, 'x) gen" where
  "gseq g h s =
     (case g s of
        (es, Some x, s') \<Rightarrow> (es, Some x, s')
      | (es, None, s') \<Rightarrow> (case h s' of (fs, r, s'') \<Rightarrow> (es @ fs, r, s'')))"

definition gwhen :: "bool \<Rightarrow> ('s, 'e, 'x) gen \<Rightarrow> ('s, 'e, 'x) gen" where
  "gwhen b g = (if b then g else gskip)"

definition gread :: "('s \<Rightarrow> ('s, 'e, 'x) gen) \<Rightarrow> ('s, 'e, 'x) gen" where
  "gread g s = g s s"

fun gfor :: "('a \<Rightarrow> ('s, 'e, 'x) gen) \<Rightarrow> 'a list \<Rightarrow> ('s, 'e, 'x) gen" where
  "gfor g [] = gskip"
| "gfor g (x # xs) = gseq (g x) (gfor g xs)"

text \<open>The frames, the exception and the final state of a run.\<close>

definition yields :: "('s, 'e, 'x) gen \<Rightarrow> 's \<Rightarrow> 'e list" where
  "yields g s = fst (g s)"

definition raised :: "('s, 'e, 'x) gen \<Rightarrow> 's \<Rightarrow> 'x option" where
  "raised g s = fst (snd (g s))"

definition after :: "('s, 'e, 'x) gen \<Rightarrow> 's \<Rightarrow> 's" where
  "after g s = snd (snd (g s))"

named_theorems gen_simps "the run of each generator combinator"

lemma run_gskip [gen_simps]: "yields gskip s = []" "raised gskip s = None" "after gskip s = s"
  by (simp_all add: yields_def raised_def after_def gskip_def)

lemma run_gyield [gen_simps]:
  "yields (gyield f) s = [fst (f s)]" "raised (gyield f) s = None" "after (gyield f) s = snd (f s)"
  by (simp_all add: yields_def raised_def after_def gyield_def)

lemma run_gdo [gen_simps]: "yields (gdo f) s = []" "raised (gdo f) s = None" "after (gdo f) s = f s"
  by (simp_all add: yields_def raised_def after_def gdo_def)

lemma run_graise [gen_simps]:
  "yields (graise x) s = []" "raised (graise x) s = Some x" "after (graise x) s = s"
  by (simp_all add: yields_def raised_def after_def graise_def)

lemma run_gread [gen_simps]:
  "yields (gread g) s = yields (g s) s" "raised (gread g) s = raised (g s) s"
  "after (gread g) s = after (g s) s"
  by (simp_all add: yields_def raised_def after_def gread_def)

lemma run_gwhen [gen_simps]:
  "yields (gwhen b g) s = (if b then yields g s else [])"
  "raised (gwhen b g) s = (if b then raised g s else None)"
  "after (gwhen b g) s = (if b then after g s else s)"
  by (simp_all add: gwhen_def run_gskip)

lemma run_gseq [gen_simps]:
  "yields (gseq g h) s = yields g s @ (if raised g s = None then yields h (after g s) else [])"
  "raised (gseq g h) s = (if raised g s = None then raised h (after g s) else raised g s)"
  "after (gseq g h) s = (if raised g s = None then after h (after g s) else after g s)"
  by (auto simp: yields_def raised_def after_def gseq_def split: prod.splits option.splits)

lemma run_gfor [gen_simps]:
  "yields (gfor g (x # xs)) s = yields (gseq (g x) (gfor g xs)) s"
  "yields (gfor g []) s = []" "after (gfor g []) s = s" "raised (gfor g []) s = None"
  by (simp_all add: run_gskip)

text \<open>A step that keeps a property of the state keeps it under every combinator.\<close>

definition keeps :: "('s \<Rightarrow> bool) \<Rightarrow> ('s, 'e, 'x) gen \<Rightarrow> bool" where
  "keeps I g \<longleftrightarrow> (\<forall>s. I s \<longrightarrow> I (after g s))"

lemma keeps_gskip [intro]: "keeps I gskip"
  by (simp add: keeps_def gen_simps)

lemma keeps_gseq [intro]: "keeps I g \<Longrightarrow> keeps I h \<Longrightarrow> keeps I (gseq g h)"
  by (simp add: keeps_def gen_simps)

lemma keeps_gwhen [intro]: "(b \<Longrightarrow> keeps I g) \<Longrightarrow> keeps I (gwhen b g)"
  by (simp add: keeps_def gen_simps)

lemma keeps_gread [intro]: "(\<And>s. keeps I (g s)) \<Longrightarrow> keeps I (gread g)"
  by (simp add: keeps_def gen_simps)

lemma keeps_gfor [intro]: "(\<And>x. x \<in> set xs \<Longrightarrow> keeps I (g x)) \<Longrightarrow> keeps I (gfor g xs)"
  by (induction xs) auto

section \<open>What a frame does to the checker\<close>

definition start_kind :: "'a frame_scheme \<Rightarrow> string option" where
  "start_kind e =
     (case as_obj (jget_default (ev_data e) ''content_block'' (JObj [])) of
        None \<Rightarrow> None
      | Some block \<Rightarrow>
          (let t = py_str (jget_default block ''type'' (JStr []))
           in if t \<notin> set ALLOWED_BLOCK_START_TYPES then None
              else if t = ''text'' \<and> py_strip (py_str (jget_default block ''text'' (JStr []))) \<noteq> []
              then Some ''text_eager'' else Some t))"

definition delta_kind :: "'a frame_scheme \<Rightarrow> string option" where
  "delta_kind e =
     map_option (\<lambda>d. py_str (jget_default d ''type'' (JStr [])))
       (as_obj (jget_default (ev_data e) ''delta'' (JObj [])))"

definition opens :: "'a frame_scheme \<Rightarrow> int \<Rightarrow> string \<Rightarrow> bool" where
  "opens e i k \<longleftrightarrow> ev_name e = ''content_block_start'' \<and> event_index e = Inr i \<and> start_kind e = Some k"

definition fits_kind :: "string \<Rightarrow> string \<Rightarrow> bool" where
  "fits_kind k t \<longleftrightarrow>
     (k = ''thinking'' \<and> (t = ''thinking_delta'' \<or> t = ''signature_delta'')) \<or>
     (k = ''text'' \<and> t = ''text_delta'') \<or> (k = ''tool_use'' \<and> t = ''input_json_delta'')"

definition extends :: "'a frame_scheme \<Rightarrow> int \<Rightarrow> string \<Rightarrow> bool" where
  "extends e i k \<longleftrightarrow> ev_name e = ''content_block_delta'' \<and> event_index e = Inr i \<and>
     (\<exists>t. delta_kind e = Some t \<and> fits_kind k t)"

definition closes :: "'a frame_scheme \<Rightarrow> int \<Rightarrow> bool" where
  "closes e i \<longleftrightarrow> ev_name e = ''content_block_stop'' \<and> event_index e = Inr i"

definition inert :: "bool \<Rightarrow> 'a frame_scheme \<Rightarrow> bool" where
  "inert a e \<longleftrightarrow> ev_name e \<notin> {''content_block_start'', ''content_block_delta'', ''content_block_stop''} \<and>
     (ev_name e = ''error'' \<longrightarrow> a)"

lemma check_opens:
  assumes "opens e i k" and "i \<notin> set (dkeys (open_blocks c))" and "i \<notin> seen_blocks c"
  shows "check_event a c e =
    Inr (c\<lparr>open_blocks := dset i k (open_blocks c), seen_blocks := insert i (seen_blocks c)\<rparr>)"
  using assms
  by (auto simp: opens_def check_event_def check_block_start_def start_kind_def Let_def
           split: option.splits if_splits)

lemma check_extends:
  assumes "extends e i k" and "map_of (open_blocks c) i = Some k"
  shows "check_event a c e = Inr c"
proof -
  obtain t d where *: "ev_name e = ''content_block_delta''" "event_index e = Inr i"
      "as_obj (jget_default (ev_data e) ''delta'' (JObj [])) = Some d"
      "py_str (jget_default d ''type'' (JStr [])) = t" "fits_kind k t"
    using assms(1) by (auto simp: extends_def delta_kind_def)
  have "k \<in> {''thinking'', ''text'', ''tool_use''}" using *(5) by (auto simp: fits_kind_def)
  then have "k \<notin> set NO_DELTA_BLOCK_KINDS"
    by (elim insertE emptyE; simp add: NO_DELTA_BLOCK_KINDS_def SERVER_TOOL_USE_def
        WEB_SEARCH_TOOL_RESULT_def WEB_FETCH_TOOL_RESULT_def)
  moreover have "k \<noteq> ''thinking'' \<Longrightarrow> map_of expected_delta k = Some t"
    using *(5) by (elim fits_kind_def [THEN iffD1, THEN disjE] disjE) (simp_all add: expected_delta_def)
  moreover have "k = ''thinking'' \<Longrightarrow> t = ''thinking_delta'' \<or> t = ''signature_delta''"
    using *(5) by (auto simp: fits_kind_def)
  ultimately show ?thesis
    using assms(2) *(1-4) by (simp add: check_event_def check_block_delta_def)
qed

lemma check_closes:
  assumes "closes e i" and "i \<in> set (dkeys (open_blocks c))"
  shows "check_event a c e = Inr (c\<lparr>open_blocks := ddel i (open_blocks c)\<rparr>)"
  using assms by (simp add: closes_def check_event_def check_block_stop_def)

lemma check_inert: "inert a e \<Longrightarrow> check_event a c e = Inr c"
  by (auto simp: inert_def check_event_def)

section \<open>The interface of a producer\<close>

locale block_source =
  fixes sane :: "'s \<Rightarrow> bool"
    and live :: "'s \<Rightarrow> int \<Rightarrow> string option"
    and used :: "'s \<Rightarrow> int set"
  assumes live_used: "sane s \<Longrightarrow> dom (live s) \<subseteq> used s"
begin

definition tracks :: "'s \<Rightarrow> check_state \<Rightarrow> bool" where
  "tracks s c \<longleftrightarrow> sane s \<and> map_of (open_blocks c) = live s \<and> seen_blocks c = used s"

text \<open>\<open>sound a P g\<close>: run in a tracked state with \<open>P\<close>, the step yields only frames the checker accepts.\<close>

definition sound :: "bool \<Rightarrow> ('s \<Rightarrow> bool) \<Rightarrow> ('s \<Rightarrow> frame list \<times> 'x option \<times> 's) \<Rightarrow> bool" where
  "sound a P g \<longleftrightarrow>
     (\<forall>s c. tracks s c \<longrightarrow> P s \<longrightarrow>
        (\<exists>c'. check_events a c (yields g s) = Inr c' \<and> tracks (after g s) c'))"

lemma soundI:
  "(\<And>s c. tracks s c \<Longrightarrow> P s \<Longrightarrow>
      \<exists>c'. check_events a c (yields g s) = Inr c' \<and> tracks (after g s) c') \<Longrightarrow> sound a P g"
  by (simp add: sound_def)

lemma soundD:
  assumes "sound a P g" and "tracks s c" and "P s"
  obtains c' where "check_events a c (yields g s) = Inr c'" "tracks (after g s) c'"
  using assms by (auto simp: sound_def)

lemma sound_mono: "sound a P g \<Longrightarrow> (\<And>s. sane s \<Longrightarrow> Q s \<Longrightarrow> P s) \<Longrightarrow> sound a Q g"
  by (auto simp: sound_def tracks_def)

lemma sound_gskip: "sound a P gskip"
  by (simp add: sound_def gen_simps)

lemma sound_graise: "sound a P (graise x)"
  by (simp add: sound_def gen_simps)

lemma sound_gseq:
  assumes "sound a P g" and "sound a Q h"
    and "\<And>s. sane s \<Longrightarrow> P s \<Longrightarrow> raised g s = None \<Longrightarrow> Q (after g s)"
  shows "sound a P (gseq g h)"
proof (rule soundI)
  fix s c assume s: "tracks s c" "P s"
  with assms(1) obtain c' where c': "check_events a c (yields g s) = Inr c'" "tracks (after g s) c'"
    by (rule soundD)
  show "\<exists>c'. check_events a c (yields (gseq g h) s) = Inr c' \<and> tracks (after (gseq g h) s) c'"
  proof (cases "raised g s")
    case None
    with s assms(3) have "Q (after g s)" by (simp add: tracks_def)
    with assms(2) c'(2) obtain c'' where
      "check_events a c' (yields h (after g s)) = Inr c''" "tracks (after h (after g s)) c''"
      by (rule soundD)
    with None c' show ?thesis by (simp add: gen_simps check_events_append)
  qed (use c' in \<open>simp add: gen_simps\<close>)
qed

lemma sound_then: "sound a P g \<Longrightarrow> sound a (\<lambda>_. True) h \<Longrightarrow> sound a P (gseq g h)"
  by (erule (1) sound_gseq) simp

lemma sound_gwhen: "(b \<Longrightarrow> sound a P g) \<Longrightarrow> sound a P (gwhen b g)"
  by (simp add: gwhen_def sound_gskip)

lemma sound_gfor:
  "(\<And>x. x \<in> set xs \<Longrightarrow> sound a P (g x)) \<Longrightarrow> (\<And>x s. x \<in> set xs \<Longrightarrow> sane s \<Longrightarrow> P s \<Longrightarrow> P (after (g x) s))
   \<Longrightarrow> sound a P (gfor g xs)"
  by (induction xs) (auto simp: sound_gskip intro: sound_gseq)

text \<open>A generator chosen after reading the state may rely on what it read.\<close>

lemma sound_gread: "(\<And>s. sane s \<Longrightarrow> P s \<Longrightarrow> sound a (\<lambda>t. t = s) (g s)) \<Longrightarrow> sound a P (gread g)"
  by (simp add: sound_def gen_simps tracks_def)

lemma sound_gyield:
  assumes "\<And>s c. tracks s c \<Longrightarrow> P s \<Longrightarrow>
      \<exists>c'. check_event a c (fst (f s)) = Inr c' \<and> tracks (snd (f s)) c'"
  shows "sound a P (gyield f)"
  using assms by (fastforce simp: sound_def gen_simps)

lemma tracks_start:
  assumes "tracks s c" and "opens f i k" and "i \<notin> used s"
    and "sane s'" and "live s' = (live s)(i \<mapsto> k)" and "used s' = insert i (used s)"
  shows "\<exists>c'. check_event a c f = Inr c' \<and> tracks s' c'"
proof -
  have i: "i \<notin> set (dkeys (open_blocks c))" "i \<notin> seen_blocks c"
    using assms(1,3) live_used [of s] by (auto simp: tracks_def simp flip: dom_map_of_conv_image_fst)
  show ?thesis
    using check_opens [OF assms(2) i] assms(1,4-6)
    by (auto simp: tracks_def fun_eq_iff dict_simps)
qed

lemma tracks_delta:
  assumes "tracks s c" and "extends f i k" and "live s i = Some k"
    and "sane s'" and "live s' = live s" and "used s' = used s"
  shows "\<exists>c'. check_event a c f = Inr c' \<and> tracks s' c'"
  using check_extends [OF assms(2), of c] assms by (auto simp: tracks_def)

lemma tracks_stop:
  assumes "tracks s c" and "closes f i" and "live s i \<noteq> None"
    and "sane s'" and "live s' = (live s)(i := None)" and "used s' = used s"
  shows "\<exists>c'. check_event a c f = Inr c' \<and> tracks s' c'"
proof -
  have "i \<in> set (dkeys (open_blocks c))"
    using assms(1,3) by (auto simp: tracks_def simp flip: dom_map_of_conv_image_fst)
  from check_closes [OF assms(2) this] assms show ?thesis
    by (auto simp: tracks_def fun_eq_iff dict_simps)
qed

lemma tracks_inert:
  assumes "tracks s c" and "inert a f" and "sane s'" and "live s' = live s" and "used s' = used s"
  shows "\<exists>c'. check_event a c f = Inr c' \<and> tracks s' c'"
  using check_inert [OF assms(2)] assms by (auto simp: tracks_def)

lemma tracks_silent:
  "tracks s c \<Longrightarrow> sane s' \<Longrightarrow> live s' = live s \<Longrightarrow> used s' = used s \<Longrightarrow> tracks s' c"
  by (simp add: tracks_def)

text \<open>A block that opens, is filled and closes at once leaves only its index behind.\<close>

lemma tracks_transient:
  assumes t: "tracks s c" and f: "opens f1 i k" "extends f2 i k" "closes f3 i" and i: "i \<notin> used s"
    and s': "sane s'" "live s' = live s" "used s' = insert i (used s)"
  shows "\<exists>c'. check_events a c [f1, f2, f3] = Inr c' \<and> tracks s' c'"
proof -
  have n: "i \<notin> set (dkeys (open_blocks c))" "i \<notin> seen_blocks c" "live s i = None"
    using t i live_used [of s] by (auto simp: tracks_def simp flip: dom_map_of_conv_image_fst)
  let ?c1 = "c\<lparr>open_blocks := dset i k (open_blocks c), seen_blocks := insert i (seen_blocks c)\<rparr>"
  let ?c2 = "?c1\<lparr>open_blocks := ddel i (open_blocks ?c1)\<rparr>"
  have "check_event a c f1 = Inr ?c1" by (rule check_opens [OF f(1) n(1,2)])
  moreover have "check_event a ?c1 f2 = Inr ?c1" by (rule check_extends [OF f(2)]) (simp add: dict_simps)
  moreover have "check_event a ?c1 f3 = Inr ?c2" by (rule check_closes [OF f(3)]) (simp add: dict_simps)
  moreover have "tracks s' ?c2" using t s' n(3) by (auto simp: tracks_def fun_eq_iff dict_simps)
  ultimately show ?thesis by simp
qed

text \<open>Stopping every open block once leaves nothing open.\<close>

lemma stop_all:
  assumes "tracks s c" and "list_all2 closes fs is" and "distinct is" and "set is = dom (live s)"
  shows "\<exists>c'. check_events a c fs = Inr c' \<and> open_blocks c' = [] \<and> seen_blocks c' = used s"
proof -
  have "list_all2 closes fs is \<Longrightarrow> distinct is \<Longrightarrow> set is = set (dkeys (open_blocks c)) \<Longrightarrow>
      \<exists>c'. check_events a c fs = Inr c' \<and> open_blocks c' = [] \<and> seen_blocks c' = seen_blocks c" for c
  proof (induction fs "is" arbitrary: c rule: list_all2_induct)
    case (Cons f fs i js)
    then have "i \<in> set (dkeys (open_blocks c))" by auto
    note step = check_closes [OF Cons.hyps(1) this]
    let ?c = "c\<lparr>open_blocks := ddel i (open_blocks c)\<rparr>"
    have "set js = set (dkeys (open_blocks ?c))"
      using Cons.prems by (auto simp: dict_simps)
    with Cons.IH [of ?c] Cons.prems step show ?case by auto
  qed auto
  moreover have "set is = set (dkeys (open_blocks c))" and "seen_blocks c = used s"
    using assms(1,4) by (simp_all add: tracks_def flip: dom_map_of_conv_image_fst)
  ultimately show ?thesis using assms(2,3) by metis
qed

text \<open>A whole stream: a start message, tracked yields, and a tail that leaves nothing open.\<close>

lemma contract_holds:
  assumes "check_events a check_init (es @ fs) = Inr c" and "open_blocks c = []" and "seen_blocks c \<noteq> {}"
    and "''message_start'' \<in> ev_name ` set es" and "fs \<noteq> []" and "ev_name (last fs) = ''message_stop''"
  shows "stream_contract (es @ fs) a = Inr ()"
  using assms by (auto simp: stream_contract_def last_map)

end

section \<open>A producer inside a larger state\<close>

text \<open>
  \<open>focus_gen\<close> runs a generator on a part of a larger state.  \<open>focused_source\<close> is a producer whose
  state is part of a larger one that has an invariant of its own: the larger state is a producer
  too, and a step of the part that keeps the extra invariant is a sound step of the whole.
\<close>

definition focus_gen :: "('t \<Rightarrow> 's) \<Rightarrow> ('s \<Rightarrow> 't \<Rightarrow> 't) \<Rightarrow> ('s, 'e, 'x) gen \<Rightarrow> ('t, 'e, 'x) gen" where
  "focus_gen get put g t = (case g (get t) of (es, r, s) \<Rightarrow> (es, r, put s t))"

lemma run_focus_gen [gen_simps]:
  "yields (focus_gen get put g) t = yields g (get t)" "raised (focus_gen get put g) t = raised g (get t)"
  "after (focus_gen get put g) t = put (after g (get t)) t"
  by (simp_all add: yields_def raised_def after_def focus_gen_def split: prod.splits)

locale focused_source = part: block_source sane live used
  for sane :: "'s \<Rightarrow> bool" and live :: "'s \<Rightarrow> int \<Rightarrow> string option" and used :: "'s \<Rightarrow> int set" +
  fixes get :: "'t \<Rightarrow> 's" and put :: "'s \<Rightarrow> 't \<Rightarrow> 't" and extra :: "'t \<Rightarrow> bool"
  assumes get_put: "get (put s t) = s"
begin

definition whole_sane :: "'t \<Rightarrow> bool" where "whole_sane t \<longleftrightarrow> sane (get t) \<and> extra t"

end

sublocale focused_source \<subseteq> whole: block_source whole_sane "\<lambda>t. live (get t)" "\<lambda>t. used (get t)"
  by unfold_locales (auto simp: whole_sane_def dest: part.live_used)

context focused_source
begin

lemma whole_tracks: "whole.tracks t c \<longleftrightarrow> part.tracks (get t) c \<and> extra t"
  by (auto simp: whole.tracks_def part.tracks_def whole_sane_def)

lemma sound_focus:
  assumes "part.sound a P g"
    and "\<And>t. sane (get t) \<Longrightarrow> extra t \<Longrightarrow> P (get t) \<Longrightarrow> extra (put (after g (get t)) t)"
  shows "whole.sound a (\<lambda>t. P (get t)) (focus_gen get put g)"
proof (rule whole.soundI)
  fix t c assume t: "whole.tracks t c" "P (get t)"
  then have *: "part.tracks (get t) c" "extra t" by (simp_all add: whole_tracks)
  obtain c' where "check_events a c (yields g (get t)) = Inr c'" "part.tracks (after g (get t)) c'"
    using part.soundD [OF assms(1) *(1) t(2)] .
  with assms(2) * t(2) show "\<exists>c'. check_events a c (yields (focus_gen get put g) t) = Inr c' \<and>
      whole.tracks (after (focus_gen get put g) t) c'"
    by (auto simp: gen_simps whole_tracks get_put part.tracks_def)
qed

lemma sound_silent:
  assumes "\<And>t. whole_sane t \<Longrightarrow> P t \<Longrightarrow> whole_sane (f t) \<and> live (get (f t)) = live (get t) \<and> used (get (f t)) = used (get t)"
  shows "whole.sound a P (gdo f)"
proof (rule whole.soundI)
  fix t c assume "whole.tracks t c" "P t"
  with assms [of t] have "whole.tracks (f t) c" by (simp add: whole.tracks_def)
  then show "\<exists>c'. check_events a c (yields (gdo f) t) = Inr c' \<and> whole.tracks (after (gdo f) t) c'"
    by (simp add: gen_simps)
qed

end

end
