(* ===== verification/Sse_Builder.thy ===== *)
theory Sse_Builder
  imports Stream_Producer
begin

text \<open>
  The builder of Anthropic events (\<open>core/anthropic/sse.py\<close>): tool-call states, the block
  manager, and every method of \<open>SSEBuilder\<close> as a function on its state or a generator.
  The tokenizer (\<open>tiktoken\<close>) and the byte encoder (\<open>orjson\<close>) are parameters of the functions
  that use them.  The builder is an instance of \<open>block_source\<close>: its open blocks are the started
  thinking, text and tool blocks, its used indexes those below \<open>next_index\<close>.
\<close>

section \<open>Stop reasons, counters and formatting\<close>

definition STOP_REASON_MAP :: "(string \<times> string) list" where
  "STOP_REASON_MAP =
     [(''stop'', ''end_turn''), (''length'', ''max_tokens''), (''tool_calls'', ''tool_use''),
      (''content_filter'', ''end_turn'')]"

definition map_stop_reason :: "string option \<Rightarrow> string" where
  "map_stop_reason openai_reason =
     (case openai_reason of
        None \<Rightarrow> ''end_turn''
      | Some r \<Rightarrow> if r = [] then ''end_turn''
                  else (case map_of STOP_REASON_MAP r of Some m \<Rightarrow> m | None \<Rightarrow> ''end_turn''))"

definition safe_usage_int :: "json \<Rightarrow> json" where
  "safe_usage_int v = (if as_int v \<noteq> None then v else JInt 0)"

text \<open>\<open>enc\<close> is \<open>orjson.dumps(data).decode()\<close>.\<close>

definition format_sse_event :: "(jdict \<Rightarrow> string) \<Rightarrow> string \<Rightarrow> jdict \<Rightarrow> string" where
  "format_sse_event enc event_type data =
     ''event: '' @ event_type @ [LF] @ ''data: '' @ enc data @ [LF, LF]"

section \<open>State\<close>

record tool_call_state =
  tc_block_index :: int
  tc_tool_id :: string
  tc_name :: string
  tc_extra_content :: "jdict option"
  tc_contents :: "string list"
  tc_started :: bool
  tc_task_arg_buffer :: string
  tc_task_args_emitted :: bool
  tc_pre_start_args :: string

definition new_tool_state :: "int \<Rightarrow> string \<Rightarrow> string \<Rightarrow> tool_call_state" where
  "new_tool_state block_index tool_id name =
     \<lparr>tc_block_index = block_index, tc_tool_id = tool_id, tc_name = name, tc_extra_content = None,
      tc_contents = [], tc_started = False, tc_task_arg_buffer = [], tc_task_args_emitted = False,
      tc_pre_start_args = []\<rparr>"

record block_manager =
  next_index :: int
  thinking_index :: int
  text_index :: int
  thinking_started :: bool
  text_started :: bool
  tool_states :: "(int, tool_call_state) dict"

definition new_block_manager :: block_manager where
  "new_block_manager =
     \<lparr>next_index = 0, thinking_index = -1, text_index = -1, thinking_started = False,
      text_started = False, tool_states = []\<rparr>"

record sse_builder =
  sb_message_id :: string
  sb_model :: string
  sb_input_tokens :: json
  sb_blocks :: block_manager
  sb_text_parts :: "string list"
  sb_reasoning_parts :: "string list"

definition new_sse_builder :: "string \<Rightarrow> string \<Rightarrow> json \<Rightarrow> sse_builder" where
  "new_sse_builder message_id model input_tokens =
     \<lparr>sb_message_id = message_id, sb_model = model, sb_input_tokens = input_tokens,
      sb_blocks = new_block_manager, sb_text_parts = [], sb_reasoning_parts = []\<rparr>"

section \<open>The block manager\<close>

definition allocate_index :: "block_manager \<Rightarrow> int \<times> block_manager" where
  "allocate_index m = (next_index m, m\<lparr>next_index := next_index m + 1\<rparr>)"

definition set_tool :: "int \<Rightarrow> tool_call_state \<Rightarrow> block_manager \<Rightarrow> block_manager" where
  "set_tool i st m = m\<lparr>tool_states := dset i st (tool_states m)\<rparr>"

definition ensure_tool_state :: "int \<Rightarrow> block_manager \<Rightarrow> tool_call_state \<times> block_manager" where
  "ensure_tool_state index m =
     (case map_of (tool_states m) index of
        Some st \<Rightarrow> (st, m)
      | None \<Rightarrow> (let st = new_tool_state (-1) [] [] in (st, set_tool index st m)))"

definition set_stream_tool_id :: "int \<Rightarrow> json \<Rightarrow> block_manager \<Rightarrow> block_manager" where
  "set_stream_tool_id index tool_id m =
     (if \<not> truthy tool_id then m
      else (let (st, m) = ensure_tool_state index m
            in set_tool index (st\<lparr>tc_tool_id := py_str tool_id\<rparr>) m))"

definition set_tool_extra_content :: "int \<Rightarrow> jdict option \<Rightarrow> block_manager \<Rightarrow> block_manager" where
  "set_tool_extra_content index extra_content m =
     (case extra_content of
        None \<Rightarrow> m
      | Some d \<Rightarrow>
          if d = [] then m
          else (let (st, m) = ensure_tool_state index m
                in set_tool index (st\<lparr>tc_extra_content := Some d\<rparr>) m))"

definition register_tool_name :: "int \<Rightarrow> string \<Rightarrow> block_manager \<Rightarrow> block_manager" where
  "register_tool_name index name m =
     (case map_of (tool_states m) index of
        None \<Rightarrow> set_tool index (new_tool_state (-1) [] name) m
      | Some st \<Rightarrow>
          (let prev = tc_name st
           in if prev = [] \<or> py_startswith name prev then set_tool index (st\<lparr>tc_name := name\<rparr>) m
              else if \<not> py_startswith prev name then set_tool index (st\<lparr>tc_name := prev @ name\<rparr>) m
              else m))"

text \<open>
  \<open>_normalize_task_run_in_background\<close>: only the constant \<open>False\<close> is left alone; a value that is
  not an object has no \<open>get\<close>.
\<close>

definition normalize_task_run_in_background :: "json \<Rightarrow> py_error + jdict" where
  "normalize_task_run_in_background args_json =
     (case as_obj args_json of
        None \<Rightarrow> Inl AttributeError
      | Some d \<Rightarrow>
          if jget d ''run_in_background'' \<noteq> JBool False
          then Inr (dset ''run_in_background'' (JBool False) d)
          else Inr d)"

definition buffer_task_args ::
  "int \<Rightarrow> string \<Rightarrow> block_manager \<Rightarrow> (py_error + jdict option) \<times> block_manager" where
  "buffer_task_args index args m =
     (case map_of (tool_states m) index of
        None \<Rightarrow> (Inr None, m)
      | Some st \<Rightarrow>
          if tc_task_args_emitted st then (Inr None, m)
          else
            (let st = st\<lparr>tc_task_arg_buffer := tc_task_arg_buffer st @ args\<rparr>; m = set_tool index st m
             in case json_loads (tc_task_arg_buffer st) of
                  None \<Rightarrow> (Inr None, m)
                | Some j \<Rightarrow>
                    (case normalize_task_run_in_background j of
                       Inl e \<Rightarrow> (Inl e, m)
                     | Inr d \<Rightarrow>
                         (Inr (Some d),
                          set_tool index (st\<lparr>tc_task_args_emitted := True, tc_task_arg_buffer := []\<rparr>) m))))"

definition has_emitted_tool_block :: "block_manager \<Rightarrow> bool" where
  "has_emitted_tool_block m = list_ex tc_started (dvalues (tool_states m))"

text \<open>
  \<open>flush_task_arg_buffers\<close> over the snapshot of the items; text that is not JSON becomes an empty
  object, and the \<open>AttributeError\<close> of a JSON value that is not an object escapes the loop.
\<close>

fun flush_task_items ::
  "(int, tool_call_state) dict \<Rightarrow> block_manager \<Rightarrow> (py_error + (int \<times> string) list) \<times> block_manager" where
  "flush_task_items [] m = (Inr [], m)"
| "flush_task_items ((tool_index, st) # rest) m =
     (if tc_task_arg_buffer st = [] \<or> tc_task_args_emitted st then flush_task_items rest m
      else
        (case (case json_loads (tc_task_arg_buffer st) of
                 None \<Rightarrow> Inr ''{}''
               | Some j \<Rightarrow> rbind (normalize_task_run_in_background j) (\<lambda>d. Inr (json_dumps (JObj d)))) of
           Inl e \<Rightarrow> (Inl e, m)
         | Inr out \<Rightarrow>
             (case flush_task_items rest
                     (set_tool tool_index (st\<lparr>tc_task_args_emitted := True, tc_task_arg_buffer := []\<rparr>) m) of
                (r, m') \<Rightarrow> (rbind r (\<lambda>outs. Inr ((tool_index, out) # outs)), m'))))"

definition flush_task_arg_buffers :: "block_manager \<Rightarrow> (py_error + (int \<times> string) list) \<times> block_manager" where
  "flush_task_arg_buffers m = flush_task_items (tool_states m) m"

section \<open>Events\<close>

definition message_start :: "sse_builder \<Rightarrow> frame" where
  "message_start b =
     mk_frame ''message_start''
       [(''type'', JStr ''message_start''),
        (''message'', JObj
          [(''id'', JStr (sb_message_id b)), (''type'', JStr ''message''), (''role'', JStr ''assistant''),
           (''content'', JArr []), (''model'', JStr (sb_model b)), (''stop_reason'', JNull),
           (''stop_sequence'', JNull),
           (''usage'', JObj [(''input_tokens'', safe_usage_int (sb_input_tokens b)),
                             (''output_tokens'', JInt 1)])])]"

definition message_delta :: "sse_builder \<Rightarrow> string \<Rightarrow> json \<Rightarrow> json \<Rightarrow> json \<Rightarrow> frame" where
  "message_delta b stop_reason output_tokens input_tokens cache_read_input_tokens =
     (let safe_in = safe_usage_int (if as_int input_tokens \<noteq> None then input_tokens else sb_input_tokens b);
          safe_out = (if as_int output_tokens \<noteq> None then output_tokens else JInt 0);
          cached = (case as_int cache_read_input_tokens of
                      Some n \<Rightarrow> if 0 < n then [(''cache_read_input_tokens'', cache_read_input_tokens)] else []
                    | None \<Rightarrow> [])
      in mk_frame ''message_delta''
           [(''type'', JStr ''message_delta''),
            (''delta'', JObj [(''stop_reason'', JStr stop_reason), (''stop_sequence'', JNull)]),
            (''usage'', JObj ([(''input_tokens'', safe_in), (''output_tokens'', safe_out)] @ cached))])"

definition message_stop :: frame where
  "message_stop = mk_frame ''message_stop'' [(''type'', JStr ''message_stop'')]"

definition content_block_start :: "int \<Rightarrow> string \<Rightarrow> jdict \<Rightarrow> frame" where
  "content_block_start index block_type kwargs =
     (let content_block =
        [(''type'', JStr block_type)] @
        (if block_type = ''thinking'' then [(''thinking'', jget_default kwargs ''thinking'' (JStr []))]
         else if block_type = ''text'' then [(''text'', jget_default kwargs ''text'' (JStr []))]
         else if block_type = ''tool_use'' then
           [(''id'', jget_default kwargs ''id'' (JStr [])),
            (''name'', jget_default kwargs ''name'' (JStr [])),
            (''input'', jget_default kwargs ''input'' (JObj []))] @
           (case as_obj (jget kwargs ''extra_content'') of
              Some d \<Rightarrow> if d \<noteq> [] then [(''extra_content'', JObj d)] else []
            | None \<Rightarrow> [])
         else [])
      in mk_frame ''content_block_start''
           [(''type'', JStr ''content_block_start''), (''index'', JInt index),
            (''content_block'', JObj content_block)])"

definition content_block_delta :: "int \<Rightarrow> string \<Rightarrow> string \<Rightarrow> frame" where
  "content_block_delta index delta_type content =
     (let delta =
        [(''type'', JStr delta_type)] @
        (if delta_type = ''thinking_delta'' then [(''thinking'', JStr content)]
         else if delta_type = ''text_delta'' then [(''text'', JStr content)]
         else if delta_type = ''input_json_delta'' then [(''partial_json'', JStr content)]
         else [])
      in mk_frame ''content_block_delta''
           [(''type'', JStr ''content_block_delta''), (''index'', JInt index), (''delta'', JObj delta)])"

definition content_block_stop :: "int \<Rightarrow> frame" where
  "content_block_stop index =
     mk_frame ''content_block_stop'' [(''type'', JStr ''content_block_stop''), (''index'', JInt index)]"

definition emit_top_level_error :: "string \<Rightarrow> frame" where
  "emit_top_level_error error_message =
     mk_frame ''error''
       [(''type'', JStr ''error''),
        (''error'', JObj [(''type'', JStr ''api_error''), (''message'', JStr error_message)])]"

section \<open>Blocks\<close>

type_synonym 'a builder_gen = "('a, frame, py_error) gen"

abbreviation upd_blocks :: "(block_manager \<Rightarrow> block_manager) \<Rightarrow> sse_builder \<Rightarrow> sse_builder" where
  "upd_blocks f b \<equiv> b\<lparr>sb_blocks := f (sb_blocks b)\<rparr>"

definition start_thinking_block :: "sse_builder \<Rightarrow> frame \<times> sse_builder" where
  "start_thinking_block b =
     (let (i, m) = allocate_index (sb_blocks b)
      in (content_block_start i ''thinking'' [],
          b\<lparr>sb_blocks := m\<lparr>thinking_index := i, thinking_started := True\<rparr>\<rparr>))"

definition emit_thinking_delta :: "string \<Rightarrow> sse_builder \<Rightarrow> frame \<times> sse_builder" where
  "emit_thinking_delta content b =
     (content_block_delta (thinking_index (sb_blocks b)) ''thinking_delta'' content,
      b\<lparr>sb_reasoning_parts := sb_reasoning_parts b @ [content]\<rparr>)"

definition stop_thinking_block :: "sse_builder \<Rightarrow> frame \<times> sse_builder" where
  "stop_thinking_block b =
     (content_block_stop (thinking_index (sb_blocks b)), upd_blocks (\<lambda>m. m\<lparr>thinking_started := False\<rparr>) b)"

definition start_text_block :: "sse_builder \<Rightarrow> frame \<times> sse_builder" where
  "start_text_block b =
     (let (i, m) = allocate_index (sb_blocks b)
      in (content_block_start i ''text'' [],
          b\<lparr>sb_blocks := m\<lparr>text_index := i, text_started := True\<rparr>\<rparr>))"

definition emit_text_delta :: "string \<Rightarrow> sse_builder \<Rightarrow> frame \<times> sse_builder" where
  "emit_text_delta content b =
     (content_block_delta (text_index (sb_blocks b)) ''text_delta'' content,
      b\<lparr>sb_text_parts := sb_text_parts b @ [content]\<rparr>)"

definition stop_text_block :: "sse_builder \<Rightarrow> frame \<times> sse_builder" where
  "stop_text_block b =
     (content_block_stop (text_index (sb_blocks b)), upd_blocks (\<lambda>m. m\<lparr>text_started := False\<rparr>) b)"

definition start_tool_block ::
  "int \<Rightarrow> string \<Rightarrow> string \<Rightarrow> jdict option \<Rightarrow> sse_builder \<Rightarrow> frame \<times> sse_builder" where
  "start_tool_block tool_index tool_id name extra_content b =
     (let (block_idx, m) = allocate_index (sb_blocks b);
          st = (case map_of (tool_states m) tool_index of
                  Some st \<Rightarrow>
                    st\<lparr>tc_block_index := block_idx, tc_tool_id := tool_id,
                       tc_extra_content := (if extra_content \<noteq> None \<and> extra_content \<noteq> Some []
                                            then extra_content else tc_extra_content st),
                       tc_started := True\<rparr>
                | None \<Rightarrow>
                    (new_tool_state block_idx tool_id name)\<lparr>tc_extra_content := extra_content, tc_started := True\<rparr>)
      in (content_block_start block_idx ''tool_use''
            [(''id'', JStr tool_id), (''name'', JStr name),
             (''extra_content'', case extra_content of Some d \<Rightarrow> JObj d | None \<Rightarrow> JNull)],
          b\<lparr>sb_blocks := set_tool tool_index st m\<rparr>))"

text \<open>\<open>self.blocks.tool_states[tool_index]\<close> raises \<open>KeyError\<close> on an unknown index.\<close>

definition emit_tool_delta :: "int \<Rightarrow> string \<Rightarrow> sse_builder builder_gen" where
  "emit_tool_delta tool_index partial_json =
     gread (\<lambda>b. case map_of (tool_states (sb_blocks b)) tool_index of
       None \<Rightarrow> graise KeyError
     | Some st \<Rightarrow>
         gyield (\<lambda>b. (content_block_delta (tc_block_index st) ''input_json_delta'' partial_json,
                      upd_blocks (set_tool tool_index (st\<lparr>tc_contents := tc_contents st @ [partial_json]\<rparr>)) b)))"

definition stop_tool_block :: "int \<Rightarrow> sse_builder builder_gen" where
  "stop_tool_block tool_index =
     gread (\<lambda>b. case map_of (tool_states (sb_blocks b)) tool_index of
       None \<Rightarrow> graise KeyError
     | Some st \<Rightarrow> gyield (\<lambda>b. (content_block_stop (tc_block_index st), b)))"

definition ensure_thinking_block :: "sse_builder builder_gen" where
  "ensure_thinking_block =
     gseq (gread (\<lambda>b. gwhen (text_started (sb_blocks b)) (gyield stop_text_block)))
          (gread (\<lambda>b. gwhen (\<not> thinking_started (sb_blocks b)) (gyield start_thinking_block)))"

definition ensure_text_block :: "sse_builder builder_gen" where
  "ensure_text_block =
     gseq (gread (\<lambda>b. gwhen (thinking_started (sb_blocks b)) (gyield stop_thinking_block)))
          (gread (\<lambda>b. gwhen (\<not> text_started (sb_blocks b)) (gyield start_text_block)))"

definition close_content_blocks :: "sse_builder builder_gen" where
  "close_content_blocks =
     gseq (gread (\<lambda>b. gwhen (thinking_started (sb_blocks b)) (gyield stop_thinking_block)))
          (gread (\<lambda>b. gwhen (text_started (sb_blocks b)) (gyield stop_text_block)))"

definition close_all_blocks :: "sse_builder builder_gen" where
  "close_all_blocks =
     gseq close_content_blocks
          (gread (\<lambda>b. gfor (\<lambda>(tool_index, st). gwhen (tc_started st) (stop_tool_block tool_index))
                           (tool_states (sb_blocks b))))"

definition emit_error :: "string \<Rightarrow> sse_builder builder_gen" where
  "emit_error error_message =
     gread (\<lambda>b. let error_index = next_index (sb_blocks b) in
       gseq (gyield (\<lambda>b. (content_block_start error_index ''text'' [],
                          upd_blocks (\<lambda>m. snd (allocate_index m)) b)))
      (gseq (gyield (\<lambda>b. (content_block_delta error_index ''text_delta'' error_message, b)))
            (gyield (\<lambda>b. (content_block_stop error_index, b)))))"

definition accumulated_text :: "sse_builder \<Rightarrow> string" where
  "accumulated_text b = concat (sb_text_parts b)"

definition accumulated_reasoning :: "sse_builder \<Rightarrow> string" where
  "accumulated_reasoning b = concat (sb_reasoning_parts b)"

text \<open>\<open>encoder\<close>: the number of tokens \<open>tiktoken\<close> gives a text, or its absence.\<close>

definition estimate_output_tokens :: "(string \<Rightarrow> nat) option \<Rightarrow> sse_builder \<Rightarrow> nat" where
  "estimate_output_tokens encoder b =
     (let states = dvalues (tool_states (sb_blocks b)); started = length (List.filter tc_started states)
      in case encoder of
           Some tokens \<Rightarrow>
             (let tool_tokens = sum_list (map (\<lambda>st. tokens (tc_name st) + tokens (concat (tc_contents st)) + 15) states);
                  block_count = (if accumulated_reasoning b \<noteq> [] then 1 else 0)
                              + (if accumulated_text b \<noteq> [] then 1 else 0) + started
              in tokens (accumulated_text b) + tokens (accumulated_reasoning b) + tool_tokens + block_count * 4)
         | None \<Rightarrow>
             length (accumulated_text b) div 4 + length (accumulated_reasoning b) div 4 + started * 50)"

end
