(* ===== verification/Builder_Tracking.thy ===== *)
theory Builder_Tracking
  imports Sse_Builder
begin

text \<open>
  The builder keeps the checker in step: its invariant, its open blocks and used indexes, the
  interpretation of \<open>block_source\<close>, and one lemma per method that emits.
\<close>

section \<open>Open blocks and the invariant\<close>

definition live_blocks :: "block_manager \<Rightarrow> int \<Rightarrow> string option" where
  "live_blocks m i =
     (if thinking_started m \<and> i = thinking_index m then Some ''thinking''
      else if text_started m \<and> i = text_index m then Some ''text''
      else if \<exists>k st. map_of (tool_states m) k = Some st \<and> tc_started st \<and> tc_block_index st = i
      then Some ''tool_use'' else None)"

definition used_indexes :: "block_manager \<Rightarrow> int set" where
  "used_indexes m = {0..<next_index m}"

definition tool_sane :: "block_manager \<Rightarrow> tool_call_state \<Rightarrow> bool" where
  "tool_sane m st \<longleftrightarrow>
     (tc_started st \<longrightarrow> 0 \<le> tc_block_index st \<and> tc_block_index st < next_index m \<and>
        (thinking_started m \<longrightarrow> tc_block_index st \<noteq> thinking_index m) \<and>
        (text_started m \<longrightarrow> tc_block_index st \<noteq> text_index m)) \<and>
     (tc_task_arg_buffer st \<noteq> [] \<longrightarrow> tc_started st)"

definition blocks_sane :: "block_manager \<Rightarrow> bool" where
  "blocks_sane m \<longleftrightarrow>
     0 \<le> next_index m \<and>
     (thinking_started m \<longrightarrow> 0 \<le> thinking_index m \<and> thinking_index m < next_index m) \<and>
     (text_started m \<longrightarrow> 0 \<le> text_index m \<and> text_index m < next_index m) \<and>
     (thinking_started m \<longrightarrow> text_started m \<longrightarrow> thinking_index m \<noteq> text_index m) \<and>
     distinct (dkeys (tool_states m)) \<and>
     (\<forall>k st. map_of (tool_states m) k = Some st \<longrightarrow> tool_sane m st) \<and>
     (\<forall>k st k' st'. map_of (tool_states m) k = Some st \<longrightarrow> map_of (tool_states m) k' = Some st' \<longrightarrow>
        tc_started st \<longrightarrow> tc_started st' \<longrightarrow> tc_block_index st = tc_block_index st' \<longrightarrow> k = k') \<and>
     (thinking_index m \<noteq> -1 \<or> text_index m \<noteq> -1 \<longrightarrow> 0 < next_index m)"

lemma blocks_sane_new: "blocks_sane new_block_manager"
  by (simp add: blocks_sane_def new_block_manager_def)

lemma saneD:
  assumes "blocks_sane m"
  shows "0 \<le> next_index m"
    and "thinking_started m \<Longrightarrow> 0 \<le> thinking_index m \<and> thinking_index m < next_index m"
    and "text_started m \<Longrightarrow> 0 \<le> text_index m \<and> text_index m < next_index m"
    and "thinking_started m \<Longrightarrow> text_started m \<Longrightarrow> thinking_index m \<noteq> text_index m"
    and "distinct (dkeys (tool_states m))"
    and "map_of (tool_states m) k = Some st \<Longrightarrow> tool_sane m st"
    and "map_of (tool_states m) k = Some st \<Longrightarrow> tc_started st \<Longrightarrow>
           0 \<le> tc_block_index st \<and> tc_block_index st < next_index m"
    and "map_of (tool_states m) k = Some st \<Longrightarrow> tc_started st \<Longrightarrow> thinking_started m \<Longrightarrow>
           tc_block_index st \<noteq> thinking_index m"
    and "map_of (tool_states m) k = Some st \<Longrightarrow> tc_started st \<Longrightarrow> text_started m \<Longrightarrow>
           tc_block_index st \<noteq> text_index m"
    and "map_of (tool_states m) k = Some st \<Longrightarrow> map_of (tool_states m) k' = Some st' \<Longrightarrow>
           tc_started st \<Longrightarrow> tc_started st' \<Longrightarrow> tc_block_index st = tc_block_index st' \<Longrightarrow> k = k'"
    and "map_of (tool_states m) k = Some st \<Longrightarrow> tc_task_arg_buffer st \<noteq> [] \<Longrightarrow> tc_started st"
    and "thinking_index m \<noteq> -1 \<or> text_index m \<noteq> -1 \<Longrightarrow> 0 < next_index m"
proof -
  show "map_of (tool_states m) k = Some st \<Longrightarrow> tool_sane m st" using assms by (simp add: blocks_sane_def)
  then show "map_of (tool_states m) k = Some st \<Longrightarrow> tc_started st \<Longrightarrow>
           0 \<le> tc_block_index st \<and> tc_block_index st < next_index m"
    and "map_of (tool_states m) k = Some st \<Longrightarrow> tc_started st \<Longrightarrow> thinking_started m \<Longrightarrow>
           tc_block_index st \<noteq> thinking_index m"
    and "map_of (tool_states m) k = Some st \<Longrightarrow> tc_started st \<Longrightarrow> text_started m \<Longrightarrow>
           tc_block_index st \<noteq> text_index m"
    and "map_of (tool_states m) k = Some st \<Longrightarrow> tc_task_arg_buffer st \<noteq> [] \<Longrightarrow> tc_started st"
    by (simp_all add: tool_sane_def)
qed (use assms in \<open>auto simp: blocks_sane_def\<close>)

text \<open>Where a block is open, in the form the updates need.\<close>

definition tool_live :: "block_manager \<Rightarrow> int \<Rightarrow> bool" where
  "tool_live m i \<longleftrightarrow> (\<exists>k st. map_of (tool_states m) k = Some st \<and> tc_started st \<and> tc_block_index st = i)"

lemma live_blocks_tool:
  "live_blocks m i =
     (if thinking_started m \<and> i = thinking_index m then Some ''thinking''
      else if text_started m \<and> i = text_index m then Some ''text''
      else if tool_live m i then Some ''tool_use'' else None)"
  by (simp add: live_blocks_def tool_live_def)

definition live_at :: "block_manager \<Rightarrow> int \<Rightarrow> int \<Rightarrow> bool" where
  "live_at m k i = (case map_of (tool_states m) k of
      Some st \<Rightarrow> tc_started st \<and> tc_block_index st = i | None \<Rightarrow> False)"

lemma tool_live_at: "tool_live m i \<longleftrightarrow> (\<exists>k. live_at m k i)"
  by (auto simp: tool_live_def live_at_def split: option.splits)

lemma tool_live_cong: "tool_states m' = tool_states m \<Longrightarrow> tool_live m' = tool_live m"
  by (simp add: tool_live_def fun_eq_iff)

lemma tool_liveD:
  assumes "blocks_sane m" and "tool_live m i"
  shows "0 \<le> i" "i < next_index m" "thinking_started m \<Longrightarrow> i \<noteq> thinking_index m"
    "text_started m \<Longrightarrow> i \<noteq> text_index m"
  using assms(2) saneD [OF assms(1)] by (auto simp: tool_live_def)

lemma live_used_indexes: "blocks_sane m \<Longrightarrow> dom (live_blocks m) \<subseteq> used_indexes m"
  using saneD(2,3) tool_liveD(1,2)
  by (auto simp: live_blocks_tool used_indexes_def split: if_splits)

definition builder_sane :: "sse_builder \<Rightarrow> bool" where
  "builder_sane b = blocks_sane (sb_blocks b)"

definition builder_live :: "sse_builder \<Rightarrow> int \<Rightarrow> string option" where
  "builder_live b = live_blocks (sb_blocks b)"

definition builder_used :: "sse_builder \<Rightarrow> int set" where
  "builder_used b = used_indexes (sb_blocks b)"

lemmas builder_views = builder_sane_def builder_live_def builder_used_def

interpretation builder: block_source builder_sane builder_live builder_used
  by unfold_locales (auto simp: builder_views dest: live_used_indexes)

section \<open>What the builder's frames are\<close>

lemma index_of_frame [simp]:
  "event_index (content_block_start i t kw) = Inr i" "event_index (content_block_delta i d s) = Inr i"
  "event_index (content_block_stop i) = Inr i"
  by (simp_all add: event_index_def content_block_start_def content_block_delta_def
      content_block_stop_def Let_def)

lemma name_of_frame [simp]:
  "ev_name (content_block_start i t kw) = ''content_block_start''"
  "ev_name (content_block_delta i d s) = ''content_block_delta''"
  "ev_name (content_block_stop i) = ''content_block_stop''"
  "ev_name (message_start b) = ''message_start''"
  "ev_name (message_delta b r x y z) = ''message_delta''"
  "ev_name message_stop = ''message_stop''"
  "ev_name (emit_top_level_error e) = ''error''"
  by (simp_all add: content_block_start_def content_block_delta_def content_block_stop_def Let_def
      message_start_def message_delta_def message_stop_def emit_top_level_error_def)

lemma block_of_start:
  "jget_default (ev_data (content_block_start i t kw)) ''content_block'' w =
   JObj ([(''type'', JStr t)] @
        (if t = ''thinking'' then [(''thinking'', jget_default kw ''thinking'' (JStr []))]
         else if t = ''text'' then [(''text'', jget_default kw ''text'' (JStr []))]
         else if t = ''tool_use'' then
           [(''id'', jget_default kw ''id'' (JStr [])), (''name'', jget_default kw ''name'' (JStr [])),
            (''input'', jget_default kw ''input'' (JObj []))] @
           (case as_obj (jget kw ''extra_content'') of
              Some d \<Rightarrow> if d \<noteq> [] then [(''extra_content'', JObj d)] else []
            | None \<Rightarrow> [])
         else []))"
  by (simp add: content_block_start_def Let_def)

lemma py_str_JStr [simp]: "py_str (JStr s) = s"
  by (simp add: py_str_def)

lemma start_opens [simp]:
  "opens (content_block_start i ''thinking'' []) i ''thinking''"
  "opens (content_block_start i ''text'' []) i ''text''"
  "opens (content_block_start i ''tool_use'' kw) i ''tool_use''"
  by (simp_all add: opens_def start_kind_def block_of_start ALLOWED_BLOCK_START_TYPES_def Let_def
      py_strip_def py_lstrip_def py_rstrip_def)

lemma delta_of_delta:
  "jget_default (ev_data (content_block_delta i d s)) ''delta'' w =
   JObj ([(''type'', JStr d)] @
        (if d = ''thinking_delta'' then [(''thinking'', JStr s)]
         else if d = ''text_delta'' then [(''text'', JStr s)]
         else if d = ''input_json_delta'' then [(''partial_json'', JStr s)] else []))"
  by (simp add: content_block_delta_def Let_def)

lemma delta_extends [simp]:
  "extends (content_block_delta i ''thinking_delta'' s) i ''thinking''"
  "extends (content_block_delta i ''text_delta'' s) i ''text''"
  "extends (content_block_delta i ''input_json_delta'' s) i ''tool_use''"
  by (simp_all add: extends_def delta_kind_def delta_of_delta fits_kind_def)

lemma stop_closes [simp]: "closes (content_block_stop i) i"
  by (simp add: closes_def)

lemma message_frames_inert [simp]:
  "inert a (message_start b)" "inert a (message_delta b r x y z)" "inert a message_stop"
  "inert True (emit_top_level_error e)"
  by (simp_all add: inert_def)

section \<open>Thinking and text blocks\<close>

lemma sane_frame:
  assumes "blocks_sane m" and "tool_states m' = tool_states m" and "next_index m \<le> next_index m'"
    and "thinking_started m' \<Longrightarrow> thinking_started m \<and> thinking_index m' = thinking_index m \<or>
           thinking_index m' = next_index m \<and> next_index m < next_index m'"
    and "text_started m' \<Longrightarrow> text_started m \<and> text_index m' = text_index m \<or>
           text_index m' = next_index m \<and> next_index m < next_index m'"
    and "thinking_started m' \<Longrightarrow> text_started m' \<Longrightarrow> thinking_index m' \<noteq> text_index m'"
    and "thinking_index m' = thinking_index m \<or> next_index m < next_index m'"
    and "text_index m' = text_index m \<or> next_index m < next_index m'"
  shows "blocks_sane m'"
proof -
  note S = saneD [OF assms(1)]
  have "tool_sane m' st" if st: "map_of (tool_states m) k = Some st" for k st
    unfolding tool_sane_def
    using S(7-9) [OF st] S(11) [OF st] assms(3-5) by fastforce
  moreover have "thinking_started m' \<Longrightarrow> 0 \<le> thinking_index m' \<and> thinking_index m' < next_index m'"
    using S(1,2) assms(3,4) by fastforce
  moreover have "text_started m' \<Longrightarrow> 0 \<le> text_index m' \<and> text_index m' < next_index m'"
    using S(1,3) assms(3,5) by fastforce
  moreover have "0 \<le> next_index m'" using S(1) assms(3) by simp
  moreover have "thinking_index m' \<noteq> -1 \<or> text_index m' \<noteq> -1 \<longrightarrow> 0 < next_index m'"
    using S(1,12) assms(3,7,8) by auto
  ultimately show ?thesis
    unfolding blocks_sane_def assms(2) using S(5,10) assms(6) by blast
qed

lemma tracks_sane: "builder.tracks b c \<Longrightarrow> blocks_sane (sb_blocks b)"
  by (simp add: builder.tracks_def builder_views)

lemma next_fresh: "next_index (sb_blocks b) \<notin> builder_used b"
  by (simp add: builder_views used_indexes_def)

lemma used_next:
  "0 \<le> next_index m \<Longrightarrow> next_index m' = next_index m + 1 \<Longrightarrow>
   used_indexes m' = insert (next_index m) (used_indexes m)"
  by (auto simp: used_indexes_def)

lemma sound_start_thinking:
  "builder.sound a (\<lambda>b. \<not> thinking_started (sb_blocks b)) (gyield start_thinking_block)"
proof (rule builder.sound_gyield)
  fix b c assume t: "builder.tracks b c" and n: "\<not> thinking_started (sb_blocks b)"
  let ?m = "sb_blocks b" and ?b = "snd (start_thinking_block b)"
  note s = tracks_sane [OF t] and S = saneD [OF tracks_sane [OF t]]
  have b': "sb_blocks ?b = ?m\<lparr>next_index := next_index ?m + 1, thinking_index := next_index ?m,
      thinking_started := True\<rparr>"
    by (simp add: start_thinking_block_def allocate_index_def)
  show "\<exists>c'. check_event a c (fst (start_thinking_block b)) = Inr c' \<and> builder.tracks ?b c'"
  proof (rule builder.tracks_start [OF t _ next_fresh])
    show "opens (fst (start_thinking_block b)) (next_index ?m) ''thinking''"
      by (simp add: start_thinking_block_def allocate_index_def)
    show "builder_sane ?b" unfolding builder_views by (rule sane_frame [OF s]) (use S(3) in \<open>auto simp: b'\<close>)
    show "builder_used ?b = insert (next_index ?m) (builder_used b)"
      unfolding builder_views by (rule used_next [OF S(1)]) (simp add: b')
    have "tool_live (sb_blocks ?b) = tool_live ?m" by (rule tool_live_cong) (simp add: b')
    then show "builder_live ?b = (builder_live b)(next_index ?m \<mapsto> ''thinking'')"
      using n unfolding builder_views by (simp add: b' live_blocks_tool fun_eq_iff)
  qed
qed

lemma sound_start_text:
  "builder.sound a (\<lambda>b. \<not> text_started (sb_blocks b)) (gyield start_text_block)"
proof (rule builder.sound_gyield)
  fix b c assume t: "builder.tracks b c" and n: "\<not> text_started (sb_blocks b)"
  let ?m = "sb_blocks b" and ?b = "snd (start_text_block b)"
  note s = tracks_sane [OF t] and S = saneD [OF tracks_sane [OF t]]
  have b': "sb_blocks ?b = ?m\<lparr>next_index := next_index ?m + 1, text_index := next_index ?m,
      text_started := True\<rparr>"
    by (simp add: start_text_block_def allocate_index_def)
  show "\<exists>c'. check_event a c (fst (start_text_block b)) = Inr c' \<and> builder.tracks ?b c'"
  proof (rule builder.tracks_start [OF t _ next_fresh])
    show "opens (fst (start_text_block b)) (next_index ?m) ''text''"
      by (simp add: start_text_block_def allocate_index_def)
    show "builder_sane ?b" unfolding builder_views by (rule sane_frame [OF s]) (use S(2) in \<open>auto simp: b'\<close>)
    show "builder_used ?b = insert (next_index ?m) (builder_used b)"
      unfolding builder_views by (rule used_next [OF S(1)]) (simp add: b')
    have "tool_live (sb_blocks ?b) = tool_live ?m" by (rule tool_live_cong) (simp add: b')
    moreover have "thinking_started ?m \<Longrightarrow> thinking_index ?m \<noteq> next_index ?m" using S(2) by auto
    ultimately show "builder_live ?b = (builder_live b)(next_index ?m \<mapsto> ''text'')"
      using n unfolding builder_views by (simp add: b' live_blocks_tool fun_eq_iff)
  qed
qed

lemma sound_stop_thinking:
  "builder.sound a (\<lambda>b. thinking_started (sb_blocks b)) (gyield stop_thinking_block)"
proof (rule builder.sound_gyield)
  fix b c assume t: "builder.tracks b c" and n: "thinking_started (sb_blocks b)"
  let ?m = "sb_blocks b" and ?b = "snd (stop_thinking_block b)"
  note s = tracks_sane [OF t] and S = saneD [OF tracks_sane [OF t]]
  have b': "sb_blocks ?b = ?m\<lparr>thinking_started := False\<rparr>" by (simp add: stop_thinking_block_def)
  show "\<exists>c'. check_event a c (fst (stop_thinking_block b)) = Inr c' \<and> builder.tracks ?b c'"
  proof (rule builder.tracks_stop [OF t])
    show "closes (fst (stop_thinking_block b)) (thinking_index ?m)" by (simp add: stop_thinking_block_def)
    show "builder_live b (thinking_index ?m) \<noteq> None" using n by (simp add: builder_views live_blocks_def)
    show "builder_sane ?b" unfolding builder_views by (rule sane_frame [OF s]) (auto simp: b')
    have "tool_live (sb_blocks ?b) = tool_live ?m" by (rule tool_live_cong) (simp add: b')
    then show "builder_live ?b = (builder_live b)(thinking_index ?m := None)"
      using n S(4) tool_liveD(3) [OF s] unfolding builder_views by (auto simp: b' live_blocks_tool fun_eq_iff)
    show "builder_used ?b = builder_used b" by (simp add: builder_views used_indexes_def b')
  qed
qed

lemma sound_stop_text:
  "builder.sound a (\<lambda>b. text_started (sb_blocks b)) (gyield stop_text_block)"
proof (rule builder.sound_gyield)
  fix b c assume t: "builder.tracks b c" and n: "text_started (sb_blocks b)"
  let ?m = "sb_blocks b" and ?b = "snd (stop_text_block b)"
  note s = tracks_sane [OF t] and S = saneD [OF tracks_sane [OF t]]
  have b': "sb_blocks ?b = ?m\<lparr>text_started := False\<rparr>" by (simp add: stop_text_block_def)
  show "\<exists>c'. check_event a c (fst (stop_text_block b)) = Inr c' \<and> builder.tracks ?b c'"
  proof (rule builder.tracks_stop [OF t])
    show "closes (fst (stop_text_block b)) (text_index ?m)" by (simp add: stop_text_block_def)
    show "builder_live b (text_index ?m) \<noteq> None" using n by (simp add: builder_views live_blocks_def)
    show "builder_sane ?b" unfolding builder_views by (rule sane_frame [OF s]) (auto simp: b')
    have "tool_live (sb_blocks ?b) = tool_live ?m" by (rule tool_live_cong) (simp add: b')
    then show "builder_live ?b = (builder_live b)(text_index ?m := None)"
      using n S(4) tool_liveD(4) [OF s] unfolding builder_views by (auto simp: b' live_blocks_tool fun_eq_iff)
    show "builder_used ?b = builder_used b" by (simp add: builder_views used_indexes_def b')
  qed
qed

lemma sound_thinking_delta:
  "builder.sound a (\<lambda>b. thinking_started (sb_blocks b)) (gyield (emit_thinking_delta s))"
proof (rule builder.sound_gyield)
  fix b c assume t: "builder.tracks b c" and n: "thinking_started (sb_blocks b)"
  then have "builder_live b (thinking_index (sb_blocks b)) = Some ''thinking''"
    by (simp add: live_blocks_tool builder_views)
  then show "\<exists>c'. check_event a c (fst (emit_thinking_delta s b)) = Inr c' \<and>
      builder.tracks (snd (emit_thinking_delta s b)) c'"
    by (rule builder.tracks_delta [OF t, rotated])
       (use tracks_sane [OF t] in \<open>simp_all add: emit_thinking_delta_def builder_views\<close>)
qed

lemma sound_text_delta:
  "builder.sound a (\<lambda>b. text_started (sb_blocks b)) (gyield (emit_text_delta s))"
proof (rule builder.sound_gyield)
  fix b c assume t: "builder.tracks b c" and n: "text_started (sb_blocks b)"
  then have "builder_live b (text_index (sb_blocks b)) = Some ''text''"
    using saneD(4) [OF tracks_sane [OF t]] by (auto simp: live_blocks_tool builder_views)
  then show "\<exists>c'. check_event a c (fst (emit_text_delta s b)) = Inr c' \<and>
      builder.tracks (snd (emit_text_delta s b)) c'"
    by (rule builder.tracks_delta [OF t, rotated])
       (use tracks_sane [OF t] in \<open>simp_all add: emit_text_delta_def builder_views\<close>)
qed

section \<open>Ensuring and closing the content blocks\<close>

lemmas block_steps = start_thinking_block_def start_text_block_def stop_thinking_block_def
  stop_text_block_def emit_thinking_delta_def emit_text_delta_def allocate_index_def

lemma sound_ensure_thinking: "builder.sound a (\<lambda>_. True) ensure_thinking_block"
  unfolding ensure_thinking_block_def
  by (intro builder.sound_then builder.sound_gread builder.sound_gwhen
        builder.sound_mono [OF sound_stop_text] builder.sound_mono [OF sound_start_thinking]) auto

lemma sound_ensure_text: "builder.sound a (\<lambda>_. True) ensure_text_block"
  unfolding ensure_text_block_def
  by (intro builder.sound_then builder.sound_gread builder.sound_gwhen
        builder.sound_mono [OF sound_stop_thinking] builder.sound_mono [OF sound_start_text]) auto

lemma sound_close_content: "builder.sound a (\<lambda>_. True) close_content_blocks"
  unfolding close_content_blocks_def
  by (intro builder.sound_then builder.sound_gread builder.sound_gwhen
        builder.sound_mono [OF sound_stop_thinking] builder.sound_mono [OF sound_stop_text]) auto

lemma ensure_thinking_started:
  "thinking_started (sb_blocks (after ensure_thinking_block b))" "raised ensure_thinking_block b = None"
  by (simp_all add: ensure_thinking_block_def gen_simps block_steps)

lemma ensure_text_started:
  "text_started (sb_blocks (after ensure_text_block b))" "raised ensure_text_block b = None"
  by (simp_all add: ensure_text_block_def gen_simps block_steps)

lemma close_content_closed:
  "\<not> thinking_started (sb_blocks (after close_content_blocks b))"
  "\<not> text_started (sb_blocks (after close_content_blocks b))"
  "raised close_content_blocks b = None"
  "tool_states (sb_blocks (after close_content_blocks b)) = tool_states (sb_blocks b)"
  "next_index (sb_blocks (after close_content_blocks b)) = next_index (sb_blocks b)"
  by (simp_all add: close_content_blocks_def gen_simps block_steps)

definition write_thinking :: "string \<Rightarrow> sse_builder builder_gen" where
  "write_thinking s = gseq ensure_thinking_block (gyield (emit_thinking_delta s))"

definition write_text :: "string \<Rightarrow> sse_builder builder_gen" where
  "write_text s = gseq ensure_text_block (gyield (emit_text_delta s))"

lemma sound_write_thinking: "builder.sound a (\<lambda>_. True) (write_thinking s)"
  unfolding write_thinking_def
  by (rule builder.sound_gseq [OF sound_ensure_thinking sound_thinking_delta]) (rule ensure_thinking_started)

lemma sound_write_text: "builder.sound a (\<lambda>_. True) (write_text s)"
  unfolding write_text_def
  by (rule builder.sound_gseq [OF sound_ensure_text sound_text_delta]) (rule ensure_text_started)

section \<open>Tool states\<close>

text \<open>An update that neither starts a tool block nor moves one.\<close>

definition quiet :: "block_manager \<Rightarrow> int \<Rightarrow> tool_call_state \<Rightarrow> bool" where
  "quiet m i st' \<longleftrightarrow>
     (case map_of (tool_states m) i of
        None \<Rightarrow> \<not> tc_started st'
      | Some st \<Rightarrow> tc_started st' = tc_started st \<and> tc_block_index st' = tc_block_index st) \<and>
     (tc_task_arg_buffer st' \<noteq> [] \<longrightarrow> tc_started st')"

lemma set_tool_sel [simp]:
  "next_index (set_tool i st m) = next_index m" "thinking_index (set_tool i st m) = thinking_index m"
  "text_index (set_tool i st m) = text_index m" "thinking_started (set_tool i st m) = thinking_started m"
  "text_started (set_tool i st m) = text_started m"
  "tool_states (set_tool i st m) = dset i st (tool_states m)"
  by (simp_all add: set_tool_def)

lemma sane_set_tool:
  assumes "blocks_sane m" and "tool_sane m st"
    and "\<And>k st'. map_of (tool_states m) k = Some st' \<Longrightarrow> k \<noteq> i \<Longrightarrow> tc_started st \<Longrightarrow> tc_started st' \<Longrightarrow>
           tc_block_index st' \<noteq> tc_block_index st"
  shows "blocks_sane (set_tool i st m)"
proof -
  note S = saneD [OF assms(1)]
  have 1: "map_of (tool_states (set_tool i st m)) k = Some st' \<Longrightarrow>
      k = i \<and> st' = st \<or> k \<noteq> i \<and> map_of (tool_states m) k = Some st'" for k st'
    by (simp add: dict_simps split: if_splits)
  have ts: "tool_sane (set_tool i st m) = tool_sane m" by (simp add: tool_sane_def fun_eq_iff)
  show ?thesis
    unfolding blocks_sane_def ts
  proof (intro conjI allI impI)
    show "distinct (dkeys (tool_states (set_tool i st m)))" using S(5) by (simp add: distinct_dset)
    show "tool_sane m st'" if "map_of (tool_states (set_tool i st m)) k = Some st'" for k st'
      using 1 [OF that] S(6) assms(2) by blast
    show "k = k'" if "map_of (tool_states (set_tool i st m)) k = Some sa"
      "map_of (tool_states (set_tool i st m)) k' = Some sb" "tc_started sa" "tc_started sb"
      "tc_block_index sa = tc_block_index sb" for k sa k' sb
      using 1 [OF that(1)] 1 [OF that(2)] that(3-5) assms(3) S(10) by metis
  qed (use S(1-4,12) in auto)
qed

lemma quiet_set_tool:
  assumes "blocks_sane m" and "quiet m i st"
  shows "blocks_sane (set_tool i st m)" and "live_blocks (set_tool i st m) = live_blocks m"
    and "used_indexes (set_tool i st m) = used_indexes m"
proof -
  note S = saneD [OF assms(1)]
  have "tool_sane m st"
    using assms(2) S(7-9) unfolding quiet_def tool_sane_def by (fastforce split: option.splits)
  then show "blocks_sane (set_tool i st m)"
  proof (rule sane_set_tool [OF assms(1)])
    show "tc_block_index st' \<noteq> tc_block_index st" if "map_of (tool_states m) k = Some st'" "k \<noteq> i"
      "tc_started st" "tc_started st'" for k st'
      using that assms(2) S(10) [of k st' i] unfolding quiet_def by (fastforce split: option.splits)
  qed
  have "live_at (set_tool i st m) k j = live_at m k j" for k j
    using assms(2) by (auto simp: quiet_def live_at_def dict_simps split: option.splits)
  then have "tool_live (set_tool i st m) j = tool_live m j" for j by (simp add: tool_live_at)
  then show "live_blocks (set_tool i st m) = live_blocks m" by (simp add: live_blocks_tool fun_eq_iff)
  show "used_indexes (set_tool i st m) = used_indexes m" by (simp add: used_indexes_def)
qed

lemma live_Some_tool:
  assumes "blocks_sane m" and "map_of (tool_states m) k = Some st" and "tc_started st"
  shows "live_blocks m (tc_block_index st) = Some ''tool_use''"
proof -
  have "tool_live m (tc_block_index st)" using assms(2,3) by (auto simp: tool_live_def)
  with saneD(8,9) [OF assms(1-3)] show ?thesis by (auto simp: live_blocks_tool)
qed

definition tool_running :: "int \<Rightarrow> sse_builder \<Rightarrow> bool" where
  "tool_running k b \<longleftrightarrow> (\<exists>st. map_of (tool_states (sb_blocks b)) k = Some st \<and> tc_started st)"

lemma sound_tool_delta: "builder.sound a (tool_running k) (emit_tool_delta k s)"
  unfolding emit_tool_delta_def
proof (rule builder.sound_gread)
  fix b assume "builder_sane b" and "tool_running k b"
  then obtain st where st: "map_of (tool_states (sb_blocks b)) k = Some st" "tc_started st"
    by (auto simp: tool_running_def)
  let ?st = "st\<lparr>tc_contents := tc_contents st @ [s]\<rparr>"
  have s: "blocks_sane (sb_blocks b)" using \<open>builder_sane b\<close> by (simp add: builder_views)
  have q: "quiet (sb_blocks b) k ?st" using st by (simp add: quiet_def)
  have l: "builder_live b (tc_block_index st) = Some ''tool_use''"
    using live_Some_tool [OF s st] by (simp add: builder_views)
  show "builder.sound a (\<lambda>t. t = b) (case map_of (tool_states (sb_blocks b)) k of None \<Rightarrow> graise KeyError
     | Some st \<Rightarrow> gyield (\<lambda>b. (content_block_delta (tc_block_index st) ''input_json_delta'' s,
           upd_blocks (set_tool k (st\<lparr>tc_contents := tc_contents st @ [s]\<rparr>)) b)))"
    unfolding st(1) option.case
  proof (rule builder.sound_gyield, clarify)
    fix c assume t: "builder.tracks b c"
    show "\<exists>c'. check_event a c (fst (content_block_delta (tc_block_index st) ''input_json_delta'' s,
          upd_blocks (set_tool k ?st) b)) = Inr c' \<and>
        builder.tracks (snd (content_block_delta (tc_block_index st) ''input_json_delta'' s,
          upd_blocks (set_tool k ?st) b)) c'"
      by (rule builder.tracks_delta [OF t _ l]) (use quiet_set_tool [OF s q] in \<open>simp_all add: builder_views\<close>)
  qed
qed

lemma tool_delta_runs:
  "tool_running k b \<Longrightarrow> raised (emit_tool_delta k s) b = None"
  "tool_running j b \<Longrightarrow> tool_running j (after (emit_tool_delta k s) b)"
  by (auto simp: tool_running_def emit_tool_delta_def gen_simps dict_simps split: option.splits)

text \<open>A block is started once: the state was not running before.\<close>

lemma sound_start_tool:
  "builder.sound a (\<lambda>b. \<not> tool_running k b \<and>
      (\<forall>st. map_of (tool_states (sb_blocks b)) k = Some st \<longrightarrow> tc_task_arg_buffer st = []))
    (gyield (start_tool_block k tid name extra))"
proof (rule builder.sound_gyield, elim conjE)
  fix b c assume t: "builder.tracks b c" and n: "\<not> tool_running k b"
    and buf: "\<forall>st. map_of (tool_states (sb_blocks b)) k = Some st \<longrightarrow> tc_task_arg_buffer st = []"
  let ?m = "sb_blocks b" and ?b = "snd (start_tool_block k tid name extra b)"
  note s = tracks_sane [OF t] and S = saneD [OF tracks_sane [OF t]]
  obtain st where st: "tc_started st" "tc_block_index st = next_index ?m"
      and b': "sb_blocks ?b = set_tool k st (?m\<lparr>next_index := next_index ?m + 1\<rparr>)"
    by (rule that [of "case map_of (tool_states ?m) k of
           Some st \<Rightarrow> st\<lparr>tc_block_index := next_index ?m, tc_tool_id := tid,
             tc_extra_content := (if extra \<noteq> None \<and> extra \<noteq> Some [] then extra else tc_extra_content st),
             tc_started := True\<rparr>
         | None \<Rightarrow> (new_tool_state (next_index ?m) tid name)\<lparr>tc_extra_content := extra, tc_started := True\<rparr>"])
       (simp_all add: start_tool_block_def allocate_index_def new_tool_state_def split: option.splits)
  let ?m' = "?m\<lparr>next_index := next_index ?m + 1\<rparr>"
  have s': "blocks_sane ?m'" by (rule sane_frame [OF s]) (use S(4) in auto)
  have "tool_sane ?m' st" using st S(1-3) by (auto simp: tool_sane_def)
  then have sane: "blocks_sane (sb_blocks ?b)"
    unfolding b' by (rule sane_set_tool [OF s']) (use S(7) st in fastforce)
  have live: "tool_live (sb_blocks ?b) i \<longleftrightarrow> i = next_index ?m \<or> tool_live ?m i" for i
    using n st unfolding tool_live_def tool_running_def by (auto simp: b' dict_simps)
  show "\<exists>c'. check_event a c (fst (start_tool_block k tid name extra b)) = Inr c' \<and> builder.tracks ?b c'"
  proof (rule builder.tracks_start [OF t _ next_fresh])
    show "opens (fst (start_tool_block k tid name extra b)) (next_index ?m) ''tool_use''"
      by (simp add: start_tool_block_def allocate_index_def)
    show "builder_sane ?b" using sane by (simp add: builder_views)
    show "builder_used ?b = insert (next_index ?m) (builder_used b)"
      unfolding builder_views by (rule used_next [OF S(1)]) (simp add: b')
    have "thinking_started ?m \<Longrightarrow> thinking_index ?m \<noteq> next_index ?m"
      "text_started ?m \<Longrightarrow> text_index ?m \<noteq> next_index ?m" using S(2,3) by auto
    then show "builder_live ?b = (builder_live b)(next_index ?m \<mapsto> ''tool_use'')"
      unfolding builder_views fun_eq_iff live_blocks_tool live by (auto simp: b')
  qed
qed

lemma start_tool_runs: "tool_running k (snd (start_tool_block k tid name extra b))"
  by (simp add: tool_running_def start_tool_block_def allocate_index_def dict_simps new_tool_state_def
      split: option.splits)

section \<open>Closing everything\<close>

definition started_items :: "(int, tool_call_state) dict \<Rightarrow> (int, tool_call_state) dict" where
  "started_items items = List.filter (\<lambda>(k, st). tc_started st) items"

lemma run_stop_tools:
  assumes "\<And>k st. (k, st) \<in> set items \<Longrightarrow> map_of (tool_states (sb_blocks b)) k = Some st"
  defines "g \<equiv> gfor (\<lambda>(k, st). gwhen (tc_started st) (stop_tool_block k)) items"
  shows "yields g b = map (\<lambda>(k, st). content_block_stop (tc_block_index st)) (started_items items)"
    and "raised g b = None" and "after g b = b"
proof -
  have "yields g b = map (\<lambda>(k, st). content_block_stop (tc_block_index st)) (started_items items) \<and>
      raised g b = None \<and> after g b = b"
    unfolding g_def using assms(1)
  proof (induction items)
    case (Cons p items)
    obtain k st where p: "p = (k, st)" by (cases p)
    have "map_of (tool_states (sb_blocks b)) k = Some st" using Cons.prems p by simp
    then have "yields (stop_tool_block k) b = [content_block_stop (tc_block_index st)]"
      "raised (stop_tool_block k) b = None" "after (stop_tool_block k) b = b"
      by (simp_all add: stop_tool_block_def gen_simps)
    with Cons p show ?case by (simp add: gen_simps started_items_def)
  qed (simp add: gen_simps started_items_def)
  then show "yields g b = map (\<lambda>(k, st). content_block_stop (tc_block_index st)) (started_items items)"
    and "raised g b = None" and "after g b = b" by simp_all
qed

lemma close_all_runs:
  assumes "blocks_sane (sb_blocks b)"
  shows "yields close_all_blocks b = yields close_content_blocks b @
           map (\<lambda>(k, st). content_block_stop (tc_block_index st)) (started_items (tool_states (sb_blocks b)))"
    and "raised close_all_blocks b = None"
    and "after close_all_blocks b = after close_content_blocks b"
proof -
  let ?b = "after close_content_blocks b"
  have "map_of (tool_states (sb_blocks ?b)) k = Some st"
    if "(k, st) \<in> set (tool_states (sb_blocks b))" for k st
    using that saneD(5) [OF assms] by (simp add: close_content_closed)
  note * = run_stop_tools [of "tool_states (sb_blocks b)" ?b, OF this]
  show "yields close_all_blocks b = yields close_content_blocks b @
           map (\<lambda>(k, st). content_block_stop (tc_block_index st)) (started_items (tool_states (sb_blocks b)))"
    and "raised close_all_blocks b = None"
    and "after close_all_blocks b = after close_content_blocks b"
    by (simp_all add: close_all_blocks_def gen_simps * close_content_closed)
qed

lemma started_items_in:
  assumes "blocks_sane m"
  shows "i \<in> (\<lambda>(k, st). tc_block_index st) ` set (started_items (tool_states m)) \<longleftrightarrow> tool_live m i"
  using saneD(5) [OF assms] unfolding tool_live_def started_items_def by force

lemma started_items_distinct:
  assumes "blocks_sane m"
  shows "distinct (map (\<lambda>(k, st). tc_block_index st) (started_items (tool_states m)))"
proof -
  have "inj_on (\<lambda>(k, st). tc_block_index st) (set (started_items (tool_states m)))"
  proof (rule inj_onI, clarify)
    fix k st k' st' assume *: "(k, st) \<in> set (started_items (tool_states m))"
      "(k', st') \<in> set (started_items (tool_states m))" "tc_block_index st = tc_block_index st'"
    then have m: "map_of (tool_states m) k = Some st" "map_of (tool_states m) k' = Some st'"
      using saneD(5) [OF assms] by (auto simp: started_items_def)
    moreover have "tc_started st" "tc_started st'" using * by (auto simp: started_items_def)
    ultimately have "k = k'" using saneD(10) [OF assms] *(3) by blast
    with m show "k = k' \<and> st = st'" by simp
  qed
  moreover have "distinct (started_items (tool_states m))"
    using saneD(5) [OF assms] by (auto simp: started_items_def distinct_map)
  ultimately show ?thesis by (simp add: distinct_map)
qed

lemma close_all_accepted:
  assumes t: "builder.tracks b c"
  shows "\<exists>c'. check_events a c (yields close_all_blocks b) = Inr c' \<and> open_blocks c' = [] \<and>
           seen_blocks c' = builder_used b"
proof -
  let ?b = "after close_content_blocks b"
  note s = tracks_sane [OF t]
  obtain c1 where c1: "check_events a c (yields close_content_blocks b) = Inr c1" "builder.tracks ?b c1"
    using builder.soundD [OF sound_close_content t] by blast
  note s1 = tracks_sane [OF c1(2)]
  let ?items = "started_items (tool_states (sb_blocks ?b))"
  have "\<exists>c'. check_events a c1 (map (\<lambda>(k, st). content_block_stop (tc_block_index st)) ?items) = Inr c' \<and>
      open_blocks c' = [] \<and> seen_blocks c' = builder_used ?b"
  proof (rule builder.stop_all [OF c1(2)])
    show "list_all2 closes (map (\<lambda>(k, st). content_block_stop (tc_block_index st)) ?items)
        (map (\<lambda>(k, st). tc_block_index st) ?items)"
      by (auto simp: list_all2_map1 list_all2_map2 intro!: list.rel_refl_strong)
    show "distinct (map (\<lambda>(k, st). tc_block_index st) ?items)" by (rule started_items_distinct [OF s1])
    show "set (map (\<lambda>(k, st). tc_block_index st) ?items) = dom (builder_live ?b)"
    proof -
      have "dom (builder_live ?b) = {i. tool_live (sb_blocks ?b) i}"
        by (auto simp: builder_views live_blocks_tool close_content_closed dom_def)
      then show ?thesis unfolding set_map set_eq_iff started_items_in [OF s1] by simp
    qed
  qed
  moreover have "builder_used ?b = builder_used b"
    by (simp add: builder_views used_indexes_def close_content_closed)
  ultimately show ?thesis
    using c1(1) by (auto simp: close_all_runs [OF s] check_events_append close_content_closed)
qed

text \<open>The error block: a text block of its own, opened, filled and closed.\<close>

lemma emit_error_yields:
  "yields (emit_error e) b =
     [content_block_start (next_index (sb_blocks b)) ''text'' [],
      content_block_delta (next_index (sb_blocks b)) ''text_delta'' e,
      content_block_stop (next_index (sb_blocks b))]"
  "raised (emit_error e) b = None"
  by (simp_all add: emit_error_def gen_simps Let_def)

lemma emit_error_accepted:
  assumes "open_blocks c = []" and "seen_blocks c = used_indexes (sb_blocks b)"
  shows "\<exists>c'. check_events a c (yields (emit_error e) b) = Inr c' \<and> open_blocks c' = [] \<and> seen_blocks c' \<noteq> {}"
proof -
  let ?i = "next_index (sb_blocks b)"
  have "?i \<notin> seen_blocks c" using assms(2) by (simp add: used_indexes_def)
  with assms(1) have "check_event a c (content_block_start ?i ''text'' []) =
      Inr (c\<lparr>open_blocks := [(?i, ''text'')], seen_blocks := insert ?i (seen_blocks c)\<rparr>)"
    by (subst check_opens [of _ ?i "''text''"]) auto
  then show ?thesis
    by (simp add: emit_error_yields check_extends [of _ ?i "''text''"] check_closes [of _ ?i])
qed

end
