(* ===== verification/Tool_Calls.thy ===== *)
theory Tool_Calls
  imports Builder_Tracking Stream_Recovery Heuristic_Tools
begin

text \<open>
  Assembly of OpenAI tool-call deltas into tool blocks
  (\<open>providers/transports/openai_chat/tool_calls.py\<close>, \<open>usage.py\<close>): the assembler's state, the
  per-delta generator with its split ids, names and arguments, the buffered \<open>Task\<close> arguments,
  the restoration of aliased argument names, and the two flushes at the end of a stream.
\<close>

section \<open>State\<close>

text \<open>
  The builder, the alias buffers passed by reference (or \<open>None\<close>), what the callback
  \<open>record_extra_content\<close> was given, and the number of identifiers drawn from \<open>uuid4\<close>.
\<close>

record assembler =
  as_sse :: sse_builder
  as_alias_buffers :: "(int, string) dict option"
  as_recorded :: "(string \<times> jdict) list"
  as_uuids :: nat

type_synonym aliases = "(string, string) dict"

record tool_delta =
  td_index :: json
  td_id :: json
  td_name :: "string option"
  td_arguments :: "string option"
  td_extra_content :: json

definition put_sse :: "sse_builder \<Rightarrow> 'a assembler_scheme \<Rightarrow> 'a assembler_scheme" where
  "put_sse b s = s\<lparr>as_sse := b\<rparr>"

abbreviation on_sse :: "sse_builder builder_gen \<Rightarrow> ('a assembler_scheme) builder_gen" where
  "on_sse \<equiv> focus_gen as_sse put_sse"

definition on_blocks :: "(block_manager \<Rightarrow> block_manager) \<Rightarrow> 'a assembler_scheme \<Rightarrow> 'a assembler_scheme" where
  "on_blocks f s = s\<lparr>as_sse := upd_blocks f (as_sse s)\<rparr>"

definition record_extra :: "string \<Rightarrow> jdict \<Rightarrow> 'a assembler_scheme \<Rightarrow> 'a assembler_scheme" where
  "record_extra tool_call_id extra_content s = s\<lparr>as_recorded := as_recorded s @ [(tool_call_id, extra_content)]\<rparr>"

abbreviation tools_of :: "'a assembler_scheme \<Rightarrow> (int, tool_call_state) dict" where
  "tools_of s \<equiv> tool_states (sb_blocks (as_sse s))"

section \<open>Reading a tool call\<close>

text \<open>A tool call is a mapping, or an object with three places for extra attributes.\<close>

datatype tool_call = ToolDict jdict | ToolObject json json json

fun tool_call_extra_content :: "tool_call \<Rightarrow> jdict option" where
  "tool_call_extra_content (ToolDict d) = as_obj (jget d ''extra_content'')"
| "tool_call_extra_content (ToolObject extra_content model_extra pydantic_extra) =
     (case as_obj extra_content of
        Some d \<Rightarrow> Some d
      | None \<Rightarrow>
          (case Option.bind (as_obj model_extra) (\<lambda>m. as_obj (jget m ''extra_content'')) of
             Some d \<Rightarrow> Some d
           | None \<Rightarrow> Option.bind (as_obj pydantic_extra) (\<lambda>m. as_obj (jget m ''extra_content''))))"

definition has_committed_sse_output :: "sse_builder \<Rightarrow> bool" where
  "has_committed_sse_output b \<longleftrightarrow>
     text_index (sb_blocks b) \<noteq> -1 \<or> thinking_index (sb_blocks b) \<noteq> -1 \<or> has_emitted_tool_block (sb_blocks b)"

definition started_tool_states :: "sse_builder \<Rightarrow> (int \<times> tool_call_state) list" where
  "started_tool_states b = List.filter (\<lambda>(tool_index, st). tc_started st) (tool_states (sb_blocks b))"

definition all_started_tools_complete ::
  "(jdict \<Rightarrow> jdict \<Rightarrow> schema_result) \<Rightarrow> jdict list \<Rightarrow> sse_builder \<Rightarrow> bool" where
  "all_started_tools_complete v tools b =
     (let schemas = tool_schemas_by_name tools; started = started_tool_states b
      in started \<noteq> [] \<and>
         list_all (\<lambda>(_, st). parse_complete_tool_input v (concat (tc_contents st)) (tc_name st) schemas \<noteq> None)
           started)"

section \<open>Heuristic tool blocks\<close>

definition normalized_heuristic_input :: "heuristic_tool \<Rightarrow> jdict" where
  "normalized_heuristic_input tool_use =
     (if ht_name tool_use = ''Task'' \<and> jget (ht_input tool_use) ''run_in_background'' \<noteq> JBool False
      then dset ''run_in_background'' (JBool False) (ht_input tool_use)
      else ht_input tool_use)"

definition iter_heuristic_tool_use_sse :: "heuristic_tool \<Rightarrow> sse_builder builder_gen" where
  "iter_heuristic_tool_use_sse tool_use =
     (let input = normalized_heuristic_input tool_use
      in gseq close_content_blocks
           (gread (\<lambda>b. let block_idx = next_index (sb_blocks b) in
              gseq (gyield (\<lambda>b. (content_block_start block_idx ''tool_use''
                                    [(''id'', JStr (ht_id tool_use)), (''name'', JStr (ht_name tool_use))],
                                 upd_blocks (\<lambda>m. snd (allocate_index m)) b)))
             (gseq (gyield (\<lambda>b. (content_block_delta block_idx ''input_json_delta'' (json_dumps (JObj input)), b)))
                   (gyield (\<lambda>b. (content_block_stop block_idx, b)))))))"

section \<open>Aliased arguments\<close>

fun restore_aliased_value :: "aliases \<Rightarrow> json \<Rightarrow> json" where
  "restore_aliased_value a (JObj d) =
     JObj (dict_of_pairs (map (\<lambda>(k, v).
       (case map_of a k of Some k' \<Rightarrow> k' | None \<Rightarrow> k, restore_aliased_value a v)) d))"
| "restore_aliased_value a (JArr xs) = JArr (map (restore_aliased_value a) xs)"
| "restore_aliased_value a j = j"

definition restore_aliased_tool_arguments :: "string \<Rightarrow> aliases \<Rightarrow> string option" where
  "restore_aliased_tool_arguments argument_json a =
     (case json_loads argument_json of
        None \<Rightarrow> None
      | Some (JObj d) \<Rightarrow> Some (json_dumps (restore_aliased_value a (JObj d)))
      | Some _ \<Rightarrow> Some argument_json)"

definition aliases_for :: "(string, aliases) dict \<Rightarrow> string \<Rightarrow> aliases" where
  "aliases_for tool_argument_aliases name =
     (case map_of tool_argument_aliases name of Some a \<Rightarrow> a | None \<Rightarrow> [])"

definition set_alias_buffer :: "int \<Rightarrow> string \<Rightarrow> 'a assembler_scheme \<Rightarrow> 'a assembler_scheme" where
  "set_alias_buffer i s st = st\<lparr>as_alias_buffers := map_option (dset i s) (as_alias_buffers st)\<rparr>"

definition pop_alias_buffer :: "int \<Rightarrow> 'a assembler_scheme \<Rightarrow> 'a assembler_scheme" where
  "pop_alias_buffer i st = st\<lparr>as_alias_buffers := map_option (ddel i) (as_alias_buffers st)\<rparr>"

section \<open>One argument fragment\<close>

text \<open>\<open>parsed = sse.blocks.buffer_task_args(...)\<close>: the state changes even when it raises.\<close>

definition emit_parsed_task :: "int \<Rightarrow> py_error + jdict option \<Rightarrow> sse_builder builder_gen" where
  "emit_parsed_task tc_index r =
     (case r of
        Inl e \<Rightarrow> graise e
      | Inr None \<Rightarrow> gskip
      | Inr (Some parsed) \<Rightarrow> emit_tool_delta tc_index (json_dumps (JObj parsed)))"

definition task_arg_step :: "int \<Rightarrow> string \<Rightarrow> sse_builder builder_gen" where
  "task_arg_step tc_index args =
     gread (\<lambda>b. gseq (gdo (\<lambda>b. b\<lparr>sb_blocks := snd (buffer_task_args tc_index args (sb_blocks b))\<rparr>))
                    (emit_parsed_task tc_index (fst (buffer_task_args tc_index args (sb_blocks b)))))"

definition emit_aliased_arg ::
  "aliases \<Rightarrow> int \<Rightarrow> string \<Rightarrow> ('a assembler_scheme) builder_gen" where
  "emit_aliased_arg a tc_index args =
     gread (\<lambda>s. case as_alias_buffers s of
       None \<Rightarrow>
         (case restore_aliased_tool_arguments args a of
            Some restored \<Rightarrow> on_sse (emit_tool_delta tc_index restored)
          | None \<Rightarrow> gskip)
     | Some buffers \<Rightarrow>
         (let buffered_args = (case map_of buffers tc_index of Some b \<Rightarrow> b | None \<Rightarrow> []) @ args
          in case restore_aliased_tool_arguments buffered_args a of
               None \<Rightarrow> gdo (set_alias_buffer tc_index buffered_args)
             | Some restored \<Rightarrow>
                 gseq (gdo (pop_alias_buffer tc_index)) (on_sse (emit_tool_delta tc_index restored))))"

definition emit_tool_arg_delta ::
  "(string, aliases) dict \<Rightarrow> int \<Rightarrow> string \<Rightarrow> ('a assembler_scheme) builder_gen" where
  "emit_tool_arg_delta tool_argument_aliases tc_index args =
     (if args = [] then gskip
      else gread (\<lambda>s. case map_of (tools_of s) tc_index of
        None \<Rightarrow> gskip
      | Some st \<Rightarrow>
          if tc_name st = ''Task'' then on_sse (task_arg_step tc_index args)
          else (let a = aliases_for tool_argument_aliases (tc_name st)
                in if a \<noteq> [] then emit_aliased_arg a tc_index args
                   else on_sse (emit_tool_delta tc_index args))))"

section \<open>One tool-call delta\<close>

definition tool_index_of :: "tool_delta \<Rightarrow> 'a assembler_scheme \<Rightarrow> int" where
  "tool_index_of tc s =
     (case as_int (td_index tc) of
        Some i \<Rightarrow> if i < 0 then int (length (tools_of s)) else i
      | None \<Rightarrow> 0)"

definition delta_extra :: "tool_delta \<Rightarrow> jdict option" where
  "delta_extra tc = (case as_obj (td_extra_content tc) of Some d \<Rightarrow> if d \<noteq> [] then Some d else None | None \<Rightarrow> None)"

text \<open>Id, extra content and name fragment go into the tool's state first.\<close>

definition note_tool_delta :: "tool_delta \<Rightarrow> int \<Rightarrow> block_manager \<Rightarrow> block_manager" where
  "note_tool_delta tc i m =
     (let m = (if td_id tc \<noteq> JNull then set_stream_tool_id i (td_id tc) m else m);
          m = set_tool_extra_content i (delta_extra tc) m
      in case td_name tc of Some name \<Rightarrow> register_tool_name i name m | None \<Rightarrow> m)"

definition stored_extra :: "tool_call_state option \<Rightarrow> jdict option \<Rightarrow> jdict option" where
  "stored_extra state extra_content =
     (case (case state of Some st \<Rightarrow> tc_extra_content st | None \<Rightarrow> extra_content) of
        Some d \<Rightarrow> if d \<noteq> [] then Some d else None | None \<Rightarrow> None)"

definition flush_pre_start :: "(string, aliases) dict \<Rightarrow> int \<Rightarrow> ('a assembler_scheme) builder_gen" where
  "flush_pre_start al i =
     gread (\<lambda>s. case map_of (tools_of s) i of
       None \<Rightarrow> graise KeyError
     | Some st \<Rightarrow>
         if tc_pre_start_args st = [] then gskip
         else gseq (gdo (on_blocks (set_tool i (st\<lparr>tc_pre_start_args := []\<rparr>))))
                   (emit_tool_arg_delta al i (tc_pre_start_args st)))"

definition start_tool ::
  "(nat \<Rightarrow> string) \<Rightarrow> (string, aliases) dict \<Rightarrow> tool_delta \<Rightarrow> int \<Rightarrow> tool_call_state option \<Rightarrow> string \<Rightarrow>
   ('a assembler_scheme) builder_gen" where
  "start_tool uuid al tc i state resolved_name =
     gread (\<lambda>s.
       let known = (case state of Some st \<Rightarrow> tc_tool_id st | None \<Rightarrow> []);
           resolved_id = (if known \<noteq> [] then JStr known else td_id tc);
           fresh = \<not> truthy resolved_id;
           tool_id = (if fresh then ''tool_'' @ uuid (as_uuids s) else py_str resolved_id);
           extra = stored_extra state (delta_extra tc)
       in gseq (gdo (\<lambda>s. if fresh then s\<lparr>as_uuids := Suc (as_uuids s)\<rparr> else s))
         (gseq (gdo (\<lambda>s. case extra of Some d \<Rightarrow> record_extra tool_id d s | None \<Rightarrow> s))
         (gseq (on_sse (gyield (start_tool_block i tool_id (py_strip resolved_name) extra)))
               (flush_pre_start al i))))"

definition tool_arguments_step ::
  "(string, aliases) dict \<Rightarrow> tool_delta \<Rightarrow> int \<Rightarrow> string \<Rightarrow> ('a assembler_scheme) builder_gen" where
  "tool_arguments_step al tc i resolved_name =
     gread (\<lambda>s.
       let state = map_of (tools_of s) i;
           arguments = (case td_arguments tc of Some a \<Rightarrow> a | None \<Rightarrow> [])
       in gseq (gdo (\<lambda>s. case (state, delta_extra tc) of
                   (Some st, Some d) \<Rightarrow> if tc_tool_id st \<noteq> [] then record_extra (tc_tool_id st) d s else s
                 | _ \<Rightarrow> s))
         (if arguments = [] then gskip
          else if (case state of None \<Rightarrow> True | Some st \<Rightarrow> \<not> tc_started st) \<and> py_strip resolved_name = []
          then gdo (on_blocks (\<lambda>m. case ensure_tool_state i m of
                 (st, m) \<Rightarrow> set_tool i (st\<lparr>tc_pre_start_args := tc_pre_start_args st @ arguments\<rparr>) m))
          else gseq (gdo (\<lambda>s. if state = None then on_blocks (\<lambda>m. snd (ensure_tool_state i m)) s else s))
                    (emit_tool_arg_delta al i arguments)))"

definition process_tool_call ::
  "(nat \<Rightarrow> string) \<Rightarrow> (string, aliases) dict \<Rightarrow> tool_delta \<Rightarrow> ('a assembler_scheme) builder_gen" where
  "process_tool_call uuid al tc =
     gread (\<lambda>s. let i = tool_index_of tc s in
       gseq (gdo (on_blocks (note_tool_delta tc i)))
            (gread (\<lambda>s.
               let state = map_of (tools_of s) i;
                   resolved_name = (case state of Some st \<Rightarrow> tc_name st | None \<Rightarrow> [])
               in gseq (gwhen ((case state of None \<Rightarrow> True | Some st \<Rightarrow> \<not> tc_started st)
                               \<and> py_strip resolved_name \<noteq> [])
                          (start_tool uuid al tc i state resolved_name))
                       (tool_arguments_step al tc i resolved_name))))"

section \<open>The flushes at the end of a stream\<close>

definition emit_flushed :: "py_error + (int \<times> string) list \<Rightarrow> sse_builder builder_gen" where
  "emit_flushed r =
     (case r of
        Inl e \<Rightarrow> graise e
      | Inr outs \<Rightarrow> gfor (\<lambda>(tool_index, out). emit_tool_delta tool_index out) outs)"

definition flush_task_args_gen :: "sse_builder builder_gen" where
  "flush_task_args_gen =
     gread (\<lambda>b. gseq (gdo (\<lambda>b. b\<lparr>sb_blocks := snd (flush_task_arg_buffers (sb_blocks b))\<rparr>))
                    (emit_flushed (fst (flush_task_arg_buffers (sb_blocks b)))))"

definition flush_alias_item ::
  "(string, aliases) dict \<Rightarrow> int \<times> string \<Rightarrow> ('a assembler_scheme) builder_gen" where
  "flush_alias_item al item =
     (case item of (tool_index, buffered_args) \<Rightarrow>
       if buffered_args = [] then gdo (pop_alias_buffer tool_index)
       else gread (\<lambda>s. case map_of (tools_of s) tool_index of
          None \<Rightarrow> gskip
        | Some st \<Rightarrow>
            if tc_name st = ''Task'' then gskip
            else (let a = aliases_for al (tc_name st)
                  in if a = [] then gskip
                     else gseq (on_sse (emit_tool_delta tool_index
                                  (case restore_aliased_tool_arguments buffered_args a of
                                     Some restored \<Rightarrow> restored | None \<Rightarrow> buffered_args)))
                               (gdo (pop_alias_buffer tool_index)))))"

definition flush_tool_argument_alias_buffers ::
  "(string, aliases) dict \<Rightarrow> ('a assembler_scheme) builder_gen" where
  "flush_tool_argument_alias_buffers al =
     gread (\<lambda>s. gfor (flush_alias_item al) (case as_alias_buffers s of Some d \<Rightarrow> d | None \<Rightarrow> []))"

section \<open>Provider usage\<close>

text \<open>A usage value is a mapping or an object; \<open>_field\<close> reads either.\<close>

record stream_usage =
  su_prompt_tokens :: json
  su_output_tokens :: json
  su_cache_read_input_tokens :: json

definition int_or_none :: "json \<Rightarrow> json" where
  "int_or_none v = (if as_int v \<noteq> None then v else JNull)"

definition usage_field :: "json \<Rightarrow> string \<Rightarrow> json" where
  "usage_field obj name = (case obj of JObj d \<Rightarrow> jget d name | _ \<Rightarrow> JNull)"

definition anthropic_input_tokens :: "stream_usage \<Rightarrow> json" where
  "anthropic_input_tokens u =
     (case as_int (su_prompt_tokens u) of
        None \<Rightarrow> JNull
      | Some p \<Rightarrow>
          if truthy (su_cache_read_input_tokens u)
          then JInt (max (p - (case as_int (su_cache_read_input_tokens u) of Some c \<Rightarrow> c | None \<Rightarrow> 0)) 0)
          else su_prompt_tokens u)"

definition extract_provider_stream_usage :: "json \<Rightarrow> stream_usage" where
  "extract_provider_stream_usage usage_info =
     (if usage_info = JNull
      then \<lparr>su_prompt_tokens = JNull, su_output_tokens = JNull, su_cache_read_input_tokens = JNull\<rparr>
      else
        (let details = usage_field usage_info ''prompt_tokens_details'';
             cached = (if details \<noteq> JNull then int_or_none (usage_field details ''cached_tokens'') else JNull);
             cached = (if cached = JNull then int_or_none (usage_field usage_info ''prompt_cache_hit_tokens'')
                       else cached)
         in \<lparr>su_prompt_tokens = int_or_none (usage_field usage_info ''prompt_tokens''),
             su_output_tokens = int_or_none (usage_field usage_info ''completion_tokens''),
             su_cache_read_input_tokens = (if truthy cached then cached else JNull)\<rparr>))"

end
