(* ===== verification/Tool_Tracking.thy ===== *)
theory Tool_Tracking
  imports Tool_Calls
begin

text \<open>
  The tool-call assembler keeps the checker in step: updates that only note names, ids and
  buffered arguments are invisible, a tool block is started at most once, and every argument
  fragment goes to a running block.
\<close>

section \<open>Invisible updates\<close>

definition runs :: "block_manager \<Rightarrow> int \<Rightarrow> bool" where
  "runs m k \<longleftrightarrow> (\<exists>st. map_of (tool_states m) k = Some st \<and> tc_started st)"

lemma tool_running_runs: "tool_running k b = runs (sb_blocks b) k"
  by (simp add: tool_running_def runs_def)

definition invisible :: "block_manager \<Rightarrow> block_manager \<Rightarrow> bool" where
  "invisible m m' \<longleftrightarrow>
     (blocks_sane m \<longrightarrow> blocks_sane m' \<and> live_blocks m' = live_blocks m \<and> used_indexes m' = used_indexes m) \<and>
     runs m' = runs m \<and> next_index m' = next_index m \<and> thinking_index m' = thinking_index m \<and>
     text_index m' = text_index m \<and> thinking_started m' = thinking_started m \<and> text_started m' = text_started m"

lemma invisible_refl [simp]: "invisible m m"
  by (simp add: invisible_def)

lemma invisible_trans: "invisible m m' \<Longrightarrow> invisible m' m'' \<Longrightarrow> invisible m m''"
  by (simp add: invisible_def)

lemma invisible_set_tool:
  assumes "quiet m i st"
  shows "invisible m (set_tool i st m)"
proof -
  have "runs (set_tool i st m) k = runs m k" for k
    using assms by (auto simp: quiet_def runs_def dict_simps split: option.splits)
  with quiet_set_tool [OF _ assms] show ?thesis by (auto simp: invisible_def)
qed

lemma quiet_new: "map_of (tool_states m) i = None \<Longrightarrow> quiet m i (new_tool_state j t n)"
  by (simp add: quiet_def new_tool_state_def)

lemma quiet_upd:
  assumes "map_of (tool_states m) i = Some st" and "tc_started st' = tc_started st"
    and "tc_block_index st' = tc_block_index st" and "tc_task_arg_buffer st' \<noteq> [] \<Longrightarrow> tc_started st"
  shows "quiet m i st'"
  using assms by (auto simp: quiet_def)

lemma invisible_ensure: "invisible m (snd (ensure_tool_state i m))"
  by (cases "map_of (tool_states m) i")
     (auto simp: ensure_tool_state_def Let_def intro: invisible_set_tool quiet_new)

lemma ensure_found:
  "map_of (tool_states (snd (ensure_tool_state i m))) i = Some (fst (ensure_tool_state i m))"
  by (auto simp: ensure_tool_state_def dict_simps Let_def split: option.splits)

definition buffers_ok :: "block_manager \<Rightarrow> bool" where
  "buffers_ok m \<longleftrightarrow> (\<forall>k st. map_of (tool_states m) k = Some st \<longrightarrow> tc_task_arg_buffer st \<noteq> [] \<longrightarrow> tc_started st)"

lemma sane_buffers: "blocks_sane m \<Longrightarrow> buffers_ok m"
  using saneD(11) by (auto simp: buffers_ok_def)

lemma invisible_upd_ensured:
  assumes "blocks_sane m"
    and "tc_started (f (fst (ensure_tool_state i m))) = tc_started (fst (ensure_tool_state i m))"
    and "tc_block_index (f (fst (ensure_tool_state i m))) = tc_block_index (fst (ensure_tool_state i m))"
    and "tc_task_arg_buffer (f (fst (ensure_tool_state i m))) = tc_task_arg_buffer (fst (ensure_tool_state i m))"
  shows "invisible m (set_tool i (f (fst (ensure_tool_state i m))) (snd (ensure_tool_state i m)))"
proof -
  let ?m = "snd (ensure_tool_state i m)"
  have "blocks_sane ?m" using invisible_ensure [of m i] assms(1) by (simp add: invisible_def)
  then have "quiet ?m i (f (fst (ensure_tool_state i m)))"
    using assms(2-4) saneD(11) [OF _ ensure_found] by (intro quiet_upd [OF ensure_found]) auto
  then show ?thesis by (rule invisible_trans [OF invisible_ensure invisible_set_tool])
qed

lemma invisible_set_id: "blocks_sane m \<Longrightarrow> invisible m (set_stream_tool_id i j m)"
  using invisible_upd_ensured [of m "\<lambda>st. st\<lparr>tc_tool_id := py_str j\<rparr>" i]
  by (cases "ensure_tool_state i m") (simp add: set_stream_tool_id_def)

lemma invisible_set_extra: "blocks_sane m \<Longrightarrow> invisible m (set_tool_extra_content i e m)"
  using invisible_upd_ensured [of m "\<lambda>st. st\<lparr>tc_extra_content := e\<rparr>" i]
  by (cases "ensure_tool_state i m"; cases e) (simp_all add: set_tool_extra_content_def)

lemma invisible_register_name: 
  assumes "blocks_sane m" shows "invisible m (register_tool_name i n m)"
proof (cases "map_of (tool_states m) i")
  case None
  then show ?thesis by (simp add: register_tool_name_def invisible_set_tool quiet_new)
next
  case (Some st)
  have "quiet m i (st\<lparr>tc_name := n'\<rparr>)" for n'
    using saneD(11) [OF assms Some] by (intro quiet_upd [OF Some]) auto
  with Some show ?thesis by (auto simp: register_tool_name_def Let_def intro: invisible_set_tool)
qed

lemma invisible_sane: "invisible m m' \<Longrightarrow> blocks_sane m \<Longrightarrow> blocks_sane m'"
  by (simp add: invisible_def)

lemma invisible_note: 
  assumes "blocks_sane m" shows "invisible m (note_tool_delta tc i m)"
proof -
  let ?m1 = "if td_id tc \<noteq> JNull then set_stream_tool_id i (td_id tc) m else m"
  let ?m2 = "set_tool_extra_content i (delta_extra tc) ?m1"
  have 1: "invisible m ?m1" using invisible_set_id [OF assms] by simp
  have 2: "invisible m ?m2" 
    by (rule invisible_trans [OF 1 invisible_set_extra [OF invisible_sane [OF 1 assms]]])
  have "invisible ?m2 (register_tool_name i n ?m2)" for n
    by (rule invisible_register_name [OF invisible_sane [OF 2 assms]])
  with 2 show ?thesis
    by (auto simp: note_tool_delta_def Let_def split: option.splits intro: invisible_trans)
qed

section \<open>Buffered Task arguments\<close>

lemma runs_in: "runs m i \<longleftrightarrow> (\<exists>st. map_of (tool_states m) i = Some st \<and> tc_started st)"
  by (simp add: runs_def)

lemma buffer_task_result:
  fixes args :: string
  assumes "map_of (tool_states m) i = Some st"
  defines "st' \<equiv> st\<lparr>tc_task_arg_buffer := tc_task_arg_buffer st @ args\<rparr>"
  shows "snd (buffer_task_args i args m) \<in> {m, set_tool i st' m,
           set_tool i (st'\<lparr>tc_task_args_emitted := True, tc_task_arg_buffer := []\<rparr>) (set_tool i st' m)}"
  unfolding st'_def
  by (cases "json_loads (tc_task_arg_buffer st @ args)";
      cases "normalize_task_run_in_background (the (json_loads (tc_task_arg_buffer st @ args)))")
     (simp_all add: buffer_task_args_def assms(1) Let_def)

lemma invisible_buffer_task:
  assumes "runs m i"
  shows "invisible m (snd (buffer_task_args i args m))"
proof -
  obtain st where st: "map_of (tool_states m) i = Some st" "tc_started st" using assms(1) by (auto simp: runs_def)
  define st' where "st' = st\<lparr>tc_task_arg_buffer := tc_task_arg_buffer st @ args\<rparr>"
  have s': "tc_started st'" "tc_block_index st' = tc_block_index st" using st by (simp_all add: st'_def)
  let ?m = "set_tool i st' m"
  have 1: "invisible m ?m" by (rule invisible_set_tool, rule quiet_upd [OF st(1)]) (simp_all add: st s')
  have m1: "map_of (tool_states ?m) i = Some st'" by (simp add: dict_simps)
  have "invisible ?m (set_tool i (st'\<lparr>tc_task_args_emitted := True, tc_task_arg_buffer := []\<rparr>) ?m)"
    by (rule invisible_set_tool, rule quiet_upd [OF m1]) (simp_all add: s')
  note 2 = invisible_trans [OF 1 this]
  from buffer_task_result [OF st(1), of args] 1 2 show ?thesis
    unfolding st'_def by (elim insertE emptyE) (simp_all only: invisible_refl)
qed

lemma invisible_tracks:
  assumes "builder.tracks b c" and "invisible (sb_blocks b) (sb_blocks b')"
  shows "builder.tracks b' c"
  using assms by (simp add: builder.tracks_def builder_views invisible_def)

lemma sound_set_blocks:
  assumes "\<And>b. builder_sane b \<Longrightarrow> P b \<Longrightarrow> invisible (sb_blocks b) (f (sb_blocks b))"
  shows "builder.sound a P (gdo (upd_blocks f))"
proof (rule builder.soundI)
  fix b c assume t: "builder.tracks b c" "P b"
  then have "builder_sane b" by (simp add: builder.tracks_def)
  then have "builder.tracks (upd_blocks f b) c"
    by (intro invisible_tracks [OF t(1)]) (simp add: assms t(2))
  then show "\<exists>c'. check_events a c (yields (gdo (upd_blocks f)) b) = Inr c' \<and>
      builder.tracks (after (gdo (upd_blocks f)) b) c'" by (simp add: gen_simps)
qed

lemma sound_parsed_task: "builder.sound a (tool_running i) (emit_parsed_task i r)"
proof (cases r)
  case (Inr x)
  then show ?thesis
    by (cases x) (simp_all add: emit_parsed_task_def builder.sound_gskip sound_tool_delta)
qed (simp add: emit_parsed_task_def builder.sound_graise)

lemma sound_task_arg: "builder.sound a (tool_running i) (task_arg_step i args)"
  unfolding task_arg_step_def
proof (rule builder.sound_gread, rule builder.sound_gseq [OF _ sound_parsed_task])
  fix b assume b: "builder_sane b" "tool_running i b"
  let ?f = "\<lambda>m. snd (buffer_task_args i args m)"
  have inv: "invisible (sb_blocks b) (?f (sb_blocks b))"
    using invisible_buffer_task b(2) by (simp add: tool_running_runs)
  show "builder.sound a (\<lambda>t. t = b) (gdo (upd_blocks ?f))"
    by (rule sound_set_blocks) (use inv in simp)
  show "tool_running i (after (gdo (upd_blocks ?f)) t)" if "t = b" for t
    using inv b(2) that by (simp add: gen_simps tool_running_runs invisible_def)
qed

text \<open>Which blocks run never shrinks.\<close>

definition grows :: "sse_builder builder_gen \<Rightarrow> bool" where
  "grows g \<longleftrightarrow> (\<forall>b k. runs (sb_blocks b) k \<longrightarrow> runs (sb_blocks (after g b)) k)"

lemma grows_gskip: "grows gskip" and grows_graise: "grows (graise e)"
  by (simp_all add: grows_def gen_simps)

lemma grows_gseq: "grows g \<Longrightarrow> grows h \<Longrightarrow> grows (gseq g h)"
  by (simp add: grows_def gen_simps)

lemma grows_gread: "(\<And>b. grows (g b)) \<Longrightarrow> grows (gread g)"
  by (simp add: grows_def gen_simps)

lemma grows_gwhen: "grows g \<Longrightarrow> grows (gwhen b g)"
  by (simp add: grows_def gen_simps)

lemma grows_gfor: "(\<And>x. x \<in> set xs \<Longrightarrow> grows (g x)) \<Longrightarrow> grows (gfor g xs)"
  by (induction xs) (auto simp: grows_gskip intro: grows_gseq)

lemma grows_gyield: "(\<And>b. tool_states (sb_blocks (snd (f b))) = tool_states (sb_blocks b)) \<Longrightarrow> grows (gyield f)"
  by (simp add: grows_def gen_simps runs_def)

lemma grows_gread_after: "(\<And>b k. runs (sb_blocks b) k \<Longrightarrow> runs (sb_blocks (after (g b) b)) k) \<Longrightarrow> grows (gread g)"
  by (simp add: grows_def gen_simps)

lemmas grows_rules = grows_gskip grows_graise grows_gseq grows_gread grows_gwhen grows_gfor

lemma grows_tool_delta: "grows (emit_tool_delta k s)"
  using tool_delta_runs(2) [of _ _ k s] by (simp add: grows_def tool_running_runs)

lemma grows_start_tool: "grows (gyield (start_tool_block k t n e))"
  by (auto simp: grows_def gen_simps runs_def start_tool_block_def allocate_index_def dict_simps
      new_tool_state_def split: option.splits)

lemma grows_text_blocks:
  "grows ensure_thinking_block" "grows ensure_text_block" "grows close_content_blocks"
  "grows (write_thinking s)" "grows (write_text s)"
  unfolding ensure_thinking_block_def ensure_text_block_def close_content_blocks_def
    write_thinking_def write_text_def
  by (intro grows_rules grows_gyield; simp add: block_steps)+

lemma grows_parsed_task: "grows (emit_parsed_task i r)"
  unfolding emit_parsed_task_def
  by (auto split: sum.splits option.splits intro: grows_rules grows_tool_delta)

lemma buffer_task_runs: 
  assumes "runs m k" shows "runs (snd (buffer_task_args i args m)) k"
proof (cases "map_of (tool_states m) i")
  case None
  with assms show ?thesis by (simp add: buffer_task_args_def)
next
  case (Some st)
  from buffer_task_result [OF Some, of args] assms Some show ?thesis
    by (elim insertE emptyE; simp only:) (auto simp: runs_def dict_simps)
qed

lemma grows_task_arg: "grows (task_arg_step i args)"
  unfolding task_arg_step_def
  by (rule grows_gread_after)
     (use grows_parsed_task in \<open>simp add: gen_simps grows_def buffer_task_runs\<close>)

section \<open>The assembler as a producer\<close>

text \<open>Every buffered alias text belongs to a running block.\<close>

definition alias_ok :: "'a assembler_scheme \<Rightarrow> bool" where
  "alias_ok s \<longleftrightarrow>
     (case as_alias_buffers s of
        None \<Rightarrow> True
      | Some d \<Rightarrow> fst ` set d \<subseteq> {k. runs (sb_blocks (as_sse s)) k})"

lemma put_sse_sel [simp]:
  "as_sse (put_sse b s) = b" "as_alias_buffers (put_sse b s) = as_alias_buffers s"
  "as_recorded (put_sse b s) = as_recorded s" "as_uuids (put_sse b s) = as_uuids s"
  by (simp_all add: put_sse_def)

interpretation asm: focused_source builder_sane builder_live builder_used as_sse put_sse alias_ok
  by unfold_locales simp

definition asm_grows :: "('a assembler_scheme) builder_gen \<Rightarrow> bool" where
  "asm_grows g \<longleftrightarrow>
     (\<forall>s k. runs (sb_blocks (as_sse s)) k \<longrightarrow> runs (sb_blocks (as_sse (after g s))) k)"

lemma asm_growsD: "asm_grows g \<Longrightarrow> runs (sb_blocks (as_sse s)) k \<Longrightarrow> runs (sb_blocks (as_sse (after g s))) k"
  by (simp add: asm_grows_def)

lemma asm_grows_gskip: "asm_grows gskip" and asm_grows_graise: "asm_grows (graise e)"
  by (simp_all add: asm_grows_def gen_simps)

lemma asm_grows_gseq: "asm_grows g \<Longrightarrow> asm_grows h \<Longrightarrow> asm_grows (gseq g h)"
  by (simp add: asm_grows_def gen_simps)

lemma asm_grows_gread: "(\<And>s. asm_grows (g s)) \<Longrightarrow> asm_grows (gread g)"
  by (simp add: asm_grows_def gen_simps)

lemma asm_grows_gwhen: "asm_grows g \<Longrightarrow> asm_grows (gwhen b g)"
  by (simp add: asm_grows_def gen_simps)

lemma asm_grows_gfor: "(\<And>x. x \<in> set xs \<Longrightarrow> asm_grows (g x)) \<Longrightarrow> asm_grows (gfor g xs)"
  by (induction xs) (auto simp: asm_grows_gskip intro: asm_grows_gseq)

lemma asm_grows_on_sse: "grows g \<Longrightarrow> asm_grows (on_sse g)"
  by (simp add: asm_grows_def grows_def gen_simps)

lemma asm_grows_gdo: "(\<And>s. as_sse (f s) = as_sse s) \<Longrightarrow> asm_grows (gdo f)"
  by (simp add: asm_grows_def gen_simps)

lemmas asm_grows_rules = asm_grows_gskip asm_grows_graise asm_grows_gseq asm_grows_gread
  asm_grows_gwhen asm_grows_gfor asm_grows_on_sse

lemma alias_ok_grow:
  assumes "alias_ok s" and "as_alias_buffers s' = as_alias_buffers s"
    and "\<And>k. runs (sb_blocks (as_sse s)) k \<Longrightarrow> runs (sb_blocks (as_sse s')) k"
  shows "alias_ok s'"
  using assms by (auto simp: alias_ok_def split: option.splits)

lemma asm_sound_on_sse:
  assumes "builder.sound a P g" and "grows g"
  shows "asm.whole.sound a (\<lambda>s. P (as_sse s)) (on_sse g)"
  using assms(2) by (intro asm.sound_focus [OF assms(1)]) (auto simp: grows_def elim: alias_ok_grow)

lemma asm_sound_same:
  assumes "\<And>s. as_sse (f s) = as_sse s" and "\<And>s. alias_ok s \<Longrightarrow> P s \<Longrightarrow> alias_ok (f s)"
  shows "asm.whole.sound a P (gdo f)"
  by (rule asm.sound_silent) (use assms in \<open>auto simp: asm.whole_sane_def\<close>)

lemma asm_sound_blocks:
  assumes "\<And>s. builder_sane (as_sse s) \<Longrightarrow> P s \<Longrightarrow> invisible (sb_blocks (as_sse s)) (f (sb_blocks (as_sse s)))"
  shows "asm.whole.sound a P (gdo (on_blocks f))"
proof (rule asm.sound_silent)
  fix s assume s: "asm.whole_sane s" "P s"
  then have inv: "invisible (sb_blocks (as_sse s)) (f (sb_blocks (as_sse s)))"
    using assms by (simp add: asm.whole_sane_def)
  have "alias_ok (on_blocks f s)"
    by (rule alias_ok_grow [of s]) (use s inv in \<open>auto simp: on_blocks_def asm.whole_sane_def invisible_def\<close>)
  with s inv show "asm.whole_sane (on_blocks f s) \<and> builder_live (as_sse (on_blocks f s)) = builder_live (as_sse s) \<and>
      builder_used (as_sse (on_blocks f s)) = builder_used (as_sse s)"
    by (simp add: asm.whole_sane_def on_blocks_def builder_views invisible_def)
qed

abbreviation running :: "int \<Rightarrow> 'a assembler_scheme \<Rightarrow> bool" where
  "running i s \<equiv> runs (sb_blocks (as_sse s)) i"

lemma asm_sound_delta: "asm.whole.sound a (running i) (on_sse (emit_tool_delta i t))"
  using asm_sound_on_sse [OF sound_tool_delta grows_tool_delta] by (simp add: tool_running_runs)

lemma asm_sound_task: "asm.whole.sound a (running i) (on_sse (task_arg_step i t))"
  using asm_sound_on_sse [OF sound_task_arg grows_task_arg] by (simp add: tool_running_runs)

lemma alias_ok_set: "alias_ok s \<Longrightarrow> running i s \<Longrightarrow> alias_ok (set_alias_buffer i t s)"
  by (auto simp: alias_ok_def set_alias_buffer_def dict_simps split: option.splits)

lemma alias_ok_pop: "alias_ok s \<Longrightarrow> alias_ok (pop_alias_buffer i s)"
  by (auto simp: alias_ok_def pop_alias_buffer_def dict_simps split: option.splits)

lemma alias_sse [simp]:
  "as_sse (set_alias_buffer i t s) = as_sse s" "as_sse (pop_alias_buffer i s) = as_sse s"
  "as_sse (record_extra t e s) = as_sse s" "as_alias_buffers (record_extra t e s) = as_alias_buffers s"
  by (simp_all add: set_alias_buffer_def pop_alias_buffer_def record_extra_def)

lemma alias_ok_record [simp]: "alias_ok (record_extra t e s) = alias_ok s"
  by (simp add: alias_ok_def split: option.split)

lemma alias_ok_uuids [simp]: "alias_ok (s\<lparr>as_uuids := n\<rparr>) = alias_ok s"
  by (simp add: alias_ok_def split: option.split)

lemma asm_sound_aliased: "asm.whole.sound a (running i) (emit_aliased_arg al i args)"
  unfolding emit_aliased_arg_def
proof (rule asm.whole.sound_gread)
  fix s :: "'a assembler_scheme" assume r: "running i s"
  have d: "asm.whole.sound a (\<lambda>t :: 'a assembler_scheme. t = s) (on_sse (emit_tool_delta i x))" for x
    by (rule asm.whole.sound_mono [OF asm_sound_delta]) (use r in simp)
  have p: "asm.whole.sound a (\<lambda>t :: 'a assembler_scheme. t = s)
      (gseq (gdo (pop_alias_buffer i)) (on_sse (emit_tool_delta i x)))" for x
    by (rule asm.whole.sound_gseq [OF asm_sound_same asm_sound_delta])
       (use r in \<open>auto simp: gen_simps intro: alias_ok_pop\<close>)
  have b: "asm.whole.sound a (\<lambda>t :: 'a assembler_scheme. t = s)
      (gdo (set_alias_buffer i x) :: ('a assembler_scheme) builder_gen)" for x
    by (rule asm_sound_same) (use r in \<open>auto intro: alias_ok_set\<close>)
  show "asm.whole.sound a (\<lambda>t. t = s)
     (case as_alias_buffers s of
       None \<Rightarrow> (case restore_aliased_tool_arguments args al of
            Some restored \<Rightarrow> on_sse (emit_tool_delta i restored) | None \<Rightarrow> gskip)
     | Some buffers \<Rightarrow>
         (let buffered_args = (case map_of buffers i of Some b \<Rightarrow> b | None \<Rightarrow> []) @ args
          in case restore_aliased_tool_arguments buffered_args al of
               None \<Rightarrow> gdo (set_alias_buffer i buffered_args)
             | Some restored \<Rightarrow> gseq (gdo (pop_alias_buffer i)) (on_sse (emit_tool_delta i restored))))"
    using d p b by (simp add: asm.whole.sound_gskip Let_def split: option.split)
qed

lemma asm_sound_arg_delta: "asm.whole.sound a (running i) (emit_tool_arg_delta al i args)"
proof (cases "args = []")
  case False
  have "asm.whole.sound a (\<lambda>t. t = s)
     (case map_of (tools_of s) i of None \<Rightarrow> gskip
      | Some st \<Rightarrow>
          if tc_name st = ''Task'' then on_sse (task_arg_step i args)
          else (let a = aliases_for al (tc_name st)
                in if a \<noteq> [] then emit_aliased_arg a i args else on_sse (emit_tool_delta i args)))"
    if "running i s" for s :: "'a assembler_scheme"
    using that asm.whole.sound_mono [OF asm_sound_task, of "\<lambda>t. t = s" i a args]
      asm.whole.sound_mono [OF asm_sound_aliased, of "\<lambda>t. t = s" i a _ args]
      asm.whole.sound_mono [OF asm_sound_delta, of "\<lambda>t. t = s" i a args]
    by (simp add: asm.whole.sound_gskip Let_def split: option.split)
  then have "asm.whole.sound a (running i) (gread (\<lambda>s :: 'a assembler_scheme. case map_of (tools_of s) i of None \<Rightarrow> gskip
      | Some st \<Rightarrow>
          if tc_name st = ''Task'' then on_sse (task_arg_step i args)
          else (let a = aliases_for al (tc_name st)
                in if a \<noteq> [] then emit_aliased_arg a i args else on_sse (emit_tool_delta i args))))"
    by (rule asm.whole.sound_gread)
  with False show ?thesis by (simp add: emit_tool_arg_delta_def)
qed (simp add: emit_tool_arg_delta_def asm.whole.sound_gskip)

lemma asm_grows_arg_delta: "asm_grows (emit_tool_arg_delta al i args)"
  unfolding emit_tool_arg_delta_def emit_aliased_arg_def Let_def
  by (auto split: option.splits
      intro!: asm_grows_rules asm_grows_gdo grows_task_arg grows_tool_delta)

section \<open>Whole tool-call deltas\<close>

lemma sound_heuristic: "builder.sound a (\<lambda>_. True) (iter_heuristic_tool_use_sse tu)"
  unfolding iter_heuristic_tool_use_sse_def Let_def
proof (rule builder.sound_then [OF sound_close_content], rule builder.soundI)
  fix b c assume t: "builder.tracks b c"
  note s = tracks_sane [OF t] and S = saneD [OF tracks_sane [OF t]]
  let ?i = "next_index (sb_blocks b)" and ?in = "json_dumps (JObj (normalized_heuristic_input tu))"
  let ?kw = "[(''id'', JStr (ht_id tu)), (''name'', JStr (ht_name tu))]"
  let ?b = "upd_blocks (\<lambda>m. snd (allocate_index m)) b"
  let ?g = "gread (\<lambda>b. gseq (gyield (\<lambda>b'. (content_block_start (next_index (sb_blocks b)) ''tool_use'' ?kw,
                  upd_blocks (\<lambda>m. snd (allocate_index m)) b')))
             (gseq (gyield (\<lambda>b'. (content_block_delta (next_index (sb_blocks b)) ''input_json_delta'' ?in, b')))
                   (gyield (\<lambda>b'. (content_block_stop (next_index (sb_blocks b)), b')))))
           :: sse_builder builder_gen"
  have "blocks_sane (sb_blocks ?b)"
    by (rule sane_frame [OF s]) (use S(4) in \<open>auto simp: allocate_index_def\<close>)
  moreover have "tool_live (sb_blocks ?b) = tool_live (sb_blocks b)"
    by (rule tool_live_cong) (simp add: allocate_index_def)
  ultimately have "\<exists>c'. check_events a c [content_block_start ?i ''tool_use'' ?kw,
      content_block_delta ?i ''input_json_delta'' ?in, content_block_stop ?i] = Inr c' \<and> builder.tracks ?b c'"
    by (intro builder.tracks_transient [OF t _ _ _ next_fresh, where k = "''tool_use''"])
       (auto simp: builder_views live_blocks_tool fun_eq_iff used_next [OF S(1)] allocate_index_def)
  then show "\<exists>c'. check_events a c (yields ?g b) = Inr c' \<and> builder.tracks (after ?g b) c'"
    by (simp add: gen_simps)
qed

lemma grows_heuristic: "grows (iter_heuristic_tool_use_sse tu)"
  unfolding iter_heuristic_tool_use_sse_def Let_def
  by (intro grows_rules grows_text_blocks grows_gyield) (simp_all add: allocate_index_def)

lemma asm_sound_pre_start: "asm.whole.sound a (running i) (flush_pre_start al i)"
  unfolding flush_pre_start_def
proof (rule asm.whole.sound_gread)
  fix s :: "'a assembler_scheme" assume s: "asm.whole_sane s" "running i s"
  then obtain st where st: "map_of (tools_of s) i = Some st" "tc_started st" by (auto simp: runs_def)
  have q: "quiet (sb_blocks (as_sse s)) i (st\<lparr>tc_pre_start_args := []\<rparr>)"
    by (rule quiet_upd [OF st(1)]) (simp_all add: st)
  have "asm.whole.sound a (\<lambda>t :: 'a assembler_scheme. t = s)
      (gseq (gdo (on_blocks (set_tool i (st\<lparr>tc_pre_start_args := []\<rparr>)))) (emit_tool_arg_delta al i (tc_pre_start_args st)))"
    by (rule asm.whole.sound_gseq [OF asm_sound_blocks asm_sound_arg_delta])
       (use invisible_set_tool [OF q] st in \<open>auto simp: gen_simps on_blocks_def runs_def dict_simps\<close>)
  then show "asm.whole.sound a (\<lambda>t. t = s) (case map_of (tools_of s) i of
      None \<Rightarrow> graise KeyError
    | Some st \<Rightarrow>
        if tc_pre_start_args st = [] then gskip
        else gseq (gdo (on_blocks (set_tool i (st\<lparr>tc_pre_start_args := []\<rparr>))))
                  (emit_tool_arg_delta al i (tc_pre_start_args st)))"
    using st by (simp add: asm.whole.sound_gskip)
qed

lemma asm_grows_pre_start: "asm_grows (flush_pre_start al i)"
  unfolding asm_grows_def
proof (intro allI impI)
  fix s :: "'a assembler_scheme" and k assume k: "running k s"
  show "running k (after (flush_pre_start al i) s)"
  proof (cases "map_of (tools_of s) i")
    case (Some st)
    have "running k (on_blocks (set_tool i (st\<lparr>tc_pre_start_args := []\<rparr>)) s)"
      using k Some by (auto simp: on_blocks_def runs_def dict_simps)
    with Some k show ?thesis
      by (simp add: flush_pre_start_def gen_simps asm_growsD [OF asm_grows_arg_delta])
  qed (use k in \<open>simp add: flush_pre_start_def gen_simps\<close>)
qed

lemma start_tool_running: "running i (after (on_sse (gyield (start_tool_block i t n e))) s)"
  using start_tool_runs [of i t n e "as_sse s"] by (simp add: gen_simps tool_running_runs)

lemma sound_start_fresh: "builder.sound a (\<lambda>b. \<not> runs (sb_blocks b) i) (gyield (start_tool_block i t n e))"
proof (rule builder.sound_mono [OF sound_start_tool])
  fix b assume "builder_sane b" "\<not> runs (sb_blocks b) i"
  then show "\<not> tool_running i b \<and>
      (\<forall>st. map_of (tool_states (sb_blocks b)) i = Some st \<longrightarrow> tc_task_arg_buffer st = [])"
    using saneD(11) [of "sb_blocks b" i] by (auto simp: tool_running_runs builder_views runs_def)
qed

lemma asm_sound_start_tool:
  "asm.whole.sound a (\<lambda>s :: 'a assembler_scheme. \<not> running i s) (start_tool uuid al tc i state rn)"
proof -
  let ?rec = "\<lambda>t e. gdo (\<lambda>s :: 'a assembler_scheme. case e of Some d \<Rightarrow> record_extra t d s | None \<Rightarrow> s)"
  let ?uu = "\<lambda>fresh. gdo (\<lambda>s :: 'a assembler_scheme. if fresh then s\<lparr>as_uuids := Suc (as_uuids s)\<rparr> else s)"
  let ?open = "\<lambda>t n e. on_sse (gyield (start_tool_block i t n e)) :: ('a assembler_scheme) builder_gen"
  have rest: "asm.whole.sound a (\<lambda>s. \<not> running i s) (gseq (?open t n e) (flush_pre_start al i))" for t n e
    by (rule asm.whole.sound_gseq [OF asm_sound_on_sse [OF sound_start_fresh grows_start_tool] asm_sound_pre_start])
       (rule start_tool_running)
  have rec: "asm.whole.sound a (\<lambda>s. \<not> running i s) (gseq (?rec t e) (gseq (?open t n e) (flush_pre_start al i)))" for t n e
    by (rule asm.whole.sound_gseq [OF asm_sound_same rest]) (simp_all add: gen_simps split: option.splits)
  have uu: "asm.whole.sound a (\<lambda>s. \<not> running i s)
      (gseq (?uu f) (gseq (?rec t e) (gseq (?open t n e) (flush_pre_start al i))))" for f t n e
    by (rule asm.whole.sound_gseq [OF asm_sound_same rec]) (simp_all add: gen_simps)
  show ?thesis
    unfolding start_tool_def Let_def
    by (rule asm.whole.sound_gread, rule asm.whole.sound_mono [OF uu]) simp
qed

lemma asm_grows_start: "asm_grows (start_tool uuid al tc i state rn)"
  unfolding start_tool_def Let_def
  by (intro asm_grows_rules asm_grows_gdo grows_start_tool asm_grows_pre_start) (simp_all split: option.split)

lemma start_tool_runs_after:
  "raised (start_tool uuid al tc i state rn) s = None \<Longrightarrow> running i (after (start_tool uuid al tc i state rn) s)"
  using start_tool_runs
  by (auto simp: start_tool_def Let_def gen_simps tool_running_runs
      intro!: asm_growsD [OF asm_grows_pre_start] split: if_splits)

lemma asm_sound_arguments:
  "asm.whole.sound a (\<lambda>s. py_strip rn \<noteq> [] \<longrightarrow> running i s) (tool_arguments_step al tc i rn)"
  unfolding tool_arguments_step_def Let_def
proof (rule asm.whole.sound_gread)
  fix s :: "'a assembler_scheme" assume s: "asm.whole_sane s" "py_strip rn \<noteq> [] \<longrightarrow> running i s"
  let ?state = "map_of (tools_of s) i" and ?args = "case td_arguments tc of Some a \<Rightarrow> a | None \<Rightarrow> []"
  let ?rec = "gdo (\<lambda>s :: 'a assembler_scheme. case (?state, delta_extra tc) of
      (Some st, Some d) \<Rightarrow> if tc_tool_id st \<noteq> [] then record_extra (tc_tool_id st) d s else s | _ \<Rightarrow> s)
      :: ('a assembler_scheme) builder_gen"
  let ?buf = "gdo (on_blocks (\<lambda>m. case ensure_tool_state i m of
      (st, m) \<Rightarrow> set_tool i (st\<lparr>tc_pre_start_args := tc_pre_start_args st @ ?args\<rparr>) m))
      :: ('a assembler_scheme) builder_gen"
  let ?emit = "gseq (gdo (\<lambda>s :: 'a assembler_scheme. if ?state = None then on_blocks (\<lambda>m. snd (ensure_tool_state i m)) s else s))
      (emit_tool_arg_delta al i ?args)"
  let ?idle = "(case ?state of None \<Rightarrow> True | Some st \<Rightarrow> \<not> tc_started st) \<and> py_strip rn = []"
  define P where "P = (\<lambda>t :: 'a assembler_scheme. as_sse t = as_sse s)"
  have 1: "asm.whole.sound a (\<lambda>t. t = s) ?rec"
    by (rule asm_sound_same) (auto split: option.splits)
  have "asm.whole.sound a P ?buf"
    by (rule asm_sound_blocks)
       (use invisible_upd_ensured [of _ "\<lambda>st. st\<lparr>tc_pre_start_args := tc_pre_start_args st @ ?args\<rparr>" i] in
        \<open>simp add: builder_views case_prod_beta\<close>)
  moreover have "asm.whole.sound a P ?emit" if "\<not> ?idle"
  proof -
    from that s(2) have r: "running i s" by (auto simp: runs_def split: option.splits)
    then have "?state \<noteq> None" by (auto simp: runs_def)
    then have "asm.whole.sound a P (gdo (\<lambda>s :: 'a assembler_scheme. if ?state = None then on_blocks (\<lambda>m. snd (ensure_tool_state i m)) s else s)
        :: ('a assembler_scheme) builder_gen)"
      by (intro asm_sound_same) auto
    then show ?thesis
      by (rule asm.whole.sound_gseq [OF _ asm_sound_arg_delta]) (use r \<open>?state \<noteq> None\<close> in \<open>auto simp: gen_simps P_def\<close>)
  qed
  ultimately have 2: "asm.whole.sound a P (if ?args = [] then gskip else if ?idle then ?buf else ?emit)"
    by (simp add: asm.whole.sound_gskip)
  show "asm.whole.sound a (\<lambda>t. t = s) (gseq ?rec (if ?args = [] then gskip else if ?idle then ?buf else ?emit))"
    by (rule asm.whole.sound_gseq [OF 1 2]) (auto simp: gen_simps P_def split: option.splits)
qed

lemma asm_sound_process: "asm.whole.sound a (\<lambda>_. True) (process_tool_call uuid al tc)"
  unfolding process_tool_call_def Let_def
proof (intro asm.whole.sound_gread, rule asm.whole.sound_gseq)
  fix s :: "'a assembler_scheme" assume "asm.whole_sane s"
  show "asm.whole.sound a (\<lambda>t. t = s) (gdo (on_blocks (note_tool_delta tc (tool_index_of tc s)))
      :: ('a assembler_scheme) builder_gen)"
    by (rule asm_sound_blocks) (simp add: invisible_note builder_views)
next
  fix i
  show "asm.whole.sound a (\<lambda>_. True) (gread (\<lambda>s :: 'a assembler_scheme.
      gseq (gwhen ((case map_of (tools_of s) i of None \<Rightarrow> True | Some st \<Rightarrow> \<not> tc_started st) \<and>
              py_strip (case map_of (tools_of s) i of Some st \<Rightarrow> tc_name st | None \<Rightarrow> []) \<noteq> [])
             (start_tool uuid al tc i (map_of (tools_of s) i) (case map_of (tools_of s) i of Some st \<Rightarrow> tc_name st | None \<Rightarrow> [])))
           (tool_arguments_step al tc i (case map_of (tools_of s) i of Some st \<Rightarrow> tc_name st | None \<Rightarrow> []))))"
  proof (rule asm.whole.sound_gread, rule asm.whole.sound_gseq [OF asm.whole.sound_gwhen asm_sound_arguments])
    fix s :: "'a assembler_scheme"
    let ?rn = "case map_of (tools_of s) i of Some st \<Rightarrow> tc_name st | None \<Rightarrow> []"
    let ?c = "(case map_of (tools_of s) i of None \<Rightarrow> True | Some st \<Rightarrow> \<not> tc_started st) \<and> py_strip ?rn \<noteq> []"
    show "asm.whole.sound a (\<lambda>t. t = s) (start_tool uuid al tc i (map_of (tools_of s) i) ?rn)" if ?c
      by (rule asm.whole.sound_mono [OF asm_sound_start_tool]) (use that in \<open>auto simp: runs_def split: option.splits\<close>)
    show "py_strip ?rn \<noteq> [] \<longrightarrow> running i (after (gwhen ?c (start_tool uuid al tc i (map_of (tools_of s) i) ?rn)) t)"
      if "t = s" "raised (gwhen ?c (start_tool uuid al tc i (map_of (tools_of s) i) ?rn)) t = None" for t
      using that start_tool_runs_after [of uuid al tc i "map_of (tools_of s) i" ?rn s]
      by (cases ?c) (auto simp: gen_simps runs_def split: option.splits)
  qed
qed simp

section \<open>The flushes\<close>

lemma flush_task_items_run:
  assumes "flush_task_items items m = (r, m')" and "distinct (dkeys items)"
    and "\<And>k st. (k, st) \<in> set items \<Longrightarrow> map_of (tool_states m) k = Some st" and "buffers_ok m"
  shows "invisible m m' \<and> (\<forall>outs. r = Inr outs \<longrightarrow> (\<forall>(k, t) \<in> set outs. runs m k))"
  using assms
proof (induction items arbitrary: m r m')
  case (Cons p items)
  obtain k st where p: "p = (k, st)" by (cases p)
  have m: "map_of (tool_states m) k = Some st" using Cons.prems(3) p by simp
  show ?case
  proof (cases "tc_task_arg_buffer st = [] \<or> tc_task_args_emitted st")
    case True
    with Cons.prems p have "flush_task_items items m = (r, m')" by simp
    from Cons.IH [OF this] Cons.prems show ?thesis by auto
  next
    case False
    then have run: "tc_started st" using Cons.prems(4) m by (auto simp: buffers_ok_def)
    let ?out = "case json_loads (tc_task_arg_buffer st) of None \<Rightarrow> Inr ''{}''
        | Some j \<Rightarrow> rbind (normalize_task_run_in_background j) (\<lambda>d. Inr (json_dumps (JObj d)))"
    show ?thesis
    proof (cases ?out)
      case (Inl e)
      with False Cons.prems(1) p show ?thesis by auto
    next
      case (Inr out)
      let ?st = "st\<lparr>tc_task_args_emitted := True, tc_task_arg_buffer := []\<rparr>" and ?r = "flush_task_items items"
      let ?m = "set_tool k ?st m"
      obtain r1 m1 where f: "flush_task_items items ?m = (r1, m1)" by fastforce
      have vis: "invisible m ?m" by (rule invisible_set_tool, rule quiet_upd [OF m]) (simp_all add: run)
      have "map_of (tool_states ?m) k' = Some st'" if "(k', st') \<in> set items" for k' st'
        using that Cons.prems(2,3) p by (auto simp: dict_simps rev_image_eqI)
      moreover have "buffers_ok ?m" using Cons.prems(4) by (auto simp: buffers_ok_def dict_simps)
      ultimately have IH: "invisible ?m m1 \<and> (\<forall>outs. r1 = Inr outs \<longrightarrow> (\<forall>(k, t) \<in> set outs. runs ?m k))"
        using Cons.IH [OF f] Cons.prems(2) by simp
      have "runs ?m = runs m" using vis by (simp add: invisible_def)
      moreover have "r = rbind r1 (\<lambda>outs. Inr ((k, out) # outs))" "m' = m1"
        using Cons.prems(1) False p f Inr by simp_all
      ultimately show ?thesis
        using IH invisible_trans [OF vis] m run by (auto simp: runs_def)
    qed
  qed
qed simp

lemma flush_task_run:
  assumes "blocks_sane m"
  shows "invisible m (snd (flush_task_arg_buffers m))"
    and "fst (flush_task_arg_buffers m) = Inr outs \<Longrightarrow> (k, t) \<in> set outs \<Longrightarrow> runs m k"
proof -
  obtain r m' where f: "flush_task_items (tool_states m) m = (r, m')" by fastforce
  have "invisible m m' \<and> (\<forall>outs. r = Inr outs \<longrightarrow> (\<forall>(k, t) \<in> set outs. runs m k))"
    by (rule flush_task_items_run [OF f]) (use saneD(5) [OF assms] sane_buffers [OF assms] in auto)
  with f show "invisible m (snd (flush_task_arg_buffers m))"
    "fst (flush_task_arg_buffers m) = Inr outs \<Longrightarrow> (k, t) \<in> set outs \<Longrightarrow> runs m k"
    by (auto simp: flush_task_arg_buffers_def)
qed

lemma sound_emit_all:
  "builder.sound a (\<lambda>b. \<forall>(k, t) \<in> set outs. runs (sb_blocks b) k)
     (gfor (\<lambda>(tool_index, out). emit_tool_delta tool_index out) outs)"
proof (rule builder.sound_gfor)
  fix x assume x: "x \<in> set outs"
  obtain k t where kt: "x = (k, t)" by (cases x)
  show "builder.sound a (\<lambda>b. \<forall>(k, t) \<in> set outs. runs (sb_blocks b) k) (case x of (k, t) \<Rightarrow> emit_tool_delta k t)"
    unfolding kt prod.case
    by (rule builder.sound_mono [OF sound_tool_delta]) (use x kt in \<open>auto simp: tool_running_runs\<close>)
  show "\<forall>(j, u) \<in> set outs. runs (sb_blocks (after (case x of (k, t) \<Rightarrow> emit_tool_delta k t) b)) j"
    if "\<forall>(k, t) \<in> set outs. runs (sb_blocks b) k" for b
    using that grows_tool_delta [of k t] by (fastforce simp: kt grows_def)
qed

lemma sound_flush_task: "builder.sound a (\<lambda>_. True) flush_task_args_gen"
  unfolding flush_task_args_gen_def
proof (rule builder.sound_gread)
  fix b assume "builder_sane b"
  then have s: "blocks_sane (sb_blocks b)" by (simp add: builder_views)
  let ?f = "flush_task_arg_buffers (sb_blocks b)"
  have inv: "invisible (sb_blocks b) (snd ?f)" by (rule flush_task_run(1) [OF s])
  have set_it: "builder.sound a (\<lambda>t. t = b) (gdo (upd_blocks (\<lambda>m. snd (flush_task_arg_buffers m))))"
    by (rule sound_set_blocks) (use inv in simp)
  show "builder.sound a (\<lambda>t. t = b) (gseq (gdo (upd_blocks (\<lambda>m. snd (flush_task_arg_buffers m)))) (emit_flushed (fst ?f)))"
  proof (cases "fst ?f")
    case (Inl e)
    then show ?thesis
      by (simp add: emit_flushed_def) (rule builder.sound_then [OF set_it builder.sound_graise])
  next
    case (Inr outs)
    have "runs (snd ?f) k" if "(k, t) \<in> set outs" for k t
      using flush_task_run(2) [OF s Inr that] inv by (simp add: invisible_def)
    then show ?thesis
      unfolding Inr emit_flushed_def sum.case
      by (intro builder.sound_gseq [OF set_it sound_emit_all]) (auto simp: gen_simps)
  qed
qed

lemma flush_task_grows:
  assumes "builder_sane b" and "runs (sb_blocks b) k"
  shows "runs (sb_blocks (after flush_task_args_gen b)) k"
proof -
  have "runs (snd (flush_task_arg_buffers (sb_blocks b))) k"
    using flush_task_run(1) [of "sb_blocks b"] assms by (simp add: builder_views invisible_def)
  moreover have "grows (emit_flushed r)" for r
    unfolding emit_flushed_def by (auto split: sum.split intro!: grows_rules grows_tool_delta)
  ultimately show ?thesis by (simp add: flush_task_args_gen_def gen_simps grows_def)
qed

lemma asm_sound_flush_task: "asm.whole.sound a (\<lambda>_. True) (on_sse flush_task_args_gen)"
proof (rule asm.sound_focus [OF sound_flush_task])
  fix s :: "'a assembler_scheme" assume s: "builder_sane (as_sse s)" "alias_ok s"
  show "alias_ok (put_sse (after flush_task_args_gen (as_sse s)) s)"
    by (rule alias_ok_grow [OF s(2)]) (simp_all add: flush_task_grows [OF s(1)])
qed

lemma asm_sound_flush_item: "asm.whole.sound a (\<lambda>s. running (fst item) s) (flush_alias_item al item)"
proof (cases item)
  case (Pair i args)
  have pop: "asm.whole.sound a P (gdo (pop_alias_buffer i) :: ('a assembler_scheme) builder_gen)" for P
    by (rule asm_sound_same) (simp_all add: alias_ok_pop)
  have d: "asm.whole.sound a (\<lambda>t. t = s) (gseq (on_sse (emit_tool_delta i x)) (gdo (pop_alias_buffer i)))"
    if "running i s" for s :: "'a assembler_scheme" and x
    by (rule asm.whole.sound_then [OF asm.whole.sound_mono [OF asm_sound_delta] pop]) (use that in simp)
  have "asm.whole.sound a (running i) (gread (\<lambda>s :: 'a assembler_scheme. case map_of (tools_of s) i of
          None \<Rightarrow> gskip
        | Some st \<Rightarrow>
            if tc_name st = ''Task'' then gskip
            else (let a = aliases_for al (tc_name st)
                  in if a = [] then gskip
                     else gseq (on_sse (emit_tool_delta i
                                  (case restore_aliased_tool_arguments args a of
                                     Some restored \<Rightarrow> restored | None \<Rightarrow> args)))
                               (gdo (pop_alias_buffer i)))))"
    by (rule asm.whole.sound_gread) (simp add: asm.whole.sound_gskip d Let_def split: option.split)
  with pop show ?thesis by (simp add: flush_alias_item_def Pair)
qed

lemma asm_grows_flush_item: "asm_grows (flush_alias_item al item)"
  unfolding flush_alias_item_def Let_def
  by (auto split: prod.splits option.splits intro!: asm_grows_rules asm_grows_gdo grows_tool_delta)

lemma asm_sound_flush_alias: "asm.whole.sound a (\<lambda>_. True) (flush_tool_argument_alias_buffers al)"
  unfolding flush_tool_argument_alias_buffers_def
proof (rule asm.whole.sound_gread)
  fix s :: "'a assembler_scheme" assume s: "asm.whole_sane s"
  let ?items = "case as_alias_buffers s of Some d \<Rightarrow> d | None \<Rightarrow> []"
  define P where "P = (\<lambda>t :: 'a assembler_scheme. \<forall>x \<in> set ?items. running (fst x) t)"
  have "asm.whole.sound a P (flush_alias_item al x)" if "x \<in> set ?items" for x
    by (rule asm.whole.sound_mono [OF asm_sound_flush_item]) (use that in \<open>unfold P_def, blast\<close>)
  moreover have "P (after (flush_alias_item al x) t)" if "P t" for x t
    using that asm_growsD [OF asm_grows_flush_item] unfolding P_def by blast
  ultimately have "asm.whole.sound a P (gfor (flush_alias_item al) ?items)"
    by (intro asm.whole.sound_gfor)
  moreover have "P s"
    using s by (auto simp: P_def asm.whole_sane_def alias_ok_def split: option.splits)
  ultimately show "asm.whole.sound a (\<lambda>t. t = s) (gfor (flush_alias_item al) ?items)"
    by (elim asm.whole.sound_mono) simp
qed

lemmas asm_sound_heuristic = asm_sound_on_sse [OF sound_heuristic grows_heuristic]
lemmas asm_sound_close_content = asm_sound_on_sse [OF sound_close_content grows_text_blocks(3)]
lemmas asm_sound_write_text = asm_sound_on_sse [OF sound_write_text grows_text_blocks(5)]
lemmas asm_sound_write_thinking = asm_sound_on_sse [OF sound_write_thinking grows_text_blocks(4)]

end
