(* ===== verification/OpenAI_Stream.thy ===== *)
theory OpenAI_Stream
  imports Think_Tags Tool_Tracking
begin

text \<open>
  One OpenAI-chat stream (\<open>providers/transports/openai_chat/stream.py\<close> and \<open>recovery.py\<close>): the
  state of \<open>OpenAIChatStreamRunner.run\<close>, the step on each upstream chunk, the tail of a finished
  stream, midstream recovery with its internal requests, the error tail, and the loop over
  upstream attempts.

  What is outside the code is in \<open>env\<close>: the upstream as a function of the number of requests
  sent so far and the request body, the clock, identifiers, the tokenizer, the JSON-schema
  validator, the message shown for an error.  Frames are pushed through the recovery session
  in the order they are yielded.
\<close>

section \<open>What the provider sends\<close>

record openai_tool_call =
  oc_index :: json
  oc_id :: json
  oc_name :: "string option"
  oc_arguments :: "string option"
  oc_source :: tool_call

record chat_delta =
  cd_reasoning :: "string option"
  cd_content :: "string option"
  cd_tool_calls :: "openai_tool_call list"

record chat_choice =
  ch_delta :: "chat_delta option"
  ch_finish_reason :: "string option"

record chat_chunk =
  ck_usage :: json
  ck_choice :: "chat_choice option"

text \<open>The result of \<open>create_stream\<close>: an error, or the body used, the chunks, and how it ended.\<close>

datatype upstream_result =
    OpenFails stream_exn
  | Streams jdict "chat_chunk list" "stream_exn option"

record env =
  en_bullet :: char
  en_uuid :: "nat \<Rightarrow> string"
  en_uuid8 :: "nat \<Rightarrow> string"
  en_encoder :: "(string \<Rightarrow> nat) option"
  en_thinking :: bool
  en_now :: "nat \<Rightarrow> rat"
  en_size :: "frame \<Rightarrow> nat"
  en_validator :: "jdict \<Rightarrow> jdict \<Rightarrow> schema_result"
  en_tools :: "jdict list"
  en_upstream :: "nat \<Rightarrow> jdict \<Rightarrow> upstream_result"
  en_aliases_of :: "jdict \<Rightarrow> (string, aliases) dict"
  en_error_message :: "stream_exn \<Rightarrow> string"
  en_message_id :: string
  en_model :: string
  en_input_tokens :: json
  en_body :: jdict

record runner = assembler +
  rn_think :: think_parser
  rn_heuristic :: heuristic_parser
  rn_finish_reason :: "string option"
  rn_usage :: json
  rn_aliases :: "(string, aliases) dict"
  rn_calls :: nat
  rn_body :: jdict

type_synonym session = "frame recovery_session"

definition new_builder :: "env \<Rightarrow> sse_builder" where
  "new_builder e = new_sse_builder (en_message_id e) (en_model e) (en_input_tokens e)"

text \<open>The locals of \<open>run\<close>, and what an early retry resets of them.\<close>

definition new_runner :: "env \<Rightarrow> runner" where
  "new_runner e =
     \<lparr>as_sse = new_builder e, as_alias_buffers = Some [], as_recorded = [], as_uuids = 0,
      rn_think = new_think_parser, rn_heuristic = new_heuristic_parser, rn_finish_reason = None,
      rn_usage = JNull, rn_aliases = [], rn_calls = 0, rn_body = en_body e\<rparr>"

definition reset_runner :: "env \<Rightarrow> runner \<Rightarrow> runner" where
  "reset_runner e r =
     r\<lparr>as_sse := new_builder e, as_alias_buffers := Some [], rn_think := new_think_parser,
       rn_heuristic := new_heuristic_parser\<lparr>hp_ids := hp_ids (rn_heuristic r)\<rparr>,
       rn_finish_reason := None, rn_usage := JNull, rn_aliases := []\<rparr>"

section \<open>One chunk\<close>

type_synonym runner_gen = "(runner, frame, py_error) gen"

definition heuristic_text :: "env \<Rightarrow> string \<Rightarrow> runner_gen" where
  "heuristic_text e content =
     gread (\<lambda>s. case hp_feed (en_bullet e) (en_uuid8 e) (rn_heuristic s) content of
       (filtered_text, detected_tools, h) \<Rightarrow>
         gseq (gdo (\<lambda>s. s\<lparr>rn_heuristic := h\<rparr>))
        (gseq (gwhen (filtered_text \<noteq> []) (on_sse (write_text filtered_text)))
              (gfor (\<lambda>tool_use. on_sse (iter_heuristic_tool_use_sse tool_use)) detected_tools)))"

definition content_part :: "env \<Rightarrow> content_chunk \<Rightarrow> runner_gen" where
  "content_part e part =
     (if chunk_type part = THINKING
      then gwhen (en_thinking e) (on_sse (write_thinking (chunk_content part)))
      else heuristic_text e (chunk_content part))"

definition content_delta :: "env \<Rightarrow> string \<Rightarrow> runner_gen" where
  "content_delta e content =
     gread (\<lambda>s. case feed (rn_think s) content of
       (parts, p) \<Rightarrow> gseq (gdo (\<lambda>s. s\<lparr>rn_think := p\<rparr>)) (gfor (content_part e) parts))"

definition tool_info :: "openai_tool_call \<Rightarrow> tool_delta" where
  "tool_info tc =
     \<lparr>td_index = oc_index tc, td_id = oc_id tc, td_name = oc_name tc, td_arguments = oc_arguments tc,
      td_extra_content = (case tool_call_extra_content (oc_source tc) of
                            Some d \<Rightarrow> if d \<noteq> [] then JObj d else JNull
                          | None \<Rightarrow> JNull)\<rparr>"

definition tool_calls_delta :: "env \<Rightarrow> openai_tool_call list \<Rightarrow> runner_gen" where
  "tool_calls_delta e tcs =
     gwhen (tcs \<noteq> [])
       (gseq (on_sse close_content_blocks)
             (gfor (\<lambda>tc. gread (\<lambda>s. process_tool_call (en_uuid e) (rn_aliases s) (tool_info tc))) tcs))"

definition delta_step :: "env \<Rightarrow> chat_delta \<Rightarrow> runner_gen" where
  "delta_step e delta =
     gseq (case cd_reasoning delta of
             Some r \<Rightarrow> gwhen (en_thinking e \<and> r \<noteq> []) (on_sse (write_thinking r))
           | None \<Rightarrow> gskip)
    (gseq (case cd_content delta of
             Some c \<Rightarrow> gwhen (c \<noteq> []) (content_delta e c)
           | None \<Rightarrow> gskip)
          (tool_calls_delta e (cd_tool_calls delta)))"

definition chunk_step :: "env \<Rightarrow> chat_chunk \<Rightarrow> runner_gen" where
  "chunk_step e chunk =
     gseq (gdo (\<lambda>s. if truthy (ck_usage chunk) then s\<lparr>rn_usage := ck_usage chunk\<rparr> else s))
       (case ck_choice chunk of
          None \<Rightarrow> gskip
        | Some choice \<Rightarrow>
            (case ch_delta choice of
               None \<Rightarrow> gskip
             | Some delta \<Rightarrow>
                 gseq (gdo (\<lambda>s. case ch_finish_reason choice of
                              Some f \<Rightarrow> if f \<noteq> [] then s\<lparr>rn_finish_reason := Some f\<rparr> else s
                            | None \<Rightarrow> s))
                      (delta_step e delta)))"

section \<open>The tail of a finished stream\<close>

definition flush_think :: "env \<Rightarrow> runner_gen" where
  "flush_think e =
     gread (\<lambda>s. case think_flush (rn_think s) of
       (remaining, p) \<Rightarrow>
         gseq (gdo (\<lambda>s. s\<lparr>rn_think := p\<rparr>))
           (case remaining of
              None \<Rightarrow> gskip
            | Some c \<Rightarrow>
                if chunk_type c = THINKING then gwhen (en_thinking e) (on_sse (write_thinking (chunk_content c)))
                else on_sse (write_text (chunk_content c))))"

definition flush_heuristic :: "runner_gen" where
  "flush_heuristic =
     gread (\<lambda>s. case hp_flush (rn_heuristic s) of
       (tools, h) \<Rightarrow>
         gseq (gdo (\<lambda>s. s\<lparr>rn_heuristic := h\<rparr>))
              (gfor (\<lambda>tool_use. on_sse (iter_heuristic_tool_use_sse tool_use)) tools))"

text \<open>A stream without visible content gets a text block with one space.\<close>

definition needs_placeholder :: "sse_builder \<Rightarrow> bool" where
  "needs_placeholder b =
     (let has_started_tool = list_ex tc_started (dvalues (tool_states (sb_blocks b)));
          has_content_blocks = (text_index (sb_blocks b) \<noteq> -1 \<or> thinking_index (sb_blocks b) \<noteq> -1
                                \<or> has_started_tool)
      in \<not> has_content_blocks \<or>
         (\<not> has_started_tool \<and> py_strip (accumulated_text b) = [] \<and> py_strip (accumulated_reasoning b) \<noteq> []))"

definition final_usage :: "env \<Rightarrow> runner \<Rightarrow> frame" where
  "final_usage e s =
     (let usage = extract_provider_stream_usage (rn_usage s);
          output_tokens = (if su_output_tokens usage \<noteq> JNull then su_output_tokens usage
                           else JInt (int (estimate_output_tokens (en_encoder e) (as_sse s))))
      in message_delta (as_sse s) (map_stop_reason (rn_finish_reason s)) output_tokens
           (anthropic_input_tokens usage) (su_cache_read_input_tokens usage))"

definition finish_blocks :: "env \<Rightarrow> runner_gen" where
  "finish_blocks e =
     gseq (flush_think e)
    (gseq flush_heuristic
    (gseq (gread (\<lambda>s. gwhen (needs_placeholder (as_sse s)) (on_sse (write_text '' ''))))
    (gseq (gread (\<lambda>s. flush_tool_argument_alias_buffers (rn_aliases s)))
          (on_sse flush_task_args_gen))))"

definition finish_stream :: "env \<Rightarrow> runner_gen" where
  "finish_stream e =
     gseq (finish_blocks e)
    (gseq (on_sse close_all_blocks)
    (gseq (gyield (\<lambda>s. (final_usage e s, s)))
          (gyield (\<lambda>s. (message_stop, s)))))"

section \<open>Midstream recovery\<close>

text \<open>\<open>collect_text\<close>: the text and reasoning of one internal request, with up to \<open>n\<close> attempts.\<close>

definition chunk_text :: "(chat_delta \<Rightarrow> string option) \<Rightarrow> chat_chunk \<Rightarrow> string" where
  "chunk_text f chunk =
     (case Option.bind (Option.bind (ck_choice chunk) ch_delta) f of Some t \<Rightarrow> t | None \<Rightarrow> [])"

fun collect_text ::
  "env \<Rightarrow> jdict \<Rightarrow> nat \<Rightarrow> stream_exn option \<Rightarrow> nat \<Rightarrow> (stream_exn + string \<times> string) \<times> nat" where
  "collect_text e body 0 last_error calls =
     (case last_error of Some x \<Rightarrow> Inl x | None \<Rightarrow> Inr ([], []), calls)"
| "collect_text e body (Suc n) last_error calls =
     (let failed = (\<lambda>x. if is_retryable_stream_error x then collect_text e body n (Some x) (Suc calls)
                        else (Inl x, Suc calls))
      in case en_upstream e calls body of
           OpenFails x \<Rightarrow> failed x
         | Streams _ chunks (Some x) \<Rightarrow> failed x
         | Streams _ chunks None \<Rightarrow>
             (Inr (concat (map (chunk_text cd_content) chunks), concat (map (chunk_text cd_reasoning) chunks)),
              Suc calls))"

text \<open>Why a recovery yields nothing: \<open>None\<close> in the code, or an exception of an internal request.\<close>

datatype recovery_stop = NotRecoverable | RecoveryRaised stream_exn | RecoveryPython py_error

type_synonym recovery_gen = "(runner, frame, recovery_stop) gen"

definition with_python :: "runner_gen \<Rightarrow> recovery_gen" where
  "with_python g s = (case g s of (es, r, s') \<Rightarrow> (es, map_option RecoveryPython r, s'))"

definition collecting :: "env \<Rightarrow> jdict \<Rightarrow> (string \<times> string \<Rightarrow> recovery_gen) \<Rightarrow> recovery_gen" where
  "collecting e body k =
     gread (\<lambda>s. case collect_text e body MIDSTREAM_RECOVERY_ATTEMPTS None (rn_calls s) of
       (r, calls) \<Rightarrow>
         gseq (gdo (\<lambda>s. s\<lparr>rn_calls := calls\<rparr>))
           (case r of Inl x \<Rightarrow> graise (RecoveryRaised x) | Inr texts \<Rightarrow> k texts))"

definition repair_prefix_of :: "tool_call_state \<Rightarrow> int \<Rightarrow> runner \<Rightarrow> string" where
  "repair_prefix_of st tool_index s =
     (let emitted_prefix = concat (tc_contents st);
          p = (if emitted_prefix = [] \<and> tc_name st = ''Task'' \<and> tc_task_arg_buffer st \<noteq> []
               then tc_task_arg_buffer st else emitted_prefix)
      in case Option.bind (as_alias_buffers s) (\<lambda>d. map_of d tool_index) of
           Some b \<Rightarrow> if p = [] then b else p
         | None \<Rightarrow> p)"

text \<open>\<open>for attempt in range(MIDSTREAM_RECOVERY_ATTEMPTS)\<close>; without an accepted suffix, \<open>None\<close>.\<close>

fun repair_attempts ::
  "env \<Rightarrow> nat \<Rightarrow> jdict \<Rightarrow> string \<Rightarrow> string \<Rightarrow> (string \<Rightarrow> recovery_gen) \<Rightarrow> recovery_gen" where
  "repair_attempts e 0 body pre name k = graise NotRecoverable"
| "repair_attempts e (Suc n) body pre name k =
     collecting e body (\<lambda>(txt, _).
       case accept_tool_json_repair (en_validator e) pre txt name (tool_schemas_by_name (en_tools e)) of
         Some repair \<Rightarrow> k (tr_suffix repair)
       | None \<Rightarrow> repair_attempts e n body pre name k)"

definition repair_tool :: "env \<Rightarrow> jdict \<Rightarrow> int \<times> tool_call_state \<Rightarrow> recovery_gen" where
  "repair_tool e body item =
     (case item of (tool_index, st) \<Rightarrow>
       gread (\<lambda>s.
         let schemas = tool_schemas_by_name (en_tools e);
             emitted_prefix = concat (tc_contents st);
             repair_prefix = repair_prefix_of st tool_index s;
             emit = (\<lambda>t. gwhen (t \<noteq> []) (with_python (on_sse (emit_tool_delta tool_index t))))
         in if parse_complete_tool_input (en_validator e) repair_prefix (tc_name st) schemas \<noteq> None
            then gwhen (emitted_prefix = []) (emit repair_prefix)
            else repair_attempts e MIDSTREAM_RECOVERY_ATTEMPTS
                   (make_openai_tool_repair_body body (tc_name st) repair_prefix
                      (map_option ts_input_schema (map_of schemas (tc_name st))))
                   repair_prefix (tc_name st)
                   (\<lambda>accepted_suffix. emit (if emitted_prefix \<noteq> [] then accepted_suffix
                                            else repair_prefix @ accepted_suffix))))"

definition repair_tool_args :: "env \<Rightarrow> jdict \<Rightarrow> recovery_gen" where
  "repair_tool_args e body =
     gread (\<lambda>s. gseq (gfor (repair_tool e body) (started_tool_states (as_sse s)))
       (gread (\<lambda>s. if all_started_tools_complete (en_validator e) (en_tools e) (as_sse s) then gskip
                   else graise NotRecoverable)))"

definition recovery_tail :: "env \<Rightarrow> string \<Rightarrow> recovery_gen" where
  "recovery_tail e stop_reason =
     gseq (with_python (on_sse close_all_blocks))
    (gseq (gyield (\<lambda>s. (message_delta (as_sse s) stop_reason
                          (JInt (int (estimate_output_tokens (en_encoder e) (as_sse s)))) JNull JNull, s)))
          (gyield (\<lambda>s. (message_stop, s))))"

definition continue_text :: "env \<Rightarrow> string option \<Rightarrow> string option \<Rightarrow> recovery_gen" where
  "continue_text e thinking_suffix text_suffix =
     (let has = (\<lambda>t. t \<noteq> None \<and> t \<noteq> Some [])
      in if \<not> has thinking_suffix \<and> \<not> has text_suffix then graise NotRecoverable
         else
           gseq (gwhen (has thinking_suffix) (with_python (on_sse (write_thinking (the thinking_suffix)))))
          (gseq (gwhen (has text_suffix) (with_python (on_sse (write_text (the text_suffix)))))
                (recovery_tail e ''end_turn'')))"

definition recovery_events :: "env \<Rightarrow> stream_exn \<Rightarrow> recovery_gen" where
  "recovery_events e error =
     gread (\<lambda>s.
       if \<not> is_retryable_stream_error error then graise NotRecoverable
       else if has_emitted_tool_block (sb_blocks (as_sse s)) then
         gseq (if all_started_tools_complete (en_validator e) (en_tools e) (as_sse s) then gskip
               else repair_tool_args e (rn_body s))
              (recovery_tail e ''tool_use'')
       else
         (let partial_text = accumulated_text (as_sse s); partial_thinking = accumulated_reasoning (as_sse s)
          in if partial_text = [] \<and> partial_thinking = [] then graise NotRecoverable
             else collecting e (make_openai_text_recovery_body (rn_body s) partial_text)
                    (\<lambda>(txt, thinking). continue_text e (continuation_suffix partial_thinking thinking)
                                          (continuation_suffix partial_text txt))))"

definition emit_error_tail :: "string \<Rightarrow> runner_gen" where
  "emit_error_tail error_message =
     gseq (on_sse close_all_blocks)
    (gseq (gread (\<lambda>s. if has_emitted_tool_block (sb_blocks (as_sse s))
                      then gyield (\<lambda>s. (emit_top_level_error error_message, s))
                      else on_sse (emit_error error_message)))
    (gseq (gyield (\<lambda>s. (message_delta (as_sse s) ''end_turn'' (JInt 1) JNull JNull, s)))
          (gyield (\<lambda>s. (message_stop, s)))))"

section \<open>The run\<close>

fun push_frames :: "env \<Rightarrow> frame list \<Rightarrow> session \<Rightarrow> frame list \<times> session" where
  "push_frames e [] s = ([], s)"
| "push_frames e (f # fs) s =
     (let (out, s) = session_push (en_now e) (en_size e) f s; (out', s) = push_frames e fs s
      in (out @ out', s))"

text \<open>
  The exception handler: what goes out, and the state to go on with after an early retry.
\<close>

definition final_error :: "env \<Rightarrow> stream_exn \<Rightarrow> failure_decision \<Rightarrow> runner \<Rightarrow> session \<Rightarrow> frame list" where
  "final_error e error decision r s =
     (let message = en_error_message e error
      in if \<not> fd_committed decision \<and> fd_has_buffered decision
         then fst (session_flush s) @ yields (emit_error_tail message) r
         else if \<not> fd_committed decision
         then yields (emit_error_tail message) (r\<lparr>as_sse := new_builder e\<rparr>)
         else yields (emit_error_tail message) r)"

definition on_failure ::
  "env \<Rightarrow> stream_exn \<Rightarrow> bool \<Rightarrow> runner \<Rightarrow> session \<Rightarrow> frame list \<times> (runner \<times> session) option" where
  "on_failure e error stream_opened r s =
     (let b = as_sse r;
          generated_output = has_committed_sse_output b;
          complete_tool_salvageable = (generated_output \<and> has_emitted_tool_block (sb_blocks b)
            \<and> all_started_tools_complete (en_validator e) (en_tools e) b);
          (decision, s) = advance_failure error stream_opened generated_output complete_tool_salvageable s
      in case fd_action decision of
           EARLY_RETRY \<Rightarrow>
             ([], Some (reset_runner e r, s))
         | MIDSTREAM_RECOVERY \<Rightarrow>
             (case recovery_events e error r of
                (events, None, _) \<Rightarrow> (fst (flush_uncommitted decision s) @ events, None)
              | (_, Some _, r') \<Rightarrow> (final_error e error decision r' s, None))
         | FINAL_ERROR \<Rightarrow> (final_error e error decision r s, None))"

lemma on_failure_retry:
  assumes "on_failure e error opened r s = (out, Some (r', s'))"
  shows "rs_early_retries s' = Suc (rs_early_retries s)" "rs_early_retries s < EARLY_TRANSPARENT_MAX_RETRIES"
    and "out = []" "\<not> hb_committed (rs_holdback s)"
    and "r' = reset_runner e r"
    and "rs_holdback s' = new_holdback (hb_reads (rs_holdback s))"
  using assms
  by (auto simp: on_failure_def advance_failure_def reset_holdback_def Let_def
      split: if_splits option.splits prod.splits)

text \<open>One upstream attempt: how it ended, what went out, and the states reached.\<close>

definition attempt ::
  "env \<Rightarrow> runner \<Rightarrow> session \<Rightarrow> (bool \<times> stream_exn) option \<times> frame list \<times> runner \<times> session" where
  "attempt e r s =
     (let r = r\<lparr>rn_calls := Suc (rn_calls r)\<rparr>
      in case en_upstream e (rn_calls r - 1) (rn_body r) of
           OpenFails x \<Rightarrow> (Some (False, x), [], r, s)
         | Streams body chunks ending \<Rightarrow>
             (let r = r\<lparr>rn_body := body, rn_aliases := en_aliases_of e body\<rparr>
              in case gfor (chunk_step e) chunks r of
                   (frames, failed, r) \<Rightarrow>
                     (case push_frames e frames s of
                        (out, s) \<Rightarrow>
                          (case failed of
                             Some x \<Rightarrow> (Some (True, PythonError x), out, r, s)
                           | None \<Rightarrow>
                               (case ending of
                                  Some x \<Rightarrow> (Some (True, x), out, r, s)
                                | None \<Rightarrow>
                                    if rn_finish_reason r = None
                                    then (Some (True, TruncatedProviderStreamError), out, r, s)
                                    else (None, out, r, s))))))"

lemma push_frames_retries: "push_frames e fs s = (out, s') \<Longrightarrow> rs_early_retries s' = rs_early_retries s"
  by (induction fs arbitrary: s out) (auto simp: session_push_def split: prod.splits)

lemma attempt_retries: "attempt e r s = (x, out, r', s') \<Longrightarrow> rs_early_retries s' = rs_early_retries s"
  by (auto simp: attempt_def Let_def split: upstream_result.splits prod.splits option.splits if_splits
      dest: push_frames_retries)

lemma loop_measure:
  "(x, y) = attempt e r s \<Longrightarrow> y = (out, z) \<Longrightarrow> z = (r1, s1) \<Longrightarrow>
   (out', w) = on_failure e error opened r1 s1 \<Longrightarrow> w = Some (r', s') \<Longrightarrow>
   EARLY_TRANSPARENT_MAX_RETRIES - rs_early_retries s' < EARLY_TRANSPARENT_MAX_RETRIES - rs_early_retries s"
  using on_failure_retry(1,2) [of e error opened r1 s1 out' r' s'] attempt_retries [of e r s x out r1 s1]
  by simp

text \<open>The loop ends: every pass after the first is an early retry, and there are four at most.\<close>

function run_loop :: "env \<Rightarrow> runner \<Rightarrow> session \<Rightarrow> frame list \<times> py_error option" where
  "run_loop e r s =
     (case attempt e r s of
        (None, out, r, s) \<Rightarrow>
          (case finish_stream e r of
             (frames, failed, _) \<Rightarrow>
               (case push_frames e frames s of
                  (out', s) \<Rightarrow>
                    (case failed of
                       Some x \<Rightarrow> (out @ out', Some x)
                     | None \<Rightarrow> (out @ out' @ fst (session_flush s), None))))
      | (Some (opened, x), out, r, s) \<Rightarrow>
          (case on_failure e x opened r s of
             (out', None) \<Rightarrow> (out @ out', None)
           | (out', Some (r', s')) \<Rightarrow>
               (case run_loop e r' s' of (rest, failed) \<Rightarrow> (out @ out' @ rest, failed))))"
  by pat_completeness auto
termination
  by (relation "measure (\<lambda>(e, r, s). EARLY_TRANSPARENT_MAX_RETRIES - rs_early_retries s)")
     (auto dest: loop_measure)

declare run_loop.simps [simp del]

definition run :: "env \<Rightarrow> frame list \<times> py_error option" where
  "run e =
     (let r = new_runner e
      in case run_loop e r new_recovery_session of (out, failed) \<Rightarrow> (message_start (as_sse r) # out, failed))"

end
