(* ===== verification/OpenAI_Contract.thy ===== *)
theory OpenAI_Contract
  imports OpenAI_Stream
begin

text \<open>
  The whole OpenAI-chat run keeps the stream contract: every step on a chunk and every tail is a
  sound step of the producer, the holdback only delays frames, and an early retry forgets only
  frames that never went out.
\<close>

section \<open>The steps on a chunk\<close>

abbreviation rsound :: "bool \<Rightarrow> (runner \<Rightarrow> bool) \<Rightarrow> (runner \<Rightarrow> frame list \<times> 'x option \<times> runner) \<Rightarrow> bool" where
  "rsound \<equiv> asm.whole.sound"

lemmas rs_then = asm.whole.sound_then
lemmas rs_read = asm.whole.sound_gread
lemmas rs_when = asm.whole.sound_gwhen
lemmas rs_skip = asm.whole.sound_gskip
lemmas rs_raise = asm.whole.sound_graise
lemmas rs_mono = asm.whole.sound_mono

lemma rs_any: "rsound a (\<lambda>_. True) g \<Longrightarrow> rsound a P g"
  by (erule rs_mono) simp

lemma rs_read_any: "(\<And>s. rsound a (\<lambda>_. True) (g s)) \<Longrightarrow> rsound a P (gread g)"
  by (rule rs_read, rule rs_any)

lemma rs_for:
  assumes "\<And>x. rsound a (\<lambda>_. True) (g x)"
  shows "rsound a P (gfor g xs)"
  by (rule rs_any, rule asm.whole.sound_gfor) (simp_all add: assms)

text \<open>Updates of the runner's other fields are invisible.\<close>

lemma rs_field:
  assumes "\<And>s. as_sse (f s) = as_sse s" and "\<And>s. as_alias_buffers (f s) = as_alias_buffers s"
  shows "rsound a P (gdo f)"
  by (rule asm_sound_same) (simp_all add: assms alias_ok_grow [OF _ assms(2)])

lemma rs_write: "rsound a P (on_sse (write_text t))" "rsound a P (on_sse (write_thinking t))"
  "rsound a P (on_sse close_content_blocks)" "rsound a P (on_sse (iter_heuristic_tool_use_sse tu))"
  using rs_any [OF asm_sound_write_text] rs_any [OF asm_sound_write_thinking]
    rs_any [OF asm_sound_close_content] rs_any [OF asm_sound_heuristic] by blast+

lemmas rs_process = rs_any [OF asm_sound_process]
lemmas rs_flush_alias = rs_any [OF asm_sound_flush_alias]
lemmas rs_flush_task = rs_any [OF asm_sound_flush_task]

lemmas rs_rules = rs_then rs_when rs_skip rs_field rs_for rs_write rs_read_any

lemma rs_heuristic_text: "rsound a P (heuristic_text e t)"
  unfolding heuristic_text_def
  by (rule rs_read_any, simp only: split_beta) (intro rs_rules; simp)

lemma rs_content_part: "rsound a P (content_part e part)"
  unfolding content_part_def by (simp add: rs_heuristic_text rs_when rs_write)

lemma rs_content_delta: "rsound a P (content_delta e t)"
  unfolding content_delta_def
  by (rule rs_read_any, simp only: split_beta) (intro rs_rules rs_content_part; simp)

lemma rs_tool_calls: "rsound a P (tool_calls_delta e tcs)"
  unfolding tool_calls_delta_def by (intro rs_rules rs_process)

lemma rs_delta: "rsound a P (delta_step e d)"
  unfolding delta_step_def
  by (cases "cd_reasoning d"; cases "cd_content d"; simp only: option.case)
     (intro rs_rules rs_content_delta rs_tool_calls)+

lemma rs_chunk: "rsound a P (chunk_step e c)"
proof -
  have u: "rsound a P (gdo (\<lambda>s. if truthy (ck_usage c) then s\<lparr>rn_usage := ck_usage c\<rparr> else s) :: runner_gen)" for P
    by (rule rs_field) simp_all
  have f: "rsound a P (gdo (\<lambda>s. case x of Some f \<Rightarrow> if f \<noteq> [] then s\<lparr>rn_finish_reason := Some f\<rparr> else s | None \<Rightarrow> s) :: runner_gen)" for P x
    by (rule rs_field) (simp_all split: option.split)
  show ?thesis
    unfolding chunk_step_def
    by (cases "ck_choice c"; cases "ch_delta (the (ck_choice c))"; simp)
       (intro rs_then u f rs_skip rs_delta)+
qed

lemma rs_chunks: "rsound a P (gfor (chunk_step e) cs)"
  by (intro rs_for rs_chunk)

section \<open>The tail of a finished stream\<close>

lemma rs_flush_think: "rsound a P (flush_think e)"
  unfolding flush_think_def
  by (rule rs_read_any, simp only: split_beta, rule rs_then, rule rs_field)
     (auto split: option.split intro!: rs_skip rs_when rs_write)

lemma rs_flush_heuristic: "rsound a P flush_heuristic"
  unfolding flush_heuristic_def
  by (rule rs_read_any, simp only: split_beta) (intro rs_rules; simp)

lemma rs_finish_blocks: "rsound a P (finish_blocks e)"
  unfolding finish_blocks_def
  by (intro rs_rules rs_flush_think rs_flush_heuristic rs_flush_alias rs_flush_task)

section \<open>A stream that was read to its end finishes without an exception\<close>

text \<open>
  The only exception the tail could raise is the \<open>AttributeError\<close> of a buffered \<open>Task\<close> argument
  that parses to something else than an object; but a buffer that parses is emitted, or has
  raised already, in the step that completed it.
\<close>

definition unparsed :: "block_manager \<Rightarrow> bool" where
  "unparsed m \<longleftrightarrow> (\<forall>k st. map_of (tool_states m) k = Some st \<longrightarrow> json_loads (tc_task_arg_buffer st) = None)"

abbreviation quiet_bufs :: "'a assembler_scheme \<Rightarrow> bool" where
  "quiet_bufs s \<equiv> unparsed (sb_blocks (as_sse s))"

definition calm :: "('a assembler_scheme \<Rightarrow> frame list \<times> 'x option \<times> 'a assembler_scheme) \<Rightarrow> bool" where
  "calm g \<longleftrightarrow> (\<forall>s. quiet_bufs s \<longrightarrow> raised g s = None \<longrightarrow> quiet_bufs (after g s))"

definition bcalm :: "sse_builder builder_gen \<Rightarrow> bool" where
  "bcalm g \<longleftrightarrow> (\<forall>b. unparsed (sb_blocks b) \<longrightarrow> raised g b = None \<longrightarrow> unparsed (sb_blocks (after g b)))"

lemma loads_empty: "json_loads [] = None"
  by code_simp

lemma unparsed_new: "unparsed new_block_manager"
  by (simp add: unparsed_def new_block_manager_def)

lemma unparsed_set: "unparsed m \<Longrightarrow> json_loads (tc_task_arg_buffer st) = None \<Longrightarrow> unparsed (set_tool i st m)"
  by (simp add: unparsed_def dict_simps)

lemma unparsed_old: "unparsed m \<Longrightarrow> map_of (tool_states m) i = Some st \<Longrightarrow> json_loads (tc_task_arg_buffer st) = None"
  by (simp add: unparsed_def)

lemma unparsed_ensure:
  "unparsed m \<Longrightarrow> unparsed (snd (ensure_tool_state i m))"
  "unparsed m \<Longrightarrow> json_loads (tc_task_arg_buffer (fst (ensure_tool_state i m))) = None"
  by (auto simp: ensure_tool_state_def Let_def new_tool_state_def loads_empty
      intro: unparsed_set unparsed_old split: option.split)

lemma unparsed_note: "unparsed m \<Longrightarrow> unparsed (note_tool_delta tc i m)"
proof -
  assume m: "unparsed m"
  have id: "unparsed (set_stream_tool_id i j m)" if "unparsed m" for j m
    using unparsed_ensure [OF that, of i]
    by (auto simp: set_stream_tool_id_def split_beta intro: unparsed_set that)
  have ex: "unparsed (set_tool_extra_content i x m)" if "unparsed m" for x m
    using unparsed_ensure [OF that, of i]
    by (auto simp: set_tool_extra_content_def split_beta intro: unparsed_set that split: option.split)
  have nm: "unparsed (register_tool_name i n m)" if "unparsed m" for n m
    using unparsed_old [OF that, of i]
    by (auto simp: register_tool_name_def Let_def new_tool_state_def loads_empty
        intro: unparsed_set that split: option.split)
  show ?thesis
    unfolding note_tool_delta_def Let_def using m by (auto intro: id ex nm split: option.split)
qed

lemma bcalm_rules:
  "bcalm gskip" "bcalm (graise x)" "bcalm g \<Longrightarrow> bcalm h \<Longrightarrow> bcalm (gseq g h)"
  "(\<And>b. bcalm (k b)) \<Longrightarrow> bcalm (gread k)" "bcalm g \<Longrightarrow> bcalm (gwhen c g)"
  by (auto simp: bcalm_def gen_simps)

lemma bcalm_gyield: "(\<And>b. tool_states (sb_blocks (snd (f b))) = tool_states (sb_blocks b)) \<Longrightarrow> bcalm (gyield f)"
  by (simp add: bcalm_def gen_simps unparsed_def)

lemma bcalm_tool_delta: "bcalm (emit_tool_delta i t)"
  unfolding bcalm_def
proof (intro allI impI)
  fix b assume u: "unparsed (sb_blocks b)" and r: "raised (emit_tool_delta i t) b = None"
  then obtain st where st: "map_of (tool_states (sb_blocks b)) i = Some st"
    by (cases "map_of (tool_states (sb_blocks b)) i") (auto simp: emit_tool_delta_def gen_simps)
  with u unparsed_old [OF u st] show "unparsed (sb_blocks (after (emit_tool_delta i t) b))"
    by (simp add: emit_tool_delta_def gen_simps unparsed_set)
qed

lemma bcalm_start_tool: "bcalm (gyield (start_tool_block i t n x))"
  unfolding bcalm_def
proof (intro allI impI)
  fix b :: sse_builder assume u: "unparsed (sb_blocks b)"
  let ?m = "sb_blocks b\<lparr>next_index := next_index (sb_blocks b) + 1\<rparr>"
  have "unparsed ?m" using u by (simp add: unparsed_def)
  then show "unparsed (sb_blocks (after (gyield (start_tool_block i t n x)) b))"
    using unparsed_old [OF u, of i]
    by (auto simp: gen_simps start_tool_block_def allocate_index_def new_tool_state_def loads_empty
        intro!: unparsed_set split: option.split)
qed

lemma bcalm_task_arg: "bcalm (task_arg_step i args)"
  unfolding bcalm_def
proof (intro allI impI)
  fix b assume u: "unparsed (sb_blocks b)" and r: "raised (task_arg_step i args) b = None"
  let ?m = "snd (buffer_task_args i args (sb_blocks b))" and ?r = "fst (buffer_task_args i args (sb_blocks b))"
  have r': "raised (emit_parsed_task i ?r) (b\<lparr>sb_blocks := ?m\<rparr>) = None"
    using r by (simp add: task_arg_step_def gen_simps)
  then obtain d where ok: "?r = Inr d"
    by (cases ?r) (auto simp: emit_parsed_task_def gen_simps)
  have "unparsed ?m"
  proof (cases "map_of (tool_states (sb_blocks b)) i")
    case (Some st)
    define st' where "st' = st\<lparr>tc_task_arg_buffer := tc_task_arg_buffer st @ args\<rparr>"
    show ?thesis
    proof (cases "tc_task_args_emitted st")
      case False
      show ?thesis
      proof (cases "json_loads (tc_task_arg_buffer st')")
        case None
        with Some False u show ?thesis
          by (simp add: buffer_task_args_def Let_def st'_def unparsed_set)
      next
        case j: (Some j)
        show ?thesis
        proof (cases "normalize_task_run_in_background j")
          case (Inl x)
          with Some False j ok show ?thesis by (simp add: buffer_task_args_def Let_def st'_def)
        next
          case (Inr d)
          let ?st = "st'\<lparr>tc_task_args_emitted := True, tc_task_arg_buffer := []\<rparr>"
          have "?m = set_tool i ?st (set_tool i st' (sb_blocks b))"
            using Some False j Inr by (simp add: buffer_task_args_def Let_def st'_def)
          moreover have "unparsed (set_tool i ?st (set_tool i st' (sb_blocks b)))"
            using u by (auto simp: unparsed_def dict_simps loads_empty)
          ultimately show ?thesis by simp
        qed
      qed
    qed (use Some u in \<open>simp add: buffer_task_args_def\<close>)
  qed (use u in \<open>simp add: buffer_task_args_def\<close>)
  moreover have "bcalm (emit_parsed_task i ?r)"
    unfolding emit_parsed_task_def ok sum.case
    by (cases d) (simp_all add: bcalm_rules bcalm_tool_delta)
  ultimately show "unparsed (sb_blocks (after (task_arg_step i args) b))"
    using r' by (simp add: task_arg_step_def gen_simps bcalm_def)
qed

lemma bcalm_blocks:
  "bcalm (write_text t)" "bcalm (write_thinking t)" "bcalm close_content_blocks"
  "bcalm (iter_heuristic_tool_use_sse tu)"
  unfolding write_text_def write_thinking_def ensure_text_block_def ensure_thinking_block_def
    close_content_blocks_def iter_heuristic_tool_use_sse_def Let_def
  by (intro bcalm_rules bcalm_gyield; simp add: block_steps)+

text \<open>The same for the assembler and the runner.\<close>

lemma calm_rules:
  "calm gskip" "calm (graise x)" "calm g \<Longrightarrow> calm h \<Longrightarrow> calm (gseq g h)"
  "(\<And>b. calm (k b)) \<Longrightarrow> calm (gread k)" "calm g \<Longrightarrow> calm (gwhen c g)"
  by (auto simp: calm_def gen_simps)

lemma calm_for: "(\<And>x. calm (g x)) \<Longrightarrow> calm (gfor g xs)"
  by (induction xs) (auto intro: calm_rules)

lemma calm_on_sse: "bcalm g \<Longrightarrow> calm (on_sse g)"
  by (simp add: calm_def bcalm_def gen_simps)

lemma calm_field: "(\<And>s. as_sse (f s) = as_sse s) \<Longrightarrow> calm (gdo f)"
  by (simp add: calm_def gen_simps)

lemma calm_note: "calm (gdo (on_blocks (note_tool_delta tc i)))"
  by (simp add: calm_def gen_simps on_blocks_def unparsed_note)

lemma calm_arg_delta: "calm (emit_tool_arg_delta al i args)"
  unfolding emit_tool_arg_delta_def emit_aliased_arg_def Let_def
  by (auto split: option.splits intro!: calm_rules calm_on_sse calm_field bcalm_tool_delta bcalm_task_arg)

lemma calm_pre_start: "calm (flush_pre_start al i)"
  unfolding calm_def
proof (intro allI impI)
  fix s :: "'a assembler_scheme" assume u: "quiet_bufs s" and r: "raised (flush_pre_start al i) s = None"
  then obtain st where st: "map_of (tools_of s) i = Some st"
    by (cases "map_of (tools_of s) i") (auto simp: flush_pre_start_def gen_simps)
  have "quiet_bufs (on_blocks (set_tool i (st\<lparr>tc_pre_start_args := []\<rparr>)) s)"
    using u unparsed_old [OF u st] by (simp add: on_blocks_def unparsed_set)
  with calm_arg_delta r st u show "quiet_bufs (after (flush_pre_start al i) s)"
    by (auto simp: flush_pre_start_def gen_simps calm_def split: if_splits)
qed

lemma calm_start: "calm (start_tool uuid al tc i state rn)"
  unfolding start_tool_def Let_def
  by (intro calm_rules calm_field calm_on_sse bcalm_start_tool calm_pre_start) (simp_all split: option.split)

lemma calm_if: "(c \<Longrightarrow> calm g) \<Longrightarrow> (\<not> c \<Longrightarrow> calm h) \<Longrightarrow> calm (if c then g else h)"
  by simp

lemma calm_arguments: "calm (tool_arguments_step al tc i rn :: ('a assembler_scheme) builder_gen)"
proof -
  have buf: "calm (gdo (on_blocks (\<lambda>m. case ensure_tool_state i m of (st, m) \<Rightarrow>
      set_tool i (st\<lparr>tc_pre_start_args := tc_pre_start_args st @ x\<rparr>) m)) :: ('a assembler_scheme) builder_gen)" for x
    using unparsed_ensure by (simp add: calm_def gen_simps on_blocks_def split_beta unparsed_set)
  have ens: "calm (gdo (\<lambda>s. if b then on_blocks (\<lambda>m. snd (ensure_tool_state i m)) s else s)
      :: ('a assembler_scheme) builder_gen)" for b
    using unparsed_ensure by (simp add: calm_def gen_simps on_blocks_def)
  have rec: "calm (gdo (\<lambda>s. case (x, y) of (Some st, Some d) \<Rightarrow> if tc_tool_id st \<noteq> [] then record_extra (tc_tool_id st) d s else s
      | _ \<Rightarrow> s) :: ('a assembler_scheme) builder_gen)" for x y
    by (rule calm_field) (simp split: option.split)
  show ?thesis
    unfolding tool_arguments_step_def Let_def
    by (intro calm_rules calm_if rec buf ens calm_arg_delta)
qed

lemma calm_process: "calm (process_tool_call uuid al tc)"
  unfolding process_tool_call_def Let_def
  by (intro calm_rules calm_note calm_start calm_arguments)

lemmas calm_write = calm_on_sse [OF bcalm_blocks(1)] calm_on_sse [OF bcalm_blocks(2)]
  calm_on_sse [OF bcalm_blocks(3)] calm_on_sse [OF bcalm_blocks(4)]

lemma calm_chunk: "calm (chunk_step e c)"
proof -
  have ht: "calm (heuristic_text e t)" for t
    unfolding heuristic_text_def split_beta by (intro calm_rules calm_for calm_write calm_field) simp
  have pt: "calm (content_part e part)" for part
    unfolding content_part_def by (intro calm_if calm_rules calm_write ht)
  have ct: "calm (content_delta e t)" for t
    unfolding content_delta_def split_beta by (intro calm_rules calm_for pt calm_field) simp
  have tl: "calm (tool_calls_delta e tcs)" for tcs
    unfolding tool_calls_delta_def by (intro calm_rules calm_for calm_write calm_process)
  have dl: "calm (delta_step e d)" for d
    unfolding delta_step_def
    by (cases "cd_reasoning d"; cases "cd_content d"; simp only: option.case)
       (intro calm_rules calm_write ct tl)+
  have u: "calm (gdo (\<lambda>s. if truthy (ck_usage c) then s\<lparr>rn_usage := ck_usage c\<rparr> else s) :: runner_gen)"
    by (rule calm_field) simp
  have f: "calm (gdo (\<lambda>s. case x of Some f \<Rightarrow> if f \<noteq> [] then s\<lparr>rn_finish_reason := Some f\<rparr> else s | None \<Rightarrow> s) :: runner_gen)" for x
    by (rule calm_field) (simp split: option.split)
  show ?thesis
    unfolding chunk_step_def
    by (cases "ck_choice c"; cases "ch_delta (the (ck_choice c))"; simp) (intro calm_rules u f dl)+
qed

text \<open>The steps of the tail never raise in such a state.\<close>

definition silent_exn :: "(runner \<Rightarrow> bool) \<Rightarrow> runner_gen \<Rightarrow> bool" where
  "silent_exn P g \<longleftrightarrow> (\<forall>s. P s \<longrightarrow> raised g s = None)"

lemma block_gens_quiet:
  "raised (write_text t) b = None" "raised (write_thinking t) b = None"
  "raised (iter_heuristic_tool_use_sse tu) b = None"
  by (simp_all add: write_text_def write_thinking_def iter_heuristic_tool_use_sse_def Let_def gen_simps
      ensure_text_started ensure_thinking_started close_content_closed)

lemma gfor_no_raise: "(\<And>x s. x \<in> set xs \<Longrightarrow> raised (g x) s = None) \<Longrightarrow> raised (gfor g xs) s = None"
  by (induction xs arbitrary: s) (simp_all add: gen_simps)

lemma flush_steps_no_raise:
  "raised (flush_think e) s = None" "raised flush_heuristic s = None"
  "raised (flush_alias_item al item) t = None"
proof -
  show "raised (flush_think e) s = None"
    by (auto simp: flush_think_def gen_simps split_beta block_gens_quiet split: option.split)
  show "raised flush_heuristic s = None"
    by (auto simp: flush_heuristic_def gen_simps split_beta block_gens_quiet intro: gfor_no_raise)
  show "raised (flush_alias_item al item) t = None"
    by (auto simp: flush_alias_item_def gen_simps Let_def emit_tool_delta_def split: prod.split option.split)
qed

lemma flush_alias_no_raise: "raised (flush_tool_argument_alias_buffers al) s = None"
  by (simp add: flush_tool_argument_alias_buffers_def gen_simps gfor_no_raise flush_steps_no_raise)

lemma flush_items_Inr:
  "(\<And>k st. (k, st) \<in> set items \<Longrightarrow> json_loads (tc_task_arg_buffer st) = None) \<Longrightarrow>
   \<exists>outs. fst (flush_task_items items m) = Inr outs"
proof (induction items arbitrary: m)
  case (Cons p items)
  obtain k st where p: "p = (k, st)" by (cases p)
  have "json_loads (tc_task_arg_buffer st) = None" using Cons.prems p by auto
  moreover have "\<exists>outs. fst (flush_task_items items m') = Inr outs" for m' using Cons by auto
  ultimately show ?case by (auto simp: p split: prod.split) (metis fst_conv)+
qed simp

lemma flush_task_no_raise:
  assumes "builder_sane b" and "unparsed (sb_blocks b)"
  shows "raised flush_task_args_gen b = None"
proof -
  have s: "blocks_sane (sb_blocks b)" using assms(1) by (simp add: builder_views)
  let ?f = "flush_task_arg_buffers (sb_blocks b)"
  have "json_loads (tc_task_arg_buffer st) = None" if "(k, st) \<in> set (tool_states (sb_blocks b))" for k st
    using that saneD(5) [OF s] unparsed_old [OF assms(2)] by auto
  then obtain outs where o: "fst ?f = Inr outs"
    using flush_items_Inr unfolding flush_task_arg_buffers_def by blast
  have runs: "runs (snd ?f) k" if "(k, t) \<in> set outs" for k t
    using flush_task_run [OF s] o that by (simp add: invisible_def)
  have all: "\<forall>(k, t) \<in> set outs. runs (sb_blocks b') k \<Longrightarrow>
      raised (gfor (\<lambda>(tool_index, out). emit_tool_delta tool_index out) outs) b' = None" for b'
  proof (induction outs arbitrary: b')
    case (Cons p outs)
    obtain k t where p: "p = (k, t)" by (cases p)
    have "raised (emit_tool_delta k t) b' = None"
      using Cons.prems p by (intro tool_delta_runs(1)) (auto simp: tool_running_runs)
    moreover have "\<forall>(j, u) \<in> set outs. runs (sb_blocks (after (emit_tool_delta k t) b')) j"
      using Cons.prems grows_tool_delta [of k t] by (fastforce simp: grows_def)
    ultimately show ?case using Cons.IH by (simp add: p gen_simps)
  qed (simp add: gen_simps)
  have "raised (gfor (\<lambda>(tool_index, out). emit_tool_delta tool_index out) outs) (b\<lparr>sb_blocks := snd ?f\<rparr>) = None"
    by (rule all) (use runs in auto)
  then show ?thesis by (simp add: flush_task_args_gen_def gen_simps o emit_flushed_def)
qed

lemma calm_flush:
  "calm (flush_think e)" "calm flush_heuristic" "calm (flush_tool_argument_alias_buffers al)"
proof -
  show "calm (flush_think e)"
    unfolding flush_think_def split_beta
    by (intro calm_rules calm_field) (auto split: option.split intro!: calm_rules calm_write)
  show "calm flush_heuristic"
    unfolding flush_heuristic_def split_beta by (intro calm_rules calm_for calm_write calm_field) simp
  have "calm (flush_alias_item al item)" for item
    unfolding flush_alias_item_def Let_def
    by (auto split: prod.split option.split intro!: calm_rules calm_on_sse bcalm_tool_delta calm_field)
  then show "calm (flush_tool_argument_alias_buffers al)"
    unfolding flush_tool_argument_alias_buffers_def by (intro calm_rules calm_for)
qed

section \<open>Tails leave nothing open\<close>

lemma close_all_whole:
  assumes t: "builder.tracks (as_sse s) c"
  shows "\<exists>c'. check_events a c (yields (on_sse close_all_blocks) s) = Inr c' \<and> open_blocks c' = [] \<and>
           seen_blocks c' = seen_blocks c"
    and "raised (on_sse close_all_blocks) s = None"
proof -
  show "\<exists>c'. check_events a c (yields (on_sse close_all_blocks) s) = Inr c' \<and> open_blocks c' = [] \<and>
           seen_blocks c' = seen_blocks c"
    using close_all_accepted [OF t, of a] t by (simp add: gen_simps builder.tracks_def)
  show "raised (on_sse close_all_blocks) s = None"
    using close_all_runs(2) [OF tracks_sane [OF t]] by (simp add: gen_simps)
qed

lemma closes_with_message:
  assumes "open_blocks c = []" and "seen_blocks c \<noteq> {}"
  shows "closes_stream a c [message_delta b r x y z, message_stop]"
  using assms by (simp add: closes_stream_def check_inert)

lemma used_nonempty: "0 < next_index (sb_blocks b) \<Longrightarrow> builder_used b \<noteq> {}"
  by (auto simp: builder_views used_indexes_def)

lemma used_seen: "builder.tracks b c \<Longrightarrow> 0 < next_index (sb_blocks b) \<Longrightarrow> seen_blocks c \<noteq> {}"
  using used_nonempty by (auto simp: builder.tracks_def)

lemma whole_part: "asm.whole.tracks s c \<Longrightarrow> builder.tracks (as_sse s) c"
  by (simp add: asm.whole_tracks)

lemma has_block_next:
  assumes "builder_sane b"
    and "text_index (sb_blocks b) \<noteq> -1 \<or> thinking_index (sb_blocks b) \<noteq> -1 \<or> has_emitted_tool_block (sb_blocks b)"
  shows "0 < next_index (sb_blocks b)"
proof -
  have s: "blocks_sane (sb_blocks b)" using assms(1) by (simp add: builder_views)
  show ?thesis
  proof (cases "has_emitted_tool_block (sb_blocks b)")
    case True
    then obtain k st where st: "(k, st) \<in> set (tool_states (sb_blocks b))" "tc_started st"
      by (auto simp: has_emitted_tool_block_def list_ex_iff)
    then have "map_of (tool_states (sb_blocks b)) k = Some st" using saneD(5) [OF s] by simp
    from saneD(7) [OF s this st(2)] show ?thesis by simp
  next
    case False
    with assms(2) saneD(12) [OF s] show ?thesis by blast
  qed
qed

lemma finish_closes:
  assumes t: "asm.whole.tracks s c" and u: "quiet_bufs s"
  shows "closes_stream a c (yields (finish_stream e) s)" and "raised (finish_stream e) s = None"
proof -
  let ?place = "gread (\<lambda>s. gwhen (needs_placeholder (as_sse s)) (on_sse (write_text '' ''))) :: runner_gen"
  let ?aliased = "gread (\<lambda>s. flush_tool_argument_alias_buffers (rn_aliases s)) :: runner_gen"
  let ?a = "gseq (flush_think e) flush_heuristic"
  define s1 where "s1 = after ?a s"
  define s2 where "s2 = after ?place s1"
  define s3 where "s3 = after ?aliased s2"
  define s4 where "s4 = after (on_sse flush_task_args_gen) s3"
  have r1: "raised ?a s = None" by (simp add: gen_simps flush_steps_no_raise)
  have r2: "raised ?place s1 = None" by (simp add: gen_simps block_gens_quiet)
  have r3: "raised ?aliased s2 = None" by (simp add: gen_simps flush_alias_no_raise)
  obtain c1 where c1: "check_events a c (yields ?a s) = Inr c1" "asm.whole.tracks s1 c1"
    using asm.whole.soundD [OF rs_then [OF rs_flush_think rs_flush_heuristic] t, of "\<lambda>_. True"] unfolding s1_def by blast
  have snd2: "rsound a (\<lambda>_. True) ?place" by (intro rs_rules)
  obtain c2 where c2: "check_events a c1 (yields ?place s1) = Inr c2" "asm.whole.tracks s2 c2"
    using asm.whole.soundD [OF snd2 c1(2)] unfolding s2_def by blast
  obtain c3 where c3: "check_events a c2 (yields ?aliased s2) = Inr c3" "asm.whole.tracks s3 c3"
    using asm.whole.soundD [OF rs_read_any [OF rs_flush_alias] c2(2), of "\<lambda>_. True"] unfolding s3_def by blast
  obtain c4 where c4: "check_events a c3 (yields (on_sse flush_task_args_gen) s3) = Inr c4" "asm.whole.tracks s4 c4"
    using asm.whole.soundD [OF rs_flush_task c3(2), of "\<lambda>_. True"] unfolding s4_def by blast
  have "quiet_bufs s1"
    using calm_rules(3) [OF calm_flush(1,2)] u r1 unfolding calm_def s1_def by blast
  moreover have "calm ?place" by (intro calm_rules calm_write)
  ultimately have "quiet_bufs s2" using r2 unfolding calm_def s2_def by blast
  moreover have "calm ?aliased" by (intro calm_rules calm_flush)
  ultimately have u3: "quiet_bufs s3" using r3 unfolding calm_def s3_def by blast
  have "builder_sane (as_sse s3)" using c3(2) by (simp add: asm.whole_tracks builder.tracks_def)
  then have r4: "raised (on_sse flush_task_args_gen) s3 = None"
    using flush_task_no_raise u3 by (simp add: gen_simps)
  have next2: "0 < next_index (sb_blocks (as_sse s2))"
  proof (rule has_block_next)
    show "builder_sane (as_sse s2)" using c2(2) by (simp add: asm.whole_tracks builder.tracks_def)
    then have s: "blocks_sane (sb_blocks (as_sse s2))" by (simp add: builder_views)
    show "text_index (sb_blocks (as_sse s2)) \<noteq> -1 \<or> thinking_index (sb_blocks (as_sse s2)) \<noteq> -1 \<or>
        has_emitted_tool_block (sb_blocks (as_sse s2))"
    proof (cases "needs_placeholder (as_sse s1)")
      case True
      then have "text_started (sb_blocks (as_sse s2))"
        by (simp add: s2_def gen_simps write_text_def ensure_text_started emit_text_delta_def)
      then have "text_index (sb_blocks (as_sse s2)) \<noteq> -1" using saneD(3) [OF s] by force
      then show ?thesis ..
    next
      case False
      then show ?thesis
        by (auto simp: s2_def gen_simps needs_placeholder_def has_emitted_tool_block_def Let_def)
    qed
  qed
  have seen: "seen_blocks c4 \<noteq> {}"
    using used_seen [OF whole_part [OF c2(2)] next2] check_seen_mono [OF c3(1)] check_seen_mono [OF c4(1)] by blast
  obtain c5 where c5: "check_events a c4 (yields (on_sse close_all_blocks) s4) = Inr c5" "open_blocks c5 = []"
      "seen_blocks c5 = seen_blocks c4"
    using close_all_whole(1) [OF whole_part [OF c4(2)], of a] by blast
  note r5 = close_all_whole(2) [OF whole_part [OF c4(2)]]
  let ?s5 = "after (on_sse close_all_blocks) s4"
  define s0 where "s0 = after (flush_think e) s"
  have r0: "raised (flush_think e) s = None" "raised flush_heuristic s0 = None"
    by (simp_all add: flush_steps_no_raise)
  have a0: "after (flush_think e) s = s0" "after flush_heuristic s0 = s1" "after ?place s1 = s2"
    "after ?aliased s2 = s3" "after (on_sse flush_task_args_gen) s3 = s4"
    using r0 by (simp_all add: s0_def s1_def s2_def s3_def s4_def run_gseq)
  have y0: "yields ?a s = yields (flush_think e) s @ yields flush_heuristic s0"
    using r0 by (simp add: run_gseq a0)
  have eq: "yields (finish_stream e) s = yields ?a s @ yields ?place s1 @ yields ?aliased s2 @
      yields (on_sse flush_task_args_gen) s3 @ yields (on_sse close_all_blocks) s4 @ [final_usage e ?s5, message_stop]"
    and "raised (finish_stream e) s = None"
    unfolding finish_stream_def finish_blocks_def y0
    by (simp_all only: run_gseq run_gyield r0 r2 r3 r4 r5 a0 simp_thms if_True fst_conv snd_conv append_assoc append.simps)
  then show "raised (finish_stream e) s = None" by simp
  have "closes_stream a c5 [final_usage e ?s5, message_stop]"
    unfolding final_usage_def Let_def by (rule closes_with_message) (use c5 seen in simp_all)
  note k4 = closes_stream_append [OF c4(1) closes_stream_append [OF c5(1) this]]
  show "closes_stream a c (yields (finish_stream e) s)"
    unfolding eq by (rule closes_stream_append [OF c1(1) closes_stream_append [OF c2(1)
          closes_stream_append [OF c3(1) k4]]])
qed

lemma error_tail_closes:
  assumes b: "builder.tracks (as_sse s) c"
  shows "closes_stream True c (yields (emit_error_tail m) s)"
proof -
  let ?s = "after (on_sse close_all_blocks) s"
  note bs = tracks_sane [OF b]
  obtain c1 where c1: "check_events True c (yields (on_sse close_all_blocks) s) = Inr c1" "open_blocks c1 = []"
      "seen_blocks c1 = seen_blocks c"
    using close_all_whole(1) [OF b] by blast
  note r1 = close_all_whole(2) [OF b]
  have same: "tool_states (sb_blocks (as_sse ?s)) = tool_states (sb_blocks (as_sse s))"
    "next_index (sb_blocks (as_sse ?s)) = next_index (sb_blocks (as_sse s))"
    using close_all_runs(3) [OF bs] by (simp_all add: gen_simps close_content_closed)
  have used: "seen_blocks c1 = used_indexes (sb_blocks (as_sse ?s))"
    using b c1(3) same by (simp add: builder.tracks_def builder_views used_indexes_def)
  have tail: "closes_stream True c' [message_delta x ''end_turn'' (JInt 1) JNull JNull, message_stop]"
    if "open_blocks c' = []" "seen_blocks c' \<noteq> {}" for c' x using that by (rule closes_with_message)
  show ?thesis
  proof (cases "has_emitted_tool_block (sb_blocks (as_sse ?s))")
    case True
    then have "has_emitted_tool_block (sb_blocks (as_sse s))" using same by (simp add: has_emitted_tool_block_def)
    moreover have "builder_sane (as_sse s)" using bs by (simp add: builder_views)
    ultimately have "0 < next_index (sb_blocks (as_sse s))" by (intro has_block_next) auto
    then have ne: "seen_blocks c1 \<noteq> {}" using used_seen [OF b] c1(3) by simp
    have "check_events True c1 [emit_top_level_error m] = Inr c1" by (simp add: check_inert)
    from closes_stream_append [OF this tail [OF c1(2) ne]]
    have "closes_stream True c1 ([emit_top_level_error m] @
        [message_delta (as_sse ?s) ''end_turn'' (JInt 1) JNull JNull, message_stop])" .
    from closes_stream_append [OF c1(1) this] True r1 show ?thesis
      by (simp add: emit_error_tail_def run_gseq run_gread run_gyield)
  next
    case False
    obtain c2 where c2: "check_events True c1 (yields (emit_error m) (as_sse ?s)) = Inr c2" "open_blocks c2 = []"
        "seen_blocks c2 \<noteq> {}"
      using emit_error_accepted [OF c1(2) used] by blast
    let ?s2 = "after (on_sse (emit_error m)) ?s"
    have "closes_stream True c1 (yields (emit_error m) (as_sse ?s) @
        [message_delta (as_sse ?s2) ''end_turn'' (JInt 1) JNull JNull, message_stop])"
      by (rule closes_stream_append [OF c2(1) tail [OF c2(2,3)]])
    from closes_stream_append [OF c1(1) this] False r1 show ?thesis
      by (simp add: emit_error_tail_def run_gseq run_gread run_gyield run_focus_gen emit_error_yields(2))
  qed
qed

section \<open>Recovery\<close>

lemma rs_with_python: "rsound a P g \<Longrightarrow> rsound a P (with_python g)"
proof -
  have "yields (with_python g) s = yields g s" "after (with_python g) s = after g s" for s
    by (simp_all add: with_python_def yields_def after_def split: prod.split)
  then show "rsound a P g \<Longrightarrow> rsound a P (with_python g)" by (simp add: asm.whole.sound_def)
qed

lemma run_with_python:
  "yields (with_python g) s = yields g s" "after (with_python g) s = after g s"
  "raised (with_python g) s = map_option RecoveryPython (raised g s)"
  by (simp_all add: with_python_def yields_def after_def raised_def split: prod.split)

text \<open>Frames that only extend blocks leave the checker where it was.\<close>

definition only_deltas :: "recovery_gen \<Rightarrow> bool" where
  "only_deltas g \<longleftrightarrow> (\<forall>s. list_all (\<lambda>f. ev_name f = ''content_block_delta'') (yields g s))"

lemma check_only_deltas:
  "check_events a c fs = Inr c' \<Longrightarrow> list_all (\<lambda>f. ev_name f = ''content_block_delta'') fs \<Longrightarrow> c' = c"
proof (induction fs arbitrary: c)
  case (Cons f fs)
  then obtain c1 where c1: "check_event a c f = Inr c1" "check_events a c1 fs = Inr c'" by auto
  have "c1 = c"
    using c1(1) Cons.prems(2)
    by (auto simp: check_event_def check_block_delta_def Let_def split: if_splits option.splits)
  with Cons c1 show ?case by simp
qed simp

lemma only_deltas_rules:
  "only_deltas gskip" "only_deltas (graise x)" "only_deltas g \<Longrightarrow> only_deltas h \<Longrightarrow> only_deltas (gseq g h)"
  "(\<And>b. only_deltas (k b)) \<Longrightarrow> only_deltas (gread k)" "only_deltas g \<Longrightarrow> only_deltas (gwhen c g)"
  "only_deltas (gdo f)"
  by (auto simp: only_deltas_def gen_simps)

lemma only_deltas_for: "(\<And>x. only_deltas (g x)) \<Longrightarrow> only_deltas (gfor g xs)"
  by (induction xs) (auto intro: only_deltas_rules)

lemma only_deltas_emit: "only_deltas (with_python (on_sse (emit_tool_delta i t)))"
  by (auto simp: only_deltas_def run_with_python gen_simps emit_tool_delta_def split: option.split)

lemma only_deltas_collecting: "(\<And>t. only_deltas (k t)) \<Longrightarrow> only_deltas (collecting e body k)"
  unfolding collecting_def split_beta by (intro only_deltas_rules) (auto split: sum.split intro: only_deltas_rules)

lemma only_deltas_attempts: "(\<And>t. only_deltas (k t)) \<Longrightarrow> only_deltas (repair_attempts e n body pre name k)"
  by (induction n) (auto intro!: only_deltas_rules only_deltas_collecting split: prod.split option.split)

lemma only_deltas_repair: "only_deltas (repair_tool_args e body)"
proof -
  have "only_deltas (repair_tool e body item)" for item
    unfolding repair_tool_def Let_def split_beta
    by (intro only_deltas_rules) (simp add: only_deltas_rules only_deltas_attempts only_deltas_emit)
  then show ?thesis
    unfolding repair_tool_args_def
    by (intro only_deltas_rules only_deltas_for) (simp_all add: only_deltas_rules if_split)
qed

text \<open>Every repair goes to a running block.\<close>

definition rgrows :: "recovery_gen \<Rightarrow> bool" where
  "rgrows g \<longleftrightarrow> (\<forall>s k. running k s \<longrightarrow> running k (after g s))"

lemma rgrows_rules:
  "rgrows gskip" "rgrows (graise x)" "rgrows g \<Longrightarrow> rgrows h \<Longrightarrow> rgrows (gseq g h)"
  "(\<And>b. rgrows (k b)) \<Longrightarrow> rgrows (gread k)" "rgrows g \<Longrightarrow> rgrows (gwhen c g)"
  by (auto simp: rgrows_def gen_simps)

lemma rgrows_field: "(\<And>s. as_sse (f s) = as_sse s) \<Longrightarrow> rgrows (gdo f)"
  by (simp add: rgrows_def gen_simps)

lemma rgrows_emit: "rgrows (with_python (on_sse (emit_tool_delta i t)))"
  using grows_tool_delta [of i t] by (simp add: rgrows_def run_with_python gen_simps grows_def)

lemma rgrows_collecting: "(\<And>t. rgrows (k t)) \<Longrightarrow> rgrows (collecting e body k)"
  unfolding collecting_def split_beta
  by (intro rgrows_rules rgrows_field) (auto split: sum.split intro: rgrows_rules)

lemma rgrows_attempts: "(\<And>t. rgrows (k t)) \<Longrightarrow> rgrows (repair_attempts e n body pre name k)"
  by (induction n) (auto intro!: rgrows_rules rgrows_collecting split: prod.split option.split)

lemma rgrows_repair_tool: "rgrows (repair_tool e body item)"
  unfolding repair_tool_def Let_def split_beta
  by (intro rgrows_rules) (simp add: rgrows_rules rgrows_attempts rgrows_emit)

lemma rs_emit_repair: "rsound a (running i) (with_python (on_sse (emit_tool_delta i t)))"
  by (rule rs_with_python [OF asm_sound_delta])

lemma rs_collecting:
  assumes "\<And>t. rsound a (running i) (k t)"
  shows "rsound a (running i) (collecting e body k)"
  unfolding collecting_def split_beta
proof (rule rs_read, rule asm.whole.sound_gseq [OF rs_field])
  fix s :: runner
  show "rsound a (running i) (case fst (collect_text e body MIDSTREAM_RECOVERY_ATTEMPTS None (rn_calls s)) of
      Inl x \<Rightarrow> graise (RecoveryRaised x) | Inr texts \<Rightarrow> k texts)"
    using assms by (auto simp: rs_raise split: sum.split)
qed (simp_all add: gen_simps)

lemma rs_attempts:
  assumes "\<And>t. rsound a (running i) (k t)"
  shows "rsound a (running i) (repair_attempts e n body pre name k)"
proof (induction n)
  case (Suc n)
  have "rsound a (running i) (case accept_tool_json_repair v pre w name sc of
      Some repair \<Rightarrow> k (tr_suffix repair) | None \<Rightarrow> repair_attempts e n body pre name k)" for v w sc
    using assms Suc by (auto split: option.split)
  then show ?case unfolding repair_attempts.simps split_beta by (intro rs_collecting)
qed (simp add: rs_raise)

lemma rs_repair_tool: "rsound a (running (fst item)) (repair_tool e body item)"
proof -
  obtain i st where item: "item = (i, st)" by (cases item)
  have emit: "rsound a (running i) (gwhen b (with_python (on_sse (emit_tool_delta i t))))" for b t
    by (rule rs_when) (rule rs_emit_repair)
  show ?thesis
    unfolding repair_tool_def item Let_def prod.case fst_conv
  proof (rule rs_read)
    fix s :: runner assume run: "running i s"
    show "rsound a (\<lambda>t. t = s)
     (if parse_complete_tool_input (en_validator e) (repair_prefix_of st i s) (tc_name st) (tool_schemas_by_name (en_tools e)) \<noteq> None
      then gwhen (concat (tc_contents st) = [])
             (gwhen (repair_prefix_of st i s \<noteq> []) (with_python (on_sse (emit_tool_delta i (repair_prefix_of st i s)))))
      else repair_attempts e MIDSTREAM_RECOVERY_ATTEMPTS
             (make_openai_tool_repair_body body (tc_name st) (repair_prefix_of st i s)
                (map_option ts_input_schema (map_of (tool_schemas_by_name (en_tools e)) (tc_name st))))
             (repair_prefix_of st i s) (tc_name st)
             (\<lambda>sfx. gwhen ((if concat (tc_contents st) \<noteq> [] then sfx else repair_prefix_of st i s @ sfx) \<noteq> [])
                (with_python (on_sse (emit_tool_delta i
                   (if concat (tc_contents st) \<noteq> [] then sfx else repair_prefix_of st i s @ sfx))))))"
      by (rule rs_mono [where P = "running i"]) (use run in \<open>auto intro!: rs_when emit rs_attempts\<close>)
  qed
qed

lemma rs_repair: "rsound a P (repair_tool_args e body)"
  unfolding repair_tool_args_def
proof (rule rs_read, rule rs_then)
  fix s :: runner
  define Q where "Q = (\<lambda>t :: runner. \<forall>x \<in> set (started_tool_states (as_sse s)). running (fst x) t)"
  assume "asm.whole_sane s"
  then have bs: "blocks_sane (sb_blocks (as_sse s))" by (simp add: asm.whole_sane_def builder_views)
  have "rsound a Q (repair_tool e body x)" if "x \<in> set (started_tool_states (as_sse s))" for x
    by (rule rs_mono [OF rs_repair_tool]) (use that in \<open>auto simp: Q_def\<close>)
  moreover have "Q (after (repair_tool e body x) t)" if "Q t" for x t
    using that rgrows_repair_tool [of e body x] unfolding Q_def rgrows_def by blast
  ultimately have "rsound a Q (gfor (repair_tool e body) (started_tool_states (as_sse s)))"
    by (intro asm.whole.sound_gfor)
  moreover have "Q s"
    using saneD(5) [OF bs] by (auto simp: Q_def started_tool_states_def runs_def)
  ultimately show "rsound a (\<lambda>t. t = s) (gfor (repair_tool e body) (started_tool_states (as_sse s)))"
    by (elim rs_mono) simp
  show "rsound a (\<lambda>_. True) (gread (\<lambda>s. if all_started_tools_complete (en_validator e) (en_tools e) (as_sse s) then gskip
      else graise NotRecoverable))"
    by (rule rs_read_any) (simp add: rs_skip rs_raise)
qed

lemma recovery_tail_closes:
  assumes b: "builder.tracks (as_sse s) c" and "0 < next_index (sb_blocks (as_sse s))"
  shows "raised (recovery_tail e sr) s = None" and "closes_stream a c (yields (recovery_tail e sr) s)"
proof -
  obtain c1 where c1: "check_events a c (yields (on_sse close_all_blocks) s) = Inr c1" "open_blocks c1 = []"
      "seen_blocks c1 = seen_blocks c"
    using close_all_whole(1) [OF b] by blast
  note r1 = close_all_whole(2) [OF b]
  show "raised (recovery_tail e sr) s = None"
    by (simp add: recovery_tail_def run_gseq run_gyield run_with_python r1)
  have "seen_blocks c1 \<noteq> {}" using used_seen [OF assms] c1(3) by simp
  from closes_stream_append [OF c1(1) closes_with_message [OF c1(2) this]]
  show "closes_stream a c (yields (recovery_tail e sr) s)"
    by (simp add: recovery_tail_def run_gseq run_gyield run_with_python r1)
qed

lemma repair_result:
  assumes t: "asm.whole.tracks s c"
  shows "check_events a c (yields (repair_tool_args e body) s) = Inr c"
    and "asm.whole.tracks (after (repair_tool_args e body) s) c"
proof -
  obtain c' where c': "check_events a c (yields (repair_tool_args e body) s) = Inr c'"
      "asm.whole.tracks (after (repair_tool_args e body) s) c'"
    using asm.whole.soundD [OF rs_repair t, of "\<lambda>_. True"] by blast
  moreover have "c' = c"
    using check_only_deltas [OF c'(1)] only_deltas_repair unfolding only_deltas_def by blast
  ultimately show "check_events a c (yields (repair_tool_args e body) s) = Inr c"
    and "asm.whole.tracks (after (repair_tool_args e body) s) c" by simp_all
qed

lemma written_next:
  assumes "builder.tracks b c" and "thinking_started (sb_blocks b) \<or> text_started (sb_blocks b)"
  shows "0 < next_index (sb_blocks b)"
  using saneD(2,3) [OF tracks_sane [OF assms(1)]] assms(2) by auto

lemma continue_text_result:
  assumes t: "asm.whole.tracks s c"
  shows "case raised (continue_text e x y) s of
      None \<Rightarrow> closes_stream a c (yields (continue_text e x y) s)
    | Some _ \<Rightarrow> after (continue_text e x y) s = s"
proof -
  define hx where "hx \<longleftrightarrow> x \<noteq> None \<and> x \<noteq> Some []"
  define hy where "hy \<longleftrightarrow> y \<noteq> None \<and> y \<noteq> Some []"
  let ?gx = "gwhen hx (with_python (on_sse (write_thinking (the x))))"
  let ?gy = "gwhen hy (with_python (on_sse (write_text (the y))))"
  have eq: "continue_text e x y = (if \<not> hx \<and> \<not> hy then graise NotRecoverable
      else gseq ?gx (gseq ?gy (recovery_tail e ''end_turn'')))"
    by (simp add: continue_text_def Let_def hx_def hy_def)
  show ?thesis
  proof (cases "hx \<or> hy")
    case False
    then show ?thesis by (simp add: eq gen_simps)
  next
    case True
    define s1 where "s1 = after ?gx s"
    define s2 where "s2 = after ?gy s1"
    have "rsound a (\<lambda>_. True) ?gx" by (intro rs_when rs_with_python rs_write)
    then obtain c1 where c1: "check_events a c (yields ?gx s) = Inr c1" "asm.whole.tracks s1 c1"
      using asm.whole.soundD [OF _ t] unfolding s1_def by blast
    have "rsound a (\<lambda>_. True) ?gy" by (intro rs_when rs_with_python rs_write)
    then obtain c2 where c2: "check_events a c1 (yields ?gy s1) = Inr c2" "asm.whole.tracks s2 c2"
      using asm.whole.soundD [OF _ c1(2)] unfolding s2_def by blast
    have r: "raised ?gx s = None" "raised ?gy s1 = None"
      by (simp_all add: run_gwhen run_with_python run_focus_gen block_gens_quiet)
    have "thinking_started (sb_blocks (as_sse s2)) \<or> text_started (sb_blocks (as_sse s2))"
    proof (cases hy)
      case True
      then show ?thesis
        by (simp add: s2_def run_gwhen run_with_python run_focus_gen write_text_def run_gseq run_gyield
            ensure_text_started emit_text_delta_def)
    next
      case False
      with \<open>hx \<or> hy\<close> show ?thesis
        by (simp add: s2_def s1_def run_gwhen run_with_python run_focus_gen write_thinking_def run_gseq run_gyield
            ensure_thinking_started emit_thinking_delta_def)
    qed
    then have "0 < next_index (sb_blocks (as_sse s2))" by (rule written_next [OF whole_part [OF c2(2)]])
    note tail = recovery_tail_closes [OF whole_part [OF c2(2)] this, where e = e and sr = "''end_turn''"]
    have eq2: "continue_text e x y = gseq ?gx (gseq ?gy (recovery_tail e ''end_turn''))"
      unfolding eq by (rule if_not_P) (use True in blast)
    have "raised (continue_text e x y) s = None"
      "yields (continue_text e x y) s = yields ?gx s @ yields ?gy s1 @ yields (recovery_tail e ''end_turn'') s2"
      unfolding eq2 using r tail(1) by (simp_all add: run_gseq flip: s1_def s2_def)
    with closes_stream_append [OF c1(1) closes_stream_append [OF c2(1) tail(2)]] show ?thesis by simp
  qed
qed

lemma recovery_result:
  assumes t: "asm.whole.tracks s c"
  shows "case raised (recovery_events e x) s of
      None \<Rightarrow> closes_stream a c (yields (recovery_events e x) s)
    | Some _ \<Rightarrow> asm.whole.tracks (after (recovery_events e x) s) c"
proof -
  note b = whole_part [OF t]
  consider (no) "\<not> is_retryable_stream_error x"
    | (tool) "is_retryable_stream_error x" "has_emitted_tool_block (sb_blocks (as_sse s))"
    | (nothing) "is_retryable_stream_error x" "\<not> has_emitted_tool_block (sb_blocks (as_sse s))"
        "accumulated_text (as_sse s) = []" "accumulated_reasoning (as_sse s) = []"
    | (cont) "is_retryable_stream_error x" "\<not> has_emitted_tool_block (sb_blocks (as_sse s))"
        "\<not> (accumulated_text (as_sse s) = [] \<and> accumulated_reasoning (as_sse s) = [])"
    by blast
  then show ?thesis
  proof cases
    case no
    with t show ?thesis by (simp add: recovery_events_def gen_simps)
  next
    case nothing
    with t show ?thesis by (simp add: recovery_events_def gen_simps Let_def)
  next
    case tool
    have bs: "builder_sane (as_sse s)" using b by (simp add: builder.tracks_def)
    have n: "0 < next_index (sb_blocks (as_sse s))" by (rule has_block_next [OF bs]) (use tool in blast)
    show ?thesis
    proof (cases "all_started_tools_complete (en_validator e) (en_tools e) (as_sse s)")
      case True
      with tool recovery_tail_closes [OF b n, where e = e and sr = "''tool_use''"] show ?thesis
        by (simp add: recovery_events_def run_gread run_gseq run_gskip)
    next
      case False
      let ?g = "repair_tool_args e (rn_body s)"
      note R = repair_result [OF t, where e = e and body = "rn_body s"]
      have "builder_used (as_sse (after ?g s)) = builder_used (as_sse s)"
        using whole_part [OF R(2)] b by (simp add: builder.tracks_def)
      then have n': "0 < next_index (sb_blocks (as_sse (after ?g s)))"
        using n used_nonempty [OF n] by (fastforce simp: builder_views used_indexes_def)
      note tail = recovery_tail_closes [OF whole_part [OF R(2)] n', where e = e and sr = "''tool_use''"]
      show ?thesis
      proof (cases "raised ?g s")
        case None
        with tool False tail closes_stream_append [OF R(1) tail(2)] show ?thesis
          by (simp add: recovery_events_def run_gread run_gseq)
      next
        case (Some z)
        with tool False R(2) show ?thesis by (simp add: recovery_events_def run_gread run_gseq)
      qed
    qed
  next
    case cont
    let ?body = "make_openai_text_recovery_body (rn_body s) (accumulated_text (as_sse s))"
    obtain r calls where coll: "collect_text e ?body MIDSTREAM_RECOVERY_ATTEMPTS None (rn_calls s) = (r, calls)"
      by fastforce
    let ?s = "s\<lparr>rn_calls := calls\<rparr>"
    have t': "asm.whole.tracks ?s c"
      using t by (simp add: asm.whole_tracks alias_ok_grow [of s])
    show ?thesis
    proof (cases r)
      case (Inl z)
      with cont coll t t' show ?thesis
        by (simp add: recovery_events_def run_gread run_gseq run_gdo run_graise Let_def collecting_def)
    next
      case (Inr p)
      obtain u v where p: "p = (u, v)" by (cases p)
      have eq: "raised (recovery_events e x) s = raised (continue_text e (continuation_suffix (accumulated_reasoning (as_sse s)) v)
            (continuation_suffix (accumulated_text (as_sse s)) u)) ?s"
        "yields (recovery_events e x) s = yields (continue_text e (continuation_suffix (accumulated_reasoning (as_sse s)) v)
            (continuation_suffix (accumulated_text (as_sse s)) u)) ?s"
        "after (recovery_events e x) s = after (continue_text e (continuation_suffix (accumulated_reasoning (as_sse s)) v)
            (continuation_suffix (accumulated_text (as_sse s)) u)) ?s"
        unfolding recovery_events_def run_gread
        using cont coll Inr p
        by (auto simp: run_gread run_gseq run_gdo Let_def collecting_def)
      show ?thesis
        unfolding eq
        using continue_text_result [OF t', where e = e and a = a
            and x = "continuation_suffix (accumulated_reasoning (as_sse s)) v"
            and y = "continuation_suffix (accumulated_text (as_sse s)) u"] t'
        by (auto split: option.splits)
    qed
  qed
qed

section \<open>The holdback in the session\<close>

lemma push_frames_run:
  "push_frames e fs s = (out, s') \<Longrightarrow> hb_ok (en_size e) (rs_holdback s) \<Longrightarrow>
   hb_ok (en_size e) (rs_holdback s') \<and> out @ held s' = held s @ fs \<and> (gone s \<longrightarrow> gone s') \<and> (out \<noteq> [] \<longrightarrow> gone s')"
proof (induction fs arbitrary: s out s')
  case (Cons f fs)
  obtain o1 h1 where p: "hb_push (en_now e) (en_size e) f (rs_holdback s) = (o1, h1)" by fastforce
  let ?s1 = "s\<lparr>rs_holdback := h1\<rparr>"
  obtain o2 s2 where q: "push_frames e fs ?s1 = (o2, s2)" by fastforce
  note P = hb_push_cases [OF Cons.prems(2) p]
  have IH: "hb_ok (en_size e) (rs_holdback s2) \<and> o2 @ held s2 = h1_ev @ fs \<and> (hb_committed h1 \<longrightarrow> gone s2) \<and> (o2 \<noteq> [] \<longrightarrow> gone s2)"
    if "h1_ev = hb_events h1" for h1_ev
    using Cons.IH [OF q] P(1) that by simp
  have r: "out = o1 @ o2" "s' = s2" using Cons.prems(1) p q by (simp_all add: session_push_def)
  have "o1 @ o2 @ held s2 = held s @ f # fs"
    using P(2) IH by (metis append.assoc append_Cons append_Nil)
  then show ?case using IH P(3,4) r by auto
qed simp

section \<open>The run\<close>

text \<open>
  What holds between two attempts and inside one: the frames that went out followed by those
  held back are a checked prefix of a stream, and if nothing has committed, nothing went out.
\<close>

definition prefix_ok :: "env \<Rightarrow> bool \<Rightarrow> frame list \<Rightarrow> runner \<Rightarrow> session \<Rightarrow> bool" where
  "prefix_ok e a sent r s \<longleftrightarrow>
     hb_ok (en_size e) (rs_holdback s) \<and> (\<not> gone s \<longrightarrow> sent = []) \<and>
     (\<exists>c. check_events a check_init (sent @ held s) = Inr c \<and> asm.whole.tracks r c)"

lemma tracks_new:
  assumes "as_sse r = new_builder e"
  shows "builder.tracks (as_sse r) check_init"
  using blocks_sane_new
  by (simp add: builder.tracks_def builder_views assms new_builder_def new_sse_builder_def check_init_def
      live_blocks_def new_block_manager_def used_indexes_def fun_eq_iff)

lemma whole_tracks_new:
  "as_sse r = new_builder e \<Longrightarrow> as_alias_buffers r = Some [] \<Longrightarrow> asm.whole.tracks r check_init"
  using tracks_new [of r e] by (simp add: asm.whole_tracks alias_ok_def)

lemma quiet_new_builder: "as_sse r = new_builder e \<Longrightarrow> quiet_bufs r"
  by (simp add: new_builder_def new_sse_builder_def unparsed_new)

lemma prefix_ok_field:
  assumes "prefix_ok e a sent r s" and "as_sse r' = as_sse r" and "as_alias_buffers r' = as_alias_buffers r"
  shows "prefix_ok e a sent r' s"
proof -
  have "alias_ok r \<Longrightarrow> alias_ok r'" by (rule alias_ok_grow [OF _ assms(3)]) (simp_all add: assms(2))
  with assms show ?thesis by (auto simp: prefix_ok_def asm.whole_tracks)
qed

lemma prefix_ok_push:
  assumes "prefix_ok e a sent r s" and "rsound a (\<lambda>_. True) g" and "g r = (fs, x, r')"
    and "push_frames e fs s = (out, s')"
  shows "prefix_ok e a (sent @ out) r' s'"
proof -
  obtain c where c: "check_events a check_init (sent @ held s) = Inr c" "asm.whole.tracks r c"
    using assms(1) by (auto simp: prefix_ok_def)
  have g: "yields g r = fs" "after g r = r'" using assms(3) by (simp_all add: yields_def after_def)
  obtain c' where c': "check_events a c fs = Inr c'" "asm.whole.tracks r' c'"
    using asm.whole.soundD [OF assms(2) c(2)] g by auto
  have h: "hb_ok (en_size e) (rs_holdback s)" using assms(1) by (simp add: prefix_ok_def)
  note P = push_frames_run [OF assms(4) h]
  have "check_events a check_init (sent @ held s @ fs) = Inr c'"
    using c(1) c'(1) by (metis append.assoc check_events_append rbind.simps(2))
  then have "check_events a check_init ((sent @ out) @ held s') = Inr c'" using P by simp
  with P c'(2) assms(1) show ?thesis by (auto simp: prefix_ok_def)
qed

lemma attempt_prefix:
  assumes "prefix_ok e a sent r s" and "attempt e r s = (res, out, r', s')"
  shows "prefix_ok e a (sent @ out) r' s'"
    and "res = None \<Longrightarrow> quiet_bufs r \<Longrightarrow> quiet_bufs r'"
proof -
  let ?r = "r\<lparr>rn_calls := Suc (rn_calls r)\<rparr>"
  have p1: "prefix_ok e a sent ?r s" by (rule prefix_ok_field [OF assms(1)]) simp_all
  have "prefix_ok e a (sent @ out) r' s' \<and> (res = None \<longrightarrow> quiet_bufs r \<longrightarrow> quiet_bufs r')"
  proof (cases "en_upstream e (rn_calls r) (rn_body r)")
    case (OpenFails x)
    with assms(2) p1 show ?thesis by (auto simp: attempt_def)
  next
    case (Streams body chunks ending)
    let ?r2 = "?r\<lparr>rn_body := body, rn_aliases := en_aliases_of e body\<rparr>"
    obtain fs x r3 where g: "gfor (chunk_step e) chunks ?r2 = (fs, x, r3)" by (cases "gfor (chunk_step e) chunks ?r2")
    obtain o1 s1 where q: "push_frames e fs s = (o1, s1)" by fastforce
    have res: "out = o1" "r' = r3" "s' = s1" "res = None \<Longrightarrow> x = None"
      using assms(2) Streams g q by (auto simp: attempt_def split: option.splits if_splits)
    have "prefix_ok e a sent ?r2 s" by (rule prefix_ok_field [OF assms(1)]) simp_all
    then have "prefix_ok e a (sent @ out) r' s'"
      using prefix_ok_push [OF _ rs_chunks g q] res by simp
    moreover have "calm (gfor (chunk_step e) chunks)" by (intro calm_for calm_chunk)
    then have "x = None \<Longrightarrow> quiet_bufs ?r2 \<Longrightarrow> quiet_bufs r3"
      using g unfolding calm_def by (auto simp: raised_def after_def dest: spec [of _ ?r2])
    ultimately show ?thesis using res by simp
  qed
  then show "prefix_ok e a (sent @ out) r' s'" and "res = None \<Longrightarrow> quiet_bufs r \<Longrightarrow> quiet_bufs r'" by auto
qed

lemma final_error_closes:
  assumes p: "prefix_ok e True sent r s" and "fd_committed d = gone s" and "fd_has_buffered d = hb_has_buffered (rs_holdback s)"
  shows "closes_stream True check_init (sent @ final_error e x d r s)"
proof -
  obtain c where c: "check_events True check_init (sent @ held s) = Inr c" "asm.whole.tracks r c"
    and h: "hb_ok (en_size e) (rs_holdback s)" and n: "\<not> gone s \<longrightarrow> sent = []"
    using p by (auto simp: prefix_ok_def)
  note tail = closes_stream_append [OF c(1) error_tail_closes [OF whole_part [OF c(2)], of "en_error_message e x"]]
  have new: "closes_stream True check_init (yields (emit_error_tail m) (r\<lparr>as_sse := new_builder e\<rparr>))" for m
    by (rule error_tail_closes [OF tracks_new [of _ e]]) simp
  show ?thesis
    using tail new n flush_held [OF h] h assms(2,3)
    by (cases "gone s") (auto simp: final_error_def Let_def hb_has_buffered_def hb_ok_def)
qed

lemma on_failure_closes:
  assumes p: "prefix_ok e True sent r s" and f: "on_failure e x opened r s = (out, None)"
  shows "closes_stream True check_init (sent @ out)"
proof -
  define gen where "gen = has_committed_sse_output (as_sse r)"
  define salv where "salv \<longleftrightarrow> gen \<and> has_emitted_tool_block (sb_blocks (as_sse r)) \<and>
      all_started_tools_complete (en_validator e) (en_tools e) (as_sse r)"
  obtain d s1 where adv: "advance_failure x opened gen salv s = (d, s1)" by fastforce
  have f': "on_failure e x opened r s = (case fd_action d of
           EARLY_RETRY \<Rightarrow> ([], Some (reset_runner e r, s1))
         | MIDSTREAM_RECOVERY \<Rightarrow>
             (case recovery_events e x r of
                (events, None, _) \<Rightarrow> (fst (flush_uncommitted d s1) @ events, None)
              | (_, Some _, r') \<Rightarrow> (final_error e x d r' s1, None))
         | FINAL_ERROR \<Rightarrow> (final_error e x d r s1, None))"
    using adv [unfolded salv_def gen_def] by (simp add: on_failure_def Let_def)
  have nr: "fd_action d \<noteq> EARLY_RETRY" using f f' by auto
  then have d: "s1 = s" "fd_committed d = gone s" "fd_has_buffered d = hb_has_buffered (rs_holdback s)"
    using adv by (auto simp: advance_failure_def Let_def split: if_splits)
  obtain c where c: "check_events True check_init (sent @ held s) = Inr c" "asm.whole.tracks r c"
    and h: "hb_ok (en_size e) (rs_holdback s)" and n: "\<not> gone s \<longrightarrow> sent = []"
    using p by (auto simp: prefix_ok_def)
  show ?thesis
  proof (cases "fd_action d")
    case MIDSTREAM_RECOVERY
    obtain ev z r' where rec: "recovery_events e x r = (ev, z, r')" by (cases "recovery_events e x r")
    note R = recovery_result [OF c(2), where e = e and x = x and a = True]
    show ?thesis
    proof (cases z)
      case None
      have "closes_stream True c ev" using R rec None by (simp add: raised_def yields_def)
      from closes_stream_append [OF c(1) this]
      have "closes_stream True check_init (sent @ held s @ ev)" by simp
      moreover have "out = (if gone s then [] else held s) @ ev"
        using f f' MIDSTREAM_RECOVERY rec None d flush_held [OF h] by (auto simp: flush_uncommitted_def)
      ultimately show ?thesis using h by (auto simp: hb_ok_def)
    next
      case (Some y)
      have "asm.whole.tracks r' c" using R rec Some by (simp add: raised_def after_def)
      then have "prefix_ok e True sent r' s" using c h n by (auto simp: prefix_ok_def)
      from final_error_closes [OF this, of d x] show ?thesis
        using f f' MIDSTREAM_RECOVERY rec Some d by simp
    qed
  next
    case FINAL_ERROR
    with final_error_closes [OF p, of d x] f f' d show ?thesis by simp
  qed (use nr in simp)
qed

lemma on_failure_again:
  assumes p: "prefix_ok e True sent r s" and f: "on_failure e x opened r s = (out, Some (r', s'))"
  shows "out = []" "sent = []" "prefix_ok e True [] r' s'" "quiet_bufs r'"
proof -
  note R = on_failure_retry [OF f]
  show "out = []" by (rule R(3))
  show "sent = []" using p R(4) by (simp add: prefix_ok_def)
  have r': "as_sse r' = new_builder e" "as_alias_buffers r' = Some []"
    using R(5) by (simp_all add: reset_runner_def)
  show "prefix_ok e True [] r' s'"
    using whole_tracks_new [OF r'] R(6) hb_ok_new by (auto simp: prefix_ok_def hb_events_new)
  show "quiet_bufs r'" by (rule quiet_new_builder [OF r'(1)])
qed

lemma run_loop_closes:
  "prefix_ok e True sent r s \<Longrightarrow> quiet_bufs r \<Longrightarrow>
   snd (run_loop e r s) = None \<and> closes_stream True check_init (sent @ fst (run_loop e r s))"
proof (induction e r s arbitrary: sent rule: run_loop.induct)
  case (1 e r s)
  obtain res out r1 s1 where att: "attempt e r s = (res, out, r1, s1)" by (cases "attempt e r s")
  note A = attempt_prefix [OF "1.prems"(1) att]
  show ?case
  proof (cases res)
    case None
    have q: "quiet_bufs r1" using A(2) None "1.prems"(2) by simp
    obtain c where c: "check_events True check_init ((sent @ out) @ held s1) = Inr c" "asm.whole.tracks r1 c"
      and h: "hb_ok (en_size e) (rs_holdback s1)"
      using A(1) by (auto simp: prefix_ok_def)
    obtain fs z r2 where fin: "finish_stream e r1 = (fs, z, r2)" by (cases "finish_stream e r1")
    note F = finish_closes(1) [OF c(2) q, where e = e and a = True] finish_closes(2) [OF c(2) q, where e = e]
    have z: "z = None" "closes_stream True c fs" using F fin by (simp_all add: raised_def yields_def)
    obtain o2 s2 where push: "push_frames e fs s1 = (o2, s2)" by fastforce
    note P = push_frames_run [OF push h]
    have "fst (session_flush s2) = held s2" using P by (intro flush_held) blast
    then have eq: "run_loop e r s = (out @ o2 @ held s2, None)"
      by (subst run_loop.simps) (simp add: att None fin z(1) push)
    have "closes_stream True check_init (((sent @ out) @ held s1) @ fs)"
      by (rule closes_stream_append [OF c(1) z(2)])
    moreover have "((sent @ out) @ held s1) @ fs = sent @ out @ o2 @ held s2" using P by simp
    ultimately show ?thesis by (simp add: eq)
  next
    case (Some p)
    obtain opened x where p: "p = (opened, x)" by (cases p)
    obtain o2 next_state where fail: "on_failure e x opened r1 s1 = (o2, next_state)" by fastforce
    show ?thesis
    proof (cases next_state)
      case None
      have "closes_stream True check_init ((sent @ out) @ o2)"
        using on_failure_closes [OF A(1)] fail None by simp
      moreover have "run_loop e r s = (out @ o2, None)"
        by (subst run_loop.simps) (simp add: att Some p fail None)
      ultimately show ?thesis by simp
    next
      case again: (Some q)
      obtain r2 s2 where q: "q = (r2, s2)" by (cases q)
      note B = on_failure_again [OF A(1) fail [unfolded again q]]
      have "snd (run_loop e r2 s2) = None \<and> closes_stream True check_init ([] @ fst (run_loop e r2 s2))"
        by (rule "1.IH") (use att Some p fail again q B in auto)
      moreover have "run_loop e r s = (out @ o2 @ fst (run_loop e r2 s2), snd (run_loop e r2 s2))"
        by (subst run_loop.simps) (simp add: att Some p fail again q split_beta)
      ultimately show ?thesis using B(1,2) by simp
    qed
  qed
qed

section \<open>Properties\<close>

text \<open>
  C1: whatever the upstream does - chunks in any order, failures at any point, retries,
  midstream recovery, repairs - the client receives a stream that satisfies the Anthropic
  contract: a \<open>message_start\<close>, every block opened once at a fresh index, extended only by
  deltas of its kind and closed once, at least one block, and a final \<open>message_stop\<close>; and no
  exception escapes the run.
\<close>

theorem openai_stream_contract:
  "stream_contract (fst (run e)) True = Inr () \<and> snd (run e) = None"
proof -
  have q: "quiet_bufs (new_runner e)" by (rule quiet_new_builder [where e = e]) (simp add: new_runner_def)
  have t: "asm.whole.tracks (new_runner e) check_init"
    by (rule whole_tracks_new [where e = e]) (simp_all add: new_runner_def)
  have p: "prefix_ok e True [] (new_runner e) new_recovery_session"
    using t by (simp add: prefix_ok_def new_recovery_session_def hb_ok_new hb_events_new)
  note R = run_loop_closes [OF p q]
  let ?out = "fst (run_loop e (new_runner e) new_recovery_session)"
  have "stream_contract (message_start (as_sse (new_runner e)) # ?out) True = Inr ()"
    using R by (auto simp: closes_stream_def stream_contract_def check_inert last_map)
  with R show ?thesis by (simp add: run_def Let_def split_beta)
qed

end
