(* ===== verification/OpenAI_Text.thy ===== *)
theory OpenAI_Text
  imports OpenAI_Stream
begin

text \<open>
  What the client reads is what the builder remembers: through every step on an upstream chunk,
  the text and thinking deltas that go out extend the builder's accumulated text and reasoning
  by exactly their content.  Recovery compares its continuation with these two strings.
\<close>

section \<open>Accounting for text and thinking\<close>

definition acc_step :: "sse_builder \<Rightarrow> frame list \<Rightarrow> sse_builder \<Rightarrow> bool" where
  "acc_step b fs b' \<longleftrightarrow>
     accumulated_text b' = accumulated_text b @ text_content fs \<and>
     accumulated_reasoning b' = accumulated_reasoning b @ thinking_content fs"

definition acc :: "('a assembler_scheme \<Rightarrow> frame list \<times> 'x option \<times> 'a assembler_scheme) \<Rightarrow> bool" where
  "acc g \<longleftrightarrow> (\<forall>s. acc_step (as_sse s) (yields g s) (as_sse (after g s)))"

definition bacc :: "sse_builder builder_gen \<Rightarrow> bool" where
  "bacc g \<longleftrightarrow> (\<forall>b. acc_step b (yields g b) (after g b))"

lemma acc_step_refl: "acc_step b [] b'"
  if "sb_text_parts b' = sb_text_parts b" "sb_reasoning_parts b' = sb_reasoning_parts b"
  using that by (simp add: acc_step_def accumulated_text_def accumulated_reasoning_def)

lemma acc_step_trans: "acc_step b fs b' \<Longrightarrow> acc_step b' gs b'' \<Longrightarrow> acc_step b (fs @ gs) b''"
  by (simp add: acc_step_def)

lemma acc_rules:
  "acc gskip" "acc (graise x)" "acc g \<Longrightarrow> acc h \<Longrightarrow> acc (gseq g h)"
  "(\<And>b. acc (k b)) \<Longrightarrow> acc (gread k)" "acc g \<Longrightarrow> acc (gwhen c g)"
  by (auto simp: acc_def gen_simps acc_step_refl intro: acc_step_trans)

lemma bacc_rules:
  "bacc gskip" "bacc (graise x)" "bacc g \<Longrightarrow> bacc h \<Longrightarrow> bacc (gseq g h)"
  "(\<And>b. bacc (k b)) \<Longrightarrow> bacc (gread k)" "bacc g \<Longrightarrow> bacc (gwhen c g)"
  by (auto simp: bacc_def gen_simps acc_step_refl intro: acc_step_trans)

lemma acc_for: "(\<And>x. acc (g x)) \<Longrightarrow> acc (gfor g xs)"
  by (induction xs) (auto intro: acc_rules)

lemma bacc_for: "(\<And>x. bacc (g x)) \<Longrightarrow> bacc (gfor g xs)"
  by (induction xs) (auto intro: bacc_rules)

lemma acc_on_sse: "bacc g \<Longrightarrow> acc (on_sse g)"
  by (simp add: acc_def bacc_def gen_simps)

lemma acc_same:
  "(\<And>s. sb_text_parts (as_sse (f s)) = sb_text_parts (as_sse s)) \<Longrightarrow>
   (\<And>s. sb_reasoning_parts (as_sse (f s)) = sb_reasoning_parts (as_sse s)) \<Longrightarrow> acc (gdo f)"
  by (simp add: acc_def gen_simps acc_step_refl)

lemma acc_field: "(\<And>s. as_sse (f s) = as_sse s) \<Longrightarrow> acc (gdo f)"
  by (rule acc_same) simp_all

lemma acc_on_blocks: "acc (gdo (on_blocks f))"
  by (rule acc_same) (simp_all add: on_blocks_def)

section \<open>What each frame shows\<close>

lemma shown_start:
  "event_text (content_block_start i ''thinking'' []) = []" "event_text (content_block_start i ''text'' []) = []"
  "event_text (content_block_start i ''tool_use'' kw) = []" "event_thinking (content_block_start i t kw) = []"
  by (simp_all add: event_text_def event_thinking_def block_of_def delta_of_def content_block_start_def Let_def py_str_def)

lemma shown_delta:
  "event_text (content_block_delta i ''text_delta'' s) = s" "event_thinking (content_block_delta i ''text_delta'' s) = []"
  "event_text (content_block_delta i ''thinking_delta'' s) = []"
  "event_thinking (content_block_delta i ''thinking_delta'' s) = s"
  "event_text (content_block_delta i ''input_json_delta'' s) = []"
  "event_thinking (content_block_delta i ''input_json_delta'' s) = []"
  by (simp_all add: event_text_def event_thinking_def block_of_def delta_of_def content_block_delta_def Let_def py_str_def)

lemma shown_stop: "event_text (content_block_stop i) = []" "event_thinking (content_block_stop i) = []"
  by (simp_all add: event_text_def event_thinking_def block_of_def delta_of_def content_block_stop_def)

lemmas shown = shown_start shown_delta shown_stop

section \<open>Every builder step accounts for its frames\<close>

lemma bacc_gyield:
  assumes "\<And>b. acc_step b [fst (f b)] (snd (f b))"
  shows "bacc (gyield f)"
  using assms by (simp add: bacc_def gen_simps)

lemmas acc_unfold = acc_step_def accumulated_text_def accumulated_reasoning_def shown

lemma bacc_blocks:
  "bacc (gyield start_thinking_block)" "bacc (gyield start_text_block)" "bacc (gyield stop_thinking_block)"
  "bacc (gyield stop_text_block)" "bacc (gyield (emit_thinking_delta t))" "bacc (gyield (emit_text_delta t))"
  "bacc (gyield (start_tool_block i tid nm x))"
  by (intro bacc_gyield; simp add: acc_unfold block_steps start_tool_block_def)+

lemma bacc_tool_delta: "bacc (emit_tool_delta i t)"
  by (auto simp: bacc_def emit_tool_delta_def gen_simps acc_unfold split: option.split)

lemma bacc_ensure:
  "bacc ensure_thinking_block" "bacc ensure_text_block" "bacc close_content_blocks"
  unfolding ensure_thinking_block_def ensure_text_block_def close_content_blocks_def
  by (intro bacc_rules bacc_blocks)+

lemma bacc_write: "bacc (write_thinking t)" "bacc (write_text t)"
  unfolding write_thinking_def write_text_def by (intro bacc_rules bacc_blocks bacc_ensure)+

lemma bacc_heuristic: "bacc (iter_heuristic_tool_use_sse tu)"
  unfolding iter_heuristic_tool_use_sse_def Let_def
  by (intro bacc_rules bacc_ensure bacc_gyield) (simp_all add: acc_unfold)

lemma bacc_task_arg: "bacc (task_arg_step i args)"
proof -
  have "bacc (emit_parsed_task i r)" for r
    unfolding emit_parsed_task_def by (auto split: sum.split option.split intro: bacc_rules bacc_tool_delta)
  moreover have "bacc (gdo (upd_blocks f))" for f
    by (simp add: bacc_def gen_simps acc_step_refl)
  ultimately show ?thesis unfolding task_arg_step_def by (intro bacc_rules)
qed

lemmas acc_write = acc_on_sse [OF bacc_write(1)] acc_on_sse [OF bacc_write(2)]
  acc_on_sse [OF bacc_ensure(3)] acc_on_sse [OF bacc_heuristic]

lemma acc_if: "(c \<Longrightarrow> acc g) \<Longrightarrow> (\<not> c \<Longrightarrow> acc h) \<Longrightarrow> acc (if c then g else h)"
  by simp

lemma acc_arg_delta: "acc (emit_tool_arg_delta al i args)"
  unfolding emit_tool_arg_delta_def emit_aliased_arg_def Let_def
  by (auto split: option.splits intro!: acc_rules acc_on_sse acc_field bacc_tool_delta bacc_task_arg)

lemma acc_pre_start: "acc (flush_pre_start al i)"
  unfolding flush_pre_start_def
  by (auto split: option.split intro!: acc_rules acc_on_blocks acc_arg_delta)

lemma acc_start: "acc (start_tool uuid al tc i state rn)"
  unfolding start_tool_def Let_def
  by (intro acc_rules acc_field acc_on_sse bacc_blocks acc_pre_start) (simp_all split: option.split)

lemma acc_process: "acc (process_tool_call uuid al tc)"
proof -
  have ens: "acc (gdo (\<lambda>s. if b then on_blocks f s else s) :: ('a assembler_scheme) builder_gen)" for b f
    by (rule acc_same) (simp_all add: on_blocks_def)
  have rec: "acc (gdo (\<lambda>s. case (x, y) of (Some st, Some d) \<Rightarrow> if tc_tool_id st \<noteq> [] then record_extra (tc_tool_id st) d s else s
      | _ \<Rightarrow> s) :: ('a assembler_scheme) builder_gen)" for x y
    by (rule acc_field) (simp split: option.split)
  have "acc (tool_arguments_step al tc i rn :: ('a assembler_scheme) builder_gen)" for i rn
    unfolding tool_arguments_step_def Let_def by (intro acc_rules acc_if rec ens acc_on_blocks acc_arg_delta)
  then show ?thesis
    unfolding process_tool_call_def Let_def by (intro acc_rules acc_on_blocks acc_start)
qed

lemma acc_chunk: "acc (chunk_step e c)"
proof -
  have ht: "acc (heuristic_text e t)" for t
    unfolding heuristic_text_def split_beta by (intro acc_rules acc_for acc_write acc_field) simp
  have pt: "acc (content_part e part)" for part
    unfolding content_part_def by (intro acc_if acc_rules acc_write ht)
  have ct: "acc (content_delta e t)" for t
    unfolding content_delta_def split_beta by (intro acc_rules acc_for pt acc_field) simp
  have tl: "acc (tool_calls_delta e tcs)" for tcs
    unfolding tool_calls_delta_def by (intro acc_rules acc_for acc_write acc_process)
  have dl: "acc (delta_step e d)" for d
    unfolding delta_step_def
    by (cases "cd_reasoning d"; cases "cd_content d"; simp only: option.case) (intro acc_rules acc_write ct tl)+
  have u: "acc (gdo (\<lambda>s. if truthy (ck_usage c) then s\<lparr>rn_usage := ck_usage c\<rparr> else s) :: runner_gen)"
    by (rule acc_field) simp
  have f: "acc (gdo (\<lambda>s. case x of Some f \<Rightarrow> if f \<noteq> [] then s\<lparr>rn_finish_reason := Some f\<rparr> else s | None \<Rightarrow> s) :: runner_gen)" for x
    by (rule acc_field) (simp split: option.split)
  show ?thesis
    unfolding chunk_step_def
    by (cases "ck_choice c"; cases "ch_delta (the (ck_choice c))"; simp) (intro acc_rules u f dl)+
qed

section \<open>Properties\<close>

text \<open>
  C3: after any sequence of upstream chunks, the text and the thinking of the frames yielded so
  far are exactly the builder's accumulated text and reasoning, the strings recovery continues.
\<close>

theorem emitted_text_is_accumulated:
  "let g = gfor (chunk_step e) chunks; b = as_sse (after g (new_runner e)); fs = yields g (new_runner e)
   in text_content fs = accumulated_text b \<and> thinking_content fs = accumulated_reasoning b"
proof -
  have "acc (gfor (chunk_step e) chunks)" by (intro acc_for acc_chunk)
  then have "acc_step (as_sse (new_runner e)) (yields (gfor (chunk_step e) chunks) (new_runner e))
      (as_sse (after (gfor (chunk_step e) chunks) (new_runner e)))"
    by (simp add: acc_def)
  then show ?thesis
    by (simp add: acc_step_def Let_def new_runner_def new_builder_def new_sse_builder_def
        accumulated_text_def accumulated_reasoning_def)
qed

definition name_fragment :: "int \<Rightarrow> string \<Rightarrow> string \<Rightarrow> tool_delta" where
  "name_fragment i tid nm = \<lparr>td_index = JInt i, td_id = JStr tid, td_name = Some nm, td_arguments = None,
     td_extra_content = JNull\<rparr>"



lemmas frag_simps = name_fragment_def note_tool_delta_def delta_extra_def set_stream_tool_id_def
  set_tool_extra_content_def ensure_tool_state_def set_tool_def register_tool_name_def new_tool_state_def
  
lemma note_first_fragment:
  assumes "map_of (tool_states m) i = None" "tid \<noteq> []"
  shows "map_of (tool_states (note_tool_delta (name_fragment i tid nm) i m)) i =
           Some ((new_tool_state (-1) [] nm)\<lparr>tc_tool_id := tid\<rparr>)"
  using assms by (simp add: frag_simps dict_simps Let_def py_str_def)

lemma note_later_fragment:
  assumes "map_of (tool_states m) i = Some st" "tc_started st"
  shows "\<exists>st'. map_of (tool_states (note_tool_delta (name_fragment i tid nm) i m)) i = Some st' \<and> tc_started st'"
  using assms by (simp add: frag_simps dict_simps Let_def split: if_splits)

lemma fragment_index: "0 \<le> i \<Longrightarrow> tool_index_of (name_fragment i tid nm) s = i"
  by (simp add: tool_index_of_def name_fragment_def)

lemma fragment_args_silent:
  "yields (tool_arguments_step al (name_fragment i tid nm) i rn) s = []"
  "tools_of (after (tool_arguments_step al (name_fragment i tid nm) i rn) s) = tools_of s"
  by (simp_all add: tool_arguments_step_def name_fragment_def delta_extra_def gen_simps Let_def split: option.split)

lemma later_fragment_silent:
  assumes "map_of (tools_of s) i = Some st" "tc_started st" "0 \<le> i" 
  shows "yields (process_tool_call uuid al (name_fragment i tid nm)) s = []"
proof -
  obtain st' where "map_of (tool_states (note_tool_delta (name_fragment i tid nm) i (sb_blocks (as_sse s)))) i = Some st'" "tc_started st'"
    using note_later_fragment [OF assms(1,2)] by blast
  then show ?thesis
    using assms(3) by (simp add: process_tool_call_def Let_def gen_simps fragment_index on_blocks_def fragment_args_silent)
qed

lemma start_fragment:
  fixes uuid al
  assumes "map_of (tools_of s) i = Some ((new_tool_state (-1) [] nm)\<lparr>tc_tool_id := tid\<rparr>)" "tid \<noteq> []"
  defines "g \<equiv> start_tool uuid al (name_fragment i tid nm) i (Some ((new_tool_state (-1) [] nm)\<lparr>tc_tool_id := tid\<rparr>)) nm"
  shows "\<exists>n kw. yields g s = [content_block_start n ''tool_use'' ((''id'', JStr tid) # (''name'', JStr (py_strip nm)) # kw)]"
    "\<exists>st. map_of (tools_of (after g s)) i = Some st \<and> tc_started st" "raised g s = None"
  using assms(1,2) unfolding g_def
  by (simp_all add: dict_simps start_tool_def gen_simps flush_pre_start_def start_tool_block_def allocate_index_def put_sse_def set_tool_def new_tool_state_def
     split_beta stored_extra_def delta_extra_def name_fragment_def py_str_def) blast

lemma first_fragment:
  fixes uuid al
  assumes "map_of (tools_of s) i = None" and "0 \<le> i" and "tid \<noteq> []" and "py_strip nm \<noteq> []"
  defines "g \<equiv> process_tool_call uuid al (name_fragment i tid nm)"
  shows "\<exists>n kw. yields g s = [content_block_start n ''tool_use'' ((''id'', JStr tid) # (''name'', JStr (py_strip nm)) # kw)]"
    "\<exists>st. map_of (tools_of (after g s)) i = Some st \<and> tc_started st"
proof -
  let ?s = "on_blocks (note_tool_delta (name_fragment i tid nm) i) s"
  have m: "map_of (tools_of ?s) i = Some ((new_tool_state (-1) [] nm)\<lparr>tc_tool_id := tid\<rparr>)"
    using note_first_fragment [OF assms(1,3)] by (simp add: on_blocks_def)
  note st = start_fragment [OF m assms(3), where uuid = uuid and al = al]
  from st assms show "\<exists>n kw. yields g s = [content_block_start n ''tool_use'' ((''id'', JStr tid) # (''name'', JStr (py_strip nm)) # kw)]"
     "\<exists>st. map_of (tools_of (after g s)) i = Some st \<and> tc_started st"
    by (simp_all add: g_def process_tool_call_def gen_simps fragment_index m fragment_args_silent Let_def)
      (simp_all add: new_tool_state_def)?
qed

text \<open>
  A tool call whose name arrives in fragments is announced with its first non-blank
  fragment only: the block opens at once under that fragment, and the delta carrying the rest of
  the name sends nothing.
\<close>

lemma split_tool_name_truncated:
  fixes s :: "'a assembler_scheme"
  assumes "map_of (tools_of s) i = None" and "0 \<le> i" and "tid \<noteq> []" and "py_strip nm \<noteq> []"
  shows "let g = process_tool_call uuid al (name_fragment i tid nm) in
     (\<exists>n kw. yields g s = [content_block_start n ''tool_use'' ((''id'', JStr tid) # (''name'', JStr (py_strip nm)) # kw)]) \<and>
     yields (process_tool_call uuid al (name_fragment i tid rest)) (after g s) = []"
  using first_fragment [OF assms, where uuid = uuid and al = al] later_fragment_silent [OF _ _ assms(2)]
  unfolding Let_def by metis

lemma split_tool_name_truncated_example:
  "let g = process_tool_call (\<lambda>_. []) [] (name_fragment 0 ''call_1'' ''Re'');
       s = \<lparr>as_sse = new_sse_builder ''m'' ''x'' (JInt 0), as_alias_buffers = None, as_recorded = [], as_uuids = 0\<rparr>
   in (\<exists>n kw. yields g s = [content_block_start n ''tool_use'' ((''id'', JStr ''call_1'') # (''name'', JStr (py_strip ''Re'')) # kw)]) \<and>
     yields (process_tool_call (\<lambda>_. []) [] (name_fragment 0 ''call_1'' ''ad'')) (after g s) = []"
  unfolding Let_def
  by (rule split_tool_name_truncated [unfolded Let_def]) (simp_all add: new_sse_builder_def new_block_manager_def py_lstrip_def py_rstrip_def py_strip_def is_space_def)

end
