(* ===== verification/Sse_Text.thy ===== *)
theory Sse_Text
  imports Builder_Tracking
begin

text \<open>
  The text of an event stream: the line parser of \<open>core/anthropic/stream_contracts.py\<close> against the
  writers \<open>format_sse_event\<close> and \<open>format_native_sse_event\<close>.

  A blank line ends an event, so a text is parsed frame by frame; the locale \<open>payload_codec\<close> is what
  a reader asks of the JSON encoder that wrote a payload, and inside it a written sequence of frames
  is read back.  \<open>json.dumps\<close> with its default style is an interpretation, and so is the compact
  style that leaves the upper half of the alphabet as it is, on payloads without line breaks.
\<close>

section \<open>Lines\<close>

lemma LF_simps [simp]: "is_linebreak LF" "is_linebreak CR" "LF \<noteq> CR" "CR \<noteq> LF"
  by (simp_all add: is_linebreak_def LF_def CR_def)

lemma splitlines_aux_LF:
  "splitlines_aux acc (s @ LF # t) = splitlines_aux acc (s @ [LF]) @ splitlines_aux [] t"
proof (induction acc s rule: splitlines_aux.induct)
  case (1 acc)
  then show ?case by (cases t) simp_all
next
  case (2 acc c)
  then show ?case by (cases t) simp_all
next
  case (3 acc c d s)
  then show ?case by simp
qed

lemma splitlines_LF: "py_splitlines (s @ LF # t) = py_splitlines (s @ [LF]) @ py_splitlines t"
  unfolding py_splitlines_def by (rule splitlines_aux_LF)

lemma splitlines_aux_end:
  "splitlines_aux acc (s @ [LF]) = splitlines_aux acc s \<or>
   splitlines_aux acc (s @ [LF]) = splitlines_aux acc s @ [[]]"
proof (induction acc s rule: splitlines_aux.induct)
  case (3 acc c d s)
  then show ?case by auto
qed auto

lemma splitlines_end:
  "py_splitlines (s @ [LF]) = py_splitlines s \<or> py_splitlines (s @ [LF]) = py_splitlines s @ [[]]"
  unfolding py_splitlines_def by (rule splitlines_aux_end)

lemma splitlines_aux_clean:
  "list_all (\<lambda>c. \<not> is_linebreak c) s \<Longrightarrow> splitlines_aux acc (s @ [LF]) = [rev acc @ s]"
proof (induction acc s rule: splitlines_aux.induct)
  case (2 acc c)
  then have "c \<noteq> CR" by auto
  with 2 show ?case by simp
next
  case (3 acc c d s)
  then have "c \<noteq> CR" by auto
  with 3 show ?case by simp
qed simp

lemma splitlines_clean: "list_all (\<lambda>c. \<not> is_linebreak c) s \<Longrightarrow> py_splitlines (s @ [LF]) = [s]"
  by (simp add: py_splitlines_def splitlines_aux_clean)

lemma splitlines_aux_line:
  "list_all (\<lambda>c. \<not> is_linebreak c) s \<Longrightarrow> acc \<noteq> [] \<or> s \<noteq> [] \<Longrightarrow> splitlines_aux acc s = [rev acc @ s]"
proof (induction acc s rule: splitlines_aux.induct)
  case (3 acc c d s)
  then have "c \<noteq> CR" by auto
  with 3 show ?case by simp
qed auto

lemma splitlines_line: "list_all (\<lambda>c. \<not> is_linebreak c) s \<Longrightarrow> s \<noteq> [] \<Longrightarrow> py_splitlines s = [s]"
  by (simp add: py_splitlines_def splitlines_aux_line)

lemma splitlines_blank: "py_splitlines [LF] = [[]]"
  by (simp add: py_splitlines_def)

section \<open>Parsing by frames\<close>

definition parse_start :: sse_parse_state where
  "parse_start = \<lparr>ps_events = [], ps_event = [], ps_data = [], ps_raw = []\<rparr>"

definition parse_flush :: "sse_parse_state \<Rightarrow> sse_event list" where
  "parse_flush st = append_event (ps_events st) (ps_event st) (ps_data st) (ps_raw st)"

abbreviation with_events :: "sse_event list \<Rightarrow> sse_parse_state \<Rightarrow> sse_parse_state" where
  "with_events es st \<equiv> st\<lparr>ps_events := es @ ps_events st\<rparr>"

lemma parse_sse_lines_alt: "parse_sse_lines ls = parse_flush (foldl parse_sse_line parse_start ls)"
  by (simp add: parse_sse_lines_def parse_start_def parse_flush_def Let_def)

lemma append_event_front: "append_event (es @ fs) n d r = es @ append_event fs n d r"
  by (simp add: append_event_def Let_def)

lemma parse_line_front: "parse_sse_line (with_events es st) l = with_events es (parse_sse_line st l)"
  by (simp add: parse_sse_line_def Let_def append_event_front)

lemma parse_lines_front:
  "foldl parse_sse_line (with_events es st) ls = with_events es (foldl parse_sse_line st ls)"
  by (induction ls arbitrary: st) (simp_all add: parse_line_front)

lemma parse_flush_front: "parse_flush (with_events es st) = es @ parse_flush st"
  by (simp add: parse_flush_def append_event_front)

lemma parse_blank: "parse_sse_line st [] = with_events (parse_flush st) parse_start"
  by (simp add: parse_sse_line_def rstrip_crlf_def parse_flush_def parse_start_def)

lemma parse_start_flush [simp]: "parse_flush parse_start = []"
  by (simp add: parse_flush_def parse_start_def append_event_def)

lemma parse_lines_blank: "parse_sse_lines (ls @ [] # ms) = parse_sse_lines ls @ parse_sse_lines ms"
  by (simp add: parse_sse_lines_alt parse_blank parse_lines_front parse_flush_front)

lemma parse_lines_trailing: "parse_sse_lines (ls @ [[]]) = parse_sse_lines ls"
  using parse_lines_blank [of ls "[]"] by (simp add: parse_sse_lines_alt)

text \<open>A blank line separates: what stands before it and after it is parsed on its own.\<close>

lemma parse_text_frames: "parse_sse_text (s @ [LF, LF] @ t) = parse_sse_text s @ parse_sse_text t"
proof -
  have "py_splitlines (s @ [LF, LF] @ t) = py_splitlines (s @ [LF]) @ [] # py_splitlines t"
    using splitlines_LF [of s "LF # t"] splitlines_LF [of "[]" t] by (simp add: splitlines_blank)
  then have "parse_sse_text (s @ [LF, LF] @ t) = parse_sse_lines (py_splitlines (s @ [LF])) @ parse_sse_text t"
    by (simp add: parse_sse_text_def parse_lines_blank)
  moreover have "parse_sse_lines (py_splitlines (s @ [LF])) = parse_sse_text s"
    using splitlines_end [of s] by (auto simp: parse_sse_text_def parse_lines_trailing)
  ultimately show ?thesis by simp
qed

lemma parse_text_empty [simp]: "parse_sse_text [] = []"
  by (simp add: parse_sse_text_def py_splitlines_def parse_sse_lines_alt)

lemma parse_text_end: "parse_sse_text (s @ [LF, LF]) = parse_sse_text s"
  using parse_text_frames [of s "[]"] by simp

text \<open>A text that ends between two frames.\<close>

definition terminated :: "string \<Rightarrow> bool" where
  "terminated s \<longleftrightarrow> s = [] \<or> suffix [LF, LF] s"

lemma terminated_simps [simp]: "terminated []" "suffix [LF, LF] s \<Longrightarrow> terminated s"
  by (simp_all add: terminated_def)

lemma parse_text_append: "terminated s \<Longrightarrow> parse_sse_text (s @ t) = parse_sse_text s @ parse_sse_text t"
  using parse_text_frames parse_text_end by (auto simp: terminated_def suffix_def)

lemma terminated_append: "terminated s \<Longrightarrow> terminated t \<Longrightarrow> terminated (s @ t)"
  by (auto simp: terminated_def suffix_def)

lemma terminated_concat: "\<forall>s \<in> set ss. terminated s \<Longrightarrow> terminated (concat ss)"
  by (induction ss) (simp_all add: terminated_append)

lemma parse_text_concat: "\<forall>s \<in> set ss. terminated s \<Longrightarrow> parse_sse_text (concat ss) = concat (map parse_sse_text ss)"
  by (induction ss) (simp_all add: parse_text_append)

section \<open>One written frame\<close>

definition clean :: "string \<Rightarrow> bool" where
  "clean s \<longleftrightarrow> list_all (\<lambda>c. \<not> is_linebreak c) s \<and> py_strip s = s \<and> s \<noteq> []"

definition written :: "string \<Rightarrow> string \<Rightarrow> string" where
  "written n p = ''event: '' @ n @ [LF] @ ''data: '' @ p @ [LF, LF]"

lemma written_split:
  assumes "clean n" and "clean p"
  shows "py_splitlines (''event: '' @ n @ [LF] @ ''data: '' @ p @ [LF]) = [''event: '' @ n, ''data: '' @ p]"
proof -
  have *: "list_all (\<lambda>c. \<not> is_linebreak c) (''event: '' @ n)" "list_all (\<lambda>c. \<not> is_linebreak c) (''data: '' @ p)"
    using assms by (simp_all add: clean_def is_linebreak_def)
  show ?thesis
    using splitlines_LF [of "''event: '' @ n" "''data: '' @ p @ [LF]"] splitlines_clean [OF *(1)] splitlines_clean [OF *(2)]
    by simp
qed


definition payload_data :: "string \<Rightarrow> jdict" where
  "payload_data p = (case json_loads p of Some (JObj d) \<Rightarrow> d | Some j \<Rightarrow> [(''value'', j)] | None \<Rightarrow> [(''raw'', JStr p)])"

lemma rstrip_crlf_clean: "list_all (\<lambda>c. \<not> is_linebreak c) s \<Longrightarrow> rstrip_crlf s = s"
proof -
  assume "list_all (\<lambda>c. \<not> is_linebreak c) s"
  then have "list_all (\<lambda>c. \<not> is_linebreak c) (rev s)" by simp
  then have "dropWhile (\<lambda>c. c = CR \<or> c = LF) (rev s) = rev s" by (cases "rev s") auto
  then show ?thesis by (simp add: rstrip_crlf_def)
qed

lemma strip_space: "py_strip (CHR '' '' # s) = py_strip s"
  by (simp add: py_strip_def py_lstrip_def is_space_def)

lemma parse_written:
  assumes "clean n" and "clean p"
  shows "parse_sse_text (written n p) =
    [\<lparr>ev_name = n, ev_data = payload_data p, ev_raw = py_join [LF] [''event: '' @ n, ''data: '' @ p]\<rparr>]"
proof -
  have *: "rstrip_crlf (''event: '' @ n) = ''event: '' @ n" "rstrip_crlf (''data: '' @ p) = ''data: '' @ p"
    using assms by (simp_all add: rstrip_crlf_clean clean_def is_linebreak_def)
  have "parse_sse_text (written n p) = parse_sse_lines ([''event: '' @ n, ''data: '' @ p] @ [[]])"
    using splitlines_LF [of "''event: '' @ n @ [LF] @ ''data: '' @ p" "[LF]"] written_split [OF assms]
    by (simp add: parse_sse_text_def written_def splitlines_blank)
  also have "\<dots> = parse_sse_lines [''event: '' @ n, ''data: '' @ p]" by (rule parse_lines_trailing)
  finally show ?thesis
    using assms * by (simp add: parse_sse_lines_def parse_sse_line_def Let_def after_colon_def strip_space
        clean_def py_startswith_def append_event_def payload_data_def split: option.splits json.splits)
qed

section \<open>Payload encoders\<close>

definition to_event :: "(jdict \<Rightarrow> string) \<Rightarrow> frame \<Rightarrow> sse_event" where
  "to_event enc f = \<lparr>ev_name = ev_name f, ev_data = ev_data f,
     ev_raw = py_join [LF] [''event: '' @ ev_name f, ''data: '' @ enc (ev_data f)]\<rparr>"

definition write_frame :: "(jdict \<Rightarrow> string) \<Rightarrow> frame \<Rightarrow> string" where
  "write_frame enc f = format_sse_event enc (ev_name f) (ev_data f)"

lemma write_frame_written: "write_frame enc f = written (ev_name f) (enc (ev_data f))"
  by (simp add: write_frame_def format_sse_event_def written_def)

lemma to_event_sel [simp]: "ev_name (to_event enc f) = ev_name f" "ev_data (to_event enc f) = ev_data f"
  by (simp_all add: to_event_def)

lemma terminated_write [simp]: "terminated (write_frame enc f)"
  unfolding write_frame_written written_def terminated_def by (simp add: suffix_def)

text \<open>The checker reads names and data only.\<close>

lemma check_event_cong:
  assumes "ev_name e = ev_name f" and "ev_data e = ev_data f"
  shows "check_event a c e = check_event a c f" "start_kind e = start_kind f"
proof -
  have i: "event_index e = event_index f" using assms(2) by (simp add: event_index_def)
  show "check_event a c e = check_event a c f"
    unfolding check_event_def check_block_start_def check_block_delta_def check_block_stop_def i assms ..
  show "start_kind e = start_kind f" using assms(2) by (simp add: start_kind_def)
qed

lemma check_to_event [simp]: "check_event a c (to_event enc f) = check_event a c f" "start_kind (to_event enc f) = start_kind f"
  by (rule check_event_cong; simp)+

lemma check_to_events [simp]: "check_events a c (map (to_event enc) fs) = check_events a c fs"
  by (induction fs arbitrary: c) simp_all

text \<open>A text block that starts with visible text may not be extended; \<open>lazy_event\<close> rules that out.\<close>

definition lazy_event :: "'a frame_scheme \<Rightarrow> bool" where
  "lazy_event e \<longleftrightarrow> (ev_name e = ''content_block_start'' \<longrightarrow> start_kind e \<noteq> Some ''text_eager'')"

lemma lazy_to_event [simp]: "lazy_event (to_event enc f) = lazy_event f"
  by (simp add: lazy_event_def)

lemma opens_lazy: "opens f i k \<Longrightarrow> k \<in> set ALLOWED_BLOCK_START_TYPES \<Longrightarrow> lazy_event f"
  by (auto simp: opens_def lazy_event_def ALLOWED_BLOCK_START_TYPES_def SERVER_TOOL_USE_def
      WEB_SEARCH_TOOL_RESULT_def WEB_FETCH_TOOL_RESULT_def)

lemma lazy_others: "ev_name f \<noteq> ''content_block_start'' \<Longrightarrow> lazy_event f"
  by (simp add: lazy_event_def)

locale payload_codec =
  fixes enc :: "jdict \<Rightarrow> string" and fit :: "jdict \<Rightarrow> bool"
  assumes enc_loads: "fit d \<Longrightarrow> json_loads (enc d) = Some (JObj d)"
    and enc_clean: "fit d \<Longrightarrow> clean (enc d)"
begin

lemma parse_write: "fit (ev_data f) \<Longrightarrow> clean (ev_name f) \<Longrightarrow> parse_sse_text (write_frame enc f) = [to_event enc f]"
  by (simp add: write_frame_written parse_written enc_clean payload_data_def enc_loads to_event_def)

lemma parse_write_append:
  assumes "fit (ev_data f)" and "clean (ev_name f)"
  shows "parse_sse_text (write_frame enc f @ t) = to_event enc f # parse_sse_text t"
proof -
  have "parse_sse_text (write_frame enc f @ t) = parse_sse_text (write_frame enc f) @ parse_sse_text t"
    using parse_text_frames [of "''event: '' @ ev_name f @ [LF] @ ''data: '' @ enc (ev_data f)" t]
      parse_text_end [of "''event: '' @ ev_name f @ [LF] @ ''data: '' @ enc (ev_data f)"]
    by (simp add: write_frame_written written_def)
  with parse_write [OF assms] show ?thesis by simp
qed

lemma parse_writes:
  "\<forall>f \<in> set fs. fit (ev_data f) \<and> clean (ev_name f) \<Longrightarrow>
   parse_sse_text (concat (map (write_frame enc) fs)) = map (to_event enc) fs"
  by (induction fs) (simp_all add: parse_write_append)

end

text \<open>What the encoders write: no character the alphabet breaks a line at, except raw ones.\<close>

fun plain_json :: "json \<Rightarrow> bool" and plain_members :: "(string \<times> json) list \<Rightarrow> bool" where
  "plain_json (JStr s) = list_all (\<lambda>c. \<not> is_linebreak c) s"
| "plain_json (JArr xs) = list_all plain_json xs"
| "plain_json (JObj d) = plain_members d"
| "plain_json _ = True"
| "plain_members [] = True"
| "plain_members ((k, v) # ms) = (list_all (\<lambda>c. \<not> is_linebreak c) k \<and> plain_json v \<and> plain_members ms)"


abbreviation unbroken :: "string \<Rightarrow> bool" where
  "unbroken s \<equiv> list_all (\<lambda>c. \<not> is_linebreak c) s"

lemma hex_unbroken: "n < 256 \<Longrightarrow> unbroken (hex2 n)"
proof -
  have "k < 16 \<Longrightarrow> \<not> is_linebreak (hex_char k)" for k
    by (auto simp: is_linebreak_def hex_char_def Let_def)
  then show "n < 256 \<Longrightarrow> unbroken (hex2 n)" by (simp add: hex2_def less_mult_imp_div_less)
qed

lemma esc_unbroken: "a \<or> \<not> is_linebreak c \<Longrightarrow> unbroken (esc_char a c)"
  using hex_unbroken [of "of_char c"]
  by (auto simp: esc_char_def Let_def is_linebreak_def DQ_def BSL_def)

lemma quote_unbroken: "a \<or> unbroken s \<Longrightarrow> unbroken (json_quote a s)"
proof -
  assume "a \<or> unbroken s"
  then have "unbroken (concat (map (esc_char a) s))" by (induction s) (auto simp: esc_unbroken)
  then show ?thesis by (simp add: json_quote_def is_linebreak_def DQ_def)
qed

lemma nat_digits_unbroken: "unbroken (nat_digits n)"
  using nat_digits_all [of n] by (auto simp: list_all_iff is_digit_def is_linebreak_def Let_def)

lemma unbroken_literals [simp]:
  "unbroken ''null''" "unbroken ''true''" "unbroken ''false''" "unbroken ''[''" "unbroken '']''" "unbroken ''{''"
  "unbroken ''}''" "unbroken '', ''" "unbroken '': ''" "unbroken '',''" "unbroken '':''"
  "unbroken ''event: ''" "unbroken ''data: ''"
  by (simp_all add: is_linebreak_def)

definition unbroken_style :: "json_style \<Rightarrow> bool" where
  "unbroken_style y \<longleftrightarrow> unbroken (item_sep y) \<and> unbroken (key_sep y)"

lemma int_str_unbroken: "unbroken (int_str i)"
  by (simp add: int_str_def nat_digits_unbroken) (simp add: is_linebreak_def)

lemma dumps_unbroken:
  shows "unbroken_style y \<Longrightarrow> wf_json j \<Longrightarrow> ensure_ascii y \<or> plain_json j \<Longrightarrow> unbroken (dumps_style y j)"
    and "unbroken_style y \<Longrightarrow> list_all wf_json xs \<Longrightarrow> ensure_ascii y \<or> list_all plain_json xs \<Longrightarrow>
      unbroken (dumps_items y xs)"
    and "unbroken_style y \<Longrightarrow> wf_members ms \<Longrightarrow> ensure_ascii y \<or> plain_members ms \<Longrightarrow>
      unbroken (dumps_members y ms)"
proof (induction y j and y xs and y ms rule: dumps_style_dumps_items_dumps_members.induct)
qed (use unbroken_literals in \<open>auto simp only: dumps_style.simps dumps_items.simps dumps_members.simps list_all_append
      list.pred_inject wf_json.simps wf_members.simps plain_json.simps plain_members.simps unbroken_style_def
      quote_unbroken int_str_unbroken simp_thms split: if_splits\<close>)

lemma strip_braces: "py_strip (CHR ''{'' # s @ ''}'') = CHR ''{'' # s @ ''}''"
  by (simp add: py_strip_def py_lstrip_def py_rstrip_def is_space_def)

lemma clean_object:
  assumes "unbroken_style y" and "wf_json (JObj d)" and "ensure_ascii y \<or> plain_members d"
  shows "clean (dumps_style y (JObj d))"
  using dumps_unbroken(1) [OF assms(1,2)] assms(3) strip_braces [of "dumps_members y d"] by (simp add: clean_def)

definition native_enc :: "jdict \<Rightarrow> string" where
  "native_enc d = json_dumps (JObj d)"

interpretation native: payload_codec native_enc "\<lambda>d. wf_json (JObj d)"
proof
  fix d :: jdict assume d: "wf_json (JObj d)"
  show "json_loads (native_enc d) = Some (JObj d)" unfolding native_enc_def by (rule loads_dumps [OF d])
  have "unbroken_style default_style" "ensure_ascii default_style"
    by (simp_all add: unbroken_style_def default_style_def is_linebreak_def)
  then show "clean (native_enc d)" unfolding native_enc_def json_dumps_def using clean_object [OF _ d] by blast
qed

text \<open>The style of an encoder that writes compact JSON and leaves the upper half of the alphabet raw.\<close>

definition raw_style :: json_style where
  "raw_style = \<lparr>ensure_ascii = False, item_sep = '','', key_sep = '':''\<rparr>"

definition raw_enc :: "jdict \<Rightarrow> string" where
  "raw_enc d = dumps_style raw_style (JObj d)"

interpretation raw: payload_codec raw_enc "\<lambda>d. wf_json (JObj d) \<and> plain_members d"
proof
  fix d :: jdict assume d: "wf_json (JObj d) \<and> plain_members d"
  have "style_ok raw_style" "unbroken_style raw_style"
    by (simp_all add: style_ok_def raw_style_def unbroken_style_def is_linebreak_def)
  with d show "json_loads (raw_enc d) = Some (JObj d)" "clean (raw_enc d)"
    unfolding raw_enc_def using loads_dumps_style [of raw_style "JObj d"] clean_object [of raw_style d] by blast+
qed

end
