(* ===== verification/Emitted_Tracker.thy ===== *)
theory Emitted_Tracker
  imports Sse_Text Stream_Recovery
begin

text \<open>
  The tracker of emitted events (\<open>core/anthropic/emitted_sse_tracker.py\<close>): it reads the text that
  goes out to the client and keeps the blocks, the open ones and the largest index, so that the
  tail of a broken stream can close, continue or end what was sent.

  \<open>EmittedNativeSseTracker\<close> is the record \<open>tracker\<close>; its generators yield frames, which
  \<open>format_sse_event\<close> turns into text.  The tracker is an instance of \<open>block_source\<close>.
\<close>

section \<open>State\<close>

record emitted_block =
  eb_index :: int
  eb_type :: string
  eb_open :: bool
  eb_tool_id :: string
  eb_name :: string
  eb_parts :: "string list"

definition eb_content :: "emitted_block \<Rightarrow> string" where
  "eb_content b = concat (eb_parts b)"

definition new_emitted_block :: "int \<Rightarrow> string \<Rightarrow> emitted_block" where
  "new_emitted_block index block_type =
     \<lparr>eb_index = index, eb_type = block_type, eb_open = True, eb_tool_id = [], eb_name = [], eb_parts = []\<rparr>"

record tracker =
  tk_buf :: string
  tk_open_stack :: "int list"
  tk_max_index :: int
  tk_blocks :: "(int, emitted_block) dict"
  tk_message_id :: "string option"
  tk_model :: string
  tk_stop_reason :: "string option"
  tk_message_stopped :: bool

text \<open>\<open>_open_stack\<close> is kept with its top first.\<close>

definition new_tracker :: tracker where
  "new_tracker = \<lparr>tk_buf = [], tk_open_stack = [], tk_max_index = -1, tk_blocks = [], tk_message_id = None,
     tk_model = [], tk_stop_reason = None, tk_message_stopped = False\<rparr>"

definition nonempty_str :: "json \<Rightarrow> string option" where
  "nonempty_str j = (case as_str j of Some s \<Rightarrow> if s = [] then None else Some s | None \<Rightarrow> None)"

definition str_or_empty :: "json \<Rightarrow> string" where
  "str_or_empty j = (case as_str j of Some s \<Rightarrow> s | None \<Rightarrow> [])"

section \<open>Observing an event\<close>

definition observe_message_start :: "'a frame_scheme \<Rightarrow> tracker \<Rightarrow> tracker" where
  "observe_message_start e t =
     (case as_obj (jget (ev_data e) ''message'') of
        None \<Rightarrow> t
      | Some message \<Rightarrow>
          (let t = (case nonempty_str (jget message ''id'') of Some i \<Rightarrow> t\<lparr>tk_message_id := Some i\<rparr> | None \<Rightarrow> t)
           in case nonempty_str (jget message ''model'') of Some m \<Rightarrow> t\<lparr>tk_model := m\<rparr> | None \<Rightarrow> t))"

definition started_block :: "int \<Rightarrow> jdict \<Rightarrow> emitted_block" where
  "started_block idx block =
     (let block_type = py_str (jget_default block ''type'' (JStr []));
          state = new_emitted_block idx block_type;
          parts = (\<lambda>key. case nonempty_str (jget block key) of Some s \<Rightarrow> [s] | None \<Rightarrow> [])
      in if block_type = ''tool_use''
         then state\<lparr>eb_tool_id := str_or_empty (jget block ''id''), eb_name := str_or_empty (jget block ''name'')\<rparr>
         else if block_type = ''text'' then state\<lparr>eb_parts := parts ''text''\<rparr>
         else if block_type = ''thinking'' then state\<lparr>eb_parts := parts ''thinking''\<rparr>
         else state)"

definition observe_block_start :: "'a frame_scheme \<Rightarrow> tracker \<Rightarrow> tracker" where
  "observe_block_start e t =
     (case as_int (jget (ev_data e) ''index'') of
        None \<Rightarrow> t
      | Some idx \<Rightarrow>
          (let t = t\<lparr>tk_max_index := max (tk_max_index t) idx, tk_open_stack := idx # tk_open_stack t\<rparr>
           in case as_obj (jget (ev_data e) ''content_block'') of
                None \<Rightarrow> t
              | Some block \<Rightarrow> t\<lparr>tk_blocks := dset idx (started_block idx block) (tk_blocks t)\<rparr>))"

definition delta_key :: "string \<Rightarrow> string option" where
  "delta_key block_type =
     (if block_type = ''text'' then Some ''text'' else if block_type = ''thinking'' then Some ''thinking''
      else if block_type = ''tool_use'' then Some ''partial_json'' else None)"

definition extended_block :: "jdict \<Rightarrow> emitted_block \<Rightarrow> emitted_block" where
  "extended_block delta b =
     (case Option.bind (delta_key (eb_type b)) (\<lambda>key. as_str (jget delta key)) of
        Some s \<Rightarrow> b\<lparr>eb_parts := eb_parts b @ [s]\<rparr> | None \<Rightarrow> b)"

definition observe_block_delta :: "'a frame_scheme \<Rightarrow> tracker \<Rightarrow> tracker" where
  "observe_block_delta e t =
     (case as_int (jget (ev_data e) ''index'') of
        None \<Rightarrow> t
      | Some idx \<Rightarrow>
          (case (map_of (tk_blocks t) idx, as_obj (jget (ev_data e) ''delta'')) of
             (Some b, Some delta) \<Rightarrow> t\<lparr>tk_blocks := dset idx (extended_block delta b) (tk_blocks t)\<rparr>
           | _ \<Rightarrow> t))"

definition close_block :: "int \<Rightarrow> (int, emitted_block) dict \<Rightarrow> (int, emitted_block) dict" where
  "close_block idx blocks =
     (case map_of blocks idx of Some b \<Rightarrow> dset idx (b\<lparr>eb_open := False\<rparr>) blocks | None \<Rightarrow> blocks)"

text \<open>\<open>list.remove\<close> takes the element nearest to the bottom of the stack.\<close>

definition pop_open :: "int \<Rightarrow> int list \<Rightarrow> int list" where
  "pop_open idx stack =
     (if stack \<noteq> [] \<and> hd stack = idx then tl stack else rev (remove1 idx (rev stack)))"

definition observe_block_stop :: "'a frame_scheme \<Rightarrow> tracker \<Rightarrow> tracker" where
  "observe_block_stop e t =
     (case as_int (jget (ev_data e) ''index'') of
        None \<Rightarrow> t
      | Some idx \<Rightarrow>
          t\<lparr>tk_open_stack := pop_open idx (tk_open_stack t), tk_blocks := close_block idx (tk_blocks t)\<rparr>)"

definition observe_message_delta :: "'a frame_scheme \<Rightarrow> tracker \<Rightarrow> tracker" where
  "observe_message_delta e t =
     (case Option.bind (as_obj (jget (ev_data e) ''delta'')) (\<lambda>d. as_str (jget d ''stop_reason'')) of
        Some r \<Rightarrow> t\<lparr>tk_stop_reason := Some r\<rparr> | None \<Rightarrow> t)"

definition observe :: "'a frame_scheme \<Rightarrow> tracker \<Rightarrow> tracker" where
  "observe e t =
     (if ev_name e = ''message_start'' then observe_message_start e t
      else if ev_name e = ''content_block_start'' then observe_block_start e t
      else if ev_name e = ''content_block_delta'' then observe_block_delta e t
      else if ev_name e = ''content_block_stop'' then observe_block_stop e t
      else if ev_name e = ''message_delta'' then observe_message_delta e t
      else if ev_name e = ''message_stop'' then t\<lparr>tk_message_stopped := True\<rparr>
      else t)"

section \<open>Feeding text\<close>

text \<open>\<open>py_find\<close> of the separator: each pass of the loop shortens the buffer.\<close>

function drain_frames :: "string \<Rightarrow> tracker \<Rightarrow> string \<times> tracker" where
  "drain_frames buf t =
     (case py_find [LF, LF] buf of
        None \<Rightarrow> (buf, t)
      | Some sep \<Rightarrow>
          (let frame = take sep buf; rest = drop (sep + 2) buf
           in drain_frames rest
                (if py_strip frame = [] then t else fold observe (parse_sse_lines (py_splitlines frame)) t)))"
  by pat_completeness auto
termination
proof (relation "measure (\<lambda>(buf, t). length buf)", simp, goal_cases)
  case (1 buf t sep frame rest)
  then show ?case using py_find_Some_le [of "[LF, LF]" buf sep] by simp
qed

declare drain_frames.simps [simp del]

definition tracker_feed :: "string \<Rightarrow> tracker \<Rightarrow> tracker" where
  "tracker_feed chunk t = (case drain_frames (tk_buf t @ chunk) t of (buf, t) \<Rightarrow> t\<lparr>tk_buf := buf\<rparr>)"

section \<open>Reading the state\<close>

definition next_content_index :: "tracker \<Rightarrow> int" where
  "next_content_index t = tk_max_index t + 1"

definition emitted_of :: "string \<Rightarrow> tracker \<Rightarrow> string" where
  "emitted_of block_type t = concat (map eb_content (List.filter (\<lambda>b. eb_type b = block_type) (dvalues (tk_blocks t))))"

definition emitted_text :: "tracker \<Rightarrow> string" where
  "emitted_text t = emitted_of ''text'' t"

definition emitted_thinking :: "tracker \<Rightarrow> string" where
  "emitted_thinking t = emitted_of ''thinking'' t"

definition tool_blocks :: "tracker \<Rightarrow> emitted_block list" where
  "tool_blocks t = List.filter (\<lambda>b. eb_type b = ''tool_use'') (dvalues (tk_blocks t))"

definition has_tool_block :: "tracker \<Rightarrow> bool" where
  "has_tool_block t = list_ex (\<lambda>b. eb_type b = ''tool_use'') (dvalues (tk_blocks t))"

definition has_content_block :: "tracker \<Rightarrow> bool" where
  "has_content_block t \<longleftrightarrow> tk_blocks t \<noteq> []"

definition has_terminal_message :: "tracker \<Rightarrow> bool" where
  "has_terminal_message t = tk_message_stopped t"

type_synonym validator = "jdict \<Rightarrow> jdict \<Rightarrow> schema_result"

definition complete_block :: "validator \<Rightarrow> schemas \<Rightarrow> emitted_block \<Rightarrow> bool" where
  "complete_block v schemas b \<longleftrightarrow>
     eb_tool_id b \<noteq> [] \<and> eb_name b \<noteq> [] \<and> parse_complete_tool_input v (eb_content b) (eb_name b) schemas \<noteq> None"

definition can_salvage_tool_use :: "validator \<Rightarrow> schemas \<Rightarrow> tracker \<Rightarrow> bool" where
  "can_salvage_tool_use v schemas t \<longleftrightarrow> tool_blocks t \<noteq> [] \<and> list_all (complete_block v schemas) (tool_blocks t)"

definition last_open_block :: "string \<Rightarrow> tracker \<Rightarrow> emitted_block option" where
  "last_open_block block_type t =
     List.find (\<lambda>b. eb_type b = block_type \<and> eb_open b)
       (List.map_filter (map_of (tk_blocks t)) (tk_open_stack t))"

definition accept_tool_repair :: "validator \<Rightarrow> schemas \<Rightarrow> nat \<Rightarrow> string \<Rightarrow> tracker \<Rightarrow> string option" where
  "accept_tool_repair v schemas tool_index candidate t =
     (if length (tool_blocks t) \<le> tool_index then None
      else (let b = tool_blocks t ! tool_index
            in map_option tr_suffix (accept_tool_json_repair v (eb_content b) candidate (eb_name b) schemas)))"

definition continuation_text_suffix :: "string \<Rightarrow> tracker \<Rightarrow> string option" where
  "continuation_text_suffix candidate t = continuation_suffix (emitted_text t) candidate"

definition continuation_thinking_suffix :: "string \<Rightarrow> tracker \<Rightarrow> string option" where
  "continuation_thinking_suffix candidate t = continuation_suffix (emitted_thinking t) candidate"

section \<open>Tails\<close>

type_synonym tracker_gen = "(tracker, frame, py_error) gen"

definition close_top :: "tracker \<Rightarrow> frame \<times> tracker" where
  "close_top t =
     (case tk_open_stack t of
        idx # rest \<Rightarrow>
          (content_block_stop idx, t\<lparr>tk_open_stack := rest, tk_blocks := close_block idx (tk_blocks t)\<rparr>)
      | [] \<Rightarrow> (message_stop, t))"

text \<open>\<open>while self._open_stack\<close>: one pass for each entry of the stack.\<close>

definition iter_close_unclosed_blocks :: tracker_gen where
  "iter_close_unclosed_blocks = gread (\<lambda>t. gfor (\<lambda>_. gyield close_top) (tk_open_stack t))"

definition open_suffix_block :: "string \<Rightarrow> tracker \<Rightarrow> frame \<times> tracker" where
  "open_suffix_block block_type t =
     (let index = next_content_index t
      in (content_block_start index block_type [],
          t\<lparr>tk_max_index := max (tk_max_index t) index,
            tk_open_stack := index # tk_open_stack t,
            tk_blocks := dset index (new_emitted_block index block_type) (tk_blocks t)\<rparr>))"

definition extend_block :: "string \<Rightarrow> string \<Rightarrow> emitted_block \<Rightarrow> tracker \<Rightarrow> frame \<times> tracker" where
  "extend_block delta_type ending active t =
     (content_block_delta (eb_index active) delta_type ending,
      t\<lparr>tk_blocks := dset (eb_index active) (active\<lparr>eb_parts := eb_parts active @ [ending]\<rparr>) (tk_blocks t)\<rparr>)"

definition append_suffix :: "string \<Rightarrow> string \<Rightarrow> string \<Rightarrow> tracker_gen" where
  "append_suffix block_type delta_type ending =
     gwhen (ending \<noteq> [])
       (gread (\<lambda>t. case last_open_block block_type t of
           Some active \<Rightarrow> gyield (extend_block delta_type ending active)
         | None \<Rightarrow> gseq (gyield (open_suffix_block block_type))
                       (gyield (extend_block delta_type ending
                                  (new_emitted_block (next_content_index t) block_type)))))"

definition append_text_suffix :: "string \<Rightarrow> tracker_gen" where
  "append_text_suffix ending = append_suffix ''text'' ''text_delta'' ending"

definition append_thinking_suffix :: "string \<Rightarrow> tracker_gen" where
  "append_thinking_suffix ending = append_suffix ''thinking'' ''thinking_delta'' ending"

definition append_tool_repair_suffix :: "nat \<Rightarrow> string \<Rightarrow> tracker_gen" where
  "append_tool_repair_suffix tool_index ending =
     gread (\<lambda>t. gwhen (tool_index < length (tool_blocks t) \<and> ending \<noteq> [])
       (gyield (extend_block ''input_json_delta'' ending (tool_blocks t ! tool_index))))"

definition success_delta :: "string \<Rightarrow> frame" where
  "success_delta stop_reason =
     mk_frame ''message_delta''
       [(''type'', JStr ''message_delta''),
        (''delta'', JObj [(''stop_reason'', JStr stop_reason), (''stop_sequence'', JNull)]),
        (''usage'', JObj [(''input_tokens'', JInt 0), (''output_tokens'', JInt 1)])]"

definition iter_success_tail :: "string \<Rightarrow> tracker_gen" where
  "iter_success_tail stop_reason =
     gseq iter_close_unclosed_blocks
    (gseq (gread (\<lambda>t. gwhen (tk_stop_reason t = None) (gyield (\<lambda>t. (success_delta stop_reason, t)))))
          (gread (\<lambda>t. gwhen (\<not> tk_message_stopped t) (gyield (\<lambda>t. (message_stop, t))))))"

text \<open>
  \<open>iter_midstream_error_tail\<close>: a fresh builder that starts at the next free index; \<open>fallback_id\<close>
  is the generated message id, \<open>request_model\<close> the model the request names.
\<close>

definition tail_builder :: "string \<Rightarrow> string \<Rightarrow> json \<Rightarrow> tracker \<Rightarrow> sse_builder" where
  "tail_builder fallback_id request_model input_tokens t =
     upd_blocks (\<lambda>m. m\<lparr>next_index := next_content_index t\<rparr>)
       (new_sse_builder (case tk_message_id t of Some i \<Rightarrow> if i = [] then fallback_id else i | None \<Rightarrow> fallback_id)
          (if tk_model t = [] then request_model else tk_model t) input_tokens)"

definition iter_midstream_error_tail :: "string \<Rightarrow> string \<Rightarrow> json \<Rightarrow> string \<Rightarrow> tracker \<Rightarrow> frame list" where
  "iter_midstream_error_tail fallback_id request_model input_tokens error_message t =
     (let b = tail_builder fallback_id request_model input_tokens t
      in yields (emit_error error_message) b @
         [message_delta (after (emit_error error_message) b) ''end_turn'' (JInt 1) JNull JNull, message_stop])"

end
