(* ===== verification/Tracker_Facts.thy ===== *)
theory Tracker_Facts
  imports Emitted_Tracker
begin

text \<open>
  What the tracker knows.  Feeding depends on the text alone, not on how it is cut into chunks, and
  comes to observing the events a client parses from the completed frames.  The tracker is an
  instance of \<open>block_source\<close>: as long as the contract checker accepts what goes out, the open stack is
  the set of open blocks and the next index is unused, so its tails can be added to any prefix.
\<close>

section \<open>Feeding\<close>

lemma handler_buf:
  "observe_message_start e (t\<lparr>tk_buf := x\<rparr>) = (observe_message_start e t)\<lparr>tk_buf := x\<rparr>"
  "observe_block_start e (t\<lparr>tk_buf := x\<rparr>) = (observe_block_start e t)\<lparr>tk_buf := x\<rparr>"
  "observe_block_delta e (t\<lparr>tk_buf := x\<rparr>) = (observe_block_delta e t)\<lparr>tk_buf := x\<rparr>"
  "observe_block_stop e (t\<lparr>tk_buf := x\<rparr>) = (observe_block_stop e t)\<lparr>tk_buf := x\<rparr>"
  "observe_message_delta e (t\<lparr>tk_buf := x\<rparr>) = (observe_message_delta e t)\<lparr>tk_buf := x\<rparr>"
proof -
  show "observe_message_start e (t\<lparr>tk_buf := x\<rparr>) = (observe_message_start e t)\<lparr>tk_buf := x\<rparr>"
    unfolding observe_message_start_def Let_def by (auto split: option.split)
  show "observe_block_start e (t\<lparr>tk_buf := x\<rparr>) = (observe_block_start e t)\<lparr>tk_buf := x\<rparr>"
    unfolding observe_block_start_def Let_def by (auto split: option.split)
  show "observe_block_delta e (t\<lparr>tk_buf := x\<rparr>) = (observe_block_delta e t)\<lparr>tk_buf := x\<rparr>"
    unfolding observe_block_delta_def by (auto split: option.split)
  show "observe_block_stop e (t\<lparr>tk_buf := x\<rparr>) = (observe_block_stop e t)\<lparr>tk_buf := x\<rparr>"
    unfolding observe_block_stop_def by (auto split: option.split)
  show "observe_message_delta e (t\<lparr>tk_buf := x\<rparr>) = (observe_message_delta e t)\<lparr>tk_buf := x\<rparr>"
    unfolding observe_message_delta_def by (auto split: option.split)
qed

lemma observe_buf: "observe e (t\<lparr>tk_buf := x\<rparr>) = (observe e t)\<lparr>tk_buf := x\<rparr>"
  by (simp add: observe_def handler_buf)

lemma fold_observe_buf: "fold observe es (t\<lparr>tk_buf := x\<rparr>) = (fold observe es t)\<lparr>tk_buf := x\<rparr>"
  by (induction es arbitrary: t) (simp_all add: observe_buf)

lemma strip_nil_spaces: "py_strip s = [] \<Longrightarrow> list_all is_space s"
proof -
  assume "py_strip s = []"
  then have "\<forall>c \<in> set (dropWhile is_space s). is_space c"
    by (simp add: py_strip_def py_lstrip_def py_rstrip_def dropWhile_eq_Nil_conv)
  then have "dropWhile is_space s = []" using hd_dropWhile [of is_space s] by (metis hd_in_set)
  then show ?thesis by (simp add: dropWhile_eq_Nil_conv list_all_iff)
qed

lemma splitlines_aux_chars: "l \<in> set (splitlines_aux acc s) \<Longrightarrow> set l \<subseteq> set acc \<union> set s"
  by (induction acc s rule: splitlines_aux.induct) (fastforce split: if_splits)+

lemma spaces_line:
  assumes "list_all is_space l" and "ps_event st = []" and "ps_data st = []" and "ps_events st = []"
  shows "ps_event (parse_sse_line st l) = [] \<and> ps_data (parse_sse_line st l) = [] \<and> ps_events (parse_sse_line st l) = []"
proof -
  have "set (rstrip_crlf l) \<subseteq> set l"
    unfolding rstrip_crlf_def using set_dropWhileD by fastforce
  then have "list_all is_space (rstrip_crlf l)" using assms(1) by (auto simp: list_all_iff)
  then have "\<not> py_startswith (rstrip_crlf l) ''event:''" "\<not> py_startswith (rstrip_crlf l) ''data:''"
    by (cases "rstrip_crlf l"; auto simp: py_startswith_def is_space_def)+
  then show ?thesis using assms by (simp add: parse_sse_line_def Let_def append_event_def)
qed

lemma parse_spaces: "py_strip s = [] \<Longrightarrow> parse_sse_text s = []"
proof -
  assume "py_strip s = []"
  then have "list_all is_space s" by (rule strip_nil_spaces)
  then have "\<forall>l \<in> set (py_splitlines s). list_all is_space l"
    using splitlines_aux_chars [of _ "[]" s] by (fastforce simp: py_splitlines_def list_all_iff)
  moreover have "\<forall>l \<in> set ls. list_all is_space l \<Longrightarrow> ps_event st = [] \<and> ps_data st = [] \<and> ps_events st = [] \<Longrightarrow>
      parse_flush (foldl parse_sse_line st ls) = []" for ls st
  proof (induction ls arbitrary: st)
    case (Cons l ls)
    then show ?case using spaces_line [of l st] by simp
  qed (simp add: parse_flush_def append_event_def)
  ultimately show ?thesis by (simp add: parse_sse_text_def parse_sse_lines_alt parse_start_def)
qed

lemma drain_step:
  "py_find [LF, LF] buf = Some sep \<Longrightarrow>
   drain_frames buf t = drain_frames (drop (sep + 2) buf) (fold observe (parse_sse_text (take sep buf)) t)"
  using parse_spaces [of "take sep buf"]
  by (subst drain_frames.simps) (simp add: Let_def parse_sse_text_def)

lemma drain_stuck: "py_find [LF, LF] buf = None \<Longrightarrow> drain_frames buf t = (buf, t)"
  by (subst drain_frames.simps) simp

lemma find_split: "py_find [LF, LF] buf = Some sep \<Longrightarrow> buf = take sep buf @ [LF, LF] @ drop (sep + 2) buf"
proof -
  assume s: "py_find [LF, LF] buf = Some sep"
  obtain r where r: "drop sep buf = [LF, LF] @ r" using py_find_Some_prefix [OF s] by (auto simp: prefix_def)
  have "drop (sep + 2) buf = drop 2 (drop sep buf)" by (simp add: add.commute del: One_nat_def)
  also have "\<dots> = r" unfolding r by simp
  finally have "drop (sep + 2) buf = r" .
  with r show ?thesis by (metis append_take_drop_id)
qed

text \<open>What is left has no separator, and the rest was observed event by event.\<close>

lemma drain_observes:
  "\<exists>p. buf = p @ fst (drain_frames buf t) \<and> snd (drain_frames buf t) = fold observe (parse_sse_text p) t \<and>
     (p = [] \<or> suffix [LF, LF] p) \<and> py_find [LF, LF] (fst (drain_frames buf t)) = None"
proof (induction buf t rule: drain_frames.induct)
  case (1 buf t)
  show ?case
  proof (cases "py_find [LF, LF] buf")
    case None
    then show ?thesis by (simp add: drain_stuck)
  next
    case (Some sep)
    let ?f = "take sep buf" and ?r = "drop (sep + 2) buf"
    let ?t = "fold observe (parse_sse_text ?f) t"
    have eq: "(if py_strip ?f = [] then t else fold observe (parse_sse_lines (py_splitlines ?f)) t) = ?t"
      using parse_spaces [of ?f] by (simp add: parse_sse_text_def)
    obtain p where p: "?r = p @ fst (drain_frames ?r ?t)" "snd (drain_frames ?r ?t) = fold observe (parse_sse_text p) ?t"
      "p = [] \<or> suffix [LF, LF] p" "py_find [LF, LF] (fst (drain_frames ?r ?t)) = None"
      using 1 [OF Some refl refl] unfolding eq by blast
    let ?p = "?f @ [LF, LF] @ p"
    have "buf = ?p @ fst (drain_frames ?r ?t)" using find_split [OF Some] p(1) by simp
    moreover have "snd (drain_frames ?r ?t) = fold observe (parse_sse_text ?p) t"
      using p(2) parse_text_frames [of ?f p] by simp
    moreover have "suffix [LF, LF] ?p" using p(3) by (auto simp: suffix_def)
    ultimately show ?thesis using p(4) drain_step [OF Some, of t] by metis
  qed
qed

lemma drain_append:
  "drain_frames (buf @ c) t = (case drain_frames buf t of (b, t') \<Rightarrow> drain_frames (b @ c) t')"
proof (induction buf t rule: drain_frames.induct)
  case (1 buf t)
  show ?case
  proof (cases "py_find [LF, LF] buf")
    case None
    then show ?thesis by (simp add: drain_stuck)
  next
    case (Some sep)
    have l: "sep + 2 \<le> length buf" using py_find_Some_le [OF Some] by simp
    have eq: "(if py_strip (take sep buf) = [] then t else fold observe (parse_sse_lines (py_splitlines (take sep buf))) t)
        = fold observe (parse_sse_text (take sep buf)) t"
      using parse_spaces [of "take sep buf"] by (simp add: parse_sse_text_def)
    have "drain_frames (buf @ c) t =
        drain_frames (drop (sep + 2) buf @ c) (fold observe (parse_sse_text (take sep buf)) t)"
      using drain_step [OF find_append [OF Some, of c], of t] l by simp
    also have "\<dots> = (case drain_frames (drop (sep + 2) buf) (fold observe (parse_sse_text (take sep buf)) t) of
        (b, t') \<Rightarrow> drain_frames (b @ c) t')"
      using 1 [OF Some refl refl] unfolding eq .
    finally show ?thesis by (simp add: drain_step [OF Some])
  qed
qed

lemma drain_buf: "drain_frames b (t\<lparr>tk_buf := x\<rparr>) = (fst (drain_frames b t), (snd (drain_frames b t))\<lparr>tk_buf := x\<rparr>)"
proof (induction b t rule: drain_frames.induct)
  case (1 buf t)
  show ?case
  proof (cases "py_find [LF, LF] buf")
    case None
    then show ?thesis by (simp add: drain_stuck)
  next
    case (Some sep)
    have eq: "(if py_strip (take sep buf) = [] then t else fold observe (parse_sse_lines (py_splitlines (take sep buf))) t)
        = fold observe (parse_sse_text (take sep buf)) t"
      using parse_spaces [of "take sep buf"] by (simp add: parse_sse_text_def)
    show ?thesis using 1 [OF Some refl refl] unfolding eq by (simp add: drain_step [OF Some] fold_observe_buf)
  qed
qed

text \<open>Two chunks or one: the same tracker.\<close>

lemma feed_append: "tracker_feed c (tracker_feed b t) = tracker_feed (b @ c) t"
proof -
  obtain b' t' where d: "drain_frames (tk_buf t @ b) t = (b', t')" by (cases "drain_frames (tk_buf t @ b) t")
  have "drain_frames (tk_buf t @ b @ c) t = drain_frames (b' @ c) t'"
    using drain_append [of "tk_buf t @ b" c t] d by simp
  then show ?thesis
    by (simp add: tracker_feed_def d drain_buf split: prod.split)
qed

lemma feed_nil: "tk_buf t = [] \<Longrightarrow> tracker_feed [] t = t"
proof -
  assume "tk_buf t = []"
  moreover have "drain_frames [] t = ([], t)" by (rule drain_stuck) simp
  ultimately show ?thesis by (simp add: tracker_feed_def)
qed

definition feed_chunks :: "string list \<Rightarrow> tracker \<Rightarrow> tracker" where
  "feed_chunks chunks t = fold tracker_feed chunks t"

lemma feed_chunks_concat: "tk_buf t = [] \<or> chunks \<noteq> [] \<Longrightarrow> feed_chunks chunks t = tracker_feed (concat chunks) t"
proof (induction chunks arbitrary: t)
  case (Cons c chunks)
  show ?case
  proof (cases "chunks = []")
    case False
    then have "feed_chunks chunks (tracker_feed c t) = tracker_feed (concat chunks) (tracker_feed c t)"
      using Cons.IH by blast
    then show ?thesis by (simp add: feed_chunks_def feed_append)
  qed (simp add: feed_chunks_def)
qed (simp add: feed_chunks_def feed_nil)

lemma feed_chunks_observes:
  "\<exists>p b. concat chunks = p @ b \<and> terminated p \<and> py_find [LF, LF] b = None \<and>
     fold tracker_feed chunks new_tracker = (fold observe (parse_sse_text p) new_tracker)\<lparr>tk_buf := b\<rparr>"
proof -
  obtain b t where d: "drain_frames (concat chunks) new_tracker = (b, t)" by (cases "drain_frames (concat chunks) new_tracker")
  have n: "tk_buf new_tracker = []" by (simp add: new_tracker_def)
  have "fold tracker_feed chunks new_tracker = t\<lparr>tk_buf := b\<rparr>"
    using feed_chunks_concat [of new_tracker chunks] n d by (simp add: feed_chunks_def tracker_feed_def)
  moreover obtain p where "concat chunks = p @ b" "t = fold observe (parse_sse_text p) new_tracker" "terminated p"
    "py_find [LF, LF] b = None"
    using drain_observes [of "concat chunks" new_tracker] d by (auto simp: terminated_def)
  ultimately show ?thesis by blast
qed

section \<open>The tracker follows the checker\<close>

definition block_at :: "tracker \<Rightarrow> int \<Rightarrow> emitted_block option" where
  "block_at t i = map_of (tk_blocks t) i"

definition tracker_sane :: "tracker \<Rightarrow> bool" where
  "tracker_sane t \<longleftrightarrow>
     distinct (tk_open_stack t) \<and> distinct (dkeys (tk_blocks t)) \<and> -1 \<le> tk_max_index t \<and>
     (\<forall>i. i \<in> set (tk_open_stack t) \<longleftrightarrow> (\<exists>b. block_at t i = Some b \<and> eb_open b)) \<and>
     (\<forall>i b. block_at t i = Some b \<longrightarrow> eb_index b = i \<and> i \<le> tk_max_index t)"

definition tracker_live :: "tracker \<Rightarrow> int \<Rightarrow> string option" where
  "tracker_live t i = (case block_at t i of Some b \<Rightarrow> if eb_open b then Some (eb_type b) else None | None \<Rightarrow> None)"

definition tracker_used :: "tracker \<Rightarrow> int set" where
  "tracker_used t = set (dkeys (tk_blocks t))"

lemma block_at_used: "block_at t i = Some b \<Longrightarrow> i \<in> tracker_used t"
  unfolding block_at_def tracker_used_def by (rule map_of_in_dkeys)

lemma used_block_at: "i \<in> tracker_used t \<longleftrightarrow> (\<exists>b. block_at t i = Some b)"
  unfolding block_at_def tracker_used_def using map_of_notin_iff [of "tk_blocks t" i] by auto

interpretation tracker: block_source tracker_sane tracker_live tracker_used
  by unfold_locales (auto simp: tracker_live_def used_block_at split: option.splits if_splits)

lemma saneI_tracker:
  assumes "distinct (tk_open_stack t)" "distinct (dkeys (tk_blocks t))" "-1 \<le> tk_max_index t"
    "\<And>i. i \<in> set (tk_open_stack t) \<longleftrightarrow> (\<exists>b. block_at t i = Some b \<and> eb_open b)"
    "\<And>i b. block_at t i = Some b \<Longrightarrow> eb_index b = i \<and> i \<le> tk_max_index t"
  shows "tracker_sane t"
  using assms unfolding tracker_sane_def by blast

lemma tracker_saneD:
  assumes "tracker_sane t"
  shows "distinct (tk_open_stack t)" "distinct (dkeys (tk_blocks t))" "-1 \<le> tk_max_index t"
    "i \<in> set (tk_open_stack t) \<longleftrightarrow> (\<exists>b. block_at t i = Some b \<and> eb_open b)"
    "block_at t i = Some b \<Longrightarrow> eb_index b = i" "block_at t i = Some b \<Longrightarrow> i \<le> tk_max_index t"
  using assms unfolding tracker_sane_def by blast+

lemma stack_live: "tracker_sane t \<Longrightarrow> set (tk_open_stack t) = dom (tracker_live t)"
  using tracker_saneD(4) by (auto simp: tracker_live_def dom_def split: option.splits if_splits)

lemma next_unused: "tracker_sane t \<Longrightarrow> next_content_index t \<notin> tracker_used t"
  using tracker_saneD(6) by (fastforce simp: used_block_at next_content_index_def)

lemma new_tracker_sane [simp]: "tracker_sane new_tracker"
  by (rule saneI_tracker) (simp_all add: new_tracker_def block_at_def)

lemma new_tracker_tracks: "tracker.tracks new_tracker check_init"
  by (simp add: tracker.tracks_def check_init_def fun_eq_iff tracker_live_def tracker_used_def block_at_def)
     (simp add: new_tracker_def)

text \<open>Three ways the blocks change: a new one, a replaced one, a closed one.\<close>

lemma sane_put_new:
  assumes "tracker_sane t" and "block_at t i = None" and "eb_index b = i" and "eb_open b"
  shows "tracker_sane (t\<lparr>tk_max_index := max (tk_max_index t) i, tk_open_stack := i # tk_open_stack t,
      tk_blocks := dset i b (tk_blocks t)\<rparr>)" (is "tracker_sane ?t")
    and "tracker_live (t\<lparr>tk_max_index := max (tk_max_index t) i, tk_open_stack := i # tk_open_stack t,
      tk_blocks := dset i b (tk_blocks t)\<rparr>) = (tracker_live t)(i \<mapsto> eb_type b)"
    and "tracker_used (t\<lparr>tk_max_index := max (tk_max_index t) i, tk_open_stack := i # tk_open_stack t,
      tk_blocks := dset i b (tk_blocks t)\<rparr>) = insert i (tracker_used t)"
proof -
  note S = tracker_saneD [OF assms(1)]
  have at: "block_at ?t j = (if j = i then Some b else block_at t j)" for j
    by (simp add: block_at_def dict_simps)
  have n: "i \<notin> set (tk_open_stack t)" using S(4) [of i] assms(2) by simp
  show "tracker_sane ?t"
  proof (rule saneI_tracker)
    show "distinct (tk_open_stack ?t)" using S(1) n by simp
    show "distinct (dkeys (tk_blocks ?t))" using S(2) by (simp add: dict_simps)
    show "-1 \<le> tk_max_index ?t" using S(3) by simp
    show "j \<in> set (tk_open_stack ?t) \<longleftrightarrow> (\<exists>b. block_at ?t j = Some b \<and> eb_open b)" for j
      using S(4) [of j] assms(4) by (simp add: at)
    show "eb_index c = j \<and> j \<le> tk_max_index ?t" if "block_at ?t j = Some c" for j c
    proof (cases "j = i")
      case True
      with that have "c = b" unfolding at by simp
      with True assms(3) show ?thesis by simp
    next
      case False
      with that have "block_at t j = Some c" unfolding at by simp
      then show ?thesis using S(5,6) [of j c] by simp
    qed
  qed
  show "tracker_live ?t = (tracker_live t)(i \<mapsto> eb_type b)" using assms(4) by (auto simp: tracker_live_def at)
  show "tracker_used ?t = insert i (tracker_used t)" by (auto simp: tracker_used_def dict_simps)
qed

lemma sane_put_same:
  assumes "tracker_sane t" and "block_at t i = Some b"
    and "eb_index b' = i" and "eb_open b' = eb_open b" and "eb_type b' = eb_type b"
  shows "tracker_sane (t\<lparr>tk_blocks := dset i b' (tk_blocks t)\<rparr>)" (is "tracker_sane ?t")
    and "tracker_live (t\<lparr>tk_blocks := dset i b' (tk_blocks t)\<rparr>) = tracker_live t"
    and "tracker_used (t\<lparr>tk_blocks := dset i b' (tk_blocks t)\<rparr>) = tracker_used t"
proof -
  note S = tracker_saneD [OF assms(1)]
  have at: "block_at ?t j = (if j = i then Some b' else block_at t j)" for j
    by (simp add: block_at_def dict_simps)
  show "tracker_sane ?t"
  proof (rule saneI_tracker)
    show "distinct (dkeys (tk_blocks ?t))" using S(2) by (simp add: dict_simps)
    show "j \<in> set (tk_open_stack ?t) \<longleftrightarrow> (\<exists>b. block_at ?t j = Some b \<and> eb_open b)" for j
      using S(4) [of j] assms(2,4) by (simp add: at)
    show "eb_index c = j \<and> j \<le> tk_max_index ?t" if "block_at ?t j = Some c" for j c
    proof (cases "j = i")
      case True
      with that have "c = b'" unfolding at by simp
      with True assms(3) show ?thesis using S(6) [OF assms(2)] by simp
    next
      case False
      with that have "block_at t j = Some c" unfolding at by simp
      then show ?thesis using S(5,6) [of j c] by simp
    qed
  qed (use S(1,3) in simp_all)
  show "tracker_live ?t = tracker_live t" using assms(2,4,5) by (auto simp: tracker_live_def at fun_eq_iff)
  show "tracker_used ?t = tracker_used t"
    using block_at_used [OF assms(2)] by (auto simp: tracker_used_def dict_simps)
qed

lemma sane_close:
  assumes "tracker_sane t" and "set st = set (tk_open_stack t) - {i}" and "distinct st"
  shows "tracker_sane (t\<lparr>tk_open_stack := st, tk_blocks := close_block i (tk_blocks t)\<rparr>)" (is "tracker_sane ?t")
    and "tracker_live (t\<lparr>tk_open_stack := st, tk_blocks := close_block i (tk_blocks t)\<rparr>) = (tracker_live t)(i := None)"
    and "tracker_used (t\<lparr>tk_open_stack := st, tk_blocks := close_block i (tk_blocks t)\<rparr>) = tracker_used t"
proof -
  note S = tracker_saneD [OF assms(1)]
  have at: "block_at ?t j = (if j = i then map_option (\<lambda>b. b\<lparr>eb_open := False\<rparr>) (block_at t i) else block_at t j)" for j
    by (auto simp: block_at_def close_block_def dict_simps split: option.split)
  show "tracker_sane ?t"
  proof (rule saneI_tracker)
    show "distinct (tk_open_stack ?t)" using assms(3) by simp
    show "distinct (dkeys (tk_blocks ?t))" using S(2) by (simp add: close_block_def dict_simps split: option.split)
    show "-1 \<le> tk_max_index ?t" using S(3) by simp
    show "j \<in> set (tk_open_stack ?t) \<longleftrightarrow> (\<exists>b. block_at ?t j = Some b \<and> eb_open b)" for j
    proof (cases "j = i")
      case True
      then show ?thesis unfolding at using assms(2) by (cases "block_at t i") simp_all
    next
      case False
      then show ?thesis unfolding at using S(4) [of j] assms(2) by simp
    qed
    show "eb_index c = j \<and> j \<le> tk_max_index ?t" if "block_at ?t j = Some c" for j c
    proof (cases "j = i")
      case True
      with that obtain b where "block_at t i = Some b" "c = b\<lparr>eb_open := False\<rparr>" unfolding at by auto
      with True show ?thesis using S(5,6) [of i b] by simp
    next
      case False
      with that have "block_at t j = Some c" unfolding at by simp
      then show ?thesis using S(5,6) [of j c] by simp
    qed
  qed
  show "tracker_live ?t = (tracker_live t)(i := None)"
    by (auto simp: tracker_live_def at fun_eq_iff split: option.split)
  have "tracker_used ?t = {j. \<exists>b. block_at ?t j = Some b}" by (auto simp: used_block_at)
  also have "\<dots> = tracker_used t" by (auto simp: at used_block_at)
  finally show "tracker_used ?t = tracker_used t" .
qed

section \<open>Observing an accepted event\<close>

lemma tracker_view_cong:
  assumes "tk_open_stack t' = tk_open_stack t" "tk_max_index t' = tk_max_index t" "tk_blocks t' = tk_blocks t"
  shows "tracker_sane t' = tracker_sane t" "tracker_live t' = tracker_live t" "tracker_used t' = tracker_used t"
  using assms by (simp_all add: tracker_sane_def tracker_live_def tracker_used_def block_at_def fun_eq_iff)

lemma tracks_cong:
  assumes "tracker.tracks t c" "tk_open_stack t' = tk_open_stack t" "tk_max_index t' = tk_max_index t"
    "tk_blocks t' = tk_blocks t"
  shows "tracker.tracks t' c"
  using assms(1) tracker_view_cong [OF assms(2-4)] by (simp add: tracker.tracks_def)

lemma pop_open_set: "distinct st \<Longrightarrow> set (pop_open i st) = set st - {i} \<and> distinct (pop_open i st)"
  by (cases st) (auto simp: pop_open_def)

lemma jget_obj: "as_obj (jget_default d k (JObj [])) = Some b \<Longrightarrow> b \<noteq> [] \<Longrightarrow> as_obj (jget d k) = Some b"
  by (auto simp: jget_default_def jget_def split: option.splits)

lemma event_index_int: "event_index e = Inr i \<longleftrightarrow> as_int (jget (ev_data e) ''index'') = Some i"
  by (simp add: event_index_def split: option.split)

lemma tracks_close:
  assumes "tracker.tracks t c" and "i \<in> set (dkeys (open_blocks c))"
    and "set st = set (tk_open_stack t) - {i}" and "distinct st"
  shows "tracker.tracks (t\<lparr>tk_open_stack := st, tk_blocks := close_block i (tk_blocks t)\<rparr>)
    (c\<lparr>open_blocks := ddel i (open_blocks c)\<rparr>)"
proof -
  have "tracker_sane t" using assms(1) by (simp add: tracker.tracks_def)
  note C = sane_close [OF this assms(3,4)]
  show ?thesis using assms(1) C by (simp add: tracker.tracks_def dict_simps fun_eq_iff)
qed

lemma observe_start_tracks:
  assumes "tracker.tracks t c" and "check_block_start c e = Inr c'" and "start_kind e \<noteq> Some ''text_eager''"
  shows "tracker.tracks (observe_block_start e t) c'"
proof -
  obtain i b where b: "event_index e = Inr i" "as_obj (jget_default (ev_data e) ''content_block'' (JObj [])) = Some b"
    using assms(2) by (auto simp: check_block_start_def split: option.splits)
  define k where "k = py_str (jget_default b ''type'' (JStr []))"
  have k: "k \<in> set ALLOWED_BLOCK_START_TYPES" "i \<notin> seen_blocks c"
    "c' = c\<lparr>open_blocks := dset i k (open_blocks c), seen_blocks := insert i (seen_blocks c)\<rparr>"
    using assms(2,3) b by (auto simp: check_block_start_def start_kind_def Let_def k_def split: if_splits)
  have "b \<noteq> []"
  proof
    assume "b = []"
    then have "k = []" by (simp add: k_def py_str_def)
    with k(1) show False by (simp add: ALLOWED_BLOCK_START_TYPES_def SERVER_TOOL_USE_def
        WEB_SEARCH_TOOL_RESULT_def WEB_FETCH_TOOL_RESULT_def)
  qed
  then have o: "observe_block_start e t = t\<lparr>tk_max_index := max (tk_max_index t) i, tk_open_stack := i # tk_open_stack t,
      tk_blocks := dset i (started_block i b) (tk_blocks t)\<rparr>"
    using b jget_obj [OF b(2)] by (simp add: observe_block_start_def event_index_int Let_def)
  have t: "tracker_sane t" "seen_blocks c = tracker_used t" "map_of (open_blocks c) = tracker_live t"
    using assms(1) by (simp_all add: tracker.tracks_def)
  have f: "block_at t i = None" using k(2) t(2) used_block_at [of i t] by auto
  have s: "eb_index (started_block i b) = i" "eb_open (started_block i b)" "eb_type (started_block i b) = k"
    by (simp_all add: started_block_def new_emitted_block_def k_def Let_def)
  note P = sane_put_new [OF t(1) f s(1,2)]
  show ?thesis
    unfolding o k(3) tracker.tracks_def using P t s(3) by (simp add: dict_simps fun_eq_iff)
qed

lemma observe_delta_tracks:
  assumes "tracker.tracks t c" and "check_block_delta c e = Inr c'"
  shows "tracker.tracks (observe_block_delta e t) c'"
proof -
  have c: "c' = c"
  proof (cases "event_index e")
    case (Inr i)
    then show ?thesis using assms(2)
      by (simp add: check_block_delta_def Let_def split: option.splits if_splits)
  qed (use assms(2) in \<open>simp add: check_block_delta_def\<close>)
  have t: "tracker_sane t" using assms(1) by (simp add: tracker.tracks_def)
  have "tracker.tracks (t\<lparr>tk_blocks := dset i (extended_block d b) (tk_blocks t)\<rparr>) c"
    if b: "map_of (tk_blocks t) i = Some b" for i b d
  proof -
    have at: "block_at t i = Some b" using b by (simp add: block_at_def)
    have "eb_index (extended_block d b) = i" "eb_open (extended_block d b) = eb_open b"
      "eb_type (extended_block d b) = eb_type b"
      using tracker_saneD(5) [OF t at] by (simp_all add: extended_block_def split: option.split)
    note P = sane_put_same [OF t at this]
    show ?thesis by (rule tracker.tracks_silent [OF assms(1) P])
  qed
  then show ?thesis unfolding c observe_block_delta_def using assms(1) by (auto split: option.split)
qed

lemma observe_stop_tracks:
  assumes "tracker.tracks t c" and "check_block_stop c e = Inr c'"
  shows "tracker.tracks (observe_block_stop e t) c'"
proof -
  obtain i where i: "event_index e = Inr i" "i \<in> set (dkeys (open_blocks c))"
    "c' = c\<lparr>open_blocks := ddel i (open_blocks c)\<rparr>"
    using assms(2) by (auto simp: check_block_stop_def split: if_splits)
  have "distinct (tk_open_stack t)" using assms(1) tracker_saneD(1) by (simp add: tracker.tracks_def)
  then show ?thesis
    using tracks_close [OF assms(1) i(2)] pop_open_set [of "tk_open_stack t" i] i(1,3)
    by (simp add: observe_block_stop_def event_index_int)
qed

lemma observe_tracks:
  assumes "tracker.tracks t c" and "check_event a c e = Inr c'" and "lazy_event e"
  shows "tracker.tracks (observe e t) c'"
proof -
  consider "ev_name e = ''content_block_start''" | "ev_name e = ''content_block_delta''"
    | "ev_name e = ''content_block_stop''"
    | "ev_name e \<notin> {''content_block_start'', ''content_block_delta'', ''content_block_stop''}" by blast
  then show ?thesis
  proof cases
    case 1
    then show ?thesis using observe_start_tracks [OF assms(1)] assms(2,3)
      by (simp add: check_event_def observe_def lazy_event_def)
  next
    case 2
    then show ?thesis using observe_delta_tracks [OF assms(1)] assms(2)
      by (simp add: check_event_def observe_def)
  next
    case 3
    then show ?thesis using observe_stop_tracks [OF assms(1)] assms(2)
      by (simp add: check_event_def observe_def)
  next
    case 4
    then have "c' = c" using assms(2) by (auto simp: check_event_def split: if_splits)
    moreover have "tk_open_stack (observe e t) = tk_open_stack t" "tk_max_index (observe e t) = tk_max_index t"
      "tk_blocks (observe e t) = tk_blocks t"
      using 4 by (simp_all add: observe_def observe_message_start_def observe_message_delta_def Let_def split: option.split)
    ultimately show ?thesis using tracks_cong [OF assms(1)] by simp
  qed
qed

end
