(* ===== verification/Tracker_Tails.thy ===== *)
theory Tracker_Tails
  imports Tracker_Facts
begin

text \<open>
  The tails the tracker writes (\<open>core/anthropic/emitted_sse_tracker.py\<close>): closing what is open,
  continuing text or thinking, repairing a tool input, ending a message, reporting an error.
  Every tail keeps the contract checker in step with the tracker, and a stream that broke off
  at any point is completed to one that satisfies the contract.
\<close>

section \<open>Closing\<close>

lemma close_top_run:
  assumes "tk_open_stack t = i # st"
  shows "fst (close_top t) = content_block_stop i"
    and "snd (close_top t) = t\<lparr>tk_open_stack := st, tk_blocks := close_block i (tk_blocks t)\<rparr>"
  using assms by (simp_all add: close_top_def)

abbreviation close_run :: "int list \<Rightarrow> tracker_gen" where
  "close_run st \<equiv> gfor (\<lambda>_. gyield close_top) st"

lemma close_all_run:
  "tk_open_stack t = st \<Longrightarrow> raised (close_run st) t = None \<and>
   yields (close_run st) t = map content_block_stop st \<and>
   tk_open_stack (after (close_run st) t) = [] \<and>
   tk_max_index (after (close_run st) t) = tk_max_index t \<and>
   tk_stop_reason (after (close_run st) t) = tk_stop_reason t \<and>
   tk_message_stopped (after (close_run st) t) = tk_message_stopped t"
proof (induction st arbitrary: t)
  case (Cons i st)
  note r = close_top_run [OF Cons.prems]
  have "tk_open_stack (snd (close_top t)) = st" by (simp add: r)
  from Cons.IH [OF this] show ?case by (simp add: gen_simps r)
qed (simp add: gen_simps)

lemma close_all_tracks:
  "tracker.tracks t c \<Longrightarrow> tk_open_stack t = st \<Longrightarrow>
   \<exists>c'. check_events a c (yields (close_run st) t) = Inr c' \<and>
     tracker.tracks (after (close_run st) t) c'"
proof (induction st arbitrary: t c)
  case (Cons i st)
  note r = close_top_run [OF Cons.prems(2)]
  have s: "tracker_sane t" using Cons.prems(1) by (simp add: tracker.tracks_def)
  have "i \<in> set (dkeys (open_blocks c))"
  proof -
    have "i \<in> dom (tracker_live t)" using stack_live [OF s] Cons.prems(2) by auto
    then show ?thesis using Cons.prems(1) by (simp add: tracker.tracks_def flip: dom_map_of_conv_image_fst)
  qed
  then have "check_event a c (content_block_stop i) = Inr (c\<lparr>open_blocks := ddel i (open_blocks c)\<rparr>)"
    using check_closes [OF stop_closes] by simp
  moreover have "tracker.tracks (snd (close_top t)) (c\<lparr>open_blocks := ddel i (open_blocks c)\<rparr>)"
    unfolding r using \<open>i \<in> set (dkeys (open_blocks c))\<close> tracker_saneD(1) [OF s] Cons.prems(2)
    by (intro tracks_close [OF Cons.prems(1)]) auto
  moreover have "tk_open_stack (snd (close_top t)) = st" by (simp add: r)
  ultimately show ?case using Cons.IH [of "snd (close_top t)"] by (simp add: gen_simps r(1))
qed (auto simp: gen_simps)

lemma sound_close: "tracker.sound a (\<lambda>_. True) iter_close_unclosed_blocks"
  by (rule tracker.soundI) (simp add: iter_close_unclosed_blocks_def gen_simps close_all_tracks)

lemma closed_stack [simp]:
  "tk_open_stack (after iter_close_unclosed_blocks t) = []"
  "raised iter_close_unclosed_blocks t = None"
  "tk_max_index (after iter_close_unclosed_blocks t) = tk_max_index t"
  "tk_stop_reason (after iter_close_unclosed_blocks t) = tk_stop_reason t"
  "tk_message_stopped (after iter_close_unclosed_blocks t) = tk_message_stopped t"
  "yields iter_close_unclosed_blocks t = map content_block_stop (tk_open_stack t)"
  using close_all_run [OF refl, of t] by (simp_all add: iter_close_unclosed_blocks_def gen_simps)

lemma closed_none_open: "tracker.tracks t c \<Longrightarrow> tk_open_stack t = [] \<Longrightarrow> open_blocks c = []"
proof -
  assume t: "tracker.tracks t c" and e: "tk_open_stack t = []"
  then have "dom (map_of (open_blocks c)) = {}" using stack_live [of t] by (simp add: tracker.tracks_def)
  then show "open_blocks c = []" by simp
qed

section \<open>Continuing\<close>

lemma find_map_filter:
  "List.find p (List.map_filter m xs) = Some b \<Longrightarrow> p b \<and> (\<exists>x \<in> set xs. m x = Some b)"
  by (induction xs) (auto simp: map_filter_simps split: option.splits if_splits)

lemma last_open_blockD:
  assumes "tracker_sane t" and "last_open_block k t = Some b"
  shows "block_at t (eb_index b) = Some b" "eb_open b" "eb_type b = k" "tracker_live t (eb_index b) = Some k"
proof -
  obtain i where i: "block_at t i = Some b" "eb_open b" "eb_type b = k"
    using find_map_filter [OF assms(2) [unfolded last_open_block_def]] by (auto simp: block_at_def)
  have "eb_index b = i" by (rule tracker_saneD(5) [OF assms(1) i(1)])
  with i show "block_at t (eb_index b) = Some b" "eb_open b" "eb_type b = k" "tracker_live t (eb_index b) = Some k"
    by (simp_all add: tracker_live_def)
qed

lemma extend_tracks:
  assumes "tracker.tracks t c" and "block_at t (eb_index b) = Some b" and "eb_open b"
    and "extends (content_block_delta (eb_index b) d s) (eb_index b) (eb_type b)"
  shows "\<exists>c'. check_event a c (fst (extend_block d s b t)) = Inr c' \<and> tracker.tracks (snd (extend_block d s b t)) c'"
proof -
  have s: "tracker_sane t" using assms(1) by (simp add: tracker.tracks_def)
  have live: "tracker_live t (eb_index b) = Some (eb_type b)" using assms(2,3) by (simp add: tracker_live_def)
  note P = sane_put_same [OF s assms(2), of "b\<lparr>eb_parts := eb_parts b @ [s]\<rparr>", simplified]
  show ?thesis
    using tracker.tracks_delta [OF assms(1,4) live P] by (simp add: extend_block_def)
qed

lemma open_tracks:
  assumes "tracker.tracks t c" and "k = ''text'' \<or> k = ''thinking''"
  shows "\<exists>c'. check_event a c (fst (open_suffix_block k t)) = Inr c' \<and> tracker.tracks (snd (open_suffix_block k t)) c'"
proof -
  have s: "tracker_sane t" using assms(1) by (simp add: tracker.tracks_def)
  let ?i = "next_content_index t"
  have o: "opens (content_block_start ?i k []) ?i k" using assms(2) by auto
  have f: "block_at t ?i = None" using next_unused [OF s] used_block_at [of ?i t] by auto
  have b: "eb_index (new_emitted_block ?i k) = ?i" "eb_open (new_emitted_block ?i k)" "eb_type (new_emitted_block ?i k) = k"
    by (simp_all add: new_emitted_block_def)
  note P = sane_put_new [OF s f b(1,2)]
  show ?thesis
    using tracker.tracks_start [OF assms(1) o next_unused [OF s] P(1) P(2) [unfolded b(3)] P(3)]
    by (simp add: open_suffix_block_def Let_def)
qed

lemma sound_append:
  assumes "(k = ''text'' \<and> d = ''text_delta'') \<or> (k = ''thinking'' \<and> d = ''thinking_delta'')"
  shows "tracker.sound a (\<lambda>_. True) (append_suffix k d s)"
proof -
  have ext: "extends (content_block_delta i d s) i k" for i using assms by auto
  have "tracker.sound a (\<lambda>t'. t' = t) (case last_open_block k t of
           Some active \<Rightarrow> gyield (extend_block d s active)
         | None \<Rightarrow> gseq (gyield (open_suffix_block k))
                       (gyield (extend_block d s (new_emitted_block (next_content_index t) k))))"
    if t: "tracker_sane t" for t
  proof (cases "last_open_block k t")
    case (Some b)
    note B = last_open_blockD [OF t Some]
    have "tracker.sound a (\<lambda>t'. t' = t) (gyield (extend_block d s b))"
      by (rule tracker.sound_gyield) (use B ext in \<open>auto intro!: extend_tracks\<close>)
    with Some show ?thesis by simp
  next
    case None
    let ?i = "next_content_index t" and ?b = "new_emitted_block (next_content_index t) k"
    have 1: "tracker.sound a (\<lambda>t'. t' = t) (gyield (open_suffix_block k))"
      by (rule tracker.sound_gyield) (use assms in \<open>auto intro!: open_tracks\<close>)
    have 2: "tracker.sound a (\<lambda>t'. block_at t' ?i = Some ?b) (gyield (extend_block d s ?b))"
      by (rule tracker.sound_gyield, rule extend_tracks) (use ext in \<open>simp_all add: new_emitted_block_def\<close>)
    have "tracker.sound a (\<lambda>t'. t' = t) (gseq (gyield (open_suffix_block k)) (gyield (extend_block d s ?b)))"
      by (rule tracker.sound_gseq [OF 1 2])
         (simp add: gen_simps open_suffix_block_def Let_def block_at_def dict_simps)
    with None show ?thesis by simp
  qed
  then show ?thesis
    unfolding append_suffix_def
    by (intro tracker.sound_gwhen tracker.sound_gread)
qed

lemma tool_block_at:
  assumes "tracker_sane t" and "b \<in> set (tool_blocks t)"
  shows "block_at t (eb_index b) = Some b" "eb_type b = ''tool_use''"
proof -
  obtain i where "(i, b) \<in> set (tk_blocks t)" "eb_type b = ''tool_use''" using assms(2) by (auto simp: tool_blocks_def)
  then have i: "block_at t i = Some b" "eb_type b = ''tool_use''"
    using tracker_saneD(2) [OF assms(1)] by (simp_all add: block_at_def)
  then show "block_at t (eb_index b) = Some b" "eb_type b = ''tool_use''"
    using tracker_saneD(5) [OF assms(1) i(1)] by simp_all
qed

text \<open>A repair is sound as long as the block it extends is still open.\<close>

lemma sound_tool_repair:
  "tracker.sound a (\<lambda>t. n < length (tool_blocks t) \<longrightarrow> eb_open (tool_blocks t ! n)) (append_tool_repair_suffix n s)"
  unfolding append_tool_repair_suffix_def
proof (rule tracker.sound_gread, rule tracker.sound_gwhen)
  fix t assume t: "tracker_sane t" and o: "n < length (tool_blocks t) \<longrightarrow> eb_open (tool_blocks t ! n)"
    and n: "n < length (tool_blocks t) \<and> s \<noteq> []"
  then have b: "tool_blocks t ! n \<in> set (tool_blocks t)" by simp
  note B = tool_block_at [OF t b]
  show "tracker.sound a (\<lambda>u. u = t) (gyield (extend_block ''input_json_delta'' s (tool_blocks t ! n)))"
    by (rule tracker.sound_gyield) (use B o n in \<open>auto intro!: extend_tracks\<close>)
qed

section \<open>Ending\<close>

lemma success_delta_inert [simp]: "inert a (success_delta r)"
  by (simp add: inert_def success_delta_def)

lemma sound_inert: "inert a f \<Longrightarrow> tracker.sound a P (gyield (\<lambda>t. (f, t)))"
  by (rule tracker.sound_gyield) (simp add: tracker.tracks_inert tracker.tracks_def check_inert)

lemma sound_success_tail: "tracker.sound a (\<lambda>_. True) (iter_success_tail r)"
  unfolding iter_success_tail_def
  by (intro tracker.sound_then sound_close tracker.sound_gread tracker.sound_gwhen sound_inert) simp_all

lemma success_tail_run:
  "raised (iter_success_tail r) t = None" "tk_open_stack (after (iter_success_tail r) t) = []"
  "yields (iter_success_tail r) t = map content_block_stop (tk_open_stack t) @
     (if tk_stop_reason t = None then [success_delta r] else []) @ (if tk_message_stopped t then [] else [message_stop])"
  by (simp_all add: iter_success_tail_def gen_simps)

lemma error_tail_frames:
  "\<exists>b. iter_midstream_error_tail uuid m n msg t =
     [content_block_start (next_content_index t) ''text'' [],
      content_block_delta (next_content_index t) ''text_delta'' msg, content_block_stop (next_content_index t),
      message_delta b ''end_turn'' (JInt 1) JNull JNull, message_stop]"
  by (simp add: iter_midstream_error_tail_def Let_def emit_error_def gen_simps tail_builder_def) blast

lemma check_transient:
  assumes "open_blocks c = []" and "i \<notin> seen_blocks c"
  shows "check_events a c [content_block_start i ''text'' [], content_block_delta i ''text_delta'' s, content_block_stop i]
    = Inr (c\<lparr>open_blocks := [], seen_blocks := insert i (seen_blocks c)\<rparr>)"
proof -
  let ?c = "c\<lparr>open_blocks := [(i, ''text'')], seen_blocks := insert i (seen_blocks c)\<rparr>"
  have "check_event a c (content_block_start i ''text'' []) = Inr ?c"
    using check_opens [of "content_block_start i ''text'' []" i "''text''" c a] assms by simp
  moreover have "check_event a ?c (content_block_delta i ''text_delta'' s) = Inr ?c"
    by (rule check_extends [OF delta_extends(2)]) simp
  moreover have "check_event a ?c (content_block_stop i) = Inr (c\<lparr>open_blocks := [], seen_blocks := insert i (seen_blocks c)\<rparr>)"
    using check_closes [OF stop_closes, of i ?c a] by simp
  ultimately show ?thesis by simp
qed

end
