(* ===== verification/Native_Policy.thy ===== *)
theory Native_Policy
  imports Sse_Text
begin

text \<open>
  The policy on native event streams (\<open>core/anthropic/native_sse_block_policy.py\<close>): thinking blocks
  are dropped when thinking is off, overlapping content blocks are serialised, and block indexes are
  renumbered in the order in which blocks start.

  \<open>NativeSseBlockPolicyState\<close> is the record \<open>policy_state\<close>; the function on one event returns the
  text to send or nothing, or the \<open>AttributeError\<close> of a payload that is not an object.
\<close>

section \<open>State\<close>

record upstream_block =
  ub_type :: string
  ub_down :: int
  ub_open :: bool
  ub_start :: "jdict option"

record policy_state =
  np_next :: int
  np_by_upstream :: "(int, upstream_block) dict"
  np_dropped :: "int set"
  np_pending_stops :: "int set"
  np_message_stopped :: bool

definition new_policy_state :: policy_state where
  "new_policy_state = \<lparr>np_next = 0, np_by_upstream = [], np_dropped = {}, np_pending_stops = {},
     np_message_stopped = False\<rparr>"

section \<open>Events as text\<close>

definition format_native_sse_event :: "string option \<Rightarrow> string \<Rightarrow> string" where
  "format_native_sse_event event_name data_text =
     py_join [LF]
       ((case event_name of Some n \<Rightarrow> if n = [] then [] else [''event: '' @ n] | None \<Rightarrow> []) @
        map (\<lambda>line. ''data: '' @ line) (py_splitlines data_text)) @ [LF, LF]"

definition parse_native_line :: "string option \<times> string list \<Rightarrow> string \<Rightarrow> string option \<times> string list" where
  "parse_native_line acc line =
     (if py_startswith line ''event:'' then (Some (py_strip (drop 6 line)), snd acc)
      else if py_startswith line ''data:'' then (fst acc, snd acc @ [py_lstrip (drop 5 line)])
      else acc)"

definition parse_native_sse_event :: "string \<Rightarrow> string option \<times> string" where
  "parse_native_sse_event event =
     (case foldl parse_native_line (None, []) (py_splitlines (py_strip event)) of
        (event_name, data_lines) \<Rightarrow> (event_name, py_join [LF] data_lines))"

definition upper_char :: "char \<Rightarrow> char" where
  "upper_char c = (let n = of_char c :: nat in if 97 \<le> n \<and> n \<le> 122 then char_of (n - 32) else c)"

definition is_terminal_openrouter_done_event :: "string option \<Rightarrow> string \<Rightarrow> bool" where
  "is_terminal_openrouter_done_event event_name data_text \<longleftrightarrow>
     event_name \<in> {None, Some ''data'', Some ''done''} \<and> map upper_char (py_strip data_text) = ''[DONE]''"

section \<open>Blocks\<close>

definition delta_type_to_block_kind :: "json \<Rightarrow> string option" where
  "delta_type_to_block_kind delta_type =
     (case as_str delta_type of
        None \<Rightarrow> None
      | Some t \<Rightarrow>
          if t = ''thinking_delta'' \<or> t = ''signature_delta'' then Some ''thinking''
          else if t = ''text_delta'' then Some ''text''
          else if t = ''input_json_delta'' then Some ''tool_use''
          else None)"

text \<open>\<open>label\<close> is the upstream index as the f-string prints it.\<close>

definition synthetic_start_content_block :: "string \<Rightarrow> string \<Rightarrow> jdict option \<Rightarrow> jdict" where
  "synthetic_start_content_block block_kind label stored_tool_block =
     (if block_kind = ''tool_use'' then
        (case stored_tool_block of
           Some stored \<Rightarrow>
             if jget stored ''type'' = JStr ''tool_use''
             then [(''type'', JStr ''tool_use''),
                   (''id'', case as_str (jget stored ''id'') of
                              Some i \<Rightarrow> JStr (if i = [] then ''toolu_or_'' @ label else i)
                            | None \<Rightarrow> JStr (''toolu_or_'' @ label)),
                   (''name'', JStr (case as_str (jget stored ''name'') of Some n \<Rightarrow> n | None \<Rightarrow> [])),
                   (''input'', JObj (case as_obj (jget stored ''input'') of Some d \<Rightarrow> d | None \<Rightarrow> []))]
             else [(''type'', JStr ''tool_use''), (''id'', JStr (''toolu_or_'' @ label)), (''name'', JStr []),
                   (''input'', JObj [])]
         | None \<Rightarrow>
             [(''type'', JStr ''tool_use''), (''id'', JStr (''toolu_or_'' @ label)), (''name'', JStr []),
              (''input'', JObj [])])
      else if block_kind = ''thinking'' then [(''type'', JStr ''thinking''), (''thinking'', JStr [])]
      else [(''type'', JStr ''text''), (''text'', JStr [])])"

definition should_drop_block_type :: "bool \<Rightarrow> json \<Rightarrow> bool" where
  "should_drop_block_type thinking_enabled block_type =
     (case as_str block_type of
        None \<Rightarrow> False
      | Some t \<Rightarrow>
          if py_startswith t ''redacted_thinking'' then \<not> thinking_enabled
          else \<not> thinking_enabled \<and> py_contains ''thinking'' t)"

definition native_event :: "string \<Rightarrow> jdict \<Rightarrow> string" where
  "native_event event_name payload = format_native_sse_event (Some event_name) (json_dumps (JObj payload))"

definition stop_payload :: "int \<Rightarrow> jdict" where
  "stop_payload index = [(''type'', JStr ''content_block_stop''), (''index'', JInt index)]"

text \<open>The loop over \<open>list(state.by_upstream.items())\<close>.\<close>

fun close_others ::
  "int \<Rightarrow> (int \<times> upstream_block) list \<Rightarrow> policy_state \<Rightarrow> string \<times> policy_state" where
  "close_others current [] s = ([], s)"
| "close_others current ((upstream, seg) # items) s =
     (if upstream = current \<or> \<not> ub_open seg then close_others current items s
      else
        (case close_others current items
                (s\<lparr>np_by_upstream := dset upstream (seg\<lparr>ub_open := False\<rparr>) (np_by_upstream s),
                   np_pending_stops := insert upstream (np_pending_stops s)\<rparr>) of
           (out, s') \<Rightarrow> (native_event ''content_block_stop'' (stop_payload (ub_down seg)) @ out, s')))"

definition synthetic_close_other_open_blocks :: "int \<Rightarrow> policy_state \<Rightarrow> string \<times> policy_state" where
  "synthetic_close_other_open_blocks current s = close_others current (np_by_upstream s) s"

definition allocate_new_segment ::
  "int \<Rightarrow> string \<Rightarrow> jdict option \<Rightarrow> policy_state \<Rightarrow> int \<times> policy_state" where
  "allocate_new_segment upstream_index block_type last_start_block s =
     (np_next s,
      s\<lparr>np_next := np_next s + 1,
        np_by_upstream := dset upstream_index
          \<lparr>ub_type = block_type, ub_down = np_next s, ub_open = True, ub_start = last_start_block\<rparr>
          (np_by_upstream s)\<rparr>)"

section \<open>The three block events\<close>

type_synonym policy_result = "(py_error + string option) \<times> policy_state"

definition on_block_start :: "bool \<Rightarrow> string \<Rightarrow> jdict \<Rightarrow> policy_state \<Rightarrow> policy_result" where
  "on_block_start thinking_enabled event payload s =
     (case as_obj (jget payload ''content_block'') of
        None \<Rightarrow> (Inr (Some event), s)
      | Some block \<Rightarrow>
          (case as_int (jget payload ''index'') of
             None \<Rightarrow> (Inr (Some event), s)
           | Some upstream_index \<Rightarrow>
               if should_drop_block_type thinking_enabled (jget block ''type'')
               then (Inr None, s\<lparr>np_dropped := insert upstream_index (np_dropped s)\<rparr>)
               else
                 (case as_str (jget block ''type'') of
                    None \<Rightarrow> (Inr (Some event), s)
                  | Some block_type \<Rightarrow>
                      (case synthetic_close_other_open_blocks upstream_index s of
                         (pre, s) \<Rightarrow>
                           (case allocate_new_segment upstream_index block_type (Some block) s of
                              (new_idx, s) \<Rightarrow>
                                (Inr (Some (pre @ native_event ''content_block_start''
                                        (dset ''index'' (JInt new_idx) payload))), s))))))"

definition synthetic_start_event :: "int \<Rightarrow> jdict \<Rightarrow> string" where
  "synthetic_start_event new_idx block =
     native_event ''content_block_start''
       [(''type'', JStr ''content_block_start''), (''index'', JInt new_idx), (''content_block'', JObj block)]"

definition on_block_delta :: "bool \<Rightarrow> string \<Rightarrow> jdict \<Rightarrow> policy_state \<Rightarrow> policy_result" where
  "on_block_delta thinking_enabled event payload s =
     (case as_obj (jget payload ''delta'') of
        None \<Rightarrow> (Inr (Some event), s)
      | Some delta \<Rightarrow>
          (case as_int (jget payload ''index'') of
             None \<Rightarrow> (Inr (Some event), s)
           | Some upstream_index \<Rightarrow>
               if upstream_index \<in> np_dropped s then (Inr None, s)
               else if should_drop_block_type thinking_enabled (jget delta ''type'') then (Inr None, s)
               else
                 (case delta_type_to_block_kind (jget delta ''type'') of
                    None \<Rightarrow> (Inr (Some event), s)
                  | Some block_kind \<Rightarrow>
                      (let label = py_str (jget payload ''index'');
                           send = (\<lambda>idx. native_event ''content_block_delta'' (dset ''index'' (JInt idx) payload))
                       in case map_of (np_by_upstream s) upstream_index of
                            Some seg \<Rightarrow>
                              if ub_open seg then (Inr (Some (send (ub_down seg))), s)
                              else
                                (let carry = ub_start seg;
                                     s = s\<lparr>np_pending_stops := np_pending_stops s - {upstream_index}\<rparr>;
                                     stored_tool = (case carry of
                                         Some d \<Rightarrow> if jget d ''type'' = JStr ''tool_use'' then Some d else None
                                       | None \<Rightarrow> None)
                                 in case allocate_new_segment upstream_index block_kind carry s of
                                      (new_idx, s) \<Rightarrow>
                                        (Inr (Some (synthetic_start_event new_idx
                                            (synthetic_start_content_block block_kind label stored_tool) @ send new_idx)), s))
                          | None \<Rightarrow>
                              if block_kind = ''text'' \<or> block_kind = ''tool_use'' then
                                (let block = synthetic_start_content_block block_kind label None
                                 in case allocate_new_segment upstream_index block_kind (Some block) s of
                                      (new_idx, s) \<Rightarrow>
                                        (Inr (Some (synthetic_start_event new_idx block @ send new_idx)), s))
                              else (Inr (Some event), s)))))"

definition on_block_stop :: "bool \<Rightarrow> string \<Rightarrow> jdict \<Rightarrow> policy_state \<Rightarrow> policy_result" where
  "on_block_stop thinking_enabled event payload s =
     (case as_int (jget payload ''index'') of
        None \<Rightarrow> (Inr (Some event), s)
      | Some upstream_index \<Rightarrow>
          if upstream_index \<in> np_dropped s then (Inr None, s)
          else if upstream_index \<in> np_pending_stops s
          then (Inr None, s\<lparr>np_pending_stops := np_pending_stops s - {upstream_index}\<rparr>)
          else
            (case map_of (np_by_upstream s) upstream_index of
               Some seg \<Rightarrow>
                 if ub_open seg
                 then (Inr (Some (native_event ''content_block_stop'' (dset ''index'' (JInt (ub_down seg)) payload))),
                       s\<lparr>np_by_upstream := dset upstream_index (seg\<lparr>ub_open := False\<rparr>) (np_by_upstream s)\<rparr>)
                 else (Inr None, s)
             | None \<Rightarrow> if \<not> thinking_enabled then (Inr None, s) else (Inr (Some event), s)))"

definition transform_native_sse_block_event :: "bool \<Rightarrow> string \<Rightarrow> policy_state \<Rightarrow> policy_result" where
  "transform_native_sse_block_event thinking_enabled event s =
     (case parse_native_sse_event event of
        (event_name, data_text) \<Rightarrow>
          if event_name = None \<or> event_name = Some [] \<or> data_text = [] then (Inr (Some event), s)
          else
            (case json_loads data_text of
               None \<Rightarrow> (Inr (Some event), s)
             | Some payload \<Rightarrow>
                 if event_name \<notin> {Some ''content_block_start'', Some ''content_block_delta'', Some ''content_block_stop''}
                 then (Inr (Some event), s)
                 else
                   (case as_obj payload of
                      None \<Rightarrow> (Inl AttributeError, s)
                    | Some d \<Rightarrow>
                        if event_name = Some ''content_block_start'' then on_block_start thinking_enabled event d s
                        else if event_name = Some ''content_block_delta'' then on_block_delta thinking_enabled event d s
                        else on_block_stop thinking_enabled event d s)))"

end
