(* ===== verification/Native_Stream.thy ===== *)
theory Native_Stream
  imports Tracker_Tails Native_Policy
begin

text \<open>
  One native stream (\<open>providers/transports/anthropic_messages/stream.py\<close>, \<open>recovery.py\<close> and
  \<open>core/anthropic/provider_stream_error.py\<close>): grouping response lines into events, the policy and
  its chunks, the tracker and the recovery session on each chunk, midstream recovery, the error
  tail, and the loop over upstream attempts.

  The upstream, the clock, the encoder of emitted frames, the validator, the clamped request of a
  provider and the message shown for an error are in \<open>native_env\<close>.  Output is text.
\<close>

section \<open>What is outside\<close>

text \<open>A request either fails before the response, or gives its lines and how they ended.\<close>

datatype native_response =
    SendFails stream_exn
  | ResponseLines "string list" "stream_exn option"

record native_env =
  ne_line_mode :: bool
  ne_thinking :: bool
  ne_now :: "nat \<Rightarrow> rat"
  ne_validator :: validator
  ne_tools :: "jdict list"
  ne_upstream :: "nat \<Rightarrow> jdict \<Rightarrow> native_response"
  ne_retry_body :: "stream_exn \<Rightarrow> jdict \<Rightarrow> jdict option"
  ne_error_message :: "stream_exn \<Rightarrow> string"
  ne_encode :: "jdict \<Rightarrow> string"
  ne_uuid :: string
  ne_model :: string
  ne_input_tokens :: json
  ne_body :: jdict

record native_runner =
  nr_tracker :: tracker
  nr_policy :: policy_state
  nr_body :: jdict
  nr_calls :: nat
  nr_clamped :: bool

type_synonym text_session = "string recovery_session"

section \<open>Events and chunks\<close>

text \<open>\<open>iter_sse_events\<close>: the pending lines are sent at the end only if the response ended normally.\<close>

fun group_events :: "string list \<Rightarrow> string list \<Rightarrow> bool \<Rightarrow> string list" where
  "group_events event_lines [] ended =
     (if event_lines \<noteq> [] \<and> ended then [py_join [LF] event_lines @ [LF, LF]] else [])"
| "group_events event_lines (line # ls) ended =
     (if line \<noteq> [] then group_events (event_lines @ [line]) ls ended
      else if event_lines \<noteq> [] then (py_join [LF] event_lines @ [LF, LF]) # group_events [] ls ended
      else group_events [] ls ended)"

definition iter_sse_events :: "string list \<Rightarrow> bool \<Rightarrow> string list" where
  "iter_sse_events ls ended = group_events [] ls ended"

text \<open>\<open>str.splitlines(keepends=True)\<close>.\<close>

fun keep_lines_aux :: "string \<Rightarrow> string \<Rightarrow> string list" where
  "keep_lines_aux acc [] = (if acc = [] then [] else [rev acc])"
| "keep_lines_aux acc [c] = [rev (c # acc)]"
| "keep_lines_aux acc (c # d # s) =
     (if c = CR \<and> d = LF then rev (d # c # acc) # keep_lines_aux [] s
      else if is_linebreak c then rev (c # acc) # keep_lines_aux [] (d # s)
      else keep_lines_aux (c # acc) (d # s))"

definition py_splitlines_keep :: "string \<Rightarrow> string list" where
  "py_splitlines_keep s = keep_lines_aux [] s"

definition transform_stream_event :: "native_env \<Rightarrow> string \<Rightarrow> policy_state \<Rightarrow> policy_result" where
  "transform_stream_event e event s =
     (if ne_line_mode e then transform_native_sse_block_event (ne_thinking e) event s else (Inr (Some event), s))"

definition event_chunks :: "native_env \<Rightarrow> string \<Rightarrow> string list" where
  "event_chunks e output_event = (if ne_line_mode e then py_splitlines_keep output_event else [output_event])"

text \<open>\<open>iter_stream_chunks\<close>, up to the exception of the policy.\<close>

fun stream_chunks :: "native_env \<Rightarrow> string list \<Rightarrow> policy_state \<Rightarrow> string list \<times> py_error option \<times> policy_state" where
  "stream_chunks e [] s = ([], None, s)"
| "stream_chunks e (ev # evs) s =
     (case transform_stream_event e ev s of
        (Inl x, s) \<Rightarrow> ([], Some x, s)
      | (Inr None, s) \<Rightarrow> stream_chunks e evs s
      | (Inr (Some out), s) \<Rightarrow>
          (case stream_chunks e evs s of (chunks, x, s) \<Rightarrow> (event_chunks e out @ chunks, x, s)))"

text \<open>The chunks of one response and the exception it ends with.\<close>

definition response_chunks :: "native_env \<Rightarrow> string list \<Rightarrow> stream_exn option \<Rightarrow> policy_state \<Rightarrow>
    string list \<times> stream_exn option \<times> policy_state" where
  "response_chunks e ls ending s =
     (case stream_chunks e (iter_sse_events ls (ending = None)) s of
        (chunks, Some x, s) \<Rightarrow> (chunks, Some (PythonError x), s)
      | (chunks, None, s) \<Rightarrow> (chunks, ending, s))"

section \<open>Recovery\<close>

definition event_part :: "string \<Rightarrow> sse_event \<Rightarrow> string" where
  "event_part key e =
     (case Option.bind (as_obj (jget (ev_data e) ''delta'')) (\<lambda>d. as_str (jget d key)) of Some s \<Rightarrow> s | None \<Rightarrow> [])"

fun native_collect_text ::
  "native_env \<Rightarrow> jdict \<Rightarrow> nat \<Rightarrow> stream_exn option \<Rightarrow> nat \<Rightarrow> (stream_exn + string \<times> string) \<times> nat" where
  "native_collect_text e body 0 last_error calls =
     (case last_error of Some x \<Rightarrow> Inl x | None \<Rightarrow> Inr ([], []), calls)"
| "native_collect_text e body (Suc n) last_error calls =
     (let failed = (\<lambda>x. if is_retryable_stream_error x then native_collect_text e body n (Some x) (Suc calls)
                        else (Inl x, Suc calls))
      in case ne_upstream e calls body of
           SendFails x \<Rightarrow> failed x
         | ResponseLines ls ending \<Rightarrow>
             (case response_chunks e ls ending new_policy_state of
                (chunks, Some x, _) \<Rightarrow> failed x
              | (chunks, None, _) \<Rightarrow>
                  (let events = parse_sse_text (concat chunks)
                   in (Inr (concat (map (event_part ''text'') events), concat (map (event_part ''thinking'') events)),
                       Suc calls))))"

text \<open>Why there are no recovery events: \<open>None\<close> in the code, or an exception of an internal request.\<close>

datatype native_stop = Unrecoverable | RequestRaised stream_exn

type_synonym native_gen = "(native_runner, frame, native_stop) gen"

definition on_tracker :: "tracker_gen \<Rightarrow> native_gen" where
  "on_tracker g r = (case g (nr_tracker r) of (es, _, t) \<Rightarrow> (es, None, r\<lparr>nr_tracker := t\<rparr>))"

definition native_collecting :: "native_env \<Rightarrow> jdict \<Rightarrow> (string \<times> string \<Rightarrow> native_gen) \<Rightarrow> native_gen" where
  "native_collecting e body k =
     gread (\<lambda>r. case native_collect_text e body MIDSTREAM_RECOVERY_ATTEMPTS None (nr_calls r) of
       (result, calls) \<Rightarrow>
         gseq (gdo (\<lambda>r. r\<lparr>nr_calls := calls\<rparr>))
           (case result of Inl x \<Rightarrow> graise (RequestRaised x) | Inr texts \<Rightarrow> k texts))"

fun native_repair_attempts ::
  "native_env \<Rightarrow> nat \<Rightarrow> jdict \<Rightarrow> emitted_block \<Rightarrow> (string \<Rightarrow> native_gen) \<Rightarrow> native_gen" where
  "native_repair_attempts e 0 body b k = graise Unrecoverable"
| "native_repair_attempts e (Suc n) body b k =
     native_collecting e body (\<lambda>(txt, _).
       case accept_tool_json_repair (ne_validator e) (eb_content b) txt (eb_name b) (tool_schemas_by_name (ne_tools e)) of
         Some repair \<Rightarrow> k (tr_suffix repair)
       | None \<Rightarrow> native_repair_attempts e n body b k)"

definition native_repair_tool :: "native_env \<Rightarrow> nat \<times> emitted_block \<Rightarrow> native_gen" where
  "native_repair_tool e item =
     (case item of (index, b) \<Rightarrow>
       (let schemas = tool_schemas_by_name (ne_tools e)
        in gwhen (\<not> complete_block (ne_validator e) schemas b)
             (gread (\<lambda>r. native_repair_attempts e MIDSTREAM_RECOVERY_ATTEMPTS
                (make_native_tool_repair_body (nr_body r) (eb_name b) (eb_content b)
                   (map_option ts_input_schema (map_of schemas (eb_name b))))
                b (\<lambda>accepted. on_tracker (append_tool_repair_suffix index accepted))))))"

definition native_recover_tools :: "native_env \<Rightarrow> native_gen" where
  "native_recover_tools e =
     gread (\<lambda>r. gseq (gfor (native_repair_tool e) (enumerate 0 (tool_blocks (nr_tracker r))))
       (gread (\<lambda>r. if can_salvage_tool_use (ne_validator e) (tool_schemas_by_name (ne_tools e)) (nr_tracker r)
                   then on_tracker (iter_success_tail ''tool_use'') else graise Unrecoverable)))"

definition native_continue :: "string option \<Rightarrow> string option \<Rightarrow> native_gen" where
  "native_continue thinking_suffix text_suffix =
     (let ending = (\<lambda>s. case s of Some t \<Rightarrow> t | None \<Rightarrow> [])
      in if ending thinking_suffix = [] \<and> ending text_suffix = [] then graise Unrecoverable
         else gseq (on_tracker (append_thinking_suffix (ending thinking_suffix)))
             (gseq (on_tracker (append_text_suffix (ending text_suffix)))
                   (on_tracker (iter_success_tail ''end_turn''))))"

definition native_recovery_events :: "native_env \<Rightarrow> stream_exn \<Rightarrow> native_gen" where
  "native_recovery_events e error =
     gread (\<lambda>r.
       if \<not> is_retryable_stream_error error then graise Unrecoverable
       else if has_tool_block (nr_tracker r) then native_recover_tools e
       else
         (let partial_text = emitted_text (nr_tracker r); partial_thinking = emitted_thinking (nr_tracker r)
          in if partial_text = [] \<and> partial_thinking = [] then graise Unrecoverable
             else native_collecting e (make_native_text_recovery_body (nr_body r) partial_text)
                    (\<lambda>(txt, thinking). native_continue (continuation_suffix partial_thinking thinking)
                                          (continuation_suffix partial_text txt))))"

section \<open>The run\<close>

fun push_chunks :: "native_env \<Rightarrow> string list \<Rightarrow> tracker \<Rightarrow> text_session \<Rightarrow> string list \<times> tracker \<times> text_session" where
  "push_chunks e [] t s = ([], t, s)"
| "push_chunks e (c # cs) t s =
     (case session_push (ne_now e) utf8_len c s of
        (out, s) \<Rightarrow> (case push_chunks e cs (tracker_feed c t) s of (out', t, s) \<Rightarrow> (out @ out', t, s)))"

text \<open>\<open>iter_provider_stream_error_sse_events\<close> with \<open>sent_any_event = False\<close>.\<close>

definition provider_error_events :: "native_env \<Rightarrow> string \<Rightarrow> bool \<Rightarrow> frame list" where
  "provider_error_events e error_message sent_any_event =
     (let b = new_sse_builder (ne_uuid e) (ne_model e) (ne_input_tokens e)
      in (if sent_any_event then [] else [message_start b]) @ yields (emit_error error_message) b @
         [message_delta (after (emit_error error_message) b) ''end_turn'' (JInt 1) JNull JNull, message_stop])"

definition native_error_tail :: "native_env \<Rightarrow> stream_exn \<Rightarrow> tracker \<Rightarrow> frame list" where
  "native_error_tail e error t =
     yields iter_close_unclosed_blocks t @
     iter_midstream_error_tail (ne_uuid e) (ne_model e) (ne_input_tokens e) (ne_error_message e error)
       (after iter_close_unclosed_blocks t)"

text \<open>What goes out is chunks of the upstream followed by frames of our own.\<close>

type_synonym sent_text = "string list \<times> frame list"

definition native_final_error ::
  "native_env \<Rightarrow> stream_exn \<Rightarrow> failure_decision \<Rightarrow> native_runner \<Rightarrow> text_session \<Rightarrow> sent_text" where
  "native_final_error e error decision r s =
     (if fd_committed decision \<or> fd_has_buffered decision
      then (if fd_committed decision then [] else fst (session_flush s),
            native_error_tail e error (nr_tracker r))
      else ([], provider_error_events e (ne_error_message e error) False))"

definition native_reset :: "native_runner \<Rightarrow> native_runner" where
  "native_reset r = r\<lparr>nr_tracker := new_tracker, nr_policy := new_policy_state\<rparr>"

definition native_on_failure ::
  "native_env \<Rightarrow> stream_exn \<Rightarrow> bool \<Rightarrow> native_runner \<Rightarrow> text_session \<Rightarrow>
     sent_text + native_runner \<times> text_session" where
  "native_on_failure e error stream_opened r s =
     (let generated_output = has_content_block (nr_tracker r);
          complete_tool_salvageable = (generated_output \<and>
            can_salvage_tool_use (ne_validator e) (tool_schemas_by_name (ne_tools e)) (nr_tracker r));
          retry_body = (if \<not> stream_opened \<and> \<not> generated_output \<and> \<not> hb_committed (rs_holdback s)
                           \<and> \<not> hb_has_buffered (rs_holdback s) \<and> \<not> nr_clamped r
                        then ne_retry_body e error (nr_body r) else None)
      in case retry_body of
           Some body \<Rightarrow> Inr ((native_reset r)\<lparr>nr_body := body, nr_clamped := True\<rparr>, s)
         | None \<Rightarrow>
             (case advance_failure error stream_opened generated_output complete_tool_salvageable s of
                (decision, s) \<Rightarrow>
                  (case fd_action decision of
                     EARLY_RETRY \<Rightarrow> Inr (native_reset r, s)
                   | MIDSTREAM_RECOVERY \<Rightarrow>
                       (case native_recovery_events e error r of
                          (events, None, _) \<Rightarrow> Inl (fst (flush_uncommitted decision s), events)
                        | (_, Some _, r') \<Rightarrow> Inl (native_final_error e error decision r' s))
                   | FINAL_ERROR \<Rightarrow> Inl (native_final_error e error decision r s))))"

definition native_attempt ::
  "native_env \<Rightarrow> native_runner \<Rightarrow> text_session \<Rightarrow>
     (bool \<times> stream_exn) option \<times> string list \<times> native_runner \<times> text_session" where
  "native_attempt e r s =
     (let calls = nr_calls r; r = r\<lparr>nr_calls := Suc calls\<rparr>
      in case ne_upstream e calls (nr_body r) of
           SendFails x \<Rightarrow> (Some (False, x), [], r, s)
         | ResponseLines ls ending \<Rightarrow>
             (case response_chunks e ls ending (nr_policy r) of
                (chunks, failed, policy) \<Rightarrow>
                  (case push_chunks e chunks (nr_tracker r) s of
                     (out, t, s) \<Rightarrow>
                       (let r = r\<lparr>nr_tracker := t, nr_policy := policy\<rparr>
                        in case failed of
                             Some x \<Rightarrow> (Some (True, x), out, r, s)
                           | None \<Rightarrow>
                               if \<not> has_terminal_message t then (Some (True, TruncatedProviderStreamError), out, r, s)
                               else (None, out, r, s)))))"

lemma push_chunks_retries: "push_chunks e cs t s = (out, t', s') \<Longrightarrow> rs_early_retries s' = rs_early_retries s"
  by (induction cs arbitrary: t s out) (auto simp: session_push_def split: prod.splits)

lemma native_attempt_keeps:
  "native_attempt e r s = (x, out, r', s') \<Longrightarrow> rs_early_retries s' = rs_early_retries s \<and> nr_clamped r' = nr_clamped r"
  by (auto simp: native_attempt_def Let_def split: native_response.splits prod.splits option.splits if_splits
      dest: push_chunks_retries)

text \<open>Another pass is one more early retry, or the one clamped retry.\<close>

lemma native_on_failure_retry:
  assumes "native_on_failure e error opened r s = Inr (r', s')"
  shows "nr_tracker r' = new_tracker" "nr_policy r' = new_policy_state"
    and "rs_early_retries s' = Suc (rs_early_retries s) \<and> rs_early_retries s < EARLY_TRANSPARENT_MAX_RETRIES \<and>
           nr_clamped r' = nr_clamped r \<and> \<not> hb_committed (rs_holdback s) \<and>
           rs_holdback s' = new_holdback (hb_reads (rs_holdback s)) \<or>
         s' = s \<and> nr_clamped r' \<and> \<not> nr_clamped r \<and> \<not> hb_committed (rs_holdback s) \<and> \<not> hb_has_buffered (rs_holdback s)"
  using assms
  by (auto simp: native_on_failure_def native_reset_def advance_failure_def reset_holdback_def Let_def
      split: if_splits option.splits prod.splits failure_action.splits)

definition passes_left :: "native_runner \<Rightarrow> text_session \<Rightarrow> nat" where
  "passes_left r s = (if nr_clamped r then 0 else 1) + (EARLY_TRANSPARENT_MAX_RETRIES - rs_early_retries s)"

lemma passes_decrease:
  assumes "native_attempt e r s = (x, out, r1, s1)" and "native_on_failure e error opened r1 s1 = Inr (r', s')"
  shows "passes_left r' s' < passes_left r s"
  using native_attempt_keeps [OF assms(1)] native_on_failure_retry(3) [OF assms(2)]
  by (auto simp: passes_left_def)

function native_loop :: "native_env \<Rightarrow> native_runner \<Rightarrow> text_session \<Rightarrow> sent_text" where
  "native_loop e r s =
     (case native_attempt e r s of
        (None, out, r, s) \<Rightarrow> (out @ fst (session_flush s), [])
      | (Some (opened, x), out, r, s) \<Rightarrow>
          (case native_on_failure e x opened r s of
             Inl (out', frames) \<Rightarrow> (out @ out', frames)
           | Inr (r', s') \<Rightarrow> (case native_loop e r' s' of (out', frames) \<Rightarrow> (out @ out', frames))))"
  by pat_completeness auto
termination
proof (relation "measure (\<lambda>(e, r, s). passes_left r s)", simp, goal_cases)
  case (1 e r s y z w v)
  then show ?case by (auto intro: passes_decrease [OF sym])
qed

declare native_loop.simps [simp del]

definition new_native_runner :: "native_env \<Rightarrow> native_runner" where
  "new_native_runner e = \<lparr>nr_tracker = new_tracker, nr_policy = new_policy_state, nr_body = ne_body e,
     nr_calls = 0, nr_clamped = False\<rparr>"

definition native_run :: "native_env \<Rightarrow> sent_text" where
  "native_run e = native_loop e (new_native_runner e) new_recovery_session"

text \<open>The text the client reads.\<close>

definition native_text :: "native_env \<Rightarrow> string" where
  "native_text e = (case native_run e of (chunks, frames) \<Rightarrow> concat chunks @ concat (map (write_frame (ne_encode e)) frames))"

end
