(* ===== verification/Native_Recovery.thy ===== *)
theory Native_Recovery
  imports Native_Stream
begin

text \<open>
  Recovery of a native stream keeps the contract: the native runner is a \<open>block_source\<close> through
  its tracker; repairs of tool inputs, continuations and tails are sound steps, recovery events
  end the stream, and a recovery that gives up leaves the tracker in step with what the client has.
\<close>

section \<open>Tails\<close>

lemma check_inert_Cons: "inert a f \<Longrightarrow> check_events a c (f # fs) = check_events a c fs"
  by (simp add: check_inert)

lemma check_error_frames:
  assumes "open_blocks c = []" and "i \<notin> seen_blocks c"
  shows "check_events a c [content_block_start i ''text'' [], content_block_delta i ''text_delta'' s, content_block_stop i,
      message_delta b r x y z, message_stop] = Inr (c\<lparr>open_blocks := [], seen_blocks := insert i (seen_blocks c)\<rparr>)"
proof -
  have "check_events a c ([content_block_start i ''text'' [], content_block_delta i ''text_delta'' s, content_block_stop i] @
      [message_delta b r x y z, message_stop]) = Inr (c\<lparr>open_blocks := [], seen_blocks := insert i (seen_blocks c)\<rparr>)"
    unfolding check_events_append check_transient [OF assms] by (simp add: check_inert)
  then show ?thesis by (simp only: append.simps)
qed

lemma error_frames_close:
  assumes "open_blocks c = []" and "i \<notin> seen_blocks c"
  shows "closes_stream a c [content_block_start i ''text'' [], content_block_delta i ''text_delta'' s, content_block_stop i,
      message_delta b r x y z, message_stop]"
  unfolding closes_stream_def check_error_frames [OF assms] by simp

lemma error_tail_ends:
  assumes "tracker.tracks t c"
  shows "closes_stream a c (native_error_tail e x t)"
proof -
  let ?t = "after iter_close_unclosed_blocks t"
  obtain c1 where c1: "check_events a c (yields iter_close_unclosed_blocks t) = Inr c1" "tracker.tracks ?t c1"
    using tracker.soundD [OF sound_close assms, of a] by blast
  have o: "open_blocks c1 = []" by (rule closed_none_open [OF c1(2)]) simp
  have n: "next_content_index ?t \<notin> seen_blocks c1"
    using c1(2) next_unused [of ?t] by (simp add: tracker.tracks_def)
  obtain b where f: "iter_midstream_error_tail (ne_uuid e) (ne_model e) (ne_input_tokens e) (ne_error_message e x) ?t =
     [content_block_start (next_content_index ?t) ''text'' [],
      content_block_delta (next_content_index ?t) ''text_delta'' (ne_error_message e x),
      content_block_stop (next_content_index ?t), message_delta b ''end_turn'' (JInt 1) JNull JNull, message_stop]"
    using error_tail_frames by blast
  show ?thesis unfolding native_error_tail_def f by (rule closes_stream_append [OF c1(1) error_frames_close [OF o n]])
qed

lemma provider_error_stream:
  "stream_contract (provider_error_events e msg False) a = Inr ()"
proof -
  let ?b = "new_sse_builder (ne_uuid e) (ne_model e) (ne_input_tokens e)"
  obtain b where f: "provider_error_events e msg False =
     message_start ?b # [content_block_start 0 ''text'' [], content_block_delta 0 ''text_delta'' msg, content_block_stop 0,
        message_delta b ''end_turn'' (JInt 1) JNull JNull, message_stop]"
    by (simp add: provider_error_events_def Let_def emit_error_def gen_simps new_sse_builder_def new_block_manager_def)
  let ?fs = "[content_block_start 0 ''text'' [], content_block_delta 0 ''text_delta'' msg, content_block_stop 0,
        message_delta b ''end_turn'' (JInt 1) JNull JNull, message_stop]"
  have "closes_stream a check_init ?fs"
    by (rule error_frames_close) (simp_all add: check_init_def)
  moreover have "check_events a check_init [message_start ?b] = Inr check_init" by (simp add: check_inert)
  ultimately have "closes_stream a check_init ([message_start ?b] @ ?fs)" by (intro closes_stream_append)
  then show ?thesis unfolding f by (auto simp: closes_stream_def stream_contract_def simp del: check_events.simps)
qed

section \<open>Recovery\<close>

definition runner_sane :: "native_runner \<Rightarrow> bool" where
  "runner_sane r = tracker_sane (nr_tracker r)"

definition runner_live :: "native_runner \<Rightarrow> int \<Rightarrow> string option" where
  "runner_live r = tracker_live (nr_tracker r)"

definition runner_used :: "native_runner \<Rightarrow> int set" where
  "runner_used r = tracker_used (nr_tracker r)"

lemmas runner_views = runner_sane_def runner_live_def runner_used_def

interpretation native_runner: block_source runner_sane runner_live runner_used
  by unfold_locales (simp add: runner_views tracker.live_used)

lemma runner_tracks: "native_runner.tracks r c = tracker.tracks (nr_tracker r) c"
  by (simp add: native_runner.tracks_def tracker.tracks_def runner_views)

lemma on_tracker_run [gen_simps]:
  "yields (on_tracker g) r = yields g (nr_tracker r)" "raised (on_tracker g) r = None"
  "after (on_tracker g) r = r\<lparr>nr_tracker := after g (nr_tracker r)\<rparr>"
  by (simp_all add: on_tracker_def yields_def raised_def after_def split: prod.splits)

lemma sound_on_tracker:
  assumes "tracker.sound a P g"
  shows "native_runner.sound a (\<lambda>r. P (nr_tracker r)) (on_tracker g)"
proof (rule native_runner.soundI)
  fix r c assume "native_runner.tracks r c" "P (nr_tracker r)"
  with tracker.soundD [OF assms, of "nr_tracker r" c]
  show "\<exists>c'. check_events a c (yields (on_tracker g) r) = Inr c' \<and> native_runner.tracks (after (on_tracker g) r) c'"
    by (auto simp: gen_simps runner_tracks)
qed

lemma sound_collecting:
  assumes "\<And>texts. native_runner.sound a P (k texts)" and "\<And>r n. P (r\<lparr>nr_calls := n\<rparr>) = P r"
  shows "native_runner.sound a P (native_collecting e body k)"
proof (rule native_runner.soundI)
  fix r c assume r: "native_runner.tracks r c" "P r"
  obtain res calls where x: "native_collect_text e body MIDSTREAM_RECOVERY_ATTEMPTS None (nr_calls r) = (res, calls)"
    by (cases "native_collect_text e body MIDSTREAM_RECOVERY_ATTEMPTS None (nr_calls r)")
  let ?r = "r\<lparr>nr_calls := calls\<rparr>"
  have t: "native_runner.tracks ?r c" "P ?r" using r assms(2) by (simp_all add: runner_tracks)
  show "\<exists>c'. check_events a c (yields (native_collecting e body k) r) = Inr c' \<and>
      native_runner.tracks (after (native_collecting e body k) r) c'"
  proof (cases res)
    case (Inl y)
    with x t show ?thesis by (simp add: native_collecting_def gen_simps)
  next
    case (Inr texts)
    obtain c' where "check_events a c (yields (k texts) ?r) = Inr c'" "native_runner.tracks (after (k texts) ?r) c'"
      using native_runner.soundD [OF assms(1) t] by blast
    with Inr x show ?thesis by (simp add: native_collecting_def gen_simps)
  qed
qed

lemma keeps_collecting:
  assumes "\<And>texts. keeps I (k texts)" and "\<And>r n. I (r\<lparr>nr_calls := n\<rparr>) = I r"
  shows "keeps I (native_collecting e body k)"
  unfolding keeps_def
proof (intro allI impI)
  fix r assume "I r"
  obtain res calls where x: "native_collect_text e body MIDSTREAM_RECOVERY_ATTEMPTS None (nr_calls r) = (res, calls)"
    by (cases "native_collect_text e body MIDSTREAM_RECOVERY_ATTEMPTS None (nr_calls r)")
  have "I (r\<lparr>nr_calls := calls\<rparr>)" using \<open>I r\<close> assms(2) by simp
  with x assms(1) show "I (after (native_collecting e body k) r)"
    by (cases res) (simp_all add: native_collecting_def gen_simps keeps_def)
qed


section \<open>Repairing tools\<close>

definition block_shapes :: "tracker \<Rightarrow> (string \<times> bool) list" where
  "block_shapes t = map (\<lambda>b. (eb_type b, eb_open b)) (dvalues (tk_blocks t))"

lemma map_dset_same:
  "map_of xs i = Some b \<Longrightarrow> f b' = f b \<Longrightarrow> map (f \<circ> snd) (dset i b' xs) = map (f \<circ> snd) xs"
  by (induction xs) auto

lemma tool_opens: "map eb_open (tool_blocks t) = map snd (List.filter (\<lambda>p. fst p = ''tool_use'') (block_shapes t))"
  by (simp add: tool_blocks_def block_shapes_def filter_map comp_def)

lemma tool_open_nth:
  assumes "block_shapes t = block_shapes t'" and "n < length (tool_blocks t)"
  shows "n < length (tool_blocks t')" "eb_open (tool_blocks t ! n) = eb_open (tool_blocks t' ! n)"
proof -
  have m: "map eb_open (tool_blocks t) = map eb_open (tool_blocks t')" by (simp add: tool_opens assms(1))
  show n: "n < length (tool_blocks t')" using arg_cong [OF m, of length] assms(2) by simp
  show "eb_open (tool_blocks t ! n) = eb_open (tool_blocks t' ! n)"
    using arg_cong [OF m, of "\<lambda>xs. xs ! n"] n assms(2) by simp
qed

text \<open>What a repair leaves alone.\<close>

definition same_frame :: "tracker \<Rightarrow> tracker \<Rightarrow> bool" where
  "same_frame t0 t \<longleftrightarrow> block_shapes t = block_shapes t0 \<and> tracker_live t = tracker_live t0 \<and>
     tracker_used t = tracker_used t0 \<and> tk_message_stopped t = tk_message_stopped t0 \<and> tracker_sane t"

lemma repair_same_frame:
  assumes "same_frame t0 t" and "n < length (tool_blocks t) \<Longrightarrow> eb_open (tool_blocks t ! n)"
  shows "same_frame t0 (after (append_tool_repair_suffix n s) t)"
proof (cases "n < length (tool_blocks t) \<and> s \<noteq> []")
  case True
  let ?b = "tool_blocks t ! n"
  let ?b' = "?b\<lparr>eb_parts := eb_parts ?b @ [s]\<rparr>"
  have t: "tracker_sane t" using assms(1) by (simp add: same_frame_def)
  have b: "?b \<in> set (tool_blocks t)" using True by simp
  note B = tool_block_at [OF t b]
  note P = sane_put_same [OF t B(1), of ?b', simplified]
  have eq: "after (append_tool_repair_suffix n s) t = t\<lparr>tk_blocks := dset (eb_index ?b) ?b' (tk_blocks t)\<rparr>"
    using True by (simp add: append_tool_repair_suffix_def gen_simps extend_block_def)
  have "block_shapes (t\<lparr>tk_blocks := dset (eb_index ?b) ?b' (tk_blocks t)\<rparr>) = block_shapes t"
    using B(1) by (simp add: block_shapes_def block_at_def map_dset_same [where b = ?b])
  with assms(1) P show ?thesis unfolding eq by (simp add: same_frame_def)
next
  case False
  then have "after (append_tool_repair_suffix n s) t = t"
    by (auto simp: append_tool_repair_suffix_def gen_simps)
  with assms(1) show ?thesis by simp
qed


definition repair_at :: "tracker \<Rightarrow> native_runner \<Rightarrow> bool" where
  "repair_at t0 r \<longleftrightarrow> same_frame t0 (nr_tracker r)"

lemma same_open:
  assumes "same_frame t0 t" and "n < length (tool_blocks t0) \<longrightarrow> eb_open (tool_blocks t0 ! n)"
  shows "n < length (tool_blocks t) \<longrightarrow> eb_open (tool_blocks t ! n)"
  using tool_open_nth [of t t0 n] assms by (auto simp: same_frame_def)

lemma keeps_repair:
  assumes "n < length (tool_blocks t0) \<longrightarrow> eb_open (tool_blocks t0 ! n)"
  shows "keeps (repair_at t0) (on_tracker (append_tool_repair_suffix n s))"
  using repair_same_frame [OF _ same_open [OF _ assms, THEN mp]]
  by (simp add: keeps_def repair_at_def gen_simps)

lemma sound_repair:
  assumes "n < length (tool_blocks t0) \<longrightarrow> eb_open (tool_blocks t0 ! n)"
  shows "native_runner.sound a (repair_at t0) (on_tracker (append_tool_repair_suffix n s))"
proof (rule native_runner.soundI)
  fix r c assume r: "native_runner.tracks r c" "repair_at t0 r"
  have "n < length (tool_blocks (nr_tracker r)) \<longrightarrow> eb_open (tool_blocks (nr_tracker r) ! n)"
    by (rule same_open [OF _ assms]) (use r(2) in \<open>simp add: repair_at_def\<close>)
  from native_runner.soundD [OF sound_on_tracker [OF sound_tool_repair] r(1), of n a s] this
  show "\<exists>c'. check_events a c (yields (on_tracker (append_tool_repair_suffix n s)) r) = Inr c' \<and>
      native_runner.tracks (after (on_tracker (append_tool_repair_suffix n s)) r) c'" by blast
qed

lemma native_attempts_sound:
  assumes "\<And>s. native_runner.sound a (repair_at t0) (k s)" and "\<And>s. keeps (repair_at t0) (k s)"
  shows "native_runner.sound a (repair_at t0) (native_repair_attempts e n body b k) \<and>
    keeps (repair_at t0) (native_repair_attempts e n body b k)"
proof (induction n)
  case 0
  show ?case by (simp add: native_runner.sound_def keeps_def gen_simps)
next
  case (Suc n)
  have u: "repair_at t0 (r\<lparr>nr_calls := m\<rparr>) = repair_at t0 r" for r m by (simp add: repair_at_def)
  show ?case
    using Suc assms
    by (auto intro!: sound_collecting keeps_collecting simp: u split: prod.splits option.splits)
qed

lemma native_tool_sound:
  assumes "n < length (tool_blocks t0)" and "tool_blocks t0 ! n = b"
    and "eb_open b \<or> complete_block (ne_validator e) (tool_schemas_by_name (ne_tools e)) b"
  shows "native_runner.sound a (repair_at t0) (native_repair_tool e (n, b)) \<and>
    keeps (repair_at t0) (native_repair_tool e (n, b))"
proof (cases "complete_block (ne_validator e) (tool_schemas_by_name (ne_tools e)) b")
  case True
  then show ?thesis
    by (simp add: native_repair_tool_def Let_def gwhen_def native_runner.sound_gskip keeps_gskip)
next
  case False
  then have o: "n < length (tool_blocks t0) \<longrightarrow> eb_open (tool_blocks t0 ! n)" using assms by simp
  note R = native_attempts_sound [where ?t0.0 = t0 and k = "\<lambda>accepted. on_tracker (append_tool_repair_suffix n accepted)",
      OF sound_repair [OF o] keeps_repair [OF o]]
  show ?thesis
    using R False
    by (auto simp: native_repair_tool_def Let_def gwhen_def native_runner.sound_def gen_simps keeps_def)
qed


text \<open>
  A tool call the upstream stopped was whole: an incomplete one is still open when the stream
  breaks.
\<close>

definition tools_settled :: "native_env \<Rightarrow> tracker \<Rightarrow> bool" where
  "tools_settled e t \<longleftrightarrow>
     list_all (\<lambda>b. eb_open b \<or> complete_block (ne_validator e) (tool_schemas_by_name (ne_tools e)) b) (tool_blocks t)"

lemma repair_tools:
  assumes "tools_settled e t0"
  shows "native_runner.sound a (repair_at t0) (gfor (native_repair_tool e) (enumerate 0 (tool_blocks t0))) \<and>
    keeps (repair_at t0) (gfor (native_repair_tool e) (enumerate 0 (tool_blocks t0)))"
proof -
  have R: "native_runner.sound a (repair_at t0) (native_repair_tool e x) \<and> keeps (repair_at t0) (native_repair_tool e x)"
    if m: "x \<in> set (enumerate 0 (tool_blocks t0))" for x
  proof -
    obtain n b where x: "x = (n, b)" by (cases x)
    then have y: "n < length (tool_blocks t0)" "tool_blocks t0 ! n = b"
      using m by (simp_all add: in_set_enumerate_eq)
    show ?thesis unfolding x
      by (rule native_tool_sound [OF y]) (use assms y in \<open>auto simp: tools_settled_def list_all_length\<close>)
  qed
  have "native_runner.sound a (repair_at t0) (gfor (native_repair_tool e) (enumerate 0 (tool_blocks t0)))"
    by (rule native_runner.sound_gfor) (use R in \<open>auto simp: keeps_def\<close>)
  moreover have "keeps (repair_at t0) (gfor (native_repair_tool e) (enumerate 0 (tool_blocks t0)))"
    by (rule keeps_gfor) (use R in blast)
  ultimately show ?thesis by blast
qed

section \<open>Recovery ends the stream\<close>

lemma blocks_used: "tk_blocks t \<noteq> [] \<Longrightarrow> tracker_used t \<noteq> {}"
  by (simp add: tracker_used_def)

lemma success_closes:
  assumes "tracker.tracks t c" and "\<not> tk_message_stopped t" and "tracker_used t \<noteq> {}"
  shows "closes_stream a c (yields (iter_success_tail r) t)"
proof -
  obtain c' where c': "check_events a c (yields (iter_success_tail r) t) = Inr c'" "tracker.tracks (after (iter_success_tail r) t) c'"
    using tracker.soundD [OF sound_success_tail assms(1), of a r] by blast
  have "open_blocks c' = []" by (rule closed_none_open [OF c'(2)]) (simp add: success_tail_run)
  moreover have "seen_blocks c' \<noteq> {}" using check_seen_mono [OF c'(1)] assms(1,3) by (auto simp: tracker.tracks_def)
  moreover have "yields (iter_success_tail r) t \<noteq> [] \<and> ev_name (last (yields (iter_success_tail r) t)) = ''message_stop''"
    using assms(2) by (simp add: success_tail_run)
  ultimately show ?thesis using c'(1) by (auto simp: closes_stream_def)
qed

text \<open>A generator that either ends the stream or gives up with the client's view unchanged.\<close>

definition ends_or_aborts :: "bool \<Rightarrow> check_state \<Rightarrow> native_gen \<Rightarrow> native_runner \<Rightarrow> bool" where
  "ends_or_aborts a c g r \<longleftrightarrow>
     (if raised g r = None then closes_stream a c (yields g r) else native_runner.tracks (after g r) c)"

lemma aborts_raise: "native_runner.tracks r c \<Longrightarrow> ends_or_aborts a c (graise x) r"
  by (simp add: ends_or_aborts_def gen_simps)

lemma aborts_read: "ends_or_aborts a c (g r) r \<Longrightarrow> ends_or_aborts a c (gread g) r"
  by (simp add: ends_or_aborts_def gen_simps)

lemma aborts_seq:
  assumes "native_runner.tracks (after g r) c" and "check_events a c (yields g r) = Inr c1"
    and "raised h (after g r) = None \<Longrightarrow> closes_stream a c1 (yields h (after g r))"
    and "raised h (after g r) \<noteq> None \<Longrightarrow> native_runner.tracks (after h (after g r)) c"
  shows "ends_or_aborts a c (gseq g h) r"
  using assms closes_stream_append [OF assms(2)] by (auto simp: ends_or_aborts_def gen_simps)

lemma aborts_collecting:
  assumes "native_runner.tracks r c"
    and "\<And>texts n. ends_or_aborts a c (k texts) (r\<lparr>nr_calls := n\<rparr>)"
  shows "ends_or_aborts a c (native_collecting e body k) r"
proof -
  obtain res calls where x: "native_collect_text e body MIDSTREAM_RECOVERY_ATTEMPTS None (nr_calls r) = (res, calls)"
    by (cases "native_collect_text e body MIDSTREAM_RECOVERY_ATTEMPTS None (nr_calls r)")
  show ?thesis
  proof (cases res)
    case (Inl y)
    with x assms(1) show ?thesis by (simp add: ends_or_aborts_def native_collecting_def gen_simps runner_tracks)
  next
    case (Inr texts)
    with x assms(2) [of texts calls] show ?thesis
      by (simp add: ends_or_aborts_def native_collecting_def gen_simps)
  qed
qed

lemma recover_tools_result:
  assumes t: "native_runner.tracks r c" and "tools_settled e (nr_tracker r)"
    and "\<not> tk_message_stopped (nr_tracker r)" and "tk_blocks (nr_tracker r) \<noteq> []"
  shows "ends_or_aborts a c (native_recover_tools e) r"
proof -
  let ?g = "gfor (native_repair_tool e) (enumerate 0 (tool_blocks (nr_tracker r)))"
  let ?t = "nr_tracker r" and ?r = "after ?g r"
  have s: "tracker_sane ?t" using t by (simp add: runner_tracks tracker.tracks_def)
  then have i: "repair_at ?t r" by (simp add: repair_at_def same_frame_def)
  note R = repair_tools [OF assms(2), where a = a]
  obtain c1 where c1: "check_events a c (yields ?g r) = Inr c1" "native_runner.tracks ?r c1"
    using native_runner.soundD [OF conjunct1 [OF R] t i] by blast
  have k: "same_frame ?t (nr_tracker ?r)" using R i by (simp add: keeps_def repair_at_def)
  then have same: "native_runner.tracks ?r c" and u: "tracker_used (nr_tracker ?r) \<noteq> {}" "\<not> tk_message_stopped (nr_tracker ?r)"
    using t assms(3) blocks_used [OF assms(4)] by (simp_all add: runner_tracks tracker.tracks_def same_frame_def)
  have tail: "closes_stream a c1 (yields (on_tracker (iter_success_tail x)) ?r)" for x
    unfolding on_tracker_run
    by (rule success_closes) (use c1(2) u in \<open>simp_all add: runner_tracks\<close>)
  show ?thesis
    unfolding native_recover_tools_def
    by (rule aborts_read, rule aborts_seq [OF same c1(1)])
       (use same tail in \<open>auto simp: gen_simps success_tail_run split: if_splits\<close>)
qed

lemma appended_runs:
  "raised (append_suffix k d s) t = None"
  "tk_message_stopped (after (append_suffix k d s) t) = tk_message_stopped t"
  "tracker_used t \<noteq> {} \<Longrightarrow> tracker_used (after (append_suffix k d s) t) \<noteq> {}"
  by (simp_all add: append_suffix_def gen_simps extend_block_def open_suffix_block_def Let_def tracker_used_def dict_simps
      split: option.split)

lemma continue_result:
  assumes t: "native_runner.tracks r c" and "\<not> tk_message_stopped (nr_tracker r)" and "tk_blocks (nr_tracker r) \<noteq> []"
  shows "ends_or_aborts a c (native_continue x y) r"
proof -
  define X Y where "X = (case x of Some t \<Rightarrow> t | None \<Rightarrow> [])" and "Y = (case y of Some t \<Rightarrow> t | None \<Rightarrow> [])"
  let ?t = "nr_tracker r"
  let ?t1 = "after (append_thinking_suffix X) ?t"
  let ?t2 = "after (append_text_suffix Y) ?t1"
  have a1: "tracker.sound a (\<lambda>_. True) (append_thinking_suffix X)" "tracker.sound a (\<lambda>_. True) (append_text_suffix Y)"
    unfolding append_thinking_suffix_def append_text_suffix_def by (rule sound_append; simp)+
  obtain c1 where c1: "check_events a c (yields (append_thinking_suffix X) ?t) = Inr c1" "tracker.tracks ?t1 c1"
    using tracker.soundD [OF a1(1)] t by (auto simp: runner_tracks)
  obtain c2 where c2: "check_events a c1 (yields (append_text_suffix Y) ?t1) = Inr c2" "tracker.tracks ?t2 c2"
    using tracker.soundD [OF a1(2) c1(2)] by auto
  have r: "raised (append_thinking_suffix X) t = None" "raised (append_text_suffix Y) t = None" for t
    by (simp_all add: append_thinking_suffix_def append_text_suffix_def appended_runs)
  have m: "tracker_used ?t2 \<noteq> {}" "\<not> tk_message_stopped ?t2"
    using assms(2) blocks_used [OF assms(3)]
    by (simp_all add: append_thinking_suffix_def append_text_suffix_def appended_runs)
  note end2 = closes_stream_append [OF c1(1) closes_stream_append [OF c2(1) success_closes [OF c2(2) m(2,1)]], of "''end_turn''"]
  show ?thesis
  proof (cases "X = [] \<and> Y = []")
    case True
    then show ?thesis using t by (auto simp: native_continue_def Let_def X_def [symmetric] Y_def [symmetric] intro: aborts_raise)
  next
    case False
    then show ?thesis using end2
      by (auto simp: native_continue_def Let_def X_def [symmetric] Y_def [symmetric] ends_or_aborts_def gen_simps r success_tail_run)
  qed
qed

lemma native_recovery_result:
  assumes t: "native_runner.tracks r c" and "tools_settled e (nr_tracker r)"
    and "\<not> tk_message_stopped (nr_tracker r)" and "tk_blocks (nr_tracker r) \<noteq> []"
  shows "ends_or_aborts a c (native_recovery_events e x) r"
  unfolding native_recovery_events_def
proof (rule aborts_read, goal_cases)
  case 1
  have "ends_or_aborts a c (native_collecting e body (\<lambda>(txt, thinking). native_continue (u thinking) (v txt))) r" for body u v
    by (rule aborts_collecting [OF t]) (auto intro!: continue_result split: prod.split simp: runner_tracks assms t [unfolded runner_tracks])
  then show ?case
    using aborts_raise [OF t] recover_tools_result [OF assms] by (simp add: Let_def)
qed

end
