(* ===== verification/Policy_Facts.thy ===== *)
theory Policy_Facts
  imports Native_Policy
begin

text \<open>
  What the policy on native streams keeps: whatever way the blocks of an upstream message overlap,
  its output is accepted by the contract checker, with downstream indexes handed out in order.

  The policy is an instance of \<open>block_source\<close>: its open blocks are the open segments at their
  downstream indexes.  \<open>admits\<close> says which events an upstream may send in a given state.
\<close>

section \<open>Text of a policy event\<close>

definition native_frame :: "string \<Rightarrow> jdict \<Rightarrow> frame" where
  "native_frame n p = mk_frame n p"

lemma native_event_written:
  assumes "wf_json (JObj p)" and "n \<noteq> []"
  shows "native_event n p = written n (native_enc p)"
proof -
  have c: "clean (native_enc p)" by (rule native.enc_clean [OF assms(1)])
  then have "py_splitlines (native_enc p) = [native_enc p]" by (simp add: clean_def splitlines_line)
  with assms(2) show ?thesis
    by (simp add: native_event_def format_native_sse_event_def native_enc_def written_def)
qed

lemma parse_native_event:
  assumes "wf_json (JObj p)" and "clean n"
  shows "parse_sse_text (native_event n p) = [to_event native_enc (mk_frame n p)]"
    and "parse_sse_text (native_event n p @ t) = to_event native_enc (mk_frame n p) # parse_sse_text t"
    and "suffix [LF, LF] (native_event n p)"
proof -
  have n: "n \<noteq> []" using assms(2) by (simp add: clean_def)
  have e: "native_event n p = write_frame native_enc (mk_frame n p)"
    using native_event_written [OF assms(1) n] by (simp add: write_frame_written)
  show "parse_sse_text (native_event n p) = [to_event native_enc (mk_frame n p)]"
    unfolding e by (rule native.parse_write) (use assms in simp_all)
  show "parse_sse_text (native_event n p @ t) = to_event native_enc (mk_frame n p) # parse_sse_text t"
    unfolding e by (rule native.parse_write_append) (use assms in simp_all)
  show "suffix [LF, LF] (native_event n p)"
    unfolding native_event_written [OF assms(1) n] written_def by (simp add: suffix_def)
qed

lemma block_event_names [simp]:
  "clean ''content_block_start''" "clean ''content_block_delta''" "clean ''content_block_stop''"
  by (simp_all add: clean_def is_linebreak_def py_strip_def py_lstrip_def py_rstrip_def is_space_def)

lemma wf_members_dset: "wf_json v \<Longrightarrow> wf_members d \<Longrightarrow> wf_members (dset k v d)"
  by (induction d) auto

lemma wf_set_index: "wf_json (JObj d) \<Longrightarrow> wf_json (JObj (dset ''index'' (JInt i) d))"
  by (simp add: wf_members_dset dict_simps)

lemma wf_stop_payload [simp]: "wf_json (JObj (stop_payload i))"
  by (simp add: stop_payload_def)

lemma wf_member: "wf_members d \<Longrightarrow> map_of d k = Some v \<Longrightarrow> wf_json v"
  by (induction d) (auto split: if_splits)

lemma wf_obj_member: "wf_json (JObj d) \<Longrightarrow> as_obj (jget d k) = Some b \<Longrightarrow> wf_json (JObj b)"
proof -
  assume "wf_json (JObj d)" and b: "as_obj (jget d k) = Some b"
  moreover have "jget d k = JObj b" using b by (cases "jget d k") auto
  ultimately show "wf_json (JObj b)"
    using wf_member [of d k "JObj b"] by (simp add: jget_def split: option.splits)
qed

section \<open>Segments as open blocks\<close>

definition open_segments :: "policy_state \<Rightarrow> (int \<times> string) list" where
  "open_segments s = map (\<lambda>(i, seg). (ub_down seg, ub_type seg)) (List.filter (\<lambda>(i, seg). ub_open seg) (np_by_upstream s))"

definition segment :: "policy_state \<Rightarrow> int \<Rightarrow> upstream_block option" where
  "segment s i = map_of (np_by_upstream s) i"

definition policy_sane :: "policy_state \<Rightarrow> bool" where
  "policy_sane s \<longleftrightarrow> 0 \<le> np_next s \<and> distinct (dkeys (np_by_upstream s)) \<and>
     (\<forall>i seg. segment s i = Some seg \<longrightarrow> 0 \<le> ub_down seg \<and> ub_down seg < np_next s) \<and>
     (\<forall>i j seg seg'. segment s i = Some seg \<longrightarrow> segment s j = Some seg' \<longrightarrow> ub_down seg = ub_down seg' \<longrightarrow> i = j) \<and>
     (\<forall>i \<in> np_pending_stops s. \<exists>seg. segment s i = Some seg \<and> \<not> ub_open seg)"

definition policy_live :: "policy_state \<Rightarrow> int \<Rightarrow> string option" where
  "policy_live s = map_of (open_segments s)"

definition policy_used :: "policy_state \<Rightarrow> int set" where
  "policy_used s = {0..<np_next s}"

lemma policy_saneI:
  assumes "0 \<le> np_next s" and "distinct (dkeys (np_by_upstream s))"
    and "\<And>i seg. segment s i = Some seg \<Longrightarrow> 0 \<le> ub_down seg \<and> ub_down seg < np_next s"
    and "\<And>i j seg seg'. segment s i = Some seg \<Longrightarrow> segment s j = Some seg' \<Longrightarrow> ub_down seg = ub_down seg' \<Longrightarrow> i = j"
    and "\<And>i. i \<in> np_pending_stops s \<Longrightarrow> \<exists>seg. segment s i = Some seg \<and> \<not> ub_open seg"
  shows "policy_sane s"
  unfolding policy_sane_def using assms by blast

lemma policy_saneD:
  assumes "policy_sane s"
  shows "0 \<le> np_next s" "distinct (dkeys (np_by_upstream s))"
    "segment s i = Some seg \<Longrightarrow> 0 \<le> ub_down seg" "segment s i = Some seg \<Longrightarrow> ub_down seg < np_next s"
    "segment s i = Some seg \<Longrightarrow> segment s j = Some seg' \<Longrightarrow> ub_down seg = ub_down seg' \<Longrightarrow> i = j"
    "i \<in> np_pending_stops s \<Longrightarrow> \<exists>seg. segment s i = Some seg \<and> \<not> ub_open seg"
  using assms unfolding policy_sane_def by blast+

lemma in_open_segments:
  assumes "policy_sane s"
  shows "(j, k) \<in> set (open_segments s) \<longleftrightarrow> (\<exists>i seg. segment s i = Some seg \<and> ub_open seg \<and> ub_down seg = j \<and> ub_type seg = k)"
  using policy_saneD(2) [OF assms] by (auto simp: open_segments_def segment_def)

lemma open_segments_distinct:
  assumes "policy_sane s"
  shows "distinct (map fst (open_segments s))"
proof -
  have "map fst (open_segments s) = map (\<lambda>p. ub_down (snd p)) (List.filter (\<lambda>(i, seg). ub_open seg) (np_by_upstream s))"
    by (simp add: open_segments_def case_prod_beta)
  moreover have inj: "inj_on (\<lambda>p. ub_down (snd p)) (set (np_by_upstream s))"
  proof (rule inj_onI)
    fix p q assume p: "p \<in> set (np_by_upstream s)" and q: "q \<in> set (np_by_upstream s)" and e: "ub_down (snd p) = ub_down (snd q)"
    have "segment s (fst r) = Some (snd r)" if "r \<in> set (np_by_upstream s)" for r
      unfolding segment_def by (rule map_of_is_SomeI [OF policy_saneD(2) [OF assms]]) (simp add: that)
    from this [OF p] this [OF q] have "segment s (fst p) = Some (snd p)" "segment s (fst q) = Some (snd q)" .
    from policy_saneD(5) [OF assms this e] this show "p = q" by (simp add: prod_eq_iff)
  qed
  moreover have "inj_on (\<lambda>p. ub_down (snd p)) (set (List.filter (\<lambda>(i, seg). ub_open seg) (np_by_upstream s)))"
    by (rule inj_on_subset [OF inj]) auto
  moreover have "distinct (np_by_upstream s)" using policy_saneD(2) [OF assms] by (simp add: distinct_map)
  ultimately show ?thesis by (simp add: distinct_map)
qed

lemma policy_live_iff:
  assumes "policy_sane s"
  shows "policy_live s j = Some k \<longleftrightarrow>
    (\<exists>i seg. segment s i = Some seg \<and> ub_open seg \<and> ub_down seg = j \<and> ub_type seg = k)"
  unfolding policy_live_def
  using map_of_eq_Some_iff [OF open_segments_distinct [OF assms], of j k] in_open_segments [OF assms] by simp

interpretation policy: block_source policy_sane policy_live policy_used
proof
  fix s assume s: "policy_sane s"
  show "dom (policy_live s) \<subseteq> policy_used s"
    using policy_saneD(3,4) [OF s] by (auto simp: policy_live_iff [OF s] policy_used_def)
qed

lemma policy_live_eqI:
  assumes "policy_sane s" and "\<And>j k. g j = Some k \<longleftrightarrow>
    (\<exists>i seg. segment s i = Some seg \<and> ub_open seg \<and> ub_down seg = j \<and> ub_type seg = k)"
  shows "policy_live s = g"
proof
  fix j
  show "policy_live s j = g j"
  proof (cases "g j")
    case None
    then have "policy_live s j \<noteq> Some k" for k using assms(2) [of j k] policy_live_iff [OF assms(1), of j k] by simp
    then have "policy_live s j = None" by (cases "policy_live s j") blast+
    with None show ?thesis by simp
  next
    case (Some k)
    then show ?thesis using assms(2) [of j k] policy_live_iff [OF assms(1), of j k] by simp
  qed
qed

lemma new_policy_sane [simp]: "policy_sane new_policy_state"
  by (rule policy_saneI) (simp_all add: new_policy_state_def segment_def)

lemma new_policy_tracks: "policy.tracks new_policy_state check_init"
proof -
  have "policy_live new_policy_state = Map.empty"
    by (rule policy_live_eqI [OF new_policy_sane]) (simp add: new_policy_state_def segment_def)
  moreover have "policy_used new_policy_state = {}" by (simp add: policy_used_def new_policy_state_def)
  ultimately show ?thesis by (simp add: policy.tracks_def check_init_def)
qed

section \<open>Closing and allocating\<close>

definition shut :: "int \<Rightarrow> policy_state \<Rightarrow> policy_state" where
  "shut i s = (case segment s i of
     Some seg \<Rightarrow> s\<lparr>np_by_upstream := dset i (seg\<lparr>ub_open := False\<rparr>) (np_by_upstream s)\<rparr> | None \<Rightarrow> s)"

lemma shut_facts:
  assumes s: "policy_sane s" and seg: "segment s i = Some seg" "ub_open seg"
    and P: "P \<subseteq> insert i (np_pending_stops s)"
  shows "policy_sane ((shut i s)\<lparr>np_pending_stops := P\<rparr>)" (is "policy_sane ?s")
    and "policy_live ((shut i s)\<lparr>np_pending_stops := P\<rparr>) = (policy_live s)(ub_down seg := None)"
    and "policy_used ((shut i s)\<lparr>np_pending_stops := P\<rparr>) = policy_used s"
    and "segment ((shut i s)\<lparr>np_pending_stops := P\<rparr>) j = (if j = i then Some (seg\<lparr>ub_open := False\<rparr>) else segment s j)"
proof -
  note S = policy_saneD [OF s]
  have at: "segment ?s j = (if j = i then Some (seg\<lparr>ub_open := False\<rparr>) else segment s j)" for j
    using seg by (simp add: shut_def segment_def dict_simps)
  have nx: "np_next ?s = np_next s" using seg by (simp add: shut_def)
  show ok: "policy_sane ?s"
  proof (rule policy_saneI)
    show "0 \<le> np_next ?s" using S(1) nx by simp
    show "distinct (dkeys (np_by_upstream ?s))" using S(2) seg by (simp add: shut_def dict_simps)
    show "0 \<le> ub_down sg \<and> ub_down sg < np_next ?s" if "segment ?s j = Some sg" for j sg
      using that S(3,4) [of j] S(3,4) [OF seg(1)] unfolding at nx by (auto split: if_splits)
    show "j = k" if j: "segment ?s j = Some sg" and k: "segment ?s k = Some sg'" and e: "ub_down sg = ub_down sg'"
      for j k sg sg'
    proof -
      have "\<exists>g. segment s l = Some g \<and> ub_down g = ub_down h" if "segment ?s l = Some h" for l h
        using that seg(1) unfolding at by (auto split: if_splits)
      from this [OF j] this [OF k] e obtain g g' where "segment s j = Some g" "segment s k = Some g'" "ub_down g = ub_down g'"
        by auto
      then show ?thesis by (rule S(5))
    qed
    show "\<exists>sg. segment ?s j = Some sg \<and> \<not> ub_open sg" if "j \<in> np_pending_stops ?s" for j
      using that P S(6) [of j] unfolding at by auto
  qed
  show "policy_live ?s = (policy_live s)(ub_down seg := None)"
  proof (rule policy_live_eqI [OF ok])
    fix j k
    show "((policy_live s)(ub_down seg := None)) j = Some k \<longleftrightarrow>
      (\<exists>i seg. segment ?s i = Some seg \<and> ub_open seg \<and> ub_down seg = j \<and> ub_type seg = k)"
    proof (cases "j = ub_down seg")
      case True
      have "\<not> (segment ?s l = Some sg \<and> ub_open sg \<and> ub_down sg = j)" for l sg
        using S(5) [of l sg i seg] seg True unfolding at by (auto split: if_splits)
      with True show ?thesis by auto
    next
      case False
      have "(segment ?s l = Some sg \<and> ub_open sg \<and> ub_down sg = j \<and> ub_type sg = k) \<longleftrightarrow>
          (segment s l = Some sg \<and> ub_open sg \<and> ub_down sg = j \<and> ub_type sg = k)" for l sg
        using False seg unfolding at by (cases "l = i") auto
      then show ?thesis using policy_live_iff [OF s, of j k] False by simp
    qed
  qed
  show "policy_used ?s = policy_used s" by (simp add: policy_used_def nx)
  show "segment ?s j = (if j = i then Some (seg\<lparr>ub_open := False\<rparr>) else segment s j)" by (rule at)
qed

lemma allocate_facts:
  assumes s: "policy_sane s" and i: "\<And>seg. segment s i = Some seg \<Longrightarrow> \<not> ub_open seg" and p: "i \<notin> np_pending_stops s"
    and a: "allocate_new_segment i k b s = (n, s')"
  shows "n = np_next s" "policy_sane s'" "policy_live s' = (policy_live s)(n \<mapsto> k)"
    "policy_used s' = insert n (policy_used s)"
    "segment s' j = (if j = i then Some \<lparr>ub_type = k, ub_down = n, ub_open = True, ub_start = b\<rparr> else segment s j)"
    "np_dropped s' = np_dropped s" "np_pending_stops s' = np_pending_stops s"
proof -
  note S = policy_saneD [OF s]
  let ?g = "\<lparr>ub_type = k, ub_down = np_next s, ub_open = True, ub_start = b\<rparr>"
  have n: "n = np_next s" and s': "s' = s\<lparr>np_next := np_next s + 1, np_by_upstream := dset i ?g (np_by_upstream s)\<rparr>"
    using a unfolding allocate_new_segment_def by blast+
  have at: "segment s' j = (if j = i then Some ?g else segment s j)" for j
    by (simp add: s' segment_def dict_simps)
  show "n = np_next s" by (rule n)
  show ok: "policy_sane s'"
  proof (rule policy_saneI)
    show "0 \<le> np_next s'" using S(1) by (simp add: s')
    show "distinct (dkeys (np_by_upstream s'))" using S(2) by (simp add: s' dict_simps)
    show "0 \<le> ub_down sg \<and> ub_down sg < np_next s'" if "segment s' j = Some sg" for j sg
      using that S(1) S(3,4) [of j sg] unfolding at by (auto simp: s' split: if_splits)
    show "j = l" if "segment s' j = Some sg" "segment s' l = Some sg'" "ub_down sg = ub_down sg'" for j l sg sg'
      using that S(5) [of j sg l sg'] S(4) [of j sg] S(4) [of l sg'] unfolding at by (auto split: if_splits)
    show "\<exists>sg. segment s' j = Some sg \<and> \<not> ub_open sg" if "j \<in> np_pending_stops s'" for j
    proof -
      have "j \<in> np_pending_stops s" "j \<noteq> i" using that p by (auto simp: s')
      then show ?thesis using S(6) unfolding at by simp
    qed
  qed
  show "policy_live s' = (policy_live s)(n \<mapsto> k)"
  proof (rule policy_live_eqI [OF ok])
    fix j l
    show "((policy_live s)(n \<mapsto> k)) j = Some l \<longleftrightarrow>
      (\<exists>i seg. segment s' i = Some seg \<and> ub_open seg \<and> ub_down seg = j \<and> ub_type seg = l)"
    proof (cases "j = n")
      case True
      have "ub_down sg \<noteq> n" if "segment s m = Some sg" for m sg using S(4) [OF that] n by simp
      then show ?thesis using True n unfolding at by (auto split: if_splits)
    next
      case False
      have "(segment s' m = Some sg \<and> ub_open sg \<and> ub_down sg = j \<and> ub_type sg = l) \<longleftrightarrow>
          (segment s m = Some sg \<and> ub_open sg \<and> ub_down sg = j \<and> ub_type sg = l)" for m sg
        using False n i [of sg] unfolding at by (cases "m = i") auto
      then show ?thesis using policy_live_iff [OF s, of j l] False by simp
    qed
  qed
  show "policy_used s' = insert n (policy_used s)" using S(1) by (auto simp: policy_used_def s' n)
  show "segment s' j = (if j = i then Some \<lparr>ub_type = k, ub_down = n, ub_open = True, ub_start = b\<rparr> else segment s j)"
    unfolding n by (rule at)
  show "np_dropped s' = np_dropped s" "np_pending_stops s' = np_pending_stops s" by (simp_all add: s')
qed

section \<open>Output of one event\<close>

text \<open>\<open>emits\<close>: a text of whole frames the checker accepts, leading to a tracked state.\<close>

definition block_names :: "string set" where
  "block_names = {''content_block_start'', ''content_block_delta'', ''content_block_stop''}"

definition emits :: "bool \<Rightarrow> check_state \<Rightarrow> string \<Rightarrow> policy_state \<Rightarrow> bool" where
  "emits a c txt s \<longleftrightarrow> terminated txt \<and> list_all lazy_event (parse_sse_text txt) \<and>
     ev_name ` set (parse_sse_text txt) \<subseteq> block_names \<and>
     (\<exists>c'. check_events a c (parse_sse_text txt) = Inr c' \<and> policy.tracks s c')"

lemma emits_nil: "policy.tracks s c \<Longrightarrow> emits a c [] s"
  by (simp add: emits_def)

lemma emits_frame:
  assumes "\<exists>c'. check_event a c (mk_frame n p) = Inr c' \<and> policy.tracks s c'"
    and "wf_json (JObj p)" and "clean n" and "lazy_event (mk_frame n p)" and "n \<in> block_names"
  shows "emits a c (native_event n p) s"
  using assms parse_native_event [OF assms(2,3)] by (auto simp: emits_def)

lemma emits_frame_append:
  assumes "check_event a c (mk_frame n p) = Inr c1" and "wf_json (JObj p)" and "clean n" and "emits a c1 txt s"
    and "lazy_event (mk_frame n p)" and "n \<in> block_names"
  shows "emits a c (native_event n p @ txt) s"
proof -
  have "terminated (native_event n p @ txt)"
    using assms(4) parse_native_event(3) [OF assms(2,3)] by (auto simp: emits_def intro: terminated_append)
  then show ?thesis using assms parse_native_event(2) [OF assms(2,3)] by (auto simp: emits_def)
qed

lemma as_obj_iff: "as_obj j = Some d \<longleftrightarrow> j = JObj d"
  by (cases j) auto

lemma as_str_iff: "as_str j = Some s \<longleftrightarrow> j = JStr s"
  by (cases j) auto

lemma jget_present: "jget d k \<noteq> JNull \<Longrightarrow> jget_default d k w = jget d k"
  by (auto simp: jget_def jget_default_def split: option.splits)

definition lazy_block :: "jdict \<Rightarrow> bool" where
  "lazy_block b \<longleftrightarrow> (jget b ''type'' = JStr ''text'' \<longrightarrow> py_strip (py_str (jget_default b ''text'' (JStr []))) = [])"

lemma start_frame_opens:
  assumes "jget d ''content_block'' = JObj b" and "jget b ''type'' = JStr k" and "k \<in> set ALLOWED_BLOCK_START_TYPES"
    and "lazy_block b"
  shows "opens (mk_frame ''content_block_start'' (dset ''index'' (JInt n) d)) n k"
proof -
  have b: "jget_default d ''content_block'' (JObj []) = JObj b"
    using assms(1) jget_present [of d "''content_block''" "JObj []"] by simp
  have t: "py_str (jget_default b ''type'' (JStr [])) = k"
    using assms(2) jget_present [of b "''type''" "JStr []"] by simp
  show ?thesis
    using assms(2-4) by (simp add: opens_def event_index_def start_kind_def b t Let_def lazy_block_def)
qed

lemma delta_frame_extends:
  assumes "jget d ''delta'' = JObj dl" and "delta_type_to_block_kind (jget dl ''type'') = Some k"
  shows "extends (mk_frame ''content_block_delta'' (dset ''index'' (JInt n) d)) n k"
proof -
  obtain t where t: "jget dl ''type'' = JStr t" using assms(2)
    by (auto simp: delta_type_to_block_kind_def as_str_iff split: option.splits)
  have d: "jget_default d ''delta'' (JObj []) = JObj dl"
    using assms(1) jget_present [of d "''delta''" "JObj []"] by simp
  have "py_str (jget_default dl ''type'' (JStr [])) = t"
    using t jget_present [of dl "''type''" "JStr []"] by simp
  moreover have "fits_kind k t"
    using assms(2) t by (auto simp: delta_type_to_block_kind_def fits_kind_def split: if_splits)
  ultimately show ?thesis by (simp add: extends_def event_index_def delta_kind_def d)
qed

lemma stop_frame_closes:
  "closes (mk_frame ''content_block_stop'' (dset ''index'' (JInt n) d)) n"
  "closes (mk_frame ''content_block_stop'' (stop_payload n)) n"
  by (simp_all add: closes_def event_index_def stop_payload_def)

text \<open>Closing the other blocks: those of the list are shut, the rest stays.\<close>

lemma close_others_run:
  assumes "policy.tracks s c" and "distinct (map fst items)" and "\<forall>(i, seg) \<in> set items. segment s i = Some seg"
    and "close_others current items s = (out, s')"
  shows "emits a c out s' \<and> np_dropped s' = np_dropped s \<and>
    (current \<in> np_pending_stops s' \<longrightarrow> current \<in> np_pending_stops s) \<and>
    segment s' current = segment s current \<and>
    (\<forall>i. map_option ub_type (segment s' i) = map_option ub_type (segment s i) \<and>
         map_option ub_start (segment s' i) = map_option ub_start (segment s i) \<and>
         (map_option ub_open (segment s' i) = Some True \<longrightarrow> map_option ub_open (segment s i) = Some True))"
  using assms
proof (induction items arbitrary: s c out)
  case Nil
  then show ?case by (simp add: emits_nil)
next
  case (Cons p items)
  obtain i seg where p: "p = (i, seg)" by (cases p)
  have items: "segment s i = Some seg" "distinct (map fst items)" "i \<notin> fst ` set items"
    "\<forall>(i, seg) \<in> set items. segment s i = Some seg"
    using Cons.prems(2,3) p by auto
  show ?case
  proof (cases "i = current \<or> \<not> ub_open seg")
    case True
    with Cons.IH [OF Cons.prems(1) items(2,4)] Cons.prems(4) p show ?thesis by simp
  next
    case False
    have sane: "policy_sane s" using Cons.prems(1) by (simp add: policy.tracks_def)
    let ?s = "(shut i s)\<lparr>np_pending_stops := insert i (np_pending_stops s)\<rparr>"
    note F = shut_facts [OF sane items(1) _ subset_refl]
    have o: "ub_open seg" and ne: "i \<noteq> current" using False by simp_all
    have s1: "?s = s\<lparr>np_by_upstream := dset i (seg\<lparr>ub_open := False\<rparr>) (np_by_upstream s),
        np_pending_stops := insert i (np_pending_stops s)\<rparr>"
      by (simp add: shut_def items(1))
    obtain out' where rest: "close_others current items ?s = (out', s')"
      "out = native_event ''content_block_stop'' (stop_payload (ub_down seg)) @ out'"
      using Cons.prems(4) p False unfolding s1 by (simp split: prod.splits)
    have "policy_live s (ub_down seg) \<noteq> None"
      using policy_live_iff [OF sane, of "ub_down seg" "ub_type seg"] items(1) o by auto
    from policy.tracks_stop [OF Cons.prems(1) stop_frame_closes(2) this F(1,2,3) [OF o]]
    obtain c1 where c1: "check_event a c (mk_frame ''content_block_stop'' (stop_payload (ub_down seg))) = Inr c1"
      "policy.tracks ?s c1" by blast
    have "\<forall>(j, sg) \<in> set items. segment ?s j = Some sg"
    proof safe
      fix j sg assume j: "(j, sg) \<in> set items"
      then have "j \<noteq> i" using items(3) by (metis fst_conv image_eqI)
      then show "segment ?s j = Some sg" using F(4) [OF o, of j] items(4) j by auto
    qed
    note IH = Cons.IH [OF c1(2) items(2) this rest(1)]
    have "emits a c out s'" unfolding rest(2)
      by (rule emits_frame_append [OF c1(1) wf_stop_payload block_event_names(3)]) (use IH in \<open>simp_all add: lazy_others block_names_def\<close>)
    moreover have "np_dropped ?s = np_dropped s" by (simp add: shut_def items(1))
    moreover have "segment ?s current = segment s current" using F(4) [OF o, of current] ne by simp
    moreover have "map_option ub_type (segment ?s j) = map_option ub_type (segment s j) \<and>
        map_option ub_start (segment ?s j) = map_option ub_start (segment s j) \<and>
        (map_option ub_open (segment ?s j) = Some True \<longrightarrow> map_option ub_open (segment s j) = Some True)" for j
      using F(4) [OF o, of j] items(1) by simp
    ultimately show ?thesis using IH ne by auto
  qed
qed

end
