(* ===== verification/Policy_Contract.thy ===== *)
theory Policy_Contract
  imports Policy_Facts
begin

text \<open>
  The contract of the policy on native streams: \<open>admits\<close> is the discipline of an upstream, an
  inductive relation on the kinds of its blocks; \<open>policy_run\<close> threads the state through a list of
  events.  Blocks of a disciplined upstream may overlap in any way.
\<close>

section \<open>The discipline of an upstream\<close>

definition reads :: "string \<Rightarrow> string \<Rightarrow> jdict \<Rightarrow> bool" where
  "reads ev n d \<longleftrightarrow> (\<exists>t. parse_native_sse_event ev = (Some n, t) \<and> t \<noteq> [] \<and> json_loads t = Some (JObj d) \<and> wf_json (JObj d))"

text \<open>
  Each index starts at most once, by an event or by its first delta, and its deltas keep to one
  kind; a stop names an index that was started; other events carry no block and stand alone.
  The state is the kind of each index and whether its block is open upstream.
\<close>

definition event_name_of :: "string \<Rightarrow> string" where
  "event_name_of ev = (case fst (parse_native_sse_event ev) of Some n \<Rightarrow> n | None \<Rightarrow> [])"

type_synonym kinds = "int \<Rightarrow> (string \<times> bool) option"

inductive admits :: "bool \<Rightarrow> kinds \<Rightarrow> string \<Rightarrow> kinds \<Rightarrow> bool" for a where
  starts: "reads ev ''content_block_start'' d \<Longrightarrow> as_int (jget d ''index'') = Some i \<Longrightarrow>
    jget d ''content_block'' = JObj b \<Longrightarrow> jget b ''type'' = JStr k \<Longrightarrow> k \<in> set ALLOWED_BLOCK_START_TYPES \<Longrightarrow>
    lazy_block b \<Longrightarrow> ks i = None \<Longrightarrow> admits a ks ev (ks(i \<mapsto> (k, True)))"
| grows: "reads ev ''content_block_delta'' d \<Longrightarrow> as_int (jget d ''index'') = Some i \<Longrightarrow>
    jget d ''delta'' = JObj dl \<Longrightarrow> delta_type_to_block_kind (jget dl ''type'') = Some k \<Longrightarrow>
    map_option fst (ks i) = Some k \<or> ks i = None \<and> k \<noteq> ''thinking'' \<Longrightarrow> admits a ks ev (ks(i \<mapsto> (k, True)))"
| stops: "reads ev ''content_block_stop'' d \<Longrightarrow> as_int (jget d ''index'') = Some i \<Longrightarrow> ks i = Some (k, open) \<Longrightarrow>
    admits a ks ev (ks(i \<mapsto> (k, False)))"
| others: "fst (parse_native_sse_event ev) \<notin>
      {Some ''content_block_start'', Some ''content_block_delta'', Some ''content_block_stop''} \<Longrightarrow>
    \<forall>e \<in> set (parse_sse_text ev). inert a e \<and> ev_name e = event_name_of ev \<Longrightarrow> terminated ev \<Longrightarrow> admits a ks ev ks"

inductive admits_all :: "bool \<Rightarrow> kinds \<Rightarrow> string list \<Rightarrow> kinds \<Rightarrow> bool" for a where
  none: "admits_all a ks [] ks"
| next_event: "admits a ks ev ks' \<Longrightarrow> admits_all a ks' evs ks'' \<Longrightarrow> admits_all a ks (ev # evs) ks''"

inductive_cases admits_all_ConsE: "admits_all a ks (ev # evs) ks'"

text \<open>What the policy sends for a list of events, event by event, up to an exception.\<close>

fun policy_run :: "bool \<Rightarrow> string list \<Rightarrow> policy_state \<Rightarrow> string list \<times> py_error option \<times> policy_state" where
  "policy_run th [] s = ([], None, s)"
| "policy_run th (ev # evs) s =
     (case transform_native_sse_block_event th ev s of
        (Inl x, s) \<Rightarrow> ([], Some x, s)
      | (Inr None, s) \<Rightarrow> policy_run th evs s
      | (Inr (Some out), s) \<Rightarrow> (case policy_run th evs s of (outs, x, s) \<Rightarrow> (out # outs, x, s)))"

section \<open>One event\<close>

text \<open>\<open>standing\<close>: a block was dropped for its kind, or has a segment that is open only while it is.\<close>

definition standing :: "bool \<Rightarrow> string \<times> bool \<Rightarrow> int \<Rightarrow> policy_state \<Rightarrow> bool" where
  "standing th ko i s \<longleftrightarrow>
     (i \<in> np_dropped s \<and> segment s i = None \<and> should_drop_block_type th (JStr (fst ko))) \<or>
     (i \<notin> np_dropped s \<and> map_option ub_type (segment s i) = Some (fst ko) \<and>
        (map_option ub_open (segment s i) = Some True \<longrightarrow> snd ko))"

definition agrees :: "bool \<Rightarrow> kinds \<Rightarrow> policy_state \<Rightarrow> bool" where
  "agrees th ks s \<longleftrightarrow> (\<forall>i. case ks i of
      None \<Rightarrow> i \<notin> np_dropped s \<and> segment s i = None
    | Some ko \<Rightarrow> standing th ko i s)"

lemma drop_views:
  "policy_sane (s\<lparr>np_dropped := D\<rparr>) = policy_sane s" "policy_live (s\<lparr>np_dropped := D\<rparr>) = policy_live s"
  "policy_used (s\<lparr>np_dropped := D\<rparr>) = policy_used s" "segment (s\<lparr>np_dropped := D\<rparr>) i = segment s i"
  by (simp_all add: policy_sane_def segment_def policy_live_def open_segments_def policy_used_def)

lemma drop_tracks: "policy.tracks s c \<Longrightarrow> policy.tracks (s\<lparr>np_dropped := D\<rparr>) c"
  by (simp add: policy.tracks_def drop_views)

lemma agreesI:
  assumes "\<And>i. ks i = None \<Longrightarrow> i \<notin> np_dropped s \<and> segment s i = None"
    and "\<And>i ko. ks i = Some ko \<Longrightarrow> standing th ko i s"
  shows "agrees th ks s"
  unfolding agrees_def using assms by (auto split: option.split)

lemma agreesD:
  assumes "agrees th ks s"
  shows "ks i = None \<Longrightarrow> i \<notin> np_dropped s \<and> segment s i = None"
    and "ks i = Some ko \<Longrightarrow> standing th ko i s"
  using spec [OF assms [unfolded agrees_def], of i] by simp_all

text \<open>Two states that agree on one index, up to closing it.\<close>

definition same_segment :: "int \<Rightarrow> policy_state \<Rightarrow> policy_state \<Rightarrow> bool" where
  "same_segment j s s' \<longleftrightarrow> (j \<in> np_dropped s' \<longleftrightarrow> j \<in> np_dropped s) \<and>
     map_option ub_type (segment s' j) = map_option ub_type (segment s j) \<and>
     (map_option ub_open (segment s' j) = Some True \<longrightarrow> map_option ub_open (segment s j) = Some True)"

lemma same_segment_none: "same_segment j s s' \<Longrightarrow> segment s' j = None \<longleftrightarrow> segment s j = None"
  unfolding same_segment_def by (cases "segment s j"; cases "segment s' j") auto

lemma same_segment_standing: "same_segment j s s' \<Longrightarrow> standing th ko j s \<Longrightarrow> standing th ko j s'"
  using same_segment_none unfolding standing_def same_segment_def by auto

lemma agrees_upd:
  assumes "agrees th ks s" and "standing th ko i s'" and "\<And>j. j \<noteq> i \<Longrightarrow> same_segment j s s'"
  shows "agrees th (ks(i \<mapsto> ko)) s'"
proof (rule agreesI)
  fix j assume "(ks(i \<mapsto> ko)) j = None"
  then have "j \<noteq> i" "ks j = None" by (auto split: if_splits)
  then show "j \<notin> np_dropped s' \<and> segment s' j = None"
    using agreesD(1) [OF assms(1)] assms(3) [of j] same_segment_none [of j s s'] by (simp add: same_segment_def)
next
  fix j l assume l: "(ks(i \<mapsto> ko)) j = Some l"
  show "standing th l j s'"
  proof (cases "j = i")
    case False
    then show ?thesis using l agreesD(2) [OF assms(1), of j l] same_segment_standing [OF assms(3)] by simp
  qed (use l assms(2) in simp)
qed

lemma same_segment_eq:
  "np_dropped s' = np_dropped s \<Longrightarrow> segment s' j = segment s j \<Longrightarrow> same_segment j s s'"
  by (simp add: same_segment_def)

definition sent :: "string option \<Rightarrow> string" where
  "sent out = (case out of Some t \<Rightarrow> t | None \<Rightarrow> [])"

text \<open>The start blocks kept for a reopening are serialisable.\<close>

definition stored_wf :: "policy_state \<Rightarrow> bool" where
  "stored_wf s \<longleftrightarrow> (\<forall>i b. Option.bind (segment s i) ub_start = Some b \<longrightarrow> wf_json (JObj b))"

lemma stored_wfD:
  assumes "stored_wf s" and "segment s i = Some seg" and "ub_start seg = Some b"
  shows "wf_json (JObj b)"
proof -
  have "Option.bind (segment s i) ub_start = Some b" by (simp add: assms(2,3))
  then show ?thesis using assms(1) unfolding stored_wf_def by blast
qed

lemma stored_wf_upd:
  assumes "stored_wf s" and "\<And>b. Option.bind (segment s' i) ub_start = Some b \<Longrightarrow> wf_json (JObj b)"
    and "\<And>j. j \<noteq> i \<Longrightarrow> Option.bind (segment s' j) ub_start = Option.bind (segment s j) ub_start"
  shows "stored_wf s'"
  unfolding stored_wf_def
proof (intro allI impI)
  fix j b assume "Option.bind (segment s' j) ub_start = Some b"
  then show "wf_json (JObj b)" using assms(1) [unfolded stored_wf_def] assms(2,3) by (cases "j = i") auto
qed

definition accepted_step :: "bool \<Rightarrow> bool \<Rightarrow> check_state \<Rightarrow> kinds \<Rightarrow> policy_result \<Rightarrow> bool" where
  "accepted_step th a c ks r \<longleftrightarrow>
     (\<exists>out s. r = (Inr out, s) \<and> emits a c (sent out) s \<and> agrees th ks s \<and> stored_wf s)"

lemma accepted_stepI:
  "emits a c (sent out) s \<Longrightarrow> agrees th ks s \<Longrightarrow> stored_wf s \<Longrightarrow> accepted_step th a c ks (Inr out, s)"
  by (auto simp: accepted_step_def)

lemma transform_reads:
  assumes "reads ev n d" and "n \<in> {''content_block_start'', ''content_block_delta'', ''content_block_stop''}"
  shows "transform_native_sse_block_event th ev s =
    (if n = ''content_block_start'' then on_block_start th ev d s
     else if n = ''content_block_delta'' then on_block_delta th ev d s else on_block_stop th ev d s)"
  using assms by (auto simp: reads_def transform_native_sse_block_event_def)

lemma reads_wf: "reads ev n d \<Longrightarrow> wf_json (JObj d)"
  unfolding reads_def by blast

lemma block_names_insert [simp]:
  "''content_block_start'' \<in> block_names" "''content_block_delta'' \<in> block_names" "''content_block_stop'' \<in> block_names"
  by (simp_all add: block_names_def)

lemma lazy_frames:
  "lazy_event (mk_frame ''content_block_delta'' d)" "lazy_event (mk_frame ''content_block_stop'' d)"
  by (simp_all add: lazy_event_def)

lemma start_step:
  assumes "reads ev ''content_block_start'' d" and i: "as_int (jget d ''index'') = Some i"
    and b: "jget d ''content_block'' = JObj b" "jget b ''type'' = JStr k" "k \<in> set ALLOWED_BLOCK_START_TYPES"
    and l: "lazy_block b" and k: "ks i = None" and t: "policy.tracks s c" and g: "agrees th ks s" and w: "stored_wf s"
  shows "accepted_step th a c (ks(i \<mapsto> (k, True))) (transform_native_sse_block_event th ev s)"
proof (cases "should_drop_block_type th (JStr k)")
  case True
  have n: "segment s i = None" using agreesD(1) [OF g k] by simp
  have "agrees th (ks(i \<mapsto> (k, True))) (s\<lparr>np_dropped := insert i (np_dropped s)\<rparr>)"
    by (rule agrees_upd [OF g]) (use n True in \<open>simp_all add: standing_def same_segment_def drop_views\<close>)
  moreover have "policy.tracks (s\<lparr>np_dropped := insert i (np_dropped s)\<rparr>) c"
    by (rule drop_tracks [OF t])
  moreover have "stored_wf (s\<lparr>np_dropped := insert i (np_dropped s)\<rparr>)"
    using w by (simp only: stored_wf_def drop_views)
  ultimately have "accepted_step th a c (ks(i \<mapsto> (k, True))) (Inr None, s\<lparr>np_dropped := insert i (np_dropped s)\<rparr>)"
    by (intro accepted_stepI) (simp_all add: emits_nil sent_def)
  then show ?thesis
    unfolding transform_reads [OF assms(1), simplified] using b i True by (simp add: on_block_start_def)
next
  case False
  have n: "i \<notin> np_dropped s" "segment s i = None" using agreesD(1) [OF g k] by simp_all
  obtain pre s1 where pre: "synthetic_close_other_open_blocks i s = (pre, s1)"
    by (cases "synthetic_close_other_open_blocks i s")
  obtain m s2 where al: "allocate_new_segment i k (Some b) s1 = (m, s2)" by (cases "allocate_new_segment i k (Some b) s1")
  have sane: "policy_sane s" using t by (simp add: policy.tracks_def)
  have items: "distinct (map fst (np_by_upstream s))" "\<forall>(i, seg) \<in> set (np_by_upstream s). segment s i = Some seg"
    using policy_saneD(2) [OF sane] by (auto simp: segment_def)
  note C = close_others_run [OF t items pre [unfolded synthetic_close_other_open_blocks_def], of a]
  have p1: "i \<notin> np_pending_stops s1" using C policy_saneD(6) [OF sane, of i] n(2) by auto
  have s1: "policy_sane s1" "segment s1 i = None" using C n(2) by (auto simp: emits_def policy.tracks_def)
  note A = allocate_facts [OF s1(1) _ p1 al]
  have open_none: "\<And>seg. segment s1 i = Some seg \<Longrightarrow> \<not> ub_open seg" using s1(2) by simp
  note A = A [OF open_none]
  let ?ev = "native_event ''content_block_start'' (dset ''index'' (JInt m) d)"
  have r: "transform_native_sse_block_event th ev s = (Inr (Some (pre @ ?ev)), s2)"
    unfolding transform_reads [OF assms(1), simplified] using b i False
    by (simp add: on_block_start_def pre al)
  obtain c1 where c1: "check_events a c (parse_sse_text pre) = Inr c1" "policy.tracks s1 c1" "terminated pre"
    using C by (auto simp: emits_def)
  have "\<exists>c'. check_event a c1 (mk_frame ''content_block_start'' (dset ''index'' (JInt m) d)) = Inr c' \<and> policy.tracks s2 c'"
  proof (rule policy.tracks_start [OF c1(2) start_frame_opens [OF b l] _ A(2,3,4)])
    show "m \<notin> policy_used s1" using A(1) by (simp add: policy_used_def)
  qed
  from emits_frame [OF this wf_set_index [OF reads_wf [OF assms(1)]] block_event_names(1)
      opens_lazy [OF start_frame_opens [OF b l] b(3)] block_names_insert(1)]
  have e: "emits a c1 ?ev s2" .
  have "emits a c (pre @ ?ev) s2"
    using e c1 C by (auto simp: emits_def parse_text_append check_events_append intro: terminated_append)
  moreover have "agrees th (ks(i \<mapsto> (k, True))) s2"
    by (rule agrees_upd [OF g]) (use A(5) A(6) C n in \<open>simp_all add: standing_def same_segment_def\<close>)
  moreover have "stored_wf s2"
  proof (rule stored_wf_upd [OF w, where i = i])
    fix b' assume "Option.bind (segment s2 i) ub_start = Some b'"
    then have "as_obj (jget d ''content_block'') = Some b'" using A(5) [of i] b(1) by simp
    then show "wf_json (JObj b')" by (rule wf_obj_member [OF reads_wf [OF assms(1)]])
  next
    fix j assume "j \<noteq> i"
    moreover have "map_option ub_start (segment s1 j) = map_option ub_start (segment s j)" using C by blast
    ultimately show "Option.bind (segment s2 j) ub_start = Option.bind (segment s j) ub_start"
      using A(5) [of j] by (cases "segment s1 j"; cases "segment s j") simp_all
  qed
  ultimately show ?thesis unfolding r by (intro accepted_stepI) (simp_all add: sent_def)
qed

lemma agrees_reopened:
  assumes "agrees th ks s" and "map_option fst (ks i) = Some k"
  shows "agrees th (ks(i \<mapsto> (k, True))) s"
proof -
  obtain b where "ks i = Some (k, b)" using assms(2) by (cases "ks i") auto
  then have "standing th (k, True) i s" using agreesD(2) [OF assms(1)] by (fastforce simp: standing_def)
  then show ?thesis by (rule agrees_upd [OF assms(1)]) (simp add: same_segment_def)
qed

lemma wf_str [simp]: "wf_json (JStr s)"
  by simp

lemma wf_synthetic:
  assumes "\<And>d. stored = Some d \<Longrightarrow> wf_json (JObj d)"
  shows "wf_json (JObj (synthetic_start_content_block k l stored))"
proof -
  have "wf_json (JObj (case as_obj (jget d ''input'') of Some x \<Rightarrow> x | None \<Rightarrow> []))" if "stored = Some d" for d
    using wf_obj_member [OF assms [OF that]] by (simp split: option.split)
  then show ?thesis
    by (simp add: synthetic_start_content_block_def split: option.split)
qed

lemma synthetic_shape:
  assumes "k = ''thinking'' \<or> k = ''text'' \<or> k = ''tool_use''"
  shows "jget (synthetic_start_content_block k l stored) ''type'' = JStr k"
    and "lazy_block (synthetic_start_content_block k l stored)"
    and "k \<in> set ALLOWED_BLOCK_START_TYPES"
  using assms
  by (auto simp: synthetic_start_content_block_def lazy_block_def ALLOWED_BLOCK_START_TYPES_def py_strip_def
      py_lstrip_def py_rstrip_def split: option.split)

lemma synthetic_opens:
  assumes "k = ''thinking'' \<or> k = ''text'' \<or> k = ''tool_use''"
  shows "opens (mk_frame ''content_block_start'' [(''type'', JStr ''content_block_start''), (''index'', JInt n),
    (''content_block'', JObj (synthetic_start_content_block k l stored))]) n k"
proof -
  let ?d = "[(''type'', JStr ''content_block_start''), (''index'', JInt n),
    (''content_block'', JObj (synthetic_start_content_block k l stored))]"
  have "dset ''index'' (JInt n) ?d = ?d" by simp
  with start_frame_opens [of ?d "synthetic_start_content_block k l stored" k n] synthetic_shape [OF assms]
  show ?thesis by simp
qed

text \<open>A delta that opens its block: a start and the delta, both at a fresh index.\<close>

lemma opening_delta:
  assumes t: "policy.tracks s c" and closed: "\<And>seg. segment s i = Some seg \<Longrightarrow> \<not> ub_open seg" and p: "i \<notin> np_pending_stops s"
    and al: "allocate_new_segment i k carry s = (m, s')"
    and d: "wf_json (JObj d)" "jget d ''delta'' = JObj dl" "delta_type_to_block_kind (jget dl ''type'') = Some k"
    and st: "\<And>d. stored = Some d \<Longrightarrow> wf_json (JObj d)"
  shows "emits a c (synthetic_start_event m (synthetic_start_content_block k l stored) @
    native_event ''content_block_delta'' (dset ''index'' (JInt m) d)) s'"
proof -
  have sane: "policy_sane s" using t by (simp add: policy.tracks_def)
  note A = allocate_facts [OF sane _ p al]
  note A = A [OF closed]
  have k: "k = ''thinking'' \<or> k = ''text'' \<or> k = ''tool_use''"
    using d(3) by (auto simp: delta_type_to_block_kind_def split: option.splits if_splits)
  have "m \<notin> policy_used s" using A(1) by (simp add: policy_used_def)
  from policy.tracks_start [OF t synthetic_opens [OF k] this A(2,3,4)]
  obtain c1 where c1: "check_event a c (mk_frame ''content_block_start'' [(''type'', JStr ''content_block_start''),
      (''index'', JInt m), (''content_block'', JObj (synthetic_start_content_block k l stored))]) = Inr c1"
    "policy.tracks s' c1" by blast
  have live: "policy_live s' m = Some k" using A(3) by simp
  have "\<exists>c'. check_event a c1 (mk_frame ''content_block_delta'' (dset ''index'' (JInt m) d)) = Inr c' \<and> policy.tracks s' c'"
    by (rule policy.tracks_delta [OF c1(2) delta_frame_extends [OF d(2,3)] live A(2) refl refl])
  from emits_frame [OF this wf_set_index [OF d(1)] block_event_names(2) lazy_frames(1) block_names_insert(2)]
  have e: "emits a c1 (native_event ''content_block_delta'' (dset ''index'' (JInt m) d)) s'" .
  have "wf_json (JObj [(''type'', JStr ''content_block_start''), (''index'', JInt m),
      (''content_block'', JObj (synthetic_start_content_block k l stored))])"
    using wf_synthetic [OF st] by simp
  from emits_frame_append [OF c1(1) this block_event_names(1) e opens_lazy [OF synthetic_opens [OF k] synthetic_shape(3) [OF k]] block_names_insert(1)]
  show ?thesis by (simp add: synthetic_start_event_def)
qed

lemma policy_delta_step:
  assumes r: "reads ev ''content_block_delta'' d" and i: "as_int (jget d ''index'') = Some i"
    and dl: "jget d ''delta'' = JObj dl" "delta_type_to_block_kind (jget dl ''type'') = Some k"
    and k: "map_option fst (ks i) = Some k \<or> ks i = None \<and> k \<noteq> ''thinking''"
    and t: "policy.tracks s c" and g: "agrees th ks s" and w: "stored_wf s"
  shows "accepted_step th a c (ks(i \<mapsto> (k, True))) (transform_native_sse_block_event th ev s)"
proof -
  have sane: "policy_sane s" using t by (simp add: policy.tracks_def)
  note wf = reads_wf [OF r]
  note R = transform_reads [OF r, simplified]
  have kk: "k = ''thinking'' \<or> k = ''text'' \<or> k = ''tool_use''"
    using dl(2) by (auto simp: delta_type_to_block_kind_def split: option.splits if_splits)
  let ?send = "\<lambda>m. native_event ''content_block_delta'' (dset ''index'' (JInt m) d)"
  have keep: "accepted_step th a c (ks(i \<mapsto> (k, True))) (Inr None, s)" if "map_option fst (ks i) = Some k"
    using agrees_reopened [OF g that] by (intro accepted_stepI) (simp_all add: emits_nil sent_def t w)
  show ?thesis
  proof (cases "i \<in> np_dropped s \<or> should_drop_block_type th (jget dl ''type'')")
    case True
    have "map_option fst (ks i) = Some k"
    proof (rule ccontr)
      assume "map_option fst (ks i) \<noteq> Some k"
      with k have n: "ks i = None" "k \<noteq> ''thinking''" by simp_all
      then have "should_drop_block_type th (jget dl ''type'')" using True agreesD(1) [OF g n(1)] by simp
      then show False using dl(2) n(2)
        by (auto simp: should_drop_block_type_def delta_type_to_block_kind_def as_str_iff py_startswith_def
            py_contains_def split: option.splits if_splits)
    qed
    with keep True show ?thesis unfolding R using dl i by (auto simp: on_block_delta_def)
  next
    case False
    show ?thesis
    proof (cases "segment s i")
      case (Some seg)
      have ki: "map_option fst (ks i) = Some k"
        using k agreesD(1) [OF g, of i] Some by auto
      have ty: "ub_type seg = k"
      proof -
        obtain ko where "ks i = Some ko" "fst ko = k" using ki by (cases "ks i") auto
        then show ?thesis using agreesD(2) [OF g] Some by (fastforce simp: standing_def)
      qed
      show ?thesis
      proof (cases "ub_open seg")
        case True
        have live: "policy_live s (ub_down seg) = Some k"
          using policy_live_iff [OF sane] Some True ty by blast
        have "\<exists>c'. check_event a c (mk_frame ''content_block_delta'' (dset ''index'' (JInt (ub_down seg)) d)) = Inr c' \<and>
            policy.tracks s c'"
          by (rule policy.tracks_delta [OF t delta_frame_extends [OF dl] live sane refl refl])
        from emits_frame [OF this wf_set_index [OF wf] block_event_names(2) lazy_frames(1) block_names_insert(2)]
        have "accepted_step th a c (ks(i \<mapsto> (k, True))) (Inr (Some (?send (ub_down seg))), s)"
          using agrees_reopened [OF g ki] w by (intro accepted_stepI) (simp_all add: sent_def)
        then show ?thesis unfolding R using dl i False Some True by (simp add: on_block_delta_def segment_def)
      next
        case closed: False
        let ?s = "s\<lparr>np_pending_stops := np_pending_stops s - {i}\<rparr>"
        have v: "policy_sane ?s" "policy_live ?s = policy_live s" "policy_used ?s = policy_used s"
          "\<And>j. segment ?s j = segment s j"
          using policy_saneD [OF sane]
          by (auto intro!: policy_saneI simp: policy_live_def open_segments_def policy_used_def segment_def)
        have t': "policy.tracks ?s c" by (rule policy.tracks_silent [OF t v(1,2,3)])
        obtain m s2 where al: "allocate_new_segment i k (ub_start seg) ?s = (m, s2)"
          by (cases "allocate_new_segment i k (ub_start seg) ?s")
        have cl: "\<And>g. segment ?s i = Some g \<Longrightarrow> \<not> ub_open g" using v(4) Some closed by simp
        have pn: "i \<notin> np_pending_stops ?s" by simp
        note A = allocate_facts [OF v(1) cl pn al]
        let ?st = "case ub_start seg of Some d \<Rightarrow> if jget d ''type'' = JStr ''tool_use'' then Some d else None | None \<Rightarrow> None"
        have st: "wf_json (JObj b)" if "?st = Some b" for b
          by (rule stored_wfD [OF w Some]) (use that in \<open>auto split: option.splits if_splits\<close>)
        note O = opening_delta [OF t' cl pn al wf dl st, where a = a and l = "py_str (jget d ''index'')"]
        have "agrees th (ks(i \<mapsto> (k, True))) s2"
          by (rule agrees_upd [OF g]) (use A(5) A(6) v(4) False in \<open>simp_all add: standing_def same_segment_def\<close>)
        moreover have "stored_wf s2"
        proof (rule stored_wf_upd [OF w, where i = i])
          fix b assume "Option.bind (segment s2 i) ub_start = Some b"
          then have "ub_start seg = Some b" using A(5) [of i] by simp
          then show "wf_json (JObj b)" by (rule stored_wfD [OF w Some])
        qed (use A(5) v(4) in simp)
        ultimately have "accepted_step th a c (ks(i \<mapsto> (k, True))) (Inr (Some (synthetic_start_event m
            (synthetic_start_content_block k (py_str (jget d ''index'')) ?st) @ ?send m)), s2)"
          using O by (intro accepted_stepI) (simp_all add: sent_def)
        then show ?thesis unfolding R using dl i False Some closed al
          by (simp add: on_block_delta_def segment_def Let_def)
      qed
    next
      case None
      have ki: "ks i = None" "k = ''text'' \<or> k = ''tool_use''"
        using k agreesD(2) [OF g, of i] None False kk by (auto simp: standing_def)
      let ?b = "synthetic_start_content_block k (py_str (jget d ''index'')) None"
      obtain m s2 where al: "allocate_new_segment i k (Some ?b) s = (m, s2)"
        by (cases "allocate_new_segment i k (Some ?b) s")
      have cl: "\<And>g. segment s i = Some g \<Longrightarrow> \<not> ub_open g" using None by simp
      have pn: "i \<notin> np_pending_stops s" using policy_saneD(6) [OF sane, of i] None by auto
      note A = allocate_facts [OF sane cl pn al]
      note O = opening_delta [OF t cl pn al wf dl, where stored = None and a = a and l = "py_str (jget d ''index'')"]
      have "agrees th (ks(i \<mapsto> (k, True))) s2"
        by (rule agrees_upd [OF g]) (use A(5) A(6) False in \<open>simp_all add: standing_def same_segment_def\<close>)
      moreover have "stored_wf s2"
      proof (rule stored_wf_upd [OF w, where i = i])
        fix b assume "Option.bind (segment s2 i) ub_start = Some b"
        then have b: "b = ?b" using A(5) [of i] by simp
        show "wf_json (JObj b)" unfolding b by (rule wf_synthetic) simp
      qed (use A(5) in simp)
      ultimately have "accepted_step th a c (ks(i \<mapsto> (k, True))) (Inr (Some (synthetic_start_event m ?b @ ?send m)), s2)"
        using O by (intro accepted_stepI) (simp_all add: sent_def)
      then show ?thesis unfolding R using dl i False None al ki(2)
        by (auto simp: on_block_delta_def segment_def Let_def)
    qed
  qed
qed

lemma stop_step:
  assumes r: "reads ev ''content_block_stop'' d" and i: "as_int (jget d ''index'') = Some i"
    and k: "ks i = Some (k, o1)" and t: "policy.tracks s c" and g: "agrees th ks s" and w: "stored_wf s"
  shows "accepted_step th a c (ks(i \<mapsto> (k, False))) (transform_native_sse_block_event th ev s)"
proof -
  have sane: "policy_sane s" using t by (simp add: policy.tracks_def)
  note R = transform_reads [OF r, simplified]
  let ?ks = "ks(i \<mapsto> (k, False))"
  have st: "standing th (k, o1) i s" by (rule agreesD(2) [OF g k])
  have silent: "accepted_step th a c ?ks (Inr None, s)" if "map_option ub_open (segment s i) \<noteq> Some True"
  proof -
    have "agrees th ?ks s" by (rule agrees_upd [OF g]) (use st that in \<open>auto simp: standing_def same_segment_def\<close>)
    then show ?thesis using t w by (intro accepted_stepI) (simp_all add: emits_nil sent_def)
  qed
  show ?thesis
  proof (cases "i \<in> np_dropped s")
    case True
    with st have "segment s i = None" by (simp add: standing_def)
    with silent i True show ?thesis unfolding R by (simp add: on_block_stop_def)
  next
    case nd: False
    obtain seg where seg: "segment s i = Some seg" "ub_type seg = k"
      using st nd by (auto simp: standing_def)
    show ?thesis
    proof (cases "i \<in> np_pending_stops s")
      case True
      let ?s = "s\<lparr>np_pending_stops := np_pending_stops s - {i}\<rparr>"
      have v: "policy_sane ?s" "policy_live ?s = policy_live s" "policy_used ?s = policy_used s"
        "\<And>j. segment ?s j = segment s j"
        using policy_saneD [OF sane]
        by (auto intro!: policy_saneI simp: policy_live_def open_segments_def policy_used_def segment_def)
      have "policy.tracks ?s c" by (rule policy.tracks_silent [OF t v(1,2,3)])
      moreover have "agrees th ?ks ?s"
        by (rule agrees_upd [OF g])
           (use st nd v(4) policy_saneD(6) [OF sane True] in \<open>auto simp: standing_def same_segment_def\<close>)
      moreover have "stored_wf ?s" using w by (simp add: stored_wf_def v(4) del: wf_json.simps)
      ultimately have "accepted_step th a c ?ks (Inr None, ?s)"
        by (intro accepted_stepI) (simp_all add: emits_nil sent_def)
      then show ?thesis unfolding R using nd True i by (simp add: on_block_stop_def)
    next
      case np: False
      show ?thesis
      proof (cases "ub_open seg")
        case False
        then show ?thesis using silent nd np i seg(1) unfolding R by (simp add: on_block_stop_def segment_def)
      next
        case True
        let ?s = "(shut i s)\<lparr>np_pending_stops := np_pending_stops s\<rparr>"
        let ?ev = "native_event ''content_block_stop'' (dset ''index'' (JInt (ub_down seg)) d)"
        note F = shut_facts [OF sane seg(1) True subset_insertI]
        have s1: "?s = s\<lparr>np_by_upstream := dset i (seg\<lparr>ub_open := False\<rparr>) (np_by_upstream s)\<rparr>"
          by (simp add: shut_def seg(1))
        have "policy_live s (ub_down seg) \<noteq> None"
          using policy_live_iff [OF sane, of "ub_down seg" k] seg True by auto
        from policy.tracks_stop [OF t stop_frame_closes(1) this F(1,2,3)]
        have "\<exists>c'. check_event a c (mk_frame ''content_block_stop'' (dset ''index'' (JInt (ub_down seg)) d)) = Inr c' \<and>
            policy.tracks ?s c'" .
        from emits_frame [OF this wf_set_index [OF reads_wf [OF r]] block_event_names(3) lazy_frames(2) block_names_insert(3)]
        have e: "emits a c ?ev ?s" .
        have d: "np_dropped ?s = np_dropped s" by (simp add: s1)
        have "agrees th ?ks ?s"
          by (rule agrees_upd [OF g]) (use F(4) d nd seg in \<open>simp_all add: standing_def same_segment_def\<close>)
        moreover have "stored_wf ?s"
        proof (rule stored_wf_upd [OF w, where i = i])
          fix b assume "Option.bind (segment ?s i) ub_start = Some b"
          then have "ub_start seg = Some b" using F(4) [of i] by simp
          then show "wf_json (JObj b)" by (rule stored_wfD [OF w seg(1)])
        qed (use F(4) in simp)
        ultimately have "accepted_step th a c ?ks (Inr (Some ?ev), ?s)"
          using e by (intro accepted_stepI) (simp_all add: sent_def)
        then show ?thesis unfolding R s1 using nd np i seg(1) True by (simp add: on_block_stop_def segment_def)
      qed
    qed
  qed
qed

lemma inert_events: "\<forall>e \<in> set es. inert a e \<Longrightarrow> check_events a c es = Inr c"
  by (induction es) (simp_all add: check_inert)

definition passed :: "bool \<Rightarrow> string \<Rightarrow> bool" where
  "passed a ev \<longleftrightarrow> event_name_of ev \<notin> block_names \<and> terminated ev \<and>
     (\<forall>e \<in> set (parse_sse_text ev). inert a e \<and> ev_name e = event_name_of ev)"

lemma admitted_step:
  assumes "admits a ks ev ks'" and "policy.tracks s c" and "agrees th ks s" and "stored_wf s"
  shows "event_name_of ev \<in> block_names \<and> accepted_step th a c ks' (transform_native_sse_block_event th ev s) \<or>
    transform_native_sse_block_event th ev s = (Inr (Some ev), s) \<and> ks' = ks \<and> passed a ev"
  using assms(1)
proof cases
  case (starts d i b k)
  then have "event_name_of ev \<in> block_names" by (auto simp: reads_def event_name_of_def)
  then show ?thesis using start_step starts assms(2-4) by blast
next
  case (grows d i dl k)
  then have "event_name_of ev \<in> block_names" by (auto simp: reads_def event_name_of_def)
  then show ?thesis using policy_delta_step grows assms(2-4) by blast
next
  case (stops d i k o1)
  then have "event_name_of ev \<in> block_names" by (auto simp: reads_def event_name_of_def)
  then show ?thesis using stop_step stops assms(2-4) by blast
next
  case others
  have "transform_native_sse_block_event th ev s = (Inr (Some ev), s)"
    using others(2) by (cases "parse_native_sse_event ev") (auto simp: transform_native_sse_block_event_def split: option.split)
  moreover have "event_name_of ev \<notin> block_names"
    using others(2) by (auto simp: event_name_of_def block_names_def split: option.split)
  ultimately show ?thesis using others by (simp add: passed_def)
qed

lemma passed_facts:
  assumes "passed a ev"
  shows "terminated ev" "check_events a c (parse_sse_text ev) = Inr c" "list_all lazy_event (parse_sse_text ev)"
    "ev_name ` set (parse_sse_text ev) \<subseteq> {event_name_of ev}"
proof -
  have i: "\<forall>e \<in> set (parse_sse_text ev). inert a e" using assms unfolding passed_def by blast
  show "check_events a c (parse_sse_text ev) = Inr c" by (rule inert_events [OF i])
  show "list_all lazy_event (parse_sse_text ev)" using i by (auto simp: list_all_iff inert_def lazy_event_def)
qed (use assms in \<open>auto simp: passed_def\<close>)

lemma admitted_text:
  assumes "admits a ks ev ks'" and "policy.tracks s c" and "agrees th ks s" and "stored_wf s"
  obtains out s' c' where "transform_native_sse_block_event th ev s = (Inr out, s')"
    "terminated (sent out)" "list_all lazy_event (parse_sse_text (sent out))"
    "check_events a c (parse_sse_text (sent out)) = Inr c'" "policy.tracks s' c'" "agrees th ks' s'" "stored_wf s'"
    "ev_name ` set (parse_sse_text (sent out)) \<subseteq> insert (event_name_of ev) block_names"
    "event_name_of ev \<notin> block_names \<Longrightarrow> out = Some ev"
  using admitted_step [OF assms]
proof (elim disjE conjE)
  assume t: "transform_native_sse_block_event th ev s = (Inr (Some ev), s)" "ks' = ks" "passed a ev"
  show thesis by (rule that [OF t(1)]) (use t assms passed_facts [OF t(3)] in \<open>simp_all add: sent_def\<close>, blast)
next
  assume n: "event_name_of ev \<in> block_names" and "accepted_step th a c ks' (transform_native_sse_block_event th ev s)"
  then obtain out s' where o: "transform_native_sse_block_event th ev s = (Inr out, s')" "emits a c (sent out) s'"
    "agrees th ks' s'" "stored_wf s'" by (auto simp: accepted_step_def)
  obtain c' where "check_events a c (parse_sse_text (sent out)) = Inr c'" "policy.tracks s' c'"
    using o(2) by (auto simp: emits_def)
  then show thesis by (intro that [OF o(1)]) (use o n in \<open>auto simp: emits_def\<close>)
qed

text \<open>The names of what is sent: the block events, and the names of the events passed on.\<close>

definition sent_by :: "string list \<Rightarrow> string list \<Rightarrow> bool" where
  "sent_by evs outs \<longleftrightarrow> (\<forall>t \<in> set outs. terminated t) \<and> list_all lazy_event (parse_sse_text (concat outs)) \<and>
     ev_name ` set (parse_sse_text (concat outs)) \<subseteq> block_names \<union> event_name_of ` set evs"

lemma policy_run_accepted:
  assumes "admits_all a ks evs ks'" and "policy.tracks s c" and "agrees th ks s" and "stored_wf s"
  shows "\<exists>outs s' c'. policy_run th evs s = (outs, None, s') \<and> sent_by evs outs \<and>
    check_events a c (parse_sse_text (concat outs)) = Inr c' \<and> policy.tracks s' c' \<and> agrees th ks' s' \<and> stored_wf s'"
  using assms
proof (induction arbitrary: s c rule: admits_all.induct)
  case (none ks)
  then show ?case by (simp add: sent_by_def)
next
  case (next_event ks ev ks' evs ks'')
  obtain out s1 c1 where o: "transform_native_sse_block_event th ev s = (Inr out, s1)"
    "terminated (sent out)" "list_all lazy_event (parse_sse_text (sent out))"
    "check_events a c (parse_sse_text (sent out)) = Inr c1" "policy.tracks s1 c1" "agrees th ks' s1" "stored_wf s1"
    "ev_name ` set (parse_sse_text (sent out)) \<subseteq> insert (event_name_of ev) block_names"
    using admitted_text [OF next_event.hyps(1) next_event.prems] by metis
  from next_event.IH [OF o(5,6,7)] obtain outs s' c' where
    r: "policy_run th evs s1 = (outs, None, s')" "sent_by evs outs"
    "check_events a c1 (parse_sse_text (concat outs)) = Inr c'" "policy.tracks s' c'" "agrees th ks'' s'" "stored_wf s'"
    by blast
  show ?case
  proof (cases out)
    case None
    then have "sent_by (ev # evs) outs" using r(2) by (auto simp: sent_by_def)
    with None show ?thesis using o(1,4) r by (auto simp: sent_def)
  next
    case (Some t)
    then have t: "terminated t" "sent out = t" using o(2) by (simp_all add: sent_def)
    then have p: "parse_sse_text (concat (t # outs)) = parse_sse_text t @ parse_sse_text (concat outs)"
      by (simp add: parse_text_append)
    have "policy_run th (ev # evs) s = (t # outs, None, s')" using o(1) r(1) Some by simp
    moreover have "check_events a c (parse_sse_text (concat (t # outs))) = Inr c'"
      using o(4) r(3) t unfolding p by (simp add: check_events_append)
    moreover have "sent_by (ev # evs) (t # outs)"
      unfolding sent_by_def p using o(3,8) r(2) t by (auto simp: sent_by_def)
    ultimately show ?thesis using r by blast
  qed
qed

lemma new_policy_agrees: "agrees th Map.empty new_policy_state" "stored_wf new_policy_state"
  by (simp_all add: agrees_def stored_wf_def new_policy_state_def segment_def)

section \<open>Events the policy can read\<close>

lemma clean_last: "clean p \<Longrightarrow> \<not> is_space (last p) \<and> p \<noteq> []"
proof -
  assume c: "clean p"
  then have p: "p = rev (dropWhile is_space (rev (py_lstrip p)))" by (simp add: clean_def py_strip_def py_rstrip_def)
  have ne: "p \<noteq> []" using c by (simp add: clean_def)
  let ?d = "dropWhile is_space (rev (py_lstrip p))"
  have "?d \<noteq> []" using p ne by (metis rev.simps(1))
  then have "\<not> is_space (hd ?d)" by (rule hd_dropWhile)
  moreover have "last p = hd ?d" using p \<open>?d \<noteq> []\<close> by (metis last_rev)
  ultimately show ?thesis using ne by simp
qed

lemma strip_written:
  assumes "clean p"
  shows "py_strip (written n p) = ''event: '' @ n @ [LF] @ ''data: '' @ p"
proof -
  obtain q c where p: "p = q @ [c]" "\<not> is_space c"
    using clean_last [OF assms] by (metis append_butlast_last_id)
  have "is_space LF" by (simp add: is_space_def LF_def)
  with p(2) show ?thesis
    by (simp add: written_def p(1) py_strip_def py_lstrip_def py_rstrip_def) (simp add: is_space_def)
qed

lemma reads_native:
  assumes "wf_json (JObj d)" and "clean n"
  shows "reads (native_event n d) n d"
proof -
  have ne: "n \<noteq> []" using assms(2) by (simp add: clean_def)
  have c: "clean (native_enc d)" by (rule native.enc_clean [OF assms(1)])
  have u: "unbroken (''event: '' @ n)" "unbroken (''data: '' @ native_enc d)"
    using assms(2) c by (simp_all add: clean_def is_linebreak_def)
  have "py_splitlines (''event: '' @ n @ [LF] @ ''data: '' @ native_enc d) = [''event: '' @ n, ''data: '' @ native_enc d]"
    using splitlines_LF [of "''event: '' @ n" "''data: '' @ native_enc d"] splitlines_clean [OF u(1)] splitlines_line [OF u(2)]
    by simp
  moreover have "py_lstrip (CHR '' '' # native_enc d) = native_enc d"
  proof -
    have "native_enc d = CHR ''{'' # dumps_members default_style d @ ''}''" by (simp add: native_enc_def json_dumps_def)
    then show ?thesis by (simp add: py_lstrip_def is_space_def)
  qed
  moreover have "py_strip (CHR '' '' # n) = n" using assms(2) by (simp add: strip_space clean_def)
  ultimately have "parse_native_sse_event (native_event n d) = (Some n, native_enc d)"
    unfolding native_event_written [OF assms(1) ne] parse_native_sse_event_def strip_written [OF c]
    by (simp add: parse_native_line_def py_startswith_def)
  then show ?thesis
    using assms(1) native.enc_loads [OF assms(1)] c by (auto simp: reads_def clean_def)
qed

lemma all_closed_none_open:
  assumes "agrees th ks s" and "policy.tracks s c" and "\<And>i k. ks i \<noteq> Some (k, True)"
  shows "open_blocks c = []"
proof -
  have sane: "policy_sane s" using assms(2) by (simp add: policy.tracks_def)
  have "\<not> (segment s i = Some seg \<and> ub_open seg)" for i seg
  proof
    assume seg: "segment s i = Some seg \<and> ub_open seg"
    show False
    proof (cases "ks i")
      case None
      with agreesD(1) [OF assms(1)] seg show False by simp
    next
      case (Some ko)
      with agreesD(2) [OF assms(1)] seg have "snd ko" by (fastforce simp: standing_def)
      with Some assms(3) [of i "fst ko"] show False by (metis prod.collapse)
    qed
  qed
  then have "policy_live s = Map.empty"
    by (intro policy_live_eqI [OF sane]) auto
  then have "dom (map_of (open_blocks c)) = {}" using assms(2) by (simp add: policy.tracks_def)
  then show ?thesis by simp
qed

section \<open>Properties\<close>

text \<open>
  C22: however the blocks of a disciplined upstream overlap, what the policy sends is accepted by
  the contract checker; the blocks get the indexes from 0 on in the order they start, and once the
  upstream has stopped every block none is open downstream.
\<close>

theorem policy_keeps_contract:
  assumes "admits_all a (\<lambda>_. None) evs ks"
  shows "\<exists>outs s c. policy_run th evs new_policy_state = (outs, None, s) \<and>
    check_events a check_init (parse_sse_text (concat outs)) = Inr c \<and> seen_blocks c = {0..<np_next s} \<and>
    ((\<forall>i k. ks i \<noteq> Some (k, True)) \<longrightarrow> open_blocks c = [])"
proof -
  obtain outs s c where r: "policy_run th evs new_policy_state = (outs, None, s)"
    "check_events a check_init (parse_sse_text (concat outs)) = Inr c" "policy.tracks s c" "agrees th ks s"
    using policy_run_accepted [OF assms new_policy_tracks new_policy_agrees, of th] by blast
  moreover have "seen_blocks c = {0..<np_next s}" using r(3) by (simp add: policy.tracks_def policy_used_def)
  ultimately show ?thesis using all_closed_none_open [OF r(4,3)] by blast
qed

text \<open>Two overlapping blocks: the second starts before the first is stopped, then the first goes on.\<close>

definition block_start_event :: "int \<Rightarrow> jdict \<Rightarrow> string" where
  "block_start_event i b = native_event ''content_block_start''
     [(''type'', JStr ''content_block_start''), (''index'', JInt i), (''content_block'', JObj b)]"

definition text_delta_event :: "int \<Rightarrow> string \<Rightarrow> string" where
  "text_delta_event i t = native_event ''content_block_delta''
     [(''type'', JStr ''content_block_delta''), (''index'', JInt i),
      (''delta'', JObj [(''type'', JStr ''text_delta''), (''text'', JStr t)])]"

definition block_stop_event :: "int \<Rightarrow> string" where
  "block_stop_event i = native_event ''content_block_stop'' (stop_payload i)"

definition overlapping :: "string list" where
  "overlapping =
     [block_start_event 0 [(''type'', JStr ''text''), (''text'', JStr [])],
      block_start_event 1 [(''type'', JStr ''tool_use''), (''id'', JStr ''t''), (''name'', JStr ''Read''), (''input'', JObj [])],
      text_delta_event 0 ''late'', block_stop_event 0, block_stop_event 1]"

lemma overlapping_admitted:
  "admits_all a (\<lambda>_. None) overlapping (\<lambda>i. if i = 0 then Some (''text'', False) else if i = 1 then Some (''tool_use'', False) else None)"
proof -
  let ?first = "((\<lambda>_. None) :: kinds)(0 \<mapsto> (''text'', True))" and ?final = "\<lambda>i :: int. if i = 0 then Some (''text'', False) else if i = 1 then Some (''tool_use'', False) else None"
  note R = reads_native block_event_names
  have 1: "admits a (\<lambda>_. None) (block_start_event 0 [(''type'', JStr ''text''), (''text'', JStr [])]) ?first"
    unfolding block_start_event_def
    by (rule starts [where i = 0 and k = "''text''" and b = "[(''type'', JStr ''text''), (''text'', JStr [])]"], rule reads_native)
       (simp_all add: lazy_block_def ALLOWED_BLOCK_START_TYPES_def py_strip_def py_lstrip_def py_rstrip_def)
  have 2: "admits a ?first (block_start_event 1 [(''type'', JStr ''tool_use''), (''id'', JStr ''t''), (''name'', JStr ''Read''),
      (''input'', JObj [])]) (?first(1 \<mapsto> (''tool_use'', True)))"
    unfolding block_start_event_def
    by (rule starts [where i = 1 and k = "''tool_use''" and b = "[(''type'', JStr ''tool_use''), (''id'', JStr ''t''),
        (''name'', JStr ''Read''), (''input'', JObj [])]"], rule reads_native)
       (simp_all add: lazy_block_def ALLOWED_BLOCK_START_TYPES_def)
  have 3: "admits a (?first(1 \<mapsto> (''tool_use'', True))) (text_delta_event 0 ''late'')
      ((?first(1 \<mapsto> (''tool_use'', True)))(0 \<mapsto> (''text'', True)))"
    unfolding text_delta_event_def
    by (rule grows [where i = 0 and k = "''text''" and dl = "[(''type'', JStr ''text_delta''), (''text'', JStr ''late'')]"],
        rule reads_native) (simp_all add: delta_type_to_block_kind_def)
  have 4: "admits a ks (block_stop_event i) (ks(i \<mapsto> (k, False)))" if "ks i = Some (k, b)" for ks i k b
    unfolding block_stop_event_def
    by (rule stops [OF reads_native]) (use that in \<open>simp_all add: stop_payload_def\<close>)
  have e: "(((?first(1 \<mapsto> (''tool_use'', True)))(0 \<mapsto> (''text'', True)))(0 \<mapsto> (''text'', False)))(1 \<mapsto> (''tool_use'', False)) = ?final"
    by (auto simp: fun_eq_iff)
  let ?mid = "(?first(1 \<mapsto> (''tool_use'', True)))(0 \<mapsto> (''text'', True))"
  have 5: "admits a ?mid (block_stop_event 0) (?mid(0 \<mapsto> (''text'', False)))" by (rule 4 [where b = True]) simp
  have 6: "admits a (?mid(0 \<mapsto> (''text'', False))) (block_stop_event 1)
      ((?mid(0 \<mapsto> (''text'', False)))(1 \<mapsto> (''tool_use'', False)))" by (rule 4 [where b = True]) simp
  show ?thesis
    unfolding overlapping_def e [symmetric]
    by (rule next_event [OF 1 next_event [OF 2 next_event [OF 3 next_event [OF 5 next_event [OF 6 none]]]]])
qed

theorem policy_keeps_contract_witness:
  "\<exists>outs s c. policy_run True overlapping new_policy_state = (outs, None, s) \<and>
    check_events False check_init (parse_sse_text (concat outs)) = Inr c \<and> open_blocks c = []"
  using policy_keeps_contract [OF overlapping_admitted, of True False] by (auto split: if_splits)

end
