(* ===== verification/Native_Contract.thy ===== *)
theory Native_Contract
  imports Native_Recovery Policy_Contract
begin

text \<open>
  The contract of a native stream: whatever the upstream does within its discipline, at whatever
  point it breaks, and whatever the recovery requests answer, the client reads a stream the
  contract checker accepts.  The native runner is a \<open>block_source\<close> through its tracker.
\<close>

section \<open>Chunks carry the text\<close>

lemma keep_lines_aux_concat: "concat (keep_lines_aux acc s) = rev acc @ s"
  by (induction acc s rule: keep_lines_aux.induct) auto

lemma event_chunks_concat: "concat (event_chunks e t) = t"
  by (simp add: event_chunks_def py_splitlines_keep_def keep_lines_aux_concat)

lemma stream_chunks_policy:
  "ne_line_mode e \<Longrightarrow> policy_run (ne_thinking e) evs s = (outs, x, s') \<Longrightarrow>
   stream_chunks e evs s = (concat (map (event_chunks e) outs), x, s')"
  by (induction evs arbitrary: s outs)
     (auto simp: transform_stream_event_def split: prod.splits sum.splits option.splits)

lemma concat_event_chunks: "concat (concat (map (event_chunks e) outs)) = concat outs"
  by (induction outs) (simp_all add: event_chunks_concat)

lemma push_chunks_run:
  "hb_ok utf8_len (rs_holdback s) \<Longrightarrow> push_chunks e cs t s = (out, t', s') \<Longrightarrow>
   t' = fold tracker_feed cs t \<and> hb_ok utf8_len (rs_holdback s') \<and>
   out @ hb_events (rs_holdback s') = hb_events (rs_holdback s) @ cs \<and>
   (hb_committed (rs_holdback s) \<longrightarrow> hb_committed (rs_holdback s')) \<and> (hb_committed (rs_holdback s') \<longrightarrow> hb_committed (rs_holdback s) \<or> out \<noteq> []) \<and> (out \<noteq> [] \<longrightarrow> hb_committed (rs_holdback s'))"
proof (induction cs arbitrary: t s out)
  case (Cons c cs)
  obtain o1 h1 where p: "hb_push (ne_now e) utf8_len c (rs_holdback s) = (o1, h1)"
    by (cases "hb_push (ne_now e) utf8_len c (rs_holdback s)")
  let ?s = "s\<lparr>rs_holdback := h1\<rparr>"
  obtain o2 where q: "push_chunks e cs (tracker_feed c t) ?s = (o2, t', s')" "out = o1 @ o2"
    using Cons.prems(2) p by (auto simp: session_push_def split: prod.splits)
  note P = hb_push_cases [OF Cons.prems(1) p]
  have O: "hb_committed h1 \<Longrightarrow> hb_committed (rs_holdback s) \<or> o1 \<noteq> []"
    using p by (auto simp: hb_push_def hb_read_def hb_flush_def Let_def split: if_splits option.splits)
  have "hb_ok utf8_len (rs_holdback ?s)" using P(1) by simp
  note IH = Cons.IH [OF this q(1)]
  have "o1 @ o2 @ hb_events (rs_holdback s') = hb_events (rs_holdback s) @ c # cs"
    using P(2) IH by (metis append.assoc append_Cons append_Nil recovery_session.select_convs(1) recovery_session.surjective
        recovery_session.update_convs(1))
  with P O IH q(2) show ?case by auto
qed simp

section \<open>The tracker at the end of a response\<close>

lemma terminated_rest:
  assumes "terminated (p @ b)" and "terminated p" and "py_find [LF, LF] b = None"
  shows "parse_sse_text (p @ b) = parse_sse_text p"
proof -
  have "b = [] \<or> b = [LF]"
  proof (rule ccontr)
    assume n: "\<not> (b = [] \<or> b = [LF])"
    then have "suffix [LF, LF] (p @ b)" using assms(1) by (auto simp: terminated_def)
    then obtain q where q: "p @ b = q @ [LF, LF]" by (auto simp: suffix_def)
    have "\<not> 2 \<le> length b"
    proof
      assume l: "2 \<le> length b"
      have "drop (length b - 2) b = [LF, LF]"
        using arg_cong [OF q, of "\<lambda>x. drop (length x - 2) x"] l by simp
      moreover have "\<not> prefix [LF, LF] (drop (length b - 2) b)" by (rule py_find_None [OF assms(3)]) simp
      ultimately show False by simp
    qed
    then obtain x where "b = [x]" using n by (cases b; cases "tl b") auto
    with q n show False by (cases q rule: rev_cases) auto
  qed
  moreover have "parse_sse_text [LF] = []"
    using parse_lines_trailing [of "[]"] by (simp add: parse_sse_text_def splitlines_blank parse_sse_lines_alt)
  ultimately show ?thesis using parse_text_append [OF assms(2), of b] by auto
qed

lemma observe_all_tracks:
  "check_events a c es = Inr c' \<Longrightarrow> list_all lazy_event es \<Longrightarrow> tracker.tracks t c \<Longrightarrow>
   tracker.tracks (fold observe es t) c'"
  by (induction es arbitrary: t c) (auto dest: observe_tracks)

lemma observe_stopped: "tk_message_stopped (fold observe es t) \<longleftrightarrow> tk_message_stopped t \<or> ''message_stop'' \<in> ev_name ` set es"
proof (induction es arbitrary: t)
  case (Cons e es)
  have "tk_message_stopped (observe e t) \<longleftrightarrow> tk_message_stopped t \<or> ev_name e = ''message_stop''"
    by (simp add: observe_def observe_message_start_def observe_block_start_def observe_block_delta_def
        observe_block_stop_def observe_message_delta_def Let_def split: option.split)
  with Cons show ?case by auto
qed simp

text \<open>What a terminated text leaves in the tracker.\<close>

lemma tracker_after:
  assumes "concat cs = T" and "terminated T" and "check_events a check_init (parse_sse_text T) = Inr c"
    and "list_all lazy_event (parse_sse_text T)"
  shows "tracker.tracks (fold tracker_feed cs new_tracker) c"
    and "tk_message_stopped (fold tracker_feed cs new_tracker) \<longleftrightarrow> ''message_stop'' \<in> ev_name ` set (parse_sse_text T)"
proof -
  obtain p b where p: "concat cs = p @ b" "terminated p" "py_find [LF, LF] b = None"
    "fold tracker_feed cs new_tracker = (fold observe (parse_sse_text p) new_tracker)\<lparr>tk_buf := b\<rparr>"
    using feed_chunks_observes [of cs] by blast
  have e: "parse_sse_text p = parse_sse_text T" using terminated_rest [OF _ p(2,3)] assms(1,2) p(1) by simp
  have "tracker.tracks (fold observe (parse_sse_text T) new_tracker) c"
    by (rule observe_all_tracks [OF assms(3,4) new_tracker_tracks])
  then show "tracker.tracks (fold tracker_feed cs new_tracker) c"
    unfolding p(4) e by (rule tracks_cong) simp_all
  show "tk_message_stopped (fold tracker_feed cs new_tracker) \<longleftrightarrow> ''message_stop'' \<in> ev_name ` set (parse_sse_text T)"
    unfolding p(4) e by (simp add: observe_stopped) (simp add: new_tracker_def)
qed

section \<open>A disciplined upstream\<close>

definition opens_message :: "string list \<Rightarrow> bool" where
  "opens_message evs \<longleftrightarrow> evs = [] \<or> (event_name_of (hd evs) = ''message_start'' \<and> parse_sse_text (hd evs) \<noteq> [])"

definition unfinished :: "string list \<Rightarrow> bool" where
  "unfinished evs \<longleftrightarrow> ''message_stop'' \<notin> event_name_of ` set evs"

text \<open>A finished message: its last event is \<open>message_stop\<close>, every block was stopped, and one is not dropped.\<close>

definition finished :: "bool \<Rightarrow> string list \<Rightarrow> kinds \<Rightarrow> bool" where
  "finished th evs ks \<longleftrightarrow> evs \<noteq> [] \<and> unfinished (butlast evs) \<and> event_name_of (last evs) = ''message_stop'' \<and>
     parse_sse_text (last evs) \<noteq> [] \<and> (\<forall>i k. ks i \<noteq> Some (k, True)) \<and>
     (\<exists>i k. ks i = Some (k, False) \<and> \<not> should_drop_block_type th (JStr k))"

definition proper_response :: "bool \<Rightarrow> bool \<Rightarrow> native_response \<Rightarrow> bool" where
  "proper_response a th r =
     (case r of
        SendFails x \<Rightarrow> True
      | ResponseLines ls ending \<Rightarrow>
          (let evs = iter_sse_events ls (ending = None)
           in \<exists>ks. admits_all a (\<lambda>_. None) evs ks \<and> opens_message evs \<and>
                (unfinished evs \<or> ending = None \<and> finished th evs ks)))"

lemma policy_run_Cons_passed:
  assumes "transform_native_sse_block_event th ev s = (Inr (Some t), s')" and "policy_run th (ev # evs) s = (outs, x, s'')"
  shows "\<exists>outs'. outs = t # outs' \<and> policy_run th evs s' = (outs', x, s'')"
  using assms by (auto split: prod.splits)

lemma policy_run_append:
  "policy_run th (xs @ ys) s = (case policy_run th xs s of
     (outs, None, s') \<Rightarrow> (case policy_run th ys s' of (outs', x, s'') \<Rightarrow> (outs @ outs', x, s''))
   | (outs, Some x, s') \<Rightarrow> (outs, Some x, s'))"
  by (induction xs arbitrary: s) (auto split: prod.splits sum.splits option.splits)

lemma admits_all_split:
  "admits_all a ks (xs @ ys) ks'' \<Longrightarrow> \<exists>ks'. admits_all a ks xs ks' \<and> admits_all a ks' ys ks''"
proof (induction xs arbitrary: ks)
  case Nil
  then show ?case by (auto intro: admits_all.intros)
next
  case (Cons x xs)
  then obtain k1 where "admits a ks x k1" "admits_all a k1 (xs @ ys) ks''" by (auto elim: admits_all_ConsE)
  with Cons.IH show ?case by (meson admits_all.intros(2))
qed

lemma message_events: "''message_start'' \<notin> block_names" "''message_stop'' \<notin> block_names"
  by (simp_all add: block_names_def)

text \<open>What a proper response leaves behind: the text sent, the checker, the tracker.\<close>

definition response_text :: "bool \<Rightarrow> stream_exn option \<Rightarrow> string \<Rightarrow> check_state \<Rightarrow> bool" where
  "response_text a ending T c \<longleftrightarrow> terminated T \<and> list_all lazy_event (parse_sse_text T) \<and>
     check_events a check_init (parse_sse_text T) = Inr c \<and>
     (T \<noteq> [] \<longrightarrow> ''message_start'' \<in> ev_name ` set (parse_sse_text T)) \<and>
     (''message_stop'' \<in> ev_name ` set (parse_sse_text T) \<longrightarrow>
        ending = None \<and> open_blocks c = [] \<and> seen_blocks c \<noteq> {} \<and> ev_name (last (parse_sse_text T)) = ''message_stop'')"

lemma proper_response_text:
  assumes "ne_line_mode e" and "proper_response a (ne_thinking e) (ResponseLines ls ending)"
  obtains chunks s c where "response_chunks e ls ending new_policy_state = (chunks, ending, s)"
    "response_text a ending (concat chunks) c"
proof -
  define evs where "evs = iter_sse_events ls (ending = None)"
  obtain ks where ks: "admits_all a (\<lambda>_. None) evs ks" "opens_message evs"
    "unfinished evs \<or> ending = None \<and> finished (ne_thinking e) evs ks"
    using assms(2) by (auto simp: proper_response_def evs_def Let_def)
  note N = new_policy_tracks new_policy_agrees
  obtain outs s c where r: "policy_run (ne_thinking e) evs new_policy_state = (outs, None, s)" "sent_by evs outs"
    "check_events a check_init (parse_sse_text (concat outs)) = Inr c" "policy.tracks s c" "agrees (ne_thinking e) ks s"
    using policy_run_accepted [OF ks(1) N] by blast
  let ?T = "concat outs"
  have ch: "response_chunks e ls ending new_policy_state = (concat (map (event_chunks e) outs), ending, s)"
    using stream_chunks_policy [OF assms(1) r(1)] by (simp add: response_chunks_def evs_def)
  have names: "ev_name ` set (parse_sse_text ?T) \<subseteq> block_names \<union> event_name_of ` set evs"
    using r(2) by (simp add: sent_by_def)
  have start: "''message_start'' \<in> ev_name ` set (parse_sse_text ?T)" if ne: "?T \<noteq> []"
  proof -
    obtain ev rest where e: "evs = ev # rest" using r(1) ne by (cases evs) auto
    then have n: "event_name_of ev = ''message_start''" "parse_sse_text ev \<noteq> []"
      using ks(2) by (simp_all add: opens_message_def)
    obtain k1 where k1: "admits a (\<lambda>_. None) ev k1" using ks(1) e by (auto elim: admits_all_ConsE)
    have nb: "event_name_of ev \<notin> block_names" using n(1) message_events by simp
    have p: "transform_native_sse_block_event (ne_thinking e) ev new_policy_state = (Inr (Some ev), new_policy_state)"
      "passed a ev"
      using admitted_step [OF k1 N, of "ne_thinking e"] nb by blast+
    obtain outs' where o: "outs = ev # outs'"
      using policy_run_Cons_passed [OF p(1) r(1) [unfolded e]] by blast
    have "''message_start'' \<in> ev_name ` set (parse_sse_text ev)"
      using p(2) n by (cases "parse_sse_text ev") (auto simp: passed_def)
    then show ?thesis using o passed_facts(1) [OF p(2)] by (simp add: parse_text_append image_Un)
  qed
  have stop: "ending = None \<and> open_blocks c = [] \<and> seen_blocks c \<noteq> {} \<and> ev_name (last (parse_sse_text ?T)) = ''message_stop''"
    if m: "''message_stop'' \<in> ev_name ` set (parse_sse_text ?T)"
  proof -
    have "\<not> unfinished evs" using m names message_events by (auto simp: unfinished_def)
    then have f: "ending = None" "finished (ne_thinking e) evs ks" using ks(3) by blast+
    have closed: "open_blocks c = []" using all_closed_none_open [OF r(5,4)] f(2) by (simp add: finished_def)
    obtain i k where ik: "ks i = Some (k, False)" "\<not> should_drop_block_type (ne_thinking e) (JStr k)"
      using f(2) by (auto simp: finished_def)
    obtain seg where seg: "segment s i = Some seg"
      using agreesD(2) [OF r(5) ik(1)] ik(2) by (auto simp: standing_def)
    have sane: "policy_sane s" using r(4) by (simp add: policy.tracks_def)
    have "0 < np_next s" using policy_saneD(3,4) [OF sane seg] by simp
    then have seen: "seen_blocks c \<noteq> {}" using r(4) by (simp add: policy.tracks_def policy_used_def)
    obtain pre fin where e: "evs = pre @ [fin]" "event_name_of fin = ''message_stop''" "parse_sse_text fin \<noteq> []"
      using f(2) by (metis append_butlast_last_id finished_def)
    obtain k1 where k1: "admits_all a (\<lambda>_. None) pre k1" "admits_all a k1 [fin] ks"
      using admits_all_split [of a _ pre "[fin]"] ks(1) e(1) by blast
    obtain o1 s1 c1 where r1: "policy_run (ne_thinking e) pre new_policy_state = (o1, None, s1)" "sent_by pre o1"
      "policy.tracks s1 c1" "agrees (ne_thinking e) k1 s1" "stored_wf s1"
      using policy_run_accepted [OF k1(1) N] by blast
    obtain k2 where k2: "admits a k1 fin k2" using k1(2) by (auto elim: admits_all_ConsE)
    have p: "transform_native_sse_block_event (ne_thinking e) fin s1 = (Inr (Some fin), s1)" "passed a fin"
      using admitted_step [OF k2 r1(3,4,5)] e(2) message_events by auto
    have "outs = o1 @ [fin]" using r(1) r1(1) p(1) e(1) by (simp add: policy_run_append)
    moreover have "terminated (concat o1)" using r1(2) by (intro terminated_concat) (simp add: sent_by_def)
    ultimately have "parse_sse_text ?T = parse_sse_text (concat o1) @ parse_sse_text fin"
      by (simp add: parse_text_append)
    moreover have "ev_name (last (parse_sse_text fin)) = ''message_stop''"
      using p(2) e(2,3) by (auto simp: passed_def)
    ultimately have "ev_name (last (parse_sse_text ?T)) = ''message_stop''" using e(3) by simp
    then show ?thesis using f(1) closed seen by simp
  qed
  have "terminated ?T" using r(2) by (intro terminated_concat) (simp add: sent_by_def)
  then have "response_text a ending ?T c"
    using r(2,3) start stop by (auto simp: response_text_def sent_by_def)
  then show thesis using that [OF ch] by (simp add: concat_event_chunks)
qed


section \<open>One attempt\<close>

lemma keep_lines_nonempty: "[] \<notin> set (keep_lines_aux acc s)"
  by (induction acc s rule: keep_lines_aux.induct) auto

lemma stream_chunks_nonempty: "ne_line_mode e \<Longrightarrow> stream_chunks e evs s = (chunks, x, s') \<Longrightarrow> [] \<notin> set chunks"
  by (induction evs arbitrary: s chunks)
     (auto simp: event_chunks_def py_splitlines_keep_def keep_lines_nonempty split: prod.splits sum.splits option.splits)

lemma response_chunks_nonempty:
  "ne_line_mode e \<Longrightarrow> response_chunks e ls ending s = (chunks, x, s') \<Longrightarrow> [] \<notin> set chunks"
  by (auto simp: response_chunks_def split: prod.splits option.splits dest: stream_chunks_nonempty)

text \<open>What the environment promises: disciplined responses whose stopped tool calls are whole.\<close>

definition disciplined :: "native_env \<Rightarrow> bool \<Rightarrow> bool" where
  "disciplined e a \<longleftrightarrow> ne_line_mode e \<and>
     (\<forall>n body ls ending. ne_upstream e n body = ResponseLines ls ending \<longrightarrow>
        proper_response a (ne_thinking e) (ResponseLines ls ending) \<and>
        tools_settled e (fold tracker_feed (fst (response_chunks e ls ending new_policy_state)) new_tracker))"

text \<open>A pass starts with a new tracker and policy and nothing sent or held.\<close>

definition fresh_pass :: "native_runner \<Rightarrow> text_session \<Rightarrow> bool" where
  "fresh_pass r s \<longleftrightarrow> nr_tracker r = new_tracker \<and> nr_policy r = new_policy_state \<and>
     hb_ok utf8_len (rs_holdback s) \<and> held s = [] \<and> \<not> gone s"

definition attempt_left :: "native_env \<Rightarrow> bool \<Rightarrow> string list \<Rightarrow> native_runner \<Rightarrow> text_session \<Rightarrow> stream_exn option \<Rightarrow>
    check_state \<Rightarrow> bool" where
  "attempt_left e a out r s ending c \<longleftrightarrow>
     response_text a ending (concat (out @ held s)) c \<and> native_runner.tracks r c \<and> tools_settled e (nr_tracker r) \<and>
     (tk_message_stopped (nr_tracker r) \<longleftrightarrow> ''message_stop'' \<in> ev_name ` set (parse_sse_text (concat (out @ held s)))) \<and>
     hb_ok utf8_len (rs_holdback s) \<and> (gone s \<longleftrightarrow> out \<noteq> []) \<and> [] \<notin> set (out @ held s)"

lemma empty_response: "response_text a ending [] check_init"
  using parse_text_empty by (simp add: response_text_def)

lemma empty_text: "response_text a ending [] c \<Longrightarrow> c = check_init"
  by (simp add: response_text_def)

lemma attempt_leaves:
  assumes d: "disciplined e a" and f: "fresh_pass r s" and att: "native_attempt e r s = (res, out, r', s')"
  obtains ending c where "attempt_left e a out r' s' ending c"
    "res = None \<longleftrightarrow> tk_message_stopped (nr_tracker r')"
proof (cases "ne_upstream e (nr_calls r) (nr_body r)")
  case (SendFails x)
  then have "attempt_left e a out r' s' None check_init" "res \<noteq> None" "\<not> tk_message_stopped (nr_tracker r')"
    using att f empty_response parse_text_empty new_tracker_tracks
    by (auto simp: native_attempt_def attempt_left_def fresh_pass_def runner_tracks tools_settled_def tool_blocks_def new_tracker_def)
  then show thesis using that by blast
next
  case (ResponseLines ls ending)
  have p: "proper_response a (ne_thinking e) (ResponseLines ls ending)" and m: "ne_line_mode e"
    and st: "tools_settled e (fold tracker_feed (fst (response_chunks e ls ending new_policy_state)) new_tracker)"
    using d ResponseLines by (auto simp: disciplined_def)
  obtain chunks p' c where ch: "response_chunks e ls ending new_policy_state = (chunks, ending, p')"
    "response_text a ending (concat chunks) c"
    using proper_response_text [OF m p] by blast
  obtain o1 t s1 where pu: "push_chunks e chunks new_tracker s = (o1, t, s1)" by (cases "push_chunks e chunks new_tracker s")
  note P = push_chunks_run [OF _ pu]
  have h: "hb_ok utf8_len (rs_holdback s)" "held s = []" "\<not> gone s" using f by (simp_all add: fresh_pass_def)
  have out: "out = o1" "s' = s1" "nr_tracker r' = t"
    using att ResponseLines ch(1) pu f by (auto simp: native_attempt_def fresh_pass_def Let_def split: option.splits if_splits)
  have all: "o1 @ held s1 = chunks" "t = fold tracker_feed chunks new_tracker" "hb_ok utf8_len (rs_holdback s1)"
    "gone s1 \<longleftrightarrow> o1 \<noteq> []"
    using P h by auto
  note R = ch(2) [unfolded response_text_def]
  have tr: "tracker.tracks t c" "tk_message_stopped t \<longleftrightarrow> ''message_stop'' \<in> ev_name ` set (parse_sse_text (concat chunks))"
    using tracker_after [OF refl, of chunks a c] R all(2) by auto
  have "attempt_left e a out r' s' ending c"
    using ch(2) tr st all out response_chunks_nonempty [OF m ch(1)] ch(1)
    by (simp add: attempt_left_def runner_tracks flip: concat_append)
  moreover have "res = None \<longleftrightarrow> tk_message_stopped (nr_tracker r')"
  proof (cases ending)
    case None
    then show ?thesis
      using att ResponseLines ch(1) pu f
      by (auto simp: native_attempt_def fresh_pass_def Let_def has_terminal_message_def split: if_splits)
  next
    case (Some x)
    then have "\<not> tk_message_stopped t" using R tr(2) by auto
    with Some show ?thesis
      using att ResponseLines ch(1) pu f out
      by (auto simp: native_attempt_def fresh_pass_def Let_def)
  qed
  ultimately show thesis using that by blast
qed

section \<open>The whole run\<close>

text \<open>What the client reads: the events in the text of the upstream, then the events of our own.\<close>

definition client_events :: "native_env \<Rightarrow> sent_text \<Rightarrow> sse_event list" where
  "client_events e reply = parse_sse_text (concat (fst reply)) @ map (to_event (ne_encode e)) (snd reply)"

definition keeps_contract :: "native_env \<Rightarrow> bool \<Rightarrow> sent_text \<Rightarrow> bool" where
  "keeps_contract e a reply \<longleftrightarrow> terminated (concat (fst reply)) \<and> stream_contract (client_events e reply) a = Inr ()"

lemma contract_to_event: "stream_contract (map (to_event enc) fs) a = stream_contract fs a"
proof -
  have "map ev_name (map (to_event enc) fs) = map ev_name fs" by simp
  then show ?thesis by (simp only: stream_contract_def check_to_events map_is_Nil_conv)
qed

lemma assemble:
  assumes "response_text a ending T c" and "T \<noteq> []" and "closes_stream a c fs" and "concat chunks = T"
  shows "keeps_contract e a (chunks, fs)"
proof -
  have "closes_stream a c (map (to_event (ne_encode e)) fs)"
    using assms(3) by (auto simp: closes_stream_def last_map)
  then have "closes_stream a check_init (parse_sse_text T @ map (to_event (ne_encode e)) fs)"
    using assms(1) by (intro closes_stream_append) (auto simp: response_text_def)
  then show ?thesis
    using assms(1,2,4) by (auto simp: keeps_contract_def client_events_def response_text_def intro!: closes_contract)
qed

lemma assemble_finished:
  assumes "response_text a ending T c" and "''message_stop'' \<in> ev_name ` set (parse_sse_text T)" and "concat chunks = T"
  shows "keeps_contract e a (chunks, [])"
proof -
  have "parse_sse_text T \<noteq> []" and "T \<noteq> []" using assms(2) by auto
  then have "closes_stream a check_init (parse_sse_text T)"
    using assms(1,2) by (simp add: response_text_def closes_stream_def)
  then show ?thesis
    using assms(1,3) \<open>T \<noteq> []\<close> by (simp add: keeps_contract_def client_events_def response_text_def closes_contract)
qed

lemma final_error_keeps:
  assumes l: "attempt_left e a out r s ending c" and t: "native_runner.tracks r' c"
    and "fd_committed dec = gone s" and "fd_has_buffered dec = hb_has_buffered (rs_holdback s)"
  shows "keeps_contract e a (out @ fst (native_final_error e x dec r' s), snd (native_final_error e x dec r' s))"
proof (cases "gone s \<or> held s \<noteq> []")
  case True
  have h: "hb_ok utf8_len (rs_holdback s)" using l by (simp add: attempt_left_def)
  have eq: "concat (out @ fst (native_final_error e x dec r' s)) = concat (out @ held s)"
    "snd (native_final_error e x dec r' s) = native_error_tail e x (nr_tracker r')"
    using True assms(3,4) flush_held [OF h] h
    by (auto simp: native_final_error_def hb_has_buffered_def hb_ok_def)
  have "out @ held s \<noteq> []" using True l by (auto simp: attempt_left_def)
  then have "concat (out @ held s) \<noteq> []" using l by (cases "out @ held s") (auto simp: attempt_left_def)
  with l t show ?thesis unfolding eq(2)
    by (intro assemble [OF _ _ error_tail_ends eq(1)]) (auto simp: attempt_left_def runner_tracks)
next
  case False
  then have "out = []" using l by (simp add: attempt_left_def)
  with False assms(3,4) show ?thesis
    using provider_error_stream [of e "ne_error_message e x" a]
    by (simp add: native_final_error_def keeps_contract_def client_events_def contract_to_event hb_has_buffered_def)
qed

lemma fresh_retry:
  assumes f: "native_on_failure e x opened r s = Inr (r', s')" and l: "attempt_left e a out r s ending c"
  shows "out = []" "fresh_pass r' s'"
proof -
  note R = native_on_failure_retry [OF f]
  have g: "\<not> gone s" using R(3) by blast
  with l show "out = []" by (simp add: attempt_left_def)
  have n: "\<not> hb_committed (new_holdback n)" for n by (simp add: new_holdback_def)
  show "fresh_pass r' s'"
    using R g l by (auto simp: fresh_pass_def attempt_left_def hb_ok_new hb_events_new hb_has_buffered_def n)
qed

lemma on_failure_keeps:
  assumes l: "attempt_left e a out r s ending c" and m: "\<not> tk_message_stopped (nr_tracker r)"
    and f: "native_on_failure e x opened r s = Inl (out', frames)"
  shows "keeps_contract e a (out @ out', frames)"
proof -
  define gen salv where "gen = has_content_block (nr_tracker r)" and
    "salv = (gen \<and> can_salvage_tool_use (ne_validator e) (tool_schemas_by_name (ne_tools e)) (nr_tracker r))"
  obtain dec s1 where adv: "advance_failure x opened gen salv s = (dec, s1)" by fastforce
  have f': "(case fd_action dec of
       EARLY_RETRY \<Rightarrow> Inr (native_reset r, s1)
     | MIDSTREAM_RECOVERY \<Rightarrow>
         (case native_recovery_events e x r of
            (events, None, _) \<Rightarrow> Inl (fst (flush_uncommitted dec s1), events)
          | (_, Some _, r') \<Rightarrow> Inl (native_final_error e x dec r' s1))
     | FINAL_ERROR \<Rightarrow> Inl (native_final_error e x dec r s1)) = Inl (out', frames)"
    using f adv unfolding native_on_failure_def gen_def [symmetric] salv_def [symmetric] Let_def
    by (auto split: option.splits)
  then have nr: "fd_action dec \<noteq> EARLY_RETRY" by auto
  then have d: "s1 = s" "fd_committed dec = gone s" "fd_has_buffered dec = hb_has_buffered (rs_holdback s)"
    "fd_action dec = MIDSTREAM_RECOVERY \<Longrightarrow> gen"
    using adv by (auto simp: advance_failure_def Let_def split: if_splits)
  have t: "native_runner.tracks r c" using l by (simp add: attempt_left_def)
  note E = final_error_keeps [OF l _ d(2,3), where x = x]
  show ?thesis
  proof (cases "fd_action dec")
    case MIDSTREAM_RECOVERY
    obtain ev z r' where rec: "native_recovery_events e x r = (ev, z, r')" by (cases "native_recovery_events e x r")
    have b: "tk_blocks (nr_tracker r) \<noteq> []" using d(4) MIDSTREAM_RECOVERY by (simp add: gen_def has_content_block_def)
    have ts: "tools_settled e (nr_tracker r)" using l by (simp add: attempt_left_def)
    note R = native_recovery_result [OF t ts m b, of a x, unfolded ends_or_aborts_def]
    show ?thesis
    proof (cases z)
      case None
      have cl: "closes_stream a c ev" using R rec None by (simp add: raised_def yields_def)
      have o: "out' = fst (flush_uncommitted dec s)" "frames = ev"
        using f' MIDSTREAM_RECOVERY rec None d(1) by simp_all
      have h: "hb_ok utf8_len (rs_holdback s)" using l by (simp add: attempt_left_def)
      have eq: "concat (out @ out') = concat (out @ held s)"
        using o(1) d(2) flush_held [OF h] h by (auto simp: flush_uncommitted_def hb_ok_def)
      have seen: "seen_blocks c \<noteq> {}" using t blocks_used [OF b] by (simp add: runner_tracks tracker.tracks_def)
      have rt: "response_text a ending (concat (out @ held s)) c" using l unfolding attempt_left_def by blast
      have ne: "concat (out @ held s) \<noteq> []"
      proof
        assume z: "concat (out @ held s) = []"
        show False using seen empty_text [OF rt [unfolded z]] by (simp add: check_init_def)
      qed
      show ?thesis unfolding o(2) by (rule assemble [OF rt ne cl eq])
    next
      case (Some y)
      have "native_runner.tracks r' c" using R rec Some by (simp add: raised_def after_def)
      from E [OF this] show ?thesis using f' MIDSTREAM_RECOVERY rec Some d(1) by simp
    qed
  next
    case FINAL_ERROR
    with E [OF t] f' d(1) show ?thesis by simp
  qed (use nr in simp)
qed

lemma native_loop_keeps:
  "disciplined e a \<Longrightarrow> fresh_pass r s \<Longrightarrow> keeps_contract e a (native_loop e r s)"
proof (induction e r s rule: native_loop.induct)
  case (1 e r s)
  obtain res out r1 s1 where att: "native_attempt e r s = (res, out, r1, s1)" by (cases "native_attempt e r s")
  obtain ending c where L: "attempt_left e a out r1 s1 ending c" "res = None \<longleftrightarrow> tk_message_stopped (nr_tracker r1)"
    using attempt_leaves [OF "1.prems" att] by blast
  show ?case
  proof (cases res)
    case None
    have h: "hb_ok utf8_len (rs_holdback s1)" using L(1) by (simp add: attempt_left_def)
    have "native_loop e r s = (out @ held s1, [])"
      by (subst native_loop.simps) (simp add: att None flush_held [OF h])
    moreover have "keeps_contract e a (out @ held s1, [])"
      by (rule assemble_finished [OF _ _ refl, where c = c and ending = ending])
         (use L None in \<open>simp_all add: attempt_left_def\<close>)
    ultimately show ?thesis by simp
  next
    case (Some p)
    obtain opened x where p: "p = (opened, x)" by (cases p)
    have m: "\<not> tk_message_stopped (nr_tracker r1)" using L(2) Some by simp
    show ?thesis
    proof (cases "native_on_failure e x opened r1 s1")
      case (Inl q)
      obtain out' frames where q: "q = (out', frames)" by (cases q)
      have "native_loop e r s = (out @ out', frames)"
        by (subst native_loop.simps) (simp add: att Some p Inl q)
      with on_failure_keeps [OF L(1) m Inl [unfolded q]] show ?thesis by simp
    next
      case (Inr q)
      obtain r2 s2 where q: "q = (r2, s2)" by (cases q)
      note F = fresh_retry [OF Inr [unfolded q] L(1)]
      have "native_loop e r s = native_loop e r2 s2"
        by (subst native_loop.simps) (simp add: att Some p Inr q F(1))
      moreover have "keeps_contract e a (native_loop e r2 s2)"
        by (rule "1.IH") (use att Some p Inr q "1.prems"(1) F(2) in auto)
      ultimately show ?thesis by simp
    qed
  qed
qed


section \<open>Properties\<close>


text \<open>An upstream that breaks off inside a text block, at every attempt.\<close>

definition event_lines :: "string \<Rightarrow> jdict \<Rightarrow> string list" where
  "event_lines n d = [''event: '' @ n, ''data: '' @ native_enc d, []]"

definition text_start :: jdict where
  "text_start = [(''type'', JStr ''content_block_start''), (''index'', JInt 0),
     (''content_block'', JObj [(''type'', JStr ''text''), (''text'', JStr [])])]"

definition message_data :: jdict where
  "message_data = [(''type'', JStr ''message_start''), (''message'', JObj [(''id'', JStr ''m'')])]"

definition broken_lines :: "string list" where
  "broken_lines = event_lines ''message_start'' message_data @ event_lines ''content_block_start'' text_start"

definition broken_env :: native_env where
  "broken_env = \<lparr>ne_line_mode = True, ne_thinking = True, ne_now = (\<lambda>_. 0), ne_validator = (\<lambda>_ _. SchemaValid), ne_tools = [],
     ne_upstream = (\<lambda>_ _. ResponseLines broken_lines (Some ReadError)), ne_retry_body = (\<lambda>_ _. None),
     ne_error_message = (\<lambda>_. ''connection lost''), ne_encode = native_enc, ne_uuid = ''u'', ne_model = ''m'',
     ne_input_tokens = JInt 0, ne_body = []\<rparr>"

lemma iter_event_lines:
  assumes "wf_json (JObj d)" and "n \<noteq> []"
  shows "group_events [] (event_lines n d @ ls) ended = native_event n d # group_events [] ls ended"
  by (simp add: event_lines_def native_event_written [OF assms] written_def)

lemma transform_read:
  assumes "reads ev n d" and "n \<noteq> []"
  shows "n = ''content_block_start'' \<Longrightarrow> transform_native_sse_block_event th ev s = on_block_start th ev d s"
    and "n \<notin> {''content_block_start'', ''content_block_delta'', ''content_block_stop''} \<Longrightarrow>
      transform_native_sse_block_event th ev s = (Inr (Some ev), s)"
  using assms by (auto simp: reads_def transform_native_sse_block_event_def)

lemma broken_disciplined: "disciplined broken_env True"
proof -
  have w: "wf_json (JObj message_data)" "wf_json (JObj text_start)" by (simp_all add: message_data_def text_start_def)
  have n: "clean ''message_start''" by (simp add: clean_def is_linebreak_def py_strip_def py_lstrip_def py_rstrip_def is_space_def)
  let ?m = "native_event ''message_start'' message_data" and ?t = "native_event ''content_block_start'' text_start"
  let ?ks = "((\<lambda>_. None) :: kinds)(0 \<mapsto> (''text'', True))"
  have evs: "iter_sse_events broken_lines False = [?m, ?t]"
    using iter_event_lines [OF w(1), of "''message_start''"] iter_event_lines [OF w(2), of "''content_block_start''" "[]"]
    by (simp add: iter_sse_events_def broken_lines_def)
  note R = reads_native [OF w(1) n] reads_native [OF w(2) block_event_names(1)]
  note P = parse_native_event [OF w(1) n] parse_native_event [OF w(2) block_event_names(1)]
  have names: "event_name_of ?m = ''message_start''" "event_name_of ?t = ''content_block_start''"
    using R by (auto simp: event_name_of_def reads_def)
  have 1: "admits True (\<lambda>_. None) ?m (\<lambda>_. None)"
    by (rule others) (use R(1) P(1,3) names in \<open>auto simp: reads_def inert_def terminated_def\<close>)
  have 2: "admits True (\<lambda>_. None) ?t ?ks"
    by (rule starts [OF R(2), where i = 0 and k = "''text''" and b = "[(''type'', JStr ''text''), (''text'', JStr [])]"])
       (simp_all add: text_start_def lazy_block_def ALLOWED_BLOCK_START_TYPES_def py_strip_def py_lstrip_def py_rstrip_def)
  have admitted: "admits_all True (\<lambda>_. None) [?m, ?t] ?ks" by (rule next_event [OF 1 next_event [OF 2 none]])
  have proper: "proper_response True True (ResponseLines broken_lines (Some ReadError))"
    unfolding proper_response_def using evs admitted names P(1)
    by (auto simp: opens_message_def unfinished_def)
  have start: "on_block_start True ?t text_start new_policy_state =
      (Inr (Some ?t), snd (allocate_new_segment 0 ''text'' (Some [(''type'', JStr ''text''), (''text'', JStr [])]) new_policy_state))"
    by (simp add: on_block_start_def text_start_def should_drop_block_type_def new_policy_state_def
        synthetic_close_other_open_blocks_def allocate_new_segment_def)
  obtain chunks where ch: "fst (response_chunks broken_env broken_lines (Some ReadError) new_policy_state) = chunks"
    "concat chunks = ?m @ ?t"
    using evs transform_read(1) [OF R(2), of True new_policy_state] transform_read(2) [OF R(1), of True new_policy_state] start
    by (simp add: response_chunks_def broken_env_def transform_stream_event_def event_chunks_concat split_beta)
  have tools: "tool_blocks (fold tracker_feed chunks new_tracker) = []"
  proof -
    obtain p b where p: "concat chunks = p @ b" "terminated p" "py_find [LF, LF] b = None"
      "fold tracker_feed chunks new_tracker = (fold observe (parse_sse_text p) new_tracker)\<lparr>tk_buf := b\<rparr>"
      using feed_chunks_observes [of chunks] by blast
    have "terminated (p @ b)" using ch(2) p(1) P(3,6) terminated_append [of ?m ?t] by simp
    then have "parse_sse_text p = parse_sse_text (?m @ ?t)" using terminated_rest [OF _ p(2,3)] p(1) ch(2) by simp
    then show ?thesis unfolding p(4) using P
      by (simp add: observe_def observe_message_start_def observe_block_start_def message_data_def text_start_def
          new_tracker_def tool_blocks_def started_block_def nonempty_str_def Let_def new_emitted_block_def)
  qed
  show ?thesis
    using proper tools ch(1) by (simp add: disciplined_def broken_env_def [THEN arg_cong [where f = ne_line_mode]]
        broken_env_def [THEN arg_cong [where f = ne_thinking]] broken_env_def [THEN arg_cong [where f = ne_upstream]] tools_settled_def)
qed



text \<open>
  C23: the tracker reads the stream and not its chunks.  However the text that went out was cut into
  chunks, the tracker has observed exactly the events of its longest part that ends after a blank
  line, once each and in order, and holds the rest, in which no frame ends.
\<close>

theorem tracker_reads_stream:
  "\<exists>p b. concat chunks = p @ b \<and> terminated p \<and> py_find [LF, LF] b = None \<and>
     fold tracker_feed chunks new_tracker = (fold observe (parse_sse_text p) new_tracker)\<lparr>tk_buf := b\<rparr>"
  using feed_chunks_observes [of chunks] by blast



end
