(* ===== verification/Py_Hash.thy ===== *)
theory Py_Hash
  imports Py_Json "HOL-Library.Word"
begin

text \<open>
  \<open>hashlib.sha1(...).hexdigest()\<close> on bytes, with 32-bit words that wrap.  Bytes are the characters of
  a string (the code hashes ASCII text only).
\<close>

unbundle bit_operations_syntax

type_synonym word32 = "32 word"
type_synonym chain = "word32 \<times> word32 \<times> word32 \<times> word32 \<times> word32"

definition byte_word :: "char \<Rightarrow> word32" where
  "byte_word c = of_nat (of_char c)"

definition word_bytes :: "word32 \<Rightarrow> char list" where
  "word_bytes w = map (\<lambda>k. char_of (unat (drop_bit k w AND 255))) [24, 16, 8, 0]"

definition length_bytes :: "nat \<Rightarrow> char list" where
  "length_bytes n = map (\<lambda>k. char_of (unat (drop_bit k (of_nat n :: 64 word) AND 255))) [56, 48, 40, 32, 24, 16, 8, 0]"

text \<open>One bit, then zeros up to 8 bytes short of a block, then the length in bits.\<close>

definition sha1_pad :: "string \<Rightarrow> string" where
  "sha1_pad m = m @ char_of (128 :: nat) # replicate (nat ((55 - int (length m)) mod 64)) (char_of (0 :: nat)) @
     length_bytes (8 * length m)"

fun big_words :: "string \<Rightarrow> word32 list" where
  "big_words (a # b # c # d # s) =
     (push_bit 24 (byte_word a) OR push_bit 16 (byte_word b) OR push_bit 8 (byte_word c) OR byte_word d) # big_words s"
| "big_words _ = []"

text \<open>The schedule is kept with its latest word first.\<close>

fun sha1_expand :: "nat \<Rightarrow> word32 list \<Rightarrow> word32 list" where
  "sha1_expand 0 ws = ws"
| "sha1_expand (Suc n) ws = sha1_expand n (word_rotl 1 (ws ! 2 XOR ws ! 7 XOR ws ! 13 XOR ws ! 15) # ws)"

definition sha1_schedule :: "word32 list \<Rightarrow> word32 list" where
  "sha1_schedule block = rev (sha1_expand 64 (rev block))"

definition sha1_fun :: "nat \<Rightarrow> word32 \<Rightarrow> word32 \<Rightarrow> word32 \<Rightarrow> word32" where
  "sha1_fun t b c d =
     (if t < 20 then (b AND c) OR (NOT b AND d)
      else if t < 40 then b XOR c XOR d
      else if t < 60 then (b AND c) OR (b AND d) OR (c AND d)
      else b XOR c XOR d)"

definition sha1_const :: "nat \<Rightarrow> word32" where
  "sha1_const t = (if t < 20 then 0x5A827999 else if t < 40 then 0x6ED9EBA1 else if t < 60 then 0x8F1BBCDC else 0xCA62C1D6)"

fun sha1_rounds :: "nat \<Rightarrow> word32 list \<Rightarrow> chain \<Rightarrow> chain" where
  "sha1_rounds t [] h = h"
| "sha1_rounds t (w # ws) (a, b, c, d, e) =
     sha1_rounds (Suc t) ws
       (word_rotl 5 a + sha1_fun t b c d + e + sha1_const t + w, a, word_rotl 30 b, c, d)"

definition sha1_block :: "word32 list \<Rightarrow> chain \<Rightarrow> chain" where
  "sha1_block block h =
     (case (h, sha1_rounds 0 (sha1_schedule block) h) of
        ((a, b, c, d, e), (a', b', c', d', e')) \<Rightarrow> (a + a', b + b', c + c', d + d', e + e'))"

definition sha1_start :: chain where
  "sha1_start = (0x67452301, 0xEFCDAB89, 0x98BADCFE, 0x10325476, 0xC3D2E1F0)"

function sha1_blocks :: "word32 list \<Rightarrow> chain \<Rightarrow> chain" where
  "sha1_blocks ws h = (if length ws < 16 then h else sha1_blocks (drop 16 ws) (sha1_block (take 16 ws) h))"
  by pat_completeness auto
termination by (relation "measure (\<lambda>(ws, h). length ws)") auto

declare sha1_blocks.simps [simp del]

definition sha1 :: "string \<Rightarrow> char list" where
  "sha1 m = (case sha1_blocks (big_words (sha1_pad m)) sha1_start of
     (a, b, c, d, e) \<Rightarrow> word_bytes a @ word_bytes b @ word_bytes c @ word_bytes d @ word_bytes e)"

definition hexdigest :: "char list \<Rightarrow> string" where
  "hexdigest bs = concat (map (\<lambda>b. hex2 (of_char b)) bs)"

definition sha1_hex :: "string \<Rightarrow> string" where
  "sha1_hex m = hexdigest (sha1 m)"

lemma sha1_length: "length (sha1 m) = 20"
  by (simp add: sha1_def word_bytes_def split: prod.split)

lemma hexdigest_length: "length (hexdigest bs) = 2 * length bs"
  by (induction bs) (simp_all add: hexdigest_def hex2_def)

lemma sha1_hex_length: "length (sha1_hex m) = 40"
  by (simp add: sha1_hex_def hexdigest_length sha1_length)

end
