(* ===== verification/Responses_Tools.thy ===== *)
theory Responses_Tools
  imports Py_Hash
begin

text \<open>
  Tools of the OpenAI Responses adapter (\<open>core/openai_responses/tools.py\<close>, with the identifiers of
  \<open>ids.py\<close> and the error of \<open>errors.py\<close>): conversion of tools and of the tool choice, the Anthropic
  name of a tool and the tool an Anthropic name stands for, arguments and inputs of calls.

  A request is a JSON object.  Generated identifiers take the hex text of one \<open>uuid4\<close>.
\<close>

section \<open>Errors and identifiers\<close>

text \<open>
  \<open>ResponsesConversionError\<close> with its message, a JSON text that does not parse (the message ends in
  the decoder's own words), and the \<open>TypeError\<close> of looking up a list or an object in a set.
\<close>

datatype conversion_error =
    ConversionError string
  | InvalidJson string
  | UnhashableType

type_synonym 'a conversion = "conversion_error + 'a"

definition type_name :: "json \<Rightarrow> string" where
  "type_name j = (case j of JNull \<Rightarrow> ''NoneType'' | JBool _ \<Rightarrow> ''bool'' | JInt _ \<Rightarrow> ''int'' | JFloat _ \<Rightarrow> ''float''
     | JStr _ \<Rightarrow> ''str'' | JArr _ \<Rightarrow> ''list'' | JObj _ \<Rightarrow> ''dict'')"

text \<open>\<open>value in {...}\<close> for a set of strings.\<close>

definition in_names :: "json \<Rightarrow> string list \<Rightarrow> bool conversion" where
  "in_names j names = (case j of JArr _ \<Rightarrow> Inl UnhashableType | JObj _ \<Rightarrow> Inl UnhashableType
     | JStr s \<Rightarrow> Inr (s \<in> set names) | _ \<Rightarrow> Inr False)"

definition new_response_id :: "string \<Rightarrow> string" where "new_response_id hex = ''resp_'' @ hex"
definition new_message_item_id :: "string \<Rightarrow> string" where "new_message_item_id hex = ''msg_'' @ hex"
definition new_reasoning_item_id :: "string \<Rightarrow> string" where "new_reasoning_item_id hex = ''rs_'' @ hex"
definition new_call_id :: "string \<Rightarrow> string" where "new_call_id hex = ''call_'' @ take 24 hex"

definition optional_str :: "json \<Rightarrow> string option" where
  "optional_str value = as_str value"

text \<open>\<open>optional_str\<close> under a walrus: the text if there is one and it is not empty.\<close>

definition nonempty_opt :: "string option \<Rightarrow> string option" where
  "nonempty_opt v = (case v of Some s \<Rightarrow> (if s = [] then None else Some s) | None \<Rightarrow> None)"

definition required_str :: "json \<Rightarrow> string \<Rightarrow> string conversion" where
  "required_str value field_name =
     (case nonempty_opt (as_str value) of Some s \<Rightarrow> Inr s
      | None \<Rightarrow> Inl (ConversionError (''Responses field '' @ field_name @ '' must be a non-empty string'')))"

definition call_id_from_item :: "string \<Rightarrow> jdict \<Rightarrow> string" where
  "call_id_from_item hex item =
     (case nonempty_opt (optional_str (jget item ''call_id'')) of Some v \<Rightarrow> v
      | None \<Rightarrow> (case nonempty_opt (optional_str (jget item ''id'')) of Some v \<Rightarrow> v | None \<Rightarrow> new_call_id hex))"

section \<open>Names\<close>

definition MAX_ANTHROPIC_TOOL_NAME_LEN :: nat where "MAX_ANTHROPIC_TOOL_NAME_LEN = 64"
definition NAMESPACE_TOOL_SEPARATOR :: string where "NAMESPACE_TOOL_SEPARATOR = ''__''"

definition valid_name_char :: "char \<Rightarrow> bool" where
  "valid_name_char c = (let n = of_char c :: nat in
     (48 \<le> n \<and> n \<le> 57) \<or> (65 \<le> n \<and> n \<le> 90) \<or> (97 \<le> n \<and> n \<le> 122) \<or> c = CHR ''_'' \<or> c = CHR ''-'')"

text \<open>\<open>re.sub("[^A-Za-z0-9_-]+", "_", value)\<close>: each run of invalid characters becomes one underscore.\<close>

fun sub_invalid :: "bool \<Rightarrow> string \<Rightarrow> string" where
  "sub_invalid in_run [] = []"
| "sub_invalid in_run (c # s) =
     (if valid_name_char c then c # sub_invalid False s
      else if in_run then sub_invalid True s else CHR ''_'' # sub_invalid True s)"

definition strip_char :: "char \<Rightarrow> string \<Rightarrow> string" where
  "strip_char c s = rev (dropWhile (\<lambda>x. x = c) (rev (dropWhile (\<lambda>x. x = c) s)))"

definition tool_name_part :: "string \<Rightarrow> string" where
  "tool_name_part value =
     (let normalized = strip_char (CHR ''_'') (sub_invalid False value)
      in if normalized = [] then ''tool'' else normalized)"

definition responses_tool_name_to_anthropic_name :: "string \<Rightarrow> string option \<Rightarrow> string" where
  "responses_tool_name_to_anthropic_name name namespace =
     (case nonempty_opt namespace of
        None \<Rightarrow> name
      | Some ns \<Rightarrow>
          (let combined = tool_name_part ns @ NAMESPACE_TOOL_SEPARATOR @ tool_name_part name
           in if length combined \<le> MAX_ANTHROPIC_TOOL_NAME_LEN then combined
              else (let digest = take 8 (sha1_hex combined);
                        prefix_len = MAX_ANTHROPIC_TOOL_NAME_LEN - length digest - 1
                    in take prefix_len combined @ ''_'' @ digest)))"

section \<open>The tool a name stands for\<close>

datatype tool_kind = FunctionTool | CustomTool

record tool_identity =
  ti_kind :: tool_kind
  ti_name :: string
  ti_namespace :: "string option"

definition function_source :: "jdict \<Rightarrow> jdict" where
  "function_source tool = (case as_obj (jget tool ''function'') of Some f \<Rightarrow> f | None \<Rightarrow> tool)"

definition custom_source :: "jdict \<Rightarrow> jdict" where
  "custom_source tool = (case as_obj (jget tool ''custom'') of Some c \<Rightarrow> c | None \<Rightarrow> tool)"

text \<open>One function or custom tool, alone or in a namespace: its identity if the name is its own.\<close>

definition match_tool :: "string option \<Rightarrow> string \<Rightarrow> jdict \<Rightarrow> tool_identity option" where
  "match_tool namespace anthropic_name tool =
     (let found = (\<lambda>kind source.
            case nonempty_opt (optional_str (jget source ''name'')) of
              Some name \<Rightarrow>
                (if responses_tool_name_to_anthropic_name name namespace = anthropic_name
                 then Some \<lparr>ti_kind = kind, ti_name = name, ti_namespace = namespace\<rparr> else None)
            | None \<Rightarrow> None)
      in if jget tool ''type'' = JStr ''function'' then found FunctionTool (function_source tool)
         else if jget tool ''type'' = JStr ''custom'' then found CustomTool (custom_source tool)
         else None)"

fun match_nested :: "string \<Rightarrow> string \<Rightarrow> json list \<Rightarrow> tool_identity option" where
  "match_nested namespace anthropic_name [] = None"
| "match_nested namespace anthropic_name (t # ts) =
     (case Option.bind (as_obj t) (match_tool (Some namespace) anthropic_name) of
        Some i \<Rightarrow> Some i | None \<Rightarrow> match_nested namespace anthropic_name ts)"

definition match_entry :: "string \<Rightarrow> jdict \<Rightarrow> tool_identity option" where
  "match_entry anthropic_name tool =
     (if jget tool ''type'' = JStr ''namespace''
      then (case (nonempty_opt (optional_str (jget tool ''name'')), as_list (jget tool ''tools'')) of
              (Some namespace, Some nested) \<Rightarrow> match_nested namespace anthropic_name nested
            | _ \<Rightarrow> None)
      else match_tool None anthropic_name tool)"

fun match_tools :: "string \<Rightarrow> json list \<Rightarrow> tool_identity option" where
  "match_tools anthropic_name [] = None"
| "match_tools anthropic_name (t # ts) =
     (case Option.bind (as_obj t) (match_entry anthropic_name) of
        Some i \<Rightarrow> Some i | None \<Rightarrow> match_tools anthropic_name ts)"

definition responses_tool_identity_from_anthropic_name :: "jdict \<Rightarrow> string \<Rightarrow> tool_identity" where
  "responses_tool_identity_from_anthropic_name request anthropic_name =
     (case Option.bind (as_list (jget request ''tools'')) (match_tools anthropic_name) of
        Some i \<Rightarrow> i
      | None \<Rightarrow> \<lparr>ti_kind = FunctionTool, ti_name = anthropic_name, ti_namespace = None\<rparr>)"

section \<open>Conversion of tools\<close>

text \<open>\<open>_json_dumps\<close>: a JSON value never raises \<open>TypeError\<close>.\<close>

definition convert_function_tool :: "jdict \<Rightarrow> string option \<Rightarrow> jdict conversion" where
  "convert_function_tool tool namespace =
     (let source = function_source tool
      in rbind (required_str (jget source ''name'') ''tool.name'') (\<lambda>name.
           let schema = (if jget source ''parameters'' = JNull
                         then JObj [(''type'', JStr ''object''), (''properties'', JObj [])]
                         else jget source ''parameters'')
           in if as_obj schema = None
              then Inl (ConversionError (''Responses tool '' @ str_repr name @ '' parameters must be an object''))
              else Inr ([(''name'', JStr (responses_tool_name_to_anthropic_name name namespace)), (''input_schema'', schema)] @
                     (case nonempty_opt (optional_str (jget source ''description'')) of
                        Some d \<Rightarrow> [(''description'', JStr d)] | None \<Rightarrow> []))))"

definition format_description :: "jdict \<Rightarrow> string" where
  "format_description format_value =
     (let field = (\<lambda>k. nonempty_opt (optional_str (jget format_value k)))
      in case field ''type'' of
           None \<Rightarrow> ''Custom tool input format: '' @ json_dumps (JObj format_value)
         | Some format_type \<Rightarrow>
             if format_type = ''text'' then ''Custom tool input format: unconstrained text.''
             else if format_type = ''grammar'' then
               (let guidance = ''Custom tool input format: grammar'' @
                      (case field ''syntax'' of Some s \<Rightarrow> '' ('' @ s @ '')'' | None \<Rightarrow> [])
                in case field ''definition'' of Some d \<Rightarrow> guidance @ '': '' @ d | None \<Rightarrow> guidance @ ''.'')
             else ''Custom tool input format: '' @ format_type @ ''.'')"

definition custom_tool_description :: "jdict \<Rightarrow> string option" where
  "custom_tool_description source =
     (let parts = (case nonempty_opt (optional_str (jget source ''description'')) of Some d \<Rightarrow> [d] | None \<Rightarrow> []) @
                  (case as_obj (jget source ''format'') of Some f \<Rightarrow> [format_description f] | None \<Rightarrow> [])
      in if parts = [] then None else Some (py_join [LF, LF] parts))"

definition convert_custom_tool :: "jdict \<Rightarrow> string option \<Rightarrow> jdict conversion" where
  "convert_custom_tool tool namespace =
     (let source = custom_source tool
      in rbind (required_str (jget source ''name'') ''tool.name'') (\<lambda>name.
           Inr ([(''name'', JStr (responses_tool_name_to_anthropic_name name namespace)),
                 (''input_schema'', JObj [(''type'', JStr ''object''),
                    (''properties'', JObj [(''input'', JObj [(''type'', JStr ''string''),
                       (''description'', JStr ''Free-form input for the custom tool.'')])]),
                    (''required'', JArr [JStr ''input''])])] @
                (case nonempty_opt (custom_tool_description source) of
                   Some d \<Rightarrow> [(''description'', JStr d)] | None \<Rightarrow> []))))"

definition convert_nested_tool :: "string \<Rightarrow> json \<Rightarrow> jdict conversion" where
  "convert_nested_tool namespace nested =
     (case as_obj nested of
        None \<Rightarrow> Inl (ConversionError (''Unsupported Responses namespace tool: '' @ type_name nested))
      | Some tool \<Rightarrow>
          if jget tool ''type'' = JStr ''function'' then convert_function_tool tool (Some namespace)
          else if jget tool ''type'' = JStr ''custom'' then convert_custom_tool tool (Some namespace)
          else Inl (ConversionError (''Unsupported Responses namespace tool type: '' @ py_repr (jget tool ''type''))))"

definition convert_namespace_tool :: "jdict \<Rightarrow> jdict list conversion" where
  "convert_namespace_tool tool =
     rbind (required_str (jget tool ''name'') ''tool.namespace.name'') (\<lambda>namespace.
       case as_list (jget tool ''tools'') of
         None \<Rightarrow> Inl (ConversionError (''Responses namespace tool '' @ str_repr namespace @ '' tools must be a list''))
       | Some nested \<Rightarrow> rmap (convert_nested_tool namespace) nested)"

definition UNSUPPORTED_PASSIVE_TOOL_TYPES :: "string list" where
  "UNSUPPORTED_PASSIVE_TOOL_TYPES = [''web_search'', ''image_generation'', ''tool_search'']"

definition convert_tool :: "json \<Rightarrow> jdict list conversion" where
  "convert_tool value =
     (case as_obj value of
        None \<Rightarrow> Inl (ConversionError (''Unsupported Responses tool: '' @ type_name value))
      | Some tool \<Rightarrow>
          if jget tool ''type'' = JStr ''function'' then rbind (convert_function_tool tool None) (\<lambda>t. Inr [t])
          else if jget tool ''type'' = JStr ''custom'' then rbind (convert_custom_tool tool None) (\<lambda>t. Inr [t])
          else if jget tool ''type'' = JStr ''namespace'' then convert_namespace_tool tool
          else rbind (in_names (jget tool ''type'') UNSUPPORTED_PASSIVE_TOOL_TYPES) (\<lambda>skipped.
            if skipped then Inr []
            else Inl (ConversionError (''Unsupported Responses tool type: '' @ py_repr (jget tool ''type'')))))"

definition convert_tools :: "json \<Rightarrow> jdict list option conversion" where
  "convert_tools value =
     (if value = JNull then Inr None
      else case as_list value of
        None \<Rightarrow> Inl (ConversionError ''Responses tools must be a list'')
      | Some tools \<Rightarrow> rbind (rmap convert_tool tools) (\<lambda>lists. Inr (Some (concat lists))))"

definition tool_choice_named :: "string \<Rightarrow> string option \<Rightarrow> jdict" where
  "tool_choice_named name namespace =
     [(''type'', JStr ''tool''), (''name'', JStr (responses_tool_name_to_anthropic_name name namespace))]"

definition convert_tool_choice :: "json \<Rightarrow> jdict option conversion" where
  "convert_tool_choice value =
     (let unsupported = Inl (ConversionError (''Unsupported Responses tool_choice: '' @ py_repr value))
      in if value = JNull \<or> value = JStr ''auto'' \<or> value = JStr ''none'' then Inr None
         else if value = JStr ''required'' then Inr (Some [(''type'', JStr ''any'')])
         else case as_obj value of
           None \<Rightarrow> unsupported
         | Some choice \<Rightarrow>
             if jget choice ''type'' = JStr ''function'' then
               rbind (required_str (jget choice ''name'') ''tool_choice.name'') (\<lambda>name.
                 Inr (Some (tool_choice_named name (optional_str (jget choice ''namespace'')))))
             else if jget choice ''type'' = JStr ''custom'' then
               (let source = custom_source choice;
                    namespace = (case nonempty_opt (optional_str (jget source ''namespace'')) of
                                   Some n \<Rightarrow> Some n | None \<Rightarrow> optional_str (jget choice ''namespace''))
                in rbind (required_str (jget source ''name'') ''tool_choice.name'') (\<lambda>name.
                     Inr (Some (tool_choice_named name namespace))))
             else if jget choice ''type'' = JStr ''tool'' then
               (case nonempty_opt (optional_str (jget choice ''name'')) of
                  Some name \<Rightarrow> Inr (Some (tool_choice_named name (optional_str (jget choice ''namespace''))))
                | None \<Rightarrow> Inr (Some choice))
             else rbind (in_names (jget choice ''type'') [''auto'', ''any'']) (\<lambda>kept.
               if kept then Inr (Some choice) else unsupported))"

section \<open>Arguments and inputs\<close>

definition parse_arguments :: "json \<Rightarrow> jdict conversion" where
  "parse_arguments value =
     (if value = JNull \<or> value = JStr [] then Inr []
      else case value of
        JObj d \<Rightarrow> Inr d
      | JStr s \<Rightarrow>
          (case json_loads s of
             None \<Rightarrow> Inl (InvalidJson s)
           | Some (JObj d) \<Rightarrow> Inr d
           | Some _ \<Rightarrow> Inl (ConversionError ''Responses function_call arguments must decode to an object''))
      | _ \<Rightarrow> Inl (ConversionError ''Responses function_call arguments must be JSON''))"

definition custom_tool_input_text :: "json \<Rightarrow> string" where
  "custom_tool_input_text value = (case value of JNull \<Rightarrow> [] | JStr s \<Rightarrow> s | _ \<Rightarrow> json_dumps value)"

definition custom_tool_input_to_anthropic :: "json \<Rightarrow> jdict" where
  "custom_tool_input_to_anthropic value = [(''input'', JStr (custom_tool_input_text value))]"

definition custom_tool_input_text_from_anthropic :: "json \<Rightarrow> string" where
  "custom_tool_input_text_from_anthropic value =
     (case as_obj value of
        Some d \<Rightarrow>
          (case jget d ''input'' of
             JStr s \<Rightarrow> s
           | JNull \<Rightarrow> (if d = [] then [] else json_dumps value)
           | raw_input \<Rightarrow> custom_tool_input_text raw_input)
      | None \<Rightarrow> custom_tool_input_text value)"

definition custom_tool_input_text_from_arguments :: "string \<Rightarrow> string" where
  "custom_tool_input_text_from_arguments arguments =
     (if arguments = [] then []
      else case json_loads arguments of
        None \<Rightarrow> arguments
      | Some parsed \<Rightarrow> custom_tool_input_text_from_anthropic parsed)"

end
