(* ===== verification/Responses_Stream.thy ===== *)
theory Responses_Stream
  imports Responses_Tools Sse_Text
begin

text \<open>
  The stream of the OpenAI Responses adapter (\<open>core/openai_responses/stream_state.py\<close>,
  \<open>stream.py\<close>, \<open>anthropic_sse.py\<close>, \<open>events.py\<close>, \<open>items.py\<close>): Anthropic events are read from text chunks
  and assembled into Responses events.

  An event is a \<open>frame\<close>, its text \<open>format_response_sse_event\<close>.  A block object the code keeps in
  \<open>_active_blocks\<close> and mutates is named by its index there.  The request, the creation time and the
  generated hex texts are in \<open>responses_env\<close>.
\<close>

record responses_env =
  re_request :: jdict
  re_created_at :: int
  re_uuid :: "nat \<Rightarrow> string"

section \<open>Items\<close>

definition message_item :: "string \<Rightarrow> string \<Rightarrow> string \<Rightarrow> jdict" where
  "message_item item_id txt status =
     [(''id'', JStr item_id), (''type'', JStr ''message''), (''status'', JStr status), (''role'', JStr ''assistant''),
      (''content'', JArr [JObj [(''type'', JStr ''output_text''), (''text'', JStr txt), (''annotations'', JArr [])]])]"

definition reasoning_item :: "string \<Rightarrow> string \<Rightarrow> string \<Rightarrow> jdict" where
  "reasoning_item item_id txt status =
     [(''id'', JStr item_id), (''type'', JStr ''reasoning''), (''status'', JStr status), (''summary'', JArr []),
      (''content'', JArr [JObj [(''type'', JStr ''reasoning_text''), (''text'', JStr txt)]])]"

definition encrypted_reasoning_item :: "string \<Rightarrow> string \<Rightarrow> string \<Rightarrow> jdict" where
  "encrypted_reasoning_item item_id encrypted_content status =
     [(''id'', JStr item_id), (''type'', JStr ''reasoning''), (''status'', JStr status), (''summary'', JArr []),
      (''encrypted_content'', JStr encrypted_content)]"

section \<open>State\<close>

datatype block_kind =
    TextBlock
  | ReasoningBlock (encrypted: "string option")
  | ToolBlock (call_id: string) (identity: tool_identity)

text \<open>The three block classes share their index, output index, item id and list of parts.\<close>

record active_block =
  ab_kind :: block_kind
  ab_output :: nat
  ab_item_id :: string
  ab_parts :: "string list"

definition ab_text :: "active_block \<Rightarrow> string" where
  "ab_text b = concat (ab_parts b)"

definition is_text_block :: "active_block \<Rightarrow> bool" where
  "is_text_block b = (ab_kind b = TextBlock)"

definition is_reasoning_block :: "active_block \<Rightarrow> bool" where
  "is_reasoning_block b = (case ab_kind b of ReasoningBlock _ \<Rightarrow> True | _ \<Rightarrow> False)"

definition is_tool_block :: "active_block \<Rightarrow> bool" where
  "is_tool_block b = (case ab_kind b of ToolBlock _ _ \<Rightarrow> True | _ \<Rightarrow> False)"

record responses_state =
  rs_slots :: "jdict option list"
  rs_active :: "(int, active_block) dict"
  rs_fallback :: int
  rs_input :: "json option"
  rs_output :: "json option"
  rs_started :: bool
  rs_terminal :: bool
  rs_final :: "jdict option"
  rs_uuids :: nat

text \<open>The first generated text names the response.\<close>

definition new_assembler :: responses_state where
  "new_assembler = \<lparr>rs_slots = [], rs_active = [], rs_fallback = -1, rs_input = None, rs_output = None,
     rs_started = False, rs_terminal = False, rs_final = None, rs_uuids = 1\<rparr>"

type_synonym responses_gen = "(responses_state, frame, py_error) gen"

definition response_event :: "string \<Rightarrow> jdict \<Rightarrow> frame" where
  "response_event event_type d = mk_frame event_type ((''type'', JStr event_type) # d)"

definition format_response_sse_event :: "(jdict \<Rightarrow> string) \<Rightarrow> frame \<Rightarrow> string" where
  "format_response_sse_event orjson_dumps e =
     ''event: '' @ ev_name e @ [LF] @ ''data: '' @ orjson_dumps (ev_data e) @ [LF, LF]"

section \<open>Values\<close>

definition string_value :: "json \<Rightarrow> string" where
  "string_value value = (case value of JNull \<Rightarrow> [] | _ \<Rightarrow> py_str value)"

definition data_index :: "jdict \<Rightarrow> int option" where
  "data_index d = as_int (jget d ''index'')"

definition reasoning_output_item :: "active_block \<Rightarrow> string \<Rightarrow> jdict" where
  "reasoning_output_item b status =
     (case ab_kind b of
        ReasoningBlock (Some e) \<Rightarrow> encrypted_reasoning_item (ab_item_id b) e status
      | _ \<Rightarrow> reasoning_item (ab_item_id b) (ab_text b) status)"

definition openai_error_from_anthropic_error :: "jdict \<Rightarrow> jdict" where
  "openai_error_from_anthropic_error d =
     (let error = (case as_obj (jget d ''error'') of Some e \<Rightarrow> e
                   | None \<Rightarrow> [(''type'', JStr ''api_error''), (''message'', JStr (py_str (JObj d)))])
      in [(''message'', JStr (py_str (jget_default error ''message'' (JStr [])))),
          (''type'', JStr (py_str (jget_default error ''type'' (JStr ''api_error'')))),
          (''param'', JNull), (''code'', JNull)])"

definition tool_item :: "string \<Rightarrow> string \<Rightarrow> tool_identity \<Rightarrow> string \<Rightarrow> string \<Rightarrow> string \<Rightarrow> jdict" where
  "tool_item item_id cid who status arguments input_text =
     (case ti_kind who of
        CustomTool \<Rightarrow> [(''id'', JStr item_id), (''type'', JStr ''custom_tool_call''), (''status'', JStr status),
          (''call_id'', JStr cid), (''name'', JStr (ti_name who)), (''input'', JStr input_text)]
      | FunctionTool \<Rightarrow> [(''id'', JStr item_id), (''type'', JStr ''function_call''), (''status'', JStr status),
          (''call_id'', JStr cid), (''name'', JStr (ti_name who)), (''arguments'', JStr arguments)]) @
     (case nonempty_opt (ti_namespace who) of Some n \<Rightarrow> [(''namespace'', JStr n)] | None \<Rightarrow> [])"

section \<open>Output slots and the response\<close>

definition reserve_output_slot :: "responses_state \<Rightarrow> nat \<times> responses_state" where
  "reserve_output_slot s = (length (rs_slots s), s\<lparr>rs_slots := rs_slots s @ [None]\<rparr>)"

definition commit_output :: "nat \<Rightarrow> jdict \<Rightarrow> responses_state \<Rightarrow> responses_state" where
  "commit_output output_index item s =
     s\<lparr>rs_slots := (rs_slots s @ replicate (Suc output_index - length (rs_slots s)) None)[output_index := Some item]\<rparr>"

definition responses_output :: "responses_state \<Rightarrow> jdict list" where
  "responses_output s = List.map_filter (\<lambda>x. x) (rs_slots s)"

definition int_or_zero :: "json option \<Rightarrow> json" where
  "int_or_zero v = (case v of Some j \<Rightarrow> (if truthy j then j else JInt 0) | None \<Rightarrow> JInt 0)"

definition responses_usage :: "responses_state \<Rightarrow> json" where
  "responses_usage s =
     (if rs_input s = None \<and> rs_output s = None then JNull
      else (let i = int_or_zero (rs_input s); ou = int_or_zero (rs_output s)
            in JObj [(''input_tokens'', i), (''output_tokens'', ou),
                     (''total_tokens'', JInt (the (as_int i) + the (as_int ou)))]))"

definition response_payload :: "responses_env \<Rightarrow> string \<Rightarrow> json \<Rightarrow> responses_state \<Rightarrow> jdict" where
  "response_payload e status error s =
     (let request = re_request e
      in [(''id'', JStr (new_response_id (re_uuid e 0))), (''object'', JStr ''response''),
          (''created_at'', JInt (re_created_at e)), (''status'', JStr status),
          (''model'', JStr (py_str (jget_default request ''model'' (JStr [])))),
          (''output'', JArr (map JObj (responses_output s))),
          (''parallel_tool_calls'', JBool (truthy (jget_default request ''parallel_tool_calls'' (JBool True)))),
          (''tool_choice'', jget_default request ''tool_choice'' (JStr ''auto'')),
          (''temperature'', jget request ''temperature''), (''top_p'', jget request ''top_p''),
          (''max_output_tokens'', jget request ''max_output_tokens''),
          (''usage'', responses_usage s), (''error'', error)])"

section \<open>Completing a block\<close>

definition output_item_event :: "string \<Rightarrow> nat \<Rightarrow> jdict \<Rightarrow> frame" where
  "output_item_event event_type output_index item =
     response_event event_type [(''output_index'', JInt (int output_index)), (''item'', JObj item)]"

definition item_event :: "string \<Rightarrow> active_block \<Rightarrow> jdict \<Rightarrow> frame" where
  "item_event event_type b d =
     response_event event_type ([(''item_id'', JStr (ab_item_id b)), (''output_index'', JInt (int (ab_output b)))] @ d)"

definition output_part :: "string \<Rightarrow> json" where
  "output_part txt = JObj [(''type'', JStr ''output_text''), (''text'', JStr txt), (''annotations'', JArr [])]"

definition commit_events :: "frame list \<Rightarrow> active_block \<Rightarrow> jdict \<Rightarrow> responses_gen" where
  "commit_events before b item s =
     (before @ [output_item_event ''response.output_item.done'' (ab_output b) item], None, commit_output (ab_output b) item s)"

definition complete_text_block :: "active_block \<Rightarrow> responses_gen" where
  "complete_text_block b =
     commit_events
       [item_event ''response.output_text.done'' b [(''content_index'', JInt 0), (''text'', JStr (ab_text b))],
        item_event ''response.content_part.done'' b [(''content_index'', JInt 0), (''part'', output_part (ab_text b))]]
       b (message_item (ab_item_id b) (ab_text b) ''completed'')"

definition complete_reasoning_block :: "active_block \<Rightarrow> responses_gen" where
  "complete_reasoning_block b =
     commit_events
       (if ab_text b = [] then []
        else [item_event ''response.reasoning_text.done'' b [(''content_index'', JInt 0), (''text'', JStr (ab_text b))]])
       b (reasoning_output_item b ''completed'')"

definition complete_custom_tool_block :: "string \<Rightarrow> tool_identity \<Rightarrow> active_block \<Rightarrow> responses_gen" where
  "complete_custom_tool_block cid who b =
     (let input_text = custom_tool_input_text_from_arguments (ab_text b)
      in commit_events
           ((if input_text = [] then []
             else [item_event ''response.custom_tool_call_input.delta'' b [(''delta'', JStr input_text)]]) @
            [item_event ''response.custom_tool_call_input.done'' b [(''input'', JStr input_text)]])
           b (tool_item (ab_item_id b) cid who ''completed'' [] input_text))"

definition complete_tool_block :: "string \<Rightarrow> tool_identity \<Rightarrow> active_block \<Rightarrow> responses_gen" where
  "complete_tool_block cid who b =
     (case ti_kind who of
        CustomTool \<Rightarrow> complete_custom_tool_block cid who b
      | FunctionTool \<Rightarrow>
          (let arguments = (if ab_text b = [] then ''{}'' else ab_text b)
           in commit_events
                ((if arguments = [] then []
                  else [item_event ''response.function_call_arguments.delta'' b [(''delta'', JStr arguments)]]) @
                 [item_event ''response.function_call_arguments.done'' b [(''arguments'', JStr arguments)]])
                b (tool_item (ab_item_id b) cid who ''completed'' arguments [])))"

definition complete_active_block :: "active_block \<Rightarrow> responses_gen" where
  "complete_active_block b =
     (case ab_kind b of
        TextBlock \<Rightarrow> complete_text_block b
      | ReasoningBlock _ \<Rightarrow> complete_reasoning_block b
      | ToolBlock cid who \<Rightarrow> complete_tool_block cid who b)"

text \<open>\<open>_active_blocks.pop(index, None)\<close>, then \<open>_complete_block\<close>.\<close>

definition complete_existing_block :: "int \<Rightarrow> responses_gen" where
  "complete_existing_block index =
     gread (\<lambda>s. case map_of (rs_active s) index of
        None \<Rightarrow> gskip
      | Some b \<Rightarrow> gseq (gdo (\<lambda>s. s\<lparr>rs_active := ddel index (rs_active s)\<rparr>)) (complete_active_block b))"

definition flush_active_blocks :: responses_gen where
  "flush_active_blocks =
     gread (\<lambda>s. gseq (gdo (\<lambda>s. s\<lparr>rs_active := []\<rparr>))
       (gfor complete_active_block (sort_key ab_output (dvalues (rs_active s)))))"

section \<open>Starting a block\<close>

definition take_uuid :: "(nat \<Rightarrow> string) \<Rightarrow> responses_state \<Rightarrow> string \<times> responses_state" where
  "take_uuid uuids s = (uuids (rs_uuids s), s\<lparr>rs_uuids := Suc (rs_uuids s)\<rparr>)"

definition open_block :: "int \<Rightarrow> block_kind \<Rightarrow> string \<Rightarrow> string list \<Rightarrow> responses_state \<Rightarrow> active_block \<times> responses_state" where
  "open_block index kind item_id parts s =
     (case reserve_output_slot s of
        (output_index, s) \<Rightarrow>
          (let b = \<lparr>ab_kind = kind, ab_output = output_index, ab_item_id = item_id, ab_parts = parts\<rparr>
           in (b, s\<lparr>rs_active := dset index b (rs_active s)\<rparr>)))"

definition text_added :: "active_block \<Rightarrow> frame list" where
  "text_added b =
     [output_item_event ''response.output_item.added'' (ab_output b)
        [(''id'', JStr (ab_item_id b)), (''type'', JStr ''message''), (''status'', JStr ''in_progress''),
         (''role'', JStr ''assistant''), (''content'', JArr [])],
      item_event ''response.content_part.added'' b [(''content_index'', JInt 0), (''part'', output_part [])]]"

definition start_responses_text :: "responses_env \<Rightarrow> int \<Rightarrow> responses_gen" where
  "start_responses_text e index =
     gseq (complete_existing_block index)
       (\<lambda>s. case take_uuid (re_uuid e) s of
          (hex, s) \<Rightarrow>
            (case open_block index TextBlock (new_message_item_id hex) [] s of (b, s) \<Rightarrow> (text_added b, None, s)))"

definition start_reasoning_block :: "responses_env \<Rightarrow> int \<Rightarrow> string option \<Rightarrow> responses_gen" where
  "start_reasoning_block e index encrypted_content =
     gseq (complete_existing_block index)
       (\<lambda>s. case take_uuid (re_uuid e) s of
          (hex, s) \<Rightarrow>
            (case open_block index (ReasoningBlock encrypted_content) (new_reasoning_item_id hex) [] s of
               (b, s) \<Rightarrow>
                 ([output_item_event ''response.output_item.added'' (ab_output b) (reasoning_output_item b ''in_progress'')],
                  None, s)))"

definition initial_parts :: "tool_kind \<Rightarrow> json \<Rightarrow> string list" where
  "initial_parts kind initial_input =
     (if (kind = CustomTool \<and> initial_input \<notin> {JNull, JObj [], JStr []}) \<or>
         (as_obj initial_input \<noteq> None \<and> initial_input \<noteq> JObj [])
      then [json_dumps initial_input] else [])"

text \<open>A call id is generated, after the item id, only if the block has none.\<close>

definition tool_call_id :: "responses_env \<Rightarrow> jdict \<Rightarrow> responses_state \<Rightarrow> string \<times> responses_state" where
  "tool_call_id e block s =
     (let given = string_value (jget block ''id'')
      in if given \<noteq> [] then (given, s)
         else (case take_uuid (re_uuid e) s of (hex, s) \<Rightarrow> (new_call_id hex, s)))"

definition start_responses_tool :: "responses_env \<Rightarrow> int \<Rightarrow> jdict \<Rightarrow> responses_gen" where
  "start_responses_tool e index block =
     gseq (complete_existing_block index)
       (\<lambda>s. let who = responses_tool_identity_from_anthropic_name (re_request e) (string_value (jget block ''name''))
            in case take_uuid (re_uuid e) s of
              (hex, s) \<Rightarrow>
                (let item_id = (if ti_kind who = CustomTool then ''ctc'' else ''fc'') @ ''_'' @ take 24 hex
                 in case tool_call_id e block s of
                      (cid, s) \<Rightarrow>
                        (case open_block index (ToolBlock cid who) item_id (initial_parts (ti_kind who) (jget block ''input'')) s of
                           (b, s) \<Rightarrow>
                             ([output_item_event ''response.output_item.added'' (ab_output b)
                                 (tool_item item_id cid who ''in_progress'' [] [])], None, s))))"

section \<open>Deltas\<close>

definition append_part :: "int \<Rightarrow> string \<Rightarrow> responses_state \<Rightarrow> responses_state" where
  "append_part index p s =
     (case map_of (rs_active s) index of
        Some b \<Rightarrow> s\<lparr>rs_active := dset index (b\<lparr>ab_parts := ab_parts b @ [p]\<rparr>) (rs_active s)\<rparr>
      | None \<Rightarrow> s)"

definition emit_part :: "string \<Rightarrow> int \<Rightarrow> string \<Rightarrow> responses_gen" where
  "emit_part event_type index txt =
     gwhen (txt \<noteq> [])
       (\<lambda>s. case map_of (rs_active s) index of
          Some b \<Rightarrow> ([item_event event_type b [(''content_index'', JInt 0), (''delta'', JStr txt)]], None, append_part index txt s)
        | None \<Rightarrow> ([], None, s))"

definition emit_response_text :: "int \<Rightarrow> string \<Rightarrow> responses_gen" where
  "emit_response_text index txt = emit_part ''response.output_text.delta'' index txt"

definition emit_response_reasoning :: "int \<Rightarrow> string \<Rightarrow> responses_gen" where
  "emit_response_reasoning index txt = emit_part ''response.reasoning_text.delta'' index txt"

section \<open>The Anthropic events\<close>

definition safe_index :: "int option \<Rightarrow> responses_state \<Rightarrow> int \<times> responses_state" where
  "safe_index index s =
     (case index of Some i \<Rightarrow> (i, s) | None \<Rightarrow> (rs_fallback s, s\<lparr>rs_fallback := rs_fallback s - 1\<rparr>))"

definition with_safe_index :: "int option \<Rightarrow> (int \<Rightarrow> responses_gen) \<Rightarrow> responses_gen" where
  "with_safe_index index g s = (case safe_index index s of (i, s) \<Rightarrow> g i s)"

definition with_index :: "int option \<Rightarrow> (int \<Rightarrow> responses_gen) \<Rightarrow> responses_gen" where
  "with_index index g = (case index of Some i \<Rightarrow> g i | None \<Rightarrow> gskip)"

definition handle_content_block_start :: "responses_env \<Rightarrow> jdict \<Rightarrow> responses_gen" where
  "handle_content_block_start e d =
     (case as_obj (jget d ''content_block'') of
        None \<Rightarrow> gskip
      | Some block \<Rightarrow>
          (let block_type = jget block ''type''; index = data_index d
           in if block_type = JStr ''text'' then
                with_safe_index index (\<lambda>i. gseq (start_responses_text e i) (emit_response_text i (string_value (jget block ''text''))))
              else if block_type = JStr ''thinking'' then
                with_index index (\<lambda>i. gseq (start_reasoning_block e i None)
                  (emit_response_reasoning i (string_value (jget block ''thinking''))))
              else if block_type = JStr ''redacted_thinking'' then
                with_index index (\<lambda>i. start_reasoning_block e i (Some (string_value (jget block ''data''))))
              else if block_type = JStr ''tool_use'' then with_index index (\<lambda>i. start_responses_tool e i block)
              else gskip))"

definition active_is :: "(active_block \<Rightarrow> bool) \<Rightarrow> int \<Rightarrow> responses_state \<Rightarrow> bool" where
  "active_is p index s = (case map_of (rs_active s) index of Some b \<Rightarrow> p b | None \<Rightarrow> False)"

definition handle_content_block_delta :: "responses_env \<Rightarrow> jdict \<Rightarrow> responses_gen" where
  "handle_content_block_delta e d =
     (case as_obj (jget d ''delta'') of
        None \<Rightarrow> gskip
      | Some delta \<Rightarrow>
          (let delta_type = jget delta ''type''; index = data_index d
           in if delta_type = JStr ''text_delta'' then
                with_safe_index index (\<lambda>i.
                  gseq (gread (\<lambda>s. gwhen (\<not> active_is is_text_block i s) (start_responses_text e i)))
                    (emit_response_text i (string_value (jget delta ''text''))))
              else if delta_type = JStr ''thinking_delta'' then
                with_index index (\<lambda>i.
                  gseq (gread (\<lambda>s. gwhen (\<not> active_is is_reasoning_block i s) (start_reasoning_block e i None)))
                    (emit_response_reasoning i (string_value (jget delta ''thinking''))))
              else if delta_type = JStr ''input_json_delta'' then
                with_index index (\<lambda>i. gread (\<lambda>s. gwhen (active_is is_tool_block i s)
                  (gdo (append_part i (string_value (jget delta ''partial_json''))))))
              else gskip))"

definition handle_content_block_stop :: "jdict \<Rightarrow> responses_gen" where
  "handle_content_block_stop d = with_index (data_index d) complete_existing_block"

definition handle_message_delta :: "jdict \<Rightarrow> responses_state \<Rightarrow> responses_state" where
  "handle_message_delta d s =
     (case as_obj (jget d ''usage'') of
        None \<Rightarrow> s
      | Some usage \<Rightarrow>
          (let s = (if as_int (jget usage ''input_tokens'') \<noteq> None then s\<lparr>rs_input := Some (jget usage ''input_tokens'')\<rparr> else s)
           in if as_int (jget usage ''output_tokens'') \<noteq> None then s\<lparr>rs_output := Some (jget usage ''output_tokens'')\<rparr> else s))"

definition end_response :: "responses_env \<Rightarrow> string \<Rightarrow> string \<Rightarrow> json \<Rightarrow> responses_gen" where
  "end_response e event_type status error =
     gseq flush_active_blocks
       (\<lambda>s. let final = response_payload e status error s
            in ([response_event event_type [(''response'', JObj final)]], None, s\<lparr>rs_final := Some final, rs_terminal := True\<rparr>))"

definition complete_response :: "responses_env \<Rightarrow> responses_gen" where
  "complete_response e = end_response e ''response.completed'' ''completed'' JNull"

definition fail_response :: "responses_env \<Rightarrow> jdict \<Rightarrow> responses_gen" where
  "fail_response e d =
     end_response e ''response.failed'' ''failed'' (JObj (openai_error_from_anthropic_error d))"

definition ensure_started :: "responses_env \<Rightarrow> responses_gen" where
  "ensure_started e s =
     (if rs_started s then ([], None, s)
      else (let s = s\<lparr>rs_started := True\<rparr>
            in ([response_event ''response.created'' [(''response'', JObj (response_payload e ''in_progress'' JNull s))]], None, s)))"

definition process_anthropic_event :: "responses_env \<Rightarrow> 'a frame_scheme \<Rightarrow> responses_gen" where
  "process_anthropic_event e event =
     gread (\<lambda>s. gwhen (\<not> rs_terminal s)
       (gseq (ensure_started e)
         (if ev_name event = ''content_block_start'' then handle_content_block_start e (ev_data event)
          else if ev_name event = ''content_block_delta'' then handle_content_block_delta e (ev_data event)
          else if ev_name event = ''content_block_stop'' then handle_content_block_stop (ev_data event)
          else if ev_name event = ''message_delta'' then gdo (handle_message_delta (ev_data event))
          else if ev_name event = ''message_stop'' then complete_response e
          else if ev_name event = ''error'' then fail_response e (ev_data event)
          else gskip)))"

definition finish_if_needed :: "responses_env \<Rightarrow> responses_gen" where
  "finish_if_needed e = gread (\<lambda>s. gwhen (\<not> rs_terminal s) (gseq (ensure_started e) (complete_response e)))"

section \<open>The stream\<close>

text \<open>\<open>iter_responses_sse_from_anthropic\<close> returns at the first event that ends the response.\<close>

fun responses_events :: "responses_env \<Rightarrow> 'a frame_scheme list \<Rightarrow> responses_state \<Rightarrow> frame list" where
  "responses_events e [] s = yields (finish_if_needed e) s"
| "responses_events e (ev # evs) s =
     (case process_anthropic_event e ev s of
        (out, _, s) \<Rightarrow> out @ (if rs_terminal s then [] else responses_events e evs s))"

definition sse_field :: "string \<Rightarrow> string" where
  "sse_field line = (case dropWhile (\<lambda>c. c \<noteq> CHR '':'') line of [] \<Rightarrow> [] | _ # r \<Rightarrow> r)"

fun parse_event_lines :: "string list \<Rightarrow> string \<times> string list \<Rightarrow> string \<times> string list" where
  "parse_event_lines [] r = r"
| "parse_event_lines (line # ls) (event_type, data_parts) =
     (let stripped = rev (dropWhile (\<lambda>c. c = CR) (rev line))
      in parse_event_lines ls
           (if py_startswith ''event:'' stripped then (py_strip (sse_field stripped), data_parts)
            else if py_startswith ''data:'' stripped then (event_type, data_parts @ [py_strip (sse_field stripped)])
            else (event_type, data_parts)))"

definition event_payload :: "string \<Rightarrow> jdict" where
  "event_payload data_text =
     (if data_text = [] then []
      else case json_loads data_text of
        None \<Rightarrow> [(''raw'', JStr data_text)]
      | Some (JObj d) \<Rightarrow> d
      | Some j \<Rightarrow> [(''value'', j)])"

definition parse_sse_event :: "string \<Rightarrow> frame option" where
  "parse_sse_event raw =
     (case parse_event_lines (py_splitlines raw) ([], []) of
        (event_type, data_parts) \<Rightarrow>
          if event_type = [] \<and> data_parts = [] then None
          else (let data_text = py_join [LF] data_parts
                in if data_text = ''[DONE]'' then None else Some (mk_frame event_type (event_payload data_text))))"

text \<open>\<open>while "\n\n" in buffer\<close>: each pass shortens the buffer.\<close>

function split_buffer :: "string \<Rightarrow> frame list \<times> string" where
  "split_buffer buffer =
     (case py_find [LF, LF] buffer of
        None \<Rightarrow> ([], buffer)
      | Some i \<Rightarrow>
          (case split_buffer (drop (i + 2) buffer) of
             (es, rest) \<Rightarrow> ((case parse_sse_event (take i buffer) of Some ev \<Rightarrow> ev # es | None \<Rightarrow> es), rest)))"
  by pat_completeness auto
termination
proof (relation "measure length", simp, goal_cases)
  case (1 buffer i)
  then show ?case using py_find_Some_le [of "[LF, LF]" buffer i] by simp
qed

declare split_buffer.simps [simp del]

fun iter_chunk_events :: "string list \<Rightarrow> string \<Rightarrow> frame list" where
  "iter_chunk_events [] buffer =
     (if py_strip buffer = [] then [] else (case parse_sse_event buffer of Some ev \<Rightarrow> [ev] | None \<Rightarrow> []))"
| "iter_chunk_events (c # cs) buffer =
     (case split_buffer (buffer @ c) of (es, rest) \<Rightarrow> es @ iter_chunk_events cs rest)"

definition iter_responses_sse_from_anthropic :: "responses_env \<Rightarrow> string list \<Rightarrow> frame list" where
  "iter_responses_sse_from_anthropic e chunks = responses_events e (iter_chunk_events chunks []) new_assembler"

end
