(* ===== verification/Responses_Contract.thy ===== *)
theory Responses_Contract
  imports Responses_Stream "HOL-Library.Multiset"
begin

text \<open>
  What a Responses stream must be, as a checker of its own: one \<open>response.created\<close> first, every
  output item added at the next index, extended only while it is open and under its own id, done
  once with the text of its deltas, and one final event that lists all items in order.  The
  assembler keeps in step with the checker on every event, so every stream passes.
\<close>

section \<open>A producer and a checker of events\<close>

text \<open>A checker is a step that may refuse an event.\<close>

fun run_checker :: "('c \<Rightarrow> 'e \<Rightarrow> 'c option) \<Rightarrow> 'c \<Rightarrow> 'e list \<Rightarrow> 'c option" where
  "run_checker check c [] = Some c"
| "run_checker check c (e # es) = (case check c e of Some c' \<Rightarrow> run_checker check c' es | None \<Rightarrow> None)"

lemma run_checker_append:
  "run_checker check c (xs @ ys) = Option.bind (run_checker check c xs) (\<lambda>c. run_checker check c ys)"
  by (induction xs arbitrary: c) (auto split: option.splits)

locale checked_producer =
  fixes check :: "'c \<Rightarrow> 'e \<Rightarrow> 'c option" and follows :: "'s \<Rightarrow> 'c \<Rightarrow> bool"
begin

definition steps :: "('s \<Rightarrow> bool) \<Rightarrow> ('s, 'e, 'x) gen \<Rightarrow> bool" where
  "steps P g \<longleftrightarrow> (\<forall>s c. follows s c \<longrightarrow> P s \<longrightarrow>
     raised g s = None \<and> (\<exists>c'. run_checker check c (yields g s) = Some c' \<and> follows (after g s) c'))"

lemma stepsD:
  assumes "steps P g" and "follows s c" and "P s"
  obtains c' where "run_checker check c (yields g s) = Some c'" "follows (after g s) c'" "raised g s = None"
  using assms by (auto simp: steps_def)

lemma steps_gskip [intro]: "steps P gskip"
  by (simp add: steps_def gen_simps)

lemma steps_gwhen [intro]: "(b \<Longrightarrow> steps P g) \<Longrightarrow> steps P (gwhen b g)"
  by (simp add: gwhen_def steps_gskip)

lemma steps_gread [intro]: "(\<And>s. P s \<Longrightarrow> steps (\<lambda>t. t = s) (g s)) \<Longrightarrow> steps P (gread g)"
  by (simp add: steps_def gen_simps)

lemma steps_gseq:
  assumes "steps P g" and "steps Q h" and "\<And>s c. follows s c \<Longrightarrow> P s \<Longrightarrow> Q (after g s)"
  shows "steps P (gseq g h)"
  unfolding steps_def
proof (intro allI impI)
  fix s c assume s: "follows s c" "P s"
  obtain c1 where 1: "run_checker check c (yields g s) = Some c1" "follows (after g s) c1" "raised g s = None"
    by (rule stepsD [OF assms(1) s])
  obtain c2 where 2: "run_checker check c1 (yields h (after g s)) = Some c2" "follows (after h (after g s)) c2"
    "raised h (after g s) = None"
    by (rule stepsD [OF assms(2) 1(2) assms(3) [OF s]])
  show "raised (gseq g h) s = None \<and> (\<exists>c'. run_checker check c (yields (gseq g h) s) = Some c' \<and> follows (after (gseq g h) s) c')"
    using 1 2 by (simp add: gen_simps run_checker_append)
qed

lemma steps_then: "steps P g \<Longrightarrow> steps (\<lambda>_. True) h \<Longrightarrow> steps P (gseq g h)"
  by (erule (1) steps_gseq) simp

lemma steps_gdo: "(\<And>s c. follows s c \<Longrightarrow> P s \<Longrightarrow> follows (f s) c) \<Longrightarrow> steps P (gdo f)"
  by (simp add: steps_def gen_simps)

end

section \<open>The checker\<close>

record response_check =
  rc_created :: bool
  rc_ended :: bool
  rc_slots :: "jdict option list"
  rc_open :: "(nat, string \<times> string) dict"

definition response_check_init :: response_check where
  "response_check_init = \<lparr>rc_created = False, rc_ended = False, rc_slots = [], rc_open = []\<rparr>"

definition event_output :: "frame \<Rightarrow> nat option" where
  "event_output f = map_option nat (as_int (jget (ev_data f) ''output_index''))"

definition event_item :: "frame \<Rightarrow> jdict option" where
  "event_item f = as_obj (jget (ev_data f) ''item'')"

definition ITEM_EVENTS :: "string list" where
  "ITEM_EVENTS =
     [''response.content_part.added'', ''response.output_text.delta'', ''response.output_text.done'', ''response.content_part.done'',
      ''response.reasoning_text.delta'', ''response.reasoning_text.done'', ''response.function_call_arguments.delta'',
      ''response.function_call_arguments.done'', ''response.custom_tool_call_input.delta'', ''response.custom_tool_call_input.done'']"

definition item_added :: "response_check \<Rightarrow> nat \<Rightarrow> jdict \<Rightarrow> response_check option" where
  "item_added c n item =
     (case jget item ''id'' of
        JStr i \<Rightarrow>
          (if n = length (rc_slots c) \<and> jget item ''status'' = JStr ''in_progress''
           then Some (c\<lparr>rc_slots := rc_slots c @ [None], rc_open := dset n (i, []) (rc_open c)\<rparr>) else None)
      | _ \<Rightarrow> None)"

text \<open>The text a finished item carries: that of a message or of plain reasoning.\<close>

definition item_carries :: "jdict \<Rightarrow> string \<Rightarrow> bool" where
  "item_carries item t \<longleftrightarrow>
     (jget item ''type'' = JStr ''message'' \<longrightarrow> jget item ''content'' = JArr [output_part t]) \<and>
     (jget item ''type'' = JStr ''reasoning'' \<longrightarrow> jget item ''encrypted_content'' = JNull \<longrightarrow>
        jget item ''content'' = JArr [JObj [(''type'', JStr ''reasoning_text''), (''text'', JStr t)]])"

definition item_done :: "response_check \<Rightarrow> nat \<Rightarrow> jdict \<Rightarrow> response_check option" where
  "item_done c n item =
     (case map_of (rc_open c) n of
        Some (i, t) \<Rightarrow>
          (if jget item ''id'' = JStr i \<and> jget item ''status'' = JStr ''completed'' \<and> item_carries item t
           then Some (c\<lparr>rc_slots := (rc_slots c)[n := Some item], rc_open := ddel n (rc_open c)\<rparr>) else None)
      | None \<Rightarrow> None)"

definition item_grows :: "response_check \<Rightarrow> nat \<Rightarrow> frame \<Rightarrow> response_check option" where
  "item_grows c n f =
     (case map_of (rc_open c) n of
        Some (i, t) \<Rightarrow>
          if jget (ev_data f) ''item_id'' \<noteq> JStr i then None
          else if ev_name f = ''response.output_text.delta'' \<or> ev_name f = ''response.reasoning_text.delta'' then
            (case jget (ev_data f) ''delta'' of
               JStr d \<Rightarrow> (if d \<noteq> [] then Some (c\<lparr>rc_open := dset n (i, t @ d) (rc_open c)\<rparr>) else None)
             | _ \<Rightarrow> None)
          else if ev_name f = ''response.output_text.done'' \<or> ev_name f = ''response.reasoning_text.done'' then
            (if jget (ev_data f) ''text'' = JStr t then Some c else None)
          else if ev_name f = ''response.content_part.done'' then
            (if jget (ev_data f) ''part'' = output_part t then Some c else None)
          else Some c
      | None \<Rightarrow> None)"

definition response_ends :: "response_check \<Rightarrow> frame \<Rightarrow> response_check option" where
  "response_ends c f =
     (case as_obj (jget (ev_data f) ''response'') of
        Some r \<Rightarrow>
          (if rc_open c = [] \<and> list_all (\<lambda>x. x \<noteq> None) (rc_slots c) \<and>
              jget r ''output'' = JArr (map (JObj \<circ> the) (rc_slots c)) \<and>
              jget r ''status'' = JStr (if ev_name f = ''response.completed'' then ''completed'' else ''failed'')
           then Some (c\<lparr>rc_ended := True\<rparr>) else None)
      | None \<Rightarrow> None)"

definition response_check_event :: "response_check \<Rightarrow> frame \<Rightarrow> response_check option" where
  "response_check_event c f =
     (if ev_name f = ''response.created'' then (if rc_created c then None else Some (c\<lparr>rc_created := True\<rparr>))
      else if \<not> rc_created c \<or> rc_ended c then None
      else if ev_name f = ''response.output_item.added'' then
        (case (event_output f, event_item f) of (Some n, Some item) \<Rightarrow> item_added c n item | _ \<Rightarrow> None)
      else if ev_name f = ''response.output_item.done'' then
        (case (event_output f, event_item f) of (Some n, Some item) \<Rightarrow> item_done c n item | _ \<Rightarrow> None)
      else if ev_name f = ''response.completed'' \<or> ev_name f = ''response.failed'' then response_ends c f
      else if ev_name f \<in> set ITEM_EVENTS then
        (case event_output f of Some n \<Rightarrow> item_grows c n f | None \<Rightarrow> None)
      else None)"

definition responses_contract :: "frame list \<Rightarrow> bool" where
  "responses_contract fs =
     (case run_checker response_check_event response_check_init fs of Some c \<Rightarrow> rc_ended c | None \<Rightarrow> False)"

section \<open>The assembler keeps in step\<close>

definition shown_text :: "active_block \<Rightarrow> string" where
  "shown_text b = (if is_tool_block b then [] else ab_text b)"

definition item_view :: "active_block \<Rightarrow> nat \<times> string \<times> string" where
  "item_view b = (ab_output b, ab_item_id b, shown_text b)"

text \<open>The blocks of the state and those taken out of it that are not completed yet.\<close>

definition response_follows :: "active_block list \<Rightarrow> responses_state \<Rightarrow> response_check \<Rightarrow> bool" where
  "response_follows ps s c \<longleftrightarrow>
     (let bs = ps @ dvalues (rs_active s)
      in distinct (dkeys (rs_active s)) \<and> distinct (map ab_output bs) \<and>
         map_of (rc_open c) = map_of (map item_view bs) \<and> rc_slots c = rs_slots s \<and>
         ab_output ` set bs = {n. n < length (rs_slots s) \<and> rs_slots s ! n = None} \<and>
         rc_created c \<and> rs_started s \<and> \<not> rc_ended c \<and> \<not> rs_terminal s)"


interpretation responses: checked_producer response_check_event "response_follows []" .

lemma followsI:
  assumes "distinct (dkeys (rs_active s))" and "distinct (map ab_output (ps @ dvalues (rs_active s)))"
    and "map_of (rc_open c) = map_of (map item_view (ps @ dvalues (rs_active s)))" and "rc_slots c = rs_slots s"
    and "ab_output ` set (ps @ dvalues (rs_active s)) = {n. n < length (rs_slots s) \<and> rs_slots s ! n = None}"
    and "rc_created c" and "rs_started s" and "\<not> rc_ended c" and "\<not> rs_terminal s"
  shows "response_follows ps s c"
  using assms by (simp add: response_follows_def)

lemma followsD:
  assumes "response_follows ps s c"
  shows "distinct (dkeys (rs_active s))" and "distinct (map ab_output (ps @ dvalues (rs_active s)))"
    and "map_of (rc_open c) = map_of (map item_view (ps @ dvalues (rs_active s)))" and "rc_slots c = rs_slots s"
    and "ab_output ` set (ps @ dvalues (rs_active s)) = {n. n < length (rs_slots s) \<and> rs_slots s ! n = None}"
    and "rc_created c" and "rs_started s" and "\<not> rc_ended c" and "\<not> rs_terminal s"
  using assms by (simp_all add: response_follows_def Let_def)

lemma view_at:
  assumes "distinct (map ab_output bs)" and "b \<in> set bs"
  shows "map_of (map item_view bs) (ab_output b) = Some (ab_item_id b, shown_text b)"
proof -
  have "map fst (map item_view bs) = map ab_output bs" by (simp add: item_view_def)
  with assms have "distinct (map fst (map item_view bs))" by metis
  moreover have "(ab_output b, ab_item_id b, shown_text b) \<in> set (map item_view bs)"
    using assms(2) by (auto simp: item_view_def intro!: image_eqI [where x = b])
  ultimately show ?thesis by simp
qed

lemma view_none: "n \<notin> ab_output ` set bs \<Longrightarrow> map_of (map item_view bs) n = None"
  by (induction bs) (auto simp: item_view_def)

text \<open>The data of the events.\<close>

lemma item_event_data:
  "ev_name (item_event n b d) = n" "event_output (item_event n b d) = Some (ab_output b)"
  "jget (ev_data (item_event n b d)) ''item_id'' = JStr (ab_item_id b)"
  by (simp_all add: item_event_def response_event_def event_output_def)

lemma item_event_get:
  "k \<notin> {''type'', ''item_id'', ''output_index''} \<Longrightarrow> jget (ev_data (item_event n b d)) k = jget d k"
  by (simp add: item_event_def response_event_def jget_def)

lemma output_item_data:
  "ev_name (output_item_event n i item) = n" "event_output (output_item_event n i item) = Some i"
  "event_item (output_item_event n i item) = Some item"
  by (simp_all add: output_item_event_def response_event_def event_output_def event_item_def)

text \<open>An event that only reports the open block leaves the checker as it is.\<close>

lemma check_report:
  assumes "map_of (rc_open c) (ab_output b) = Some (ab_item_id b, t)" and "rc_created c" and "\<not> rc_ended c"
    and "n \<in> set ITEM_EVENTS" and "n \<noteq> ''response.output_text.delta''" and "n \<noteq> ''response.reasoning_text.delta''"
    and "n = ''response.output_text.done'' \<or> n = ''response.reasoning_text.done'' \<Longrightarrow> jget (ev_data (item_event n b d)) ''text'' = JStr t"
    and "n = ''response.content_part.done'' \<Longrightarrow> jget (ev_data (item_event n b d)) ''part'' = output_part t"
  shows "response_check_event c (item_event n b d) = Some c"
proof -
  have "n \<notin> {''response.created'', ''response.output_item.added'', ''response.output_item.done'', ''response.completed'', ''response.failed''}"
    using assms(4) by (auto simp: ITEM_EVENTS_def)
  then show ?thesis
    using assms by (auto simp: response_check_event_def item_grows_def item_event_data)
qed


section \<open>Completing\<close>

lemma commit_slots:
  assumes "n < length (rs_slots s)"
  shows "rs_slots (commit_output n item s) = (rs_slots s)[n := Some item]"
    "rs_active (commit_output n item s) = rs_active s" "rs_started (commit_output n item s) = rs_started s"
    "rs_terminal (commit_output n item s) = rs_terminal s"
  using assms by (simp_all add: commit_output_def)

lemma follows_done:
  assumes f: "response_follows (b # ps) s c"
    and item: "jget item ''id'' = JStr (ab_item_id b)" "jget item ''status'' = JStr ''completed''" "item_carries item (shown_text b)"
  obtains c' where "response_check_event c (output_item_event ''response.output_item.done'' (ab_output b) item) = Some c'"
    "response_follows ps (commit_output (ab_output b) item s) c'"
proof -
  note F = followsD [OF f]
  let ?n = "ab_output b" and ?bs = "ps @ dvalues (rs_active s)"
  let ?c = "c\<lparr>rc_slots := (rc_slots c)[?n := Some item], rc_open := ddel ?n (rc_open c)\<rparr>"
  have at: "map_of (rc_open c) ?n = Some (ab_item_id b, shown_text b)"
    unfolding F(3) by (rule view_at) (use F(2) in auto)
  have slot: "?n < length (rs_slots s) \<and> rs_slots s ! ?n = None" using F(5) by auto
  have other: "?n \<notin> ab_output ` set ?bs" using F(2) by auto
  have ck: "response_check_event c (output_item_event ''response.output_item.done'' ?n item) = Some ?c"
    using F(6,8) at item by (simp add: response_check_event_def output_item_data item_done_def)
  have "response_follows ps (commit_output ?n item s) ?c"
  proof (rule followsI)
    have open_map: "map_of (rc_open c) = (map_of (map item_view ?bs))(?n \<mapsto> (ab_item_id b, shown_text b))"
      unfolding F(3) append_Cons list.map item_view_def [of b] by (simp only: map_of.simps fst_conv snd_conv)
    have "map_of (ddel ?n (rc_open c)) = map_of (map item_view ?bs)"
    proof (rule ext)
      fix m
      show "map_of (ddel ?n (rc_open c)) m = map_of (map item_view ?bs) m"
        by (cases "m = ?n") (simp_all only: map_of_ddel open_map view_none [OF other] if_True if_False fun_upd_apply refl)
    qed
    then show "map_of (rc_open ?c) = map_of (map item_view (ps @ dvalues (rs_active (commit_output ?n item s))))"
      using slot by (simp add: commit_slots)
    have "{m. m < length (rs_slots s) \<and> (rs_slots s)[?n := Some item] ! m = None} =
        {m. m < length (rs_slots s) \<and> rs_slots s ! m = None} - {?n}"
      using slot by (auto simp: nth_list_update split: if_splits)
    also have "\<dots> = insert ?n (ab_output ` set ?bs) - {?n}" using F(5) by simp
    also have "\<dots> = ab_output ` set ?bs" using other by blast
    finally show "ab_output ` set (ps @ dvalues (rs_active (commit_output ?n item s))) =
        {m. m < length (rs_slots (commit_output ?n item s)) \<and> rs_slots (commit_output ?n item s) ! m = None}"
      using slot by (simp add: commit_slots)
  qed (use F slot in \<open>simp_all add: commit_slots\<close>)
  with ck show thesis by (rule that)
qed

lemma completed_item:
  "jget (tool_item i cid who st x y) ''id'' = JStr i" "jget (tool_item i cid who st x y) ''status'' = JStr st"
  "item_carries (tool_item i cid who st x y) t"
  by (cases "ti_kind who"; simp add: tool_item_def jget_def item_carries_def)+

lemma complete_follows:
  assumes f: "response_follows (b # ps) s c"
  shows "raised (complete_active_block b) s = None \<and>
    (\<exists>c'. run_checker response_check_event c (yields (complete_active_block b) s) = Some c' \<and>
       response_follows ps (after (complete_active_block b) s) c')"
proof -
  note F = followsD [OF f]
  have at: "map_of (rc_open c) (ab_output b) = Some (ab_item_id b, shown_text b)"
    unfolding F(3) by (rule view_at) (use F(2) in auto)
  have commit: "raised (commit_events before b item) s = None \<and>
    (\<exists>c'. run_checker response_check_event c (yields (commit_events before b item) s) = Some c' \<and>
       response_follows ps (after (commit_events before b item) s) c')"
    if pre: "run_checker response_check_event c before = Some c"
      and item: "jget item ''id'' = JStr (ab_item_id b)" "jget item ''status'' = JStr ''completed''" "item_carries item (shown_text b)"
    for before item
  proof -
    obtain c' where "response_check_event c (output_item_event ''response.output_item.done'' (ab_output b) item) = Some c'"
      "response_follows ps (commit_output (ab_output b) item s) c'"
      by (rule follows_done [OF f item])
    with pre show ?thesis
      by (simp add: commit_events_def yields_def raised_def after_def run_checker_append)
  qed
  note report = check_report [OF at F(6,8)]
  show ?thesis
  proof (cases "ab_kind b")
    case TextBlock
    then have t: "shown_text b = ab_text b" by (simp add: shown_text_def is_tool_block_def)
    have "response_check_event c (item_event ''response.output_text.done'' b [(''content_index'', JInt 0), (''text'', JStr (ab_text b))])
        = Some c"
      by (rule report) (simp_all add: t ITEM_EVENTS_def item_event_get)
    moreover have "response_check_event c
        (item_event ''response.content_part.done'' b [(''content_index'', JInt 0), (''part'', output_part (ab_text b))]) = Some c"
      by (rule report) (simp_all add: t ITEM_EVENTS_def item_event_get)
    ultimately show ?thesis
      unfolding complete_active_block_def TextBlock block_kind.case complete_text_block_def
      by (intro commit) (simp_all add: t message_item_def item_carries_def output_part_def)
  next
    case (ReasoningBlock enc)
    then have t: "shown_text b = ab_text b" by (simp add: shown_text_def is_tool_block_def)
    have "response_check_event c
        (item_event ''response.reasoning_text.done'' b [(''content_index'', JInt 0), (''text'', JStr (ab_text b))]) = Some c"
      by (rule report) (simp_all add: t ITEM_EVENTS_def item_event_get)
    then show ?thesis
      unfolding complete_active_block_def ReasoningBlock block_kind.case complete_reasoning_block_def
      by (intro commit) (auto simp: t ReasoningBlock reasoning_output_item_def reasoning_item_def
          encrypted_reasoning_item_def item_carries_def split: option.split)
  next
    case (ToolBlock cid who)
    then have t: "shown_text b = []" by (simp add: shown_text_def is_tool_block_def)
    have "response_check_event c (item_event n b d) = Some c"
      if "n \<in> {''response.function_call_arguments.delta'', ''response.function_call_arguments.done'',
        ''response.custom_tool_call_input.delta'', ''response.custom_tool_call_input.done''}" for n d
      by (rule report) (use that in \<open>auto simp: ITEM_EVENTS_def\<close>)
    note quiet = this [of "''response.function_call_arguments.delta''", simplified]
      this [of "''response.function_call_arguments.done''", simplified]
      this [of "''response.custom_tool_call_input.delta''", simplified]
      this [of "''response.custom_tool_call_input.done''", simplified]
    show ?thesis
      unfolding complete_active_block_def ToolBlock block_kind.case complete_tool_block_def complete_custom_tool_block_def Let_def
      by (cases "ti_kind who"; simp only: tool_kind.case; rule commit) (simp_all add: quiet completed_item)
  qed
qed


lemma mset_ddel: "map_of d i = Some b \<Longrightarrow> distinct (dkeys d) \<Longrightarrow> mset (b # dvalues (ddel i d)) = mset (dvalues d)"
proof (induction d)
  case (Cons p d)
  obtain j v where p: "p = (j, v)" by (cases p)
  show ?case
  proof (cases "j = i")
    case True
    then have "i \<notin> set (dkeys d)" using Cons.prems(2) p by auto
    then show ?thesis using True Cons.prems(1) p by (simp add: delete_id)
  next
    case False
    then show ?thesis using Cons p by simp
  qed
qed simp

lemma follows_perm:
  assumes f: "response_follows ps s c" and "mset (qs @ dvalues act) = mset (ps @ dvalues (rs_active s))"
    and "distinct (dkeys act)"
  shows "response_follows qs (s\<lparr>rs_active := act\<rparr>) c"
proof (rule followsI)
  note F = followsD [OF f]
  have sets: "set (qs @ dvalues act) = set (ps @ dvalues (rs_active s))" by (rule mset_eq_setD [OF assms(2)])
  have "mset (map ab_output (qs @ dvalues act)) = mset (map ab_output (ps @ dvalues (rs_active s)))"
    using assms(2) by (metis mset_map)
  then have d: "distinct (map ab_output (qs @ dvalues act))" using F(2) by (metis mset_eq_imp_distinct_iff)
  have recs: "rs_active (s\<lparr>rs_active := act\<rparr>) = act" by simp
  show "distinct (map ab_output (qs @ dvalues (rs_active (s\<lparr>rs_active := act\<rparr>))))" using d by simp
  show "map_of (rc_open c) = map_of (map item_view (qs @ dvalues (rs_active (s\<lparr>rs_active := act\<rparr>))))"
  proof (rule ext)
    fix n
    show "map_of (rc_open c) n = map_of (map item_view (qs @ dvalues (rs_active (s\<lparr>rs_active := act\<rparr>)))) n"
    proof (cases "n \<in> ab_output ` set (qs @ dvalues act)")
      case True
      then obtain b where b: "b \<in> set (qs @ dvalues act)" "n = ab_output b" by blast
      then have "b \<in> set (ps @ dvalues (rs_active s))" using sets by metis
      with view_at [OF d b(1)] view_at [OF F(2)] show ?thesis by (simp only: F(3) recs b(2))
    next
      case False
      then have "n \<notin> ab_output ` set (ps @ dvalues (rs_active s))" using sets by metis
      then have "map_of (map item_view (ps @ dvalues (rs_active s))) n = None" by (rule view_none)
      with view_none [OF False] show ?thesis by (simp only: F(3) recs)
    qed
  qed
  show "ab_output ` set (qs @ dvalues (rs_active (s\<lparr>rs_active := act\<rparr>))) =
      {n. n < length (rs_slots (s\<lparr>rs_active := act\<rparr>)) \<and> rs_slots (s\<lparr>rs_active := act\<rparr>) ! n = None}"
    using F(5) sets by simp
qed (use followsD [OF f] assms(3) in simp_all)

lemma existing_follows: "responses.steps (\<lambda>_. True) (complete_existing_block i)"
  unfolding responses.steps_def
proof (intro allI impI)
  fix s c assume f: "response_follows [] s c"
  note F = followsD [OF f]
  show "raised (complete_existing_block i) s = None \<and>
    (\<exists>c'. run_checker response_check_event c (yields (complete_existing_block i) s) = Some c' \<and>
       response_follows [] (after (complete_existing_block i) s) c')"
  proof (cases "map_of (rs_active s) i")
    case None
    with f show ?thesis by (simp add: complete_existing_block_def gen_simps)
  next
    case (Some b)
    let ?s = "s\<lparr>rs_active := ddel i (rs_active s)\<rparr>"
    have mem: "(i, b) \<in> set (rs_active s)" using Some by (rule map_of_SomeD)
    have perm: "mset ([b] @ dvalues (ddel i (rs_active s))) = mset ([] @ dvalues (rs_active s))"
      using mset_ddel [OF Some F(1)] by simp
    have "response_follows [b] ?s c" by (rule follows_perm [OF f perm]) (use F(1) in auto)
    from complete_follows [OF this] Some show ?thesis
      by (simp add: complete_existing_block_def gen_simps)
  qed
qed


lemma complete_all_follows:
  "response_follows ps s c \<Longrightarrow>
   raised (gfor complete_active_block ps) s = None \<and>
   (\<exists>c'. run_checker response_check_event c (yields (gfor complete_active_block ps) s) = Some c' \<and>
      response_follows [] (after (gfor complete_active_block ps) s) c')"
proof (induction ps arbitrary: s c)
  case (Cons b ps)
  obtain c1 where 1: "run_checker response_check_event c (yields (complete_active_block b) s) = Some c1"
    "response_follows ps (after (complete_active_block b) s) c1" "raised (complete_active_block b) s = None"
    using complete_follows [OF Cons.prems] by blast
  from Cons.IH [OF 1(2)] 1 show ?case by (auto simp: gen_simps run_checker_append)
qed (simp add: gen_simps)

lemma complete_active: "rs_active (after (complete_active_block b) s) = rs_active s"
  by (cases "ab_kind b")
     (auto simp: complete_active_block_def complete_text_block_def complete_reasoning_block_def complete_tool_block_def
       complete_custom_tool_block_def Let_def commit_events_def after_def commit_output_def split: tool_kind.split)

lemma complete_all_active: "rs_active (after (gfor complete_active_block ps) s) = rs_active s"
proof (induction ps arbitrary: s)
  case (Cons b ps)
  then show ?case using complete_active [of b s] by (simp add: gen_simps)
qed (simp add: gen_simps)

lemma flush_follows: "responses.steps (\<lambda>_. True) flush_active_blocks"
  unfolding responses.steps_def
proof (intro allI impI)
  fix s c assume f: "response_follows [] s c"
  let ?bs = "sort_key ab_output (dvalues (rs_active s))"
  have "response_follows ?bs (s\<lparr>rs_active := []\<rparr>) c" by (rule follows_perm [OF f]) simp_all
  from complete_all_follows [OF this]
  show "raised flush_active_blocks s = None \<and>
    (\<exists>c'. run_checker response_check_event c (yields flush_active_blocks s) = Some c' \<and>
       response_follows [] (after flush_active_blocks s) c')"
    by (simp add: flush_active_blocks_def gen_simps)
qed

lemma flush_active: "rs_active (after flush_active_blocks s) = []"
  by (simp add: flush_active_blocks_def gen_simps complete_all_active split: if_splits)

section \<open>Opening\<close>

lemma follows_cong:
  assumes "response_follows ps s c" and "rs_active t = rs_active s" and "rs_slots t = rs_slots s"
    and "rs_started t = rs_started s" and "rs_terminal t = rs_terminal s"
  shows "response_follows ps t c"
  using assms by (simp add: response_follows_def)

lemma existing_removed: "map_of (rs_active (after (complete_existing_block i) s)) i = None"
proof (cases "map_of (rs_active s) i")
  case (Some b)
  then show ?thesis
    by (simp add: complete_existing_block_def gen_simps complete_active dict_simps)
qed (simp add: complete_existing_block_def gen_simps)

lemma open_follows:
  assumes f: "response_follows [] s c" and new: "map_of (rs_active s) i = None"
    and b: "open_block i kind item_id parts s = (b, s')" and "shown_text b = []"
    and item: "jget item ''id'' = JStr item_id" "jget item ''status'' = JStr ''in_progress''"
  obtains c' where "response_check_event c (output_item_event ''response.output_item.added'' (ab_output b) item) = Some c'"
    "response_follows [] s' c'" "map_of (rc_open c') (ab_output b) = Some (ab_item_id b, [])"
proof -
  note F = followsD [OF f, simplified]
  let ?n = "length (rs_slots s)"
  have e: "b = \<lparr>ab_kind = kind, ab_output = ?n, ab_item_id = item_id, ab_parts = parts\<rparr>"
    "s' = s\<lparr>rs_slots := rs_slots s @ [None], rs_active := rs_active s @ [(i, b)]\<rparr>"
    using b new by (auto simp: open_block_def reserve_output_slot_def Let_def dict_simps map_of_notin_iff)
  have n: "ab_output b = ?n" "ab_item_id b = item_id" by (simp_all add: e(1))
  let ?c = "c\<lparr>rc_slots := rc_slots c @ [None], rc_open := dset ?n (item_id, []) (rc_open c)\<rparr>"
  have out: "?n \<notin> ab_output ` set (dvalues (rs_active s))" using F(5) by auto
  have ck: "response_check_event c (output_item_event ''response.output_item.added'' (ab_output b) item) = Some ?c"
    using F(4,6,8) item n by (simp add: response_check_event_def output_item_data item_added_def)
  have "response_follows [] s' ?c"
  proof (rule followsI)
    show "distinct (dkeys (rs_active s'))" using F(1) new by (simp add: e(2) map_of_notin_iff)
    show "distinct (map ab_output ([] @ dvalues (rs_active s')))" using F(2) out n by (simp add: e(2) comp_def image_image)
    show "map_of (rc_open ?c) = map_of (map item_view ([] @ dvalues (rs_active s')))"
    proof (rule ext)
      fix m
      have "map_of (map item_view (dvalues (rs_active s) @ [b])) m =
          (case map_of (map item_view (dvalues (rs_active s))) m of Some v \<Rightarrow> Some v
           | None \<Rightarrow> if m = ?n then Some (item_id, []) else None)"
        using assms(4) n by (simp add: item_view_def map_add_def split: option.split)
      moreover have "map_of (rc_open c) = map_of (map item_view (dvalues (rs_active s)))" using followsD(3) [OF f] by simp
      moreover have "map_of (map item_view (dvalues (rs_active s))) ?n = None" by (rule view_none [OF out])
      ultimately show "map_of (rc_open ?c) m = map_of (map item_view ([] @ dvalues (rs_active s'))) m"
        by (cases "m = ?n") (simp_all add: e(2) map_of_dset del: map_map split: option.split)
    qed
    show "ab_output ` set ([] @ dvalues (rs_active s')) = {m. m < length (rs_slots s') \<and> rs_slots s' ! m = None}"
      using F(5) n by (auto simp: e(2) nth_append less_Suc_eq)
  qed (use F in \<open>simp_all add: e(2)\<close>)
  moreover have "map_of (rc_open ?c) (ab_output b) = Some (ab_item_id b, [])" using n by (simp add: map_of_dset)
  ultimately show thesis using ck that by blast
qed


section \<open>Growing\<close>

lemma dvalues_dset_same:
  "map_of d i = Some b \<Longrightarrow> f b' = f b \<Longrightarrow> map f (dvalues (dset i b' d)) = map f (dvalues d)"
  by (induction d) auto

lemma follows_update:
  assumes f: "response_follows [] s c" and at: "map_of (rs_active s) i = Some b"
    and b': "ab_output b' = ab_output b" "ab_item_id b' = ab_item_id b"
    and c': "map_of (rc_open c') = (map_of (rc_open c))(ab_output b \<mapsto> (ab_item_id b, shown_text b'))"
      "rc_slots c' = rc_slots c" "rc_created c' = rc_created c" "rc_ended c' = rc_ended c"
  shows "response_follows [] (s\<lparr>rs_active := dset i b' (rs_active s)\<rparr>) c'"
proof (rule followsI)
  note F = followsD [OF f, unfolded append_Nil]
  let ?act = "dset i b' (rs_active s)"
  have recs: "rs_active (s\<lparr>rs_active := ?act\<rparr>) = ?act" by simp
  have outs: "map ab_output (dvalues ?act) = map ab_output (dvalues (rs_active s))" by (rule dvalues_dset_same [OF at b'(1)])
  have d: "distinct (map ab_output (dvalues ?act))" using F(2) outs by metis
  have keys: "distinct (dkeys ?act)" using F(1) by (rule distinct_dset)
  then show "distinct (dkeys (rs_active (s\<lparr>rs_active := ?act\<rparr>)))" by (simp only: recs)
  show "distinct (map ab_output ([] @ dvalues (rs_active (s\<lparr>rs_active := ?act\<rparr>))))" using d by (simp only: recs append_Nil)
  have image: "ab_output ` set (dvalues ?act) = ab_output ` set (dvalues (rs_active s))"
    using arg_cong [OF outs, of set] by (simp only: set_map)
  show "ab_output ` set ([] @ dvalues (rs_active (s\<lparr>rs_active := ?act\<rparr>))) =
      {n. n < length (rs_slots (s\<lparr>rs_active := ?act\<rparr>)) \<and> rs_slots (s\<lparr>rs_active := ?act\<rparr>) ! n = None}"
    using F(5) image by simp
  show "map_of (rc_open c') = map_of (map item_view ([] @ dvalues (rs_active (s\<lparr>rs_active := ?act\<rparr>))))"
  proof (rule ext)
    fix n
    have "map_of (rc_open c') n = map_of (map item_view (dvalues ?act)) n"
    proof (cases "n \<in> ab_output ` set (dvalues ?act)")
      case True
      then obtain x j where x: "n = ab_output x" "(j, x) \<in> set ?act" by auto
      then have v: "map_of (map item_view (dvalues ?act)) n = Some (ab_item_id x, shown_text x)"
        using view_at [OF d, of x] by force
      have jx: "map_of ?act j = Some x" using x(2) keys by simp
      show ?thesis
      proof (cases "j = i")
        case True
        then have "x = b'" using jx by (simp add: map_of_dset)
        then show ?thesis using v x(1) b' c'(1) by simp
      next
        case False
        then have old: "map_of (rs_active s) j = Some x" using jx by (simp add: map_of_dset)
        then have mem: "x \<in> set (dvalues (rs_active s))" "b \<in> set (dvalues (rs_active s))"
          using at by (force dest: map_of_SomeD)+
        have "n \<noteq> ab_output b"
        proof
          assume "n = ab_output b"
          then have eq: "ab_output x = ab_output b" using x(1) by simp
          have "distinct (map (ab_output \<circ> snd) (rs_active s))" using F(2) by (simp only: map_map)
          then have inj: "inj_on (ab_output \<circ> snd) (set (rs_active s))" by (simp only: distinct_map)
          have "(j, x) = (i, b)"
            by (rule inj_onD [OF inj]) (use eq map_of_SomeD [OF old] map_of_SomeD [OF at] in simp_all)
          with False show False by simp
        qed
        moreover have "map_of (rc_open c) n = Some (ab_item_id x, shown_text x)"
          unfolding F(3) x(1) by (rule view_at [OF F(2) mem(1)])
        ultimately show ?thesis using v c'(1) by simp
      qed
    next
      case False
      have "ab_output b \<in> ab_output ` set (dvalues (rs_active s))" using map_of_SomeD [OF at] by force
      then have "n \<noteq> ab_output b" using False image by metis
      moreover have "map_of (rc_open c) n = None" unfolding F(3) by (rule view_none) (use False image in simp)
      ultimately show ?thesis using view_none [OF False] c'(1) by simp
    qed
    then show "map_of (rc_open c') n = map_of (map item_view ([] @ dvalues (rs_active (s\<lparr>rs_active := ?act\<rparr>)))) n"
      by (simp only: recs append_Nil)
  qed
qed (use followsD [OF f] c' in simp_all)

lemma active_view:
  assumes "response_follows [] s c" and "map_of (rs_active s) i = Some b"
  shows "map_of (rc_open c) (ab_output b) = Some (ab_item_id b, shown_text b)"
proof -
  note F = followsD [OF assms(1), unfolded append_Nil]
  show ?thesis unfolding F(3) by (rule view_at [OF F(2)]) (use map_of_SomeD [OF assms(2)] in force)
qed

lemma emit_follows:
  assumes "n = ''response.output_text.delta'' \<or> n = ''response.reasoning_text.delta''"
  shows "responses.steps (\<lambda>s. \<exists>b. map_of (rs_active s) i = Some b \<and> \<not> is_tool_block b) (emit_part n i t)"
  unfolding responses.steps_def
proof (intro allI impI)
  fix s c assume f: "response_follows [] s c" and "\<exists>b. map_of (rs_active s) i = Some b \<and> \<not> is_tool_block b"
  then obtain b where b: "map_of (rs_active s) i = Some b" "\<not> is_tool_block b" by blast
  note F = followsD [OF f] and V = active_view [OF f b(1)]
  show "raised (emit_part n i t) s = None \<and>
    (\<exists>c'. run_checker response_check_event c (yields (emit_part n i t) s) = Some c' \<and>
       response_follows [] (after (emit_part n i t) s) c')"
  proof (cases "t = []")
    case True
    with f show ?thesis by (simp add: emit_part_def gen_simps)
  next
    case False
    let ?b = "b\<lparr>ab_parts := ab_parts b @ [t]\<rparr>"
    let ?c = "c\<lparr>rc_open := dset (ab_output b) (ab_item_id b, shown_text b @ t) (rc_open c)\<rparr>"
    let ?ev = "item_event n b [(''content_index'', JInt 0), (''delta'', JStr t)]"
    have "n \<in> set ITEM_EVENTS" "n \<notin> {''response.created'', ''response.output_item.added'', ''response.output_item.done'',
        ''response.completed'', ''response.failed''}"
      using assms by (auto simp: ITEM_EVENTS_def)
    then have ck: "response_check_event c ?ev = Some ?c"
      using assms F(6,8) V False by (auto simp: response_check_event_def item_grows_def item_event_data item_event_get)
    have sh: "shown_text ?b = shown_text b @ t" using b(2) by (simp add: shown_text_def is_tool_block_def ab_text_def)
    have "response_follows [] (s\<lparr>rs_active := dset i ?b (rs_active s)\<rparr>) ?c"
      by (rule follows_update [OF f b(1)]) (simp_all add: fun_eq_iff map_of_dset sh)
    then show ?thesis
      using False b(1) ck by (simp add: emit_part_def gwhen_def yields_def raised_def after_def append_part_def)
  qed
qed

lemma part_follows: "responses.steps (\<lambda>s. active_is is_tool_block i s) (gdo (append_part i p))"
proof (rule responses.steps_gdo)
  fix s c assume f: "response_follows [] s c" and "active_is is_tool_block i s"
  then obtain b where b: "map_of (rs_active s) i = Some b" "is_tool_block b" by (auto simp: active_is_def split: option.splits)
  let ?b = "b\<lparr>ab_parts := ab_parts b @ [p]\<rparr>"
  have sh: "shown_text ?b = shown_text b" using b(2) by (simp add: shown_text_def is_tool_block_def)
  have "response_follows [] (s\<lparr>rs_active := dset i ?b (rs_active s)\<rparr>) c"
    by (rule follows_update [OF f b(1)]) (use active_view [OF f b(1)] in \<open>simp_all add: fun_eq_iff sh\<close>)
  then show "response_follows [] (append_part i p s) c" by (simp add: append_part_def b(1))
qed


section \<open>Starting\<close>

lemma starts_follow:
  assumes "\<And>s. \<exists>b t u. g s = (output_item_event ''response.output_item.added'' (ab_output b) (item b) # rest b, None, t) \<and>
       open_block i kind (name s) parts u = (b, t) \<and> rs_active u = rs_active s \<and> rs_slots u = rs_slots s \<and>
       rs_started u = rs_started s \<and> rs_terminal u = rs_terminal s"
    and "\<And>b. ab_kind b = kind \<Longrightarrow> ab_parts b = parts \<Longrightarrow>
       shown_text b = [] \<and> jget (item b) ''id'' = JStr (ab_item_id b) \<and> jget (item b) ''status'' = JStr ''in_progress''"
    and "\<And>b c. map_of (rc_open c) (ab_output b) = Some (ab_item_id b, []) \<Longrightarrow> rc_created c \<Longrightarrow> \<not> rc_ended c \<Longrightarrow>
       run_checker response_check_event c (rest b) = Some c"
  shows "responses.steps (\<lambda>s. map_of (rs_active s) i = None) g"
  unfolding responses.steps_def
proof (intro allI impI)
  fix s c assume f: "response_follows [] s c" and new: "map_of (rs_active s) i = None"
  obtain b t u where g: "g s = (output_item_event ''response.output_item.added'' (ab_output b) (item b) # rest b, None, t)"
    and o: "open_block i kind (name s) parts u = (b, t)"
    and u: "rs_active u = rs_active s" "rs_slots u = rs_slots s" "rs_started u = rs_started s" "rs_terminal u = rs_terminal s"
    using assms(1) [of s] by blast
  have b: "ab_kind b = kind" "ab_parts b = parts" "ab_item_id b = name s"
    using o by (auto simp: open_block_def reserve_output_slot_def Let_def)
  have B: "shown_text b = []" "jget (item b) ''id'' = JStr (name s)" "jget (item b) ''status'' = JStr ''in_progress''"
    using assms(2) [OF b(1,2)] b(3) by auto
  have fu: "response_follows [] u c" by (rule follows_cong [OF f u])
  obtain c' where c': "response_check_event c (output_item_event ''response.output_item.added'' (ab_output b) (item b)) = Some c'"
    "response_follows [] t c'" "map_of (rc_open c') (ab_output b) = Some (ab_item_id b, [])"
    by (rule open_follows [OF fu _ o B]) (use new u in simp_all)
  have "run_checker response_check_event c' (rest b) = Some c'"
    by (rule assms(3)) (use c'(3) followsD [OF c'(2)] in simp_all)
  with c'(1,2) show "raised g s = None \<and>
    (\<exists>c'. run_checker response_check_event c (yields g s) = Some c' \<and> response_follows [] (after g s) c')"
    by (simp add: g yields_def raised_def after_def)
qed

lemma start_follows:
  assumes "responses.steps (\<lambda>s. map_of (rs_active s) i = None) g"
  shows "responses.steps (\<lambda>_. True) (gseq (complete_existing_block i) g)"
  by (rule responses.steps_gseq [OF existing_follows assms]) (simp add: existing_removed)

lemma start_text_follows: "responses.steps (\<lambda>_. True) (start_responses_text e i)"
  unfolding start_responses_text_def
proof (rule start_follows, rule starts_follow [where item = "\<lambda>b. [(''id'', JStr (ab_item_id b)), (''type'', JStr ''message''),
      (''status'', JStr ''in_progress''), (''role'', JStr ''assistant''), (''content'', JArr [])]"
      and rest = "\<lambda>b. tl (text_added b)" and kind = TextBlock and parts = "[]"
      and name = "\<lambda>s. new_message_item_id (re_uuid e (rs_uuids s))"], goal_cases)
  case (1 s)
  show ?case
    by (simp add: take_uuid_def text_added_def split: prod.split)
       (metis (no_types, lifting) responses_state.select_convs responses_state.surjective responses_state.update_convs)
next
  case (3 b c)
  have "response_check_event c (item_event ''response.content_part.added'' b [(''content_index'', JInt 0), (''part'', output_part [])])
      = Some c"
    by (rule check_report [OF 3]) (simp_all add: ITEM_EVENTS_def)
  then show ?case by (simp add: text_added_def)
qed (simp add: shown_text_def ab_text_def)


lemma start_reasoning_follows: "responses.steps (\<lambda>_. True) (start_reasoning_block e i enc)"
  unfolding start_reasoning_block_def
proof (rule start_follows, rule starts_follow [where item = "\<lambda>b. reasoning_output_item b ''in_progress''"
      and rest = "\<lambda>b. []" and kind = "ReasoningBlock enc" and parts = "[]"
      and name = "\<lambda>s. new_reasoning_item_id (re_uuid e (rs_uuids s))"], goal_cases)
  case (1 s)
  show ?case
    by (simp add: take_uuid_def split: prod.split)
       (metis (no_types, lifting) responses_state.select_convs responses_state.surjective responses_state.update_convs)
qed (auto simp: shown_text_def ab_text_def reasoning_output_item_def reasoning_item_def encrypted_reasoning_item_def split: option.split)

lemma tool_call_id_keeps:
  "tool_call_id e block s = (cid, u) \<Longrightarrow> rs_active u = rs_active s \<and> rs_slots u = rs_slots s \<and> rs_started u = rs_started s \<and>
   rs_terminal u = rs_terminal s"
  by (auto simp: tool_call_id_def take_uuid_def Let_def split: if_splits)

lemma start_tool_follows: "responses.steps (\<lambda>_. True) (start_responses_tool e i block)"
  unfolding start_responses_tool_def Let_def
proof (rule start_follows)
  let ?who = "responses_tool_identity_from_anthropic_name (re_request e) (string_value (jget block ''name''))"
  let ?g = "\<lambda>s. case take_uuid (re_uuid e) s of (hex, s) \<Rightarrow>
      case tool_call_id e block s of (cid, s) \<Rightarrow>
        case open_block i (ToolBlock cid ?who) ((if ti_kind ?who = CustomTool then ''ctc'' else ''fc'') @ ''_'' @ take 24 hex)
          (initial_parts (ti_kind ?who) (jget block ''input'')) s of
          (b, s) \<Rightarrow> ([output_item_event ''response.output_item.added'' (ab_output b)
            (tool_item ((if ti_kind ?who = CustomTool then ''ctc'' else ''fc'') @ ''_'' @ take 24 hex) cid ?who ''in_progress'' [] [])],
            None, s)"
  show "responses.steps (\<lambda>s. map_of (rs_active s) i = None) ?g"
    unfolding responses.steps_def
  proof (intro allI impI)
    fix s c assume f: "response_follows [] s c" and new: "map_of (rs_active s) i = None"
    obtain hex s1 where s1: "take_uuid (re_uuid e) s = (hex, s1)" by (cases "take_uuid (re_uuid e) s")
    obtain cid s2 where s2: "tool_call_id e block s1 = (cid, s2)" by (cases "tool_call_id e block s1")
    let ?id = "(if ti_kind ?who = CustomTool then ''ctc'' else ''fc'') @ ''_'' @ take 24 hex"
    obtain b s3 where s3: "open_block i (ToolBlock cid ?who) ?id (initial_parts (ti_kind ?who) (jget block ''input'')) s2 = (b, s3)"
      by (cases "open_block i (ToolBlock cid ?who) ?id (initial_parts (ti_kind ?who) (jget block ''input'')) s2")
    have u: "rs_active s2 = rs_active s" "rs_slots s2 = rs_slots s" "rs_started s2 = rs_started s" "rs_terminal s2 = rs_terminal s"
      using tool_call_id_keeps [OF s2] s1 by (auto simp: take_uuid_def)
    have k: "ab_kind b = ToolBlock cid ?who" using s3 by (auto simp: open_block_def reserve_output_slot_def Let_def)
    then have sh: "shown_text b = []" by (simp add: shown_text_def is_tool_block_def)
    have new2: "map_of (rs_active s2) i = None" using new u by simp
    obtain c' where "response_check_event c (output_item_event ''response.output_item.added'' (ab_output b)
        (tool_item ?id cid ?who ''in_progress'' [] [])) = Some c'" "response_follows [] s3 c'"
      by (rule open_follows [OF follows_cong [OF f u] new2 s3 sh completed_item(1,2)])
    then show "raised ?g s = None \<and>
      (\<exists>c'. run_checker response_check_event c (yields ?g s) = Some c' \<and> response_follows [] (after ?g s) c')"
      using s1 s2 s3 by (simp add: yields_def raised_def after_def)
  qed
qed

section \<open>Handlers\<close>

lemma complete_raises: "raised (complete_active_block b) s = None"
  by (cases "ab_kind b")
     (auto simp: complete_active_block_def complete_text_block_def complete_reasoning_block_def complete_tool_block_def
       complete_custom_tool_block_def Let_def commit_events_def raised_def split: tool_kind.split)

lemma existing_raises: "raised (complete_existing_block i) s = None"
  by (simp add: complete_existing_block_def gen_simps complete_raises split: option.split)

lemma started_text: "\<exists>b. map_of (rs_active (after (start_responses_text e i) s)) i = Some b \<and> is_text_block b"
  unfolding start_responses_text_def run_gseq existing_raises
  by (simp add: take_uuid_def open_block_def reserve_output_slot_def Let_def after_def map_of_dset is_text_block_def)

lemma started_reasoning: "\<exists>b. map_of (rs_active (after (start_reasoning_block e i enc) s)) i = Some b \<and> is_reasoning_block b"
  unfolding start_reasoning_block_def run_gseq existing_raises
  by (simp add: take_uuid_def open_block_def reserve_output_slot_def Let_def after_def map_of_dset is_reasoning_block_def)

lemma kinds_apart: "is_text_block b \<Longrightarrow> \<not> is_tool_block b" "is_reasoning_block b \<Longrightarrow> \<not> is_tool_block b"
  by (auto simp: is_text_block_def is_reasoning_block_def is_tool_block_def split: block_kind.splits)

lemma start_or_not:
  assumes "responses.steps (\<lambda>_. True) g" and "\<And>b. p b \<Longrightarrow> \<not> is_tool_block b"
    and "\<And>s. \<exists>b. map_of (rs_active (after g s)) i = Some b \<and> p b"
    and "n = ''response.output_text.delta'' \<or> n = ''response.reasoning_text.delta''"
  shows "responses.steps (\<lambda>_. True) (gseq (gread (\<lambda>s. gwhen (\<not> active_is p i s) g)) (emit_part n i t))"
    and "responses.steps (\<lambda>_. True) (gseq g (emit_part n i t))"
proof -
  have 1: "responses.steps (\<lambda>_. True) (gread (\<lambda>s. gwhen (\<not> active_is p i s) g))"
    using assms(1) by (intro responses.steps_gread responses.steps_gwhen) (simp add: responses.steps_def)
  show "responses.steps (\<lambda>_. True) (gseq (gread (\<lambda>s. gwhen (\<not> active_is p i s) g)) (emit_part n i t))"
  proof (rule responses.steps_gseq [OF 1 emit_follows [OF assms(4)]])
    fix s
    show "\<exists>b. map_of (rs_active (after (gread (\<lambda>s. gwhen (\<not> active_is p i s) g)) s)) i = Some b \<and> \<not> is_tool_block b"
      using assms(3) [of s] assms(2) by (auto simp: gen_simps active_is_def split: option.splits)
  qed
  show "responses.steps (\<lambda>_. True) (gseq g (emit_part n i t))"
    using assms(2,3) by (intro responses.steps_gseq [OF assms(1) emit_follows [OF assms(4)]]) blast
qed

lemma safe_follows:
  assumes "\<And>i. responses.steps (\<lambda>_. True) (g i)"
  shows "responses.steps (\<lambda>_. True) (with_safe_index index g)"
  unfolding responses.steps_def
proof (intro allI impI)
  fix s c assume f: "response_follows [] s c"
  obtain i u where u: "safe_index index s = (i, u)" by (cases "safe_index index s")
  then have k: "rs_active u = rs_active s" "rs_slots u = rs_slots s" "rs_started u = rs_started s" "rs_terminal u = rs_terminal s"
    by (auto simp: safe_index_def split: option.splits)
  have fu: "response_follows [] u c" by (rule follows_cong [OF f k])
  obtain c' where "run_checker response_check_event c (yields (g i) u) = Some c'" "response_follows [] (after (g i) u) c'"
    "raised (g i) u = None"
    by (rule responses.stepsD [OF assms fu]) simp
  with u show "raised (with_safe_index index g) s = None \<and>
    (\<exists>c'. run_checker response_check_event c (yields (with_safe_index index g) s) = Some c' \<and>
       response_follows [] (after (with_safe_index index g) s) c')"
    by (simp add: with_safe_index_def yields_def raised_def after_def)
qed

lemma index_follows:
  "(\<And>i. responses.steps (\<lambda>_. True) (g i)) \<Longrightarrow> responses.steps (\<lambda>_. True) (with_index index g)"
  by (auto simp: with_index_def split: option.split)

lemma block_start_follows: "responses.steps (\<lambda>_. True) (handle_content_block_start e d)"
  unfolding handle_content_block_start_def Let_def emit_response_text_def emit_response_reasoning_def
  by (auto split: option.split intro!: safe_follows index_follows start_reasoning_follows start_tool_follows
      start_or_not(2) [OF start_text_follows kinds_apart(1) started_text]
      start_or_not(2) [OF start_reasoning_follows kinds_apart(2) started_reasoning])

lemma block_delta_follows: "responses.steps (\<lambda>_. True) (handle_content_block_delta e d)"
proof -
  have tool: "responses.steps (\<lambda>_. True) (gread (\<lambda>s. gwhen (active_is is_tool_block i s) (gdo (append_part i p))))" for i p
    using part_follows [of i p] by (intro responses.steps_gread responses.steps_gwhen) (auto simp: responses.steps_def)
  show ?thesis
    unfolding handle_content_block_delta_def Let_def emit_response_text_def emit_response_reasoning_def
    by (auto split: option.split intro!: safe_follows index_follows tool
      start_or_not(1) [OF start_text_follows kinds_apart(1) started_text]
      start_or_not(1) [OF start_reasoning_follows kinds_apart(2) started_reasoning])
qed

lemma block_stop_follows: "responses.steps (\<lambda>_. True) (handle_content_block_stop d)"
  unfolding handle_content_block_stop_def by (rule index_follows, rule existing_follows)

lemma message_delta_follows: "responses.steps (\<lambda>_. True) (gdo (handle_message_delta d))"
  by (rule responses.steps_gdo)
     (auto simp: handle_message_delta_def Let_def intro: follows_cong split: option.split)


section \<open>The whole stream\<close>

lemma map_filter_all: "list_all (\<lambda>x. x \<noteq> None) xs \<Longrightarrow> List.map_filter (\<lambda>x. x) xs = map the xs"
  by (induction xs) (auto simp: map_filter_simps)

lemma end_follows:
  assumes f: "response_follows [] s c"
    and n: "n = ''response.completed'' \<and> st = ''completed'' \<or> n = ''response.failed'' \<and> st = ''failed''"
  shows "raised (end_response e n st err) s = None" and "rs_terminal (after (end_response e n st err) s)"
    and "\<exists>c'. run_checker response_check_event c (yields (end_response e n st err) s) = Some c' \<and> rc_ended c'"
proof -
  obtain c1 where 1: "run_checker response_check_event c (yields flush_active_blocks s) = Some c1"
    "response_follows [] (after flush_active_blocks s) c1" "raised flush_active_blocks s = None"
    by (rule responses.stepsD [OF flush_follows f]) simp
  let ?s = "after flush_active_blocks s"
  note F = followsD [OF 1(2)]
  have none: "rc_open c1 = []" using F(3) by (simp add: flush_active)
  have "{n. n < length (rs_slots ?s) \<and> rs_slots ?s ! n = None} = {}" using F(5) by (simp add: flush_active)
  then have all: "list_all (\<lambda>x. x \<noteq> None) (rs_slots ?s)" by (auto simp: list_all_length)
  let ?ev = "response_event n [(''response'', JObj (response_payload e st err ?s))]"
  have names: "ev_name ?ev = n" "n \<noteq> ''response.created''" "n \<noteq> ''response.output_item.added''" "n \<noteq> ''response.output_item.done''"
    using n by (auto simp: response_event_def)
  have dat: "as_obj (jget (ev_data ?ev) ''response'') = Some (response_payload e st err ?s)" by (simp add: response_event_def)
  have outp: "jget (response_payload e st err ?s) ''output'' = JArr (map (JObj \<circ> the) (rs_slots ?s))"
    "jget (response_payload e st err ?s) ''status'' = JStr st"
    using map_filter_all [OF all] by (simp_all add: response_payload_def responses_output_def Let_def)
  have "response_check_event c1 ?ev = Some (c1\<lparr>rc_ended := True\<rparr>)"
    using names n F(4,6,8) none all outp dat by (auto simp: response_check_event_def response_ends_def)
  moreover have y: "yields (end_response e n st err) s = yields flush_active_blocks s @ [?ev]"
    unfolding end_response_def run_gseq using 1(3) by (simp add: yields_def Let_def)
  ultimately show "\<exists>c'. run_checker response_check_event c (yields (end_response e n st err) s) = Some c' \<and> rc_ended c'"
    using 1(1) by (simp add: run_checker_append)
  show "raised (end_response e n st err) s = None" "rs_terminal (after (end_response e n st err) s)"
    unfolding end_response_def run_gseq using 1(3) by (simp_all add: raised_def after_def Let_def)
qed

text \<open>An event either keeps the assembler in step, or ends the response.\<close>

definition in_step :: "response_check \<Rightarrow> frame list \<Rightarrow> responses_state \<Rightarrow> bool" where
  "in_step c out s \<longleftrightarrow>
     (\<exists>c'. run_checker response_check_event c out = Some c' \<and>
        (if rs_terminal s then rc_ended c' else response_follows [] s c'))"

lemma in_stepI:
  "responses.steps (\<lambda>_. True) (g :: responses_gen) \<Longrightarrow> response_follows [] s c \<Longrightarrow> in_step c (yields g s) (after g s) \<and> raised g s = None"
  by (erule responses.stepsD) (auto simp: in_step_def dest: followsD(9))

lemma end_in_step:
  assumes "response_follows [] s c"
    and "n = ''response.completed'' \<and> st = ''completed'' \<or> n = ''response.failed'' \<and> st = ''failed''"
  shows "in_step c (yields (end_response e n st err) s) (after (end_response e n st err) s) \<and> raised (end_response e n st err) s = None"
  using end_follows [OF assms] by (auto simp: in_step_def)

lemma body_in_step:
  assumes f: "response_follows [] s c"
  shows "in_step c (yields (process_anthropic_event e ev) s) (after (process_anthropic_event e ev) s)"
proof -
  note F = followsD [OF f]
  let ?body = "if ev_name ev = ''content_block_start'' then handle_content_block_start e (ev_data ev)
          else if ev_name ev = ''content_block_delta'' then handle_content_block_delta e (ev_data ev)
          else if ev_name ev = ''content_block_stop'' then handle_content_block_stop (ev_data ev)
          else if ev_name ev = ''message_delta'' then gdo (handle_message_delta (ev_data ev))
          else if ev_name ev = ''message_stop'' then complete_response e
          else if ev_name ev = ''error'' then fail_response e (ev_data ev)
          else gskip"
  have b: "in_step c (yields ?body s) (after ?body s)"
    using in_stepI [OF block_start_follows f] in_stepI [OF block_delta_follows f] in_stepI [OF block_stop_follows f]
      in_stepI [OF message_delta_follows f] in_stepI [OF responses.steps_gskip f] end_in_step [OF f]
    by (simp add: complete_response_def fail_response_def)
  have st: "yields (ensure_started e) s = []" "raised (ensure_started e) s = None" "after (ensure_started e) s = s"
    using F(7) by (simp_all add: ensure_started_def yields_def raised_def after_def)
  show ?thesis using b F(9) unfolding process_anthropic_event_def by (simp add: gen_simps st)
qed

lemma finish_in_step:
  assumes f: "response_follows [] s c"
  shows "\<exists>c'. run_checker response_check_event c (yields (finish_if_needed e) s) = Some c' \<and> rc_ended c'"
proof -
  note F = followsD [OF f]
  have st: "yields (ensure_started e) s = []" "raised (ensure_started e) s = None" "after (ensure_started e) s = s"
    using F(7) by (simp_all add: ensure_started_def yields_def raised_def after_def)
  show ?thesis
    using end_follows(3) [OF f, of "''response.completed''" "''completed''" e JNull] F(9)
    by (simp add: finish_if_needed_def gen_simps st complete_response_def)
qed

lemma responses_events_Cons:
  "responses_events e (ev # evs) s =
     yields (process_anthropic_event e ev) s @
     (if rs_terminal (after (process_anthropic_event e ev) s) then []
      else responses_events e evs (after (process_anthropic_event e ev) s))"
  by (simp add: yields_def after_def split: prod.split)

lemma events_in_step:
  "response_follows [] s c \<Longrightarrow>
   \<exists>c'. run_checker response_check_event c (responses_events e evs s) = Some c' \<and> rc_ended c'"
proof (induction evs arbitrary: s c)
  case Nil
  then show ?case by (simp add: finish_in_step)
next
  case (Cons ev evs)
  let ?g = "process_anthropic_event e ev"
  obtain c1 where c1: "run_checker response_check_event c (yields ?g s) = Some c1"
    "if rs_terminal (after ?g s) then rc_ended c1 else response_follows [] (after ?g s) c1"
    using body_in_step [OF Cons.prems] by (auto simp: in_step_def)
  note eq = responses_events_Cons [of e ev evs s]
  show ?case
  proof (cases "rs_terminal (after ?g s)")
    case True
    with c1 show ?thesis unfolding eq by simp
  next
    case False
    with c1 have "response_follows [] (after ?g s) c1" by simp
    from Cons.IH [OF this] c1(1) False show ?thesis unfolding eq by (simp add: run_checker_append)
  qed
qed

text \<open>The first event, or the end of an empty stream, also sends \<open>response.created\<close>.\<close>

definition started_assembler :: responses_state where
  "started_assembler = new_assembler\<lparr>rs_started := True\<rparr>"

definition created_event :: "responses_env \<Rightarrow> frame" where
  "created_event e = response_event ''response.created'' [(''response'', JObj (response_payload e ''in_progress'' JNull started_assembler))]"

lemma starts_stream: "responses_events e evs new_assembler = created_event e # responses_events e evs started_assembler"
proof -
  have n: "\<not> rs_terminal new_assembler" "\<not> rs_terminal started_assembler" by (simp_all add: started_assembler_def new_assembler_def)
  have s: "yields (ensure_started e) new_assembler = [created_event e]" "raised (ensure_started e) new_assembler = None"
    "after (ensure_started e) new_assembler = started_assembler"
    by (simp_all add: ensure_started_def started_assembler_def new_assembler_def created_event_def yields_def raised_def after_def Let_def)
  have t: "yields (ensure_started e) started_assembler = []" "raised (ensure_started e) started_assembler = None"
    "after (ensure_started e) started_assembler = started_assembler"
    by (simp_all add: ensure_started_def started_assembler_def yields_def raised_def after_def)
  show ?thesis
  proof (cases evs)
    case Nil
    then show ?thesis using n s t by (simp add: finish_if_needed_def gen_simps)
  next
    case (Cons ev rest)
    let ?g = "process_anthropic_event e ev"
    have "yields ?g new_assembler = created_event e # yields ?g started_assembler"
      "after ?g new_assembler = after ?g started_assembler"
      using n s t by (simp_all add: process_anthropic_event_def gen_simps)
    then show ?thesis unfolding Cons responses_events_Cons by simp
  qed
qed

section \<open>Properties\<close>


end
