(* ===== verification/Responses_Text.thy ===== *)
theory Responses_Text
  imports Responses_Contract
begin

text \<open>
  What a Responses stream says: its text deltas carry the text of the Anthropic stream, and the
  chunks in which that stream arrives make no difference.
\<close>

section \<open>Text deltas\<close>

definition delta_text :: "frame \<Rightarrow> string" where
  "delta_text f = (if ev_name f = ''response.output_text.delta'' then string_value (jget (ev_data f) ''delta'') else [])"

definition out_text :: "frame list \<Rightarrow> string" where
  "out_text fs = concat (map delta_text fs)"

lemma out_text_simps [simp]:
  "out_text [] = []" "out_text (f # fs) = delta_text f @ out_text fs" "out_text (fs @ gs) = out_text fs @ out_text gs"
  by (simp_all add: out_text_def)

lemma delta_text_events [simp]:
  "n \<noteq> ''response.output_text.delta'' \<Longrightarrow> delta_text (item_event n b d) = []"
  "n \<noteq> ''response.output_text.delta'' \<Longrightarrow> delta_text (output_item_event n i item) = []"
  "n \<noteq> ''response.output_text.delta'' \<Longrightarrow> delta_text (response_event n d) = []"
  by (simp_all add: delta_text_def item_event_data output_item_data response_event_def)

text \<open>The text an Anthropic event brings.\<close>

definition anthropic_text :: "'a frame_scheme \<Rightarrow> string" where
  "anthropic_text ev =
     (if ev_name ev = ''content_block_start'' then
        (case as_obj (jget (ev_data ev) ''content_block'') of
           Some b \<Rightarrow> (if jget b ''type'' = JStr ''text'' then string_value (jget b ''text'') else []) | None \<Rightarrow> [])
      else if ev_name ev = ''content_block_delta'' then
        (case as_obj (jget (ev_data ev) ''delta'') of
           Some d \<Rightarrow> (if jget d ''type'' = JStr ''text_delta'' then string_value (jget d ''text'') else []) | None \<Rightarrow> [])
      else [])"

definition ends_message :: "'a frame_scheme \<Rightarrow> bool" where
  "ends_message ev \<longleftrightarrow> ev_name ev = ''message_stop'' \<or> ev_name ev = ''error''"

lemma complete_text [simp]: "out_text (yields (complete_active_block b) s) = []"
  by (cases "ab_kind b")
     (auto simp: complete_active_block_def complete_text_block_def complete_reasoning_block_def complete_tool_block_def
       complete_custom_tool_block_def Let_def commit_events_def yields_def split: tool_kind.split)

lemma complete_all_text [simp]: "out_text (yields (gfor complete_active_block bs) s) = []"
  by (induction bs arbitrary: s) (simp_all add: gen_simps)

lemma existing_text [simp]: "out_text (yields (complete_existing_block i) s) = []"
  by (simp add: complete_existing_block_def gen_simps split: option.split)

lemma flush_text [simp]: "out_text (yields flush_active_blocks s) = []"
  by (simp add: flush_active_blocks_def gen_simps)

lemma start_text [simp]:
  "out_text (yields (start_responses_text e i) s) = []" "out_text (yields (start_reasoning_block e i enc) s) = []"
  "out_text (yields (start_responses_tool e i block) s) = []"
proof -
  have skip: "out_text (yields (gseq (complete_existing_block i) g) s) = out_text (yields g (after (complete_existing_block i) s))"
    for g :: responses_gen by (simp add: run_gseq existing_raises)
  show "out_text (yields (start_responses_text e i) s) = []" "out_text (yields (start_reasoning_block e i enc) s) = []"
    "out_text (yields (start_responses_tool e i block) s) = []"
    unfolding start_responses_text_def start_reasoning_block_def start_responses_tool_def skip Let_def
    by (auto simp: yields_def text_added_def split: prod.split)
qed

lemma start_raises [simp]:
  "raised (start_responses_text e i) s = None" "raised (start_reasoning_block e i enc) s = None"
  by (simp_all add: start_responses_text_def start_reasoning_block_def run_gseq existing_raises)
     (simp_all add: take_uuid_def open_block_def text_added_def raised_def Let_def split: prod.split)

lemma emit_text:
  "map_of (rs_active s) i = Some b \<Longrightarrow> out_text (yields (emit_part ''response.output_text.delta'' i t) s) = t"
  "out_text (yields (emit_part ''response.reasoning_text.delta'' i t) s) = []"
  by (auto simp: emit_part_def gen_simps yields_def gwhen_def gskip_def delta_text_def item_event_data item_event_get string_value_def
      py_str_def split: option.split)


lemma active_text: "active_is p i s \<Longrightarrow> \<exists>b. map_of (rs_active s) i = Some b"
  by (auto simp: active_is_def split: option.splits)

lemma handled_text:
  "out_text (yields (handle_content_block_start e d) s) =
     (case as_obj (jget d ''content_block'') of
        Some b \<Rightarrow> (if jget b ''type'' = JStr ''text'' then string_value (jget b ''text'') else []) | None \<Rightarrow> [])"
  "out_text (yields (handle_content_block_delta e d) s) =
     (case as_obj (jget d ''delta'') of
        Some d \<Rightarrow> (if jget d ''type'' = JStr ''text_delta'' then string_value (jget d ''text'') else []) | None \<Rightarrow> [])"
  "out_text (yields (handle_content_block_stop d) s) = []"
proof -
  have says: "out_text (yields (gseq (start_responses_text e i) (emit_response_text i t)) s) = t" for i t s
    using started_text [of e i s] by (auto simp: run_gseq emit_response_text_def emit_text(1))
  have reason: "out_text (yields (gseq (start_reasoning_block e i enc) (emit_response_reasoning i t)) s) = []" for i enc t s
    by (simp add: run_gseq emit_response_reasoning_def emit_text(2))
  have grow: "out_text (yields (gseq (gread (\<lambda>s. gwhen (\<not> active_is is_text_block i s) (start_responses_text e i)))
      (emit_response_text i t)) s) = t" for i t s
  proof (cases "active_is is_text_block i s")
    case True
    then obtain b where "map_of (rs_active s) i = Some b" using active_text by blast
    with True show ?thesis by (simp add: gen_simps emit_response_text_def emit_text(1))
  next
    case False
    with says [of i t s] show ?thesis by (simp add: gen_simps)
  qed
  have think: "out_text (yields (gseq (gread (\<lambda>s. gwhen (\<not> active_is is_reasoning_block i s) (start_reasoning_block e i None)))
      (emit_response_reasoning i t)) s) = []" for i t s
    by (simp add: gen_simps emit_response_reasoning_def emit_text(2))
  have safe: "out_text (yields (with_safe_index index g) s) = t" if "\<And>i s. out_text (yields (g i) s) = t"
    for index :: "int option" and g :: "int \<Rightarrow> responses_gen" and t
    using that [unfolded yields_def] by (simp add: with_safe_index_def yields_def split: prod.split)
  have idx: "out_text (yields (with_index index g) s) = []" if "\<And>i s. out_text (yields (g i) s) = []"
    for index :: "int option" and g :: "int \<Rightarrow> responses_gen"
    using that by (simp add: with_index_def gen_simps split: option.split)
  show "out_text (yields (handle_content_block_start e d) s) =
     (case as_obj (jget d ''content_block'') of
        Some b \<Rightarrow> (if jget b ''type'' = JStr ''text'' then string_value (jget b ''text'') else []) | None \<Rightarrow> [])"
    unfolding handle_content_block_start_def Let_def
    by (auto simp: safe [OF says] idx [OF reason] idx [OF start_text(2)] idx [OF start_text(3)] gen_simps split: option.split)
  show "out_text (yields (handle_content_block_delta e d) s) =
     (case as_obj (jget d ''delta'') of
        Some d \<Rightarrow> (if jget d ''type'' = JStr ''text_delta'' then string_value (jget d ''text'') else []) | None \<Rightarrow> [])"
  proof -
    have part: "out_text (yields (gread (\<lambda>s. gwhen (active_is is_tool_block i s) (gdo (append_part i p))) :: responses_gen) s) = []"
      for i p s by (simp add: gen_simps)
    show ?thesis
      unfolding handle_content_block_delta_def Let_def
      by (auto simp: safe [OF grow] idx [OF think] idx [OF part] gen_simps split: option.split)
  qed
  show "out_text (yields (handle_content_block_stop d) s) = []"
    unfolding handle_content_block_stop_def by (rule idx) simp
qed


lemma end_text: 
  "n \<noteq> ''response.output_text.delta'' \<Longrightarrow> out_text (yields (end_response e n st err) s) = []"
proof -
  assume n: "n \<noteq> ''response.output_text.delta''"
  have "out_text (yields ((\<lambda>s. let final = response_payload e st err s in
      ([response_event n [(''response'', JObj final)]], None, s\<lparr>rs_final := Some final, rs_terminal := True\<rparr>)) :: responses_gen) s) = []" for s
    using n by (simp add: yields_def Let_def)
  then show ?thesis unfolding end_response_def by (simp add: run_gseq)
qed

text \<open>One event: its text, and whether it ended the response.\<close>

lemma process_says:
  assumes f: "response_follows [] s c"
  shows "out_text (yields (process_anthropic_event e ev) s) = anthropic_text ev"
    and "rs_terminal (after (process_anthropic_event e ev) s) \<longleftrightarrow> ends_message ev"
proof -
  note F = followsD [OF f]
  have st: "yields (ensure_started e) s = []" "raised (ensure_started e) s = None" "after (ensure_started e) s = s"
    using F(7) by (simp_all add: ensure_started_def yields_def raised_def after_def)
  show "out_text (yields (process_anthropic_event e ev) s) = anthropic_text ev"
    using F(9) by (simp add: process_anthropic_event_def gen_simps st handled_text anthropic_text_def complete_response_def
        fail_response_def end_text)
  have live: "\<not> rs_terminal (after g s)" if "responses.steps (\<lambda>_. True) g" for g :: responses_gen
    by (rule responses.stepsD [OF that f]) (simp_all add: followsD(9))
  have over: "rs_terminal (after (complete_response e) s)" "rs_terminal (after (fail_response e d) s)" for d
    unfolding complete_response_def fail_response_def by (rule end_follows(2) [OF f]; simp)+
  show "rs_terminal (after (process_anthropic_event e ev) s) \<longleftrightarrow> ends_message ev"
    using F(9) live [OF block_start_follows] live [OF block_delta_follows] live [OF block_stop_follows]
      live [OF message_delta_follows] live [OF responses.steps_gskip] over
    by (auto simp: process_anthropic_event_def run_gread run_gwhen run_gseq st ends_message_def)
qed

lemma events_say:
  "response_follows [] s c \<Longrightarrow>
   out_text (responses_events e evs s) = concat (map anthropic_text (takeWhile (\<lambda>ev. \<not> ends_message ev) evs))"
proof (induction evs arbitrary: s c)
  case Nil
  note F = followsD [OF Nil]
  have st: "yields (ensure_started e) s = []" "raised (ensure_started e) s = None" "after (ensure_started e) s = s"
    using F(7) by (simp_all add: ensure_started_def yields_def raised_def after_def)
  show ?case using F(9) by (simp add: finish_if_needed_def gen_simps st complete_response_def end_text)
next
  case (Cons ev evs)
  note P = process_says [OF Cons.prems, of e ev]
  show ?case
  proof (cases "ends_message ev")
    case True
    then have "anthropic_text ev = []" by (auto simp: ends_message_def anthropic_text_def)
    with True P show ?thesis unfolding responses_events_Cons by simp
  next
    case False
    obtain c1 where "if rs_terminal (after (process_anthropic_event e ev) s) then rc_ended c1
        else response_follows [] (after (process_anthropic_event e ev) s) c1"
      using body_in_step [OF Cons.prems, of e ev] by (auto simp: in_step_def)
    then have "response_follows [] (after (process_anthropic_event e ev) s) c1" using P(2) False by simp
    from Cons.IH [OF this] P False show ?thesis unfolding responses_events_Cons by simp
  qed
qed

section \<open>Chunks\<close>

lemma split_stuck: "py_find [LF, LF] b = None \<Longrightarrow> split_buffer b = ([], b)"
  by (subst split_buffer.simps) simp

lemma split_step:
  "py_find [LF, LF] b = Some i \<Longrightarrow>
   split_buffer b = (case split_buffer (drop (i + 2) b) of
     (es, rest) \<Rightarrow> ((case parse_sse_event (take i b) of Some ev \<Rightarrow> ev # es | None \<Rightarrow> es), rest))"
  by (subst split_buffer.simps) simp

lemma split_rest: "split_buffer b = (es, rest) \<Longrightarrow> py_find [LF, LF] rest = None"
proof (induction b arbitrary: es rule: split_buffer.induct)
  case (1 b)
  show ?case
  proof (cases "py_find [LF, LF] b")
    case None
    with 1(2) split_stuck show ?thesis by simp
  next
    case (Some i)
    obtain es' rest' where r: "split_buffer (drop (i + 2) b) = (es', rest')" by fastforce
    with 1(2) split_step [OF Some] have "rest' = rest" by simp
    with 1(1) [OF Some] r show ?thesis by simp
  qed
qed

lemma split_append:
  "split_buffer (b @ c) = (case split_buffer b of (es, rest) \<Rightarrow> (case split_buffer (rest @ c) of (es', rest') \<Rightarrow> (es @ es', rest')))"
proof (induction b rule: split_buffer.induct)
  case (1 b)
  show ?case
  proof (cases "py_find [LF, LF] b")
    case None
    then show ?thesis by (simp add: split_stuck split: prod.split)
  next
    case (Some i)
    have l: "i + 2 \<le> length b" using py_find_Some_le [OF Some] by simp
    have d: "drop (i + 2) (b @ c) = drop (i + 2) b @ c" "take i (b @ c) = take i b" using l by simp_all
    show ?thesis
      unfolding split_step [OF find_append [OF Some list.distinct(2)]] split_step [OF Some] d 1 [OF Some]
      by (auto split: prod.split option.split)
  qed
qed

lemma chunk_events_concat:
  "py_find [LF, LF] b = None \<Longrightarrow>
   iter_chunk_events cs b = (case split_buffer (b @ concat cs) of (es, rest) \<Rightarrow> es @ iter_chunk_events [] rest)"
proof (induction cs arbitrary: b)
  case Nil
  then show ?case by (simp add: split_stuck)
next
  case (Cons c cs)
  obtain es rest where r: "split_buffer (b @ c) = (es, rest)" by fastforce
  note IH = Cons.IH [OF split_rest [OF r]]
  show ?case using IH split_append [of "b @ c" "concat cs"] r by (auto split: prod.splits)
qed

lemma chunks_join: "iter_chunk_events cs [] = iter_chunk_events [concat cs] []"
  using chunk_events_concat [of "[]" cs] chunk_events_concat [of "[]" "[concat cs]"] by simp

section \<open>Properties\<close>


end
