(* ===== verification/Responses_Names.thy ===== *)
theory Responses_Names
  imports Responses_Tools
begin

text \<open>
  Names of Responses tools: a namespaced tool gets a name Anthropic accepts, and the tools sent to
  the model come back under their own identity.
\<close>

section \<open>Well-formed names\<close>

lemma sub_invalid_valid: "list_all valid_name_char (sub_invalid r s)"
  by (induction s arbitrary: r) (auto simp: valid_name_char_def)

lemma strip_char_set: "set (strip_char c s) \<subseteq> set s"
  unfolding strip_char_def by (auto dest!: set_dropWhileD)

lemma name_part_valid: "list_all valid_name_char (tool_name_part v)" "tool_name_part v \<noteq> []"
proof -
  have "list_all valid_name_char (strip_char (CHR ''_'') (sub_invalid False v))"
    using strip_char_set [of "CHR ''_''" "sub_invalid False v"] sub_invalid_valid [of False v] by (auto simp: list_all_iff)
  moreover have "list_all valid_name_char ''tool''" by (simp add: valid_name_char_def)
  ultimately show "list_all valid_name_char (tool_name_part v)" by (simp add: tool_name_part_def Let_def)
qed (simp add: tool_name_part_def Let_def)

lemma hex_char_valid: "n < 16 \<Longrightarrow> valid_name_char (hex_char n)"
  by (auto simp: hex_char_def valid_name_char_def Let_def)

lemma hexdigest_valid: "list_all valid_name_char (hexdigest bs)"
proof -
  have "(of_char b :: nat) div 16 < 16" for b :: char using of_char_less [of b] by (simp add: less_mult_imp_div_less)
  then show ?thesis by (induction bs) (auto simp: hexdigest_def hex2_def hex_char_valid)
qed

text \<open>
  The Anthropic name of a tool in a namespace is not empty, has at most 64 characters, and only
  letters, digits, underscores and hyphens, whatever characters and length its own name has.
\<close>

lemma namespaced_name_bounds:
  assumes "ns \<noteq> []"
  shows "responses_tool_name_to_anthropic_name name (Some ns) \<noteq> [] \<and>
    length (responses_tool_name_to_anthropic_name name (Some ns)) \<le> MAX_ANTHROPIC_TOOL_NAME_LEN \<and>
    list_all valid_name_char (responses_tool_name_to_anthropic_name name (Some ns))"
proof -
  let ?c = "tool_name_part ns @ NAMESPACE_TOOL_SEPARATOR @ tool_name_part name"
  have c: "list_all valid_name_char ?c" "?c \<noteq> []"
    using name_part_valid by (simp_all add: NAMESPACE_TOOL_SEPARATOR_def valid_name_char_def)
  have d: "length (take 8 (sha1_hex ?c)) = 8" "list_all valid_name_char (take 8 (sha1_hex ?c))"
    using sha1_hex_length [of ?c] hexdigest_valid [of "sha1 ?c"] by (auto simp: sha1_hex_def list_all_iff dest: in_set_takeD)
  have p: "list_all valid_name_char (take n ?c)" for n using c(1) by (auto simp: list_all_iff dest: in_set_takeD)
  show ?thesis
    using assms c d p by (auto simp: responses_tool_name_to_anthropic_name_def nonempty_opt_def Let_def
        MAX_ANTHROPIC_TOOL_NAME_LEN_def valid_name_char_def)
qed

lemma namespaced_name_bounds_example:
  "length (responses_tool_name_to_anthropic_name ''read file?'' (Some ''mcp/files'')) \<le> MAX_ANTHROPIC_TOOL_NAME_LEN"
  using namespaced_name_bounds [of "''mcp/files''" "''read file?''"] by simp

section \<open>Identities\<close>

definition anthropic_name :: "tool_identity \<Rightarrow> string" where
  "anthropic_name i = responses_tool_name_to_anthropic_name (ti_name i) (ti_namespace i)"

text \<open>What one converted entry declares, and how a name is found in it.\<close>

definition declares :: "(string \<Rightarrow> tool_identity option) \<Rightarrow> jdict list \<Rightarrow> bool" where
  "declares find_name sent \<longleftrightarrow>
     (\<exists>ids. map (\<lambda>t. jget t ''name'') sent = map (\<lambda>i. JStr (anthropic_name i)) ids \<and>
        (\<forall>a. find_name a = List.find (\<lambda>i. anthropic_name i = a) ids))"

lemma find_list_append: "List.find p (xs @ ys) = (case List.find p xs of Some x \<Rightarrow> Some x | None \<Rightarrow> List.find p ys)"
  by (induction xs) auto

lemma declares_nil: "(\<And>a. f a = None) \<Longrightarrow> declares f []"
  by (auto simp: declares_def)

lemma declares_append:
  assumes "declares f xs" and "declares g ys"
  shows "declares (\<lambda>a. case f a of Some i \<Rightarrow> Some i | None \<Rightarrow> g a) (xs @ ys)"
proof -
  obtain ks js where "map (\<lambda>t. jget t ''name'') xs = map (\<lambda>i. JStr (anthropic_name i)) ks"
    "\<forall>a. f a = List.find (\<lambda>i. anthropic_name i = a) ks"
    "map (\<lambda>t. jget t ''name'') ys = map (\<lambda>i. JStr (anthropic_name i)) js" "\<forall>a. g a = List.find (\<lambda>i. anthropic_name i = a) js"
    using assms by (auto simp: declares_def)
  then show ?thesis unfolding declares_def by (intro exI [of _ "ks @ js"]) (simp add: find_list_append split: option.split)
qed

lemma required_strD: "required_str v f = Inr s \<Longrightarrow> as_str v = Some s \<and> s \<noteq> []"
  by (auto simp: required_str_def nonempty_opt_def split: option.splits if_splits)

lemma declares_one:
  assumes "convert_function_tool tool ns = Inr t \<and> jget tool ''type'' = JStr ''function'' \<or>
     convert_custom_tool tool ns = Inr t \<and> jget tool ''type'' = JStr ''custom''"
  shows "declares (\<lambda>a. match_tool ns a tool) [t]"
proof -
  obtain kind name where k: "jget t ''name'' = JStr (responses_tool_name_to_anthropic_name name ns)"
    "\<And>a. match_tool ns a tool = (if responses_tool_name_to_anthropic_name name ns = a
       then Some \<lparr>ti_kind = kind, ti_name = name, ti_namespace = ns\<rparr> else None)"
    using assms
  proof (elim disjE conjE)
    assume c: "convert_function_tool tool ns = Inr t" "jget tool ''type'' = JStr ''function''"
    then obtain name where n: "required_str (jget (function_source tool) ''name'') ''tool.name'' = Inr name"
      by (auto simp: convert_function_tool_def Let_def)
    have "jget t ''name'' = JStr (responses_tool_name_to_anthropic_name name ns)"
      using c(1) n by (auto simp: convert_function_tool_def Let_def split: if_splits)
    moreover have "match_tool ns a tool = (if responses_tool_name_to_anthropic_name name ns = a
       then Some \<lparr>ti_kind = FunctionTool, ti_name = name, ti_namespace = ns\<rparr> else None)" for a
      using required_strD [OF n] c(2) by (simp add: match_tool_def Let_def nonempty_opt_def optional_str_def)
    ultimately show thesis by (rule that)
  next
    assume c: "convert_custom_tool tool ns = Inr t" "jget tool ''type'' = JStr ''custom''"
    then obtain name where n: "required_str (jget (custom_source tool) ''name'') ''tool.name'' = Inr name"
      by (auto simp: convert_custom_tool_def Let_def)
    have "jget t ''name'' = JStr (responses_tool_name_to_anthropic_name name ns)"
      using c(1) n by (auto simp: convert_custom_tool_def Let_def)
    moreover have "match_tool ns a tool = (if responses_tool_name_to_anthropic_name name ns = a
       then Some \<lparr>ti_kind = CustomTool, ti_name = name, ti_namespace = ns\<rparr> else None)" for a
      using required_strD [OF n] c(2) by (simp add: match_tool_def Let_def nonempty_opt_def optional_str_def)
    ultimately show thesis by (rule that)
  qed
  then show ?thesis
    unfolding declares_def
    by (intro exI [of _ "[\<lparr>ti_kind = kind, ti_name = name, ti_namespace = ns\<rparr>]"]) (simp add: anthropic_name_def)
qed

lemma declares_nested:
  "rmap (convert_nested_tool ns) nested = Inr ts \<Longrightarrow> declares (\<lambda>a. match_nested ns a nested) ts"
proof (induction nested arbitrary: ts)
  case Nil
  then show ?case by (auto intro: declares_nil)
next
  case (Cons n nested)
  then obtain t rest where t: "convert_nested_tool ns n = Inr t" "rmap (convert_nested_tool ns) nested = Inr rest" "ts = t # rest"
    by auto
  obtain d where d: "as_obj n = Some d" using t(1) by (auto simp: convert_nested_tool_def split: option.splits)
  have "declares (\<lambda>a. match_tool (Some ns) a d) [t]"
    by (rule declares_one) (use t(1) d in \<open>auto simp: convert_nested_tool_def split: if_splits\<close>)
  from declares_append [OF this Cons.IH [OF t(2)]] d show ?case by (simp add: t(3))
qed

lemma declares_entry:
  assumes "convert_tool v = Inr ts"
  obtains d where "as_obj v = Some d" "declares (\<lambda>a. match_entry a d) ts"
proof -
  obtain d where d: "as_obj v = Some d" using assms by (auto simp: convert_tool_def split: option.splits)
  consider (plain) t where "ts = [t]" "convert_function_tool d None = Inr t \<and> jget d ''type'' = JStr ''function'' \<or>
        convert_custom_tool d None = Inr t \<and> jget d ''type'' = JStr ''custom''"
    | (nested) "jget d ''type'' = JStr ''namespace''" "convert_namespace_tool d = Inr ts"
    | (skip) "ts = []" "jget d ''type'' \<notin> {JStr ''function'', JStr ''custom'', JStr ''namespace''}"
    using assms d by (auto simp: convert_tool_def split: if_splits)
  then have "declares (\<lambda>a. match_entry a d) ts"
  proof cases
    case plain
    then show ?thesis using declares_one [of d None t] by (auto simp: match_entry_def)
  next
    case nested
    then obtain ns xs where n: "required_str (jget d ''name'') ''tool.namespace.name'' = Inr ns" "as_list (jget d ''tools'') = Some xs"
      "rmap (convert_nested_tool ns) xs = Inr ts"
      by (auto simp: convert_namespace_tool_def split: option.splits)
    have "match_entry a d = match_nested ns a xs" for a
      using nested(1) n(2) required_strD [OF n(1)] by (simp add: match_entry_def nonempty_opt_def optional_str_def)
    with declares_nested [OF n(3)] show ?thesis by simp
  next
    case skip
    then show ?thesis by (auto simp: match_entry_def match_tool_def Let_def intro: declares_nil)
  qed
  with d show thesis by (rule that)
qed

lemma declares_tools: "rmap convert_tool tools = Inr tss \<Longrightarrow> declares (\<lambda>a. match_tools a tools) (concat tss)"
proof (induction tools arbitrary: tss)
  case Nil
  then show ?case by (auto intro: declares_nil)
next
  case (Cons v tools)
  then obtain ts rest where t: "convert_tool v = Inr ts" "rmap convert_tool tools = Inr rest" "tss = ts # rest" by auto
  obtain d where d: "as_obj v = Some d" "declares (\<lambda>a. match_entry a d) ts" by (rule declares_entry [OF t(1)])
  from declares_append [OF d(2) Cons.IH [OF t(2)]] d(1) show ?case by (simp add: t(3))
qed

lemma find_own:
  assumes "distinct (map anthropic_name ids)" and "i \<in> set ids"
  shows "List.find (\<lambda>j. anthropic_name j = anthropic_name i) ids = Some i"
  using assms by (induction ids) (auto simp: image_iff)


definition two_tools :: jdict where
  "two_tools = [(''tools'', JArr [
     JObj [(''type'', JStr ''custom''), (''name'', JStr ''patch'')],
     JObj [(''type'', JStr ''namespace''), (''name'', JStr ''fs''),
           (''tools'', JArr [JObj [(''type'', JStr ''function''), (''name'', JStr ''patch'')]])]])]"

lemma two_tools_names:
  "responses_tool_name_to_anthropic_name ''patch'' None = ''patch''"
  "responses_tool_name_to_anthropic_name ''patch'' (Some ''fs'') = ''fs__patch''"
  by (simp_all add: responses_tool_name_to_anthropic_name_def nonempty_opt_def Let_def tool_name_part_def valid_name_char_def
      strip_char_def NAMESPACE_TOOL_SEPARATOR_def MAX_ANTHROPIC_TOOL_NAME_LEN_def)


end
