(* ===== verification/Responses_Input.thy ===== *)
theory Responses_Input
  imports Responses_Tools
begin

text \<open>
  Requests of the OpenAI Responses adapter (\<open>core/openai_responses/input.py\<close> and \<open>reasoning.py\<close>):
  each input item is appended to the Anthropic messages or the system text, reasoning waits for the
  next message, and the rest of the request is copied or converted.

  The lists the code passes around are one record; \<open>uuids\<close> gives the hex text of each \<open>uuid4\<close>.
\<close>

section \<open>Reasoning\<close>

definition text_part_of :: "string \<Rightarrow> json \<Rightarrow> string option" where
  "text_part_of item_type item =
     (case as_obj item of
        Some d \<Rightarrow> (if jget d ''type'' = JStr item_type then nonempty_opt (optional_str (jget d ''text'')) else None)
      | None \<Rightarrow> None)"

definition text_parts_from_items :: "json \<Rightarrow> string \<Rightarrow> string list" where
  "text_parts_from_items value item_type =
     (case as_list value of Some items \<Rightarrow> List.map_filter (text_part_of item_type) items | None \<Rightarrow> [])"

definition reasoning_text_from_item :: "jdict \<Rightarrow> string option" where
  "reasoning_text_from_item item =
     (let content_parts = text_parts_from_items (jget item ''content'') ''reasoning_text'';
          summary_parts = text_parts_from_items (jget item ''summary'') ''summary_text''
      in if content_parts \<noteq> [] then Some (py_join [LF] content_parts)
         else if summary_parts \<noteq> [] then Some (py_join [LF] summary_parts) else None)"

definition combine_reasoning :: "string option \<Rightarrow> string option \<Rightarrow> string option" where
  "combine_reasoning existing addition =
     (case nonempty_opt addition of
        None \<Rightarrow> existing
      | Some a \<Rightarrow> (case nonempty_opt existing of None \<Rightarrow> Some a | Some x \<Rightarrow> Some (x @ [LF] @ a)))"

definition responses_reasoning_to_thinking :: "json \<Rightarrow> jdict option" where
  "responses_reasoning_to_thinking value =
     (case as_obj value of
        None \<Rightarrow> None
      | Some d \<Rightarrow>
          if jget d ''effort'' = JStr ''none'' then Some [(''type'', JStr ''disabled''), (''enabled'', JBool False)]
          else if list_ex (\<lambda>v. v \<noteq> JNull) (dvalues d) then Some [(''type'', JStr ''enabled''), (''enabled'', JBool True)]
          else None)"

section \<open>Content\<close>

definition text_from_part :: "jdict \<Rightarrow> string" where
  "text_from_part part =
     (let field = (\<lambda>k. nonempty_opt (optional_str (jget part k)))
      in case field ''text'' of Some t \<Rightarrow> t
         | None \<Rightarrow> (case field ''input_text'' of Some t \<Rightarrow> t
                    | None \<Rightarrow> (case field ''output_text'' of Some t \<Rightarrow> t | None \<Rightarrow> [])))"

definition text_block :: "string \<Rightarrow> json" where
  "text_block t = JObj [(''type'', JStr ''text''), (''text'', JStr t)]"

definition TEXT_TYPES :: "string list" where
  "TEXT_TYPES = [''input_text'', ''output_text'', ''text'']"

definition convert_part :: "json \<Rightarrow> json conversion" where
  "convert_part part =
     (case part of
        JStr s \<Rightarrow> Inr (text_block s)
      | JObj d \<Rightarrow>
          rbind (in_names (jget d ''type'') TEXT_TYPES) (\<lambda>known.
            if known \<or> ''text'' \<in> set (dkeys d) then Inr (text_block (text_from_part d))
            else if jget d ''type'' = JStr ''refusal''
            then Inr (text_block (py_str (jget_default d ''refusal'' (JStr []))))
            else Inl (ConversionError (''Unsupported Responses content part type: '' @ py_repr (jget d ''type''))))
      | _ \<Rightarrow> Inl (ConversionError (''Unsupported Responses content part: '' @ type_name part)))"

definition convert_message_content :: "json \<Rightarrow> json conversion" where
  "convert_message_content content =
     (case content of
        JStr s \<Rightarrow> Inr (JStr s)
      | JArr parts \<Rightarrow> rbind (rmap convert_part parts) (\<lambda>blocks. Inr (JArr blocks))
      | JObj d \<Rightarrow> Inr (JArr [text_block (text_from_part d)])
      | _ \<Rightarrow> Inl (ConversionError (''Unsupported Responses message content: '' @ type_name content)))"

text \<open>Every converted block is a text block, so \<open>block.get\<close> finds its text.\<close>

definition block_text :: "json \<Rightarrow> string" where
  "block_text block = (case as_obj block of Some d \<Rightarrow> py_str (jget_default d ''text'' (JStr [])) | None \<Rightarrow> [])"

definition content_as_text :: "json \<Rightarrow> string conversion" where
  "content_as_text content =
     rbind (convert_message_content content) (\<lambda>converted.
       case converted of
         JStr s \<Rightarrow> Inr s
       | JArr blocks \<Rightarrow> Inr (py_join [LF] (map block_text blocks))
       | _ \<Rightarrow> Inr [])"

section \<open>Input items\<close>

record input_state =
  is_messages :: "jdict list"
  is_system :: "string list"
  is_pending :: "string option"
  is_uuids :: nat

definition append_message :: "jdict \<Rightarrow> input_state \<Rightarrow> input_state" where
  "append_message m s = s\<lparr>is_messages := is_messages s @ [m]\<rparr>"

definition append_pending_reasoning :: "input_state \<Rightarrow> input_state" where
  "append_pending_reasoning s =
     (case nonempty_opt (is_pending s) of
        Some r \<Rightarrow> append_message [(''role'', JStr ''assistant''), (''content'', JStr []), (''reasoning_content'', JStr r)] s
      | None \<Rightarrow> s)"

definition with_reasoning :: "string option \<Rightarrow> jdict \<Rightarrow> jdict" where
  "with_reasoning reasoning message =
     (case nonempty_opt reasoning of Some r \<Rightarrow> message @ [(''reasoning_content'', JStr r)] | None \<Rightarrow> message)"

definition append_message_item :: "string \<Rightarrow> json \<Rightarrow> string option \<Rightarrow> input_state \<Rightarrow> input_state conversion" where
  "append_message_item role content reasoning_content s =
     (let normalized_role = (if role = ''developer'' then ''system'' else role)
      in if normalized_role = ''system'' then
           rbind (content_as_text content) (\<lambda>t. Inr (if t = [] then s else s\<lparr>is_system := is_system s @ [t]\<rparr>))
         else if normalized_role \<noteq> ''user'' \<and> normalized_role \<noteq> ''assistant'' then
           Inl (ConversionError (''Unsupported Responses message role: '' @ str_repr role))
         else
           rbind (convert_message_content content) (\<lambda>converted.
             let message = [(''role'', JStr normalized_role), (''content'', converted)]
             in Inr (append_message
                  (if normalized_role = ''assistant'' then with_reasoning reasoning_content message else message) s)))"

definition clear_pending :: "input_state \<Rightarrow> input_state" where
  "clear_pending s = s\<lparr>is_pending := None\<rparr>"

text \<open>A call id is generated only when the item has none.\<close>

definition take_call_id :: "(nat \<Rightarrow> string) \<Rightarrow> jdict \<Rightarrow> input_state \<Rightarrow> string \<times> input_state" where
  "take_call_id uuids item s =
     (let given = nonempty_opt (optional_str (jget item ''call_id'')) \<noteq> None \<or>
                  nonempty_opt (optional_str (jget item ''id'')) \<noteq> None
      in (call_id_from_item (uuids (is_uuids s)) item, if given then s else s\<lparr>is_uuids := Suc (is_uuids s)\<rparr>))"

definition tool_call_message :: "string \<Rightarrow> string \<Rightarrow> string option \<Rightarrow> jdict \<Rightarrow> jdict" where
  "tool_call_message call_id name namespace tool_input =
     [(''role'', JStr ''assistant''),
      (''content'', JArr [JObj [(''type'', JStr ''tool_use''), (''id'', JStr call_id),
         (''name'', JStr (responses_tool_name_to_anthropic_name name namespace)), (''input'', JObj tool_input)]])]"

definition append_tool_call :: "(nat \<Rightarrow> string) \<Rightarrow> string \<Rightarrow> jdict \<Rightarrow> input_state \<Rightarrow> input_state conversion" where
  "append_tool_call uuids item_type item s =
     rbind (required_str (jget item ''name'') (item_type @ ''.name'')) (\<lambda>name.
       rbind (if item_type = ''custom_tool_call'' then Inr (custom_tool_input_to_anthropic (jget item ''input''))
              else parse_arguments (jget item ''arguments'')) (\<lambda>tool_input.
         case take_call_id uuids item s of
           (call_id, s) \<Rightarrow>
             Inr (clear_pending (append_message
               (with_reasoning (is_pending s)
                  (tool_call_message call_id name (optional_str (jget item ''namespace'')) tool_input)) s))))"

definition append_tool_output :: "(nat \<Rightarrow> string) \<Rightarrow> jdict \<Rightarrow> input_state \<Rightarrow> input_state" where
  "append_tool_output uuids item s =
     (case take_call_id uuids item (append_pending_reasoning s) of
        (call_id, s) \<Rightarrow>
          clear_pending (append_message
            [(''role'', JStr ''user''),
             (''content'', JArr [JObj [(''type'', JStr ''tool_result''), (''tool_use_id'', JStr call_id),
                (''content'', jget_default item ''output'' (JStr []))]])] s))"

definition append_role_item :: "jdict \<Rightarrow> input_state \<Rightarrow> input_state conversion" where
  "append_role_item item s =
     rbind (required_str (jget_default item ''role'' (JStr ''user'')) ''input.role'') (\<lambda>role.
       let content = jget_default item ''content'' (JStr [])
       in rbind (if role = ''assistant'' then append_message_item role content (is_pending s) s
                 else append_message_item role content None (append_pending_reasoning s)) (\<lambda>s.
            Inr (clear_pending s)))"

definition append_input_item :: "(nat \<Rightarrow> string) \<Rightarrow> json \<Rightarrow> input_state \<Rightarrow> input_state conversion" where
  "append_input_item uuids item s =
     (case item of
        JStr t \<Rightarrow>
          Inr (clear_pending (append_message [(''role'', JStr ''user''), (''content'', JStr t)] (append_pending_reasoning s)))
      | JObj d \<Rightarrow>
          (let item_type = jget d ''type''
           in if item_type = JNull \<or> item_type = JStr ''message'' \<or> ''role'' \<in> set (dkeys d) then append_role_item d s
              else rbind (in_names item_type [''function_call'', ''custom_tool_call'']) (\<lambda>call.
                if call then append_tool_call uuids (py_str item_type) d s
                else if item_type = JStr ''function_call_output'' \<or> item_type = JStr ''custom_tool_call_output''
                then Inr (append_tool_output uuids d s)
                else if item_type = JStr ''reasoning''
                then Inr (s\<lparr>is_pending := combine_reasoning (is_pending s) (reasoning_text_from_item d)\<rparr>)
                else if item_type = JStr ''input_text'' \<or> item_type = JStr ''output_text'' \<or> item_type = JStr ''text''
                then Inr (clear_pending (append_message [(''role'', JStr ''user''), (''content'', JStr (text_from_part d))]
                       (append_pending_reasoning s)))
                else Inl (ConversionError (''Unsupported Responses input item type: '' @ py_repr item_type))))
      | _ \<Rightarrow> Inl (ConversionError (''Unsupported Responses input item: '' @ type_name item)))"

fun append_input_items :: "(nat \<Rightarrow> string) \<Rightarrow> json list \<Rightarrow> input_state \<Rightarrow> input_state conversion" where
  "append_input_items uuids [] s = Inr s"
| "append_input_items uuids (i # items) s = rbind (append_input_item uuids i s) (append_input_items uuids items)"

definition iter_input_items :: "json \<Rightarrow> json list" where
  "iter_input_items value = (case value of JNull \<Rightarrow> [] | JArr items \<Rightarrow> items | _ \<Rightarrow> [value])"

section \<open>The request\<close>

definition copy_if_present :: "jdict \<Rightarrow> string \<Rightarrow> string \<Rightarrow> jdict" where
  "copy_if_present source field_name target_name =
     (if jget source field_name \<noteq> JNull then [(target_name, jget source field_name)] else [])"

definition request_start :: "jdict \<Rightarrow> input_state" where
  "request_start request =
     \<lparr>is_messages = [],
      is_system = (case nonempty_opt (optional_str (jget request ''instructions'')) of Some i \<Rightarrow> [i] | None \<Rightarrow> []),
      is_pending = None, is_uuids = 0\<rparr>"

text \<open>The keys after the messages, in the order the code sets them.\<close>

definition payload_options :: "jdict \<Rightarrow> string list \<Rightarrow> jdict" where
  "payload_options request system_parts =
     (if system_parts \<noteq> [] then [(''system'', JStr (py_join [LF, LF] system_parts))] else []) @
     copy_if_present request ''temperature'' ''temperature'' @ copy_if_present request ''top_p'' ''top_p'' @
     copy_if_present request ''max_output_tokens'' ''max_tokens'' @
     (case as_obj (jget request ''metadata'') of Some m \<Rightarrow> [(''metadata'', JObj m)] | None \<Rightarrow> []) @
     (case responses_reasoning_to_thinking (jget request ''reasoning'') of
        Some t \<Rightarrow> [(''thinking'', JObj t)] | None \<Rightarrow> [])"

definition convert_request_to_anthropic_payload :: "(nat \<Rightarrow> string) \<Rightarrow> jdict \<Rightarrow> jdict conversion" where
  "convert_request_to_anthropic_payload uuids request =
     rbind (append_input_items uuids (iter_input_items (jget request ''input'')) (request_start request)) (\<lambda>s.
       let s = append_pending_reasoning s
       in if is_messages s = [] then Inl (ConversionError ''Responses request input must contain a message'')
          else
            rbind (required_str (jget request ''model'') ''model'') (\<lambda>model.
            rbind (convert_tools (jget request ''tools'')) (\<lambda>tools.
            rbind (convert_tool_choice (jget request ''tool_choice'')) (\<lambda>tool_choice.
              Inr ([(''model'', JStr model), (''messages'', JArr (map JObj (is_messages s))), (''stream'', JBool True)] @
                payload_options request (is_system s) @
                (case tools of
                   Some ts \<Rightarrow> (if ts \<noteq> [] \<and> jget request ''tool_choice'' \<noteq> JStr ''none''
                               then [(''tools'', JArr (map JObj ts))] else [])
                 | None \<Rightarrow> []) @
                (case tool_choice of Some c \<Rightarrow> [(''tool_choice'', JObj c)] | None \<Rightarrow> []))))))"

end
