(* ===== verification/Responses_Kept.thy ===== *)
theory Responses_Kept
  imports Responses_Input
begin

text \<open>
  What the conversion of a Responses request keeps: every message has a role Anthropic knows, the
  reasoning of all items is there in order, and calls and their results keep their ids in order.
\<close>

section \<open>What a message holds\<close>

definition message_reasoning :: "jdict \<Rightarrow> string list" where
  "message_reasoning m = (case jget m ''reasoning_content'' of JStr r \<Rightarrow> [r] | _ \<Rightarrow> [])"

definition block_call :: "json \<Rightarrow> string list" where
  "block_call block =
     (case as_obj block of
        Some d \<Rightarrow>
          (if jget d ''type'' = JStr ''tool_use'' then (case jget d ''id'' of JStr i \<Rightarrow> [i] | _ \<Rightarrow> [])
           else if jget d ''type'' = JStr ''tool_result'' then (case jget d ''tool_use_id'' of JStr i \<Rightarrow> [i] | _ \<Rightarrow> [])
           else [])
      | None \<Rightarrow> [])"

definition message_calls :: "jdict \<Rightarrow> string list" where
  "message_calls m = (case jget m ''content'' of JArr bs \<Rightarrow> concat (map block_call bs) | _ \<Rightarrow> [])"

definition known_role :: "jdict \<Rightarrow> bool" where
  "known_role m \<longleftrightarrow> jget m ''role'' = JStr ''user'' \<or> jget m ''role'' = JStr ''assistant''"

text \<open>Each reasoning text on lines of its own.\<close>

definition reasoning_lines :: "string list \<Rightarrow> string" where
  "reasoning_lines rs = concat (map (\<lambda>r. r @ [LF]) rs)"

section \<open>What an item holds\<close>

definition plain_item :: "jdict \<Rightarrow> bool" where
  "plain_item d \<longleftrightarrow> jget d ''type'' = JNull \<or> jget d ''type'' = JStr ''message'' \<or> ''role'' \<in> set (dkeys d)"

definition item_reasoning :: "json \<Rightarrow> string list" where
  "item_reasoning item =
     (case as_obj item of
        Some d \<Rightarrow>
          (if \<not> plain_item d \<and> jget d ''type'' = JStr ''reasoning''
           then (case reasoning_text_from_item d of Some r \<Rightarrow> [r] | None \<Rightarrow> []) else [])
      | None \<Rightarrow> [])"

definition call_item :: "jdict \<Rightarrow> bool" where
  "call_item d \<longleftrightarrow> \<not> plain_item d \<and> jget d ''type'' \<in> {JStr ''function_call'', JStr ''custom_tool_call'',
     JStr ''function_call_output'', JStr ''custom_tool_call_output''}"

definition given_call_id :: "jdict \<Rightarrow> string option" where
  "given_call_id d =
     (case nonempty_opt (as_str (jget d ''call_id'')) of Some i \<Rightarrow> Some i | None \<Rightarrow> nonempty_opt (as_str (jget d ''id'')))"

definition item_calls :: "json \<Rightarrow> string list" where
  "item_calls item =
     (case as_obj item of
        Some d \<Rightarrow> (if call_item d then (case given_call_id d of Some i \<Rightarrow> [i] | None \<Rightarrow> []) else [])
      | None \<Rightarrow> [])"

text \<open>A call or a result names its call.\<close>

definition names_call :: "json \<Rightarrow> bool" where
  "names_call item = (case as_obj item of Some d \<Rightarrow> (if call_item d then given_call_id d \<noteq> None else True) | None \<Rightarrow> True)"

section \<open>Each step\<close>

lemma map_filter_mem: "y \<in> set (List.map_filter f xs) \<Longrightarrow> \<exists>x. x \<in> set xs \<and> f x = Some y"
  by (induction xs) (auto simp: map_filter_simps split: option.splits)

lemma reasoning_nonempty: "reasoning_text_from_item d = Some r \<Longrightarrow> r \<noteq> []"
proof -
  have ne: "p \<noteq> []" if "p \<in> set (text_parts_from_items v t)" for p v t
    using that by (auto simp: text_parts_from_items_def text_part_of_def nonempty_opt_def dest!: map_filter_mem
        split: option.splits if_splits)
  have j: "py_join [LF] ps \<noteq> []" if "ps \<noteq> []" "\<And>p. p \<in> set ps \<Longrightarrow> p \<noteq> []" for ps
    using that by (cases ps; cases "tl ps") auto
  assume "reasoning_text_from_item d = Some r"
  then show "r \<noteq> []" using j ne by (auto simp: reasoning_text_from_item_def Let_def split: if_splits)
qed

definition pending_reasoning :: "input_state \<Rightarrow> string list" where
  "pending_reasoning s = (case nonempty_opt (is_pending s) of Some r \<Rightarrow> [r] | None \<Rightarrow> [])"

definition all_reasoning :: "input_state \<Rightarrow> string" where
  "all_reasoning s = reasoning_lines (concat (map message_reasoning (is_messages s)) @ pending_reasoning s)"

definition all_calls :: "input_state \<Rightarrow> string list" where
  "all_calls s = concat (map message_calls (is_messages s))"

definition roles_known :: "input_state \<Rightarrow> bool" where
  "roles_known s = list_all known_role (is_messages s)"

lemma lines_simps [simp]: "reasoning_lines [] = []" "reasoning_lines (r # rs) = r @ LF # reasoning_lines rs"
  "reasoning_lines (rs @ qs) = reasoning_lines rs @ reasoning_lines qs"
  by (simp_all add: reasoning_lines_def)

text \<open>\<open>s'\<close> has what \<open>s\<close> has, then the given reasoning and calls.\<close>

definition extends_by :: "string list \<Rightarrow> string list \<Rightarrow> input_state \<Rightarrow> input_state \<Rightarrow> bool" where
  "extends_by rs cs s s' \<longleftrightarrow>
     all_reasoning s' = all_reasoning s @ reasoning_lines rs \<and> all_calls s' = all_calls s @ cs \<and>
     (roles_known s \<longrightarrow> roles_known s')"

lemma flushed_pending:
  "all_reasoning (clear_pending (append_pending_reasoning s)) = all_reasoning s"
  "all_calls (append_pending_reasoning s) = all_calls s"
  "roles_known (append_pending_reasoning s) = roles_known s"
  "is_system (append_pending_reasoning s) = is_system s" "is_uuids (append_pending_reasoning s) = is_uuids s"
  "is_pending (append_pending_reasoning s) = is_pending s"
  by (auto simp: append_pending_reasoning_def all_reasoning_def all_calls_def roles_known_def pending_reasoning_def
      clear_pending_def append_message_def message_reasoning_def message_calls_def known_role_def nonempty_opt_def
      split: option.splits if_splits)

lemma appended_message:
  "all_reasoning (clear_pending (append_message m s)) =
     reasoning_lines (concat (map message_reasoning (is_messages s)) @ message_reasoning m)"
  "all_calls (append_message m s) = all_calls s @ message_calls m"
  "roles_known (append_message m s) \<longleftrightarrow> roles_known s \<and> known_role m"
  "all_calls (clear_pending s) = all_calls s" "roles_known (clear_pending s) = roles_known s"
  by (auto simp: append_message_def clear_pending_def all_reasoning_def all_calls_def roles_known_def pending_reasoning_def
      nonempty_opt_def)

lemma jget_app: "jget (d @ e) k = (if k \<in> set (dkeys d) then jget d k else jget e k)"
  by (auto simp: jget_def map_add_def map_of_eq_None_iff split: option.split dest: map_of_SomeD) (force dest: map_of_SomeD)+

lemma with_reasoning_holds:
  assumes "''reasoning_content'' \<notin> set (dkeys m)"
  shows "message_reasoning (with_reasoning r m) = (case nonempty_opt r of Some x \<Rightarrow> [x] | None \<Rightarrow> [])"
    and "message_reasoning m = []"
    and "message_calls (with_reasoning r m) = message_calls m" and "known_role m \<Longrightarrow> known_role (with_reasoning r m)"
proof -
  have n: "jget m ''reasoning_content'' = JNull" using assms by (simp add: jget_def map_of_eq_None_iff [symmetric] del: map_of_eq_None_iff)
  then show "message_reasoning m = []" by (simp add: message_reasoning_def)
  show "message_reasoning (with_reasoning r m) = (case nonempty_opt r of Some x \<Rightarrow> [x] | None \<Rightarrow> [])"
    using assms n by (simp add: with_reasoning_def message_reasoning_def jget_app split: option.split)
  show "message_calls (with_reasoning r m) = message_calls m"
    by (auto simp: with_reasoning_def message_calls_def jget_app split: option.split json.split)
       (auto simp: jget_def map_of_eq_None_iff [symmetric] simp del: map_of_eq_None_iff)
  show "known_role m \<Longrightarrow> known_role (with_reasoning r m)"
    by (auto simp: with_reasoning_def known_role_def jget_app split: option.split)
       (auto simp: jget_def map_of_eq_None_iff [symmetric] simp del: map_of_eq_None_iff)
qed


lemma clear_reasoning: "all_reasoning (clear_pending s) = reasoning_lines (concat (map message_reasoning (is_messages s)))"
  by (simp add: all_reasoning_def clear_pending_def pending_reasoning_def nonempty_opt_def)

lemma flushed_lines:
  "reasoning_lines (concat (map message_reasoning (is_messages (append_pending_reasoning s)))) = all_reasoning s"
  using flushed_pending(1) [of s] by (simp only: clear_reasoning)

text \<open>A message after the waiting reasoning went out, and one that takes it along.\<close>

lemma after_flush:
  assumes "''reasoning_content'' \<notin> set (dkeys m)" and "message_calls m = cs" and "known_role m"
    and "is_messages t = is_messages (append_pending_reasoning s)"
  shows "extends_by [] cs s (clear_pending (append_message m t))"
  using assms(2,3) with_reasoning_holds(2) [OF assms(1)] flushed_pending(2,3) [of s] flushed_lines [of s] assms(4)
  by (simp add: extends_by_def appended_message) (simp add: all_calls_def roles_known_def assms(4))

lemma taking_pending:
  assumes "''reasoning_content'' \<notin> set (dkeys m)" and "message_calls m = cs" and "known_role m"
    and "is_messages t = is_messages s"
  shows "extends_by [] cs s (clear_pending (append_message (with_reasoning (is_pending s) m) t))"
  using assms(2-4) with_reasoning_holds [OF assms(1)]
  by (simp add: extends_by_def appended_message)
     (simp add: all_reasoning_def pending_reasoning_def all_calls_def roles_known_def assms(4) split: option.split)

lemma text_block_quiet: "block_call (text_block t) = []"
  by (simp add: block_call_def text_block_def)

lemma convert_part_quiet: "convert_part p = Inr b \<Longrightarrow> block_call b = []"
  by (auto simp: convert_part_def text_block_quiet split: json.splits if_splits)

lemma converted_quiet:
  assumes "convert_message_content content = Inr j"
  shows "message_calls [(''role'', r), (''content'', j)] = []"
proof (cases content)
  case (JArr parts)
  then obtain bs where bs: "rmap convert_part parts = Inr bs" "j = JArr bs" using assms by (auto simp: convert_message_content_def)
  have "block_call b = []" if "b \<in> set bs" for b
    using rmap_all [OF bs(1)] that by (auto simp: list_all2_conv_all_nth in_set_conv_nth intro: convert_part_quiet)
  then show ?thesis using bs(2) by (simp add: message_calls_def)
qed (use assms in \<open>auto simp: convert_message_content_def message_calls_def text_block_quiet\<close>)

lemma role_item_extends:
  assumes "append_role_item d s = Inr s'"
  shows "extends_by [] [] s s'"
proof -
  let ?content = "jget_default d ''content'' (JStr [])"
  obtain role where role: "required_str (jget_default d ''role'' (JStr ''user'')) ''input.role'' = Inr role"
    using assms by (auto simp: append_role_item_def)
  consider (assistant) j where "role = ''assistant''" "convert_message_content ?content = Inr j"
      "s' = clear_pending (append_message (with_reasoning (is_pending s) [(''role'', JStr ''assistant''), (''content'', j)]) s)"
    | (system) t where "s' = clear_pending ((append_pending_reasoning s)\<lparr>is_system := t\<rparr>)"
    | (user) j where "convert_message_content ?content = Inr j"
      "s' = clear_pending (append_message [(''role'', JStr ''user''), (''content'', j)] (append_pending_reasoning s))"
  proof -
    note defs = append_role_item_def append_message_item_def role Let_def
    show thesis
    proof (cases "role = ''assistant''")
      case True
      with assms show thesis by (auto simp: defs intro: assistant)
    next
      case False
      show thesis
      proof (cases "role = ''developer'' \<or> role = ''system''")
        case True
        then obtain t where "s' = clear_pending (if t = [] then append_pending_reasoning s
            else (append_pending_reasoning s)\<lparr>is_system := is_system (append_pending_reasoning s) @ [t]\<rparr>)"
          using assms by (auto simp: defs)
        then show thesis
          by (intro system [of "if t = [] then is_system (append_pending_reasoning s) else is_system (append_pending_reasoning s) @ [t]"]) simp
      next
        case other: False
        with False assms show thesis by (auto simp: defs split: if_splits intro: user)
      qed
    qed
  qed
  then show ?thesis
  proof cases
    case assistant
    show ?thesis unfolding assistant(3)
      by (rule taking_pending) (simp_all add: converted_quiet [OF assistant(2)] known_role_def)
  next
    case system
    then show ?thesis
      using flushed_lines [of s] flushed_pending(2,3) [of s]
      by (simp add: extends_by_def clear_reasoning appended_message) (simp add: all_calls_def roles_known_def)
  next
    case user
    show ?thesis unfolding user(2)
      by (rule after_flush) (simp_all add: converted_quiet [OF user(1)] known_role_def)
  qed
qed

lemma call_id_given:
  assumes "given_call_id d = Some i"
  shows "take_call_id uuids d s = (i, s)"
proof -
  have "call_id_from_item h d = i" for h
    using assms by (auto simp: call_id_from_item_def given_call_id_def optional_str_def split: option.splits)
  moreover have "nonempty_opt (as_str (jget d ''call_id'')) \<noteq> None \<or> nonempty_opt (as_str (jget d ''id'')) \<noteq> None"
    using assms by (auto simp: given_call_id_def split: option.splits)
  ultimately show ?thesis by (auto simp: take_call_id_def optional_str_def)
qed

lemma tool_call_extends:
  assumes "append_tool_call uuids ty d s = Inr s'" and "given_call_id d = Some i"
  shows "extends_by [] [i] s s'"
proof -
  obtain name input where s': "s' = clear_pending (append_message (with_reasoning (is_pending s)
      (tool_call_message i name (optional_str (jget d ''namespace'')) input)) s)"
    using assms(1) by (auto simp: append_tool_call_def call_id_given [OF assms(2)])
  show ?thesis unfolding s'
    by (rule taking_pending) (simp_all add: tool_call_message_def message_calls_def block_call_def known_role_def)
qed

lemma tool_output_extends:
  assumes "given_call_id d = Some i"
  shows "extends_by [] [i] s (append_tool_output uuids d s)"
  unfolding append_tool_output_def call_id_given [OF assms] prod.case
  by (rule after_flush) (simp_all add: message_calls_def block_call_def known_role_def)

lemma reasoning_extends:
  "extends_by (case reasoning_text_from_item d of Some r \<Rightarrow> [r] | None \<Rightarrow> []) [] s
     (s\<lparr>is_pending := combine_reasoning (is_pending s) (reasoning_text_from_item d)\<rparr>)"
  using reasoning_nonempty [of d]
  by (auto simp: extends_by_def all_reasoning_def all_calls_def roles_known_def pending_reasoning_def combine_reasoning_def
      nonempty_opt_def split: option.split if_splits)

lemma item_extends:
  assumes "append_input_item uuids item s = Inr s'" and "names_call item"
  shows "extends_by (item_reasoning item) (item_calls item) s s'"
proof (cases item)
  case (JStr t)
  then have s': "s' = clear_pending (append_message [(''role'', JStr ''user''), (''content'', JStr t)] (append_pending_reasoning s))"
    using assms(1) by (simp add: append_input_item_def)
  have q: "item_reasoning item = []" "item_calls item = []" by (simp_all add: JStr item_reasoning_def item_calls_def)
  show ?thesis unfolding s' q by (rule after_flush) (simp_all add: message_calls_def known_role_def)
next
  case (JObj d)
  note item = this
  show ?thesis
  proof (cases "plain_item d")
    case True
    then have "append_role_item d s = Inr s'" using assms(1) item by (auto simp: append_input_item_def plain_item_def Let_def)
    moreover have "item_reasoning item = []" "item_calls item = []"
      using True item by (simp_all add: item_reasoning_def item_calls_def call_item_def)
    ultimately show ?thesis using role_item_extends by simp
  next
    case False
    note np = this
    have body: "rbind (in_names (jget d ''type'') [''function_call'', ''custom_tool_call'']) (\<lambda>call.
                if call then append_tool_call uuids (py_str (jget d ''type'')) d s
                else if jget d ''type'' = JStr ''function_call_output'' \<or> jget d ''type'' = JStr ''custom_tool_call_output''
                then Inr (append_tool_output uuids d s)
                else if jget d ''type'' = JStr ''reasoning''
                then Inr (s\<lparr>is_pending := combine_reasoning (is_pending s) (reasoning_text_from_item d)\<rparr>)
                else if jget d ''type'' = JStr ''input_text'' \<or> jget d ''type'' = JStr ''output_text'' \<or> jget d ''type'' = JStr ''text''
                then Inr (clear_pending (append_message [(''role'', JStr ''user''), (''content'', JStr (text_from_part d))]
                       (append_pending_reasoning s)))
                else Inl (ConversionError (''Unsupported Responses input item type: '' @ py_repr (jget d ''type'')))) = Inr s'"
      using assms(1) False item by (simp add: append_input_item_def plain_item_def Let_def)
    then obtain ty where ty: "jget d ''type'' = JStr ty"
      by (cases "jget d ''type''") (auto simp: in_names_def split: if_splits)
    have ids: "given_call_id d = Some i \<Longrightarrow> call_item d \<Longrightarrow> item_calls item = [i]" for i
      using item by (simp add: item_calls_def)
    consider (call) "ty = ''function_call'' \<or> ty = ''custom_tool_call''"
      | (result) "ty = ''function_call_output'' \<or> ty = ''custom_tool_call_output''"
      | (reasoning) "ty = ''reasoning''"
      | (wording) "ty = ''input_text'' \<or> ty = ''output_text'' \<or> ty = ''text''"
      using body ty by (auto simp: in_names_def split: if_splits)
    then show ?thesis
    proof cases
      case call
      then have "call_item d" using np ty by (auto simp: call_item_def)
      then obtain i where i: "given_call_id d = Some i" using assms(2) item by (auto simp: names_call_def)
      have "append_tool_call uuids (py_str (jget d ''type'')) d s = Inr s'" using body ty call by (auto simp: in_names_def)
      from tool_call_extends [OF this i] ids [OF i \<open>call_item d\<close>] call ty item show ?thesis by (auto simp: item_reasoning_def)
    next
      case result
      then have "call_item d" using np ty by (auto simp: call_item_def)
      then obtain i where i: "given_call_id d = Some i" using assms(2) item by (auto simp: names_call_def)
      have "s' = append_tool_output uuids d s" using body ty result by (auto simp: in_names_def)
      with tool_output_extends [OF i] ids [OF i \<open>call_item d\<close>] result ty item show ?thesis by (auto simp: item_reasoning_def)
    next
      case reasoning
      then have "s' = s\<lparr>is_pending := combine_reasoning (is_pending s) (reasoning_text_from_item d)\<rparr>"
        using body ty by (auto simp: in_names_def)
      moreover have "item_reasoning item = (case reasoning_text_from_item d of Some r \<Rightarrow> [r] | None \<Rightarrow> [])" "item_calls item = []"
        using np ty reasoning item by (auto simp: item_reasoning_def item_calls_def call_item_def)
      ultimately show ?thesis using reasoning_extends by simp
    next
      case wording
      then have s': "s' = clear_pending (append_message [(''role'', JStr ''user''), (''content'', JStr (text_from_part d))]
          (append_pending_reasoning s))"
        using body ty by (auto simp: in_names_def)
      have q: "item_reasoning item = []" "item_calls item = []"
        using ty wording item by (auto simp: item_reasoning_def item_calls_def call_item_def)
      show ?thesis unfolding s' q by (rule after_flush) (simp_all add: message_calls_def known_role_def)
    qed
  qed
qed (use assms(1) in \<open>simp_all add: append_input_item_def\<close>)


lemma items_extend:
  "append_input_items uuids items s = Inr s' \<Longrightarrow> list_all names_call items \<Longrightarrow>
   extends_by (concat (map item_reasoning items)) (concat (map item_calls items)) s s'"
proof (induction items arbitrary: s)
  case Nil
  then show ?case by (simp add: extends_by_def)
next
  case (Cons i items)
  then obtain s1 where s1: "append_input_item uuids i s = Inr s1" "append_input_items uuids items s1 = Inr s'" by auto
  have "extends_by (item_reasoning i) (item_calls i) s s1" by (rule item_extends [OF s1(1)]) (use Cons.prems in simp)
  with Cons.IH [OF s1(2)] Cons.prems(2) show ?case by (simp add: extends_by_def)
qed

section \<open>Properties\<close>


definition asked :: jdict where
  "asked = [(''model'', JStr ''m''), (''input'', JArr [
     JStr ''hello'',
     JObj [(''type'', JStr ''reasoning''), (''summary'', JArr [JObj [(''type'', JStr ''summary_text''), (''text'', JStr ''look'')]])],
     JObj [(''type'', JStr ''function_call''), (''call_id'', JStr ''c1''), (''name'', JStr ''read''), (''arguments'', JStr [])],
     JObj [(''type'', JStr ''function_call_output''), (''call_id'', JStr ''c1''), (''output'', JStr ''text'')]])]"

lemma asked_type:
  "jget asked ''model'' = JStr ''m''" "jget asked ''tools'' = JNull" "jget asked ''tool_choice'' = JNull"
  by (simp_all add: asked_def)


end
