(* ===== verification/Chat_Conversion.thy ===== *)
theory Chat_Conversion
  imports Py_Json "HOL-Library.List_Lexorder" "HOL-Library.Char_ord"
begin

text \<open>
  Conversion of Anthropic messages to OpenAI chat messages (\<open>core/anthropic/conversion.py\<close>, with
  \<open>content.py\<close> and \<open>utils.py\<close>): assistant and user messages, the text deferred behind tool results,
  tools, tool choice, system prompt and the common request body.

  A content block is the object of its attributes, whether the code holds it as a model or as a
  dict: \<open>get_block_attr\<close> reads both alike.
\<close>

section \<open>Errors and blocks\<close>

text \<open>
  \<open>OpenAIConversionError\<close> with its message, the \<open>TypeError\<close> of joining something that is not a
  string, and that of looking up a list or an object in a set.
\<close>

datatype chat_error =
    OpenAIConversionError string
  | JoinNotText
  | UnhashableChoice

type_synonym 'a converted = "chat_error + 'a"

datatype reasoning_replay = DISABLED | THINK_TAGS | REASONING_CONTENT

definition get_block_attr :: "json \<Rightarrow> string \<Rightarrow> json \<Rightarrow> json" where
  "get_block_attr block attr dflt =
     (case as_obj block of Some d \<Rightarrow> jget_default d attr dflt | None \<Rightarrow> dflt)"

definition get_block_type :: "json \<Rightarrow> json" where
  "get_block_type block = get_block_attr block ''type'' JNull"

text \<open>The texts of the blocks, joined; used by the request optimisations.\<close>

definition extract_text_from_content :: "json \<Rightarrow> string" where
  "extract_text_from_content content =
     (case content of
        JStr s \<Rightarrow> s
      | JArr blocks \<Rightarrow>
          concat (List.map_filter (\<lambda>b. case as_str (get_block_attr b ''text'' (JStr [])) of
             Some t \<Rightarrow> (if t = [] then None else Some t) | None \<Rightarrow> None) blocks)
      | _ \<Rightarrow> [])"

abbreviation is_tool_use :: "json \<Rightarrow> bool" where
  "is_tool_use block \<equiv> get_block_type block = JStr ''tool_use''"

definition set_if_not_none :: "jdict \<Rightarrow> string \<Rightarrow> json \<Rightarrow> jdict" where
  "set_if_not_none body key value = (if value = JNull then body else dset key value body)"

text \<open>\<open>sep.join(parts)\<close> of values: every one has to be a string.\<close>

definition join_values :: "string \<Rightarrow> json list \<Rightarrow> string converted" where
  "join_values sep parts =
     (if list_all (\<lambda>v. as_str v \<noteq> None) parts then Inr (py_join sep (List.map_filter as_str parts)) else Inl JoinNotText)"

section \<open>Pieces of a message\<close>

definition serialize_item :: "json \<Rightarrow> string" where
  "serialize_item item =
     (case as_obj item of
        Some d \<Rightarrow> (if jget d ''type'' = JStr ''text'' then py_str (jget_default d ''text'' (JStr []))
                  else dumps_style utf8_style item)
      | None \<Rightarrow> py_str item)"

definition serialize_tool_result_content :: "json \<Rightarrow> string" where
  "serialize_tool_result_content tool_content =
     (case tool_content of
        JNull \<Rightarrow> []
      | JStr s \<Rightarrow> s
      | JObj d \<Rightarrow> dumps_style utf8_style tool_content
      | JArr items \<Rightarrow> py_join [LF] (map serialize_item items)
      | _ \<Rightarrow> py_str tool_content)"

definition clean_reasoning_content :: "json \<Rightarrow> string option" where
  "clean_reasoning_content value = (case as_str value of Some s \<Rightarrow> (if s = [] then None else Some s) | None \<Rightarrow> None)"

definition think_tag_content :: "string \<Rightarrow> string" where
  "think_tag_content reasoning = ''<think>'' @ [LF] @ reasoning @ [LF] @ ''</think>''"

definition tool_call_from_tool_use :: "json \<Rightarrow> jdict" where
  "tool_call_from_tool_use block =
     (let tool_input = get_block_attr block ''input'' (JObj []);
          extra_content = get_block_attr block ''extra_content'' JNull
      in [(''id'', get_block_attr block ''id'' JNull), (''type'', JStr ''function''),
          (''function'', JObj [(''name'', get_block_attr block ''name'' JNull),
             (''arguments'', JStr (if as_obj tool_input \<noteq> None then json_dumps tool_input else py_str tool_input))])] @
         (if as_obj extra_content \<noteq> None \<and> truthy extra_content then [(''extra_content'', extra_content)] else []))"

record pending_after_tools =
  pa_remaining :: "string set"
  pa_deferred :: "json list"
  pa_reasoning :: "string option"
  pa_replay :: reasoning_replay
  pa_emitted :: bool

definition needs_deferred :: "pending_after_tools \<Rightarrow> bool" where
  "needs_deferred p \<longleftrightarrow> pa_deferred p \<noteq> [] \<and> \<not> pa_emitted p"

fun index_first_tool_use :: "json list \<Rightarrow> nat option" where
  "index_first_tool_use [] = None"
| "index_first_tool_use (b # bs) = (if is_tool_use b then Some 0 else map_option Suc (index_first_tool_use bs))"

definition iter_tool_uses_in_order :: "json list \<Rightarrow> jdict list" where
  "iter_tool_uses_in_order blocks = map tool_call_from_tool_use (filter is_tool_use blocks)"

definition deferred_post_tool_blocks :: "json list \<Rightarrow> nat \<Rightarrow> json list" where
  "deferred_post_tool_blocks content first_tool_index =
     filter (\<lambda>b. \<not> is_tool_use b) (drop (Suc first_tool_index) content)"

definition SERVER_TOOL_TYPES :: "string list" where
  "SERVER_TOOL_TYPES = [''server_tool_use'', ''web_search_tool_result'', ''web_fetch_tool_result'']"

definition assert_no_forbidden_assistant_block :: "json \<Rightarrow> unit converted" where
  "assert_no_forbidden_assistant_block block =
     (let block_type = get_block_type block
      in if block_type = JStr ''image'' then
           Inl (OpenAIConversionError ''Assistant image blocks are not supported for OpenAI chat conversion.'')
         else if block_type \<in> JStr ` set SERVER_TOOL_TYPES then
           Inl (OpenAIConversionError (''OpenAI chat conversion does not support Anthropic server tool blocks ('' @
             py_repr block_type @ '' in an assistant message). Use a native Anthropic transport provider.''))
         else Inr ())"

section \<open>Assistant messages\<close>

record assistant_parts =
  ap_content :: "json list"
  ap_thinking :: "json list"
  ap_calls :: "jdict list"

definition no_parts :: assistant_parts where
  "no_parts = \<lparr>ap_content = [], ap_thinking = [], ap_calls = []\<rparr>"

definition assistant_block ::
    "reasoning_replay \<Rightarrow> string option \<Rightarrow> json \<Rightarrow> assistant_parts \<Rightarrow> assistant_parts converted" where
  "assistant_block replay reasoning_content block p =
     (let block_type = get_block_type block
      in if block_type = JStr ''text'' then
           Inr (p\<lparr>ap_content := ap_content p @ [get_block_attr block ''text'' (JStr [])]\<rparr>)
         else if block_type = JStr ''thinking'' then
           (let thinking = get_block_attr block ''thinking'' (JStr [])
            in Inr (if replay = DISABLED then p
                    else if replay = THINK_TAGS
                    then p\<lparr>ap_content := ap_content p @ [JStr (think_tag_content (py_str thinking))]\<rparr>
                    else if reasoning_content = None then p\<lparr>ap_thinking := ap_thinking p @ [thinking]\<rparr>
                    else p))
         else if block_type = JStr ''redacted_thinking'' then Inr p
         else if block_type = JStr ''tool_use'' then
           Inr (p\<lparr>ap_calls := ap_calls p @ [tool_call_from_tool_use block]\<rparr>)
         else rbind (assert_no_forbidden_assistant_block block) (\<lambda>_. Inr p))"

fun assistant_blocks ::
    "reasoning_replay \<Rightarrow> string option \<Rightarrow> json list \<Rightarrow> assistant_parts \<Rightarrow> assistant_parts converted" where
  "assistant_blocks replay reasoning_content [] p = Inr p"
| "assistant_blocks replay reasoning_content (b # bs) p =
     rbind (assistant_block replay reasoning_content b p) (assistant_blocks replay reasoning_content bs)"

definition calls_json :: "jdict list \<Rightarrow> json" where
  "calls_json calls = JArr (map JObj calls)"

text \<open>\<open>reasoning_content or "\n".join(thinking_parts)\<close>: the join runs only without the former.\<close>

definition replay_reasoning :: "string option \<Rightarrow> json list \<Rightarrow> string converted" where
  "replay_reasoning reasoning_content thinking_parts =
     (case reasoning_content of
        Some r \<Rightarrow> (if r \<noteq> [] then Inr r else join_values [LF] thinking_parts)
      | None \<Rightarrow> join_values [LF] thinking_parts)"

definition convert_assistant_message ::
    "json list \<Rightarrow> string option \<Rightarrow> reasoning_replay \<Rightarrow> jdict list converted" where
  "convert_assistant_message content reasoning_content replay =
     rbind (assistant_blocks replay reasoning_content content no_parts) (\<lambda>p.
     rbind (join_values [LF, LF] (ap_content p)) (\<lambda>joined.
       let content_str = (if joined = [] \<and> ap_calls p = [] then '' '' else joined);
           msg = [(''role'', JStr ''assistant''), (''content'', JStr content_str)] @
                 (if ap_calls p \<noteq> [] then [(''tool_calls'', calls_json (ap_calls p))] else [])
       in if replay = REASONING_CONTENT
          then rbind (replay_reasoning reasoning_content (ap_thinking p)) (\<lambda>r.
                 Inr [if r \<noteq> [] then msg @ [(''reasoning_content'', JStr r)] else msg])
          else Inr [msg]))"

definition deferred_post_tool_to_messages :: "pending_after_tools \<Rightarrow> jdict list converted" where
  "deferred_post_tool_to_messages pending =
     (if pa_deferred pending = [] then Inr []
      else convert_assistant_message (pa_deferred pending) (pa_reasoning pending) (pa_replay pending))"

text \<open>The ids of the calls that count as answered later: not absent and not blank.\<close>

definition result_ids :: "jdict list \<Rightarrow> string set" where
  "result_ids tool_calls =
     set (filter (\<lambda>t. py_strip t \<noteq> []) (map py_str (filter (\<lambda>t. t \<noteq> JNull) (map (\<lambda>tc. jget tc ''id'') tool_calls))))"

definition convert_assistant_message_with_split ::
    "json list \<Rightarrow> nat \<Rightarrow> string option \<Rightarrow> reasoning_replay \<Rightarrow> (jdict list \<times> pending_after_tools option) converted" where
  "convert_assistant_message_with_split content first_tool_index reasoning_content replay =
     (let pre = take first_tool_index content;
          tool_calls = iter_tool_uses_in_order content
      in if tool_calls = [] then
           rbind (convert_assistant_message content reasoning_content replay) (\<lambda>ms. Inr (ms, None))
         else
           (let deferred_blocks = deferred_post_tool_blocks content first_tool_index
            in rbind
                 (if pre = [] then
                    Inr ([(''role'', JStr ''assistant''), (''content'', JStr [])] @
                      (case reasoning_content of
                         Some r \<Rightarrow> (if replay = REASONING_CONTENT \<and> r \<noteq> [] then [(''reasoning_content'', JStr r)] else [])
                       | None \<Rightarrow> []))
                  else rbind (convert_assistant_message pre reasoning_content replay) (\<lambda>ms. Inr (hd ms)))
                 (\<lambda>pre_msg.
                    let pre_msg = dset ''tool_calls'' (calls_json tool_calls) pre_msg;
                        pre_msg = (if jget pre_msg ''content'' = JStr '' '' then dset ''content'' (JStr []) pre_msg else pre_msg)
                    in Inr ([pre_msg],
                         if deferred_blocks = [] then None
                         else Some \<lparr>pa_remaining = result_ids tool_calls, pa_deferred = deferred_blocks,
                                    pa_reasoning = reasoning_content, pa_replay = replay, pa_emitted = False\<rparr>))))"

section \<open>User messages\<close>

definition USER_IMAGE_ERROR :: chat_error where
  "USER_IMAGE_ERROR = OpenAIConversionError
     ''User message image blocks are not supported for OpenAI chat conversion; use a vision-capable native Anthropic provider or extend the converter.''"

text \<open>The messages so far and the text that waits for the next tool result or the end.\<close>

type_synonym user_acc = "jdict list \<times> json list"

definition flush_user_text :: "user_acc \<Rightarrow> jdict list converted" where
  "flush_user_text acc =
     (case acc of (result, text_parts) \<Rightarrow>
        if text_parts = [] then Inr result
        else rbind (join_values [LF] text_parts) (\<lambda>t.
               Inr (result @ [[(''role'', JStr ''user''), (''content'', JStr t)]])))"

definition tool_message :: "json \<Rightarrow> jdict" where
  "tool_message block =
     [(''role'', JStr ''tool''), (''tool_call_id'', get_block_attr block ''tool_use_id'' JNull),
      (''content'', JStr (serialize_tool_result_content (get_block_attr block ''content'' (JStr []))))]"

definition user_block :: "json \<Rightarrow> user_acc \<Rightarrow> user_acc converted" where
  "user_block block acc =
     (let block_type = get_block_type block
      in if block_type = JStr ''text'' then Inr (fst acc, snd acc @ [get_block_attr block ''text'' (JStr [])])
         else if block_type = JStr ''image'' then Inl USER_IMAGE_ERROR
         else if block_type = JStr ''tool_result'' then
           rbind (flush_user_text acc) (\<lambda>result. Inr (result @ [tool_message block], []))
         else Inr acc)"

fun user_blocks :: "json list \<Rightarrow> user_acc \<Rightarrow> user_acc converted" where
  "user_blocks [] acc = Inr acc"
| "user_blocks (b # bs) acc = rbind (user_block b acc) (user_blocks bs)"

definition convert_user_message :: "json list \<Rightarrow> jdict list converted" where
  "convert_user_message content = rbind (user_blocks content ([], [])) flush_user_text"

text \<open>With text deferred: it is emitted once no tool result is missing any more.\<close>

record injection =
  ij_acc :: user_acc
  ij_pending :: pending_after_tools
  ij_cleared :: bool

definition tool_use_id_text :: "json \<Rightarrow> string" where
  "tool_use_id_text block =
     (case get_block_attr block ''tool_use_id'' JNull of JNull \<Rightarrow> [] | v \<Rightarrow> py_str v)"

definition injection_block :: "json \<Rightarrow> injection \<Rightarrow> injection converted" where
  "injection_block block s =
     rbind (user_block block (ij_acc s)) (\<lambda>acc.
       if get_block_type block = JStr ''tool_result'' then
         (let pending = (ij_pending s)\<lparr>pa_remaining := pa_remaining (ij_pending s) - {tool_use_id_text block}\<rparr>
          in if pa_remaining pending = {} then
               rbind (deferred_post_tool_to_messages pending) (\<lambda>ms.
                 Inr \<lparr>ij_acc = (fst acc @ ms, snd acc), ij_pending = pending\<lparr>pa_emitted := True\<rparr>, ij_cleared = True\<rparr>)
             else Inr (s\<lparr>ij_acc := acc, ij_pending := pending\<rparr>))
       else Inr (s\<lparr>ij_acc := acc\<rparr>))"

fun injection_blocks :: "json list \<Rightarrow> injection \<Rightarrow> injection converted" where
  "injection_blocks [] s = Inr s"
| "injection_blocks (b # bs) s = rbind (injection_block b s) (injection_blocks bs)"

text \<open>The messages, whether the deferred text is out, and the record the code has changed in place.\<close>

definition convert_user_message_with_injection ::
    "json list \<Rightarrow> pending_after_tools \<Rightarrow> (jdict list \<times> bool \<times> pending_after_tools) converted" where
  "convert_user_message_with_injection content pending =
     (if \<not> needs_deferred pending \<or> pa_remaining pending = {} then
        rbind (convert_user_message content) (\<lambda>ms. Inr (ms, False, pending))
      else
        rbind (injection_blocks content \<lparr>ij_acc = ([], []), ij_pending = pending, ij_cleared = False\<rparr>) (\<lambda>s.
        rbind (flush_user_text (ij_acc s)) (\<lambda>ms. Inr (ms, ij_cleared s, ij_pending s))))"

section \<open>The conversation\<close>

record chat_turn =
  cm_role :: string
  cm_content :: json
  cm_reasoning :: json

record chat_state =
  cs_result :: "jdict list"
  cs_pending :: "pending_after_tools option"

definition extend_result :: "jdict list \<Rightarrow> chat_state \<Rightarrow> chat_state" where
  "extend_result ms s = s\<lparr>cs_result := cs_result s @ ms\<rparr>"

text \<open>Deferred text that still waits is emitted and no longer pending.\<close>

definition emit_deferred :: "chat_state \<Rightarrow> chat_state converted" where
  "emit_deferred s =
     (case cs_pending s of
        Some p \<Rightarrow>
          (if needs_deferred p
           then rbind (deferred_post_tool_to_messages p) (\<lambda>ms. Inr (extend_result ms s\<lparr>cs_pending := None\<rparr>))
           else Inr s)
      | None \<Rightarrow> Inr s)"

fun check_blocks :: "json list \<Rightarrow> unit converted" where
  "check_blocks [] = Inr ()"
| "check_blocks (b # bs) = rbind (assert_no_forbidden_assistant_block b) (\<lambda>_. check_blocks bs)"

definition assistant_list_message ::
    "reasoning_replay \<Rightarrow> string option \<Rightarrow> json list \<Rightarrow> chat_state \<Rightarrow> chat_state converted" where
  "assistant_list_message replay reasoning_content content s =
     rbind (emit_deferred s) (\<lambda>s.
       case index_first_tool_use content of
         Some first_i \<Rightarrow>
           rbind (check_blocks (filter (\<lambda>b. \<not> is_tool_use b) content)) (\<lambda>_.
           rbind (convert_assistant_message_with_split content first_i reasoning_content replay) (\<lambda>(out, new_pending).
             Inr (let s = extend_result out s
                  in if new_pending = None then s else s\<lparr>cs_pending := new_pending\<rparr>)))
       | None \<Rightarrow>
           rbind (check_blocks content) (\<lambda>_.
           rbind (convert_assistant_message content reasoning_content replay) (\<lambda>ms. Inr (extend_result ms s))))"

definition text_message :: "reasoning_replay \<Rightarrow> string option \<Rightarrow> string \<Rightarrow> string \<Rightarrow> jdict" where
  "text_message replay reasoning_content role content =
     (case (if role = ''assistant'' then reasoning_content else None) of
        None \<Rightarrow> [(''role'', JStr role), (''content'', JStr content)]
      | Some r \<Rightarrow>
          (if r = [] then [(''role'', JStr role), (''content'', JStr content)]
           else if replay = REASONING_CONTENT
           then [(''role'', JStr role), (''content'', JStr content), (''reasoning_content'', JStr r)]
           else if replay = THINK_TAGS
           then [(''role'', JStr role),
                 (''content'', JStr (py_join [LF, LF] (think_tag_content r # (if content \<noteq> [] then [content] else []))))]
           else [(''role'', JStr role), (''content'', JStr content)]))"

definition user_list_message :: "json list \<Rightarrow> chat_state \<Rightarrow> chat_state converted" where
  "user_list_message content s =
     (case cs_pending s of
        Some pending \<Rightarrow>
          (if needs_deferred pending then
             (if pa_remaining pending = {} then
                rbind (emit_deferred s) (\<lambda>s.
                rbind (convert_user_message content) (\<lambda>ms. Inr (extend_result ms s)))
              else
                rbind (convert_user_message_with_injection content pending) (\<lambda>(ms, cleared, pending).
                  Inr (extend_result ms s\<lparr>cs_pending := (if cleared then None else Some pending)\<rparr>)))
           else rbind (convert_user_message content) (\<lambda>ms. Inr (extend_result ms s)))
      | None \<Rightarrow> rbind (convert_user_message content) (\<lambda>ms. Inr (extend_result ms s)))"

definition convert_one_message :: "reasoning_replay \<Rightarrow> chat_turn \<Rightarrow> chat_state \<Rightarrow> chat_state converted" where
  "convert_one_message replay msg s =
     (let role = cm_role msg; reasoning_content = clean_reasoning_content (cm_reasoning msg)
      in case cm_content msg of
           JArr content \<Rightarrow>
             (if role = ''assistant'' then assistant_list_message replay reasoning_content content s
              else if role = ''user'' then user_list_message content s
              else Inr s)
         | JStr content \<Rightarrow>
             rbind (if role = ''user'' then emit_deferred s else Inr s) (\<lambda>s.
               Inr (extend_result [text_message replay reasoning_content role content] s))
         | content \<Rightarrow>
             rbind (if role = ''user'' then emit_deferred s else Inr s) (\<lambda>s.
               Inr (extend_result [[(''role'', JStr role), (''content'', JStr (py_str content))]] s)))"

fun convert_each :: "reasoning_replay \<Rightarrow> chat_turn list \<Rightarrow> chat_state \<Rightarrow> chat_state converted" where
  "convert_each replay [] s = Inr s"
| "convert_each replay (m # ms) s = rbind (convert_one_message replay m s) (convert_each replay ms)"

definition convert_messages :: "reasoning_replay \<Rightarrow> chat_turn list \<Rightarrow> jdict list converted" where
  "convert_messages replay messages =
     rbind (convert_each replay messages \<lparr>cs_result = [], cs_pending = None\<rparr>) (\<lambda>s.
     rbind (emit_deferred s) (\<lambda>s. Inr (cs_result s)))"

section \<open>Tools, system prompt and request body\<close>

record api_tool =
  at_name :: string
  at_type :: "string option"
  at_description :: json
  at_input_schema :: json

definition tool_input_schema :: "api_tool \<Rightarrow> jdict" where
  "tool_input_schema tool =
     (case as_obj (at_input_schema tool) of Some schema \<Rightarrow> schema
      | None \<Rightarrow> [(''type'', JStr ''object''), (''properties'', JObj [])])"

definition convert_chat_tools :: "api_tool list \<Rightarrow> jdict list" where
  "convert_chat_tools tools =
     map (\<lambda>tool. [(''type'', JStr ''function''),
                  (''function'', JObj [(''name'', JStr (at_name tool)),
                     (''description'', if truthy (at_description tool) then at_description tool else JStr []),
                     (''parameters'', JObj (tool_input_schema tool))])]) tools"

definition convert_chat_tool_choice :: "json \<Rightarrow> json converted" where
  "convert_chat_tool_choice tool_choice =
     (case as_obj tool_choice of
        None \<Rightarrow> Inr tool_choice
      | Some d \<Rightarrow>
          (let choice_type = jget d ''type''; name = jget d ''name''
           in if choice_type = JStr ''tool'' \<and> truthy name
              then Inr (JObj [(''type'', JStr ''function''), (''function'', JObj [(''name'', name)])])
              else if choice_type = JStr ''any'' then Inr (JStr ''required'')
              else case choice_type of
                JArr _ \<Rightarrow> Inl UnhashableChoice
              | JObj _ \<Rightarrow> Inl UnhashableChoice
              | JStr t \<Rightarrow> Inr (if t = ''auto'' \<or> t = ''none'' \<or> t = ''required'' then JStr t else tool_choice)
              | _ \<Rightarrow> Inr tool_choice))"

definition convert_system_prompt :: "json \<Rightarrow> jdict option converted" where
  "convert_system_prompt system =
     (case system of
        JStr s \<Rightarrow> Inr (Some [(''role'', JStr ''system''), (''content'', JStr s)])
      | JArr blocks \<Rightarrow>
          (let text_parts = map (\<lambda>b. get_block_attr b ''text'' (JStr [])) (filter (\<lambda>b. get_block_type b = JStr ''text'') blocks)
           in if text_parts = [] then Inr None
              else rbind (join_values [LF, LF] text_parts) (\<lambda>t.
                     Inr (Some [(''role'', JStr ''system''), (''content'', JStr (py_strip t))])))
      | _ \<Rightarrow> Inr None)"

record chat_request =
  cr_model :: json
  cr_messages :: "chat_turn list"
  cr_system :: json
  cr_max_tokens :: json
  cr_temperature :: json
  cr_top_p :: json
  cr_stop_sequences :: json
  cr_tools :: "api_tool list option"
  cr_tool_choice :: json
  cr_extra_keys :: "string list"

definition reject_native_only_top_level_fields :: "chat_request \<Rightarrow> unit converted" where
  "reject_native_only_top_level_fields request =
     (if cr_extra_keys request = [] then Inr ()
      else Inl (OpenAIConversionError
        (''OpenAI chat conversion does not support these top-level request fields: '' @
         py_repr (JArr (map JStr (sort (cr_extra_keys request)))) @ ''. Use a native Anthropic transport provider.'')))"

definition json_or :: "json \<Rightarrow> json \<Rightarrow> json" where
  "json_or a b = (if truthy a then a else b)"

definition build_base_request_body :: "chat_request \<Rightarrow> json \<Rightarrow> reasoning_replay \<Rightarrow> jdict converted" where
  "build_base_request_body request default_max_tokens replay =
     rbind (reject_native_only_top_level_fields request) (\<lambda>_.
     rbind (convert_messages replay (cr_messages request)) (\<lambda>messages.
     rbind (if truthy (cr_system request) then convert_system_prompt (cr_system request) else Inr None) (\<lambda>system_msg.
     rbind (if truthy (cr_tool_choice request)
            then rbind (convert_chat_tool_choice (cr_tool_choice request)) (\<lambda>c. Inr [(''tool_choice'', c)])
            else Inr []) (\<lambda>choice.
       let messages = (case system_msg of Some m \<Rightarrow> m # messages | None \<Rightarrow> messages);
           body = [(''model'', cr_model request), (''messages'', JArr (map JObj messages))];
           body = set_if_not_none body ''max_tokens'' (json_or (cr_max_tokens request) default_max_tokens);
           body = set_if_not_none body ''temperature'' (cr_temperature request);
           body = set_if_not_none body ''top_p'' (cr_top_p request)
       in Inr (body @
            (if truthy (cr_stop_sequences request) then [(''stop'', cr_stop_sequences request)] else []) @
            (case cr_tools request of Some ts \<Rightarrow> (if ts \<noteq> [] then [(''tools'', JArr (map JObj (convert_chat_tools ts)))] else [])
             | None \<Rightarrow> []) @ choice)))))"

end
