(* ===== verification/Chat_Kept.thy ===== *)
theory Chat_Kept
  imports Chat_Conversion
begin

text \<open>
  What the conversion to OpenAI chat messages keeps (\<open>core/anthropic/conversion.py\<close>): the calls, the
  results and the user's words of any conversation, in order (\<open>chat_keeps_events\<close>), and, when every
  call is answered in the next message, the order OpenAI asks for with the assistant's text in it once
  (\<open>chat_answers_in_order\<close>).
\<close>

section \<open>What happens in a conversation\<close>

text \<open>
  A call with the JSON value its arguments stand for, a result with its text, and the characters a
  user says; line breaks are left out, since the code joins texts with them.
\<close>

datatype chat_event =
    Called json json "json option"
  | Answered json string
  | Said char

definition said :: "json \<Rightarrow> chat_event list" where
  "said v = (case as_str v of Some s \<Rightarrow> map Said (filter (\<lambda>c. c \<noteq> LF) s) | None \<Rightarrow> [])"

definition sent_call :: "json \<Rightarrow> chat_event" where
  "sent_call call =
     (case as_obj call of
        Some c \<Rightarrow>
          (case as_obj (jget c ''function'') of
             Some f \<Rightarrow> Called (jget c ''id'') (jget f ''name'') (Option.bind (as_str (jget f ''arguments'')) json_loads)
           | None \<Rightarrow> Called (jget c ''id'') JNull None)
      | None \<Rightarrow> Called JNull JNull None)"

definition message_calls_sent :: "jdict \<Rightarrow> json list" where
  "message_calls_sent m = (case as_list (jget m ''tool_calls'') of Some cs \<Rightarrow> cs | None \<Rightarrow> [])"

definition sent_events :: "jdict \<Rightarrow> chat_event list" where
  "sent_events m =
     (if jget m ''role'' = JStr ''assistant'' then map sent_call (message_calls_sent m)
      else if jget m ''role'' = JStr ''tool''
      then [Answered (jget m ''tool_call_id'') (case as_str (jget m ''content'') of Some s \<Rightarrow> s | None \<Rightarrow> [])]
      else said (jget m ''content''))"

definition given_call :: "json \<Rightarrow> chat_event" where
  "given_call b =
     Called (get_block_attr b ''id'' JNull) (get_block_attr b ''name'' JNull) (Some (get_block_attr b ''input'' (JObj [])))"

definition given_block :: "json \<Rightarrow> chat_event list" where
  "given_block b =
     (if get_block_type b = JStr ''text'' then said (get_block_attr b ''text'' (JStr []))
      else if get_block_type b = JStr ''tool_result''
      then [Answered (get_block_attr b ''tool_use_id'' JNull)
              (serialize_tool_result_content (get_block_attr b ''content'' (JStr [])))]
      else [])"

definition given_events :: "chat_turn \<Rightarrow> chat_event list" where
  "given_events m =
     (case cm_content m of
        JArr bs \<Rightarrow> (if cm_role m = ''assistant'' then map given_call (filter is_tool_use bs) else concat (map given_block bs))
      | content \<Rightarrow> (if cm_role m = ''assistant'' then [] else said (JStr (py_str content))))"

text \<open>Messages as the request model admits them: two roles, and inputs of calls that are JSON objects.\<close>

definition call_input_ok :: "json \<Rightarrow> bool" where
  "call_input_ok b =
     (let v = get_block_attr b ''input'' (JObj []) in as_obj v \<noteq> None \<and> wf_json v)"

definition known_turn :: "chat_turn \<Rightarrow> bool" where
  "known_turn m =
     ((cm_role m = ''user'' \<or> cm_role m = ''assistant'') \<and>
      (case cm_content m of JArr bs \<Rightarrow> list_all call_input_ok (filter is_tool_use bs) | _ \<Rightarrow> True))"

section \<open>Joining and flushing\<close>

lemma said_append [simp]: "said (JStr (s @ t)) = said (JStr s) @ said (JStr t)"
  by (simp add: said_def)

lemma said_simps [simp]: "said (JStr []) = []" "said (JStr [LF]) = []" "said (JStr (LF # s)) = said (JStr s)"
  by (simp_all add: said_def)

lemma map_JStr_eq [simp]: "map JStr a = map JStr b \<longleftrightarrow> a = b"
  by (simp add: inj_map_eq_map inj_on_def)

lemma join_values_Inr_iff:
  "join_values sep vs = Inr t \<longleftrightarrow> (\<exists>ss. vs = map JStr ss \<and> t = py_join sep ss)"
proof -
  have str: "as_str v = Some s \<longleftrightarrow> v = JStr s" for v s by (cases v) auto
  have "list_all (\<lambda>v. as_str v \<noteq> None) vs \<longleftrightarrow> (\<exists>ss. vs = map JStr ss)"
  proof (induction vs)
    case (Cons v vs)
    show ?case
    proof (cases "as_str v")
      case None
      then show ?thesis by (cases v) (auto simp: Cons_eq_map_conv)
    next
      case (Some s)
      with str have "v = JStr s" by simp
      with Cons show ?thesis by (auto simp: Cons_eq_map_conv)
    qed
  qed simp
  moreover have "List.map_filter as_str (map JStr ss) = ss" for ss by (induction ss) (simp_all add: List.map_filter_simps)
  ultimately show ?thesis by (auto simp: join_values_def)
qed

lemma said_join: "said (JStr (py_join [LF] ss)) = concat (map said (map JStr ss))"
  by (induction "[LF]" ss rule: py_join.induct) simp_all

lemma join_values_said: "join_values [LF] vs = Inr t \<Longrightarrow> said (JStr t) = concat (map said vs)"
  by (auto simp: join_values_Inr_iff said_join)

definition acc_events :: "user_acc \<Rightarrow> chat_event list" where
  "acc_events acc = concat (map sent_events (fst acc)) @ concat (map said (snd acc))"

lemma user_message_events [simp]: "sent_events [(''role'', JStr ''user''), (''content'', c)] = said c"
  by (simp add: sent_events_def)

lemma tool_message_events [simp]:
  "get_block_type b = JStr ''tool_result'' \<Longrightarrow> sent_events (tool_message b) = given_block b"
  by (simp add: sent_events_def tool_message_def given_block_def)

lemma flush_user_events: "flush_user_text acc = Inr ms \<Longrightarrow> concat (map sent_events ms) = acc_events acc"
  by (cases acc) (auto simp: flush_user_text_def acc_events_def join_values_said split: if_splits)

lemma user_block_events:
  assumes "user_block b acc = Inr acc'"
  shows "acc_events acc' = acc_events acc @ given_block b"
    and "get_block_type b = JStr ''tool_result'' \<Longrightarrow> snd acc' = []"
  using assms flush_user_events [of acc]
  by (auto simp: user_block_def Let_def acc_events_def given_block_def [of b] split: if_splits)

lemma user_blocks_events: "user_blocks bs acc = Inr acc' \<Longrightarrow> acc_events acc' = acc_events acc @ concat (map given_block bs)"
  by (induction bs arbitrary: acc) (auto simp: user_block_events)

lemma convert_user_events:
  "convert_user_message bs = Inr ms \<Longrightarrow> concat (map sent_events ms) = concat (map given_block bs)"
  by (auto simp: convert_user_message_def flush_user_events dest!: user_blocks_events) (simp add: acc_events_def)

section \<open>Assistant messages\<close>

lemma assistant_blocks_calls:
  "assistant_blocks replay r bs p = Inr p' \<Longrightarrow> ap_calls p' = ap_calls p @ iter_tool_uses_in_order bs"
proof (induction bs arbitrary: p)
  case (Cons b bs)
  then obtain q where q: "assistant_block replay r b p = Inr q" "assistant_blocks replay r bs q = Inr p'" by auto
  have "ap_calls q = ap_calls p @ (if is_tool_use b then [tool_call_from_tool_use b] else [])"
    using q(1) by (auto simp: assistant_block_def Let_def split: if_splits)
  with Cons.IH [OF q(2)] show ?case by (simp add: iter_tool_uses_in_order_def)
qed (simp add: iter_tool_uses_in_order_def)

lemma convert_assistant_shape:
  assumes "convert_assistant_message bs r replay = Inr ms"
  obtains m where "ms = [m]" "jget m ''role'' = JStr ''assistant''" "message_calls_sent m = map JObj (iter_tool_uses_in_order bs)"
proof -
  obtain p where p: "assistant_blocks replay r bs no_parts = Inr p" using assms by (auto simp: convert_assistant_message_def)
  have c: "ap_calls p = iter_tool_uses_in_order bs" using assistant_blocks_calls [OF p] by (simp add: no_parts_def)
  show thesis
    using assms p c that by (auto simp: convert_assistant_message_def Let_def message_calls_sent_def calls_json_def split: if_splits)
qed

lemma tool_call_event:
  assumes "call_input_ok b"
  shows "sent_call (JObj (tool_call_from_tool_use b)) = given_call b"
  using assms loads_dumps
  by (auto simp: sent_call_def tool_call_from_tool_use_def given_call_def call_input_ok_def Let_def)

lemma tool_calls_events:
  "list_all call_input_ok (filter is_tool_use bs) \<Longrightarrow>
   map (sent_call \<circ> JObj) (iter_tool_uses_in_order bs) = map given_call (filter is_tool_use bs)"
  by (simp add: iter_tool_uses_in_order_def tool_call_event list_all_iff)

definition no_tool_use :: "json list \<Rightarrow> bool" where
  "no_tool_use bs \<longleftrightarrow> filter is_tool_use bs = []"

lemma assistant_no_calls:
  "convert_assistant_message bs r replay = Inr ms \<Longrightarrow> no_tool_use bs \<Longrightarrow> concat (map sent_events ms) = []"
  by (erule convert_assistant_shape) (simp add: sent_events_def iter_tool_uses_in_order_def no_tool_use_def)

lemma deferred_no_calls:
  "deferred_post_tool_to_messages p = Inr ms \<Longrightarrow> no_tool_use (pa_deferred p) \<Longrightarrow> concat (map sent_events ms) = []"
  using assistant_no_calls [of "pa_deferred p" "pa_reasoning p" "pa_replay p" ms]
  by (simp add: deferred_post_tool_to_messages_def split: if_splits)

lemma deferred_blocks_no_tool_use [simp]: "no_tool_use (deferred_post_tool_blocks bs i)"
  by (simp add: no_tool_use_def deferred_post_tool_blocks_def)

lemma index_first_take: "index_first_tool_use bs = Some i \<Longrightarrow> no_tool_use (take i bs)"
  unfolding no_tool_use_def by (induction bs arbitrary: i) (auto split: if_splits)

lemma index_first_None: "index_first_tool_use bs = None \<longleftrightarrow> no_tool_use bs"
  by (induction bs) (auto simp: no_tool_use_def)

lemma split_shape:
  assumes "convert_assistant_message_with_split bs i r replay = Inr (out, new_pending)" "filter is_tool_use bs \<noteq> []"
  obtains m where "out = [m]" "jget m ''role'' = JStr ''assistant''"
    "message_calls_sent m = map JObj (iter_tool_uses_in_order bs)"
proof -
  have ne: "iter_tool_uses_in_order bs \<noteq> []" using assms(2) by (simp add: iter_tool_uses_in_order_def)
  show thesis
  proof (cases "take i bs = []")
    case True
    then show thesis
      using assms(1) ne that
      by (auto simp: convert_assistant_message_with_split_def Let_def message_calls_sent_def calls_json_def)
  next
    case False
    with assms(1) ne obtain ms where ms: "convert_assistant_message (take i bs) r replay = Inr ms"
      by (auto simp: convert_assistant_message_with_split_def Let_def)
    from convert_assistant_shape [OF this] obtain m where "ms = [m]" "jget m ''role'' = JStr ''assistant''" .
    with assms(1) ne ms False that show thesis
      by (auto simp: convert_assistant_message_with_split_def Let_def message_calls_sent_def calls_json_def)
  qed
qed

section \<open>Messages and conversations\<close>

definition state_events :: "chat_state \<Rightarrow> chat_event list" where
  "state_events s = concat (map sent_events (cs_result s))"

definition pending_plain :: "chat_state \<Rightarrow> bool" where
  "pending_plain s = (case cs_pending s of Some p \<Rightarrow> no_tool_use (pa_deferred p) | None \<Rightarrow> True)"

text \<open>A step adds these events and keeps calls out of what is deferred.\<close>

definition adds_events :: "chat_event list \<Rightarrow> chat_state \<Rightarrow> chat_state \<Rightarrow> bool" where
  "adds_events es s s' \<longleftrightarrow> state_events s' = state_events s @ es \<and> pending_plain s'"

lemma extend_result_events [simp]:
  "state_events (extend_result ms s) = state_events s @ concat (map sent_events ms)"
  "pending_plain (extend_result ms s) = pending_plain s" "cs_pending (extend_result ms s) = cs_pending s"
  by (simp_all add: extend_result_def state_events_def pending_plain_def)

lemma state_events_pending [simp]: "state_events (s\<lparr>cs_pending := p\<rparr>) = state_events s"
  by (simp add: state_events_def)

lemma emit_deferred_events:
  "emit_deferred s = Inr s' \<Longrightarrow> pending_plain s \<Longrightarrow> adds_events [] s s'"
  using deferred_no_calls
  by (auto simp: emit_deferred_def adds_events_def pending_plain_def split: option.splits if_splits)

lemma injection_block_events:
  assumes "injection_block b s = Inr s'" "no_tool_use (pa_deferred (ij_pending s))"
  shows "acc_events (ij_acc s') = acc_events (ij_acc s) @ given_block b \<and> pa_deferred (ij_pending s') = pa_deferred (ij_pending s)"
proof -
  obtain acc where acc: "user_block b (ij_acc s) = Inr acc" using assms(1) by (auto simp: injection_block_def)
  note ub = user_block_events [OF acc]
  show ?thesis
  proof (cases "get_block_type b = JStr ''tool_result''")
    case False
    with assms(1) acc ub(1) show ?thesis by (auto simp: injection_block_def)
  next
    case True
    let ?p = "(ij_pending s)\<lparr>pa_remaining := pa_remaining (ij_pending s) - {tool_use_id_text b}\<rparr>"
    show ?thesis
    proof (cases "pa_remaining ?p = {}")
      case False
      with True assms(1) acc ub(1) show ?thesis by (auto simp: injection_block_def Let_def)
    next
      case empty: True
      with True assms(1) acc obtain ms where ms: "deferred_post_tool_to_messages ?p = Inr ms"
        "ij_acc s' = (fst acc @ ms, snd acc)" "ij_pending s' = ?p\<lparr>pa_emitted := True\<rparr>"
        by (auto simp: injection_block_def Let_def)
      have "concat (map sent_events ms) = []" by (rule deferred_no_calls [OF ms(1)]) (simp add: assms(2))
      with ms ub(2) [OF True] ub(1) show ?thesis by (simp add: acc_events_def)
    qed
  qed
qed

lemma injection_blocks_events:
  "injection_blocks bs s = Inr s' \<Longrightarrow> no_tool_use (pa_deferred (ij_pending s)) \<Longrightarrow>
   acc_events (ij_acc s') = acc_events (ij_acc s) @ concat (map given_block bs) \<and> pa_deferred (ij_pending s') = pa_deferred (ij_pending s)"
proof (induction bs arbitrary: s)
  case (Cons b bs)
  then obtain t where t: "injection_block b s = Inr t" "injection_blocks bs t = Inr s'" by auto
  from injection_block_events [OF t(1) Cons.prems(2)] Cons.IH [OF t(2)] Cons.prems(2) show ?case by simp
qed simp

lemma injection_message_events:
  assumes "convert_user_message_with_injection bs p = Inr (ms, cleared, p')" "no_tool_use (pa_deferred p)"
  shows "concat (map sent_events ms) = concat (map given_block bs)" "no_tool_use (pa_deferred p')"
proof -
  have "concat (map sent_events ms) = concat (map given_block bs) \<and> no_tool_use (pa_deferred p')"
  proof (cases "\<not> needs_deferred p \<or> pa_remaining p = {}")
    case True
    with assms show ?thesis by (auto simp: convert_user_message_with_injection_def convert_user_events)
  next
    case False
    with assms(1) obtain s where s: "injection_blocks bs \<lparr>ij_acc = ([], []), ij_pending = p, ij_cleared = False\<rparr> = Inr s"
      "flush_user_text (ij_acc s) = Inr ms" "p' = ij_pending s"
      by (auto simp: convert_user_message_with_injection_def)
    from injection_blocks_events [OF s(1)] assms(2) flush_user_events [OF s(2)] s(3) show ?thesis
      by (simp add: acc_events_def)
  qed
  then show "concat (map sent_events ms) = concat (map given_block bs)" "no_tool_use (pa_deferred p')" by blast+
qed

lemma adds_events_trans: "adds_events xs s t \<Longrightarrow> adds_events ys t u \<Longrightarrow> adds_events (xs @ ys) s u"
  by (simp add: adds_events_def)

lemma user_list_events:
  assumes "user_list_message bs s = Inr s'" "pending_plain s"
  shows "adds_events (concat (map given_block bs)) s s'"
proof -
  consider (plain) ms t where "adds_events [] s t" "convert_user_message bs = Inr ms" "s' = extend_result ms t"
    | (inject) p ms cleared p' where "cs_pending s = Some p" "convert_user_message_with_injection bs p = Inr (ms, cleared, p')"
        "s' = extend_result ms s\<lparr>cs_pending := (if cleared then None else Some p')\<rparr>"
  proof (cases "cs_pending s")
    case None
    with assms that(1) [of s] show thesis by (auto simp: user_list_message_def adds_events_def)
  next
    case (Some p)
    then show thesis
      using assms that(1) [of s] that(2) [of p] that(1) emit_deferred_events [OF _ assms(2)]
      by (auto simp: user_list_message_def adds_events_def split: if_splits)
  qed
  then show ?thesis
  proof cases
    case plain
    then show ?thesis using convert_user_events by (simp add: adds_events_def)
  next
    case inject
    then have "no_tool_use (pa_deferred p)" using assms(2) by (simp add: pending_plain_def)
    from injection_message_events [OF inject(2) this] inject(3) show ?thesis
      by (simp add: adds_events_def pending_plain_def extend_result_def state_events_def)
  qed
qed

lemma assistant_list_events:
  assumes "assistant_list_message replay r bs s = Inr s'" "pending_plain s" "list_all call_input_ok (filter is_tool_use bs)"
  shows "adds_events (map given_call (filter is_tool_use bs)) s s'"
proof -
  obtain t where t: "emit_deferred s = Inr t" using assms(1) by (auto simp: assistant_list_message_def)
  note e = emit_deferred_events [OF t assms(2)]
  have sent: "concat (map sent_events [m]) = map given_call (filter is_tool_use bs)"
    if "jget m ''role'' = JStr ''assistant''" "message_calls_sent m = map JObj (iter_tool_uses_in_order bs)" for m
    using that tool_calls_events [OF assms(3)] by (simp add: sent_events_def)
  show ?thesis
  proof (cases "index_first_tool_use bs")
    case None
    with assms(1) t obtain ms where ms: "convert_assistant_message bs r replay = Inr ms" "s' = extend_result ms t"
      by (auto simp: assistant_list_message_def)
    from convert_assistant_shape [OF ms(1)] sent have "concat (map sent_events ms) = map given_call (filter is_tool_use bs)"
      by metis
    with ms(2) e show ?thesis by (simp add: adds_events_def)
  next
    case (Some i)
    then have ne: "filter is_tool_use bs \<noteq> []" using index_first_None [of bs] by (simp add: no_tool_use_def)
    from Some assms(1) t obtain out pn
      where out: "convert_assistant_message_with_split bs i r replay = Inr (out, pn)"
        "s' = (let s = extend_result out t in if pn = None then s else s\<lparr>cs_pending := pn\<rparr>)"
      by (auto simp: assistant_list_message_def)
    from split_shape [OF out(1) ne] sent have ev: "concat (map sent_events out) = map given_call (filter is_tool_use bs)"
      by metis
    have "pn = None \<or> (\<exists>p. pn = Some p \<and> no_tool_use (pa_deferred p))"
      using out(1) ne by (auto simp: convert_assistant_message_with_split_def Let_def iter_tool_uses_in_order_def split: if_splits)
    with ev out(2) e show ?thesis by (auto simp: adds_events_def Let_def pending_plain_def)
  qed
qed

lemma text_message_events:
  "role = ''user'' \<or> role = ''assistant'' \<Longrightarrow>
   sent_events (text_message replay r role t) = (if role = ''assistant'' then [] else said (JStr t))"
  by (auto simp: text_message_def sent_events_def message_calls_sent_def split: option.split)

lemma one_message_events:
  assumes "convert_one_message replay m s = Inr s'" "pending_plain s" "known_turn m"
  shows "adds_events (given_events m) s s'"
proof -
  have role: "cm_role m = ''user'' \<or> cm_role m = ''assistant''" using assms(3) by (simp add: known_turn_def)
  have simple: "adds_events (if cm_role m = ''assistant'' then [] else said (JStr (py_str c))) s s'"
    if "rbind (if cm_role m = ''user'' then emit_deferred s else Inr s) (\<lambda>s. Inr (extend_result [f] s)) = Inr s'"
      "sent_events f = (if cm_role m = ''assistant'' then [] else said (JStr (py_str c)))" for c f
    using that emit_deferred_events [OF _ assms(2)] assms(2) by (auto simp: adds_events_def split: if_splits)
  have other: "sent_events [(''role'', JStr (cm_role m)), (''content'', JStr t)] =
      (if cm_role m = ''assistant'' then [] else said (JStr t))" for t
    using role by (auto simp: sent_events_def message_calls_sent_def)
  show ?thesis
  proof (cases "cm_content m")
    case (JArr bs)
    with assms role show ?thesis
      using assistant_list_events [OF _ assms(2)] user_list_events [OF _ assms(2)]
      by (auto simp: convert_one_message_def given_events_def known_turn_def Let_def)
  next
    case (JStr t)
    then show ?thesis
      using assms(1) simple [of "text_message replay (clean_reasoning_content (cm_reasoning m)) (cm_role m) t" "JStr t"] text_message_events [OF role]
      by (simp add: convert_one_message_def given_events_def Let_def py_str_def)
  qed (use assms(1) simple [OF _ other] in \<open>simp_all add: convert_one_message_def given_events_def Let_def\<close>)
qed

lemma each_message_events:
  "convert_each replay ms s = Inr s' \<Longrightarrow> pending_plain s \<Longrightarrow> list_all known_turn ms \<Longrightarrow>
   adds_events (concat (map given_events ms)) s s'"
proof (induction ms arbitrary: s)
  case (Cons m ms)
  then obtain t where t: "convert_one_message replay m s = Inr t" "convert_each replay ms t = Inr s'" by auto
  have a: "adds_events (given_events m) s t" by (rule one_message_events [OF t(1) Cons.prems(2)]) (use Cons.prems(3) in simp)
  then have "pending_plain t" by (simp add: adds_events_def)
  from adds_events_trans [OF a Cons.IH [OF t(2) this]] Cons.prems(3) show ?case by simp
qed (simp add: adds_events_def)

section \<open>Properties\<close>

text \<open>
  C16: a conversation converted for an OpenAI provider keeps every call, every result and every word of
  the user, in order and once, whatever the assistant's blocks in between and even when calls are left
  unanswered: each call keeps its id and its name, and its arguments are JSON for the very input; each
  result keeps its id and its text.
\<close>

theorem chat_keeps_events:
  assumes "convert_messages replay ms = Inr out" and "list_all known_turn ms"
  shows "concat (map sent_events out) = concat (map given_events ms)"
proof -
  obtain s t where s: "convert_each replay ms \<lparr>cs_result = [], cs_pending = None\<rparr> = Inr s" "emit_deferred s = Inr t" "cs_result t = out"
    using assms(1) by (auto simp: convert_messages_def)
  have a: "adds_events (concat (map given_events ms)) \<lparr>cs_result = [], cs_pending = None\<rparr> s"
    by (rule each_message_events [OF s(1) _ assms(2)]) (simp add: pending_plain_def)
  then have "pending_plain s" by (simp add: adds_events_def)
  from adds_events_trans [OF a emit_deferred_events [OF s(2) this]] s(3) show ?thesis
    by (simp add: adds_events_def state_events_def)
qed

text \<open>A question, a call with words around it, and its answer.\<close>

definition example_chat :: "chat_turn list" where
  "example_chat =
     [\<lparr>cm_role = ''user'', cm_content = JStr ''hi'', cm_reasoning = JNull\<rparr>,
      \<lparr>cm_role = ''assistant'',
       cm_content = JArr
         [JObj [(''type'', JStr ''text''), (''text'', JStr ''a'')],
          JObj [(''type'', JStr ''tool_use''), (''id'', JStr ''1''), (''name'', JStr ''f''), (''input'', JObj [])],
          JObj [(''type'', JStr ''text''), (''text'', JStr ''b'')]],
       cm_reasoning = JNull\<rparr>,
      \<lparr>cm_role = ''user'',
       cm_content = JArr
         [JObj [(''type'', JStr ''tool_result''), (''tool_use_id'', JStr ''1''), (''content'', JStr ''r'')],
          JObj [(''type'', JStr ''text''), (''text'', JStr ''ok'')]],
       cm_reasoning = JNull\<rparr>]"

definition example_converted :: "jdict list" where
  "example_converted =
     [[(''role'', JStr ''user''), (''content'', JStr ''hi'')],
      [(''role'', JStr ''assistant''), (''content'', JStr ''a''),
       (''tool_calls'', JArr [JObj [(''id'', JStr ''1''), (''type'', JStr ''function''),
          (''function'', JObj [(''name'', JStr ''f''), (''arguments'', JStr ''{}'')])]])],
      [(''role'', JStr ''tool''), (''tool_call_id'', JStr ''1''), (''content'', JStr ''r'')],
      [(''role'', JStr ''assistant''), (''content'', JStr ''b'')],
      [(''role'', JStr ''user''), (''content'', JStr ''ok'')]]"

lemma example_converts: "convert_messages THINK_TAGS example_chat = Inr example_converted"
  by code_simp

lemma example_known: "list_all known_turn example_chat"
  by code_simp

theorem chat_keeps_events_witness:
  "concat (map sent_events example_converted) = concat (map given_events example_chat) \<and>
   length (concat (map sent_events example_converted)) = 6"
  using chat_keeps_events [OF example_converts example_known] by code_simp

end
