(* ===== verification/Chat_Order.thy ===== *)
theory Chat_Order
  imports Chat_Kept
begin

text \<open>
  The order of the converted conversation (\<open>core/anthropic/conversion.py\<close>).  OpenAI asks that the
  message after a call answer it; Anthropic lets the assistant speak after its calls.  When every call
  is answered at the start of the next message, the converter meets that order and puts what the
  assistant says behind the results, once (\<open>chat_answers_in_order\<close>); a result that nothing asked for
  makes it say it again (\<open>deferred_text_repeated\<close>).
\<close>

section \<open>What OpenAI asks for\<close>

text \<open>
  The calls that are open after a list of messages: only \<open>tool\<close> messages may answer them, each one
  once, and no other message comes before all are answered.
\<close>

definition call_ids :: "jdict \<Rightarrow> json list" where
  "call_ids m = map (\<lambda>c. case as_obj c of Some d \<Rightarrow> jget d ''id'' | None \<Rightarrow> JNull) (message_calls_sent m)"

fun chat_run :: "json set \<Rightarrow> jdict list \<Rightarrow> json set option" where
  "chat_run open_calls [] = Some open_calls"
| "chat_run open_calls (m # ms) =
     (if jget m ''role'' = JStr ''tool''
      then (if jget m ''tool_call_id'' \<in> open_calls then chat_run (open_calls - {jget m ''tool_call_id''}) ms else None)
      else if open_calls = {} \<and> distinct (call_ids m) then chat_run (set (call_ids m)) ms else None)"

definition chat_contract :: "jdict list \<Rightarrow> bool" where
  "chat_contract ms \<longleftrightarrow> chat_run {} ms = Some {}"

text \<open>What is seen of a text: blanks and line breaks only separate the pieces the code joins.\<close>

definition visible :: "json \<Rightarrow> string" where
  "visible v = (case as_str v of Some s \<Rightarrow> filter (\<lambda>c. c \<noteq> LF \<and> c \<noteq> CHR '' '') s | None \<Rightarrow> [])"

definition spoken :: "jdict \<Rightarrow> string" where
  "spoken m = (if jget m ''role'' = JStr ''assistant'' then visible (jget m ''content'') else [])"

section \<open>Answered conversations\<close>

definition block_words :: "reasoning_replay \<Rightarrow> json \<Rightarrow> string" where
  "block_words replay b =
     (if get_block_type b = JStr ''text'' then visible (get_block_attr b ''text'' (JStr []))
      else if get_block_type b = JStr ''thinking'' \<and> replay = THINK_TAGS
      then visible (JStr (think_tag_content (py_str (get_block_attr b ''thinking'' (JStr [])))))
      else [])"

definition assistant_words :: "reasoning_replay \<Rightarrow> chat_turn \<Rightarrow> string" where
  "assistant_words replay m =
     (if cm_role m = ''assistant'' then
        (case cm_content m of
           JArr bs \<Rightarrow> concat (map (block_words replay) bs)
         | content \<Rightarrow>
             (case (as_str content, clean_reasoning_content (cm_reasoning m)) of
                (Some _, Some r) \<Rightarrow> (if replay = THINK_TAGS then visible (JStr (think_tag_content r)) else [])
              | _ \<Rightarrow> []) @ visible (JStr (py_str content)))
      else [])"

definition turn_calls :: "chat_turn \<Rightarrow> json list" where
  "turn_calls m =
     (case cm_content m of
        JArr bs \<Rightarrow> (if cm_role m = ''assistant'' then map (\<lambda>b. get_block_attr b ''id'' JNull) (filter is_tool_use bs) else [])
      | _ \<Rightarrow> [])"

abbreviation is_tool_result :: "json \<Rightarrow> bool" where
  "is_tool_result b \<equiv> get_block_type b = JStr ''tool_result''"

text \<open>A user message that first answers these calls, each once, and then holds no result.\<close>

definition answers :: "json list \<Rightarrow> chat_turn \<Rightarrow> bool" where
  "answers ids m =
     (cm_role m = ''user'' \<and>
      (case cm_content m of
         JArr bs \<Rightarrow>
           list_all is_tool_result (take (length ids) bs) \<and> \<not> list_ex is_tool_result (drop (length ids) bs) \<and>
           distinct (map (\<lambda>b. get_block_attr b ''tool_use_id'' JNull) (take (length ids) bs)) \<and>
           set (map (\<lambda>b. get_block_attr b ''tool_use_id'' JNull) (take (length ids) bs)) = set ids
       | _ \<Rightarrow> False))"

definition proper_id :: "json \<Rightarrow> bool" where
  "proper_id v = (case as_str v of Some s \<Rightarrow> py_strip s \<noteq> [] | None \<Rightarrow> False)"

fun answered :: "chat_turn list \<Rightarrow> bool" where
  "answered [] = True"
| "answered (m # ms) =
     ((cm_role m = ''user'' \<or> cm_role m = ''assistant'') \<and>
      (if turn_calls m = [] then answers [] m \<or> cm_role m = ''assistant'' \<or> as_list (cm_content m) = None
       else list_all proper_id (turn_calls m) \<and> distinct (turn_calls m)) \<and>
      (case ms of
         [] \<Rightarrow> turn_calls m = []
       | u # us \<Rightarrow> (if turn_calls m = [] then answered ms else answers (turn_calls m) u \<and> answered us)))"

section \<open>Runs of messages\<close>

lemma chat_run_append:
  "chat_run o1 (ms @ ns) = Option.bind (chat_run o1 ms) (\<lambda>o2. chat_run o2 ns)"
  by (induction ms arbitrary: o1) simp_all

lemma visible_append [simp]: "visible (JStr (s @ t)) = visible (JStr s) @ visible (JStr t)"
  by (simp add: visible_def)

lemma visible_simps [simp]: "visible (JStr []) = []" "visible (JStr '' '') = []" "visible (JStr (LF # s)) = visible (JStr s)"
  by (simp_all add: visible_def LF_def)

lemma visible_join: "visible (JStr (py_join [LF, LF] ss)) = concat (map (visible \<circ> JStr) ss)"
  by (induction "[LF, LF]" ss rule: py_join.induct) simp_all

lemma join_values_visible: "join_values [LF, LF] vs = Inr t \<Longrightarrow> visible (JStr t) = concat (map visible vs)"
  by (auto simp: join_values_Inr_iff visible_join)

text \<open>Messages without calls, and what the assistant says in them.\<close>

definition plain_messages :: "string \<Rightarrow> jdict list \<Rightarrow> bool" where
  "plain_messages words ms \<longleftrightarrow> chat_run {} ms = Some {} \<and> concat (map spoken ms) = words"

lemma plain_append: "plain_messages v ms \<Longrightarrow> plain_messages w ns \<Longrightarrow> plain_messages (v @ w) (ms @ ns)"
  by (simp add: plain_messages_def chat_run_append)

lemma plain_Nil [simp]: "plain_messages [] []"
  by (simp add: plain_messages_def)

lemma assistant_blocks_words:
  "assistant_blocks replay r bs p = Inr p' \<Longrightarrow>
   concat (map visible (ap_content p')) = concat (map visible (ap_content p)) @ concat (map (block_words replay) bs)"
proof (induction bs arbitrary: p)
  case (Cons b bs)
  then obtain q where q: "assistant_block replay r b p = Inr q" "assistant_blocks replay r bs q = Inr p'" by auto
  have "concat (map visible (ap_content q)) = concat (map visible (ap_content p)) @ block_words replay b"
    using q(1) by (auto simp: assistant_block_def Let_def block_words_def split: if_splits)
  with Cons.IH [OF q(2)] show ?case by simp
qed simp

lemma assistant_message_words:
  assumes "convert_assistant_message bs r replay = Inr ms"
  obtains m where "ms = [m]" "jget m ''role'' = JStr ''assistant''" "message_calls_sent m = map JObj (iter_tool_uses_in_order bs)"
    "spoken m = concat (map (block_words replay) bs)"
proof -
  obtain m where m: "ms = [m]" "jget m ''role'' = JStr ''assistant''" "message_calls_sent m = map JObj (iter_tool_uses_in_order bs)"
    using convert_assistant_shape [OF assms] by blast
  obtain p where p: "assistant_blocks replay r bs no_parts = Inr p" using assms by (auto simp: convert_assistant_message_def)
  obtain t where t: "join_values [LF, LF] (ap_content p) = Inr t" using assms p by (auto simp: convert_assistant_message_def)
  have w: "visible (JStr t) = concat (map (block_words replay) bs)"
    using assistant_blocks_words [OF p] join_values_visible [OF t] by (simp add: no_parts_def)
  have "visible (jget m ''content'') = visible (JStr t)"
    using assms p t m(1) by (auto simp: convert_assistant_message_def Let_def split: if_splits)
  with w m(2) have "spoken m = concat (map (block_words replay) bs)" by (simp add: spoken_def)
  with m that show thesis by blast
qed

lemma assistant_plain:
  "convert_assistant_message bs r replay = Inr ms \<Longrightarrow> no_tool_use bs \<Longrightarrow>
   plain_messages (concat (map (block_words replay) bs)) ms"
  by (erule assistant_message_words) (simp add: plain_messages_def call_ids_def iter_tool_uses_in_order_def no_tool_use_def)

lemma user_text_plain [simp]: "plain_messages [] [[(''role'', JStr ''user''), (''content'', c)]]"
  by (simp add: plain_messages_def call_ids_def message_calls_sent_def spoken_def)

lemma text_message_plain:
  assumes "role = ''user'' \<or> role = ''assistant''"
  shows "plain_messages
    (assistant_words replay \<lparr>cm_role = role, cm_content = JStr t, cm_reasoning = v\<rparr>)
    [text_message replay (clean_reasoning_content v) role t]"
  using assms
  by (auto simp: plain_messages_def text_message_def call_ids_def message_calls_sent_def spoken_def assistant_words_def
      clean_reasoning_content_def py_str_def split: option.split)

section \<open>User messages\<close>

text \<open>Blocks without a result only collect text.\<close>

lemma no_result_blocks:
  "user_blocks bs (ms, ts) = Inr acc \<Longrightarrow> \<not> list_ex is_tool_result bs \<Longrightarrow> fst acc = ms"
proof (induction bs arbitrary: ts)
  case (Cons b bs)
  then obtain q where q: "user_block b (ms, ts) = Inr q" "user_blocks bs q = Inr acc" by auto
  have "fst q = ms" using q(1) Cons.prems(2) by (auto simp: user_block_def Let_def split: if_splits)
  then have "user_blocks bs (ms, snd q) = Inr acc" using q(2) by (metis prod.collapse)
  with Cons.IH Cons.prems(2) show ?case by simp
qed auto

lemma flush_plain: "flush_user_text (ms, ts) = Inr out \<Longrightarrow> \<exists>us. out = ms @ us \<and> plain_messages [] us"
  by (auto simp: flush_user_text_def split: if_splits)

lemma no_results_plain:
  assumes "user_blocks bs (ms, []) = Inr acc" "flush_user_text acc = Inr out" "\<not> list_ex is_tool_result bs"
  obtains us where "out = ms @ us" "plain_messages [] us"
  using flush_plain [of "fst acc" "snd acc" out] no_result_blocks [OF assms(1,3)] assms(2) by auto

lemma result_blocks: "list_all is_tool_result bs \<Longrightarrow> user_blocks bs (ms, []) = Inr (ms @ map tool_message bs, [])"
  by (induction bs arbitrary: ms) (simp_all add: user_block_def flush_user_text_def)

lemma user_blocks_append: "user_blocks (bs @ cs) acc = rbind (user_blocks bs acc) (user_blocks cs)"
  by (induction bs arbitrary: acc) (simp_all, metis rbind.simps old.sum.exhaust)

lemma tool_messages_run:
  "distinct (map (\<lambda>b. get_block_attr b ''tool_use_id'' JNull) bs) \<Longrightarrow>
   chat_run (set (map (\<lambda>b. get_block_attr b ''tool_use_id'' JNull) bs)) (map tool_message bs) = Some {}"
proof (induction bs)
  case (Cons b bs)
  then have "insert (get_block_attr b ''tool_use_id'' JNull) (set (map (\<lambda>b. get_block_attr b ''tool_use_id'' JNull) bs)) -
      {get_block_attr b ''tool_use_id'' JNull} = set (map (\<lambda>b. get_block_attr b ''tool_use_id'' JNull) bs)" by auto
  with Cons show ?case by (simp add: tool_message_def)
qed simp

lemma tool_messages_spoken [simp]: "concat (map spoken (map tool_message bs)) = []"
  by (simp add: spoken_def tool_message_def)

section \<open>Answers with deferred text\<close>

lemma deferred_remaining [simp]:
  "deferred_post_tool_to_messages (p\<lparr>pa_remaining := r\<rparr>) = deferred_post_tool_to_messages p"
  by (simp add: deferred_post_tool_to_messages_def)

lemma injection_result:
  assumes "is_tool_result b" "ij_acc s = (ms, [])"
  shows "injection_block b s =
    (let pending = (ij_pending s)\<lparr>pa_remaining := pa_remaining (ij_pending s) - {tool_use_id_text b}\<rparr>
     in if pa_remaining pending = {} then
          rbind (deferred_post_tool_to_messages (ij_pending s)) (\<lambda>ds.
            Inr \<lparr>ij_acc = (ms @ [tool_message b] @ ds, []), ij_pending = pending\<lparr>pa_emitted := True\<rparr>, ij_cleared = True\<rparr>)
        else Inr (s\<lparr>ij_acc := (ms @ [tool_message b], []), ij_pending := pending\<rparr>))"
  using assms by (simp add: injection_block_def user_block_def flush_user_text_def Let_def)

text \<open>The last of the missing results lets the deferred text out.\<close>

lemma injection_results:
  assumes "injection_blocks bs s = Inr s'" "list_all is_tool_result bs" "bs \<noteq> []" "ij_acc s = (ms, [])"
    and "distinct (map tool_use_id_text bs)" "set (map tool_use_id_text bs) = pa_remaining (ij_pending s)"
  shows "\<exists>ds. deferred_post_tool_to_messages (ij_pending s) = Inr ds \<and>
    ij_acc s' = (ms @ map tool_message bs @ ds, []) \<and> ij_cleared s'"
  using assms
proof (induction bs arbitrary: s ms)
  case (Cons b bs)
  then obtain t where t: "injection_block b s = Inr t" "injection_blocks bs t = Inr s'" by auto
  have b: "is_tool_result b" using Cons.prems(2) by simp
  have r: "pa_remaining (ij_pending s) - {tool_use_id_text b} = set (map tool_use_id_text bs)"
  proof -
    have "insert (tool_use_id_text b) (set (map tool_use_id_text bs)) = pa_remaining (ij_pending s)"
      "tool_use_id_text b \<notin> set (map tool_use_id_text bs)" using Cons.prems(5,6) by simp_all
    then show ?thesis by blast
  qed
  show ?case
  proof (cases bs)
    case Nil
    with t b r Cons.prems(4) show ?thesis by (auto simp: injection_result Let_def)
  next
    case (Cons c cs)
    with r have ne: "pa_remaining (ij_pending s) - {tool_use_id_text b} \<noteq> {}" by simp
    let ?p = "(ij_pending s)\<lparr>pa_remaining := pa_remaining (ij_pending s) - {tool_use_id_text b}\<rparr>"
    have t': "t = s\<lparr>ij_acc := (ms @ [tool_message b], []), ij_pending := ?p\<rparr>"
      using t(1) b ne Cons.prems(4) by (simp add: injection_result Let_def)
    have "\<exists>ds. deferred_post_tool_to_messages (ij_pending t) = Inr ds \<and>
        ij_acc s' = ((ms @ [tool_message b]) @ map tool_message bs @ ds, []) \<and> ij_cleared s'"
      by (rule Cons.IH [OF t(2)]) (use Cons.prems r t' Cons in auto)
    then show ?thesis by (auto simp: t')
  qed
qed simp

text \<open>Text after the results is collected as before.\<close>

lemma injection_no_results:
  "injection_blocks bs s = Inr s' \<Longrightarrow> \<not> list_ex is_tool_result bs \<Longrightarrow>
   user_blocks bs (ij_acc s) = Inr (ij_acc s') \<and> ij_cleared s' = ij_cleared s"
proof (induction bs arbitrary: s)
  case (Cons b bs)
  then obtain t where t: "injection_block b s = Inr t" "injection_blocks bs t = Inr s'" by auto
  have "user_block b (ij_acc s) = Inr (ij_acc t) \<and> ij_cleared t = ij_cleared s"
    using t(1) Cons.prems(2) by (auto simp: injection_block_def)
  with Cons.IH [OF t(2)] Cons.prems(2) show ?case by simp
qed simp

lemma injection_blocks_append: "injection_blocks (bs @ cs) s = rbind (injection_blocks bs s) (injection_blocks cs)"
  by (induction bs arbitrary: s) (simp_all, metis rbind.simps old.sum.exhaust)

definition id_text :: "json \<Rightarrow> string" where
  "id_text v = (case v of JNull \<Rightarrow> [] | _ \<Rightarrow> py_str v)"

lemma tool_use_id_text_id: "tool_use_id_text b = id_text (get_block_attr b ''tool_use_id'' JNull)"
  by (cases "get_block_attr b ''tool_use_id'' JNull") (simp_all add: tool_use_id_text_def id_text_def)

lemma proper_id_text: "proper_id v \<Longrightarrow> v = JStr (id_text v) \<and> py_strip (id_text v) \<noteq> []"
  by (cases v) (simp_all add: proper_id_def id_text_def py_str_def)

lemma inj_id_text: "list_all proper_id vs \<Longrightarrow> inj_on id_text (set vs)"
  by (rule inj_onI) (metis list_all_iff proper_id_text)

lemma result_ids_proper:
  assumes "list_all proper_id (map (\<lambda>b. get_block_attr b ''id'' JNull) (filter is_tool_use bs))"
  shows "result_ids (iter_tool_uses_in_order bs) =
    id_text ` set (map (\<lambda>b. get_block_attr b ''id'' JNull) (filter is_tool_use bs))"
proof -
  have eq: "map (\<lambda>tc. jget tc ''id'') (iter_tool_uses_in_order bs) = map (\<lambda>b. get_block_attr b ''id'' JNull) (filter is_tool_use bs)"
    by (simp add: iter_tool_uses_in_order_def tool_call_from_tool_use_def Let_def)
  have key: "set (filter (\<lambda>t. py_strip t \<noteq> []) (map py_str (filter (\<lambda>t. t \<noteq> JNull) vs))) = id_text ` set vs"
    if "list_all proper_id vs" for vs
    using that
  proof (induction vs)
    case (Cons v vs)
    then have "proper_id v" "list_all proper_id vs" by simp_all
    moreover from this obtain t where "v = JStr t" "id_text v = t" "py_str v = t" "py_strip t \<noteq> []"
      using proper_id_text [of v] by (cases v) (auto simp: py_str_def)
    ultimately show ?case using Cons.IH by simp
  qed simp
  show ?thesis unfolding result_ids_def eq by (rule key [OF assms])
qed

section \<open>Turns\<close>

text \<open>A step over whole turns: nothing waits before or after it, and these messages are new.\<close>

definition turn_step :: "string \<Rightarrow> chat_state \<Rightarrow> chat_state \<Rightarrow> bool" where
  "turn_step words s s' \<longleftrightarrow>
     cs_pending s' = None \<and> (\<exists>new. cs_result s' = cs_result s @ new \<and> plain_messages words new)"

lemma turn_stepI:
  "cs_pending s = None \<Longrightarrow> plain_messages words new \<Longrightarrow> turn_step words s (extend_result new s)"
  by (auto simp: turn_step_def extend_result_def)

lemma turn_step_trans: "turn_step v s t \<Longrightarrow> turn_step w t u \<Longrightarrow> turn_step (v @ w) s u"
  unfolding turn_step_def using plain_append by fastforce

lemma emit_nothing: "cs_pending s = None \<Longrightarrow> emit_deferred s = Inr s"
  by (simp add: emit_deferred_def)

lemma user_blocks_plain:
  assumes "convert_user_message bs = Inr ms" "\<not> list_ex is_tool_result bs"
  shows "plain_messages [] ms"
proof -
  obtain acc where acc: "user_blocks bs ([], []) = Inr acc" "flush_user_text acc = Inr ms"
    using assms(1) by (auto simp: convert_user_message_def)
  from no_results_plain [OF this assms(2)] show ?thesis by auto
qed

text \<open>A message that calls nothing.\<close>

lemma quiet_turn:
  assumes "convert_one_message replay m s = Inr s'" "cs_pending s = None" "cm_role m = ''user'' \<or> cm_role m = ''assistant''"
    and "turn_calls m = []" "answers [] m \<or> cm_role m = ''assistant'' \<or> as_list (cm_content m) = None"
  shows "turn_step (assistant_words replay m) s s'"
proof -
  have e: "emit_deferred s = Inr s" by (rule emit_nothing [OF assms(2)])
  have other: "plain_messages (if cm_role m = ''assistant'' then visible (JStr t) else [])
      [[(''role'', JStr (cm_role m)), (''content'', JStr t)]]" for t
    using assms(3) by (auto simp: plain_messages_def call_ids_def message_calls_sent_def spoken_def)
  have step: "turn_step w s s'" if "s' = extend_result new s" "plain_messages w new" for w new
    unfolding that(1) by (rule turn_stepI [OF assms(2) that(2)])
  show ?thesis
  proof (cases "cm_content m")
    case (JArr bs)
    show ?thesis
    proof (cases "cm_role m = ''assistant''")
      case True
      with JArr assms(4) have n: "no_tool_use bs" by (simp add: turn_calls_def no_tool_use_def)
      with JArr True assms(1) e obtain ms
        where ms: "convert_assistant_message bs (clean_reasoning_content (cm_reasoning m)) replay = Inr ms" "s' = extend_result ms s"
        by (auto simp: convert_one_message_def Let_def assistant_list_message_def index_first_None [THEN iffD2])
      with step [OF ms(2)] assistant_plain [OF ms(1) n] JArr True show ?thesis by (simp add: assistant_words_def)
    next
      case False
      with assms(3,5) JArr have a: "cm_role m = ''user''" "\<not> list_ex is_tool_result bs" by (auto simp: answers_def)
      with JArr assms(1,2) obtain ms where ms: "convert_user_message bs = Inr ms" "s' = extend_result ms s"
        by (auto simp: convert_one_message_def Let_def user_list_message_def)
      with step [OF ms(2)] user_blocks_plain [OF ms(1) a(2)] a(1) show ?thesis by (simp add: assistant_words_def)
    qed
  next
    case (JStr t)
    have "m = \<lparr>cm_role = cm_role m, cm_content = JStr t, cm_reasoning = cm_reasoning m\<rparr>" using JStr by (cases m) simp
    with text_message_plain [OF assms(3), of replay t "cm_reasoning m"]
    have "plain_messages (assistant_words replay m) [text_message replay (clean_reasoning_content (cm_reasoning m)) (cm_role m) t]"
      by simp
    with step JStr assms(1) e show ?thesis by (auto simp: convert_one_message_def Let_def split: if_splits)
  qed (use step other assms(1) e in \<open>auto simp: convert_one_message_def Let_def assistant_words_def split: if_splits\<close>)
qed

text \<open>A message that calls tools: it says what comes before the first call and defers the rest.\<close>

lemma words_filter: "concat (map (block_words replay) (filter (\<lambda>b. \<not> is_tool_use b) bs)) = concat (map (block_words replay) bs)"
  by (induction bs) (auto simp: block_words_def)

lemma words_split:
  "index_first_tool_use bs = Some i \<Longrightarrow>
   concat (map (block_words replay) bs) =
     concat (map (block_words replay) (take i bs)) @ concat (map (block_words replay) (deferred_post_tool_blocks bs i))"
proof (induction bs arbitrary: i)
  case (Cons b bs)
  have "is_tool_use b \<Longrightarrow> block_words replay b = []" by (simp add: block_words_def)
  with Cons show ?case
    using words_filter [of replay bs] by (auto simp: deferred_post_tool_blocks_def split: if_splits)
qed simp

definition call_message :: "json list \<Rightarrow> string \<Rightarrow> jdict \<Rightarrow> bool" where
  "call_message ids words m \<longleftrightarrow> jget m ''role'' = JStr ''assistant'' \<and> call_ids m = ids \<and> spoken m = words"

lemma call_ids_uses:
  "message_calls_sent m = map JObj (iter_tool_uses_in_order bs) \<Longrightarrow>
   call_ids m = map (\<lambda>b. get_block_attr b ''id'' JNull) (filter is_tool_use bs)"
  by (simp add: call_ids_def iter_tool_uses_in_order_def tool_call_from_tool_use_def Let_def)

lemma split_message:
  assumes "convert_assistant_message_with_split bs i r replay = Inr (out, pn)" "index_first_tool_use bs = Some i"
  obtains m where "out = [m]"
    "call_message (map (\<lambda>b. get_block_attr b ''id'' JNull) (filter is_tool_use bs)) (concat (map (block_words replay) (take i bs))) m"
    "pn = (if deferred_post_tool_blocks bs i = [] then None
           else Some \<lparr>pa_remaining = result_ids (iter_tool_uses_in_order bs), pa_deferred = deferred_post_tool_blocks bs i,
                      pa_reasoning = r, pa_replay = replay, pa_emitted = False\<rparr>)"
proof -
  have uses: "filter is_tool_use bs \<noteq> []" using assms(2) index_first_None [of bs] by (simp add: no_tool_use_def)
  then have ne: "iter_tool_uses_in_order bs \<noteq> []" by (simp add: iter_tool_uses_in_order_def)
  obtain m where m: "out = [m]" "jget m ''role'' = JStr ''assistant''" "message_calls_sent m = map JObj (iter_tool_uses_in_order bs)"
    using split_shape [OF assms(1) uses] by blast
  have w: "spoken m = concat (map (block_words replay) (take i bs))"
  proof (cases "take i bs = []")
    case True
    with assms(1) ne m(1) show ?thesis
      by (auto simp: convert_assistant_message_with_split_def Let_def spoken_def split: option.splits if_splits)
  next
    case False
    with assms(1) ne obtain ms where ms: "convert_assistant_message (take i bs) r replay = Inr ms"
      by (auto simp: convert_assistant_message_with_split_def Let_def)
    from assistant_message_words [OF this] obtain n where n: "ms = [n]" "jget n ''role'' = JStr ''assistant''"
      "spoken n = concat (map (block_words replay) (take i bs))" .
    have "spoken m = spoken n"
      using assms(1) ne ms False m(1) n(1,2)
      by (auto simp: convert_assistant_message_with_split_def Let_def spoken_def split: if_splits)
    with n(3) show ?thesis by simp
  qed
  show thesis
    by (rule that [OF m(1)])
       (use m w call_ids_uses [OF m(3)] assms(1) ne in
         \<open>auto simp: call_message_def convert_assistant_message_with_split_def Let_def split: if_splits\<close>)
qed

lemma calling_turn:
  assumes "convert_one_message replay m s = Inr s'" "cs_pending s = None" "turn_calls m \<noteq> []" "list_all proper_id (turn_calls m)"
  obtains pre words dwords where "cs_result s' = cs_result s @ [pre]" "call_message (turn_calls m) words pre"
    "assistant_words replay m = words @ dwords"
    "cs_pending s' = None \<and> dwords = [] \<or>
     (\<exists>p. cs_pending s' = Some p \<and> needs_deferred p \<and> pa_remaining p = id_text ` set (turn_calls m) \<and>
        no_tool_use (pa_deferred p) \<and> pa_replay p = replay \<and> concat (map (block_words replay) (pa_deferred p)) = dwords)"
proof -
  from assms(3) obtain bs where bs: "cm_content m = JArr bs" "cm_role m = ''assistant''"
    "turn_calls m = map (\<lambda>b. get_block_attr b ''id'' JNull) (filter is_tool_use bs)"
    by (auto simp: turn_calls_def split: json.splits if_splits)
  have "index_first_tool_use bs \<noteq> None" using assms(3) bs(3) index_first_None [of bs] by (auto simp: no_tool_use_def)
  then obtain i where i: "index_first_tool_use bs = Some i" by auto
  let ?r = "clean_reasoning_content (cm_reasoning m)"
  obtain out pn where out: "convert_assistant_message_with_split bs i ?r replay = Inr (out, pn)"
    "s' = (let s = extend_result out s in if pn = None then s else s\<lparr>cs_pending := pn\<rparr>)"
    using assms(1,2) bs(1,2) i by (auto simp: convert_one_message_def Let_def assistant_list_message_def emit_nothing)
  have r: "result_ids (iter_tool_uses_in_order bs) = id_text ` set (turn_calls m)"
    using result_ids_proper [of bs] assms(4) bs(3) by simp
  obtain pre where pre: "out = [pre]"
    "call_message (turn_calls m) (concat (map (block_words replay) (take i bs))) pre"
    "pn = (if deferred_post_tool_blocks bs i = [] then None
           else Some \<lparr>pa_remaining = result_ids (iter_tool_uses_in_order bs), pa_deferred = deferred_post_tool_blocks bs i,
                      pa_reasoning = ?r, pa_replay = replay, pa_emitted = False\<rparr>)"
    using split_message [OF out(1) i] bs(3) by auto
  show thesis
  proof (rule that)
    show "cs_result s' = cs_result s @ [pre]" using out(2) pre(1) by (simp add: extend_result_def Let_def)
    show "assistant_words replay m = concat (map (block_words replay) (take i bs)) @
        concat (map (block_words replay) (deferred_post_tool_blocks bs i))"
      using words_split [OF i] bs(1,2) by (simp add: assistant_words_def)
  qed (use pre out(2) r assms(2) in \<open>auto simp: Let_def needs_deferred_def\<close>)
qed

text \<open>The answering message.\<close>

lemma answer_blocks:
  assumes "answers ids u" "list_all proper_id ids"
  obtains rs rest where "cm_content u = JArr (rs @ rest)" "cm_role u = ''user''" "list_all is_tool_result rs"
    "\<not> list_ex is_tool_result rest" "distinct (map (\<lambda>b. get_block_attr b ''tool_use_id'' JNull) rs)"
    "set (map (\<lambda>b. get_block_attr b ''tool_use_id'' JNull) rs) = set ids"
    "distinct (map tool_use_id_text rs)" "set (map tool_use_id_text rs) = id_text ` set ids"
proof -
  from assms(1) obtain bs where bs: "cm_content u = JArr bs" by (auto simp: answers_def split: json.splits)
  let ?rs = "take (length ids) bs" and ?rest = "drop (length ids) bs"
  have a: "cm_role u = ''user''" "list_all is_tool_result ?rs" "\<not> list_ex is_tool_result ?rest"
    "distinct (map (\<lambda>b. get_block_attr b ''tool_use_id'' JNull) ?rs)"
    "set (map (\<lambda>b. get_block_attr b ''tool_use_id'' JNull) ?rs) = set ids"
    using assms(1) bs by (simp_all add: answers_def)
  have m: "map tool_use_id_text ?rs = map id_text (map (\<lambda>b. get_block_attr b ''tool_use_id'' JNull) ?rs)"
    by (simp add: tool_use_id_text_id)
  have "inj_on id_text (set (map (\<lambda>b. get_block_attr b ''tool_use_id'' JNull) ?rs))"
    unfolding a(5) by (rule inj_id_text [OF assms(2)])
  then have "distinct (map tool_use_id_text ?rs)" unfolding m using a(4) by (subst distinct_map) blast
  moreover have "set (map tool_use_id_text ?rs) = id_text ` set ids" unfolding m by (simp only: list.set_map [of id_text] a(5))
  ultimately show thesis using that [of ?rs ?rest] a bs by simp
qed

lemma round_plain:
  assumes "call_message ids words pre" "distinct ids" "plain_messages d ds" "plain_messages [] us"
    and "distinct (map (\<lambda>b. get_block_attr b ''tool_use_id'' JNull) rs)"
    and "set (map (\<lambda>b. get_block_attr b ''tool_use_id'' JNull) rs) = set ids"
  shows "plain_messages (words @ d) ([pre] @ map tool_message rs @ ds @ us)"
proof -
  have p: "chat_run {} [pre] = Some (set ids)" "spoken pre = words"
    using assms(1,2) by (simp_all add: call_message_def)
  have t: "chat_run (set ids) (map tool_message rs) = Some {}" using tool_messages_run [OF assms(5)] by (simp only: assms(6))
  have "plain_messages (words @ d @ []) (([pre] @ map tool_message rs) @ ds @ us)"
  proof (rule plain_append [OF _ plain_append [OF assms(3,4)]])
    show "plain_messages words ([pre] @ map tool_message rs)"
      unfolding plain_messages_def chat_run_append p(1) using t p(2) tool_messages_spoken [of rs] by simp
  qed
  then show ?thesis by simp
qed

lemma answered_turn:
  assumes "convert_one_message replay m s = Inr s1" "cs_pending s = None" "turn_calls m \<noteq> []"
    and "list_all proper_id (turn_calls m)" "distinct (turn_calls m)"
    and "answers (turn_calls m) u" "convert_one_message replay u s1 = Inr s2"
  shows "turn_step (assistant_words replay m) s s2"
proof -
  obtain pre words dwords where pre: "cs_result s1 = cs_result s @ [pre]" "call_message (turn_calls m) words pre"
    "assistant_words replay m = words @ dwords"
    and pend: "cs_pending s1 = None \<and> dwords = [] \<or>
     (\<exists>p. cs_pending s1 = Some p \<and> needs_deferred p \<and> pa_remaining p = id_text ` set (turn_calls m) \<and>
        no_tool_use (pa_deferred p) \<and> pa_replay p = replay \<and> concat (map (block_words replay) (pa_deferred p)) = dwords)"
    using calling_turn [OF assms(1-4)] by blast
  obtain rs rest where u: "cm_content u = JArr (rs @ rest)" "cm_role u = ''user''" and rs: "list_all is_tool_result rs"
    and rest: "\<not> list_ex is_tool_result rest"
    and ids: "distinct (map (\<lambda>b. get_block_attr b ''tool_use_id'' JNull) rs)"
      "set (map (\<lambda>b. get_block_attr b ''tool_use_id'' JNull) rs) = set (turn_calls m)"
    and texts: "distinct (map tool_use_id_text rs)" "set (map tool_use_id_text rs) = id_text ` set (turn_calls m)"
    using answer_blocks [OF assms(6,4)] by blast
  have user: "user_list_message (rs @ rest) s1 = Inr s2" using assms(7) u by (simp add: convert_one_message_def Let_def)
  have close: "turn_step (assistant_words replay m) s s2"
    if "cs_pending s2 = None" "cs_result s2 = cs_result s1 @ map tool_message rs @ ds @ us"
      "plain_messages dwords ds" "plain_messages [] us" for ds us
  proof -
    have "cs_result s2 = cs_result s @ ([pre] @ map tool_message rs @ ds @ us)" using pre(1) that(2) by simp
    with round_plain [OF pre(2) assms(5) that(3,4) ids] that(1) pre(3) show ?thesis unfolding turn_step_def by metis
  qed
  from pend show ?thesis
  proof
    assume p: "cs_pending s1 = None \<and> dwords = []"
    then obtain ms where ms: "convert_user_message (rs @ rest) = Inr ms" "s2 = extend_result ms s1"
      using user by (auto simp: user_list_message_def)
    then obtain acc where acc: "user_blocks rest (map tool_message rs, []) = Inr acc" "flush_user_text acc = Inr ms"
      using result_blocks [OF rs, of "[]"] by (auto simp: convert_user_message_def user_blocks_append)
    from no_results_plain [OF acc rest] obtain us where "ms = map tool_message rs @ us" "plain_messages [] us" .
    with close [of "[]" us] p ms(2) show ?thesis by (simp add: extend_result_def)
  next
    assume "\<exists>p. cs_pending s1 = Some p \<and> needs_deferred p \<and> pa_remaining p = id_text ` set (turn_calls m) \<and>
        no_tool_use (pa_deferred p) \<and> pa_replay p = replay \<and> concat (map (block_words replay) (pa_deferred p)) = dwords"
    then obtain p where p: "cs_pending s1 = Some p" "needs_deferred p" "pa_remaining p = id_text ` set (turn_calls m)"
      "no_tool_use (pa_deferred p)" "pa_replay p = replay" "concat (map (block_words replay) (pa_deferred p)) = dwords" by blast
    have ne: "pa_remaining p \<noteq> {}" "rs \<noteq> []" using p(3) assms(3) ids(2) by auto
    from user p(1,2) ne(1) obtain ms cleared p'
      where ms: "convert_user_message_with_injection (rs @ rest) p = Inr (ms, cleared, p')"
        "s2 = extend_result ms s1\<lparr>cs_pending := (if cleared then None else Some p')\<rparr>"
      by (auto simp: user_list_message_def)
    let ?s0 = "\<lparr>ij_acc = ([], []), ij_pending = p, ij_cleared = False\<rparr>"
    from ms(1) p(2) ne(1) obtain t v where tv: "injection_blocks rs ?s0 = Inr t" "injection_blocks rest t = Inr v"
      "flush_user_text (ij_acc v) = Inr ms" "ij_cleared v = cleared"
      by (auto simp: convert_user_message_with_injection_def injection_blocks_append)
    have "\<exists>ds. deferred_post_tool_to_messages (ij_pending ?s0) = Inr ds \<and>
        ij_acc t = ([] @ map tool_message rs @ ds, []) \<and> ij_cleared t"
      by (rule injection_results [OF tv(1) rs ne(2) _ texts(1)]) (simp_all only: texts(2) p(3) injection.simps)
    then obtain ds where ds: "deferred_post_tool_to_messages p = Inr ds" "ij_acc t = (map tool_message rs @ ds, [])" "ij_cleared t"
      by auto
    have dp: "plain_messages dwords ds"
      using ds(1) p(2) assistant_plain [OF _ p(4), of "pa_reasoning p" replay ds] p(5,6)
      by (simp add: deferred_post_tool_to_messages_def needs_deferred_def)
    from injection_no_results [OF tv(2) rest] ds(2) have r: "user_blocks rest (map tool_message rs @ ds, []) = Inr (ij_acc v)"
      "ij_cleared v = ij_cleared t" by simp_all
    from no_results_plain [OF r(1) tv(3) rest] obtain us where "ms = (map tool_message rs @ ds) @ us" "plain_messages [] us" .
    with close [of ds us] dp ms(2) tv(4) r(2) ds(3) show ?thesis by (simp add: extend_result_def)
  qed
qed

lemma answered_steps:
  "answered ms \<Longrightarrow> convert_each replay ms s = Inr s' \<Longrightarrow> cs_pending s = None \<Longrightarrow>
   turn_step (concat (map (assistant_words replay) ms)) s s'"
proof (induction ms arbitrary: s rule: answered.induct)
  case 1
  then show ?case by (simp add: turn_step_def)
next
  case (2 m ms)
  have role: "cm_role m = ''user'' \<or> cm_role m = ''assistant''" using 2(3) by simp
  from 2(4) obtain t where t: "convert_one_message replay m s = Inr t" "convert_each replay ms t = Inr s'" by auto
  show ?case
  proof (cases "turn_calls m = []")
    case True
    have q: "turn_step (assistant_words replay m) s t"
      by (rule quiet_turn [OF t(1) 2(5) role True]) (use 2(3) True in simp)
    then have n: "cs_pending t = None" by (simp add: turn_step_def)
    have "turn_step (concat (map (assistant_words replay) ms)) t s'"
    proof (cases ms)
      case Nil
      with t(2) n show ?thesis by (simp add: turn_step_def)
    next
      case (Cons u us)
      from 2(1) [OF Cons True _ t(2) n] 2(3) True Cons show ?thesis by simp
    qed
    from turn_step_trans [OF q this] show ?thesis by simp
  next
    case False
    with 2(3) obtain u us where ms: "ms = u # us" "answers (turn_calls m) u" "answered us"
      "list_all proper_id (turn_calls m)" "distinct (turn_calls m)" by (auto split: list.splits)
    from t(2) ms(1) obtain v where v: "convert_one_message replay u t = Inr v" "convert_each replay us v = Inr s'" by auto
    note a = answered_turn [OF t(1) 2(5) False ms(4,5,2) v(1)]
    then have n: "cs_pending v = None" by (simp add: turn_step_def)
    have "assistant_words replay u = []" using ms(2) by (simp add: assistant_words_def answers_def)
    with turn_step_trans [OF a 2(2) [OF ms(1) False ms(3) v(2) n]] ms(1) show ?thesis by simp
  qed
qed

section \<open>Properties\<close>

text \<open>
  C15: when every call of the assistant is answered at the start of the next message, the converted
  conversation is in the order OpenAI asks for: the messages after a call answer each of its ids once
  before anything else is said, no call stays open, and what the assistant says before, between and
  after its calls is said once and in order.
\<close>

theorem chat_answers_in_order:
  assumes "convert_messages replay ms = Inr out" and "answered ms"
  shows "chat_contract out \<and> concat (map spoken out) = concat (map (assistant_words replay) ms)"
proof -
  obtain s t where s: "convert_each replay ms \<lparr>cs_result = [], cs_pending = None\<rparr> = Inr s" "emit_deferred s = Inr t" "cs_result t = out"
    using assms(1) by (auto simp: convert_messages_def)
  have "turn_step (concat (map (assistant_words replay) ms)) \<lparr>cs_result = [], cs_pending = None\<rparr> s"
    by (rule answered_steps [OF assms(2) s(1)]) simp
  then have "cs_pending s = None" "plain_messages (concat (map (assistant_words replay) ms)) (cs_result s)"
    by (auto simp: turn_step_def)
  with s(2,3) emit_nothing show ?thesis by (simp add: plain_messages_def chat_contract_def)
qed

lemma example_answered: "answered example_chat"
  by code_simp

theorem chat_answers_in_order_witness:
  "chat_contract example_converted \<and> concat (map spoken example_converted) = ''ab''"
  using chat_answers_in_order [OF example_converts example_answered] by code_simp

text \<open>A result nobody asked for, behind the last awaited one, repeats what the assistant said.\<close>

definition repeated_chat :: "chat_turn list" where
  "repeated_chat =
     [\<lparr>cm_role = ''assistant'',
       cm_content = JArr
         [JObj [(''type'', JStr ''tool_use''), (''id'', JStr ''1''), (''name'', JStr ''f''), (''input'', JObj [])],
          JObj [(''type'', JStr ''text''), (''text'', JStr ''b'')]],
       cm_reasoning = JNull\<rparr>,
      \<lparr>cm_role = ''user'',
       cm_content = JArr
         [JObj [(''type'', JStr ''tool_result''), (''tool_use_id'', JStr ''1''), (''content'', JStr ''r'')],
          JObj [(''type'', JStr ''tool_result''), (''tool_use_id'', JStr ''2''), (''content'', JStr ''q'')]],
       cm_reasoning = JNull\<rparr>]"

lemma deferred_text_repeated:
  "map_sum (\<lambda>_. ()) (map spoken) (convert_messages THINK_TAGS repeated_chat) = Inr [[], [], ''b'', [], ''b'']"
  by code_simp

end
