(* ===== verification/Py_Net.thy ===== *)
theory Py_Net
  imports Py_Json
begin

text \<open>
  What the web tools use of Python's \<open>urllib.parse\<close> and \<open>ipaddress\<close> (Python 3.14, which the program
  requires), on the modelled alphabet: the scheme, host and port of \<open>urlparse(url)\<close>, the address a
  text denotes and whether it is globally reachable.  An address is its integer, as in Python.
  \<open>global_not_internal\<close> gives the address ranges that \<open>is_global\<close> excludes.
\<close>

section \<open>Text\<close>

text \<open>\<open>str.lower\<close>: ASCII and the accented capitals of Latin-1.\<close>

definition py_lower_char :: "char \<Rightarrow> char" where
  "py_lower_char c = (let n = of_char c :: nat in
     if (65 \<le> n \<and> n \<le> 90) \<or> (192 \<le> n \<and> n \<le> 222 \<and> n \<noteq> 215) then char_of (n + 32) else c)"

definition py_lower :: "string \<Rightarrow> string" where
  "py_lower s = map py_lower_char s"

text \<open>\<open>s.partition(c)\<close> and \<open>s.rpartition(c)\<close>; without the separator the latter leaves all behind it.\<close>

definition py_partition :: "char \<Rightarrow> string \<Rightarrow> string \<times> bool \<times> string" where
  "py_partition c s =
     (case dropWhile (\<lambda>x. x \<noteq> c) s of [] \<Rightarrow> (s, False, []) | _ # r \<Rightarrow> (takeWhile (\<lambda>x. x \<noteq> c) s, True, r))"

definition after_last :: "char \<Rightarrow> string \<Rightarrow> string" where
  "after_last c s = rev (takeWhile (\<lambda>x. x \<noteq> c) (rev s))"

text \<open>\<open>s.split(c)\<close>: never empty.\<close>

fun py_split :: "char \<Rightarrow> string \<Rightarrow> string list" where
  "py_split c [] = [[]]"
| "py_split c (x # s) =
     (if x = c then [] # py_split c s
      else (case py_split c s of [] \<Rightarrow> [[x]] | p # ps \<Rightarrow> (x # p) # ps))"

lemma py_split_not_Nil [simp]: "py_split c s \<noteq> []"
  by (induction s) (auto split: list.split)

text \<open>\<open>s.split()\<close>.\<close>

definition py_words :: "string \<Rightarrow> string list" where
  "py_words s = filter (\<lambda>w. w \<noteq> []) (py_split (CHR '' '') (map (\<lambda>c. if is_space c then CHR '' '' else c) s))"

lemma dropWhile_idem: "dropWhile p (dropWhile p xs) = dropWhile p xs"
  by (induction xs) auto

lemma py_strip_idem [simp]: "py_strip (py_strip s) = py_strip s"
proof -
  let ?d = "dropWhile is_space"
  have "?d (rev (?d (rev (?d s)))) = rev (?d (rev (?d s)))"
  proof (cases "rev (?d (rev (?d s)))")
    case (Cons c r)
    obtain p where p: "rev (?d s) = p @ ?d (rev (?d s))" by (metis takeWhile_dropWhile_id)
    then have "?d s = rev (?d (rev (?d s))) @ rev p" by (metis rev_append rev_rev_ident)
    with Cons have "?d s = c # r @ rev p" by simp
    then have "\<not> is_space c" by (metis dropWhile_eq_Cons_conv)
    with Cons show ?thesis by simp
  next
    case Nil
    show ?thesis unfolding Nil by simp
  qed
  then show ?thesis by (simp add: py_strip_def py_lstrip_def py_rstrip_def dropWhile_idem)
qed

text \<open>\<open>int(text)\<close>: digits with single underscores between them, and a sign.\<close>

fun int_digits :: "string \<Rightarrow> bool" where
  "int_digits [] = False"
| "int_digits [c] = is_digit c"
| "int_digits (c # d # s) = (is_digit c \<and> (if d = CHR ''_'' then int_digits s else int_digits (d # s)))"

definition py_int :: "string \<Rightarrow> int option" where
  "py_int s =
     (let (neg, body) = (case s of c # r \<Rightarrow> (if c = CHR ''-'' then (True, r) else if c = CHR ''+'' then (False, r) else (False, s))
                         | [] \<Rightarrow> (False, []));
          v = int (digits_val (filter is_digit body))
      in if int_digits body then Some (if neg then - v else v) else None)"

section \<open>Addresses\<close>

datatype ip_addr = IPv4 nat | IPv6 nat

definition parse_octet :: "string \<Rightarrow> nat option" where
  "parse_octet s =
     (if s \<noteq> [] \<and> list_all is_digit s \<and> length s \<le> 3 \<and> (s = ''0'' \<or> hd s \<noteq> CHR ''0'') \<and> digits_val s \<le> 255
      then Some (digits_val s) else None)"

definition parse_ipv4 :: "string \<Rightarrow> nat option" where
  "parse_ipv4 s =
     (case py_split (CHR ''.'') s of
        [a, b, c, d] \<Rightarrow>
          (case (parse_octet a, parse_octet b, parse_octet c, parse_octet d) of
             (Some a, Some b, Some c, Some d) \<Rightarrow> Some (((a * 256 + b) * 256 + c) * 256 + d)
           | _ \<Rightarrow> None)
      | _ \<Rightarrow> None)"

definition parse_hextet :: "string \<Rightarrow> nat option" where
  "parse_hextet s =
     (if s \<noteq> [] \<and> length s \<le> 4 \<and> list_all (\<lambda>c. hex_val c \<noteq> None) s
      then Some (foldl (\<lambda>a c. 16 * a + (case hex_val c of Some v \<Rightarrow> v | None \<Rightarrow> 0)) 0 s) else None)"

fun parse_hextets :: "string list \<Rightarrow> nat list option" where
  "parse_hextets [] = Some []"
| "parse_hextets (p # ps) =
     Option.bind (parse_hextet p) (\<lambda>v. map_option ((#) v) (parse_hextets ps))"

definition hextets_val :: "nat list \<Rightarrow> nat" where
  "hextets_val hs = foldl (\<lambda>a h. 65536 * a + h) 0 hs"

text \<open>
  The hextets of an address text: an IPv4 tail stands for two of them, and one empty part between the
  ends for a run of zeros.
\<close>

definition expand_tail :: "string list \<Rightarrow> (string list \<times> nat list) option" where
  "expand_tail parts =
     (if CHR ''.'' \<in> set (last parts)
      then map_option (\<lambda>v. (butlast parts, [v div 65536, v mod 65536])) (parse_ipv4 (last parts))
      else Some (parts, []))"

text \<open>The hextets of some parts, the last of them given by the IPv4 tail.\<close>

definition hextets_with_tail :: "string list \<Rightarrow> nat list \<Rightarrow> nat list option" where
  "hextets_with_tail parts tail = map_option (\<lambda>hs. hs @ tail) (parse_hextets parts)"

definition parse_ipv6_parts :: "string list \<Rightarrow> nat list \<Rightarrow> nat option" where
  "parse_ipv6_parts parts tail =
     (let n = length parts + length tail;
          empties = filter (\<lambda>i. parts ! i = []) [1..<min (length parts) (n - 1)]
      in if 9 < n then None
         else case empties of
           [] \<Rightarrow> (if n \<noteq> 8 then None else map_option hextets_val (hextets_with_tail parts tail))
         | [i] \<Rightarrow>
             (let hi = take i parts; lo = drop (Suc i) parts;
                  hi' = (if hi = [[]] then [] else hi);
                  lo' = (if lo = [[]] \<and> tail = [] then [] else lo);
                  skipped = 8 - (length hi' + length lo' + length tail)
              in if length hi' + length lo' + length tail < 8
                 then Option.bind (parse_hextets hi') (\<lambda>hs.
                        map_option (\<lambda>ls. hextets_val (hs @ replicate skipped 0 @ ls)) (hextets_with_tail lo' tail))
                 else None)
         | _ \<Rightarrow> None)"

definition parse_ipv6 :: "string \<Rightarrow> nat option" where
  "parse_ipv6 s =
     (case py_partition (CHR ''%'') s of
        (addr, scoped, scope) \<Rightarrow>
          if scoped \<and> (scope = [] \<or> CHR ''%'' \<in> set scope) then None
          else if length (py_split (CHR '':'') addr) < 3 then None
          else Option.bind (expand_tail (py_split (CHR '':'') addr)) (\<lambda>(parts, tail). parse_ipv6_parts parts tail))"

text \<open>\<open>ipaddress.ip_address\<close> of a text, \<^const>\<open>None\<close> for its \<open>ValueError\<close>.\<close>

definition ip_address :: "string \<Rightarrow> ip_addr option" where
  "ip_address s =
     (if CHR ''/'' \<in> set s then None
      else case parse_ipv4 s of Some a \<Rightarrow> Some (IPv4 a) | None \<Rightarrow> map_option IPv6 (parse_ipv6 s))"

section \<open>Networks\<close>

text \<open>A network is its first address and its prefix length; \<open>bits\<close> is 32 or 128.\<close>

definition in_network :: "nat \<Rightarrow> nat \<Rightarrow> nat \<times> nat \<Rightarrow> bool" where
  "in_network bits a net = (a div 2 ^ (bits - snd net) = fst net div 2 ^ (bits - snd net))"

definition ip4 :: "nat \<Rightarrow> nat \<Rightarrow> nat \<Rightarrow> nat \<Rightarrow> nat" where
  "ip4 a b c d = ((a * 256 + b) * 256 + c) * 256 + d"

definition private_v4 :: "(nat \<times> nat) list" where
  "private_v4 =
     [(ip4 0 0 0 0, 8), (ip4 10 0 0 0, 8), (ip4 127 0 0 0, 8), (ip4 169 254 0 0, 16), (ip4 172 16 0 0, 12),
      (ip4 192 0 0 0, 24), (ip4 192 0 0 170, 31), (ip4 192 0 2 0, 24), (ip4 192 168 0 0, 16), (ip4 198 18 0 0, 15),
      (ip4 198 51 100 0, 24), (ip4 203 0 113 0, 24), (ip4 240 0 0 0, 4), (ip4 255 255 255 255, 32)]"

definition private_v4_exceptions :: "(nat \<times> nat) list" where
  "private_v4_exceptions = [(ip4 192 0 0 9, 32), (ip4 192 0 0 10, 32)]"

definition private_v6 :: "(nat \<times> nat) list" where
  "private_v6 =
     [(1, 128), (0, 128), (hextets_val [0, 0, 0, 0, 0, 0xFFFF, 0, 0], 96), (hextets_val [0x64, 0xFF9B, 1, 0, 0, 0, 0, 0], 48),
      (hextets_val [0x100, 0, 0, 0, 0, 0, 0, 0], 64), (hextets_val [0x2001, 0, 0, 0, 0, 0, 0, 0], 23),
      (hextets_val [0x2001, 0xDB8, 0, 0, 0, 0, 0, 0], 32), (hextets_val [0x2002, 0, 0, 0, 0, 0, 0, 0], 16),
      (hextets_val [0x3FFF, 0, 0, 0, 0, 0, 0, 0], 20), (hextets_val [0xFC00, 0, 0, 0, 0, 0, 0, 0], 7),
      (hextets_val [0xFE80, 0, 0, 0, 0, 0, 0, 0], 10)]"

definition private_v6_exceptions :: "(nat \<times> nat) list" where
  "private_v6_exceptions =
     [(hextets_val [0x2001, 1, 0, 0, 0, 0, 0, 1], 128), (hextets_val [0x2001, 1, 0, 0, 0, 0, 0, 2], 128),
      (hextets_val [0x2001, 3, 0, 0, 0, 0, 0, 0], 32), (hextets_val [0x2001, 4, 0x112, 0, 0, 0, 0, 0], 48),
      (hextets_val [0x2001, 0x20, 0, 0, 0, 0, 0, 0], 28), (hextets_val [0x2001, 0x30, 0, 0, 0, 0, 0, 0], 28)]"

definition is_private_v4 :: "nat \<Rightarrow> bool" where
  "is_private_v4 a = (list_ex (in_network 32 a) private_v4 \<and> \<not> list_ex (in_network 32 a) private_v4_exceptions)"

definition is_global_v4 :: "nat \<Rightarrow> bool" where
  "is_global_v4 a = (\<not> in_network 32 a (ip4 100 64 0 0, 10) \<and> \<not> is_private_v4 a)"

text \<open>An IPv4-mapped address counts as the IPv4 address in its last 32 bits.\<close>

definition is_global :: "ip_addr \<Rightarrow> bool" where
  "is_global ip =
     (case ip of
        IPv4 a \<Rightarrow> is_global_v4 a
      | IPv6 a \<Rightarrow>
          if a div 2 ^ 32 = 0xFFFF then is_global_v4 (a mod 2 ^ 32)
          else \<not> (list_ex (in_network 128 a) private_v6 \<and> \<not> list_ex (in_network 128 a) private_v6_exceptions))"

section \<open>URLs\<close>

definition url_scheme_char :: "char \<Rightarrow> bool" where
  "url_scheme_char c = (let n = of_char c :: nat in
     (48 \<le> n \<and> n \<le> 57) \<or> (65 \<le> n \<and> n \<le> 90) \<or> (97 \<le> n \<and> n \<le> 122) \<or> c \<in> {CHR ''+'', CHR ''-'', CHR ''.''})"

definition is_ascii_letter :: "char \<Rightarrow> bool" where
  "is_ascii_letter c = (let n = of_char c :: nat in (65 \<le> n \<and> n \<le> 90) \<or> (97 \<le> n \<and> n \<le> 122))"

text \<open>Control characters and blanks in front and every tab and line break are dropped.\<close>

definition clean_url :: "string \<Rightarrow> string" where
  "clean_url url =
     filter (\<lambda>c. (of_char c :: nat) \<notin> {9, 10, 13}) (dropWhile (\<lambda>c. (of_char c :: nat) \<le> 32) url)"

definition split_scheme :: "string \<Rightarrow> string \<times> string" where
  "split_scheme url =
     (case py_partition (CHR '':'') url of
        (s, found, r) \<Rightarrow>
          if found \<and> s \<noteq> [] \<and> is_ascii_letter (hd s) \<and> list_all url_scheme_char s then (py_lower s, r) else ([], url))"

record url_parts =
  up_scheme :: string
  up_netloc :: string

text \<open>The check of a host in brackets: an address of version 6, or a future version (\<open>v1.x\<close>).\<close>

definition bracketed_host_ok :: "string \<Rightarrow> bool" where
  "bracketed_host_ok hostname =
     (if py_startswith hostname ''v''
      then (case py_partition (CHR ''.'') (tl hostname) of
              (ver, found, r) \<Rightarrow> found \<and> ver \<noteq> [] \<and> list_all (\<lambda>c. hex_val c \<noteq> None) ver \<and> r \<noteq> [] \<and> LF \<notin> set r)
      else (case ip_address hostname of Some (IPv6 _) \<Rightarrow> True | _ \<Rightarrow> False))"

definition bracketed_netloc_ok :: "string \<Rightarrow> bool" where
  "bracketed_netloc_ok netloc =
     (let host_port = after_last (CHR ''@'') netloc
      in case py_partition (CHR ''['') host_port of
           (front, found, bracketed) \<Rightarrow>
             if found then front = [] \<and>
               (case py_partition (CHR '']'') bracketed of
                  (hostname, _, port) \<Rightarrow> (port = [] \<or> hd port = CHR '':'') \<and> bracketed_host_ok hostname)
             else (case py_partition (CHR '':'') host_port of (hostname, _, _) \<Rightarrow> bracketed_host_ok hostname))"

definition netloc_ok :: "string \<Rightarrow> bool" where
  "netloc_ok netloc =
     (let opened = CHR ''['' \<in> set netloc; closed = CHR '']'' \<in> set netloc
      in if opened \<noteq> closed then False else if opened then bracketed_netloc_ok netloc else True)"

text \<open>\<open>urlparse(url)\<close> up to the host; \<^const>\<open>None\<close> is its \<open>ValueError\<close>.\<close>

definition urlparse :: "string \<Rightarrow> url_parts option" where
  "urlparse url =
     (case split_scheme (clean_url url) of
        (scheme, rest) \<Rightarrow>
          if py_startswith rest ''//''
          then (let netloc = takeWhile (\<lambda>c. c \<notin> {CHR ''/'', CHR ''?'', CHR ''#''}) (drop 2 rest)
                in if netloc_ok netloc then Some \<lparr>up_scheme = scheme, up_netloc = netloc\<rparr> else None)
          else Some \<lparr>up_scheme = scheme, up_netloc = []\<rparr>)"

definition host_info :: "url_parts \<Rightarrow> string \<times> string" where
  "host_info u =
     (let host_port = after_last (CHR ''@'') (up_netloc u)
      in case py_partition (CHR ''['') host_port of
           (_, found, bracketed) \<Rightarrow>
             if found then (case py_partition (CHR '']'') bracketed of
                 (hostname, _, port) \<Rightarrow> (hostname, snd (snd (py_partition (CHR '':'') port))))
             else (case py_partition (CHR '':'') host_port of (hostname, _, port) \<Rightarrow> (hostname, port)))"

text \<open>\<open>parsed.hostname\<close>: the name in lower case, a zone kept as it is; empty for none.\<close>

definition url_hostname :: "url_parts \<Rightarrow> string" where
  "url_hostname u =
     (case py_partition (CHR ''%'') (fst (host_info u)) of
        (name, found, zone) \<Rightarrow> py_lower name @ (if found then CHR ''%'' # zone else []))"

text \<open>\<open>parsed.port\<close>: absent, a number up to 65535, or a \<open>ValueError\<close>.\<close>

definition url_port :: "url_parts \<Rightarrow> nat option option" where
  "url_port u =
     (let port = snd (host_info u)
      in if port = [] then Some None
         else if list_all is_digit port \<and> digits_val port \<le> 65535 then Some (Some (digits_val port)) else None)"

end
