(* ===== verification/Web_Fetch.thy ===== *)
theory Web_Fetch
  imports Py_Net
begin

text \<open>
  Local web tools, outbound side (\<open>api/web_tools/egress.py\<close>, \<open>outbound.py\<close>, \<open>constants.py\<close> and the
  HTML handlers of \<open>parsers.py\<close>): the guard of a URL, the fetch with its redirects, the caps on what
  is read, and the text and results taken from a page.

  The network is a record of functions: name resolution, what a hop answers, and the joining of a
  redirect with its base; the tokens of an HTML text come from \<open>html.parser\<close>, which is an argument
  too.  Bytes are characters of a string.  Each connection is noted with what it may connect to.
\<close>

section \<open>Limits\<close>

definition MAX_SEARCH_RESULTS :: nat where "MAX_SEARCH_RESULTS = 10"
definition MAX_FETCH_CHARS :: nat where "MAX_FETCH_CHARS = 24000"
definition MAX_WEB_FETCH_RESPONSE_BYTES :: nat where "MAX_WEB_FETCH_RESPONSE_BYTES = 2 * 1024 * 1024"
definition REDIRECT_RESPONSE_BODY_CAP_BYTES :: nat where "REDIRECT_RESPONSE_BODY_CAP_BYTES = 65536"
definition MAX_WEB_FETCH_REDIRECTS :: nat where "MAX_WEB_FETCH_REDIRECTS = 10"
definition WEB_FETCH_REDIRECT_STATUSES :: "nat list" where "WEB_FETCH_REDIRECT_STATUSES = [301, 302, 303, 307, 308]"

section \<open>The guard\<close>

record egress_policy =
  allow_private_network_targets :: bool
  allowed_schemes :: "string list"

text \<open>A violation with its message, a \<open>ValueError\<close> of the URL parser, or another failure of the network.\<close>

datatype fetch_error =
    EgressViolation string
  | UrlValueError
  | UnknownFamily
  | HttpStatusError nat
  | NetworkError string

text \<open>Rows of \<open>getaddrinfo\<close>; an IPv6 socket address has a flow label and a scope.\<close>

datatype addr_family = AF_INET | AF_INET6 | AF_OTHER

datatype sockaddr = Sock2 string nat | Sock4 string nat nat nat

record addrinfo =
  ai_family :: addr_family
  ai_proto :: nat
  ai_sockaddr :: sockaddr

definition sock_host :: "sockaddr \<Rightarrow> string" where
  "sock_host a = (case a of Sock2 h _ \<Rightarrow> h | Sock4 h _ _ _ \<Rightarrow> h)"

record resolve_result =
  rr_hostname :: string
  rr_host :: string
  rr_port :: nat
  rr_family :: addr_family
  rr_proto :: nat

record http_response =
  hr_status :: nat
  hr_url :: string
  hr_location :: "string option"
  hr_content_type :: "string option"
  hr_chunks :: "string list"
  hr_text :: "string \<Rightarrow> string"

record network =
  getaddrinfo :: "string \<Rightarrow> nat \<Rightarrow> string + addrinfo list"
  getnameinfo :: "sockaddr \<Rightarrow> string \<times> nat"
  http_get :: "string \<Rightarrow> resolve_result list \<Rightarrow> string + http_response"
  urljoin :: "string \<Rightarrow> string \<Rightarrow> string"

definition violation :: "string \<Rightarrow> fetch_error + 'a" where
  "violation m = Inl (EgressViolation m)"

definition port_for_url :: "url_parts \<Rightarrow> nat option" where
  "port_for_url parsed =
     map_option (\<lambda>p. case p of Some n \<Rightarrow> n | None \<Rightarrow> (if py_lower (up_scheme parsed) = ''https'' then 443 else 80))
       (url_port parsed)"

definition stream_getaddrinfo_or_raise :: "network \<Rightarrow> string \<Rightarrow> nat \<Rightarrow> fetch_error + addrinfo list" where
  "stream_getaddrinfo_or_raise net host port =
     (case getaddrinfo net host port of
        Inr infos \<Rightarrow> Inr infos
      | Inl exc \<Rightarrow> violation (''Could not resolve host '' @ str_repr host @ '': '' @ exc))"

text \<open>
  The first resolved address that is an address and not a public one; other texts are passed over.  The
  message below shows the address as it was resolved, the code in its normal form.
\<close>

definition row_refused :: "addrinfo \<Rightarrow> bool" where
  "row_refused row = (case ip_address (sock_host (ai_sockaddr row)) of Some ip \<Rightarrow> \<not> is_global ip | None \<Rightarrow> False)"

definition validated_addrinfos :: "network \<Rightarrow> egress_policy \<Rightarrow> string \<Rightarrow> fetch_error + addrinfo list" where
  "validated_addrinfos net policy url =
     (case urlparse url of
        None \<Rightarrow> Inl UrlValueError
      | Some parsed \<Rightarrow>
          (let scheme = py_lower (up_scheme parsed); host = url_hostname parsed
           in if scheme \<notin> set (allowed_schemes policy)
              then violation (''URL scheme '' @ str_repr scheme @ '' is not allowed for web_fetch'')
              else if host = [] then violation ''web_fetch URL must include a host''
              else case port_for_url parsed of
                None \<Rightarrow> Inl UrlValueError
              | Some port \<Rightarrow>
                  if allow_private_network_targets policy then stream_getaddrinfo_or_raise net host port
                  else if py_lower host = ''localhost'' \<or> py_endswith (py_lower host) ''.localhost''
                  then violation ''localhost targets are not allowed for web_fetch''
                  else if py_endswith (py_lower host) ''.local''
                  then violation ''.local hostnames are not allowed for web_fetch''
                  else case ip_address host of
                    Some ip \<Rightarrow>
                      if \<not> is_global ip
                      then violation (''Non-public IP host '' @ str_repr host @ '' is not allowed for web_fetch'')
                      else stream_getaddrinfo_or_raise net host port
                  | None \<Rightarrow>
                      rbind (stream_getaddrinfo_or_raise net host port) (\<lambda>infos.
                        case List.find row_refused infos of
                          Some row \<Rightarrow> violation (''Host '' @ str_repr host @ '' resolves to a non-public address ('' @
                            sock_host (ai_sockaddr row) @ '')'')
                        | None \<Rightarrow> Inr infos)))"

section \<open>Pinned connections\<close>

fun resolve_results :: "network \<Rightarrow> string \<Rightarrow> addrinfo list \<Rightarrow> fetch_error + resolve_result list" where
  "resolve_results net host [] = Inr []"
| "resolve_results net host (row # rows) =
     (let result = (\<lambda>h p. rbind (resolve_results net host rows) (\<lambda>out.
            Inr (\<lparr>rr_hostname = host, rr_host = h, rr_port = p, rr_family = ai_family row, rr_proto = ai_proto row\<rparr> # out)))
      in case (ai_family row, ai_sockaddr row) of
           (AF_INET6, Sock2 _ _) \<Rightarrow> resolve_results net host rows
         | (AF_INET6, Sock4 h p _ scope) \<Rightarrow>
             (if scope \<noteq> 0 then (case getnameinfo net (ai_sockaddr row) of (h, p) \<Rightarrow> result h p) else result h p)
         | (AF_INET, Sock2 h p) \<Rightarrow> result h p
         | (AF_INET, Sock4 h p _ _) \<Rightarrow> result h p
         | (AF_OTHER, _) \<Rightarrow> Inl UnknownFamily)"

text \<open>A body read up to a cap: whole chunks, then the rest of the cap.\<close>

fun read_body_capped :: "nat \<Rightarrow> string list \<Rightarrow> string" where
  "read_body_capped remaining [] = []"
| "read_body_capped remaining (c # cs) =
     (if remaining = 0 then []
      else if length c \<le> remaining then c @ read_body_capped (remaining - length c) cs
      else take remaining c)"

text \<open>The number of chunks taken off a redirect's body before its location is followed.\<close>

fun drained_chunks :: "nat \<Rightarrow> nat \<Rightarrow> string list \<Rightarrow> nat" where
  "drained_chunks max_bytes received [] = 0"
| "drained_chunks max_bytes received (c # cs) =
     (let received = received + length c
      in if max_bytes \<le> received then 1 else Suc (drained_chunks max_bytes received cs))"

definition drain_body_capped :: "nat \<Rightarrow> string list \<Rightarrow> nat" where
  "drain_body_capped max_bytes chunks = (if max_bytes = 0 then 0 else drained_chunks max_bytes 0 chunks)"

section \<open>Pages\<close>

datatype html_token =
    StartTag string "(string \<times> string option) list"
  | EndTag string
  | Data string

record text_parser =
  tp_title :: string
  tp_parts :: "string list"
  tp_in_title :: bool
  tp_skip :: nat

definition new_text_parser :: text_parser where
  "new_text_parser = \<lparr>tp_title = [], tp_parts = [], tp_in_title = False, tp_skip = 0\<rparr>"

definition SKIPPED_TAGS :: "string list" where
  "SKIPPED_TAGS = [''script'', ''style'', ''noscript'']"

fun text_token :: "html_token \<Rightarrow> text_parser \<Rightarrow> text_parser" where
  "text_token (StartTag tag attrs) p =
     (if tag \<in> set SKIPPED_TAGS then p\<lparr>tp_skip := tp_skip p + 1\<rparr>
      else if tag = ''title'' then p\<lparr>tp_in_title := True\<rparr> else p)"
| "text_token (EndTag tag) p =
     (if tag \<in> set SKIPPED_TAGS \<and> tp_skip p \<noteq> 0 then p\<lparr>tp_skip := tp_skip p - 1\<rparr>
      else if tag = ''title'' then p\<lparr>tp_in_title := False\<rparr> else p)"
| "text_token (Data data) p =
     (let txt = py_join '' '' (py_words data)
      in if txt = [] then p
         else if tp_in_title p then p\<lparr>tp_title := py_strip (tp_title p @ '' '' @ txt)\<rparr>
         else if tp_skip p = 0 then p\<lparr>tp_parts := tp_parts p @ [txt]\<rparr> else p)"

record search_result =
  sr_title :: string
  sr_url :: string

record search_parser =
  sp_results :: "search_result list"
  sp_href :: "string option"
  sp_title_parts :: "string list"

definition new_search_parser :: search_parser where
  "new_search_parser = \<lparr>sp_results = [], sp_href = None, sp_title_parts = []\<rparr>"

text \<open>\<open>dict(attrs)\<close>: the last of repeated attributes counts.\<close>

definition attr_value :: "string \<Rightarrow> (string \<times> string option) list \<Rightarrow> string" where
  "attr_value name attrs = (case map_of (rev attrs) name of Some (Some v) \<Rightarrow> v | _ \<Rightarrow> [])"

text \<open>
  \<open>target\<close> gives the first \<open>uddg\<close> parameter of a link, decoded as \<open>parse_qs\<close> does, and \<open>unquote\<close> and
  \<open>unescape\<close> stand for the functions of that name.
\<close>

record link_codec =
  lc_target :: "string \<Rightarrow> string"
  lc_unquote :: "string \<Rightarrow> string"
  lc_unescape :: "string \<Rightarrow> string"

fun search_token :: "link_codec \<Rightarrow> html_token \<Rightarrow> search_parser \<Rightarrow> search_parser" where
  "search_token k (StartTag tag attrs) p =
     (let href = attr_value ''href'' attrs
      in if tag \<noteq> ''a'' \<or> href = [] \<or> \<not> py_contains ''uddg='' href \<or> lc_target k href = [] then p
         else p\<lparr>sp_href := Some (lc_unquote k (lc_target k href)), sp_title_parts := []\<rparr>)"
| "search_token k (Data data) p =
     (if sp_href p \<noteq> None then p\<lparr>sp_title_parts := sp_title_parts p @ [data]\<rparr> else p)"
| "search_token k (EndTag tag) p =
     (case sp_href p of
        None \<Rightarrow> p
      | Some href \<Rightarrow>
          if tag \<noteq> ''a'' then p
          else (let title = py_join '' '' (py_words (concat (sp_title_parts p)));
                    known = list_ex (\<lambda>r. sr_url r = href) (sp_results p)
                in p\<lparr>sp_results := (if title \<noteq> [] \<and> \<not> known
                       then sp_results p @ [\<lparr>sr_title = lc_unescape k title, sr_url = href\<rparr>] else sp_results p),
                     sp_href := None, sp_title_parts := []\<rparr>))"

definition search_results :: "link_codec \<Rightarrow> html_token list \<Rightarrow> search_result list" where
  "search_results k tokens = take MAX_SEARCH_RESULTS (sp_results (fold (search_token k) tokens new_search_parser))"

text \<open>\<open>_run_web_search\<close>: \<open>page\<close> answers the query, redirects already followed.\<close>

definition run_web_search ::
    "(string \<Rightarrow> string + http_response) \<Rightarrow> (string \<Rightarrow> html_token list) \<Rightarrow> link_codec \<Rightarrow> string \<Rightarrow> fetch_error + search_result list" where
  "run_web_search page tokens k query =
     (case page query of
        Inl e \<Rightarrow> Inl (NetworkError e)
      | Inr r \<Rightarrow>
          if hr_status r < 200 \<or> 300 \<le> hr_status r then Inl (HttpStatusError (hr_status r))
          else Inr (search_results k (tokens (hr_text r (read_body_capped MAX_WEB_FETCH_RESPONSE_BYTES (hr_chunks r))))))"

section \<open>The fetch\<close>

record fetched =
  ft_url :: string
  ft_title :: string
  ft_data :: string

record connection =
  cn_url :: string
  cn_rows :: "addrinfo list"
  cn_results :: "resolve_result list"

definition read_page :: "(string \<Rightarrow> html_token list) \<Rightarrow> http_response \<Rightarrow> fetched" where
  "read_page tokens r =
     (let content_type = (case hr_content_type r of Some t \<Rightarrow> t | None \<Rightarrow> ''text/plain'');
          txt = hr_text r (read_body_capped MAX_WEB_FETCH_RESPONSE_BYTES (hr_chunks r));
          parsed = fold text_token (tokens txt) new_text_parser
      in if py_contains ''html'' (py_lower content_type)
         then \<lparr>ft_url = hr_url r, ft_title = (if tp_title parsed \<noteq> [] then tp_title parsed else hr_url r),
               ft_data = take MAX_FETCH_CHARS (py_join [LF] (tp_parts parsed))\<rparr>
         else \<lparr>ft_url = hr_url r, ft_title = hr_url r, ft_data = take MAX_FETCH_CHARS txt\<rparr>)"

definition connect :: "network \<Rightarrow> egress_policy \<Rightarrow> string \<Rightarrow> fetch_error + connection" where
  "connect net policy url =
     rbind (validated_addrinfos net policy url) (\<lambda>rows.
       let host = (case urlparse url of Some p \<Rightarrow> url_hostname p | None \<Rightarrow> [])
       in rbind (resolve_results net host rows) (\<lambda>results. Inr \<lparr>cn_url = url, cn_rows = rows, cn_results = results\<rparr>))"

text \<open>
  The loop over redirects, \<open>hops\<close> of which are left, with the connections it makes; the redirect after
  the last one raises, so the recursion ends where the loop does.
\<close>

fun fetch_hops :: "network \<Rightarrow> egress_policy \<Rightarrow> nat \<Rightarrow> string \<Rightarrow> (fetch_error + http_response) \<times> connection list" where
  "fetch_hops net policy hops url =
     (case connect net policy url of
        Inl e \<Rightarrow> (Inl e, [])
      | Inr c \<Rightarrow>
          (case http_get net url (cn_results c) of
             Inl e \<Rightarrow> (Inl (NetworkError e), [c])
           | Inr r \<Rightarrow>
               if hr_status r \<in> set WEB_FETCH_REDIRECT_STATUSES then
                 (case hops of
                    0 \<Rightarrow> (violation ''web_fetch exceeded maximum redirects (10)'', [c])
                  | Suc left \<Rightarrow>
                      (case hr_location r of
                         None \<Rightarrow> (violation ''web_fetch redirect response missing Location header'', [c])
                       | Some location \<Rightarrow>
                           if py_strip location = []
                           then (violation ''web_fetch redirect response missing Location header'', [c])
                           else (case fetch_hops net policy left (urljoin net (hr_url r) (py_strip location)) of
                                   (result, cs) \<Rightarrow> (result, c # cs))))
               else if 400 \<le> hr_status r then (Inl (HttpStatusError (hr_status r)), [c])
               else (Inr r, [c])))"

declare fetch_hops.simps [simp del]

definition run_web_fetch ::
    "network \<Rightarrow> egress_policy \<Rightarrow> (string \<Rightarrow> html_token list) \<Rightarrow> string \<Rightarrow> (fetch_error + fetched) \<times> connection list" where
  "run_web_fetch net policy tokens url =
     (case fetch_hops net policy MAX_WEB_FETCH_REDIRECTS url of
        (Inl e, cs) \<Rightarrow> (Inl e, cs)
      | (Inr r, cs) \<Rightarrow> (Inr (read_page tokens r), cs))"

section \<open>What a connection may reach\<close>

text \<open>
  The ranges that lead inside: loopback, private, link-local, carrier and unspecified networks, with the
  IPv4 ones also in their IPv6 form.
\<close>

definition internal_v4_ranges :: "(nat \<times> nat) list" where
  "internal_v4_ranges =
     [(ip4 0 0 0 0, ip4 0 255 255 255), (ip4 10 0 0 0, ip4 10 255 255 255), (ip4 100 64 0 0, ip4 100 127 255 255),
      (ip4 127 0 0 0, ip4 127 255 255 255), (ip4 169 254 0 0, ip4 169 254 255 255),
      (ip4 172 16 0 0, ip4 172 31 255 255), (ip4 192 168 0 0, ip4 192 168 255 255)]"

definition internal_v4 :: "nat \<Rightarrow> bool" where
  "internal_v4 a = list_ex (\<lambda>(lo, hi). lo \<le> a \<and> a \<le> hi) internal_v4_ranges"

definition internal_v6 :: "nat \<Rightarrow> bool" where
  "internal_v6 a =
     (a \<le> 1 \<or>
      (0xFFFF * 2 ^ 32 \<le> a \<and> a < 0x10000 * 2 ^ 32 \<and> internal_v4 (a - 0xFFFF * 2 ^ 32)) \<or>
      (0xFC00 * 2 ^ 112 \<le> a \<and> a < 0xFE00 * 2 ^ 112) \<or> (0xFE80 * 2 ^ 112 \<le> a \<and> a < 0xFEC0 * 2 ^ 112))"

definition internal :: "ip_addr \<Rightarrow> bool" where
  "internal ip = (case ip of IPv4 a \<Rightarrow> internal_v4 a | IPv6 a \<Rightarrow> internal_v6 a)"

text \<open>No text of an internal address.\<close>

definition outside :: "string \<Rightarrow> bool" where
  "outside host = (case ip_address host of Some ip \<Rightarrow> \<not> internal ip | None \<Rightarrow> True)"

section \<open>Public addresses are outside\<close>

lemma in_network_range:
  assumes "lo = fst net" "2 ^ (bits - snd net) = m" "0 < m" "m dvd lo"
  shows "in_network bits a net \<longleftrightarrow> lo \<le> a \<and> a < lo + m"
proof -
  obtain q where q: "lo = m * q" using assms(4) by (auto simp: dvd_def)
  have "a div m = q \<longleftrightarrow> q * m \<le> a \<and> a < (q + 1) * m"
    using assms(3) by (metis Suc_eq_plus1 div_nat_eqI div_times_less_eq_dividend dividend_less_div_times mult.commute mult_Suc)
  moreover have "fst net div m = q" using q assms(1,3) by (metis nonzero_mult_div_cancel_left less_irrefl)
  ultimately show ?thesis using assms(1,2) q by (simp add: in_network_def algebra_simps)
qed

lemma in_network_bounds:
  assumes "in_network bits a (lo, len)" "2 ^ (bits - len) = m" "0 < m" "m dvd lo"
  shows "lo \<le> a" "a < lo + m"
  using in_network_range [of lo "(lo, len)" bits m a] assms by auto

lemma internal_v4_networks:
  "in_network 32 a (ip4 0 0 0 0, 8) \<longleftrightarrow> a \<le> ip4 0 255 255 255"
  "in_network 32 a (ip4 10 0 0 0, 8) \<longleftrightarrow> ip4 10 0 0 0 \<le> a \<and> a \<le> ip4 10 255 255 255"
  "in_network 32 a (ip4 100 64 0 0, 10) \<longleftrightarrow> ip4 100 64 0 0 \<le> a \<and> a \<le> ip4 100 127 255 255"
  "in_network 32 a (ip4 127 0 0 0, 8) \<longleftrightarrow> ip4 127 0 0 0 \<le> a \<and> a \<le> ip4 127 255 255 255"
  "in_network 32 a (ip4 169 254 0 0, 16) \<longleftrightarrow> ip4 169 254 0 0 \<le> a \<and> a \<le> ip4 169 254 255 255"
  "in_network 32 a (ip4 172 16 0 0, 12) \<longleftrightarrow> ip4 172 16 0 0 \<le> a \<and> a \<le> ip4 172 31 255 255"
  "in_network 32 a (ip4 192 168 0 0, 16) \<longleftrightarrow> ip4 192 168 0 0 \<le> a \<and> a \<le> ip4 192 168 255 255"
  by (subst in_network_range [OF refl refl]; simp add: ip4_def; linarith)+

text \<open>The exceptions of Python's tables lie in none of these ranges.\<close>

lemma v4_exceptions_outside:
  "list_ex (in_network 32 a) private_v4_exceptions \<Longrightarrow> \<not> internal_v4 a"
proof -
  have "in_network 32 a (ip4 192 0 0 9, 32) \<longleftrightarrow> a = ip4 192 0 0 9" "in_network 32 a (ip4 192 0 0 10, 32) \<longleftrightarrow> a = ip4 192 0 0 10"
    by (simp_all add: in_network_def)
  then show "list_ex (in_network 32 a) private_v4_exceptions \<Longrightarrow> \<not> internal_v4 a"
    by (auto simp: private_v4_exceptions_def internal_v4_def internal_v4_ranges_def ip4_def)
qed

lemma global_v4_outside: "is_global_v4 a \<Longrightarrow> \<not> internal_v4 a"
proof
  assume g: "is_global_v4 a" and i: "internal_v4 a"
  have "in_network 32 a (ip4 100 64 0 0, 10) \<or> list_ex (in_network 32 a) private_v4"
    using i by (auto simp: internal_v4_def internal_v4_ranges_def private_v4_def internal_v4_networks) (simp add: ip4_def)?
  with g i v4_exceptions_outside show False by (auto simp: is_global_v4_def is_private_v4_def)
qed

lemma v6_exception_range:
  "list_ex (in_network 128 a) private_v6_exceptions \<Longrightarrow> 0x2001 * 2 ^ 112 \<le> a \<and> a < 0x2002 * 2 ^ 112"
proof -
  have "in_network 128 a (lo, len) \<Longrightarrow> 2 ^ (128 - len) dvd lo \<Longrightarrow> lo \<le> a \<and> a < lo + 2 ^ (128 - len)" for lo len
    using in_network_bounds [of 128 a lo len, OF _ refl] by auto
  note b = this
  assume "list_ex (in_network 128 a) private_v6_exceptions"
  then show "0x2001 * 2 ^ 112 \<le> a \<and> a < 0x2002 * 2 ^ 112"
    by (auto simp: private_v6_exceptions_def hextets_val_def dest!: b)
qed

lemma global_outside: "is_global ip \<Longrightarrow> \<not> internal ip"
proof (cases ip)
  case (IPv4 a)
  then show "is_global ip \<Longrightarrow> \<not> internal ip" using global_v4_outside by (simp add: is_global_def internal_def)
next
  case (IPv6 a)
  assume g: "is_global ip"
  show "\<not> internal ip"
  proof (cases "a div 2 ^ 32 = 0xFFFF")
    case True
    then have b: "0xFFFF * 2 ^ 32 \<le> a" "a < 0x10000 * 2 ^ 32" and m: "a mod 2 ^ 32 = a - 0xFFFF * 2 ^ 32"
      by (auto simp: modulo_nat_def)
    have "is_global_v4 (a mod 2 ^ 32)" using g IPv6 True by (simp add: is_global_def)
    from global_v4_outside [OF this] have "\<not> internal_v4 (a - 0xFFFF * 2 ^ 32)" unfolding m .
    with b IPv6 show ?thesis by (simp add: internal_def internal_v6_def)
  next
    case False
    have n: "\<not> (0xFFFF * 2 ^ 32 \<le> a \<and> a < 0x10000 * 2 ^ 32)"
    proof
      assume "0xFFFF * 2 ^ 32 \<le> a \<and> a < 0x10000 * 2 ^ 32"
      then have "a div 2 ^ 32 = 0xFFFF" by (intro div_nat_eqI) auto
      with False show False by simp
    qed
    have nets: "in_network 128 a (1, 128) \<longleftrightarrow> a = 1" "in_network 128 a (0, 128) \<longleftrightarrow> a = 0"
      "in_network 128 a (hextets_val [0xFC00, 0, 0, 0, 0, 0, 0, 0], 7) \<longleftrightarrow> 0xFC00 * 2 ^ 112 \<le> a \<and> a < 0xFE00 * 2 ^ 112"
      "in_network 128 a (hextets_val [0xFE80, 0, 0, 0, 0, 0, 0, 0], 10) \<longleftrightarrow> 0xFE80 * 2 ^ 112 \<le> a \<and> a < 0xFEC0 * 2 ^ 112"
      by (simp add: in_network_def, simp add: in_network_def)
        (subst in_network_range [OF refl refl]; simp add: hextets_val_def)+
    have "\<not> internal_v6 a"
    proof
      assume i: "internal_v6 a"
      with n have r: "a \<le> 1 \<or> (0xFC00 * 2 ^ 112 \<le> a \<and> a < 0xFE00 * 2 ^ 112) \<or> (0xFE80 * 2 ^ 112 \<le> a \<and> a < 0xFEC0 * 2 ^ 112)"
        by (auto simp: internal_v6_def)
      then have "list_ex (in_network 128 a) private_v6" unfolding private_v6_def using nets by auto
      moreover have "\<not> list_ex (in_network 128 a) private_v6_exceptions" using v6_exception_range [of a] r by auto
      ultimately show False using g IPv6 False by (simp add: is_global_def)
    qed
    with IPv6 show ?thesis by (simp add: internal_def)
  qed
qed

section \<open>Properties\<close>

text \<open>
  What a connection of the fetch is made of: an allowed scheme, a host that is no local name and no
  internal address, and results that come from rows none of which is an internal address, unless the
  host is itself a public address.
\<close>

definition pinned :: "network \<Rightarrow> addrinfo list \<Rightarrow> resolve_result \<Rightarrow> bool" where
  "pinned net rows r =
     list_ex (\<lambda>row. rr_host r \<in> {sock_host (ai_sockaddr row), fst (getnameinfo net (ai_sockaddr row))}) rows"

definition guarded_host :: "string \<Rightarrow> bool" where
  "guarded_host host =
     (host \<noteq> [] \<and> py_lower host \<noteq> ''localhost'' \<and> \<not> py_endswith (py_lower host) ''.localhost'' \<and>
      \<not> py_endswith (py_lower host) ''.local'' \<and> outside host)"

definition guarded :: "network \<Rightarrow> egress_policy \<Rightarrow> connection \<Rightarrow> bool" where
  "guarded net policy c =
     (case urlparse (cn_url c) of
        None \<Rightarrow> False
      | Some p \<Rightarrow>
          py_lower (up_scheme p) \<in> set (allowed_schemes policy) \<and> guarded_host (url_hostname p) \<and>
          (ip_address (url_hostname p) \<noteq> None \<or> list_all (\<lambda>row. outside (sock_host (ai_sockaddr row))) (cn_rows c)) \<and>
          list_all (pinned net (cn_rows c)) (cn_results c))"

lemma not_refused_outside: "\<not> row_refused row \<Longrightarrow> outside (sock_host (ai_sockaddr row))"
  using global_outside by (auto simp: row_refused_def outside_def split: option.splits)

lemma validated_guarded:
  assumes "validated_addrinfos net policy url = Inr rows" "\<not> allow_private_network_targets policy"
  obtains p where "urlparse url = Some p" "py_lower (up_scheme p) \<in> set (allowed_schemes policy)"
    "guarded_host (url_hostname p)"
    "ip_address (url_hostname p) \<noteq> None \<or> list_all (\<lambda>row. outside (sock_host (ai_sockaddr row))) rows"
proof -
  obtain p where p: "urlparse url = Some p" using assms(1) by (auto simp: validated_addrinfos_def split: option.splits)
  have v: "py_lower (up_scheme p) \<in> set (allowed_schemes policy)" "url_hostname p \<noteq> []"
    "py_lower (url_hostname p) \<noteq> ''localhost''" "\<not> py_endswith (py_lower (url_hostname p)) ''.localhost''"
    "\<not> py_endswith (py_lower (url_hostname p)) ''.local''"
    using assms p by (auto simp: validated_addrinfos_def violation_def Let_def split: option.splits if_splits)
  show thesis
  proof (cases "ip_address (url_hostname p)")
    case (Some ip)
    with assms p have "is_global ip"
      by (auto simp: validated_addrinfos_def violation_def Let_def split: option.splits if_splits)
    with global_outside Some v p that show thesis by (simp add: guarded_host_def outside_def)
  next
    case None
    with assms p have "List.find row_refused rows = None"
      by (auto simp: validated_addrinfos_def violation_def Let_def split: option.splits if_splits)
    then have "list_all (\<lambda>row. outside (sock_host (ai_sockaddr row))) rows"
      by (auto simp: find_None_iff list_all_iff intro: not_refused_outside)
    with None v p that show thesis by (simp add: guarded_host_def outside_def)
  qed
qed

lemma resolve_results_pinned:
  "resolve_results net host rows = Inr out \<Longrightarrow> list_all (pinned net rows) out"
proof (induction rows arbitrary: out)
  case (Cons row rows)
  have w: "pinned net rows r \<Longrightarrow> pinned net (row # rows) r" for r by (simp add: pinned_def)
  then have tail: "resolve_results net host rows = Inr rs \<Longrightarrow> list_all (pinned net (row # rows)) rs" for rs
    using Cons.IH by (auto simp: list_all_iff)
  have head: "rr_host r = sock_host (ai_sockaddr row) \<or> rr_host r = fst (getnameinfo net (ai_sockaddr row)) \<Longrightarrow>
      pinned net (row # rows) r" for r by (auto simp: pinned_def)
  show ?case
    using Cons.prems tail
    by (auto simp: Let_def sock_host_def intro!: head split: addr_family.splits sockaddr.splits if_splits prod.splits)
qed simp

lemma connect_guarded:
  "connect net policy url = Inr c \<Longrightarrow> \<not> allow_private_network_targets policy \<Longrightarrow> guarded net policy c"
  using resolve_results_pinned by (auto simp: connect_def guarded_def elim!: validated_guarded)

lemma fetch_hops_guarded:
  "\<not> allow_private_network_targets policy \<Longrightarrow>
   list_all (guarded net policy) (snd (fetch_hops net policy hops url)) \<and> length (snd (fetch_hops net policy hops url)) \<le> Suc hops"
proof (induction hops arbitrary: url)
  case 0
  then show ?case
    by (subst (1 2) fetch_hops.simps) (auto simp: connect_guarded split: sum.split)
next
  case (Suc hops)
  have ih: "list_all (guarded net policy) cs \<and> length cs \<le> Suc hops" if "fetch_hops net policy hops u = (r, cs)" for u r cs
    using Suc.IH [OF Suc.prems, of u] that by simp
  show ?case
    using Suc.prems by (subst (1 2) fetch_hops.simps) (auto simp: connect_guarded dest: ih split: sum.split option.split prod.split)
qed


text \<open>A public page that redirects to the proxy's own host: one connection, then a violation.\<close>

definition example_network :: network where
  "example_network =
     \<lparr>getaddrinfo = (\<lambda>host port. Inr [\<lparr>ai_family = AF_INET, ai_proto = 6, ai_sockaddr = Sock2 ''8.8.8.8'' port\<rparr>]),
      getnameinfo = (\<lambda>_. ([], 0)),
      http_get = (\<lambda>url rs. Inr \<lparr>hr_status = 302, hr_url = url, hr_location = Some ''http://127.0.0.1/'',
        hr_content_type = None, hr_chunks = [], hr_text = id\<rparr>),
      urljoin = (\<lambda>base location. location)\<rparr>"

definition strict_policy :: egress_policy where
  "strict_policy = \<lparr>allow_private_network_targets = False, allowed_schemes = [''http'', ''https'']\<rparr>"

lemma example_urls:
  "urlparse ''http://a.b/x'' = Some \<lparr>up_scheme = ''http'', up_netloc = ''a.b''\<rparr>"
  "urlparse ''http://127.0.0.1/'' = Some \<lparr>up_scheme = ''http'', up_netloc = ''127.0.0.1''\<rparr>"
  by code_simp+

lemma example_hosts:
  "url_hostname \<lparr>up_scheme = ''http'', up_netloc = ''a.b''\<rparr> = ''a.b''" "url_port \<lparr>up_scheme = ''http'', up_netloc = ''a.b''\<rparr> = Some None"
  "url_hostname \<lparr>up_scheme = ''http'', up_netloc = ''127.0.0.1''\<rparr> = ''127.0.0.1''"
  "url_port \<lparr>up_scheme = ''http'', up_netloc = ''127.0.0.1''\<rparr> = Some None" "ip_address ''a.b'' = None"
  by code_simp+

lemma example_texts:
  "py_lower ''http'' = ''http''" "py_lower ''a.b'' = ''a.b''" "py_lower ''127.0.0.1'' = ''127.0.0.1''"
  "\<not> py_endswith ''a.b'' ''.localhost''" "\<not> py_endswith ''a.b'' ''.local''"
  "\<not> py_endswith ''127.0.0.1'' ''.localhost''" "\<not> py_endswith ''127.0.0.1'' ''.local''"
  by code_simp+

lemma example_octets:
  "parse_octet ''8'' = Some 8" "parse_octet ''127'' = Some 127" "parse_octet ''0'' = Some 0" "parse_octet ''1'' = Some 1"
  by (simp_all add: parse_octet_def digits_val_def digit_val_def is_digit_def Let_def)

lemma example_addresses:
  "ip_address ''8.8.8.8'' = Some (IPv4 134744072)" "ip_address ''127.0.0.1'' = Some (IPv4 2130706433)"
  by (simp_all add: ip_address_def parse_ipv4_def example_octets)

lemma example_global: "is_global (IPv4 134744072)" "\<not> is_global (IPv4 2130706433)"
  by (simp_all add: is_global_def is_global_v4_def is_private_v4_def private_v4_def private_v4_exceptions_def in_network_def ip4_def)


end
