(* ===== verification/Web_Tools.thy ===== *)
theory Web_Tools
  imports Web_Fetch Chat_Conversion Stream_Contracts
begin

text \<open>
  Local web tools, the turn (\<open>api/web_tools/request.py\<close>, \<open>streaming.py\<close> and the text functions of
  \<open>parsers.py\<close>): which requests force \<open>web_search\<close> or \<open>web_fetch\<close>, what they ask for, and the stream
  the proxy answers with.  Whatever the network does, that stream satisfies the Anthropic contract
  (\<open>web_tool_stream_contract\<close>).
\<close>

section \<open>Text of a request\<close>

definition item_text :: "json \<Rightarrow> string" where
  "item_text item = py_str (get_block_attr item ''text'' (JStr []))"

definition content_text :: "json \<Rightarrow> string" where
  "content_text content =
     (case content of
        JStr s \<Rightarrow> s
      | JArr items \<Rightarrow> py_join [LF] (filter (\<lambda>t. t \<noteq> []) (map item_text items))
      | _ \<Rightarrow> py_str content)"

text \<open>The suffix behind the first place where \<open>p\<close> holds, and the text from the first place on.\<close>

fun first_suffix :: "(string \<Rightarrow> bool) \<Rightarrow> string \<Rightarrow> string option" where
  "first_suffix p [] = (if p [] then Some [] else None)"
| "first_suffix p (c # s) = (if p (c # s) then Some (c # s) else first_suffix p s)"

definition strip_chars :: "string \<Rightarrow> string \<Rightarrow> string" where
  "strip_chars cs s = rev (dropWhile (\<lambda>c. c \<in> set cs) (rev (dropWhile (\<lambda>c. c \<in> set cs) s)))"

text \<open>
  \<open>query:\s*(.+)\<close>, in any case, with \<open>.\<close> matching line breaks: the group is what follows the blanks, or
  the last of them when nothing else does, which stripping leaves empty either way.
\<close>

definition extract_query :: "string \<Rightarrow> string" where
  "extract_query txt =
     (case first_suffix (\<lambda>s. py_lower (take 6 s) = ''query:'' \<and> 6 < length s) txt of
        Some s \<Rightarrow> strip_chars [DQ, SQ] (py_strip (drop 6 s))
      | None \<Rightarrow> py_strip txt)"

text \<open>\<open>https?://\S+\<close>, without closing punctuation.\<close>

definition url_start :: "string \<Rightarrow> bool" where
  "url_start s =
     ((py_startswith s ''http://'' \<and> takeWhile (\<lambda>c. \<not> is_space c) (drop 7 s) \<noteq> []) \<or>
      (py_startswith s ''https://'' \<and> takeWhile (\<lambda>c. \<not> is_space c) (drop 8 s) \<noteq> []))"

definition extract_url :: "string \<Rightarrow> string" where
  "extract_url txt =
     (case first_suffix url_start txt of
        Some s \<Rightarrow> rev (dropWhile (\<lambda>c. c \<in> set '').,]'') (rev (takeWhile (\<lambda>c. \<not> is_space c) s)))
      | None \<Rightarrow> py_strip txt)"

section \<open>Forced tools\<close>

record web_request =
  wr_model :: json
  wr_messages :: "chat_turn list"
  wr_tools :: "api_tool list option"
  wr_tool_choice :: json

definition web_request_text :: "web_request \<Rightarrow> string" where
  "web_request_text request = py_join [LF] (map (\<lambda>m. content_text (cm_content m)) (wr_messages request))"

definition forced_tool_turn_text :: "web_request \<Rightarrow> string" where
  "forced_tool_turn_text request =
     (case List.find (\<lambda>m. cm_role m = ''user'') (rev (wr_messages request)) of
        Some m \<Rightarrow> content_text (cm_content m) | None \<Rightarrow> [])"

text \<open>A forced name that is a list or an object cannot be looked up in the set of names.\<close>

definition forced_server_tool_name :: "web_request \<Rightarrow> py_error + string option" where
  "forced_server_tool_name request =
     (case as_obj (wr_tool_choice request) of
        None \<Rightarrow> Inr None
      | Some tc \<Rightarrow>
          if jget tc ''type'' \<noteq> JStr ''tool'' then Inr None
          else case jget tc ''name'' of
            JArr _ \<Rightarrow> Inl TypeError
          | JObj _ \<Rightarrow> Inl TypeError
          | JStr name \<Rightarrow> Inr (if name = ''web_search'' \<or> name = ''web_fetch'' then Some name else None)
          | _ \<Rightarrow> Inr None)"

definition request_tools :: "web_request \<Rightarrow> api_tool list" where
  "request_tools request = (case wr_tools request of Some ts \<Rightarrow> ts | None \<Rightarrow> [])"

definition has_tool_named :: "web_request \<Rightarrow> string \<Rightarrow> bool" where
  "has_tool_named request name = list_ex (\<lambda>t. at_name t = name) (request_tools request)"

definition is_web_server_tool_request :: "web_request \<Rightarrow> py_error + bool" where
  "is_web_server_tool_request request =
     rbind (forced_server_tool_name request) (\<lambda>forced.
       Inr (case forced of None \<Rightarrow> False | Some name \<Rightarrow> has_tool_named request name))"

definition is_anthropic_server_tool_definition :: "api_tool \<Rightarrow> bool" where
  "is_anthropic_server_tool_definition tool =
     (let name = py_strip (at_name tool)
      in name = ''web_search'' \<or> name = ''web_fetch'' \<or>
         (case at_type tool of
            Some typ \<Rightarrow> py_startswith typ ''web_search'' \<or> py_startswith typ ''web_fetch'' | None \<Rightarrow> False))"

definition has_listed_anthropic_server_tools :: "web_request \<Rightarrow> bool" where
  "has_listed_anthropic_server_tools request = list_ex is_anthropic_server_tool_definition (request_tools request)"

definition openai_chat_upstream_server_tool_error :: "web_request \<Rightarrow> bool \<Rightarrow> py_error + string option" where
  "openai_chat_upstream_server_tool_error request web_tools_enabled =
     rbind (forced_server_tool_name request) (\<lambda>forced.
       Inr (case forced of
              Some name \<Rightarrow>
                (if \<not> web_tools_enabled
                 then Some (''tool_choice forces Anthropic server tool '' @ str_repr name @
                   '', but local web server tools are disabled (ENABLE_WEB_SERVER_TOOLS=false). Enable them or use a native Anthropic Messages transport (e.g. open_router, ollama, lmstudio).'')
                 else None)
            | None \<Rightarrow>
                (if has_listed_anthropic_server_tools request
                 then Some ''OpenAI Chat upstreams cannot use listed Anthropic server tools (web_search / web_fetch) without the local web server tool handler. Use a native Anthropic transport, set ENABLE_WEB_SERVER_TOOLS=true and force the tool with tool_choice, or remove these tools from the request.''
                 else None)))"

section \<open>The answer\<close>

fun summary_lines :: "nat \<Rightarrow> search_result list \<Rightarrow> string list" where
  "summary_lines n [] = []"
| "summary_lines n (r # rs) = (nat_digits n @ ''. '' @ sr_title r @ [LF] @ sr_url r) # summary_lines (n + 1) rs"

definition search_summary :: "string \<Rightarrow> search_result list \<Rightarrow> string" where
  "search_summary query results =
     (if results = [] then ''No web search results found for: '' @ query
      else py_join [LF, LF] ((''Search results for: '' @ query) # summary_lines 1 results))"

text \<open>\<open>type(error).__name__\<close>: a failure of the network carries its own.\<close>

definition fetch_error_name :: "string \<Rightarrow> fetch_error \<Rightarrow> string" where
  "fetch_error_name tool_name e =
     (case e of
        EgressViolation _ \<Rightarrow> ''WebFetchEgressViolation''
      | UrlValueError \<Rightarrow> ''ValueError''
      | UnknownFamily \<Rightarrow> ''AssertionError''
      | HttpStatusError _ \<Rightarrow> (if tool_name = ''web_search'' then ''HTTPStatusError'' else ''ClientResponseError'')
      | NetworkError name \<Rightarrow> name)"

definition web_tool_client_error_summary :: "string \<Rightarrow> fetch_error \<Rightarrow> bool \<Rightarrow> string" where
  "web_tool_client_error_summary tool_name e verbose =
     (if verbose then tool_name @ '' failed: '' @ fetch_error_name tool_name e else ''Web tool request failed.'')"

record web_env =
  we_uuid :: string
  we_hex :: string
  we_now :: string
  we_network :: network
  we_policy :: egress_policy
  we_search_page :: "string \<Rightarrow> string + http_response"
  we_tokens :: "string \<Rightarrow> html_token list"
  we_links :: link_codec
  we_verbose :: bool

text \<open>The type and content of the result block, and the summary for the model.\<close>

definition search_answer :: "string \<Rightarrow> search_result list \<Rightarrow> string \<times> json \<times> string" where
  "search_answer query results =
     (WEB_SEARCH_TOOL_RESULT,
      JArr (map (\<lambda>r. JObj [(''type'', JStr ''web_search_result''), (''title'', JStr (sr_title r)), (''url'', JStr (sr_url r))]) results),
      search_summary query results)"

definition fetch_answer :: "string \<Rightarrow> fetched \<Rightarrow> string \<times> json \<times> string" where
  "fetch_answer now f =
     (WEB_FETCH_TOOL_RESULT,
      JObj [(''type'', JStr ''web_fetch_result''), (''url'', JStr (ft_url f)),
        (''content'', JObj [(''type'', JStr ''document''),
           (''source'', JObj [(''type'', JStr ''text''), (''media_type'', JStr ''text/plain''), (''data'', JStr (ft_data f))]),
           (''title'', JStr (ft_title f)), (''citations'', JObj [(''enabled'', JBool True)])]),
        (''retrieved_at'', JStr now)],
      take MAX_FETCH_CHARS (ft_data f))"

definition failed_answer :: "web_env \<Rightarrow> string \<Rightarrow> fetch_error \<Rightarrow> string \<times> json \<times> string" where
  "failed_answer e tool_name err =
     (if tool_name = ''web_search'' then WEB_SEARCH_TOOL_RESULT else WEB_FETCH_TOOL_RESULT,
      JObj [(''type'', JStr (if tool_name = ''web_search'' then ''web_search_tool_result_error'' else ''web_fetch_tool_error'')),
            (''error_code'', JStr ''unavailable'')],
      web_tool_client_error_summary tool_name err (we_verbose e))"

definition tool_answer :: "web_env \<Rightarrow> string \<Rightarrow> string \<Rightarrow> string \<times> json \<times> string" where
  "tool_answer e tool_name txt =
     (if tool_name = ''web_search''
      then (case run_web_search (we_search_page e) (we_tokens e) (we_links e) (extract_query txt) of
              Inr results \<Rightarrow> search_answer (extract_query txt) results | Inl err \<Rightarrow> failed_answer e tool_name err)
      else (case fst (run_web_fetch (we_network e) (we_policy e) (we_tokens e) (extract_url txt)) of
              Inr f \<Rightarrow> fetch_answer (we_now e) f | Inl err \<Rightarrow> failed_answer e tool_name err))"

definition typed_frame :: "string \<Rightarrow> jdict \<Rightarrow> frame" where
  "typed_frame event_type data = mk_frame event_type ((''type'', JStr event_type) # data)"

definition block_start_frame :: "int \<Rightarrow> jdict \<Rightarrow> frame" where
  "block_start_frame i block = typed_frame ''content_block_start'' [(''index'', JInt i), (''content_block'', JObj block)]"

definition block_stop_frame :: "int \<Rightarrow> frame" where
  "block_stop_frame i = typed_frame ''content_block_stop'' [(''index'', JInt i)]"

definition opening_frames :: "web_env \<Rightarrow> web_request \<Rightarrow> int \<Rightarrow> string \<Rightarrow> string \<Rightarrow> frame list" where
  "opening_frames e request input_tokens tool_name txt =
     [typed_frame ''message_start'' [(''message'', JObj
        [(''id'', JStr (''msg_'' @ we_uuid e)), (''type'', JStr ''message''), (''role'', JStr ''assistant''), (''content'', JArr []),
         (''model'', wr_model request), (''stop_reason'', JNull), (''stop_sequence'', JNull),
         (''usage'', JObj [(''input_tokens'', JInt input_tokens), (''output_tokens'', JInt 1)])])],
      block_start_frame 0 [(''type'', JStr SERVER_TOOL_USE), (''id'', JStr (''srvtoolu_'' @ we_hex e)), (''name'', JStr tool_name),
        (''input'', JObj (if tool_name = ''web_search'' then [(''query'', JStr (extract_query txt))] else [(''url'', JStr (extract_url txt))]))],
      block_stop_frame 0]"

definition closing_frames :: "web_env \<Rightarrow> int \<Rightarrow> string \<Rightarrow> string \<times> json \<times> string \<Rightarrow> frame list" where
  "closing_frames e input_tokens tool_name answer =
     (case answer of (result_block_type, result_content, summary) \<Rightarrow>
        [block_start_frame 1 [(''type'', JStr result_block_type), (''tool_use_id'', JStr (''srvtoolu_'' @ we_hex e)), (''content'', result_content)],
         block_stop_frame 1,
         block_start_frame 2 [(''type'', JStr ''text''), (''text'', JStr [])],
         typed_frame ''content_block_delta'' [(''index'', JInt 2), (''delta'', JObj [(''type'', JStr ''text_delta''), (''text'', JStr summary)])],
         block_stop_frame 2,
         typed_frame ''message_delta''
           [(''delta'', JObj [(''stop_reason'', JStr ''end_turn''), (''stop_sequence'', JNull)]),
            (''usage'', JObj [(''input_tokens'', JInt input_tokens), (''output_tokens'', JInt (max 1 (int (length summary) div 4))),
               (''server_tool_use'', JObj [(if tool_name = ''web_search'' then ''web_search_requests'' else ''web_fetch_requests'', JInt 1)])])],
         typed_frame ''message_stop'' []])"

definition stream_web_server_tool_response :: "web_env \<Rightarrow> web_request \<Rightarrow> int \<Rightarrow> py_error + frame list" where
  "stream_web_server_tool_response e request input_tokens =
     rbind (forced_server_tool_name request) (\<lambda>forced.
       case forced of
         None \<Rightarrow> Inr []
       | Some tool_name \<Rightarrow>
           if \<not> has_tool_named request tool_name then Inr []
           else (let txt = forced_tool_turn_text request
                 in Inr (opening_frames e request input_tokens tool_name txt @
                      closing_frames e input_tokens tool_name (tool_answer e tool_name txt))))"

section \<open>Properties\<close>

lemma answer_block_type: "fst (tool_answer e tool_name txt) \<in> {WEB_SEARCH_TOOL_RESULT, WEB_FETCH_TOOL_RESULT}"
  by (simp add: tool_answer_def search_answer_def fetch_answer_def failed_answer_def split: sum.split)

lemma turn_contract:
  assumes "fst answer \<in> {WEB_SEARCH_TOOL_RESULT, WEB_FETCH_TOOL_RESULT}"
  shows "stream_contract (opening_frames e request n tool_name txt @ closing_frames e n tool_name answer) False = Inr ()"
    and "text_content (opening_frames e request n tool_name txt @ closing_frames e n tool_name answer) = snd (snd answer)"
  using assms
  by (cases answer; auto simp: stream_contract_def opening_frames_def closing_frames_def block_start_frame_def block_stop_frame_def
      typed_frame_def check_event_def check_block_start_def check_block_delta_def check_block_stop_def check_init_def event_index_def
      ALLOWED_BLOCK_START_TYPES_def NO_DELTA_BLOCK_KINDS_def SERVER_TOOL_USE_def WEB_SEARCH_TOOL_RESULT_def WEB_FETCH_TOOL_RESULT_def
      expected_delta_def py_str_def py_strip_def py_rstrip_def py_lstrip_def Let_def event_text_def block_of_def delta_of_def)+

text \<open>
  C14: the turn the proxy plays for a forced web tool satisfies the Anthropic stream contract, whatever
  the request says and whether the search or the fetch succeeds, is refused or fails: its blocks open and
  close in order, it ends with \<open>message_stop\<close>, and its text is the summary of the result.
\<close>

theorem web_tool_stream_contract:
  "case stream_web_server_tool_response e request n of
     Inl _ \<Rightarrow> True
   | Inr frames \<Rightarrow> frames = [] \<or> stream_contract frames False = Inr () \<and>
       text_content frames = snd (snd (tool_answer e (the (projr (forced_server_tool_name request))) (forced_tool_turn_text request)))"
  using turn_contract [OF answer_block_type]
  by (auto simp: stream_web_server_tool_response_def Let_def split: sum.split option.split)

end
