(* ===== verification/Message_Limiter.thy ===== *)
theory Message_Limiter
  imports Rate_Limit Py_Net
begin

text \<open>
  The queue of outgoing messages (\<open>messaging/limiter.py\<close>): tasks with the same key are compacted into
  one that runs the latest function for all callers, a single worker takes them in order, and it waits
  for a flood pause and for the sliding window before each.

  The worker is a record of where it stands between two suspensions; each event is one atomic step of
  it or of a caller.  A future is a number.  Functions are of any type; what one of them does when it is
  awaited, and how long it takes, is part of the event that ends it.
\<close>

section \<open>How long to pause\<close>

text \<open>The attribute \<open>seconds\<close> of an exception; a text comes with the value of \<open>float\<close> on it.\<close>

datatype seconds_attr = SecNumber rat | SecText "rat option" | SecOther

record task_failure =
  tf_text :: string
  tf_seconds :: "seconds_attr option"

text \<open>\<open>msg.split("after ")[1].split()[0]\<close>, where it exists.\<close>

definition word_after :: "string \<Rightarrow> string option" where
  "word_after msg =
     (case py_find ''after '' msg of
        None \<Rightarrow> None
      | Some i \<Rightarrow>
          (let r = drop (i + 6) msg; part = (case py_find ''after '' r of Some j \<Rightarrow> take j r | None \<Rightarrow> r)
           in case py_words part of [] \<Rightarrow> None | w # _ \<Rightarrow> Some w))"

definition is_flood :: "string \<Rightarrow> bool" where
  "is_flood error_msg = (py_contains ''flood'' error_msg \<or> py_contains ''wait'' error_msg)"

text \<open>The pause of a flood error; \<^const>\<open>None\<close> is the \<open>ValueError\<close> of \<open>float\<close>, outside the inner \<open>try\<close>.\<close>

definition flood_pause :: "task_failure \<Rightarrow> rat option" where
  "flood_pause e =
     (case tf_seconds e of
        Some (SecNumber s) \<Rightarrow> Some s
      | Some (SecText v) \<Rightarrow> v
      | Some SecOther \<Rightarrow> Some 30
      | None \<Rightarrow> Some (case Option.bind (word_after (py_lower (tf_text e))) py_int of Some n \<Rightarrow> of_int n | None \<Rightarrow> 30))"

section \<open>State\<close>

datatype 'r message_future = Waiting | Delivered 'r | Broken task_failure | Abandoned

datatype 'f worker_phase =
    Ready
  | Held 'f "nat list"
  | Paused 'f "nat list" rat
  | Acquiring 'f "nat list"
  | Running 'f "nat list"
  | Recovering
  | Stopped

record ('f, 'r) message_limiter =
  ml_list :: "string list"
  ml_map :: "(string, 'f \<times> nat list) dict"
  ml_window :: sliding_window
  ml_shutdown :: bool
  ml_paused_until :: rat
  ml_worker :: "'f worker_phase"
  ml_futures :: "(nat, 'r message_future) dict"

definition new_message_limiter :: "int \<Rightarrow> rat \<Rightarrow> py_error + ('f, 'r) message_limiter" where
  "new_message_limiter rate_limit rate_window =
     rbind (new_sliding_window rate_limit rate_window) (\<lambda>w.
       Inr \<lparr>ml_list = [], ml_map = [], ml_window = w, ml_shutdown = False, ml_paused_until = 0, ml_worker = Ready, ml_futures = []\<rparr>)"

section \<open>Operations\<close>

definition enqueue_internal_multi ::
    "'f \<Rightarrow> nat list \<Rightarrow> string \<Rightarrow> bool \<Rightarrow> ('f, 'r) message_limiter \<Rightarrow> ('f, 'r) message_limiter" where
  "enqueue_internal_multi func futures dedup_key front s =
     (case map_of (ml_map s) dedup_key of
        Some (old_func, old_futures) \<Rightarrow> s\<lparr>ml_map := dset dedup_key (func, old_futures @ futures) (ml_map s)\<rparr>
      | None \<Rightarrow>
          s\<lparr>ml_map := dset dedup_key (func, futures) (ml_map s),
            ml_list := (if front then dedup_key # ml_list s else ml_list s @ [dedup_key])\<rparr>)"

definition enqueue_message :: "'f \<Rightarrow> nat \<Rightarrow> string \<Rightarrow> ('f, 'r) message_limiter \<Rightarrow> ('f, 'r) message_limiter" where
  "enqueue_message func fut dedup_key s =
     enqueue_internal_multi func [fut] dedup_key False (s\<lparr>ml_futures := dset fut Waiting (ml_futures s)\<rparr>)"

text \<open>\<open>popleft\<close> and \<open>pop\<close>; a key without an entry is a \<open>KeyError\<close>, which the worker survives.\<close>

definition worker_pop :: "('f, 'r) message_limiter \<Rightarrow> ('f, 'r) message_limiter" where
  "worker_pop s =
     (case ml_list s of
        [] \<Rightarrow> s
      | k # ks \<Rightarrow>
          (case map_of (ml_map s) k of
             Some (func, futures) \<Rightarrow> s\<lparr>ml_list := ks, ml_map := ddel k (ml_map s), ml_worker := Held func futures\<rparr>
           | None \<Rightarrow> s\<lparr>ml_list := ks, ml_worker := Recovering\<rparr>))"

definition settle_future :: "'r message_future \<Rightarrow> nat \<Rightarrow> (nat, 'r message_future) dict \<Rightarrow> (nat, 'r message_future) dict" where
  "settle_future v fut futs = (if map_of futs fut = Some Waiting then dset fut v futs else futs)"

definition settle_futures ::
    "'r message_future \<Rightarrow> nat list \<Rightarrow> (nat, 'r message_future) dict \<Rightarrow> (nat, 'r message_future) dict" where
  "settle_futures v futures futs = fold (settle_future v) futures futs"

text \<open>The function has returned or raised at this time.\<close>

definition worker_finish ::
    "task_failure + 'r \<Rightarrow> rat \<Rightarrow> nat list \<Rightarrow> ('f, 'r) message_limiter \<Rightarrow> ('f, 'r) message_limiter" where
  "worker_finish outcome now futures s =
     (case outcome of
        Inr r \<Rightarrow> s\<lparr>ml_futures := settle_futures (Delivered r) futures (ml_futures s), ml_worker := Ready\<rparr>
      | Inl e \<Rightarrow>
          (let s = s\<lparr>ml_futures := settle_futures (Broken e) futures (ml_futures s)\<rparr>
           in if is_flood (py_lower (tf_text e))
              then (case flood_pause e of
                      Some wait_secs \<Rightarrow> s\<lparr>ml_paused_until := now + wait_secs, ml_worker := Ready\<rparr>
                    | None \<Rightarrow> s\<lparr>ml_worker := Recovering\<rparr>)
              else s\<lparr>ml_worker := Ready\<rparr>))"

datatype ('f, 'r) limiter_event =
    Enqueue 'f nat string
  | GiveUp nat
  | Pop
  | LookPause rat
  | Awake rat
  | Pass rat
  | Finish "task_failure + 'r" rat
  | Recover
  | Shutdown

text \<open>One atomic step, where the event can happen; a new future is one that was not used before.\<close>

definition limiter_step :: "('f, 'r) limiter_event \<Rightarrow> ('f, 'r) message_limiter \<Rightarrow> ('f, 'r) message_limiter option" where
  "limiter_step ev s =
     (case ev of
        Enqueue func fut k \<Rightarrow> (if fut \<in> set (dkeys (ml_futures s)) then None else Some (enqueue_message func fut k s))
      | GiveUp fut \<Rightarrow> Some (s\<lparr>ml_futures := settle_future Abandoned fut (ml_futures s)\<rparr>)
      | Pop \<Rightarrow>
          (if ml_worker s \<noteq> Ready then None
           else if ml_shutdown s then Some (s\<lparr>ml_worker := Stopped\<rparr>)
           else if ml_list s = [] then None else Some (worker_pop s))
      | LookPause now \<Rightarrow>
          (case ml_worker s of
             Held func futures \<Rightarrow>
               Some (s\<lparr>ml_worker := (if now < ml_paused_until s then Paused func futures (ml_paused_until s) else Acquiring func futures)\<rparr>)
           | _ \<Rightarrow> None)
      | Awake now \<Rightarrow>
          (case ml_worker s of
             Paused func futures t \<Rightarrow> (if t \<le> now then Some (s\<lparr>ml_worker := Acquiring func futures\<rparr>) else None)
           | _ \<Rightarrow> None)
      | Pass now \<Rightarrow>
          (case ml_worker s of
             Acquiring func futures \<Rightarrow>
               (case acquire_pass now (ml_window s) of
                  (waiting, w) \<Rightarrow>
                    Some (s\<lparr>ml_window := w, ml_worker := (if waiting = None then Running func futures else Acquiring func futures)\<rparr>))
           | _ \<Rightarrow> None)
      | Finish outcome now \<Rightarrow>
          (case ml_worker s of Running func futures \<Rightarrow> Some (worker_finish outcome now futures s) | _ \<Rightarrow> None)
      | Recover \<Rightarrow> (if ml_worker s = Recovering then Some (s\<lparr>ml_worker := Ready\<rparr>) else None)
      | Shutdown \<Rightarrow> Some (s\<lparr>ml_shutdown := True, ml_worker := Stopped\<rparr>))"

fun limiter_steps :: "('f, 'r) limiter_event list \<Rightarrow> ('f, 'r) message_limiter \<Rightarrow> ('f, 'r) message_limiter option" where
  "limiter_steps [] s = Some s"
| "limiter_steps (ev # evs) s = Option.bind (limiter_step ev s) (limiter_steps evs)"

section \<open>Fire and forget\<close>

definition transient_error :: "string \<Rightarrow> bool" where
  "transient_error error_msg = list_ex (\<lambda>x. py_contains x error_msg) [''connect'', ''timeout'', ''broken'']"

text \<open>
  What the attempts to enqueue come to, \<open>attempts n\<close> being the outcome of attempt \<open>n\<close>: the waits
  between them and the last outcome.  At most two are repeated.
\<close>

fun fire_attempts :: "(nat \<Rightarrow> task_failure + 'r) \<Rightarrow> nat \<Rightarrow> nat \<Rightarrow> nat list \<times> (task_failure + 'r)" where
  "fire_attempts attempts left n =
     (case (attempts n, left) of
        (Inl e, Suc l) \<Rightarrow>
          (if transient_error (py_lower (tf_text e))
           then (case fire_attempts attempts l (Suc n) of (waits, r) \<Rightarrow> (2 ^ n # waits, r)) else ([], Inl e))
      | (r, _) \<Rightarrow> ([], r))"

declare fire_attempts.simps [simp del]

definition fire_and_forget :: "(nat \<Rightarrow> task_failure + 'r) \<Rightarrow> nat list \<times> (task_failure + 'r)" where
  "fire_and_forget attempts = fire_attempts attempts 2 0"

end
