(* ===== verification/Message_Pace.thy ===== *)
theory Message_Pace
  imports Message_Limiter
begin

text \<open>
  What the queue of outgoing messages promises (\<open>messaging/limiter.py\<close>): it compacts requests like an
  ordered list of entries (\<open>limiter_compacts\<close>), owes every waiting caller exactly one entry
  (\<open>no_caller_forgotten\<close>) and keeps the pace (\<open>messages_paced\<close>).
\<close>

section \<open>The list of entries\<close>

type_synonym 'f entry = "string \<times> 'f \<times> nat list"

text \<open>
  A request joins the entry of its key, whose function it replaces, or opens one at the end; the worker
  takes the first entry and works on it until it has finished.
\<close>

definition join_entry :: "'f \<Rightarrow> nat \<Rightarrow> string \<Rightarrow> 'f entry list \<Rightarrow> 'f entry list" where
  "join_entry func fut k q =
     (if k \<in> fst ` set q then map (\<lambda>(k', g, futures). if k' = k then (k', func, futures @ [fut]) else (k', g, futures)) q
      else q @ [(k, func, [fut])])"

fun spec_event :: "('f, 'r) limiter_event \<Rightarrow> 'f entry list \<times> ('f \<times> nat list) option \<Rightarrow> 'f entry list \<times> ('f \<times> nat list) option" where
  "spec_event (Enqueue func fut k) (q, w) = (join_entry func fut k q, w)"
| "spec_event Pop (q, w) = (tl q, Some (snd (hd q)))"
| "spec_event (Finish outcome now) (q, w) = (q, None)"
| "spec_event ev (q, w) = (q, w)"

definition queue_of :: "('f, 'r) message_limiter \<Rightarrow> 'f entry list" where
  "queue_of s = map (\<lambda>k. (k, the (map_of (ml_map s) k))) (ml_list s)"

definition held_entry :: "'f worker_phase \<Rightarrow> ('f \<times> nat list) option" where
  "held_entry w =
     (case w of
        Held f futures \<Rightarrow> Some (f, futures)
      | Paused f futures _ \<Rightarrow> Some (f, futures)
      | Acquiring f futures \<Rightarrow> Some (f, futures)
      | Running f futures \<Rightarrow> Some (f, futures)
      | _ \<Rightarrow> None)"

definition queue_wf :: "('f, 'r) message_limiter \<Rightarrow> bool" where
  "queue_wf s \<longleftrightarrow> distinct (ml_list s) \<and> distinct (dkeys (ml_map s)) \<and> set (ml_list s) = set (dkeys (ml_map s)) \<and>
     ml_worker s \<noteq> Stopped \<and> \<not> ml_shutdown s"

lemma queue_wf_lookup: "queue_wf s \<Longrightarrow> k \<in> set (ml_list s) \<Longrightarrow> \<exists>f futures. map_of (ml_map s) k = Some (f, futures)"
  unfolding queue_wf_def using map_of_notin_iff [of "ml_map s" k] by (metis not_None_eq surj_pair)

lemma enqueue_queue_wf: "queue_wf s \<Longrightarrow> queue_wf (enqueue_message func fut k s)"
  using map_of_notin_iff [of "ml_map s" k]
  by (auto simp: enqueue_message_def enqueue_internal_multi_def queue_wf_def dict_simps image_iff dest: map_of_in_dkeys split: option.split)

lemma enqueue_joins:
  assumes "queue_wf s"
  shows "queue_of (enqueue_message func fut k s) = join_entry func fut k (queue_of s)"
proof (cases "map_of (ml_map s) k")
  case None
  then have n: "k \<notin> set (ml_list s)" using assms map_of_notin_iff [of "ml_map s" k] by (simp add: queue_wf_def)
  then have "k \<notin> fst ` set (queue_of s)" by (auto simp: queue_of_def)
  with None n show ?thesis
    by (auto simp: enqueue_message_def enqueue_internal_multi_def queue_of_def join_entry_def dict_simps)
next
  case (Some v)
  then have "k \<in> set (ml_list s)" using assms map_of_in_dkeys [OF Some] by (simp add: queue_wf_def)
  then have m: "k \<in> fst ` set (queue_of s)" by (force simp: queue_of_def)
  obtain g futures where v: "v = (g, futures)" by (cases v)
  have "\<forall>x \<in> set (ml_list s). \<exists>f fs. map_of (ml_map s) x = Some (f, fs)" using queue_wf_lookup [OF assms] by blast
  with Some v m show ?thesis
    by (auto simp: enqueue_message_def enqueue_internal_multi_def queue_of_def join_entry_def dict_simps)
qed

lemma pop_takes:
  assumes "queue_wf s" "ml_list s \<noteq> []"
  shows "queue_wf (worker_pop s)" "queue_of (worker_pop s) = tl (queue_of s)"
    "held_entry (ml_worker (worker_pop s)) = Some (snd (hd (queue_of s)))"
proof -
  obtain k ks where l: "ml_list s = k # ks" using assms(2) by (cases "ml_list s") auto
  obtain f futures where m: "map_of (ml_map s) k = Some (f, futures)" using queue_wf_lookup [OF assms(1), of k] l by auto
  have d: "distinct (k # ks)" "set (k # ks) = set (dkeys (ml_map s))" "distinct (dkeys (ml_map s))"
    using assms(1) l by (simp_all add: queue_wf_def)
  show "queue_wf (worker_pop s)"
    using assms(1) d l m by (auto simp: worker_pop_def queue_wf_def dict_simps)
  show "queue_of (worker_pop s) = tl (queue_of s)"
    using d(1) l m by (auto simp: worker_pop_def queue_of_def dict_simps)
  show "held_entry (ml_worker (worker_pop s)) = Some (snd (hd (queue_of s)))"
    using l m by (simp add: worker_pop_def queue_of_def held_entry_def)
qed

lemma queue_frame [simp]:
  "queue_of (s\<lparr>ml_futures := x\<rparr>) = queue_of s" "queue_of (s\<lparr>ml_worker := w\<rparr>) = queue_of s"
  "queue_of (s\<lparr>ml_paused_until := t\<rparr>) = queue_of s" "queue_of (s\<lparr>ml_window := l\<rparr>) = queue_of s"
  "queue_wf (s\<lparr>ml_futures := x\<rparr>) = queue_wf s" "queue_wf (s\<lparr>ml_paused_until := t\<rparr>) = queue_wf s"
  "queue_wf (s\<lparr>ml_window := l\<rparr>) = queue_wf s"
  by (simp_all add: queue_of_def queue_wf_def)

lemma queue_worker: "queue_wf s \<Longrightarrow> w \<noteq> Stopped \<Longrightarrow> queue_wf (s\<lparr>ml_worker := w\<rparr>)"
  by (simp add: queue_wf_def)

lemma held_entry_simps [simp]:
  "held_entry Ready = None" "held_entry Recovering = None" "held_entry (Held f fs) = Some (f, fs)" "held_entry (Paused f fs t) = Some (f, fs)"
  "held_entry (Acquiring f fs) = Some (f, fs)" "held_entry (Running f fs) = Some (f, fs)"
  by (simp_all add: held_entry_def)

lemma step_refines:
  assumes "limiter_step ev s = Some s'" "queue_wf s" "ev \<noteq> Shutdown"
  shows "queue_wf s' \<and> (queue_of s', held_entry (ml_worker s')) = spec_event ev (queue_of s, held_entry (ml_worker s))"
proof (cases ev)
  case (Enqueue func fut k)
  then have "s' = enqueue_message func fut k s" using assms(1) by (simp add: limiter_step_def split: if_splits)
  moreover have "ml_worker (enqueue_message func fut k s) = ml_worker s"
    by (simp add: enqueue_message_def enqueue_internal_multi_def split: option.split prod.split)
  ultimately show ?thesis using Enqueue enqueue_queue_wf [OF assms(2)] enqueue_joins [OF assms(2)] by simp
next
  case Pop
  with assms have "ml_list s \<noteq> []" "s' = worker_pop s" by (auto simp: limiter_step_def queue_wf_def split: if_splits)
  with pop_takes [OF assms(2)] Pop show ?thesis by simp
next
  case (Finish outcome now)
  with assms(1) obtain f futures where "s' = worker_finish outcome now futures s"
    by (auto simp: limiter_step_def split: worker_phase.splits)
  then show ?thesis
    using Finish assms(2) by (auto simp: worker_finish_def Let_def intro!: queue_worker split: sum.split option.split)
next
  case Shutdown
  with assms(3) show ?thesis by simp
qed (use assms in \<open>auto simp: limiter_step_def intro!: queue_worker split: worker_phase.splits prod.splits if_splits\<close>)

lemma steps_refine:
  "limiter_steps evs s = Some s' \<Longrightarrow> queue_wf s \<Longrightarrow> Shutdown \<notin> set evs \<Longrightarrow>
   queue_wf s' \<and> (queue_of s', held_entry (ml_worker s')) = fold spec_event evs (queue_of s, held_entry (ml_worker s))"
proof (induction evs arbitrary: s)
  case (Cons ev evs)
  then obtain t where t: "limiter_step ev s = Some t" "limiter_steps evs t = Some s'" by (auto split: Option.bind_splits)
  have "ev \<noteq> Shutdown" "Shutdown \<notin> set evs" using Cons.prems(3) by auto
  with step_refines [OF t(1) Cons.prems(2)] Cons.IH [OF t(2)] show ?case by simp
qed simp

lemma new_limiter_queue: "new_message_limiter limit window = Inr s \<Longrightarrow> queue_wf s \<and> queue_of s = [] \<and> held_entry (ml_worker s) = None"
  by (auto simp: new_message_limiter_def queue_wf_def queue_of_def held_entry_def)

section \<open>Callers\<close>

definition owed :: "('f, 'r) message_limiter \<Rightarrow> nat list" where
  "owed s = concat (map (\<lambda>(k, f, futures). futures) (queue_of s)) @ (case held_entry (ml_worker s) of Some (f, futures) \<Rightarrow> futures | None \<Rightarrow> [])"

definition waiting :: "('f, 'r) message_limiter \<Rightarrow> nat set" where
  "waiting s = {fut. map_of (ml_futures s) fut = Some Waiting}"

definition callers_ok :: "('f, 'r) message_limiter \<Rightarrow> bool" where
  "callers_ok s \<longleftrightarrow> distinct (owed s) \<and> waiting s \<subseteq> set (owed s) \<and> set (owed s) \<subseteq> set (dkeys (ml_futures s))"

lemma join_entry_futures:
  assumes "distinct (map fst q)"
  shows "\<exists>xs ys. concat (map (\<lambda>(k, f, futures). futures) q) = xs @ ys \<and>
    concat (map (\<lambda>(k, f, futures). futures) (join_entry func fut k q)) = xs @ [fut] @ ys"
proof (cases "k \<in> fst ` set q")
  case False
  then show ?thesis by (auto simp: join_entry_def)
next
  case True
  then obtain g futures where "(k, g, futures) \<in> set q" by force
  then obtain q1 q2 where q: "q = q1 @ (k, g, futures) # q2" by (meson split_list)
  with assms have n: "k \<notin> fst ` set q1" "k \<notin> fst ` set q2" by auto
  have same: "map (\<lambda>(k', g, futures). if k' = k then (k', func, futures @ [fut]) else (k', g, futures)) p = p" if "k \<notin> fst ` set p" for p
    using that by (induction p) auto
  have "concat (map (\<lambda>(k, f, futures). futures) (join_entry func fut k q)) =
      (concat (map (\<lambda>(k, f, futures). futures) q1) @ futures) @ [fut] @ concat (map (\<lambda>(k, f, futures). futures) q2)"
    using True by (simp add: join_entry_def q same [OF n(1)] same [OF n(2)])
  moreover have "concat (map (\<lambda>(k, f, futures). futures) q) = (concat (map (\<lambda>(k, f, futures). futures) q1) @ futures) @ concat (map (\<lambda>(k, f, futures). futures) q2)"
    by (simp add: q)
  ultimately show ?thesis by blast
qed

lemma settle_waiting:
  "v \<noteq> Waiting \<Longrightarrow> map_of (settle_futures v futures futs) fut = Some Waiting \<longleftrightarrow> map_of futs fut = Some Waiting \<and> fut \<notin> set futures"
  unfolding settle_futures_def
  by (induction futures arbitrary: futs) (auto simp: settle_future_def dict_simps split: if_splits)

lemma settle_keys: "set (dkeys (settle_futures v futures futs)) = set (dkeys futs)"
  unfolding settle_futures_def
proof (induction futures arbitrary: futs)
  case (Cons fut futures)
  have "set (dkeys (settle_future v fut futs)) = set (dkeys futs)"
    by (auto simp: settle_future_def dict_simps dest: map_of_fst)
  with Cons show ?case by simp
qed simp

lemma queue_keys: "map fst (queue_of s) = ml_list s"
  by (simp add: queue_of_def comp_def)

lemma enqueue_callers:
  assumes "queue_wf s" "callers_ok s" "fut \<notin> set (dkeys (ml_futures s))"
  shows "callers_ok (enqueue_message func fut k s)"
proof -
  let ?t = "enqueue_message func fut k s"
  have f: "ml_worker ?t = ml_worker s" "ml_futures ?t = dset fut Waiting (ml_futures s)"
    by (simp_all add: enqueue_message_def enqueue_internal_multi_def split: option.split)
  obtain xs ys where j: "concat (map (\<lambda>(k, f, futures). futures) (queue_of s)) = xs @ ys"
    "concat (map (\<lambda>(k, f, futures). futures) (queue_of ?t)) = xs @ [fut] @ ys"
    using join_entry_futures [of "queue_of s" func fut k] assms(1) enqueue_joins [OF assms(1), of func fut k]
    by (auto simp: queue_keys queue_wf_def)
  define hs where "hs = (case held_entry (ml_worker s) of Some (f, futures) \<Rightarrow> futures | None \<Rightarrow> [])"
  have o: "owed s = xs @ ys @ hs" "owed ?t = xs @ [fut] @ ys @ hs" using j f(1) by (simp_all add: owed_def hs_def)
  have w: "waiting ?t = insert fut (waiting s)" by (auto simp: waiting_def f(2) dict_simps split: if_splits)
  have "fut \<notin> set (owed s)" using assms(2,3) by (auto simp: callers_ok_def)
  with assms(2) show ?thesis
    unfolding callers_ok_def w by (auto simp: o f(2) dict_simps)
qed

lemma pop_callers:
  assumes "queue_wf s" "callers_ok s" "ml_list s \<noteq> []" "ml_worker s = Ready"
  shows "callers_ok (worker_pop s)"
proof -
  note p = pop_takes [OF assms(1,3)]
  obtain k f futures rest where q: "queue_of s = (k, f, futures) # rest"
    using assms(3) queue_keys [of s] by (cases "queue_of s") auto
  obtain others where o: "owed s = futures @ others" "owed (worker_pop s) = others @ futures"
    using p(2,3) q assms(4) by (simp add: owed_def)
  have "ml_futures (worker_pop s) = ml_futures s" by (simp add: worker_pop_def split: list.split option.split)
  with assms(2) show ?thesis unfolding callers_ok_def waiting_def by (auto simp: o)
qed

text \<open>Only the worker and the futures change: what it held is settled or still held.\<close>

lemma callers_frame:
  assumes "callers_ok s" "queue_of t = queue_of s" "held_entry (ml_worker t) = held_entry (ml_worker s)"
    and "waiting t \<subseteq> waiting s" "set (dkeys (ml_futures t)) = set (dkeys (ml_futures s))"
  shows "callers_ok t"
proof -
  have "owed t = owed s" using assms(2,3) by (simp add: owed_def)
  with assms show ?thesis by (auto simp: callers_ok_def)
qed

lemma finish_callers:
  assumes "callers_ok s" "ml_worker s = Running f futures"
  shows "callers_ok (worker_finish outcome now futures s)"
proof -
  define v where "v = (case outcome of Inr r \<Rightarrow> Delivered r | Inl e \<Rightarrow> Broken e)"
  let ?t = "worker_finish outcome now futures s"
  have v: "v \<noteq> Waiting" by (simp add: v_def split: sum.split)
  have t: "ml_futures ?t = settle_futures v futures (ml_futures s)" "queue_of ?t = queue_of s" "held_entry (ml_worker ?t) = None"
    by (auto simp: worker_finish_def v_def Let_def split: sum.split option.split)
  have o: "owed s = owed ?t @ futures" using t(2,3) assms(2) by (simp add: owed_def)
  have "waiting ?t = waiting s - set futures" using settle_waiting [OF v] by (auto simp: waiting_def t(1))
  with assms(1) show ?thesis by (auto simp: callers_ok_def o t(1) settle_keys simp del: set_map)
qed

lemma step_callers:
  assumes "limiter_step ev s = Some s'" "queue_wf s" "callers_ok s" "ev \<noteq> Shutdown"
  shows "callers_ok s'"
proof (cases ev)
  case (Enqueue func fut k)
  then show ?thesis using assms enqueue_callers [OF assms(2,3)] by (auto simp: limiter_step_def split: if_splits)
next
  case Pop
  then show ?thesis using assms pop_callers [OF assms(2,3)] by (auto simp: limiter_step_def queue_wf_def split: if_splits)
next
  case (Finish outcome now)
  then show ?thesis using assms finish_callers [OF assms(3)] by (auto simp: limiter_step_def split: worker_phase.splits)
next
  case (GiveUp fut)
  have "settle_future Abandoned fut (ml_futures s) = settle_futures Abandoned [fut] (ml_futures s)" by (simp add: settle_futures_def)
  with GiveUp assms(1) have "s' = s\<lparr>ml_futures := settle_futures Abandoned [fut] (ml_futures s)\<rparr>" by (simp add: limiter_step_def)
  then show ?thesis
    by (intro callers_frame [OF assms(3)]) (auto simp: waiting_def settle_waiting settle_keys simp del: set_map)
qed (use assms(1,4) in \<open>auto simp: limiter_step_def waiting_def intro!: callers_frame [OF assms(3)] split: worker_phase.splits prod.splits if_splits\<close>)

lemma steps_callers:
  "limiter_steps evs s = Some s' \<Longrightarrow> queue_wf s \<Longrightarrow> callers_ok s \<Longrightarrow> Shutdown \<notin> set evs \<Longrightarrow> callers_ok s'"
proof (induction evs arbitrary: s)
  case (Cons ev evs)
  then obtain t where t: "limiter_step ev s = Some t" "limiter_steps evs t = Some s'" by (auto split: Option.bind_splits)
  have e: "ev \<noteq> Shutdown" "Shutdown \<notin> set evs" using Cons.prems(4) by auto
  show ?case
    by (rule Cons.IH [OF t(2) _ step_callers [OF t(1) Cons.prems(2,3) e(1)] e(2)])
       (use step_refines [OF t(1) Cons.prems(2) e(1)] in blast)
qed simp

section \<open>Pace\<close>

text \<open>When functions were started in a run, and the clock readings of its events.\<close>

fun run_times :: "('f, 'r) limiter_event list \<Rightarrow> ('f, 'r) message_limiter \<Rightarrow> rat list" where
  "run_times [] s = []"
| "run_times (ev # evs) s =
     (case limiter_step ev s of
        None \<Rightarrow> []
      | Some t \<Rightarrow> (case ev of Pass now \<Rightarrow> (if fst (acquire_pass now (ml_window s)) = None then [now] else []) | _ \<Rightarrow> []) @ run_times evs t)"

fun event_times :: "('f, 'r) limiter_event list \<Rightarrow> rat list" where
  "event_times [] = []"
| "event_times (ev # evs) =
     (case ev of LookPause t \<Rightarrow> [t] | Awake t \<Rightarrow> [t] | Pass t \<Rightarrow> [t] | Finish _ t \<Rightarrow> [t] | _ \<Rightarrow> []) @ event_times evs"

fun pass_times :: "('f, 'r) limiter_event list \<Rightarrow> rat list" where
  "pass_times [] = []"
| "pass_times (ev # evs) = (case ev of Pass t \<Rightarrow> [t] | _ \<Rightarrow> []) @ pass_times evs"

lemma sorted_subseq: "subseq xs ys \<Longrightarrow> sorted ys \<Longrightarrow> sorted (xs :: rat list)"
proof (induction rule: list_emb.induct)
  case (list_emb_Cons2 x y xs ys)
  have "set xs \<subseteq> set ys" using list_emb_set [OF list_emb_Cons2(2)] by blast
  with list_emb_Cons2 show ?case by auto
qed simp_all

lemma pass_times_subseq: "subseq (pass_times evs) (event_times evs)"
  by (induction evs) (auto split: limiter_event.split)

lemma step_window:
  "limiter_step ev s = Some t \<Longrightarrow> ml_window t = (case ev of Pass now \<Rightarrow> snd (acquire_pass now (ml_window s)) | _ \<Rightarrow> ml_window s)"
  by (auto simp: limiter_step_def enqueue_message_def enqueue_internal_multi_def worker_pop_def worker_finish_def Let_def
      split: limiter_event.splits worker_phase.splits option.splits prod.splits sum.splits list.splits if_splits)

lemma run_times_passes:
  "limiter_steps evs s = Some s' \<Longrightarrow> run_times evs s = fst (sw_passes (pass_times evs) (ml_window s))"
proof (induction evs arbitrary: s)
  case (Cons ev evs)
  then obtain t where t: "limiter_step ev s = Some t" "limiter_steps evs t = Some s'" by (auto split: Option.bind_splits)
  from Cons.IH [OF t(2)] t(1) step_window [OF t(1)] show ?case
    by (auto split: limiter_event.splits prod.splits)
qed simp

text \<open>After a flood the pause ends before the next function starts.\<close>

definition past_pause :: "rat \<Rightarrow> rat \<Rightarrow> 'f worker_phase \<Rightarrow> bool" where
  "past_pause pause now w = (case w of Acquiring _ _ \<Rightarrow> pause \<le> now | Paused _ _ t \<Rightarrow> pause \<le> t | _ \<Rightarrow> True)"

lemma enqueue_phase [simp]:
  "ml_worker (enqueue_message func fut k s) = ml_worker s" "ml_paused_until (enqueue_message func fut k s) = ml_paused_until s"
  by (simp_all add: enqueue_message_def enqueue_internal_multi_def split: option.split)

lemma pop_phase [simp]:
  "ml_paused_until (worker_pop s) = ml_paused_until s" "ml_list s \<noteq> [] \<Longrightarrow> ml_worker (worker_pop s) \<noteq> Paused f fs t"
  "ml_list s \<noteq> [] \<Longrightarrow> ml_worker (worker_pop s) \<noteq> Acquiring f fs"
  by (auto simp: worker_pop_def split: list.split option.split)

lemma step_pause:
  assumes "limiter_step ev s = Some t" "\<forall>f fs. ml_worker s \<noteq> Running f fs" "past_pause (ml_paused_until s) now (ml_worker s)"
    and "sorted (now # event_times [ev])"
  shows "ml_paused_until t = ml_paused_until s \<and> past_pause (ml_paused_until s) (last (now # event_times [ev])) (ml_worker t)"
  using assms
  by (cases ev) (auto simp: limiter_step_def past_pause_def split: worker_phase.splits prod.splits if_splits)

lemma step_running:
  assumes "limiter_step ev s = Some t" "\<forall>f fs. ml_worker s \<noteq> Running f fs" "\<nexists>now. ev = Pass now \<and> fst (acquire_pass now (ml_window s)) = None"
  shows "\<forall>f fs. ml_worker t \<noteq> Running f fs"
proof (cases "ml_worker s")
  case (Acquiring f fs)
  with assms(1,3) show ?thesis by (cases ev) (auto simp: limiter_step_def split: prod.splits if_splits)
qed (use assms(1,2) in \<open>cases ev; auto simp: limiter_step_def worker_pop_def split: if_splits list.splits option.splits\<close>)+

lemma run_times_subseq: "subseq (run_times evs s) (event_times evs)"
  by (induction evs arbitrary: s) (auto split: limiter_event.split option.split)

lemma run_times_after: "sorted (now # event_times evs) \<Longrightarrow> P \<le> now \<Longrightarrow> list_all (\<lambda>t. P \<le> t) (run_times evs s)"
proof -
  assume "sorted (now # event_times evs)" "P \<le> now"
  then have "P \<le> t" if "t \<in> set (event_times evs)" for t using that by auto
  moreover have "set (run_times evs s) \<subseteq> set (event_times evs)" using list_emb_set [OF run_times_subseq [of evs s]] by blast
  ultimately show ?thesis by (auto simp: list_all_iff)
qed

lemma pause_respected:
  "limiter_steps evs s = Some s' \<Longrightarrow> \<forall>f fs. ml_worker s \<noteq> Running f fs \<Longrightarrow> past_pause (ml_paused_until s) now (ml_worker s) \<Longrightarrow>
   sorted (now # event_times evs) \<Longrightarrow> list_all (\<lambda>t. ml_paused_until s \<le> t) (run_times evs s)"
proof (induction evs arbitrary: s now)
  case (Cons ev evs)
  then obtain t where t: "limiter_step ev s = Some t" "limiter_steps evs t = Some s'" by (auto split: Option.bind_splits)
  have e: "event_times (ev # evs) = event_times [ev] @ event_times evs" by simp
  have o: "sorted (now # event_times [ev])" "sorted (last (now # event_times [ev]) # event_times evs)"
    using Cons.prems(4) unfolding e by (auto split: limiter_event.splits)
  note p = step_pause [OF t(1) Cons.prems(2,3) o(1)]
  show ?case
  proof (cases "\<exists>r. ev = Pass r \<and> fst (acquire_pass r (ml_window s)) = None")
    case True
    then obtain r where r: "ev = Pass r" "fst (acquire_pass r (ml_window s)) = None" by blast
    then have "ml_paused_until s \<le> r"
      using t(1) Cons.prems(3) o(1) by (auto simp: limiter_step_def past_pause_def split: worker_phase.splits)
    with run_times_after [of r evs "ml_paused_until s" t] o(2) r t(1) show ?thesis by simp
  next
    case False
    from Cons.IH [OF t(2) _ _ o(2)] step_running [OF t(1) Cons.prems(2) False] p
    have "list_all (\<lambda>r. ml_paused_until s \<le> r) (run_times evs t)" by simp
    with False t(1) show ?thesis by (auto split: limiter_event.split)
  qed
qed simp

lemma steps_append: "limiter_steps (evs @ evs') s = Option.bind (limiter_steps evs s) (limiter_steps evs')"
  by (induction evs arbitrary: s) (auto split: Option.bind_splits)

lemma event_times_append: "event_times (evs @ evs') = event_times evs @ event_times evs'"
  by (induction evs) auto

lemma flood_pauses:
  assumes "limiter_step (Finish (Inl e) now) s = Some t" "is_flood (py_lower (tf_text e))" "flood_pause e = Some wait"
  shows "ml_paused_until t = now + wait" "ml_worker t = Ready"
  using assms by (auto simp: limiter_step_def worker_finish_def Let_def split: worker_phase.splits)

section \<open>Properties\<close>

text \<open>
  C36: whatever callers request and give up and however the worker proceeds, the queue and the entry in
  work are those of an ordered list of entries: a request joins the waiting entry of its key, which then
  runs the newest function, or opens a new one at the end; the worker takes the entries in order.
\<close>

theorem limiter_compacts:
  assumes "new_message_limiter rate_limit rate_window = Inr s0" "limiter_steps evs s0 = Some s" "Shutdown \<notin> set evs"
  shows "(queue_of s, held_entry (ml_worker s)) = fold spec_event evs ([], None)"
  using steps_refine [OF assms(2) _ assms(3)] new_limiter_queue [OF assms(1)] by simp

text \<open>
  C37: until the shutdown no caller is forgotten and none is answered twice: every future that still waits
  belongs to exactly one entry, queued or in work, and no key is queued twice.
\<close>

theorem no_caller_forgotten:
  assumes "new_message_limiter rate_limit rate_window = Inr s0" "limiter_steps evs s0 = Some s" "Shutdown \<notin> set evs"
  shows "distinct (owed s) \<and> waiting s \<subseteq> set (owed s) \<and> distinct (ml_list s)"
proof -
  have q: "queue_wf s0" "callers_ok s0"
    using new_limiter_queue [OF assms(1)] assms(1) by (auto simp: callers_ok_def owed_def waiting_def new_message_limiter_def)
  from steps_callers [OF assms(2) q assms(3)] steps_refine [OF assms(2) q(1) assms(3)] show ?thesis
    by (simp add: callers_ok_def queue_wf_def)
qed

text \<open>
  C38: messages keep the pace: in any half-open interval as long as the window at most \<open>rate_limit\<close> of
  them are started, however many are queued, and after a flood error none is started before the pause
  it asked for is over.
\<close>

theorem messages_paced:
  assumes "new_message_limiter rate_limit rate_window = Inr s0" "limiter_steps (evs @ [Finish (Inl e) now]) s0 = Some s"
    and "is_flood (py_lower (tf_text e))" "flood_pause e = Some wait" "limiter_steps evs' s = Some s'"
    and "sorted (event_times (evs @ [Finish (Inl e) now] @ evs'))"
  shows "int (length (List.filter (\<lambda>t. a \<le> t \<and> t < a + rate_window) (run_times (evs @ [Finish (Inl e) now] @ evs') s0))) \<le> rate_limit \<and>
    list_all (\<lambda>t. now + wait \<le> t) (run_times evs' s)"
proof
  let ?run = "evs @ [Finish (Inl e) now] @ evs'"
  have w: "new_sliding_window rate_limit rate_window = Inr (ml_window s0)" using assms(1) by (auto simp: new_message_limiter_def)
  have run: "limiter_steps ?run s0 = Some s'" using assms(2,5) steps_append [of "evs @ [Finish (Inl e) now]" evs' s0] by simp
  have "sorted (pass_times ?run)" using pass_times_subseq assms(6) by (rule sorted_subseq)
  from window_bound [OF w this]
  show "int (length (List.filter (\<lambda>t. a \<le> t \<and> t < a + rate_window) (run_times ?run s0))) \<le> rate_limit"
    unfolding run_times_passes [OF run] .
  obtain s1 where "limiter_step (Finish (Inl e) now) s1 = Some s"
    using assms(2) unfolding steps_append by (auto split: Option.bind_splits)
  note p = flood_pauses [OF this assms(3,4)]
  have "sorted (now # event_times evs')" using assms(6) by (simp add: event_times_append sorted_append)
  from pause_respected [OF assms(5) _ _ this] p show "list_all (\<lambda>t. now + wait \<le> t) (run_times evs' s)"
    by (simp add: past_pause_def)
qed

text \<open>Two requests for one key and one for another; the first function meets a flood error.\<close>

definition limiter0 :: "(nat, unit) message_limiter" where
  "limiter0 = \<lparr>ml_list = [], ml_map = [], ml_window = \<lparr>sw_limit = 1, sw_window = 1, sw_times = []\<rparr>, ml_shutdown = False,
     ml_paused_until = 0, ml_worker = Ready, ml_futures = []\<rparr>"

definition flood_error :: task_failure where
  "flood_error = \<lparr>tf_text = ''Flood'', tf_seconds = Some (SecNumber 5)\<rparr>"

definition example_requests :: "(nat, unit) limiter_event list" where
  "example_requests = [Enqueue 10 0 ''a'', Enqueue 11 1 ''a'', Enqueue 12 2 ''b'', Pop]"

definition example_send :: "(nat, unit) limiter_event list" where
  "example_send = [LookPause 1, Pass 1] @ [Finish (Inl flood_error) 2]"

definition limiter1 :: "(nat, unit) message_limiter" where
  "limiter1 = limiter0\<lparr>ml_list := [''b''], ml_map := [(''b'', (12, [2]))], ml_worker := Held 11 [0, 1],
     ml_futures := [(0, Waiting), (1, Waiting), (2, Waiting)]\<rparr>"

definition limiter2 :: "(nat, unit) message_limiter" where
  "limiter2 = limiter1\<lparr>ml_window := \<lparr>sw_limit = 1, sw_window = 1, sw_times = [1]\<rparr>, ml_paused_until := 7, ml_worker := Ready,
     ml_futures := [(0, Broken flood_error), (1, Broken flood_error), (2, Waiting)]\<rparr>"

definition limiter3 :: "(nat, unit) message_limiter" where
  "limiter3 = limiter2\<lparr>ml_list := [], ml_map := [], ml_window := \<lparr>sw_limit = 1, sw_window = 1, sw_times = [8]\<rparr>, ml_worker := Running 12 [2]\<rparr>"

definition example_next :: "(nat, unit) limiter_event list" where
  "example_next = [Pop, LookPause 3, Awake 7, Pass 8]"

lemmas limiter_eval = limiter_step_def enqueue_message_def enqueue_internal_multi_def worker_pop_def worker_finish_def acquire_pass_def
  sw_purge_def settle_futures_def settle_future_def flood_pause_def Let_def

lemma example_new: "new_message_limiter 1 1 = Inr limiter0"
  by (simp add: new_message_limiter_def new_sliding_window_def limiter0_def)

lemma example_requested: "limiter_steps example_requests limiter0 = Some limiter1"
  by (simp add: example_requests_def limiter0_def limiter1_def limiter_eval)

lemma example_flood: "is_flood (py_lower (tf_text flood_error))"
  by code_simp

lemma example_sent: "limiter_steps example_send limiter1 = Some limiter2"
  using example_flood
  by (simp add: example_send_def limiter0_def limiter1_def limiter2_def limiter_eval) (simp add: flood_error_def settle_future_def)

lemma example_resumed: "limiter_steps example_next limiter2 = Some limiter3"
  by (simp add: example_next_def limiter0_def limiter1_def limiter2_def limiter3_def limiter_eval)

lemma limiter_compacts_witness:
  "queue_of limiter1 = [(''b'', 12, [2])] \<and> fold spec_event example_requests ([], None) = ([(''b'', 12, [2])], Some (11, [0, 1]))"
proof -
  have "Shutdown \<notin> set example_requests" by (simp add: example_requests_def)
  from limiter_compacts [OF example_new example_requested this] show ?thesis
    by (simp add: queue_of_def limiter1_def limiter0_def)
qed

lemma no_caller_forgotten_witness: "distinct (owed limiter1) \<and> waiting limiter1 \<subseteq> set (owed limiter1) \<and> owed limiter1 = [2, 0, 1]"
proof -
  have "Shutdown \<notin> set example_requests" by (simp add: example_requests_def)
  from no_caller_forgotten [OF example_new example_requested this] show ?thesis
    by (simp add: owed_def queue_of_def limiter1_def limiter0_def)
qed

lemma messages_paced_witness:
  "int (length (List.filter (\<lambda>t. 0 \<le> t \<and> t < 0 + 1) (run_times (example_requests @ example_send @ example_next) limiter0))) \<le> 1 \<and>
   list_all (\<lambda>t. 2 + 5 \<le> t) (run_times example_next limiter2) \<and> run_times example_next limiter2 = [8]"
proof -
  have "limiter_steps ((example_requests @ [LookPause 1, Pass 1]) @ [Finish (Inl flood_error) 2]) limiter0 = Some limiter2"
    using example_requested example_sent steps_append [of example_requests example_send limiter0] by (simp add: example_send_def)
  from messages_paced [OF example_new this example_flood _ example_resumed, of 5 0]
  show ?thesis
    by (simp add: example_requests_def example_send_def example_next_def flood_pause_def flood_error_def
        limiter2_def limiter1_def limiter0_def limiter_eval)
qed

end
