(* ===== verification/Transcript.thy ===== *)
theory Transcript
  imports Py_Net "HOL-Library.List_Lexorder" "HOL-Library.Char_ord"
begin

text \<open>
  The transcript a chat user reads (\<open>messaging/transcript.py\<close>): segments in order, the streaming blocks
  that are still open, the stack of subagents, and the rendering with its truncation.

  Segments are objects that several containers share, so they live in a store and containers hold their
  addresses.  The icons lie outside the modelled alphabet and are an argument, as are the platform's
  formatting functions; the one for Markdown may raise, which is \<^const>\<open>None\<close>.
\<close>

section \<open>Conversions\<close>

text \<open>
  \<open>int(x)\<close>: of a float its exact value towards zero, as long as it is finite.  A text is digits with
  single underscores between them, with a sign and blanks around.
\<close>

definition float_trunc :: "string \<Rightarrow> int option" where
  "float_trunc s =
     (let (neg, body) = (case s of c # r \<Rightarrow> (if c = CHR ''-'' then (True, r) else (False, s)) | [] \<Rightarrow> (False, []));
          mant = takeWhile (\<lambda>c. c \<noteq> CHR ''e'' \<and> c \<noteq> CHR ''E'') body;
          ex = dropWhile (\<lambda>c. \<not> is_digit c) (drop (length mant) body);
          down = CHR ''-'' \<in> set (drop (length mant) body);
          whole = takeWhile is_digit mant;
          frac = filter is_digit (drop (length whole) mant);
          digits = digits_val (whole @ frac);
          shift = (if down then - int (digits_val ex) else int (digits_val ex)) - int (length frac);
          v = (if 0 \<le> shift then digits * 10 ^ nat shift else digits div 10 ^ nat (- shift))
      in if whole = [] then None else Some (if neg then - int v else int v))"

definition json_int :: "json \<Rightarrow> py_error + int" where
  "json_int j =
     (case j of
        JInt i \<Rightarrow> Inr i
      | JBool b \<Rightarrow> Inr (if b then 1 else 0)
      | JFloat s \<Rightarrow> (case float_trunc s of Some i \<Rightarrow> Inr i | None \<Rightarrow> Inl ValueError)
      | JStr s \<Rightarrow> (case py_int (py_strip s) of Some i \<Rightarrow> Inr i | None \<Rightarrow> Inl ValueError)
      | _ \<Rightarrow> Inl TypeError)"

text \<open>\<open>str(x or default)\<close>.\<close>

definition str_or :: "json \<Rightarrow> string \<Rightarrow> string" where
  "str_or j d = (if truthy j then py_str j else d)"

definition or_else :: "string \<Rightarrow> string \<Rightarrow> string" where
  "or_else s d = (if s = [] then d else s)"

text \<open>\<open>json.dumps(obj, indent=2, ensure_ascii=False, sort_keys=True)\<close>, at a level of indentation.\<close>

definition pretty_join :: "nat \<Rightarrow> char \<Rightarrow> char \<Rightarrow> string list \<Rightarrow> string" where
  "pretty_join n l r items =
     (if items = [] then [l, r]
      else (let nl = LF # replicate (2 * n + 2) (CHR '' '')
            in l # nl @ py_join (CHR '','' # nl) items @ LF # replicate (2 * n) (CHR '' '') @ [r]))"

fun pretty :: "nat \<Rightarrow> json \<Rightarrow> string"
  and pretty_items :: "nat \<Rightarrow> json list \<Rightarrow> string list"
  and pretty_members :: "nat \<Rightarrow> (string \<times> json) list \<Rightarrow> (string \<times> string) list"
where
  "pretty n (JArr xs) = pretty_join n (CHR ''['') (CHR '']'') (pretty_items (Suc n) xs)"
| "pretty n (JObj d) =
     pretty_join n (CHR ''{'') (CHR ''}'')
       (map (\<lambda>(k, v). json_quote False k @ '': '' @ v) (sort_key fst (pretty_members (Suc n) d)))"
| "pretty n j = dumps_style utf8_style j"
| "pretty_items n [] = []"
| "pretty_items n (x # xs) = pretty n x # pretty_items n xs"
| "pretty_members n [] = []"
| "pretty_members n ((k, v) # d) = (k, pretty n v) # pretty_members n d"

definition safe_json_dumps :: "json \<Rightarrow> string" where
  "safe_json_dumps obj = pretty 0 obj"

section \<open>Segments\<close>

datatype chat_segment =
    ThinkingSegment "string list"
  | TextSegment "string list"
  | ToolCallSegment string string bool nat
  | ToolResultSegment string "string option" string bool
  | SubagentSegment string nat "string list" "nat option"
  | ErrorSegment string

text \<open>\<open>append\<close> of the streaming segments; nothing else is appended to.\<close>

fun append_text :: "string \<Rightarrow> chat_segment \<Rightarrow> chat_segment" where
  "append_text t (ThinkingSegment parts) = ThinkingSegment (if t = [] then parts else parts @ [t])"
| "append_text t (TextSegment parts) = TextSegment (if t = [] then parts else parts @ [t])"
| "append_text t seg = seg"

fun close_call :: "chat_segment \<Rightarrow> chat_segment" where
  "close_call (ToolCallSegment tool_id name closed indent) = ToolCallSegment tool_id name True indent"
| "close_call seg = seg"

definition new_tool_call :: "string \<Rightarrow> string \<Rightarrow> nat \<Rightarrow> chat_segment" where
  "new_tool_call tool_id name indent = ToolCallSegment tool_id (or_else name ''tool'') False indent"

definition new_tool_result :: "string \<Rightarrow> json \<Rightarrow> string option \<Rightarrow> bool \<Rightarrow> chat_segment" where
  "new_tool_result tool_id content name is_error =
     ToolResultSegment tool_id name (case content of JStr s \<Rightarrow> s | _ \<Rightarrow> safe_json_dumps content) is_error"

definition new_subagent :: "string \<Rightarrow> chat_segment" where
  "new_subagent description = SubagentSegment (or_else description ''Subagent'') 0 [] None"

section \<open>The buffer\<close>

record transcript =
  tb_store :: "chat_segment list"
  tb_segments :: "nat list"
  tb_thinking :: "(int, nat) dict"
  tb_text :: "(int, nat) dict"
  tb_tools :: "(int, nat) dict"
  tb_names :: "(string, string) dict"
  tb_show_results :: bool
  tb_stack :: "string list"
  tb_subagents :: "nat list"

definition new_transcript :: "bool \<Rightarrow> transcript" where
  "new_transcript show_tool_results =
     \<lparr>tb_store = [], tb_segments = [], tb_thinking = [], tb_text = [], tb_tools = [], tb_names = [],
      tb_show_results = show_tool_results, tb_stack = [], tb_subagents = []\<rparr>"

text \<open>A new object, and one that is shown at once.\<close>

definition alloc :: "chat_segment \<Rightarrow> transcript \<Rightarrow> nat \<times> transcript" where
  "alloc seg tb = (length (tb_store tb), tb\<lparr>tb_store := tb_store tb @ [seg]\<rparr>)"

definition show_new :: "chat_segment \<Rightarrow> transcript \<Rightarrow> nat \<times> transcript" where
  "show_new seg tb =
     (let (a, tb) = alloc seg tb in (a, tb\<lparr>tb_segments := tb_segments tb @ [a]\<rparr>))"

definition update_at :: "nat \<Rightarrow> (chat_segment \<Rightarrow> chat_segment) \<Rightarrow> transcript \<Rightarrow> transcript" where
  "update_at a f tb = tb\<lparr>tb_store := (tb_store tb)[a := f (tb_store tb ! a)]\<rparr>"

definition in_subagent :: "transcript \<Rightarrow> bool" where
  "in_subagent tb = (tb_stack tb \<noteq> [])"

definition task_heading_from_input :: "json \<Rightarrow> string" where
  "task_heading_from_input inp =
     (case inp of
        JObj d \<Rightarrow>
          (let desc = py_strip (str_or (jget_default d ''description'' (JStr [])) []);
               subagent_type = py_strip (str_or (jget_default d ''subagent_type'' (JStr [])) []);
               typ = py_strip (str_or (jget_default d ''type'' (JStr [])) [])
           in if desc \<noteq> [] then desc else if subagent_type \<noteq> [] then subagent_type
              else if typ \<noteq> [] then typ else ''Subagent'')
      | _ \<Rightarrow> ''Subagent'')"

section \<open>The stack of subagents\<close>

definition subagent_push :: "string \<Rightarrow> nat \<Rightarrow> transcript \<Rightarrow> transcript" where
  "subagent_push tool_id a tb =
     tb\<lparr>tb_stack := tb_stack tb @ [or_else (py_strip tool_id) (''__task_'' @ nat_digits (length (tb_stack tb) + 1))],
        tb_subagents := tb_subagents tb @ [a]\<rparr>"

definition ids_roughly_match :: "string \<Rightarrow> string \<Rightarrow> bool" where
  "ids_roughly_match stack_id result_id =
     (stack_id \<noteq> [] \<and> result_id \<noteq> [] \<and> (stack_id = result_id \<or> py_startswith stack_id result_id \<or> py_startswith result_id stack_id))"

text \<open>One \<open>pop\<close> of both stacks, and pops until \<open>idx\<close> ids are left.\<close>

definition pop_one :: "transcript \<Rightarrow> transcript" where
  "pop_one tb = tb\<lparr>tb_stack := butlast (tb_stack tb), tb_subagents := butlast (tb_subagents tb)\<rparr>"

definition pop_to :: "nat \<Rightarrow> transcript \<Rightarrow> transcript" where
  "pop_to idx tb = (pop_one ^^ (length (tb_stack tb) - idx)) tb"

definition matching_depth :: "string \<Rightarrow> string list \<Rightarrow> nat option" where
  "matching_depth tool_id stack = List.find (\<lambda>i. ids_roughly_match (stack ! i) tool_id) (rev [0..<length stack])"

definition subagent_pop :: "string \<Rightarrow> transcript \<Rightarrow> bool \<times> transcript" where
  "subagent_pop tool_id tb =
     (let tool_id = py_strip tool_id
      in if tb_stack tb = [] then (False, tb)
         else if tool_id \<noteq> [] then
           (if ids_roughly_match (last (tb_stack tb)) tool_id then (True, pop_one tb)
            else case matching_depth tool_id (tb_stack tb) of
              None \<Rightarrow> (False, tb)
            | Some idx \<Rightarrow> (True, pop_to idx tb))
         else if py_startswith (last (tb_stack tb)) ''__task_'' then (True, pop_one tb)
         else (False, tb))"

section \<open>Events\<close>

definition ev_index :: "jdict \<Rightarrow> py_error + int" where
  "ev_index ev = json_int (jget_default ev ''index'' (JInt (-1)))"

definition thinking_stop :: "int \<Rightarrow> transcript \<Rightarrow> transcript" where
  "thinking_stop idx tb = (if 0 \<le> idx then tb\<lparr>tb_thinking := ddel idx (tb_thinking tb)\<rparr> else tb)"

definition text_stop :: "int \<Rightarrow> transcript \<Rightarrow> transcript" where
  "text_stop idx tb = (if 0 \<le> idx then tb\<lparr>tb_text := ddel idx (tb_text tb)\<rparr> else tb)"

definition tool_use_stop :: "int \<Rightarrow> transcript \<Rightarrow> transcript" where
  "tool_use_stop idx tb =
     (case map_of (tb_tools tb) idx of
        None \<Rightarrow> tb
      | Some a \<Rightarrow> update_at a close_call (tb\<lparr>tb_tools := ddel idx (tb_tools tb)\<rparr>))"

definition block_stop :: "int \<Rightarrow> transcript \<Rightarrow> transcript" where
  "block_stop idx tb =
     (if idx \<in> set (dkeys (tb_tools tb)) then tool_use_stop idx tb
      else if idx \<in> set (dkeys (tb_thinking tb)) then thinking_stop idx tb
      else if idx \<in> set (dkeys (tb_text tb)) then text_stop idx tb
      else tb)"

definition open_thinking :: "int \<Rightarrow> transcript \<Rightarrow> transcript" where
  "open_thinking idx tb =
     (let tb = (if 0 \<le> idx then block_stop idx tb else tb); (a, tb) = show_new (ThinkingSegment []) tb
      in if 0 \<le> idx then tb\<lparr>tb_thinking := dset idx a (tb_thinking tb)\<rparr> else tb)"

definition open_text :: "int \<Rightarrow> transcript \<Rightarrow> transcript" where
  "open_text idx tb =
     (let tb = (if 0 \<le> idx then block_stop idx tb else tb); (a, tb) = show_new (TextSegment []) tb
      in if 0 \<le> idx then tb\<lparr>tb_text := dset idx a (tb_text tb)\<rparr> else tb)"

definition thinking_delta :: "int \<Rightarrow> string \<Rightarrow> transcript \<Rightarrow> transcript" where
  "thinking_delta idx t tb =
     (case map_of (tb_thinking tb) idx of
        Some a \<Rightarrow> update_at a (append_text t) tb
      | None \<Rightarrow>
          (let (a, tb) = show_new (ThinkingSegment []) tb;
               tb = (if 0 \<le> idx then tb\<lparr>tb_thinking := dset idx a (tb_thinking tb)\<rparr> else tb)
           in update_at a (append_text t) tb))"

definition text_delta :: "int \<Rightarrow> string \<Rightarrow> transcript \<Rightarrow> transcript" where
  "text_delta idx t tb =
     (case map_of (tb_text tb) idx of
        Some a \<Rightarrow> update_at a (append_text t) tb
      | None \<Rightarrow>
          (let (a, tb) = show_new (TextSegment []) tb;
               tb = (if 0 \<le> idx then tb\<lparr>tb_text := dset idx a (tb_text tb)\<rparr> else tb)
           in update_at a (append_text t) tb))"

text \<open>
  A call inside a subagent becomes its current tool; with the parallel stack empty it is shown like any
  other.  A \<open>Task\<close> opens a subagent and has no segment of its own.
\<close>

definition set_current_tool :: "string \<Rightarrow> nat \<Rightarrow> chat_segment \<Rightarrow> chat_segment" where
  "set_current_tool name a seg =
     (case seg of
        SubagentSegment description tool_calls tools_used current \<Rightarrow>
          SubagentSegment description (tool_calls + 1) (List.insert (or_else name ''tool'') tools_used) (Some a)
      | _ \<Rightarrow> seg)"

definition place_tool_call :: "string \<Rightarrow> string \<Rightarrow> transcript \<Rightarrow> nat \<times> transcript" where
  "place_tool_call tool_id name tb =
     (if in_subagent tb \<and> tb_subagents tb \<noteq> []
      then (let (a, tb) = alloc (new_tool_call tool_id name 1) tb
            in (a, update_at (last (tb_subagents tb)) (set_current_tool name a) tb))
      else show_new (new_tool_call tool_id name 0) tb)"

definition start_task_tool :: "string \<Rightarrow> json \<Rightarrow> transcript \<Rightarrow> transcript" where
  "start_task_tool tool_id inp tb =
     (let (a, tb) = show_new (new_subagent (task_heading_from_input inp)) tb in subagent_push tool_id a tb)"

definition note_tool_name :: "string \<Rightarrow> string \<Rightarrow> transcript \<Rightarrow> transcript" where
  "note_tool_name tool_id name tb = (if tool_id = [] then tb else tb\<lparr>tb_names := dset tool_id name (tb_names tb)\<rparr>)"

definition tool_use_start :: "int \<Rightarrow> string \<Rightarrow> string \<Rightarrow> json \<Rightarrow> transcript \<Rightarrow> transcript" where
  "tool_use_start idx tool_id name inp tb =
     (let tb = note_tool_name tool_id name (if 0 \<le> idx then block_stop idx tb else tb)
      in if name = ''Task'' then start_task_tool tool_id inp tb
         else (let (a, tb) = place_tool_call tool_id name tb
               in if 0 \<le> idx then tb\<lparr>tb_tools := dset idx a (tb_tools tb)\<rparr> else tb))"

definition tool_use :: "string \<Rightarrow> string \<Rightarrow> json \<Rightarrow> transcript \<Rightarrow> transcript" where
  "tool_use tool_id name inp tb =
     (let tb = note_tool_name tool_id name tb
      in if name = ''Task'' then start_task_tool tool_id inp tb
         else (let (a, tb) = place_tool_call tool_id name tb in update_at a close_call tb))"

definition close_task :: "string \<Rightarrow> string option \<Rightarrow> transcript \<Rightarrow> transcript" where
  "close_task tool_id name tb =
     (if tb_stack tb = [] then tb
      else (let (popped, tb) = subagent_pop tool_id tb; top = (if tb_stack tb = [] then [] else last (tb_stack tb))
            in if \<not> popped \<and> tool_id \<noteq> [] \<and> py_startswith top ''__task_'' \<and> (name = None \<or> name = Some ''Task'') \<and>
                  py_contains ''task'' (py_lower tool_id)
               then snd (subagent_pop [] tb) else tb))"

definition tool_result :: "string \<Rightarrow> json \<Rightarrow> bool \<Rightarrow> transcript \<Rightarrow> transcript" where
  "tool_result tool_id content is_error tb =
     (let name = map_of (tb_names tb) tool_id; tb = close_task tool_id name tb
      in if tb_show_results tb then snd (show_new (new_tool_result tool_id content name is_error) tb) else tb)"

definition SUPPRESSED_TYPES :: "string list" where
  "SUPPRESSED_TYPES =
     [''thinking_start'', ''thinking_delta'', ''thinking_chunk'', ''text_start'', ''text_delta'', ''text_chunk'']"

definition on_index :: "jdict \<Rightarrow> (int \<Rightarrow> transcript \<Rightarrow> transcript) \<Rightarrow> transcript \<Rightarrow> py_error + transcript" where
  "on_index ev f tb = rbind (ev_index ev) (\<lambda>idx. Inr (f idx tb))"

definition apply_event :: "jdict \<Rightarrow> transcript \<Rightarrow> py_error + transcript" where
  "apply_event ev tb =
     (let tool_id = py_strip (str_or (jget_default ev ''id'' (JStr [])) []);
          name = str_or (jget_default ev ''name'' (JStr [])) ''tool'';
          t = py_str (jget_default ev ''text'' (JStr []))
      in case jget ev ''type'' of
           JStr et \<Rightarrow>
             if in_subagent tb \<and> et \<in> set SUPPRESSED_TYPES then Inr tb
             else if et = ''thinking_start'' then on_index ev open_thinking tb
             else if et = ''thinking_delta'' \<or> et = ''thinking_chunk'' then on_index ev (\<lambda>idx. thinking_delta idx t) tb
             else if et = ''thinking_stop'' then on_index ev thinking_stop tb
             else if et = ''text_start'' then on_index ev open_text tb
             else if et = ''text_delta'' \<or> et = ''text_chunk'' then on_index ev (\<lambda>idx. text_delta idx t) tb
             else if et = ''text_stop'' then on_index ev text_stop tb
             else if et = ''tool_use_start'' then on_index ev (\<lambda>idx. tool_use_start idx tool_id name (jget ev ''input'')) tb
             else if et = ''tool_use_stop'' then on_index ev tool_use_stop tb
             else if et = ''block_stop'' then on_index ev block_stop tb
             else if et = ''tool_use'' then Inr (tool_use tool_id name (jget ev ''input'') tb)
             else if et = ''tool_result'' then
               Inr (tool_result (py_strip (str_or (jget_default ev ''tool_use_id'' (JStr [])) [])) (jget ev ''content'')
                 (truthy (jget_default ev ''is_error'' (JBool False))) tb)
             else if et = ''error'' then
               Inr (snd (show_new (ErrorSegment (or_else (py_str (jget_default ev ''message'' (JStr []))) ''Unknown error'')) tb))
             else Inr tb
         | _ \<Rightarrow> Inr tb)"

fun apply_events :: "jdict list \<Rightarrow> transcript \<Rightarrow> py_error + transcript" where
  "apply_events [] tb = Inr tb"
| "apply_events (ev # evs) tb = rbind (apply_event ev tb) (apply_events evs)"

section \<open>Rendering\<close>

record icons =
  ic_thinking :: string
  ic_tool :: string
  ic_result :: string
  ic_subagent :: string
  ic_error :: string

record render_ctx =
  bold :: "string \<Rightarrow> string"
  code_inline :: "string \<Rightarrow> string"
  escape_code :: "string \<Rightarrow> string"
  escape_text :: "string \<Rightarrow> string"
  render_markdown :: "string \<Rightarrow> string option"
  thinking_tail_max :: "int option"
  tool_output_tail_max :: "int option"
  text_tail_max :: "int option"

text \<open>\<open>raw[i:]\<close>, and a text cut to its tail.\<close>

definition slice_from :: "int \<Rightarrow> string \<Rightarrow> string" where
  "slice_from i s = drop (nat (if i < 0 then int (length s) + i else i)) s"

definition tail_text :: "int option \<Rightarrow> string \<Rightarrow> string" where
  "tail_text tail_max raw =
     (case tail_max of
        Some m \<Rightarrow> (if m < int (length raw) then ''...'' @ slice_from (- (m - 3)) raw else raw)
      | None \<Rightarrow> raw)"

definition fenced :: "string \<Rightarrow> string" where
  "fenced inner = LF # ''```'' @ LF # inner @ LF # ''```''"

definition render_call :: "icons \<Rightarrow> render_ctx \<Rightarrow> string \<Rightarrow> nat \<Rightarrow> string" where
  "render_call ic ctx name indent =
     concat (replicate indent ''  '') @ ic_tool ic @ '' '' @ bold ctx ''Tool call:'' @ '' '' @ code_inline ctx name"

definition render_subagent ::
    "icons \<Rightarrow> render_ctx \<Rightarrow> chat_segment list \<Rightarrow> string \<Rightarrow> nat \<Rightarrow> string list \<Rightarrow> nat option \<Rightarrow> string" where
  "render_subagent ic ctx store description tool_calls tools_used current =
     (let call = (case current of
                    Some a \<Rightarrow> (case store ! a of ToolCallSegment _ name _ indent \<Rightarrow> [render_call ic ctx name indent] | _ \<Rightarrow> [])
                  | None \<Rightarrow> []);
          used = ''{'' @ py_join '', '' (sort tools_used) @ ''}''
      in py_join [LF]
           ([ic_subagent ic @ '' '' @ bold ctx ''Subagent:'' @ '' '' @ code_inline ctx description] @
            filter (\<lambda>l. l \<noteq> []) call @
            [''  '' @ bold ctx ''Tools used:'' @ '' '' @ code_inline ctx used,
             ''  '' @ bold ctx ''Tool calls:'' @ '' '' @ code_inline ctx (nat_digits tool_calls)]))"

fun render_segment :: "icons \<Rightarrow> render_ctx \<Rightarrow> chat_segment list \<Rightarrow> chat_segment \<Rightarrow> string option" where
  "render_segment ic ctx store (ThinkingSegment parts) =
     Some (ic_thinking ic @ '' '' @ bold ctx ''Thinking'' @
       fenced (escape_code ctx (tail_text (thinking_tail_max ctx) (concat parts))))"
| "render_segment ic ctx store (TextSegment parts) = render_markdown ctx (tail_text (text_tail_max ctx) (concat parts))"
| "render_segment ic ctx store (ToolCallSegment tool_id name closed indent) = Some (render_call ic ctx name indent)"
| "render_segment ic ctx store (ToolResultSegment tool_id name content is_error) =
     Some (ic_result ic @ '' '' @ bold ctx (if is_error then ''Tool error:'' else ''Tool result:'') @
       (case name of Some n \<Rightarrow> (if n = [] then [] else '' '' @ code_inline ctx n) | None \<Rightarrow> []) @
       fenced (escape_code ctx (tail_text (tool_output_tail_max ctx) content)))"
| "render_segment ic ctx store (SubagentSegment description tool_calls tools_used current) =
     Some (render_subagent ic ctx store description tool_calls tools_used current)"
| "render_segment ic ctx store (ErrorSegment message) =
     Some (ic_error ic @ '' '' @ bold ctx ''Error:'' @ '' '' @ code_inline ctx message)"

definition rendered_parts :: "icons \<Rightarrow> render_ctx \<Rightarrow> transcript \<Rightarrow> string list" where
  "rendered_parts ic ctx tb =
     filter (\<lambda>out. out \<noteq> []) (List.map_filter (\<lambda>a. render_segment ic ctx (tb_store tb) (tb_store tb ! a)) (tb_segments tb))"

definition join_parts :: "string \<Rightarrow> string \<Rightarrow> bool \<Rightarrow> string list \<Rightarrow> string" where
  "join_parts prefix_marker status_text add_marker parts =
     (let body = py_join [LF] parts
      in (if add_marker \<and> body \<noteq> [] then prefix_marker @ body else body) @ status_text)"

text \<open>The first candidate that fits, dropping the oldest part each time.\<close>

fun drop_oldest :: "int \<Rightarrow> string \<Rightarrow> string \<Rightarrow> string list \<Rightarrow> string option" where
  "drop_oldest limit_chars prefix_marker status_text [] = None"
| "drop_oldest limit_chars prefix_marker status_text (p # ps) =
     (let candidate = join_parts prefix_marker status_text True (p # ps)
      in if int (length candidate) \<le> limit_chars then Some candidate
         else drop_oldest limit_chars prefix_marker status_text ps)"

definition tail_of_last :: "int \<Rightarrow> string \<Rightarrow> string \<Rightarrow> string \<Rightarrow> string option" where
  "tail_of_last limit_chars prefix_marker status_text last_part =
     (let budget = limit_chars - int (length prefix_marker) - int (length status_text);
          t = (if budget < int (length last_part) then ''...'' @ slice_from (- (budget - 3)) last_part else last_part);
          candidate = prefix_marker @ t @ status_text
      in if 20 < budget \<and> int (length candidate) \<le> limit_chars then Some candidate else None)"

definition render_transcript :: "icons \<Rightarrow> render_ctx \<Rightarrow> int \<Rightarrow> string option \<Rightarrow> transcript \<Rightarrow> string" where
  "render_transcript ic ctx limit_chars status tb =
     (let parts = rendered_parts ic ctx tb;
          status_text = (case status of Some s \<Rightarrow> (if s = [] then [] else LF # LF # s) | None \<Rightarrow> []);
          prefix_marker = escape_text ctx (''... (truncated)'' @ [LF]);
          candidate = join_parts prefix_marker status_text False parts;
          minimal = prefix_marker @ dropWhile (\<lambda>c. c = LF) status_text;
          bare = (case status of Some s \<Rightarrow> s | None \<Rightarrow> [])
      in if int (length candidate) \<le> limit_chars then candidate
         else case drop_oldest limit_chars prefix_marker status_text parts of
           Some c \<Rightarrow> c
         | None \<Rightarrow>
             if parts = [] then bare
             else case tail_of_last limit_chars prefix_marker status_text (last parts) of
               Some c \<Rightarrow> c
             | None \<Rightarrow> if int (length minimal) \<le> limit_chars then minimal else bare)"

end
