(* ===== verification/Cli_Events.thy ===== *)
theory Cli_Events
  imports Transcript
begin

text \<open>
  Events of the command line agent (\<open>messaging/event_parser.py\<close>, \<open>cli_event_constants.py\<close>,
  \<open>node_event_pipeline.py\<close>) and the run of one node of a conversation (\<open>_process_node_impl\<close> in
  \<open>handler.py\<close>): what each event does to the transcript, to the message shown, and to the node.

  Effects on the platform, the tree and the session manager are a list of actions; formatting of status
  lines and the pool of sessions are arguments.
\<close>

section \<open>Parsing\<close>

definition cli_typed :: "string \<Rightarrow> jdict \<Rightarrow> jdict" where
  "cli_typed t d = (''type'', JStr t) # d"

definition is_list :: "json \<Rightarrow> bool" where
  "is_list j = (as_list j \<noteq> None)"

definition message_object :: "jdict \<Rightarrow> json" where
  "message_object event =
     (if jget event ''type'' = JStr ''assistant'' \<or> jget event ''type'' = JStr ''user'' then jget event ''message''
      else if jget event ''type'' = JStr ''result'' then
        (let msg_obj =
               (case jget event ''result'' of
                  JObj res \<Rightarrow>
                    (if \<not> truthy (jget res ''message'') \<and> is_list (jget res ''content'')
                     then JObj [(''content'', jget res ''content'')] else jget res ''message'')
                | _ \<Rightarrow> JNull);
             msg_obj = (if truthy msg_obj then msg_obj else jget event ''message'')
         in if \<not> truthy msg_obj \<and> is_list (jget event ''content'')
            then JObj [(''content'', jget event ''content'')] else msg_obj)
      else JNull)"

definition stripped_id :: "jdict \<Rightarrow> string \<Rightarrow> string" where
  "stripped_id d k = py_strip (str_or (jget_default d k (JStr [])) [])"

definition content_event :: "json \<Rightarrow> jdict list" where
  "content_event c =
     (case c of
        JObj d \<Rightarrow>
          (if jget d ''type'' = JStr ''text'' then [cli_typed ''text_chunk'' [(''text'', jget_default d ''text'' (JStr []))]]
           else if jget d ''type'' = JStr ''thinking''
           then [cli_typed ''thinking_chunk'' [(''text'', jget_default d ''thinking'' (JStr []))]]
           else if jget d ''type'' = JStr ''tool_use''
           then [cli_typed ''tool_use'' [(''id'', JStr (stripped_id d ''id'')), (''name'', jget_default d ''name'' (JStr [])),
                   (''input'', jget d ''input'')]]
           else if jget d ''type'' = JStr ''tool_result''
           then [cli_typed ''tool_result'' [(''tool_use_id'', JStr (stripped_id d ''tool_use_id'')), (''content'', jget d ''content''),
                   (''is_error'', JBool (truthy (jget_default d ''is_error'' (JBool False))))]]
           else [])
      | _ \<Rightarrow> [])"

definition cli_message_events :: "json \<Rightarrow> jdict list" where
  "cli_message_events msg_obj =
     (case msg_obj of
        JObj m \<Rightarrow> (case jget_default m ''content'' (JArr []) of JArr content \<Rightarrow> concat (map content_event content) | _ \<Rightarrow> [])
      | _ \<Rightarrow> [])"

definition index_of :: "jdict \<Rightarrow> string \<times> json" where
  "index_of event = (''index'', jget_default event ''index'' (JInt (-1)))"

definition delta_events :: "jdict \<Rightarrow> jdict list" where
  "delta_events event =
     (case jget_default event ''delta'' (JObj []) of
        JObj delta \<Rightarrow>
          (if jget delta ''type'' = JStr ''text_delta''
           then [cli_typed ''text_delta'' [index_of event, (''text'', jget_default delta ''text'' (JStr []))]]
           else if jget delta ''type'' = JStr ''thinking_delta''
           then [cli_typed ''thinking_delta'' [index_of event, (''text'', jget_default delta ''thinking'' (JStr []))]]
           else if jget delta ''type'' = JStr ''input_json_delta''
           then [cli_typed ''tool_use_delta'' [index_of event, (''partial_json'', jget_default delta ''partial_json'' (JStr []))]]
           else [])
      | _ \<Rightarrow> [])"

definition start_events :: "jdict \<Rightarrow> jdict list" where
  "start_events event =
     (case jget_default event ''content_block'' (JObj []) of
        JObj block \<Rightarrow>
          (if jget block ''type'' = JStr ''thinking'' then [cli_typed ''thinking_start'' [index_of event]]
           else if jget block ''type'' = JStr ''text'' then [cli_typed ''text_start'' [index_of event]]
           else if jget block ''type'' = JStr ''tool_use''
           then [cli_typed ''tool_use_start'' [index_of event, (''id'', JStr (stripped_id block ''id'')),
                   (''name'', jget_default block ''name'' (JStr [])), (''input'', jget block ''input'')]]
           else [])
      | _ \<Rightarrow> [])"

text \<open>\<open>code == 0\<close>, which \<open>False\<close> and a float zero satisfy as well.\<close>

definition equals_zero :: "json \<Rightarrow> bool" where
  "equals_zero j = (case j of JInt i \<Rightarrow> i = 0 | JBool b \<Rightarrow> \<not> b | JFloat s \<Rightarrow> \<not> float_truthy s | _ \<Rightarrow> False)"

definition exit_events :: "jdict \<Rightarrow> jdict list" where
  "exit_events event =
     (let code = jget_default event ''code'' (JInt 0); stderr = jget event ''stderr''
      in if equals_zero code then [cli_typed ''complete'' [(''status'', JStr ''success'')]]
         else [cli_typed ''error'' [(''message'', if truthy stderr then stderr else JStr (''Process exited with code '' @ py_str code))],
               cli_typed ''complete'' [(''status'', JStr ''failed'')]])"

definition parse_cli_event :: "json \<Rightarrow> jdict list" where
  "parse_cli_event ev =
     (case ev of
        JObj event \<Rightarrow>
          (if jget event ''type'' = JStr ''system'' then []
           else if cli_message_events (message_object event) \<noteq> [] then cli_message_events (message_object event)
           else if jget event ''type'' = JStr ''content_block_delta'' then delta_events event
           else if jget event ''type'' = JStr ''content_block_start'' then start_events event
           else if jget event ''type'' = JStr ''content_block_stop'' then [cli_typed ''block_stop'' [index_of event]]
           else if jget event ''type'' = JStr ''error'' then
             [cli_typed ''error'' [(''message'',
                case jget event ''error'' of JObj err \<Rightarrow> jget err ''message'' | err \<Rightarrow> JStr (py_str err))]]
           else if jget event ''type'' = JStr ''exit'' then exit_events event
           else [])
      | _ \<Rightarrow> [])"

section \<open>Status lines\<close>

record status_icons =
  si_brain :: string
  si_wait :: string
  si_robot :: string
  si_done :: string
  si_failed :: string
  si_stopped :: string
  si_crashed :: string

record status_format =
  sf_icons :: status_icons
  sf_format :: "string \<Rightarrow> string \<Rightarrow> string"

definition TRANSCRIPT_EVENT_TYPES :: "string list" where
  "TRANSCRIPT_EVENT_TYPES =
     [''thinking_start'', ''thinking_delta'', ''thinking_chunk'', ''thinking_stop'', ''text_start'', ''text_delta'',
      ''text_chunk'', ''text_stop'', ''tool_use_start'', ''tool_use_delta'', ''tool_use_stop'', ''tool_use'',
      ''tool_result'', ''block_stop'', ''error'']"

definition get_status_for_event :: "status_format \<Rightarrow> string \<Rightarrow> jdict \<Rightarrow> string option" where
  "get_status_for_event sf ptype parsed =
     (let ic = sf_icons sf
      in if ptype \<in> {''thinking_start'', ''thinking_delta'', ''thinking_chunk''}
         then Some (sf_format sf (si_brain ic) ''Claude is thinking...'')
         else if ptype \<in> {''text_start'', ''text_delta'', ''text_chunk''}
         then Some (sf_format sf (si_brain ic) ''Claude is working...'')
         else if ptype = ''tool_result'' then Some (sf_format sf (si_wait ic) ''Executing tools...'')
         else if ptype \<in> {''tool_use_start'', ''tool_use_delta'', ''tool_use''}
         then (if jget parsed ''name'' = JStr ''Task'' then Some (sf_format sf (si_robot ic) ''Subagent working...'')
               else Some (sf_format sf (si_wait ic) ''Executing tools...''))
         else None)"

section \<open>One parsed event\<close>

text \<open>
  Effects of a run: an update of the message with a status line, which the throttle may not skip when it is
  forced; the states of the node, with the session or the error they record; and calls of the session manager.
\<close>

datatype node_action =
    UpdateUi "string option" bool
  | InProgress "json option"
  | Completed json
  | FailNode json
  | MarkError string
  | RegisterSession json json
  | RemoveSession json

record node_run =
  nr_transcript :: transcript
  nr_last_status :: "string option"
  nr_had_events :: bool
  nr_captured :: json
  nr_temp :: json
  nr_actions :: "node_action list"

definition act :: "node_action list \<Rightarrow> node_run \<Rightarrow> node_run" where
  "act as r = r\<lparr>nr_actions := nr_actions r @ as\<rparr>"

definition note_transcript :: "string \<Rightarrow> jdict \<Rightarrow> node_run \<Rightarrow> py_error + node_run" where
  "note_transcript ptype parsed r =
     (if ptype \<in> set TRANSCRIPT_EVENT_TYPES
      then rbind (apply_event parsed (nr_transcript r)) (\<lambda>tb. Inr (r\<lparr>nr_transcript := tb, nr_had_events := True\<rparr>))
      else Inr r)"

definition complete_event :: "status_format \<Rightarrow> bool \<Rightarrow> node_run \<Rightarrow> py_error + node_run" where
  "complete_event sf has_tree r =
     rbind (if nr_had_events r then Inr (nr_transcript r)
            else apply_event (cli_typed ''text_chunk'' [(''text'', JStr ''Done.'')]) (nr_transcript r))
       (\<lambda>tb. Inr (act (UpdateUi (Some (sf_format sf (si_done (sf_icons sf)) ''Complete'')) True #
              (if has_tree \<and> truthy (nr_captured r) then [Completed (nr_captured r)] else []))
            (r\<lparr>nr_transcript := tb\<rparr>)))"

definition process_parsed_cli_event :: "status_format \<Rightarrow> bool \<Rightarrow> jdict \<Rightarrow> node_run \<Rightarrow> py_error + node_run" where
  "process_parsed_cli_event sf has_tree parsed r =
     (let ptype = (case jget parsed ''type'' of JStr t \<Rightarrow> t | _ \<Rightarrow> [])
      in rbind (note_transcript ptype parsed r) (\<lambda>r.
        case get_status_for_event sf ptype parsed of
          Some status \<Rightarrow> Inr (act [UpdateUi (Some status) False] (r\<lparr>nr_last_status := Some status\<rparr>))
        | None \<Rightarrow>
            if ptype = ''block_stop'' then Inr (act [UpdateUi (nr_last_status r) True] r)
            else if ptype = ''complete'' then complete_event sf has_tree r
            else if ptype = ''error'' then
              Inr (act (UpdateUi (Some (sf_format sf (si_failed (sf_icons sf)) ''Error'')) True #
                     (if has_tree then [FailNode (jget_default parsed ''message'' (JStr ''Unknown error''))] else [])) r)
            else Inr r))"

definition handle_session_info_event :: "bool \<Rightarrow> jdict \<Rightarrow> node_run \<Rightarrow> node_run" where
  "handle_session_info_event has_tree event r =
     (let real = jget event ''session_id''
      in if jget event ''type'' \<noteq> JStr ''session_info'' \<or> \<not> truthy real \<or> \<not> truthy (nr_temp r) then r
         else act (RegisterSession (nr_temp r) real # (if has_tree then [InProgress (Some real)] else []))
                (r\<lparr>nr_captured := real, nr_temp := JNull\<rparr>))"

section \<open>The run of a node\<close>

text \<open>
  The generator of events ends, raises an error with its preview for the user, or the task is
  cancelled, with the reason the node's context gives.  An exception of the transcript has the text of the
  \<open>int\<close> call, which is an argument.
\<close>

datatype run_end = Exhausted | Crashed string | Cancelled bool

text \<open>Each raising step keeps what was done before it, so a run is its state and how it ended.\<close>

fun process_all :: "status_format \<Rightarrow> bool \<Rightarrow> (py_error \<Rightarrow> string) \<Rightarrow> jdict list \<Rightarrow> node_run \<Rightarrow> node_run \<times> string option" where
  "process_all sf has_tree preview [] r = (r, None)"
| "process_all sf has_tree preview (p # ps) r =
     (case process_parsed_cli_event sf has_tree p r of
        Inl e \<Rightarrow> (r, Some (preview e))
      | Inr r \<Rightarrow> process_all sf has_tree preview ps r)"

fun run_cli_events :: "status_format \<Rightarrow> bool \<Rightarrow> (py_error \<Rightarrow> string) \<Rightarrow> json list \<Rightarrow> run_end \<Rightarrow> node_run \<Rightarrow> node_run \<times> run_end" where
  "run_cli_events sf has_tree preview [] fin r = (r, fin)"
| "run_cli_events sf has_tree preview (ev # evs) fin r =
     (case ev of
        JObj event \<Rightarrow>
          (let r = handle_session_info_event has_tree event r
           in if jget event ''type'' = JStr ''session_info'' then run_cli_events sf has_tree preview evs fin r
              else case process_all sf has_tree preview (parse_cli_event ev) r of
                (r, None) \<Rightarrow> run_cli_events sf has_tree preview evs fin r
              | (r, Some m) \<Rightarrow> (r, Crashed m))
      | _ \<Rightarrow> run_cli_events sf has_tree preview evs fin r)"

definition show_error :: "string \<Rightarrow> node_run \<Rightarrow> node_run" where
  "show_error m r =
     r\<lparr>nr_transcript := snd (show_new (ErrorSegment (or_else m ''Unknown error'')) (nr_transcript r))\<rparr>"

definition end_run :: "status_format \<Rightarrow> bool \<Rightarrow> node_run \<times> run_end \<Rightarrow> node_run" where
  "end_run sf has_tree out =
     (let ic = sf_icons sf
      in case out of
           (r, Exhausted) \<Rightarrow> r
         | (r, Cancelled stopped) \<Rightarrow>
             act (if has_tree then [MarkError ''Cancelled by user''] else [])
               (if stopped then act [UpdateUi (Some (sf_format sf (si_stopped ic) ''Stopped.'')) True] r
                else act [UpdateUi (Some (sf_format sf (si_failed ic) ''Cancelled'')) True] (show_error ''Task was cancelled'' r))
         | (r, Crashed m) \<Rightarrow>
             act (UpdateUi (Some (sf_format sf (si_crashed ic) ''Task Failed'')) True #
                    (if has_tree then [FailNode (JStr m)] else [])) (show_error m r))"

definition free_slot :: "node_run \<Rightarrow> node_run" where
  "free_slot r =
     act (if truthy (nr_captured r) then [RemoveSession (nr_captured r)]
          else if truthy (nr_temp r) then [RemoveSession (nr_temp r)] else []) r"

definition new_run :: "bool \<Rightarrow> node_run" where
  "new_run has_tree =
     \<lparr>nr_transcript = new_transcript False, nr_last_status = None, nr_had_events = False, nr_captured = JNull, nr_temp = JNull,
      nr_actions = (if has_tree then [InProgress None] else [])\<rparr>"

text \<open>\<open>session\<close> is what the session manager answers: no free slot with its message, or an id and whether it is new.\<close>

definition process_node_impl ::
    "status_format \<Rightarrow> bool \<Rightarrow> (py_error \<Rightarrow> string) \<Rightarrow> string + json \<times> bool \<Rightarrow> json list \<Rightarrow> run_end \<Rightarrow> node_run" where
  "process_node_impl sf has_tree preview session events fin =
     (case session of
        Inl m \<Rightarrow>
          free_slot (act (UpdateUi (Some (sf_format sf (si_wait (sf_icons sf)) ''Session limit reached'')) True #
              (if has_tree then [MarkError m] else [])) (show_error m (new_run has_tree)))
      | Inr (session_id, is_new) \<Rightarrow>
          (let r = new_run has_tree; r = (if is_new then r\<lparr>nr_temp := session_id\<rparr> else r\<lparr>nr_captured := session_id\<rparr>)
           in free_slot (end_run sf has_tree (run_cli_events sf has_tree preview events fin r))))"

end
