(* ===== verification/Transcript_Render.thy ===== *)
theory Transcript_Render
  imports Transcript
begin

text \<open>
  The rendering of a transcript (\<open>TranscriptBuffer.render\<close>) and its subagents: it never exceeds the
  limit of the platform and keeps as many of the newest segments as fit (\<open>rendering_fits\<close>); whatever happens
  inside a task shows as that task alone (\<open>subagent_is_one_segment\<close>).
\<close>

section \<open>The limit\<close>

definition status_line :: "string option \<Rightarrow> string" where
  "status_line status = (case status of Some s \<Rightarrow> (if s = [] then [] else LF # LF # s) | None \<Rightarrow> [])"

definition fits :: "int \<Rightarrow> string \<Rightarrow> bool" where
  "fits limit s = (int (length s) \<le> limit)"

text \<open>Everything, or the marker and as many of the newest parts as fit.\<close>

definition newest_fit :: "int \<Rightarrow> string \<Rightarrow> string \<Rightarrow> string list \<Rightarrow> string option" where
  "newest_fit limit marker st parts =
     (if fits limit (py_join [LF] parts @ st) then Some (py_join [LF] parts @ st)
      else map_option (\<lambda>k. marker @ py_join [LF] (drop k parts) @ st)
        (List.find (\<lambda>k. fits limit (marker @ py_join [LF] (drop k parts) @ st)) [0..<length parts]))"

lemma join_parts_marked: "p \<noteq> [] \<Longrightarrow> join_parts marker st True (p # ps) = marker @ py_join [LF] (p # ps) @ st"
  by (cases ps) (simp_all add: join_parts_def Let_def)

lemma find_upt_Suc: "List.find P [0..<Suc n] = (if P 0 then Some 0 else map_option Suc (List.find (\<lambda>k. P (Suc k)) [0..<n]))"
proof -
  have "[0..<Suc n] = 0 # map Suc [0..<n]" by (simp add: map_Suc_upt upt_conv_Cons del: upt_Suc)
  moreover have "List.find P (map Suc ks) = map_option Suc (List.find (\<lambda>k. P (Suc k)) ks)" for ks by (induction ks) auto
  ultimately show ?thesis by simp
qed

lemma drop_oldest_newest:
  "[] \<notin> set parts \<Longrightarrow> drop_oldest limit marker st parts =
     map_option (\<lambda>k. marker @ py_join [LF] (drop k parts) @ st)
       (List.find (\<lambda>k. fits limit (marker @ py_join [LF] (drop k parts) @ st)) [0..<length parts])"
proof (induction parts)
  case (Cons p ps)
  then have "p \<noteq> []" by auto
  from join_parts_marked [OF this, of marker st ps] Cons show ?case
    by (simp add: fits_def find_upt_Suc option.map_comp comp_def Let_def del: upt_Suc)
qed simp

lemma rendered_nonempty: "[] \<notin> set (rendered_parts ic ctx tb)"
  by (simp add: rendered_parts_def)

lemma drop_oldest_fits: "drop_oldest limit marker st parts = Some c \<Longrightarrow> fits limit c"
  by (induction parts) (auto simp: fits_def Let_def split: if_splits)

lemma drop_oldest_last: "drop_oldest limit marker st parts = None \<Longrightarrow> parts \<noteq> [] \<Longrightarrow> \<not> fits limit (join_parts marker st True [last parts])"
proof (induction parts)
  case (Cons p ps)
  then show ?case by (cases ps) (auto simp: fits_def Let_def split: if_splits)
qed simp

text \<open>
  What the last resort is: as much of the end of the newest part as there is room for, if there is room for more
  than twenty characters; else the marker and the status, or the bare status.
\<close>

definition last_resort :: "int \<Rightarrow> string \<Rightarrow> string \<Rightarrow> string list \<Rightarrow> string \<Rightarrow> string" where
  "last_resort limit marker st parts bare =
     (let room = limit - int (length marker) - int (length st); newest = last parts
      in if parts = [] then bare
         else if 20 < room then marker @ ''...'' @ drop (length newest - nat (room - 3)) newest @ st
         else if fits limit (marker @ dropWhile (\<lambda>c. c = LF) st) then marker @ dropWhile (\<lambda>c. c = LF) st
         else bare)"

lemma tail_of_last_exact:
  assumes "\<not> fits limit (marker @ newest @ st)"
  shows "tail_of_last limit marker st newest =
    (let room = limit - int (length marker) - int (length st)
     in if 20 < room then Some (marker @ ''...'' @ drop (length newest - nat (room - 3)) newest @ st) else None)"
proof -
  have "nat (int n + (3 - k)) = n - nat (k - 3)" if "20 < k" for n :: nat and k :: int using that by arith
  with assms show ?thesis by (auto simp: tail_of_last_def Let_def fits_def slice_from_def)
qed

lemma tail_fills:
  assumes "\<not> fits limit (marker @ newest @ st)" and "20 < limit - int (length marker) - int (length st)"
  shows "int (length (marker @ ''...'' @ drop (length newest - nat (limit - int (length marker) - int (length st) - 3)) newest @ st)) = limit"
  using assms by (auto simp: fits_def)

text \<open>
  C9: the message never exceeds the limit of the platform, unless the bare status line alone does; it is the whole
  transcript if that fits, else the marker and as many of the newest segments as fit; if not even the newest fits,
  it is the end of the newest and fills the limit exactly, or, where there is no room for that, the marker with
  the status, or the status alone.
\<close>

theorem rendering_fits:
  "let r = render_transcript ic ctx limit status tb; parts = rendered_parts ic ctx tb; st = status_line status;
       marker = escape_text ctx (''... (truncated)'' @ [LF]); bare = (case status of Some s \<Rightarrow> s | None \<Rightarrow> [])
   in (fits limit r \<or> r = bare) \<and>
      (case newest_fit limit marker st parts of
         Some c \<Rightarrow> r = c
       | None \<Rightarrow> r = last_resort limit marker st parts bare \<and>
           (int (length r) = limit \<or> parts = [] \<or> limit - int (length marker) - int (length st) \<le> 20))"
proof -
  define parts where "parts = rendered_parts ic ctx tb"
  define marker where "marker = escape_text ctx (''... (truncated)'' @ [LF])"
  define st where "st = status_line status"
  define bare where "bare = (case status of Some s \<Rightarrow> s | None \<Rightarrow> [])"
  define r where "r = render_transcript ic ctx limit status tb"
  have ne: "[] \<notin> set parts" unfolding parts_def by (rule rendered_nonempty)
  have whole: "join_parts marker st False parts = py_join [LF] parts @ st" by (simp add: join_parts_def Let_def)
  have r: "r = (if fits limit (py_join [LF] parts @ st) then py_join [LF] parts @ st
      else case drop_oldest limit marker st parts of
        Some c \<Rightarrow> c
      | None \<Rightarrow> if parts = [] then bare
          else case tail_of_last limit marker st (last parts) of
            Some c \<Rightarrow> c
          | None \<Rightarrow> if fits limit (marker @ dropWhile (\<lambda>c. c = LF) st) then marker @ dropWhile (\<lambda>c. c = LF) st else bare)"
    unfolding r_def render_transcript_def Let_def parts_def [symmetric] marker_def [symmetric] status_line_def [symmetric] st_def [symmetric]
      bare_def [symmetric] whole fits_def ..
  note d = drop_oldest_newest [OF ne, of limit marker st]
  have "(fits limit r \<or> r = bare) \<and>
      (case newest_fit limit marker st parts of
         Some c \<Rightarrow> r = c
       | None \<Rightarrow> r = last_resort limit marker st parts bare \<and>
           (int (length r) = limit \<or> parts = [] \<or> limit - int (length marker) - int (length st) \<le> 20))"
  proof (cases "fits limit (py_join [LF] parts @ st)")
    case True
    then show ?thesis by (simp add: r newest_fit_def)
  next
    case big: False
    then have nf: "newest_fit limit marker st parts = drop_oldest limit marker st parts" by (simp add: newest_fit_def d)
    show ?thesis
    proof (cases "drop_oldest limit marker st parts")
      case (Some c)
      with big drop_oldest_fits [OF Some] show ?thesis by (simp add: r nf)
    next
      case None
      show ?thesis
      proof (cases "parts = []")
        case True
        with big None show ?thesis by (simp add: r newest_fit_def last_resort_def)
      next
        case p: False
        then have "last parts \<noteq> []" using ne by (metis last_in_set)
        then have over: "\<not> fits limit (marker @ last parts @ st)"
          using drop_oldest_last [OF None p] by (simp add: join_parts_marked)
        have r: "r = last_resort limit marker st parts bare"
          using big None p by (simp add: r tail_of_last_exact [OF over] last_resort_def Let_def)
        show ?thesis
        proof (cases "20 < limit - int (length marker) - int (length st)")
          case True
          with p have "r = marker @ ''...'' @ drop (length (last parts) - nat (limit - int (length marker) - int (length st) - 3)) (last parts) @ st"
            by (simp add: r last_resort_def Let_def)
          with tail_fills [OF over True] have "int (length r) = limit" by simp
          then show ?thesis by (simp add: r nf None fits_def)
        next
          case False
          with p have "fits limit r \<or> r = bare" by (simp add: r last_resort_def Let_def)
          with False show ?thesis by (simp add: r nf None)
        qed
      qed
    qed
  qed
  then show ?thesis unfolding Let_def r_def bare_def parts_def marker_def st_def .
qed

section \<open>Valid addresses\<close>

fun refers :: "nat \<Rightarrow> chat_segment \<Rightarrow> bool" where
  "refers n (SubagentSegment description tool_calls tools_used (Some a)) = (a < n)"
| "refers n seg = True"

definition is_subagent :: "chat_segment \<Rightarrow> bool" where
  "is_subagent seg = (case seg of SubagentSegment _ _ _ _ \<Rightarrow> True | _ \<Rightarrow> False)"

definition valid :: "transcript \<Rightarrow> bool" where
  "valid tb \<longleftrightarrow>
     (let n = length (tb_store tb)
      in (\<forall>a \<in> set (tb_segments tb) \<union> set (tb_subagents tb) \<union> ran (map_of (tb_text tb)) \<union> ran (map_of (tb_thinking tb)) \<union>
            ran (map_of (tb_tools tb)). a < n) \<and>
         (\<forall>seg \<in> set (tb_store tb). refers n seg) \<and> length (tb_stack tb) = length (tb_subagents tb) \<and>
         (\<forall>a \<in> set (tb_subagents tb). is_subagent (tb_store tb ! a)))"

text \<open>A function on segments that keeps what the addresses rely on.\<close>

definition tame :: "nat \<Rightarrow> (chat_segment \<Rightarrow> chat_segment) \<Rightarrow> bool" where
  "tame n f \<longleftrightarrow> (\<forall>seg. (refers n seg \<longrightarrow> refers n (f seg)) \<and> is_subagent (f seg) = is_subagent seg)"

lemma tame_simps [simp]: "tame n (append_text t)" "tame n close_call" "a < n \<Longrightarrow> tame n (set_current_tool name a)"
proof -
  show "tame n (append_text t)" unfolding tame_def
  proof
    fix seg show "(refers n seg \<longrightarrow> refers n (append_text t seg)) \<and> is_subagent (append_text t seg) = is_subagent seg"
      by (cases seg) (auto simp: is_subagent_def)
  qed
  show "tame n close_call" unfolding tame_def
  proof
    fix seg show "(refers n seg \<longrightarrow> refers n (close_call seg)) \<and> is_subagent (close_call seg) = is_subagent seg"
      by (cases seg) (auto simp: is_subagent_def)
  qed
  show "tame n (set_current_tool name a)" if "a < n" unfolding tame_def
  proof
    fix seg show "(refers n seg \<longrightarrow> refers n (set_current_tool name a seg)) \<and> is_subagent (set_current_tool name a seg) = is_subagent seg"
      using that by (cases seg) (auto simp: is_subagent_def set_current_tool_def)
  qed
qed

lemma refers_mono: "refers n seg \<Longrightarrow> n \<le> m \<Longrightarrow> refers m seg"
  by (cases "(n, seg)" rule: refers.cases) auto

lemma valid_update: "valid tb \<Longrightarrow> tame (length (tb_store tb)) f \<Longrightarrow> a < length (tb_store tb) \<Longrightarrow> valid (update_at a f tb)"
  unfolding valid_def Let_def update_at_def tame_def
  by (auto simp: nth_list_update dest!: set_update_subset_insert [THEN subsetD])

lemma valid_alloc: "valid tb \<Longrightarrow> refers (length (tb_store tb)) seg \<Longrightarrow> valid (snd (alloc seg tb))"
  unfolding valid_def Let_def alloc_def by (auto simp: nth_append intro: refers_mono less_SucI)

lemma valid_show: "valid tb \<Longrightarrow> refers (length (tb_store tb)) seg \<Longrightarrow> valid (snd (show_new seg tb))"
  unfolding valid_def Let_def alloc_def show_new_def by (auto simp: nth_append intro: refers_mono less_SucI)

lemma new_refs [simp]: "refers n (new_tool_call i nm d)" "refers n (new_subagent h)" "refers n (new_tool_result i c m e)"
  by (simp_all add: new_tool_call_def new_subagent_def new_tool_result_def)

text \<open>Changes of the dictionaries only.\<close>

lemma ran_dset: "ran (map_of (dset k v d)) \<subseteq> insert v (ran (map_of d))"
  by (auto simp: ran_def dict_simps split: if_splits)

lemma ran_ddel: "ran (map_of (ddel k d)) \<subseteq> ran (map_of d)"
  by (auto simp: ran_def dict_simps split: if_splits)

lemma valid_dicts:
  "valid tb \<Longrightarrow> a < length (tb_store tb) \<Longrightarrow> valid (tb\<lparr>tb_text := dset i a (tb_text tb)\<rparr>)"
  "valid tb \<Longrightarrow> a < length (tb_store tb) \<Longrightarrow> valid (tb\<lparr>tb_thinking := dset i a (tb_thinking tb)\<rparr>)"
  "valid tb \<Longrightarrow> a < length (tb_store tb) \<Longrightarrow> valid (tb\<lparr>tb_tools := dset i a (tb_tools tb)\<rparr>)"
  "valid tb \<Longrightarrow> valid (tb\<lparr>tb_text := ddel i (tb_text tb)\<rparr>)"
  "valid tb \<Longrightarrow> valid (tb\<lparr>tb_thinking := ddel i (tb_thinking tb)\<rparr>)"
  "valid tb \<Longrightarrow> valid (tb\<lparr>tb_tools := ddel i (tb_tools tb)\<rparr>)"
  "valid tb \<Longrightarrow> valid (tb\<lparr>tb_names := ns\<rparr>)"
  unfolding valid_def Let_def using ran_dset ran_ddel by (fastforce dest: ran_dset [THEN subsetD] ran_ddel [THEN subsetD])+

lemma valid_pop: "valid tb \<Longrightarrow> valid (pop_one tb)"
  unfolding valid_def Let_def pop_one_def by (auto dest: in_set_butlastD)

lemma valid_pops: "valid tb \<Longrightarrow> valid (pop_to idx tb)"
proof -
  have "valid ((pop_one ^^ n) tb)" if "valid tb" for n using that by (induction n) (auto intro: valid_pop)
  then show "valid tb \<Longrightarrow> valid (pop_to idx tb)" by (simp add: pop_to_def)
qed

lemma valid_subagent_pop: "valid tb \<Longrightarrow> valid (snd (subagent_pop i tb))"
  by (auto simp: subagent_pop_def Let_def intro: valid_pop valid_pops split: option.split)


lemma valid_map_of:
  "valid tb \<Longrightarrow> map_of (tb_text tb) i = Some a \<Longrightarrow> a < length (tb_store tb)"
  "valid tb \<Longrightarrow> map_of (tb_thinking tb) i = Some a \<Longrightarrow> a < length (tb_store tb)"
  "valid tb \<Longrightarrow> map_of (tb_tools tb) i = Some a \<Longrightarrow> a < length (tb_store tb)"
  by (auto simp: valid_def Let_def intro: ranI)

lemma show_new_parts: "show_new seg tb = (length (tb_store tb), tb\<lparr>tb_store := tb_store tb @ [seg], tb_segments := tb_segments tb @ [length (tb_store tb)]\<rparr>)"
  by (simp add: show_new_def alloc_def)

lemma valid_shown: "valid tb \<Longrightarrow> refers (length (tb_store tb)) seg \<Longrightarrow>
    valid (tb\<lparr>tb_store := tb_store tb @ [seg], tb_segments := tb_segments tb @ [length (tb_store tb)]\<rparr>)"
  using valid_show [of tb seg] by (simp add: show_new_parts)

lemma valid_stops: "valid tb \<Longrightarrow> valid (tool_use_stop i tb)" "valid tb \<Longrightarrow> valid (thinking_stop i tb)" "valid tb \<Longrightarrow> valid (text_stop i tb)"
  by (auto simp: tool_use_stop_def thinking_stop_def text_stop_def intro!: valid_update valid_dicts split: option.split dest: valid_map_of)

lemma valid_block_stop: "valid tb \<Longrightarrow> valid (block_stop i tb)"
  by (simp add: block_stop_def valid_stops)

lemma valid_shown_dicts:
  assumes "valid tb" "refers (length (tb_store tb)) seg"
  shows "valid (tb\<lparr>tb_store := tb_store tb @ [seg], tb_segments := tb_segments tb @ [length (tb_store tb)],
      tb_text := dset i (length (tb_store tb)) (tb_text tb)\<rparr>)"
    and "valid (tb\<lparr>tb_store := tb_store tb @ [seg], tb_segments := tb_segments tb @ [length (tb_store tb)],
      tb_thinking := dset i (length (tb_store tb)) (tb_thinking tb)\<rparr>)"
  using valid_dicts(1,2) [OF valid_shown [OF assms], of "length (tb_store tb)" i] by simp_all

lemma valid_starts: "valid tb \<Longrightarrow> valid (open_thinking i tb)" "valid tb \<Longrightarrow> valid (open_text i tb)"
  using valid_shown_dicts [OF valid_block_stop [of tb i]] valid_shown [of tb]
  by (simp_all add: open_thinking_def open_text_def show_new_parts Let_def)

lemma valid_deltas: "valid tb \<Longrightarrow> valid (thinking_delta i t tb)" "valid tb \<Longrightarrow> valid (text_delta i t tb)"
  using valid_shown_dicts [of tb] valid_shown [of tb]
  by (auto simp: thinking_delta_def text_delta_def show_new_parts Let_def intro!: valid_update split: option.split dest: valid_map_of)

lemma valid_push:
  assumes "valid tb" shows "valid (start_task_tool tool_id inp tb)"
  using assms unfolding valid_def Let_def start_task_tool_def subagent_push_def show_new_parts
  by (auto simp: nth_append is_subagent_def new_subagent_def intro: refers_mono less_SucI)

lemma valid_place:
  assumes "valid tb" shows "valid (snd (place_tool_call tool_id name tb)) \<and> fst (place_tool_call tool_id name tb) < length (tb_store (snd (place_tool_call tool_id name tb)))"
proof (cases "in_subagent tb \<and> tb_subagents tb \<noteq> []")
  case True
  let ?tb = "snd (alloc (new_tool_call tool_id name 1) tb)"
  have v: "valid ?tb" by (rule valid_alloc [OF assms]) simp
  have l: "last (tb_subagents tb) < length (tb_store tb)" using assms True by (auto simp: valid_def Let_def)
  have "valid (update_at (last (tb_subagents tb)) (set_current_tool name (length (tb_store tb))) ?tb)"
    by (rule valid_update [OF v]) (use l in \<open>simp_all add: alloc_def\<close>)
  with True show ?thesis by (simp add: place_tool_call_def alloc_def update_at_def)
next
  case False
  then show ?thesis using valid_shown [OF assms, of "new_tool_call tool_id name 0"] by (auto simp: place_tool_call_def show_new_parts)
qed

lemma valid_note: "valid tb \<Longrightarrow> valid (note_tool_name i n tb)"
  by (simp add: note_tool_name_def valid_dicts)

lemma valid_uses: "valid tb \<Longrightarrow> valid (tool_use_start i tool_id name inp tb)" "valid tb \<Longrightarrow> valid (tool_use tool_id name inp tb)"
proof -
  assume v: "valid tb"
  define tb1 where "tb1 = note_tool_name tool_id name (if 0 \<le> i then block_stop i tb else tb)"
  have v1: "valid tb1" using v by (simp add: tb1_def valid_note valid_block_stop)
  obtain a tb2 where p: "place_tool_call tool_id name tb1 = (a, tb2)" by fastforce
  with valid_place [OF v1, of tool_id name] have "valid tb2" "a < length (tb_store tb2)" by simp_all
  with valid_push [OF v1, of tool_id inp] p show "valid (tool_use_start i tool_id name inp tb)"
    by (simp add: tool_use_start_def Let_def tb1_def [symmetric] valid_dicts)
  have v2: "valid (note_tool_name tool_id name tb)" using v by (rule valid_note)
  obtain a tb2 where p: "place_tool_call tool_id name (note_tool_name tool_id name tb) = (a, tb2)" by fastforce
  with valid_place [OF v2, of tool_id name] have "valid tb2" "a < length (tb_store tb2)" by simp_all
  with valid_push [OF v2, of tool_id inp] p show "valid (tool_use tool_id name inp tb)"
    by (cases "name = ''Task''") (simp_all add: tool_use_def Let_def valid_update)
qed

lemma valid_result: "valid tb \<Longrightarrow> valid (tool_result i c e tb)"
proof -
  assume "valid tb"
  then have "valid (close_task i n tb)" for n using valid_subagent_pop by (auto simp: close_task_def Let_def split: prod.split) (metis snd_conv)+
  then show ?thesis using valid_shown by (simp add: tool_result_def Let_def show_new_parts)
qed

text \<open>One case for each kind of event.\<close>

lemma if_eqE: "(if c then x else y) = z \<Longrightarrow> (x = z \<Longrightarrow> R) \<Longrightarrow> (y = z \<Longrightarrow> R) \<Longrightarrow> R"
  by (cases c) auto

lemma apply_event_cases [consumes 1, case_names same open_thinking thinking_delta thinking_stop open_text text_delta text_stop
    tool_use_start tool_use_stop block_stop tool_use tool_result error]:
  assumes "apply_event ev tb = Inr tb'"
    and "P tb" "\<And>i. P (open_thinking i tb)" "\<And>i t. P (thinking_delta i t tb)" "\<And>i. P (thinking_stop i tb)"
    and "\<And>i. P (open_text i tb)" "\<And>i t. P (text_delta i t tb)" "\<And>i. P (text_stop i tb)"
    and "\<And>i a n inp. P (tool_use_start i a n inp tb)" "\<And>i. P (tool_use_stop i tb)" "\<And>i. P (block_stop i tb)"
    and "\<And>a n inp. P (tool_use a n inp tb)" "\<And>a c e. P (tool_result a c e tb)" "\<And>m. P (snd (show_new (ErrorSegment m) tb))"
  shows "P tb'"
proof (cases "jget ev ''type''")
  case (JStr et)
  note step = assms(1) [unfolded apply_event_def Let_def JStr json.case on_index_def]
  have b: "P tb'" if "rbind r (\<lambda>i. Inr (f i)) = Inr tb'" "\<And>i. P (f i)" for f :: "int \<Rightarrow> transcript" and r :: "py_error + int"
    using that by auto
  have c: "P tb'" if "Inr y = (Inr tb' :: py_error + transcript)" "P y" for y using that by simp
  show ?thesis
    by (insert step, elim if_eqE; (rule b, assumption | rule c, assumption); rule assms(2-))
qed (use assms(1,2) in \<open>simp_all add: apply_event_def Let_def\<close>)

lemma valid_apply: "apply_event ev tb = Inr tb' \<Longrightarrow> valid tb \<Longrightarrow> valid tb'"
  by (induction rule: apply_event_cases)
    (simp_all add: valid_stops valid_block_stop valid_starts valid_deltas valid_uses valid_result valid_shown show_new_parts)

lemma valid_applies: "apply_events evs tb = Inr tb' \<Longrightarrow> valid tb \<Longrightarrow> valid tb'"
  by (induction evs arbitrary: tb) (auto dest: valid_apply)

lemma apply_events_app: "apply_events (xs @ ys) tb = rbind (apply_events xs tb) (apply_events ys)"
proof (induction xs arbitrary: tb)
  case (Cons x xs) then show ?case by (cases "apply_event x tb") auto
qed simp

lemma shows_stop: "tb_show_results (tool_use_stop i tb) = tb_show_results tb" "tb_show_results (block_stop i tb) = tb_show_results tb"
  by (auto simp: block_stop_def tool_use_stop_def thinking_stop_def text_stop_def update_at_def split: option.split)

lemma shows_pop: "tb_show_results (snd (subagent_pop i tb)) = tb_show_results tb"
proof -
  have "tb_show_results ((pop_one ^^ n) tb) = tb_show_results tb" for n by (induction n) (simp_all add: pop_one_def)
  then show ?thesis by (auto simp: subagent_pop_def Let_def pop_to_def pop_one_def split: option.split)
qed

lemma shows_place: "tb_show_results (snd (place_tool_call i n tb)) = tb_show_results tb"
  by (simp add: place_tool_call_def alloc_def show_new_parts update_at_def)

lemma shows_apply: "apply_event ev tb = Inr tb' \<Longrightarrow> tb_show_results tb' = tb_show_results tb"
proof (induction rule: apply_event_cases)
  case (tool_use_start i a n inp)
  have "tb_show_results (note_tool_name a n (if 0 \<le> i then block_stop i tb else tb)) = tb_show_results tb"
    by (simp add: note_tool_name_def shows_stop)
  with shows_place [of a n "note_tool_name a n (if 0 \<le> i then block_stop i tb else tb)"] show ?case
    by (auto simp: tool_use_start_def Let_def start_task_tool_def subagent_push_def show_new_parts split: prod.split)
next
  case (tool_use a n inp)
  with shows_place [of a n "note_tool_name a n tb"] show ?case
    by (auto simp: tool_use_def Let_def start_task_tool_def subagent_push_def show_new_parts note_tool_name_def update_at_def split: prod.split)
next
  case (tool_result a c e)
  have "tb_show_results (close_task a n tb) = tb_show_results tb" for n
    using shows_pop [of a tb] shows_pop [of "[]" "snd (subagent_pop a tb)"] by (auto simp: close_task_def Let_def split: prod.split)
  then show ?case by (simp add: tool_result_def Let_def show_new_parts)
qed (auto simp: shows_stop open_thinking_def open_text_def thinking_delta_def text_delta_def thinking_stop_def text_stop_def
    show_new_parts update_at_def Let_def split: option.split)

lemma shows_applies: "apply_events evs tb = Inr tb' \<Longrightarrow> tb_show_results tb' = tb_show_results tb"
  by (induction evs arbitrary: tb) (auto dest: shows_apply)

lemma shows_never: "apply_events evs (new_transcript False) = Inr tb \<Longrightarrow> \<not> tb_show_results tb"
  using shows_applies by (fastforce simp: new_transcript_def)

lemma valid_new: "valid (new_transcript show)"
  by (simp add: valid_def new_transcript_def)


section \<open>Inside a task\<close>

definition call_name :: "jdict \<Rightarrow> string" where
  "call_name ev = str_or (jget_default ev ''name'' (JStr [])) ''tool''"

definition is_call :: "jdict \<Rightarrow> bool" where
  "is_call ev = (jget ev ''type'' = JStr ''tool_use'' \<or> jget ev ''type'' = JStr ''tool_use_start'')"

text \<open>Events between a task and its result: no other task, no result that matches an open one, no error.\<close>

definition inside_task :: "string list \<Rightarrow> jdict \<Rightarrow> bool" where
  "inside_task stack ev =
     (case jget ev ''type'' of
        JStr et \<Rightarrow>
          (if et = ''tool_use'' \<or> et = ''tool_use_start'' then call_name ev \<noteq> ''Task''
           else if et = ''tool_result''
           then list_all (\<lambda>s. \<not> ids_roughly_match s (py_strip (str_or (jget_default ev ''tool_use_id'' (JStr [])) []))) stack
           else et \<noteq> ''error'')
      | _ \<Rightarrow> True)"

definition within :: "transcript \<Rightarrow> string \<Rightarrow> string \<Rightarrow> string list \<Rightarrow> transcript \<Rightarrow> bool" where
  "within tb tid heading calls now \<longleftrightarrow>
     (let n = length (tb_store tb)
      in \<not> tb_show_results now \<and> tb_stack now = tb_stack tb @ [tid] \<and> tb_subagents now = tb_subagents tb @ [n] \<and>
         tb_segments now = tb_segments tb @ [n] \<and> n < length (tb_store now) \<and>
         (\<forall>b < n. close_call (tb_store now ! b) = close_call (tb_store tb ! b)) \<and>
         (\<exists>current. tb_store now ! n = SubagentSegment heading (length calls) (fold List.insert calls []) current))"

lemma close_call_idem [simp]: "close_call (close_call seg) = close_call seg"
  by (cases seg) auto

lemma within_dicts [simp]:
  "within tb tid h calls (now\<lparr>tb_text := d\<rparr>) = within tb tid h calls now"
  "within tb tid h calls (now\<lparr>tb_thinking := d\<rparr>) = within tb tid h calls now"
  "within tb tid h calls (now\<lparr>tb_tools := d\<rparr>) = within tb tid h calls now"
  "within tb tid h calls (now\<lparr>tb_names := ns\<rparr>) = within tb tid h calls now"
  by (simp_all add: within_def)

lemma closed_nth: "close_call (xs[a := close_call (xs ! a)] ! b) = close_call (xs ! b)"
proof (cases "a = b \<and> b < length xs")
  case True then show ?thesis by simp
next
  case False then show ?thesis by (cases "a = b") (simp_all add: list_update_beyond)
qed

lemma closed_subagent:
  assumes "xs ! b = SubagentSegment h n names c"
  shows "xs[a := close_call (xs ! a)] ! b = SubagentSegment h n names c"
proof (cases "a = b \<and> b < length xs")
  case True then show ?thesis using assms by simp
next
  case False then show ?thesis using assms by (cases "a = b") (simp_all add: list_update_beyond)
qed

lemma within_close: "within tb tid h calls now \<Longrightarrow> within tb tid h calls (update_at a close_call now)"
  unfolding within_def Let_def update_at_def by (auto simp: closed_nth closed_subagent)

lemma within_stops:
  assumes "within tb tid h calls now"
  shows "within tb tid h calls (tool_use_stop i now)" "within tb tid h calls (block_stop i now)"
    "within tb tid h calls (thinking_stop i now)" "within tb tid h calls (text_stop i now)"
  using within_close [of tb tid h calls "now\<lparr>tb_tools := ddel i (tb_tools now)\<rparr>"] assms
  by (auto simp: tool_use_stop_def block_stop_def thinking_stop_def text_stop_def split: option.split)

lemma within_note: "within tb tid h calls now \<Longrightarrow> within tb tid h calls (note_tool_name i n now)"
  by (simp add: note_tool_name_def)

lemma within_place:
  assumes "within tb tid h calls now" "name \<noteq> []"
  shows "within tb tid h (calls @ [name]) (snd (place_tool_call i name now))"
proof -
  let ?n = "length (tb_store tb)"
  have "in_subagent now" "tb_subagents now \<noteq> []" "last (tb_subagents now) = ?n" "?n < length (tb_store now)"
    using assms(1) by (auto simp: within_def Let_def in_subagent_def)
  then show ?thesis using assms
    by (auto simp: within_def Let_def place_tool_call_def alloc_def update_at_def set_current_tool_def or_else_def nth_list_update nth_append)
qed

lemma if_eq_cases: "(if c then x else y) = z \<Longrightarrow> (c \<Longrightarrow> x = z \<Longrightarrow> R) \<Longrightarrow> (\<not> c \<Longrightarrow> y = z \<Longrightarrow> R) \<Longrightarrow> R"
  by (cases c) auto

lemma within_uses:
  assumes "within tb tid h calls now" "name \<noteq> []" "name \<noteq> ''Task''"
  shows "within tb tid h (calls @ [name]) (tool_use_start i a name inp now)" "within tb tid h (calls @ [name]) (tool_use a name inp now)"
proof -
  have "within tb tid h calls (note_tool_name a name (if 0 \<le> i then block_stop i now else now))"
    using assms(1) by (simp add: within_note within_stops)
  from within_place [OF this assms(2), of a] assms(3) show "within tb tid h (calls @ [name]) (tool_use_start i a name inp now)"
    by (auto simp: tool_use_start_def Let_def split: prod.split)
  from within_close [OF within_place [OF within_note [OF assms(1)] assms(2)]] assms(3)
  show "within tb tid h (calls @ [name]) (tool_use a name inp now)"
    by (auto simp: tool_use_def Let_def split: prod.split) (metis fst_conv snd_conv)
qed

lemma find_none: "List.find P xs = None \<longleftrightarrow> list_all (\<lambda>x. \<not> P x) xs"
  by (induction xs) auto

lemma no_match_no_pop:
  assumes "list_all (\<lambda>s. \<not> ids_roughly_match s (py_strip a)) (tb_stack now)" "tb_stack now \<noteq> []"
    "\<not> py_startswith (last (tb_stack now)) ''__task_''"
  shows "subagent_pop a now = (False, now)"
proof -
  have "\<not> ids_roughly_match (last (tb_stack now)) (py_strip a)" using assms(1,2) by (simp add: list_all_iff)
  moreover have "matching_depth (py_strip a) (tb_stack now) = None"
    using assms(1) by (auto simp: matching_depth_def find_none list_all_iff)
  ultimately show ?thesis using assms(2,3) by (simp add: subagent_pop_def Let_def)
qed

lemma str_or_nonempty: "d \<noteq> [] \<Longrightarrow> str_or j d \<noteq> []"
  by (cases j) (auto simp: str_or_def py_str_def int_str_def float_truthy_def)

lemma within_result:
  assumes "within tb tid h calls now" "\<not> py_startswith tid ''__task_''"
    and "list_all (\<lambda>s. \<not> ids_roughly_match s (py_strip a)) (tb_stack tb @ [tid])"
  shows "tool_result a c e now = now"
proof -
  have w: "tb_stack now = tb_stack tb @ [tid]" "\<not> tb_show_results now" using assms(1) by (simp_all add: within_def Let_def)
  have "subagent_pop a now = (False, now)" by (rule no_match_no_pop) (use assms(2,3) w in simp_all)
  then show ?thesis using w assms(2) by (simp add: tool_result_def close_task_def Let_def)
qed

lemma within_step:
  assumes "apply_event ev now = Inr now'" "within tb tid h calls now" "\<not> py_startswith tid ''__task_''"
    and "inside_task (tb_stack tb @ [tid]) ev"
  shows "within tb tid h (calls @ (if is_call ev then [call_name ev] else [])) now'"
proof (cases "jget ev ''type''")
  case (JStr et)
  have s: "in_subagent now" using assms(2) by (auto simp: within_def Let_def in_subagent_def)
  let ?goal = "\<lambda>now'. within tb tid h (calls @ (if is_call ev then [call_name ev] else [])) now'"
  have n: "call_name ev \<noteq> []" by (simp add: call_name_def str_or_nonempty)
  note step = assms(1) [unfolded apply_event_def Let_def JStr json.case on_index_def call_name_def [symmetric]]
  have nc: "et \<noteq> ''tool_use'' \<Longrightarrow> et \<noteq> ''tool_use_start'' \<Longrightarrow> ?goal x = within tb tid h calls x" for x
    by (simp add: is_call_def JStr)
  show ?thesis
  proof (rule if_eq_cases [OF step])
    assume c: "in_subagent now \<and> et \<in> set SUPPRESSED_TYPES" and e: "Inr now = (Inr now' :: py_error + transcript)"
    from c have "et \<noteq> ''tool_use''" "et \<noteq> ''tool_use_start''" by (auto simp: SUPPRESSED_TYPES_def)
    with e nc assms(2) show ?thesis by simp
  next
    assume "\<not> (in_subagent now \<and> et \<in> set SUPPRESSED_TYPES)"
    with s have ns: "et \<notin> set SUPPRESSED_TYPES" by simp
    consider "et = ''thinking_stop''" | "et = ''text_stop''" | "et = ''tool_use_start''" | "et = ''tool_use_stop''" | "et = ''block_stop''"
      | "et = ''tool_use''" | "et = ''tool_result''" | "et = ''error''"
      | "\<not> (et = ''thinking_stop'' \<or> et = ''text_stop'' \<or> et = ''tool_use_start'' \<or> et = ''tool_use_stop'' \<or> et = ''block_stop'' \<or>
           et = ''tool_use'' \<or> et = ''tool_result'' \<or> et = ''error'')"
      by argo
    then show ?thesis
    proof cases
      case 1
      with step obtain i where "now' = thinking_stop i now" by (auto simp: SUPPRESSED_TYPES_def)
      with 1 nc assms(2) show ?thesis by (simp add: within_stops)
    next
      case 2
      with step obtain i where "now' = text_stop i now" by (auto simp: SUPPRESSED_TYPES_def)
      with 2 nc assms(2) show ?thesis by (simp add: within_stops)
    next
      case 3
      with assms(4) have "call_name ev \<noteq> ''Task''" by (simp add: inside_task_def JStr)
      moreover from 3 step obtain i a where "now' = tool_use_start i a (call_name ev) (jget ev ''input'') now" by (auto simp: SUPPRESSED_TYPES_def)
      ultimately show ?thesis using 3 n assms(2) by (simp add: is_call_def JStr within_uses)
    next
      case 4
      with step obtain i where "now' = tool_use_stop i now" by (auto simp: SUPPRESSED_TYPES_def)
      with 4 nc assms(2) show ?thesis by (simp add: within_stops)
    next
      case 5
      with step obtain i where "now' = block_stop i now" by (auto simp: SUPPRESSED_TYPES_def)
      with 5 nc assms(2) show ?thesis by (simp add: within_stops)
    next
      case 6
      with assms(4) have "call_name ev \<noteq> ''Task''" by (simp add: inside_task_def JStr)
      moreover from 6 step obtain a where "now' = tool_use a (call_name ev) (jget ev ''input'') now" by (auto simp: SUPPRESSED_TYPES_def)
      ultimately show ?thesis using 6 n assms(2) by (simp add: is_call_def JStr within_uses)
    next
      case 7
      with assms(4) have "list_all (\<lambda>s. \<not> ids_roughly_match s (py_strip (py_strip (str_or (jget_default ev ''tool_use_id'' (JStr [])) [])))) (tb_stack tb @ [tid])"
        by (simp add: inside_task_def JStr)
      from within_result [OF assms(2,3) this] 7 step have "now' = now" by (simp add: SUPPRESSED_TYPES_def)
      with 7 nc assms(2) show ?thesis by simp
    next
      case 8 with assms(4) show ?thesis by (simp add: inside_task_def JStr)
    next
      case 9
      with step ns have "now' = now" by (auto simp: SUPPRESSED_TYPES_def)
      with 9 nc assms(2) show ?thesis by auto
    qed
  qed
qed (use assms(1,2) in \<open>simp_all add: apply_event_def Let_def is_call_def\<close>)

lemma within_steps:
  "apply_events evs now = Inr now' \<Longrightarrow> within tb tid h calls now \<Longrightarrow> \<not> py_startswith tid ''__task_'' \<Longrightarrow>
   list_all (inside_task (tb_stack tb @ [tid])) evs \<Longrightarrow> within tb tid h (calls @ map call_name (filter is_call evs)) now'"
proof (induction evs arbitrary: now calls)
  case (Cons ev evs)
  then obtain mid where mid: "apply_event ev now = Inr mid" "apply_events evs mid = Inr now'" by auto
  have "within tb tid h (calls @ (if is_call ev then [call_name ev] else [])) mid"
    by (rule within_step [OF mid(1) Cons.prems(2,3)]) (use Cons.prems(4) in simp)
  from Cons.IH [OF mid(2) this Cons.prems(3)] Cons.prems(4) show ?case by (simp split: if_splits)
qed simp


section \<open>What a task shows\<close>

lemma render_call_view:
  assumes "close_call s' = close_call s"
  shows "(case s' of ToolCallSegment _ name _ indent \<Rightarrow> [render_call ic ctx name indent] | _ \<Rightarrow> []) =
    (case s of ToolCallSegment _ name _ indent \<Rightarrow> [render_call ic ctx name indent] | _ \<Rightarrow> [])"
  using assms by (cases s; cases s') auto

lemma render_view:
  assumes "close_call s' = close_call s" "refers n s" "\<And>b. b < n \<Longrightarrow> close_call (st' ! b) = close_call (st ! b)"
  shows "render_segment ic ctx st' s' = render_segment ic ctx st s"
proof (cases s)
  case (SubagentSegment h k names current)
  then have s': "s' = s" using assms(1) by (cases s') auto
  have "render_subagent ic ctx st' h k names current = render_subagent ic ctx st h k names current"
    using assms(2) SubagentSegment render_call_view [OF assms(3)] by (cases current) (simp_all add: render_subagent_def)
  with s' SubagentSegment show ?thesis by simp
qed (use assms(1) in \<open>cases s'; auto\<close>)+

lemma render_subagent_nonempty [simp]: "render_subagent ic ctx st h k names current \<noteq> []"
  by (auto simp: render_subagent_def Let_def split: option.split chat_segment.split)

lemma rendered_old:
  assumes "valid tb" "\<forall>b < length (tb_store tb). close_call (st' ! b) = close_call (tb_store tb ! b)"
  shows "map (\<lambda>a. render_segment ic ctx st' (st' ! a)) (tb_segments tb) =
    map (\<lambda>a. render_segment ic ctx (tb_store tb) (tb_store tb ! a)) (tb_segments tb)"
proof (rule map_cong [OF refl])
  fix a assume a: "a \<in> set (tb_segments tb)"
  then have l: "a < length (tb_store tb)" using assms(1) by (auto simp: valid_def Let_def)
  then have "refers (length (tb_store tb)) (tb_store tb ! a)" using assms(1) by (auto simp: valid_def Let_def)
  from render_view [OF _ this] assms(2) l show "render_segment ic ctx st' (st' ! a) = render_segment ic ctx (tb_store tb) (tb_store tb ! a)"
    by blast
qed

lemma rendered_parts_map:
  "rendered_parts ic ctx tb = filter (\<lambda>out. out \<noteq> []) (List.map_filter id (map (\<lambda>a. render_segment ic ctx (tb_store tb) (tb_store tb ! a)) (tb_segments tb)))"
  by (simp add: rendered_parts_def List.map_filter_def comp_def filter_map)

lemma within_rendered:
  assumes "within tb tid h calls now" "valid tb"
  shows "\<exists>current. rendered_parts ic ctx now =
    rendered_parts ic ctx tb @ [render_subagent ic ctx (tb_store now) h (length calls) (fold List.insert calls []) current]"
proof -
  let ?n = "length (tb_store tb)"
  obtain current where n: "tb_store now ! ?n = SubagentSegment h (length calls) (fold List.insert calls []) current"
    and seg: "tb_segments now = tb_segments tb @ [?n]" and old: "\<forall>b < ?n. close_call (tb_store now ! b) = close_call (tb_store tb ! b)"
    using assms(1) by (auto simp: within_def Let_def)
  show ?thesis
    unfolding rendered_parts_map seg map_append rendered_old [OF assms(2) old] using n by (auto simp: List.map_filter_def)
qed

definition task_call :: "string \<Rightarrow> json \<Rightarrow> jdict" where
  "task_call tid inp = [(''type'', JStr ''tool_use''), (''id'', JStr tid), (''name'', JStr ''Task''), (''input'', inp)]"

definition task_done :: "string \<Rightarrow> json \<Rightarrow> jdict" where
  "task_done tid content = [(''type'', JStr ''tool_result''), (''tool_use_id'', JStr tid), (''content'', content)]"

lemma heading_nonempty: "or_else (task_heading_from_input inp) d = task_heading_from_input inp"
  by (auto simp: or_else_def task_heading_from_input_def Let_def split: json.splits)

lemma task_opens:
  assumes "apply_event (task_call tid inp) tb = Inr now" "\<not> tb_show_results tb" "valid tb" "tid \<noteq> []" "py_strip tid = tid"
  shows "within tb tid (task_heading_from_input inp) [] now"
proof -
  have "str_or (JStr tid) [] = tid" "str_or (JStr ''Task'') ''tool'' = ''Task''" by (simp_all add: str_or_def py_str_def)
  with assms(1,5) have "now = start_task_tool tid inp (note_tool_name tid ''Task'' tb)"
    by (simp add: apply_event_def Let_def task_call_def SUPPRESSED_TYPES_def tool_use_def)
  with assms(2,4,5) show ?thesis
    by (simp add: within_def Let_def start_task_tool_def show_new_parts subagent_push_def note_tool_name_def or_else_def new_subagent_def
        heading_nonempty [unfolded or_else_def] nth_append)
qed

lemma task_closes:
  assumes "apply_event (task_done tid content) now = Inr tb'" "within tb tid h calls now" "tid \<noteq> []" "py_strip tid = tid"
  shows "tb' = pop_one now" "tb_stack tb' = tb_stack tb"
proof -
  have w: "tb_stack now = tb_stack tb @ [tid]" "\<not> tb_show_results now" using assms(2) by (simp_all add: within_def Let_def)
  have i: "str_or (JStr tid) [] = tid" by (simp add: str_or_def py_str_def)
  have p: "subagent_pop tid now = (True, pop_one now)"
    using assms(3,4) w by (simp add: subagent_pop_def Let_def ids_roughly_match_def)
  then have "tool_result tid content False now = pop_one now"
    using w by (simp add: tool_result_def close_task_def Let_def pop_one_def)
  with assms(1,4) i show "tb' = pop_one now"
    by (simp add: apply_event_def Let_def task_done_def SUPPRESSED_TYPES_def truthy.simps)
  with w show "tb_stack tb' = tb_stack tb" by (simp add: pop_one_def)
qed



text \<open>A task whose subagent thinks, runs a command and gets its result.\<close>

definition example_task_events :: "jdict list" where
  "example_task_events =
     [[(''type'', JStr ''thinking_chunk''), (''text'', JStr ''hm'')],
      [(''type'', JStr ''tool_use''), (''id'', JStr ''toolu_b''), (''name'', JStr ''Bash'')],
      [(''type'', JStr ''tool_result''), (''tool_use_id'', JStr ''toolu_b''), (''content'', JStr ''ok'')],
      [(''type'', JStr ''text_chunk''), (''text'', JStr ''done'')]]"

definition plain_ctx :: render_ctx where
  "plain_ctx =
     \<lparr>bold = id, code_inline = id, escape_code = id, escape_text = id, render_markdown = Some,
      thinking_tail_max = Some 1000, tool_output_tail_max = Some 1600, text_tail_max = Some 2000\<rparr>"

definition plain_icons :: icons where
  "plain_icons = \<lparr>ic_thinking = ''T'', ic_tool = ''C'', ic_result = ''R'', ic_subagent = ''S'', ic_error = ''E''\<rparr>"

definition example_task_run :: "jdict list" where
  "example_task_run = task_call ''toolu_a'' (JObj [(''description'', JStr ''Look'')]) # example_task_events @ [task_done ''toolu_a'' (JStr ''ok'')]"


text \<open>
  A result whose id is a prefix of the task's id closes the task: providers that count their calls lose
  the rest of the subagent's work into the main transcript.
\<close>

lemma prefix_id_closes_task:
  "case apply_events
     [task_call ''call_10'' (JObj []), task_done ''call_1'' (JStr ''ok''), [(''type'', JStr ''text_chunk''), (''text'', JStr ''inner'')]]
     (new_transcript False) of
     Inr tb \<Rightarrow> tb_stack tb = [] \<and> tb_store tb ! 1 = TextSegment [''inner''] | Inl _ \<Rightarrow> False"
  by code_simp

text \<open>Two segments, of which the newer fits behind the marker.\<close>

lemma example_rendering:
  "case apply_events [[(''type'', JStr ''error''), (''message'', JStr ''first problem of the day'')],
       [(''type'', JStr ''error''), (''message'', JStr ''second'')]] (new_transcript False) of
     Inr tb \<Rightarrow> render_transcript plain_icons plain_ctx 40 None tb = ''... (truncated)'' @ [LF] @ ''E Error: second''
   | Inl _ \<Rightarrow> False"
  by code_simp

end
