(* ===== verification/Transcript_Shown.thy ===== *)
theory Transcript_Shown
  imports Cli_Events Transcript_Render Stream_Contracts
begin

text \<open>
  What a transcript shows.  Fed with the events of an Anthropic stream that satisfies the contract, it
  shows one segment for each text, thinking and tool block, in the order in which they open, with the text
  of the block's own deltas (\<open>transcript_shows_blocks\<close>); and its rendering never exceeds the limit of the
  platform (\<open>rendering_fits\<close>).
\<close>

section \<open>Frames as the agent prints them\<close>

text \<open>An event of a stream whose payload repeats its name, with string types, indexes from 0 and no \<open>Task\<close>.\<close>

definition is_jstr :: "json \<Rightarrow> bool" where
  "is_jstr j = (as_str j \<noteq> None)"

definition STREAM_EVENTS :: "string list" where
  "STREAM_EVENTS =
     [''message_start'', ''content_block_start'', ''content_block_delta'', ''content_block_stop'', ''message_delta'',
      ''message_stop'', ''ping'']"

definition cli_frame :: "'a frame_scheme \<Rightarrow> bool" where
  "cli_frame e =
     (jget (ev_data e) ''type'' = JStr (ev_name e) \<and> ev_name e \<in> set STREAM_EVENTS \<and>
      (case as_int (jget (ev_data e) ''index'') of Some i \<Rightarrow> 0 \<le> i | None \<Rightarrow> True) \<and>
      (if ev_name e = ''content_block_delta''
       then (case delta_of e of Some d \<Rightarrow> is_jstr (jget d ''type'') | None \<Rightarrow> True)
       else if ev_name e = ''content_block_start''
       then (case block_of e of
               Some b \<Rightarrow> is_jstr (jget b ''type'') \<and> str_or (jget_default b ''name'' (JStr [])) ''tool'' \<noteq> ''Task''
             | None \<Rightarrow> True)
       else True))"

definition cli_of :: "'a frame_scheme \<Rightarrow> jdict list" where
  "cli_of e = parse_cli_event (JObj (ev_data e))"

section \<open>The blocks of a stream\<close>

definition frame_index :: "'a frame_scheme \<Rightarrow> int" where
  "frame_index e = (case as_int (jget (ev_data e) ''index'') of Some i \<Rightarrow> i | None \<Rightarrow> 0)"

definition opened_segments :: "'a frame_scheme \<Rightarrow> chat_segment list" where
  "opened_segments e =
     (case block_of e of
        Some b \<Rightarrow>
          (if jget b ''type'' = JStr ''text'' then [TextSegment []]
           else if jget b ''type'' = JStr ''thinking'' then [ThinkingSegment []]
           else if jget b ''type'' = JStr ''tool_use''
           then [new_tool_call (stripped_id b ''id'') (str_or (jget_default b ''name'' (JStr [])) ''tool'') 0]
           else [])
      | None \<Rightarrow> [])"

definition frame_delta_text :: "'a frame_scheme \<Rightarrow> string" where
  "frame_delta_text e =
     (case delta_of e of
        Some d \<Rightarrow>
          (if jget d ''type'' = JStr ''text_delta'' then py_str (jget_default d ''text'' (JStr []))
           else if jget d ''type'' = JStr ''thinking_delta'' then py_str (jget_default d ''thinking'' (JStr []))
           else [])
      | None \<Rightarrow> [])"

text \<open>The texts of the deltas for an index, in order, and the segments of a stream.\<close>

definition delta_texts :: "int \<Rightarrow> 'a frame_scheme list \<Rightarrow> string list" where
  "delta_texts i frames =
     map frame_delta_text (filter (\<lambda>e. ev_name e = ''content_block_delta'' \<and> frame_index e = i) frames)"

definition block_segments :: "'a frame_scheme list \<Rightarrow> 'a frame_scheme \<Rightarrow> chat_segment list" where
  "block_segments frames e =
     (if ev_name e = ''content_block_start''
      then map (\<lambda>seg. close_call (fold append_text (delta_texts (frame_index e) frames) seg)) (opened_segments e) else [])"

section \<open>Segments by index\<close>

text \<open>The same, built event by event as a list of segments with the index of their block.\<close>

definition at_index :: "int \<Rightarrow> (chat_segment \<Rightarrow> chat_segment) \<Rightarrow> (int \<times> chat_segment) list \<Rightarrow> (int \<times> chat_segment) list" where
  "at_index i f L = map (\<lambda>(j, seg). (j, if j = i then f seg else seg)) L"

definition list_step :: "'a frame_scheme \<Rightarrow> (int \<times> chat_segment) list \<Rightarrow> (int \<times> chat_segment) list" where
  "list_step e L =
     (if ev_name e = ''content_block_start'' then L @ map (Pair (frame_index e)) (opened_segments e)
      else if ev_name e = ''content_block_delta'' then at_index (frame_index e) (append_text (frame_delta_text e)) L
      else if ev_name e = ''content_block_stop'' then at_index (frame_index e) close_call L
      else L)"

lemma append_text_nil [simp]: "append_text [] seg = seg"
  by (cases seg) auto

lemma at_index_simps [simp]:
  "map fst (at_index i f L) = map fst L" "fst ` set (at_index i f L) = fst ` set L" "length (at_index i f L) = length L"
  "at_index i (append_text []) L = L"
  by (auto simp: at_index_def image_image split_def intro!: map_idI)

lemma at_index_nth: "a < length L \<Longrightarrow> at_index i f L ! a = (fst (L ! a), if fst (L ! a) = i then f (snd (L ! a)) else snd (L ! a))"
  by (simp add: at_index_def split_def)

lemma at_index_other: "i \<notin> fst ` set L \<Longrightarrow> at_index i f L = L"
  by (force simp: at_index_def intro!: map_idI)

lemma at_index_update:
  assumes "distinct (map fst L)" "a < length L" "fst (L ! a) = i"
  shows "map snd (at_index i f L) = (map snd L)[a := f (map snd L ! a)]"
proof (rule nth_equalityI)
  fix b assume b: "b < length (map snd (at_index i f L))"
  have "b = a \<longleftrightarrow> fst (L ! b) = i"
    using assms b nth_eq_iff_index_eq [OF assms(1), of b a] by auto
  with assms b show "map snd (at_index i f L) ! b = (map snd L)[a := f (map snd L ! a)] ! b"
    by (auto simp: at_index_nth nth_list_update)
qed simp

section \<open>The transcript keeps the list\<close>

definition seg_kind :: "chat_segment \<Rightarrow> string \<Rightarrow> bool" where
  "seg_kind seg k =
     (case seg of
        TextSegment _ \<Rightarrow> k = ''text'' \<or> k = ''text_eager''
      | ThinkingSegment _ \<Rightarrow> k = ''thinking''
      | ToolCallSegment _ _ _ _ \<Rightarrow> k = ''tool_use''
      | _ \<Rightarrow> False)"

lemma seg_kind_simps [simp]:
  "seg_kind (append_text t seg) k = seg_kind seg k" "seg_kind (close_call seg) k = seg_kind seg k"
  by (cases seg; simp add: seg_kind_def)+

definition indexed :: "(int, nat) dict \<Rightarrow> string set \<Rightarrow> check_state \<Rightarrow> (int \<times> chat_segment) list \<Rightarrow> bool" where
  "indexed d K c L \<longleftrightarrow>
     (\<forall>i a. map_of d i = Some a \<longleftrightarrow> (\<exists>k \<in> K. map_of (open_blocks c) i = Some k) \<and> a < length L \<and> fst (L ! a) = i)"

definition list_ok :: "check_state \<Rightarrow> (int \<times> chat_segment) list \<Rightarrow> bool" where
  "list_ok c L \<longleftrightarrow>
     distinct (map fst L) \<and> fst ` set L \<subseteq> seen_blocks c \<and>
     (\<forall>i seg k. (i, seg) \<in> set L \<and> map_of (open_blocks c) i = Some k \<longrightarrow> seg_kind seg k) \<and>
     (\<forall>i k. map_of (open_blocks c) i = Some k \<and> k \<in> {''text'', ''text_eager'', ''thinking'', ''tool_use''} \<longrightarrow> i \<in> fst ` set L)"

definition keeps_list :: "check_state \<Rightarrow> (int \<times> chat_segment) list \<Rightarrow> transcript \<Rightarrow> bool" where
  "keeps_list c L tb \<longleftrightarrow>
     list_ok c L \<and> tb_stack tb = [] \<and> tb_store tb = map snd L \<and> tb_segments tb = [0..<length L] \<and>
     indexed (tb_text tb) {''text'', ''text_eager''} c L \<and> indexed (tb_thinking tb) {''thinking''} c L \<and>
     indexed (tb_tools tb) {''tool_use''} c L"

lemma str_or_JStr: "str_or (JStr s) [] = s"
  by (simp add: str_or_def py_str_def)

lemma stripped_str_or [simp]: "py_strip (str_or (JStr (stripped_id d k)) []) = stripped_id d k"
  by (simp only: str_or_JStr stripped_id_def py_strip_idem)

lemma cli_typed_simps [simp]: "jget (cli_typed t d) k = (if k = ''type'' then JStr t else jget d k)"
  "jget_default (cli_typed t d) k v = (if k = ''type'' then JStr t else jget_default d k v)"
  by (auto simp: cli_typed_def)

lemma no_message: "jget d ''type'' = JStr t \<Longrightarrow> t \<notin> {''assistant'', ''user'', ''result''} \<Longrightarrow> cli_message_events (message_object d) = []"
  by (auto simp: message_object_def cli_message_events_def)

lemma ev_index_of:
  assumes "as_int (jget d ''index'') = Some i"
  shows "ev_index (cli_typed t (index_of d # r)) = Inr i"
proof -
  have "jget_default d ''index'' (JInt (-1)) = jget d ''index''"
    using assms by (auto simp: jget_def jget_default_def split: option.splits)
  with assms show ?thesis by (cases "jget d ''index''") (auto simp: ev_index_def index_of_def json_int_def)
qed

lemma indexed_keys: "indexed d K c L \<Longrightarrow> i \<in> set (dkeys d) \<longleftrightarrow> (\<exists>k \<in> K. map_of (open_blocks c) i = Some k) \<and> i \<in> fst ` set L"
proof -
  have "i \<in> set (dkeys d) \<longleftrightarrow> (\<exists>a. map_of d i = Some a)" using map_of_notin_iff [of d i] by (metis not_None_eq)
  moreover assume "indexed d K c L"
  moreover have "i \<in> fst ` set L \<longleftrightarrow> (\<exists>a < length L. fst (L ! a) = i)" unfolding set_map [symmetric] in_set_conv_nth by (metis length_map nth_map)
  ultimately show ?thesis unfolding indexed_def by blast
qed


section \<open>One frame\<close>

lemma indexed_at [simp]: "indexed d K c (at_index i f L) = indexed d K c L"
  by (auto simp: indexed_def at_index_nth)

lemma indexed_opened:
  assumes "indexed d K c L" "map_of (open_blocks c) i = None" "i \<notin> fst ` set L" "open_blocks c' = dset i k (open_blocks c)" "k \<in> K"
  shows "indexed (dset i (length L) d) K c' (L @ [(i, seg)])"
proof -
  have "fst (L ! a) \<noteq> i" if "a < length L" for a using assms(3) that nth_mem by blast
  then show ?thesis using assms by (auto simp: indexed_def dict_simps nth_append less_Suc_eq)
qed

lemma indexed_other:
  assumes "indexed d K c L" "map_of (open_blocks c) i = None" "open_blocks c' = dset i k (open_blocks c)" "k \<notin> K" "set (map fst xs) \<subseteq> {i}"
  shows "indexed d K c' (L @ xs)"
proof -
  have "fst ((L @ xs) ! a) = i" if "length L \<le> a" "a < length (L @ xs)" for a
  proof -
    have "(L @ xs) ! a \<in> set xs" using that nth_mem [of "a - length L" xs] by (simp add: nth_append)
    then show ?thesis using assms(5) by auto
  qed
  then have "a < length (L @ xs) \<and> fst ((L @ xs) ! a) = j \<longleftrightarrow> a < length L \<and> fst (L ! a) = j" if "j \<noteq> i" for a j
    using that by (auto simp: nth_append not_less)
  moreover have "map_of d i = None" using assms(1,2) unfolding indexed_def by (metis option.distinct(1) option.exhaust)
  ultimately show ?thesis using assms(1-4) unfolding indexed_def by (auto simp: dict_simps)
qed

lemma indexed_closed: "indexed d K c L \<Longrightarrow> open_blocks c' = ddel i (open_blocks c) \<Longrightarrow> indexed (ddel i d) K c' L"
  by (auto simp: indexed_def dict_simps)

lemma indexed_closed_other:
  "indexed d K c L \<Longrightarrow> open_blocks c' = ddel i (open_blocks c) \<Longrightarrow> map_of (open_blocks c) i = Some k \<Longrightarrow> k \<notin> K \<Longrightarrow> indexed d K c' L"
  by (auto simp: indexed_def dict_simps)

text \<open>The list of segments.\<close>

definition block_opens :: "int \<Rightarrow> string \<Rightarrow> check_state \<Rightarrow> check_state" where
  "block_opens i k c = c\<lparr>open_blocks := dset i k (open_blocks c), seen_blocks := insert i (seen_blocks c)\<rparr>"

definition block_closes :: "int \<Rightarrow> check_state \<Rightarrow> check_state" where
  "block_closes i c = c\<lparr>open_blocks := ddel i (open_blocks c)\<rparr>"

lemma open_close_sel [simp]:
  "open_blocks (block_opens i k c) = dset i k (open_blocks c)" "seen_blocks (block_opens i k c) = insert i (seen_blocks c)"
  "open_blocks (block_closes i c) = ddel i (open_blocks c)" "seen_blocks (block_closes i c) = seen_blocks c"
  by (simp_all add: block_opens_def block_closes_def)

lemma list_ok_new: "list_ok c L \<Longrightarrow> i \<notin> seen_blocks c \<Longrightarrow> i \<notin> fst ` set L"
  by (auto simp: list_ok_def)

lemma list_ok_opened:
  assumes "list_ok c L" "i \<notin> seen_blocks c" "seg_kind seg k"
  shows "list_ok (block_opens i k c) (L @ [(i, seg)])"
proof -
  have n: "i \<notin> fst ` set L" using assms(1,2) by (rule list_ok_new)
  with assms show ?thesis unfolding list_ok_def
    by (intro conjI) (auto simp: dict_simps split: if_splits)
qed

lemma list_ok_silent:
  assumes "list_ok c L" "i \<notin> seen_blocks c" "k \<notin> {''text'', ''text_eager'', ''thinking'', ''tool_use''}"
  shows "list_ok (block_opens i k c) L"
  using assms list_ok_new [OF assms(1,2)] unfolding list_ok_def
  by (intro conjI) (auto simp: dict_simps split: if_splits)

lemma list_ok_closed: "list_ok c L \<Longrightarrow> list_ok (block_closes i c) L"
  unfolding list_ok_def by (intro conjI) (auto simp: dict_simps)

lemma list_ok_at: "list_ok c L \<Longrightarrow> (\<And>seg k. seg_kind (f seg) k = seg_kind seg k) \<Longrightarrow> list_ok c (at_index i f L)"
proof -
  assume ok: "list_ok c L" and f: "\<And>seg k. seg_kind (f seg) k = seg_kind seg k"
  have "seg_kind seg k" if m: "(j, seg) \<in> set (at_index i f L)" and o: "map_of (open_blocks c) j = Some k" for j seg k
  proof -
    obtain seg0 where s: "(j, seg0) \<in> set L" "seg = (if j = i then f seg0 else seg0)" using m by (auto simp: at_index_def)
    with ok o have "seg_kind seg0 k" unfolding list_ok_def by blast
    with s(2) f show ?thesis by simp
  qed
  with ok show ?thesis unfolding list_ok_def at_index_simps by blast
qed

text \<open>A block opens.\<close>

lemma block_stop_closed:
  assumes "keeps_list c L tb" "i \<notin> set (dkeys (open_blocks c))"
  shows "block_stop i tb = tb"
proof -
  have "map_of (open_blocks c) i = None" using assms(2) map_of_notin_iff [of "open_blocks c" i] by simp
  then have "i \<notin> set (dkeys d)" if "indexed d K c L" for d K using indexed_keys [OF that] by simp
  with assms(1) have "i \<notin> set (dkeys (tb_tools tb))" "i \<notin> set (dkeys (tb_thinking tb))" "i \<notin> set (dkeys (tb_text tb))"
    unfolding keeps_list_def by blast+
  then show ?thesis by (simp add: block_stop_def)
qed

lemma keeps_opened:
  assumes "keeps_list c L tb" "i \<notin> seen_blocks c" "i \<notin> set (dkeys (open_blocks c))" "0 \<le> i"
  shows "k \<in> {''text'', ''text_eager''} \<Longrightarrow> keeps_list (block_opens i k c) (L @ [(i, TextSegment [])]) (open_text i tb)"
    and "keeps_list (block_opens i ''thinking'' c) (L @ [(i, ThinkingSegment [])]) (open_thinking i tb)"
    and "name \<noteq> ''Task'' \<Longrightarrow> keeps_list (block_opens i ''tool_use'' c) (L @ [(i, new_tool_call tool_id name 0)]) (tool_use_start i tool_id name inp tb)"
    and "k \<notin> {''text'', ''text_eager'', ''thinking'', ''tool_use''} \<Longrightarrow> keeps_list (block_opens i k c) L tb"
proof -
  have o: "map_of (open_blocks c) i = None" using assms(3) map_of_notin_iff [of "open_blocks c" i] by simp
  have K: "list_ok c L" "tb_stack tb = []" "tb_store tb = map snd L" "tb_segments tb = [0..<length L]"
    "indexed (tb_text tb) {''text'', ''text_eager''} c L" "indexed (tb_thinking tb) {''thinking''} c L" "indexed (tb_tools tb) {''tool_use''} c L"
    using assms(1) by (simp_all add: keeps_list_def)
  note n = list_ok_new [OF K(1) assms(2)]
  note s = block_stop_closed [OF assms(1,3)]
  have other: "indexed d K (block_opens i k c) (L @ xs)" if "indexed d K c L" "k \<notin> K" "set (map fst xs) \<subseteq> {i}" for d K k xs
    using indexed_other [OF that(1) o _ that(2,3)] by simp
  note same = indexed_opened [OF _ o n open_close_sel(1)]
  show "k \<in> {''text'', ''text_eager''} \<Longrightarrow> keeps_list (block_opens i k c) (L @ [(i, TextSegment [])]) (open_text i tb)"
    using K same [OF K(5), of k] list_ok_opened [OF K(1) assms(2), of "TextSegment []" k] assms(4)
    by (auto simp: keeps_list_def open_text_def s show_new_def alloc_def seg_kind_def intro!: other)
  show "keeps_list (block_opens i ''thinking'' c) (L @ [(i, ThinkingSegment [])]) (open_thinking i tb)"
    using K same [OF K(6), of "''thinking''"] list_ok_opened [OF K(1) assms(2), of "ThinkingSegment []" "''thinking''"] assms(4)
    by (auto simp: keeps_list_def open_thinking_def s show_new_def alloc_def seg_kind_def intro!: other)
  show "keeps_list (block_opens i ''tool_use'' c) (L @ [(i, new_tool_call tool_id name 0)]) (tool_use_start i tool_id name inp tb)" if "name \<noteq> ''Task''"
    using K same [OF K(7), of "''tool_use''"] list_ok_opened [OF K(1) assms(2), of "new_tool_call tool_id name 0" "''tool_use''"] assms(4) that
    by (auto simp: keeps_list_def tool_use_start_def s note_tool_name_def place_tool_call_def in_subagent_def show_new_def alloc_def
        seg_kind_def new_tool_call_def intro!: other)
  show "k \<notin> {''text'', ''text_eager'', ''thinking'', ''tool_use''} \<Longrightarrow> keeps_list (block_opens i k c) L tb"
    using K list_ok_silent [OF K(1) assms(2), of k] other [of _ _ k "[]"] by (auto simp: keeps_list_def)
qed

text \<open>A block closes.\<close>

lemma keeps_closed:
  assumes "keeps_list c L tb" "map_of (open_blocks c) i = Some k" "0 \<le> i"
  shows "keeps_list (block_closes i c) (at_index i close_call L) (block_stop i tb)"
proof -
  have K: "list_ok c L" "tb_stack tb = []" "tb_store tb = map snd L" "tb_segments tb = [0..<length L]"
    "indexed (tb_text tb) {''text'', ''text_eager''} c L" "indexed (tb_thinking tb) {''thinking''} c L" "indexed (tb_tools tb) {''tool_use''} c L"
    using assms(1) by (simp_all add: keeps_list_def)
  have d: "distinct (map fst L)" using K(1) by (simp add: list_ok_def)
  note ok = list_ok_at [OF list_ok_closed [OF K(1), of i], of close_call i]
  note same = indexed_closed [OF _ open_close_sel(3)]
  note other = indexed_closed_other [OF _ open_close_sel(3) assms(2)]
  have noop: "at_index i close_call L = L" if "k \<noteq> ''tool_use''"
  proof -
    have "close_call seg = seg" if "(i, seg) \<in> set L" for seg
    proof -
      have "seg_kind seg k" using K(1) that assms(2) unfolding list_ok_def by blast
      with \<open>k \<noteq> ''tool_use''\<close> show ?thesis by (cases seg) (auto simp: seg_kind_def)
    qed
    then show ?thesis by (force simp: at_index_def intro!: map_idI)
  qed
  have keys: "i \<in> set (dkeys (tb_tools tb)) \<longleftrightarrow> k = ''tool_use'' \<and> i \<in> fst ` set L"
    "i \<in> set (dkeys (tb_thinking tb)) \<longleftrightarrow> k = ''thinking'' \<and> i \<in> fst ` set L"
    "i \<in> set (dkeys (tb_text tb)) \<longleftrightarrow> k \<in> {''text'', ''text_eager''} \<and> i \<in> fst ` set L"
    using indexed_keys [OF K(7), of i] indexed_keys [OF K(6), of i] indexed_keys [OF K(5), of i] assms(2) by auto
  have mem: "k \<in> {''text'', ''text_eager'', ''thinking'', ''tool_use''} \<Longrightarrow> i \<in> fst ` set L"
    using K(1) assms(2) by (auto simp: list_ok_def)
  consider "k = ''tool_use''" | "k = ''thinking''" | "k \<in> {''text'', ''text_eager''}" | "k \<notin> {''text'', ''text_eager'', ''thinking'', ''tool_use''}"
    by blast
  then show ?thesis
  proof cases
    case 1
    then obtain a where a: "map_of (tb_tools tb) i = Some a" using keys(1) mem map_of_notin_iff [of "tb_tools tb" i] by auto
    then have p: "a < length L" "fst (L ! a) = i" using K(7) by (auto simp: indexed_def)
    have "block_stop i tb = tb\<lparr>tb_tools := ddel i (tb_tools tb), tb_store := map snd (at_index i close_call L)\<rparr>"
      using 1 a keys mem K(3) at_index_update [OF d p] by (simp add: block_stop_def tool_use_stop_def update_at_def)
    with 1 K ok same [OF K(7), of i] other show ?thesis by (auto simp: keeps_list_def)
  next
    case 2
    with keys mem assms(3) have "block_stop i tb = tb\<lparr>tb_thinking := ddel i (tb_thinking tb)\<rparr>" by (simp add: block_stop_def thinking_stop_def)
    with 2 K ok same [OF K(6), of i] other noop show ?thesis by (auto simp: keeps_list_def)
  next
    case 3
    with keys mem assms(3) have "block_stop i tb = tb\<lparr>tb_text := ddel i (tb_text tb)\<rparr>" by (auto simp: block_stop_def text_stop_def)
    with 3 K ok same [OF K(5), of i] other noop show ?thesis by (auto simp: keeps_list_def)
  next
    case 4
    then have "block_stop i tb = tb" using keys by (auto simp: block_stop_def)
    with 4 K ok other noop show ?thesis by (auto simp: keeps_list_def)
  qed
qed

text \<open>A delta.\<close>

lemma keeps_delta:
  assumes "keeps_list c L tb" "map_of (open_blocks c) i = Some k"
  shows "k = ''text'' \<Longrightarrow> keeps_list c (at_index i (append_text t) L) (text_delta i t tb)"
    and "k = ''thinking'' \<Longrightarrow> keeps_list c (at_index i (append_text t) L) (thinking_delta i t tb)"
proof -
  have K: "list_ok c L" "tb_store tb = map snd L"
    "indexed (tb_text tb) {''text'', ''text_eager''} c L" "indexed (tb_thinking tb) {''thinking''} c L"
    using assms(1) by (simp_all add: keeps_list_def)
  have d: "distinct (map fst L)" using K(1) by (simp add: list_ok_def)
  have mem: "k \<in> {''text'', ''thinking''} \<Longrightarrow> i \<in> fst ` set L" using K(1) assms(2) by (auto simp: list_ok_def)
  have upd: "update_at a (append_text t) tb = tb\<lparr>tb_store := map snd (at_index i (append_text t) L)\<rparr>" if "a < length L" "fst (L ! a) = i" for a
    using at_index_update [OF d that] by (simp add: update_at_def K(2))
  note ok = list_ok_at [OF K(1), of "append_text t" i]
  show "keeps_list c (at_index i (append_text t) L) (text_delta i t tb)" if k: "k = ''text''"
  proof -
    obtain a where a: "map_of (tb_text tb) i = Some a"
      using indexed_keys [OF K(3), of i] mem k assms(2) map_of_notin_iff [of "tb_text tb" i] by auto
    then have "a < length L" "fst (L ! a) = i" using K(3) by (auto simp: indexed_def)
    from a upd [OF this] ok assms(1) show ?thesis by (simp add: text_delta_def keeps_list_def)
  qed
  show "keeps_list c (at_index i (append_text t) L) (thinking_delta i t tb)" if k: "k = ''thinking''"
  proof -
    obtain a where a: "map_of (tb_thinking tb) i = Some a"
      using indexed_keys [OF K(4), of i] mem k assms(2) map_of_notin_iff [of "tb_thinking tb" i] by auto
    then have "a < length L" "fst (L ! a) = i" using K(4) by (auto simp: indexed_def)
    from a upd [OF this] ok assms(1) show ?thesis by (simp add: thinking_delta_def keeps_list_def)
  qed
qed


text \<open>What the parser and the transcript make of each frame.\<close>

lemma index_of_other [simp]: "k \<noteq> ''index'' \<Longrightarrow> jget (index_of d # r) k = jget r k"
  "k \<noteq> ''index'' \<Longrightarrow> jget_default (index_of d # r) k v = jget_default r k v"
  by (simp_all add: index_of_def)

lemma apply_indexed:
  assumes "tb_stack tb = []" "as_int (jget d ''index'') = Some i"
  shows "apply_event (cli_typed ''text_start'' [index_of d]) tb = Inr (open_text i tb)"
    and "apply_event (cli_typed ''thinking_start'' [index_of d]) tb = Inr (open_thinking i tb)"
    and "apply_event (cli_typed ''tool_use_start'' [index_of d, (''id'', JStr (stripped_id b k)), (''name'', n), (''input'', inp)]) tb =
      Inr (tool_use_start i (stripped_id b k) (str_or n ''tool'') inp tb)"
    and "apply_event (cli_typed ''text_delta'' [index_of d, (''text'', t)]) tb = Inr (text_delta i (py_str t) tb)"
    and "apply_event (cli_typed ''thinking_delta'' [index_of d, (''text'', t)]) tb = Inr (thinking_delta i (py_str t) tb)"
    and "apply_event (cli_typed ''block_stop'' [index_of d]) tb = Inr (block_stop i tb)"
    and "apply_event (cli_typed ''tool_use_delta'' [index_of d, (''partial_json'', t)]) tb = Inr tb"
  using assms by (simp_all add: apply_event_def on_index_def ev_index_of in_subagent_def Let_def)

lemma jget_default_str: "jget d k = JStr s \<Longrightarrow> jget_default d k v = JStr s"
  by (auto simp: jget_def jget_default_def split: option.splits)

lemma cli_frame_parts:
  assumes "cli_frame e"
  shows "jget (ev_data e) ''type'' = JStr (ev_name e)" "ev_name e \<in> set STREAM_EVENTS" "cli_message_events (message_object (ev_data e)) = []"
proof -
  show t: "jget (ev_data e) ''type'' = JStr (ev_name e)" "ev_name e \<in> set STREAM_EVENTS" using assms by (auto simp: cli_frame_def)
  show "cli_message_events (message_object (ev_data e)) = []"
    by (rule no_message [OF t(1)]) (use t(2) in \<open>auto simp: STREAM_EVENTS_def\<close>)
qed

lemma cli_of_frame:
  assumes "cli_frame e"
  shows "ev_name e = ''content_block_start'' \<Longrightarrow> cli_of e = start_events (ev_data e)"
    and "ev_name e = ''content_block_delta'' \<Longrightarrow> cli_of e = delta_events (ev_data e)"
    and "ev_name e = ''content_block_stop'' \<Longrightarrow> cli_of e = [cli_typed ''block_stop'' [index_of (ev_data e)]]"
    and "ev_name e \<notin> {''content_block_start'', ''content_block_delta'', ''content_block_stop''} \<Longrightarrow> cli_of e = []"
  using cli_frame_parts [OF assms] by (auto simp: cli_of_def parse_cli_event_def STREAM_EVENTS_def)

lemma shown_start_step:
  assumes "check_block_start c e = Inr c'" "cli_frame e" "keeps_list c L tb" "ev_name e = ''content_block_start''"
  shows "\<exists>tb'. apply_events (cli_of e) tb = Inr tb' \<and> keeps_list c' (list_step e L) tb'"
proof -
  obtain i b where i: "as_int (jget (ev_data e) ''index'') = Some i" and b: "block_of e = Some b"
    and new: "i \<notin> set (dkeys (open_blocks c))" "i \<notin> seen_blocks c"
    using assms(1) by (auto simp: check_block_start_def event_index_def block_of_def Let_def split: option.splits if_splits)
  from b assms(2,4) obtain t where t: "jget b ''type'' = JStr t" and task: "str_or (jget_default b ''name'' (JStr [])) ''tool'' \<noteq> ''Task''"
    by (cases "jget b ''type''") (auto simp: cli_frame_def is_jstr_def)
  have pos: "0 \<le> i" and fi: "frame_index e = i" using assms(2) i by (auto simp: cli_frame_def frame_index_def)
  have block: "jget_default (ev_data e) ''content_block'' (JObj []) = JObj b"
    using b by (cases "jget_default (ev_data e) ''content_block'' (JObj [])") (auto simp: block_of_def)
  define k where "k = (if t = ''text'' \<and> py_strip (py_str (jget_default b ''text'' (JStr []))) \<noteq> [] then ''text_eager'' else t)"
  have c': "c' = block_opens i k c" and al: "t \<in> set ALLOWED_BLOCK_START_TYPES"
    using assms(1) i new block jget_default_str [OF t, of "JStr []"]
    by (auto simp: check_block_start_def event_index_def Let_def k_def block_opens_def py_str_def split: if_splits)
  have stack: "tb_stack tb = []" using assms(3) by (simp add: keeps_list_def)
  note keep = keeps_opened [OF assms(3) new(2,1) pos] and ap = apply_indexed [OF stack i]
  note step = list_step_def opened_segments_def
  consider "t = ''text''" | "t = ''thinking''" | "t = ''tool_use''" | "t \<notin> {''text'', ''thinking'', ''tool_use''}" by blast
  then show ?thesis
  proof cases
    case 1
    with t block have "cli_of e = [cli_typed ''text_start'' [index_of (ev_data e)]]"
      by (simp add: cli_of_frame(1) [OF assms(2,4)] start_events_def)
    moreover have "k \<in> {''text'', ''text_eager''}" using 1 by (simp add: k_def)
    ultimately show ?thesis using keep(1) [of k] 1 t b fi ap(1) assms(4) by (simp add: step c')
  next
    case 2
    with t block have "cli_of e = [cli_typed ''thinking_start'' [index_of (ev_data e)]]"
      by (simp add: cli_of_frame(1) [OF assms(2,4)] start_events_def)
    then show ?thesis using keep(2) 2 t b fi ap(2) assms(4) by (simp add: step c' k_def)
  next
    case 3
    with t block have "cli_of e = [cli_typed ''tool_use_start'' [index_of (ev_data e), (''id'', JStr (stripped_id b ''id'')),
        (''name'', jget_default b ''name'' (JStr [])), (''input'', jget b ''input'')]]"
      by (simp add: cli_of_frame(1) [OF assms(2,4)] start_events_def)
    then show ?thesis using keep(3) [OF task, of "stripped_id b ''id''" "jget b ''input''"] 3 t b fi ap(3) assms(4)
      by (simp add: step c' k_def)
  next
    case 4
    with t block have "cli_of e = []" by (simp add: cli_of_frame(1) [OF assms(2,4)] start_events_def)
    moreover have "k \<notin> {''text'', ''text_eager'', ''thinking'', ''tool_use''}"
      using 4 al by (auto simp: k_def ALLOWED_BLOCK_START_TYPES_def SERVER_TOOL_USE_def WEB_SEARCH_TOOL_RESULT_def WEB_FETCH_TOOL_RESULT_def)
    ultimately show ?thesis using keep(4) [of k] 4 t b fi assms(4) by (simp add: step c')
  qed
qed

lemma shown_delta_step:
  assumes "check_block_delta c e = Inr c'" "cli_frame e" "keeps_list c L tb" "ev_name e = ''content_block_delta''"
  shows "\<exists>tb'. apply_events (cli_of e) tb = Inr tb' \<and> keeps_list c' (list_step e L) tb'"
proof -
  obtain i where ei: "event_index e = Inr i" using assms(1) by (cases "event_index e") (auto simp: check_block_delta_def)
  then have i: "as_int (jget (ev_data e) ''index'') = Some i" by (auto simp: event_index_def split: option.splits)
  obtain k where k: "map_of (open_blocks c) i = Some k"
    using assms(1) ei by (cases "map_of (open_blocks c) i") (simp_all add: check_block_delta_def)
  have nd: "k \<notin> set NO_DELTA_BLOCK_KINDS" using assms(1) ei k by (cases "k \<in> set NO_DELTA_BLOCK_KINDS") (simp_all add: check_block_delta_def)
  obtain d where d: "delta_of e = Some d"
    using assms(1) ei k nd by (cases "delta_of e") (simp_all add: check_block_delta_def delta_of_def)
  from d assms(2,4) obtain t where t: "jget d ''type'' = JStr t" by (cases "jget d ''type''") (auto simp: cli_frame_def is_jstr_def)
  have fi: "frame_index e = i" using i by (simp add: frame_index_def)
  have delta: "jget_default (ev_data e) ''delta'' (JObj []) = JObj d"
    using d by (cases "jget_default (ev_data e) ''delta'' (JObj [])") (auto simp: delta_of_def)
  have "(if k = ''thinking'' then (if t = ''thinking_delta'' \<or> t = ''signature_delta'' then Inr c else Inl (WrongDeltaType i t))
      else case map_of expected_delta k of None \<Rightarrow> Inl (NoExpectedDelta k)
        | Some expected \<Rightarrow> if t = expected then Inr c else Inl (WrongDeltaType i t)) = Inr c'"
    using assms(1) ei k nd delta jget_default_str [OF t, of "JStr []"] by (simp add: check_block_delta_def py_str_def)
  then have c': "c' = c" and kt: "k = ''thinking'' \<and> (t = ''thinking_delta'' \<or> t = ''signature_delta'') \<or> k = ''text'' \<and> t = ''text_delta'' \<or>
      k = ''tool_use'' \<and> t = ''input_json_delta''"
    by (auto simp: expected_delta_def split: if_splits option.splits)
  have stack: "tb_stack tb = []" using assms(3) by (simp add: keeps_list_def)
  note keep = keeps_delta [OF assms(3) k] and ap = apply_indexed [OF stack i]
  note step = list_step_def frame_delta_text_def d t fi assms(4) c'
  note cli = cli_of_frame(2) [OF assms(2,4)] delta_events_def delta t
  from kt consider "k = ''thinking''" "t = ''thinking_delta''" | "t = ''signature_delta''" | "k = ''text''" "t = ''text_delta''" | "t = ''input_json_delta''"
    by blast
  then show ?thesis
  proof cases
    case 1 then show ?thesis using keep(2) ap(5) by (simp add: cli step)
  next
    case 2 then show ?thesis using assms(3) by (simp add: cli step)
  next
    case 3 then show ?thesis using keep(1) ap(4) by (simp add: cli step)
  next
    case 4 then show ?thesis using assms(3) ap(7) by (simp add: cli step)
  qed
qed

lemma shown_stop_step:
  assumes "check_block_stop c e = Inr c'" "cli_frame e" "keeps_list c L tb" "ev_name e = ''content_block_stop''"
  shows "\<exists>tb'. apply_events (cli_of e) tb = Inr tb' \<and> keeps_list c' (list_step e L) tb'"
proof -
  obtain i where i: "as_int (jget (ev_data e) ''index'') = Some i" and o: "i \<in> set (dkeys (open_blocks c))" and c': "c' = block_closes i c"
    using assms(1) by (auto simp: check_block_stop_def event_index_def block_closes_def split: option.splits if_splits)
  have pos: "0 \<le> i" and fi: "frame_index e = i" using assms(2) i by (auto simp: cli_frame_def frame_index_def)
  have stack: "tb_stack tb = []" using assms(3) by (simp add: keeps_list_def)
  obtain k where "map_of (open_blocks c) i = Some k" using o map_of_notin_iff [of "open_blocks c" i] by auto
  from keeps_closed [OF assms(3) this pos] apply_indexed(6) [OF stack i] show ?thesis
    by (simp add: cli_of_frame(3) [OF assms(2,4)] list_step_def assms(4) fi c')
qed

lemma frame_step:
  assumes "check_event False c e = Inr c'" "cli_frame e" "keeps_list c L tb"
  shows "\<exists>tb'. apply_events (cli_of e) tb = Inr tb' \<and> keeps_list c' (list_step e L) tb'"
proof -
  consider "ev_name e = ''content_block_start''" | "ev_name e = ''content_block_delta''" | "ev_name e = ''content_block_stop''"
    | "ev_name e \<notin> {''content_block_start'', ''content_block_delta'', ''content_block_stop''}" by blast
  then show ?thesis
  proof cases
    case 1 then show ?thesis using assms shown_start_step by (simp add: check_event_def)
  next
    case 2 then show ?thesis using assms shown_delta_step by (simp add: check_event_def)
  next
    case 3 then show ?thesis using assms shown_stop_step by (simp add: check_event_def)
  next
    case 4
    then have "c' = c" using assms(1) by (auto simp: check_event_def split: if_splits)
    with 4 show ?thesis using assms(3) by (simp add: cli_of_frame(4) [OF assms(2) 4] list_step_def)
  qed
qed

lemma frames_steps:
  "check_events False c fs = Inr c' \<Longrightarrow> list_all cli_frame fs \<Longrightarrow> keeps_list c L tb \<Longrightarrow>
   \<exists>tb'. apply_events (concat (map cli_of fs)) tb = Inr tb' \<and> keeps_list c' (fold list_step fs L) tb'"
proof (induction fs arbitrary: c L tb)
  case (Cons f fs)
  then obtain c1 where c1: "check_event False c f = Inr c1" "check_events False c1 fs = Inr c'" by auto
  from frame_step [OF c1(1) _ Cons.prems(3)] Cons.prems(2)
  obtain tb1 where "apply_events (cli_of f) tb = Inr tb1" "keeps_list c1 (list_step f L) tb1" by auto
  with Cons.IH [OF c1(2) _ this(2)] Cons.prems(2) show ?case by (simp add: apply_events_app)
qed simp


section \<open>The list in closed form\<close>

definition so_far :: "check_state \<Rightarrow> int \<Rightarrow> chat_segment \<Rightarrow> chat_segment" where
  "so_far c i seg = (if i \<in> set (dkeys (open_blocks c)) then seg else close_call seg)"

definition listed :: "check_state \<Rightarrow> 'a frame_scheme list \<Rightarrow> 'a frame_scheme \<Rightarrow> (int \<times> chat_segment) list" where
  "listed c fs e =
     (if ev_name e = ''content_block_start''
      then map (\<lambda>seg. (frame_index e, so_far c (frame_index e) (fold append_text (delta_texts (frame_index e) fs) seg))) (opened_segments e)
      else [])"

definition seen_only :: "check_state \<Rightarrow> 'a frame_scheme list \<Rightarrow> bool" where
  "seen_only c fs \<longleftrightarrow>
     (\<forall>e \<in> set fs. ev_name e = ''content_block_start'' \<or> ev_name e = ''content_block_delta'' \<longrightarrow> frame_index e \<in> seen_blocks c) \<and>
     set (dkeys (open_blocks c)) \<subseteq> seen_blocks c"

lemma index_of_event: "event_index e = Inr i \<Longrightarrow> frame_index e = i"
  by (auto simp: event_index_def frame_index_def split: option.splits)

lemma check_start_state:
  assumes "check_block_start c e = Inr c'"
  shows "\<exists>k. c' = block_opens (frame_index e) k c \<and> frame_index e \<notin> seen_blocks c"
proof -
  obtain i where i: "event_index e = Inr i" using assms by (cases "event_index e") (auto simp: check_block_start_def)
  obtain b where b: "as_obj (jget_default (ev_data e) ''content_block'' (JObj [])) = Some b"
    using assms i by (cases "as_obj (jget_default (ev_data e) ''content_block'' (JObj []))") (simp_all add: check_block_start_def)
  show ?thesis using assms i b index_of_event [OF i] by (auto simp: check_block_start_def Let_def block_opens_def split: if_splits)
qed

lemma check_delta_state:
  assumes "check_block_delta c e = Inr c'"
  shows "c' = c \<and> frame_index e \<in> set (dkeys (open_blocks c))"
proof -
  obtain i where i: "event_index e = Inr i" using assms by (cases "event_index e") (auto simp: check_block_delta_def)
  obtain k where k: "map_of (open_blocks c) i = Some k" using assms i by (cases "map_of (open_blocks c) i") (simp_all add: check_block_delta_def)
  have "c' = c" using assms i k by (auto simp: check_block_delta_def Let_def split: if_splits option.splits)
  with k index_of_event [OF i] show ?thesis by (auto dest: map_of_in_dkeys)
qed

lemma check_stop_state:
  assumes "check_block_stop c e = Inr c'"
  shows "c' = block_closes (frame_index e) c \<and> frame_index e \<in> set (dkeys (open_blocks c))"
proof -
  obtain i where i: "event_index e = Inr i" using assms by (cases "event_index e") (auto simp: check_block_stop_def)
  with assms index_of_event [OF i] show ?thesis by (auto simp: check_block_stop_def block_closes_def split: if_splits)
qed

lemma delta_texts_snoc:
  "delta_texts i (fs @ [e]) =
     delta_texts i fs @ (if ev_name e = ''content_block_delta'' \<and> frame_index e = i then [frame_delta_text e] else [])"
  by (simp add: delta_texts_def)

lemma unseen_no_deltas: "seen_only c fs \<Longrightarrow> i \<notin> seen_blocks c \<Longrightarrow> delta_texts i fs = []"
  by (auto simp: seen_only_def delta_texts_def filter_empty_conv)

lemma at_index_listed: "at_index i f (listed c fs e) =
    (if frame_index e = i then map (\<lambda>(j, seg). (j, f seg)) (listed c fs e) else listed c fs e)"
  by (auto simp: at_index_def listed_def split_def)

lemma at_index_concat: "at_index i f (concat Ls) = concat (map (at_index i f) Ls)"
  by (simp add: at_index_def [abs_def] map_concat)

lemma listed_step:
  assumes "check_event False c e = Inr c'" "seen_only c fs"
  shows "list_step e (concat (map (listed c fs) fs)) = concat (map (listed c' (fs @ [e])) (fs @ [e])) \<and> seen_only c' (fs @ [e])"
proof -
  have old: "concat (map (listed c fs) fs) = concat (map g fs)" if "\<And>x. x \<in> set fs \<Longrightarrow> listed c fs x = g x" for g
    using that by (simp cong: map_cong)
  consider (start) "ev_name e = ''content_block_start''" | (delta) "ev_name e = ''content_block_delta''" | (stop) "ev_name e = ''content_block_stop''"
    | (other) "ev_name e \<notin> {''content_block_start'', ''content_block_delta'', ''content_block_stop''}" by blast
  then show ?thesis
  proof cases
    case start
    then obtain k where c': "c' = block_opens (frame_index e) k c" and new: "frame_index e \<notin> seen_blocks c"
      using assms(1) check_start_state [of c e c'] by (auto simp: check_event_def)
    have "listed c fs x = listed c' (fs @ [e]) x" if "x \<in> set fs" for x
      using that assms(2) new start by (auto simp: listed_def c' so_far_def dict_simps delta_texts_snoc seen_only_def)
    moreover have "listed c' (fs @ [e]) e = map (Pair (frame_index e)) (opened_segments e)"
      using start unseen_no_deltas [OF assms(2) new] by (simp add: listed_def c' so_far_def dict_simps delta_texts_snoc)
    moreover have "seen_only c' (fs @ [e])" using assms(2) by (auto simp: seen_only_def c' dict_simps)
    ultimately show ?thesis using start by (simp add: list_step_def cong: map_cong)
  next
    case delta
    then have c': "c' = c" and o: "frame_index e \<in> set (dkeys (open_blocks c))"
      using assms(1) check_delta_state [of c e c'] by (auto simp: check_event_def)
    have "at_index (frame_index e) (append_text (frame_delta_text e)) (listed c fs x) = listed c (fs @ [e]) x" for x
      using delta o by (simp add: at_index_listed) (simp add: listed_def so_far_def delta_texts_snoc)
    moreover have "listed c (fs @ [e]) e = []" using delta by (simp add: listed_def)
    moreover have "seen_only c (fs @ [e])" using assms(2) o delta by (auto simp: seen_only_def)
    ultimately show ?thesis using delta by (simp add: list_step_def at_index_concat c' comp_def)
  next
    case stop
    then have c': "c' = block_closes (frame_index e) c" and o: "frame_index e \<in> set (dkeys (open_blocks c))"
      using assms(1) check_stop_state [of c e c'] by (auto simp: check_event_def)
    have "at_index (frame_index e) close_call (listed c fs x) = listed c' (fs @ [e]) x" for x
      using stop o by (simp add: at_index_listed) (auto simp: listed_def so_far_def delta_texts_snoc c' dict_simps)
    moreover have "listed c' (fs @ [e]) e = []" using stop by (simp add: listed_def)
    moreover have "seen_only c' (fs @ [e])" using assms(2) stop by (auto simp: seen_only_def c' dict_simps)
    ultimately show ?thesis using stop by (simp add: list_step_def at_index_concat comp_def)
  next
    case other
    then have c': "c' = c" using assms(1) by (auto simp: check_event_def split: if_splits)
    have "listed c (fs @ [e]) = listed c fs" using other by (auto simp: listed_def delta_texts_snoc fun_eq_iff)
    moreover have "listed c fs e = []" using other by (simp add: listed_def)
    ultimately show ?thesis using other assms(2) by (auto simp: list_step_def c' seen_only_def)
  qed
qed

lemma listed_steps:
  "check_events False check_init fs = Inr c \<Longrightarrow>
   fold list_step fs [] = concat (map (listed c fs) fs) \<and> seen_only c fs"
proof (induction fs arbitrary: c rule: rev_induct)
  case Nil
  then show ?case by (auto simp: seen_only_def check_init_def)
next
  case (snoc e fs)
  then obtain c1 where c1: "check_events False check_init fs = Inr c1" "check_event False c1 e = Inr c"
    by (auto simp: check_events_append)
  from snoc.IH [OF c1(1)] listed_step [OF c1(2), of fs] show ?case by simp
qed

section \<open>Properties of the transcript\<close>

definition shown_segments :: "transcript \<Rightarrow> chat_segment list" where
  "shown_segments tb = map (\<lambda>a. tb_store tb ! a) (tb_segments tb)"

lemma keeps_list_new: "keeps_list check_init [] (new_transcript show)"
  by (simp add: keeps_list_def list_ok_def new_transcript_def check_init_def indexed_def)


text \<open>Text, a call, and thinking that overlaps with it.\<close>

definition example_frames :: "frame list" where
  "example_frames =
     (let start = (\<lambda>i b. mk_frame ''content_block_start'' [(''type'', JStr ''content_block_start''), (''index'', JInt i), (''content_block'', JObj b)]);
          delta = (\<lambda>i d. mk_frame ''content_block_delta'' [(''type'', JStr ''content_block_delta''), (''index'', JInt i), (''delta'', JObj d)]);
          stop = (\<lambda>i. mk_frame ''content_block_stop'' [(''type'', JStr ''content_block_stop''), (''index'', JInt i)])
      in [mk_frame ''message_start'' [(''type'', JStr ''message_start'')],
          start 0 [(''type'', JStr ''thinking'')], start 1 [(''type'', JStr ''text'')],
          delta 1 [(''type'', JStr ''text_delta''), (''text'', JStr ''Hel'')],
          delta 0 [(''type'', JStr ''thinking_delta''), (''thinking'', JStr ''hm'')],
          delta 1 [(''type'', JStr ''text_delta''), (''text'', JStr ''lo'')], stop 0, stop 1,
          start 2 [(''type'', JStr ''tool_use''), (''id'', JStr ''t1''), (''name'', JStr ''Bash'')], stop 2,
          mk_frame ''message_stop'' [(''type'', JStr ''message_stop'')]])"



section \<open>The run of a node\<close>

text \<open>A platform that writes the icon before the status.\<close>

definition plain_format :: status_format where
  "plain_format =
     \<lparr>sf_icons = \<lparr>si_brain = ''b'', si_wait = ''w'', si_robot = ''r'', si_done = ''+'', si_failed = ''x'', si_stopped = ''s'', si_crashed = ''!''\<rparr>,
      sf_format = (\<lambda>icon status. icon @ '' '' @ status)\<rparr>"



text \<open>The session a run holds: what it got, or what it registered in its place.\<close>

definition holds :: "json \<Rightarrow> bool \<Rightarrow> node_run \<Rightarrow> bool" where
  "holds session_id is_new r \<longleftrightarrow>
     (\<forall>i. RemoveSession i \<notin> set (nr_actions r)) \<and>
     (if truthy (nr_captured r)
      then nr_captured r = session_id \<and> \<not> is_new \<and> nr_temp r = JNull \<or> is_new \<and> nr_temp r = JNull \<and> RegisterSession session_id (nr_captured r) \<in> set (nr_actions r)
      else nr_temp r = session_id \<and> is_new)"

lemma holds_act: "(\<And>i. RemoveSession i \<notin> set as) \<Longrightarrow> holds s n r \<Longrightarrow> holds s n (act as r)"
  by (auto simp: holds_def act_def split: if_splits)

lemma holds_frame [simp]:
  "holds s n (r\<lparr>nr_transcript := tb\<rparr>) = holds s n r" "holds s n (r\<lparr>nr_had_events := h\<rparr>) = holds s n r"
  "holds s n (r\<lparr>nr_last_status := l\<rparr>) = holds s n r"
  by (simp_all add: holds_def)

lemma holds_process: "process_parsed_cli_event sf t p r = Inr r' \<Longrightarrow> holds s n r \<Longrightarrow> holds s n r'"
  by (auto simp: process_parsed_cli_event_def note_transcript_def complete_event_def Let_def intro!: holds_act split: if_splits option.splits)

lemma holds_all: "process_all sf t pv ps r = (r', e) \<Longrightarrow> holds s n r \<Longrightarrow> holds s n r'"
  by (induction ps arbitrary: r) (auto dest: holds_process split: sum.splits)

lemma holds_info: "holds s n r \<Longrightarrow> holds s n (handle_session_info_event t event r)"
  by (auto simp: holds_def handle_session_info_event_def act_def Let_def truthy.simps split: if_splits)

lemma holds_run: "run_cli_events sf t pv evs fin r = (r', e) \<Longrightarrow> holds s n r \<Longrightarrow> holds s n r'"
proof (induction evs arbitrary: r)
  case (Cons ev evs)
  show ?case
  proof (cases ev)
    case (JObj event)
    let ?r = "handle_session_info_event t event r"
    have h: "holds s n ?r" using Cons.prems(2) by (rule holds_info)
    show ?thesis
    proof (cases "jget event ''type'' = JStr ''session_info''")
      case True
      with Cons.prems(1) JObj Cons.IH [OF _ h] show ?thesis by simp
    next
      case False
      obtain r1 m where p: "process_all sf t pv (parse_cli_event ev) ?r = (r1, m)" by fastforce
      with holds_all [OF p h] Cons.prems(1) False JObj Cons.IH show ?thesis by (cases m) auto
    qed
  qed (use Cons in auto)
qed auto

text \<open>
  C11: however a run ends (its events are over, it fails, it is stopped or cancelled), the session it was given
  is returned once and last: under the id it was given, or under the one that was registered for it.
\<close>

theorem node_returns_session:
  assumes "truthy session_id"
  shows "\<exists>as i. nr_actions (process_node_impl sf t preview (Inr (session_id, is_new)) events fin) = as @ [RemoveSession i] \<and>
    (\<forall>j. RemoveSession j \<notin> set as) \<and> (i = session_id \<or> is_new \<and> RegisterSession session_id i \<in> set as)"
proof -
  define r0 where "r0 = (let r = new_run t in if is_new then r\<lparr>nr_temp := session_id\<rparr> else r\<lparr>nr_captured := session_id\<rparr>)"
  have "holds session_id is_new r0" using assms by (auto simp: holds_def r0_def Let_def new_run_def truthy.simps)
  obtain r1 e where r1: "run_cli_events sf t preview events fin r0 = (r1, e)" by fastforce
  have "holds session_id is_new r1" by (rule holds_run [OF r1]) fact
  then have h: "holds session_id is_new (end_run sf t (r1, e))"
    by (cases e) (auto simp: end_run_def Let_def show_error_def intro!: holds_act)
  have "process_node_impl sf t preview (Inr (session_id, is_new)) events fin = free_slot (end_run sf t (r1, e))"
    by (simp add: process_node_impl_def Let_def r0_def [unfolded Let_def, symmetric] r1)
  with h assms show ?thesis by (auto simp: free_slot_def act_def holds_def split: if_splits)
qed

lemma node_returns_session_witness:
  "\<exists>as i. nr_actions (process_node_impl plain_format True (\<lambda>_. ''failed'') (Inr (JStr ''pending_1'', True))
       [JObj [(''type'', JStr ''session_info''), (''session_id'', JStr ''s'')]] (Crashed ''gone'')) = as @ [RemoveSession i] \<and>
    (i = JStr ''pending_1'' \<or> RegisterSession (JStr ''pending_1'') i \<in> set as)"
proof -
  have "truthy (JStr ''pending_1'')" by simp
  from node_returns_session [OF this, of plain_format True "\<lambda>_. ''failed''" True] show ?thesis by blast
qed

end
