(* ===== verification/Session_Pool.thy ===== *)
theory Session_Pool
  imports Py_Prelude "HOL-Library.Multiset"
begin

text \<open>
  The pool of agent sessions (\<open>cli/manager.py\<close>): sessions that wait for their real id, sessions under
  their real id, and the two maps between temporary and real ids.  A session object is a number; each
  operation holds the lock, so it is one atomic step.  Once its real ids are new, the pool loses no session:
  each one is in it or was stopped (\<open>pool_loses_no_session\<close>).
\<close>

section \<open>Operations\<close>

record session_pool =
  po_sessions :: "(string, nat) dict"
  po_pending :: "(string, nat) dict"
  po_temp_to_real :: "(string, string) dict"
  po_real_to_temp :: "(string, string) dict"

definition new_pool :: session_pool where
  "new_pool = \<lparr>po_sessions = [], po_pending = [], po_temp_to_real = [], po_real_to_temp = []\<rparr>"

text \<open>
  The session, its id, and whether it is new; \<open>uuid\<close> gives the hexadecimal digits of a new temporary id
  and \<open>fresh\<close> is the object a new session would be.
\<close>

definition get_or_create_session :: "string option \<Rightarrow> string \<Rightarrow> nat \<Rightarrow> session_pool \<Rightarrow> (nat \<times> string \<times> bool) \<times> session_pool" where
  "get_or_create_session session_id uuid fresh p =
     (let given = (case session_id of Some s \<Rightarrow> s | None \<Rightarrow> []);
          lookup_id = (case map_of (po_temp_to_real p) given of Some r \<Rightarrow> r | None \<Rightarrow> given);
          temp_id = (if given \<noteq> [] then given else ''pending_'' @ take 8 uuid);
          created = ((fresh, temp_id, True), p\<lparr>po_pending := dset temp_id fresh (po_pending p)\<rparr>)
      in if given = [] then created
         else case map_of (po_sessions p) lookup_id of
           Some s \<Rightarrow> ((s, lookup_id, False), p)
         | None \<Rightarrow> (case map_of (po_pending p) lookup_id of Some s \<Rightarrow> ((s, lookup_id, False), p) | None \<Rightarrow> created))"

definition register_real_session_id :: "string \<Rightarrow> string \<Rightarrow> session_pool \<Rightarrow> bool \<times> session_pool" where
  "register_real_session_id temp_id real_session_id p =
     (case map_of (po_pending p) temp_id of
        None \<Rightarrow> (False, p)
      | Some s \<Rightarrow>
          (True, p\<lparr>po_pending := ddel temp_id (po_pending p), po_sessions := dset real_session_id s (po_sessions p),
             po_temp_to_real := dset temp_id real_session_id (po_temp_to_real p),
             po_real_to_temp := dset real_session_id temp_id (po_real_to_temp p)\<rparr>))"

text \<open>The session that is stopped, if the id is known.\<close>

definition remove_session :: "string \<Rightarrow> session_pool \<Rightarrow> nat option \<times> session_pool" where
  "remove_session session_id p =
     (case map_of (po_pending p) session_id of
        Some s \<Rightarrow> (Some s, p\<lparr>po_pending := ddel session_id (po_pending p)\<rparr>)
      | None \<Rightarrow>
          (case map_of (po_sessions p) session_id of
             Some s \<Rightarrow>
               (let p = p\<lparr>po_sessions := ddel session_id (po_sessions p)\<rparr>; temp = map_of (po_real_to_temp p) session_id;
                    p = p\<lparr>po_real_to_temp := ddel session_id (po_real_to_temp p)\<rparr>
                in (Some s, case temp of Some t \<Rightarrow> p\<lparr>po_temp_to_real := ddel t (po_temp_to_real p)\<rparr> | None \<Rightarrow> p))
           | None \<Rightarrow> (None, p)))"

definition pool_stop_all :: "session_pool \<Rightarrow> nat list \<times> session_pool" where
  "pool_stop_all p = (dvalues (po_sessions p) @ dvalues (po_pending p), new_pool)"

definition get_stats :: "(nat \<Rightarrow> bool) \<Rightarrow> session_pool \<Rightarrow> nat \<times> nat \<times> nat" where
  "get_stats is_busy p =
     (length (po_sessions p), length (po_pending p), length (filter is_busy (dvalues (po_sessions p))))"

section \<open>Runs\<close>

datatype pool_event =
    GetSession "string option" string
  | RegisterId string string
  | RemoveId string
  | StopAll

text \<open>A pool with the sessions stopped so far; the number of the next session counts those created.\<close>

record pool_run =
  pr_pool :: session_pool
  pr_created :: nat
  pr_stopped :: "nat list"

definition pool_step :: "pool_event \<Rightarrow> pool_run \<Rightarrow> pool_run" where
  "pool_step ev s =
     (case ev of
        GetSession sid uuid \<Rightarrow>
          (case get_or_create_session sid uuid (pr_created s) (pr_pool s) of
             ((h, i, is_new), p) \<Rightarrow> s\<lparr>pr_pool := p, pr_created := (if is_new then pr_created s + 1 else pr_created s)\<rparr>)
      | RegisterId temp real \<Rightarrow> s\<lparr>pr_pool := snd (register_real_session_id temp real (pr_pool s))\<rparr>
      | RemoveId i \<Rightarrow>
          (case remove_session i (pr_pool s) of
             (h, p) \<Rightarrow> s\<lparr>pr_pool := p, pr_stopped := pr_stopped s @ (case h of Some h \<Rightarrow> [h] | None \<Rightarrow> [])\<rparr>)
      | StopAll \<Rightarrow> (case pool_stop_all (pr_pool s) of (hs, p) \<Rightarrow> s\<lparr>pr_pool := p, pr_stopped := pr_stopped s @ hs\<rparr>))"

definition pool_runs :: "pool_event list \<Rightarrow> pool_run" where
  "pool_runs evs = fold pool_step evs \<lparr>pr_pool = new_pool, pr_created = 0, pr_stopped = []\<rparr>"

text \<open>New ids: a real id that is not in the pool, and a temporary one that nobody waits under.\<close>

definition new_ids :: "pool_event \<Rightarrow> session_pool \<Rightarrow> bool" where
  "new_ids ev p =
     (case ev of
        RegisterId temp real \<Rightarrow> real \<notin> set (dkeys (po_sessions p))
      | GetSession sid uuid \<Rightarrow> sid \<noteq> None \<and> sid \<noteq> Some [] \<or>
          ''pending_'' @ take 8 uuid \<notin> set (dkeys (po_pending p)) \<union> set (dkeys (po_temp_to_real p))
      | _ \<Rightarrow> True)"

fun ids_stay_new :: "pool_event list \<Rightarrow> pool_run \<Rightarrow> bool" where
  "ids_stay_new [] s = True"
| "ids_stay_new (ev # evs) s = (new_ids ev (pr_pool s) \<and> ids_stay_new evs (pool_step ev s))"

section \<open>No session is lost\<close>

definition live :: "session_pool \<Rightarrow> nat list" where
  "live p = dvalues (po_sessions p) @ dvalues (po_pending p)"

definition inverse_maps :: "(string, string) dict \<Rightarrow> (string, string) dict \<Rightarrow> bool" where
  "inverse_maps a b \<longleftrightarrow> (\<forall>t r. map_of a t = Some r \<longleftrightarrow> map_of b r = Some t)"

definition same_ids :: "(string, string) dict \<Rightarrow> (string, nat) dict \<Rightarrow> bool" where
  "same_ids b d \<longleftrightarrow> (\<forall>r. map_of b r = None \<longleftrightarrow> map_of d r = None)"

definition ids_apart :: "(string, string) dict \<Rightarrow> (string, nat) dict \<Rightarrow> bool" where
  "ids_apart a d \<longleftrightarrow> (\<forall>t. map_of a t = None \<or> map_of d t = None)"

definition pool_ok :: "session_pool \<Rightarrow> bool" where
  "pool_ok p \<longleftrightarrow>
     distinct (dkeys (po_sessions p)) \<and> distinct (dkeys (po_pending p)) \<and>
     inverse_maps (po_temp_to_real p) (po_real_to_temp p) \<and> same_ids (po_real_to_temp p) (po_sessions p) \<and>
     ids_apart (po_temp_to_real p) (po_pending p)"

lemma inverse_dset: "inverse_maps a b \<Longrightarrow> map_of a t = None \<Longrightarrow> map_of b r = None \<Longrightarrow> inverse_maps (dset t r a) (dset r t b)"
  unfolding inverse_maps_def map_of_dset by (metis option.distinct(1) option.inject)

lemma inverse_ddel:
  assumes "inverse_maps a b" "map_of b r = Some t" shows "inverse_maps (ddel t a) (ddel r b)"
  unfolding inverse_maps_def
proof (intro allI)
  fix t' r'
  note i = assms(1) [unfolded inverse_maps_def, rule_format]
  have "map_of a t' = Some r' \<Longrightarrow> t' = t \<longleftrightarrow> r' = r" using i [of t' r'] i [of t r] assms(2) by auto
  with i [of t' r'] show "map_of (ddel t a) t' = Some r' \<longleftrightarrow> map_of (ddel r b) r' = Some t'" by (auto simp: dict_simps)
qed

lemma same_ids_simps: "same_ids b d \<Longrightarrow> same_ids (dset r t b) (dset r h d)" "same_ids b d \<Longrightarrow> same_ids (ddel r b) (ddel r d)"
  by (simp_all add: same_ids_def dict_simps)

lemma ids_apart_simps: "ids_apart a d \<Longrightarrow> ids_apart (dset t r a) (ddel t d)" "ids_apart a d \<Longrightarrow> ids_apart (ddel t a) d"
  "ids_apart a d \<Longrightarrow> ids_apart a (ddel t d)" "ids_apart a d \<Longrightarrow> map_of a t = None \<Longrightarrow> ids_apart a (dset t h d)"
  by (simp_all add: ids_apart_def dict_simps)

definition run_ok :: "pool_run \<Rightarrow> bool" where
  "run_ok s \<longleftrightarrow> pool_ok (pr_pool s) \<and> mset (live (pr_pool s)) + mset (pr_stopped s) = mset [0..<pr_created s]"

lemma dvalues_dset: "k \<notin> set (dkeys d) \<Longrightarrow> dvalues (dset k v d) = dvalues d @ [v]"
  by (simp add: dict_simps)

lemma mset_dvalues_ddel: "distinct (dkeys d) \<Longrightarrow> map_of d k = Some v \<Longrightarrow> mset (dvalues d) = add_mset v (mset (dvalues (ddel k d)))"
  by (induction d) (auto simp: delete_conv' split: if_splits)


lemma mset_dset: "k \<notin> set (dkeys d) \<Longrightarrow> mset (dvalues (dset k v d)) = add_mset v (mset (dvalues d))"
  by (simp add: dvalues_dset)

lemma get_ok:
  assumes "run_ok s" "new_ids (GetSession sid uuid) (pr_pool s)"
  shows "run_ok (pool_step (GetSession sid uuid) s)"
proof -
  define p where "p = pr_pool s"
  define given where "given = (case sid of Some s \<Rightarrow> s | None \<Rightarrow> [])"
  define temp where "temp = (if given \<noteq> [] then given else ''pending_'' @ take 8 uuid)"
  have ok: "pool_ok p" and m: "mset (live p) + mset (pr_stopped s) = mset [0..<pr_created s]" using assms(1) by (simp_all add: run_ok_def p_def)
  have sub: "run_ok (pool_step (GetSession sid uuid) s)"
    if t: "map_of (po_pending p) temp = None" "map_of (po_temp_to_real p) temp = None"
      and g: "get_or_create_session sid uuid (pr_created s) p = ((pr_created s, temp, True), p\<lparr>po_pending := dset temp (pr_created s) (po_pending p)\<rparr>)"
  proof -
    have n: "temp \<notin> set (dkeys (po_pending p))" using t(1) map_of_notin_iff [of "po_pending p" temp] by simp
    have "pool_ok (p\<lparr>po_pending := dset temp (pr_created s) (po_pending p)\<rparr>)"
      using ok t by (simp add: pool_ok_def distinct_dset ids_apart_simps)
    moreover have "mset (live (p\<lparr>po_pending := dset temp (pr_created s) (po_pending p)\<rparr>)) + mset (pr_stopped s) = mset [0..<Suc (pr_created s)]"
      using m mset_dset [OF n, of "pr_created s"] by (simp add: live_def)
    ultimately show ?thesis using g by (simp add: pool_step_def p_def run_ok_def)
  qed
  show ?thesis
  proof (cases "given = []")
    case True
    then have "sid = None \<or> sid = Some []" by (auto simp: given_def split: option.splits)
    with assms(2) have "temp \<notin> set (dkeys (po_pending p)) \<union> set (dkeys (po_temp_to_real p))" using True by (auto simp: new_ids_def temp_def p_def)
    then have "map_of (po_pending p) temp = None" "map_of (po_temp_to_real p) temp = None"
      using map_of_notin_iff [of "po_pending p" temp] map_of_notin_iff [of "po_temp_to_real p" temp] by auto
    then show ?thesis by (rule sub) (simp add: get_or_create_session_def Let_def given_def [symmetric] temp_def True)
  next
    case g: False
    define lk where "lk = (case map_of (po_temp_to_real p) given of Some r \<Rightarrow> r | None \<Rightarrow> given)"
    show ?thesis
    proof (cases "map_of (po_sessions p) lk = None \<and> map_of (po_pending p) lk = None")
      case True
      have "map_of (po_temp_to_real p) given = None"
      proof (rule ccontr)
        assume "map_of (po_temp_to_real p) given \<noteq> None"
        then obtain r where r: "map_of (po_temp_to_real p) given = Some r" by auto
        with ok have "map_of (po_sessions p) r \<noteq> None" unfolding pool_ok_def inverse_maps_def same_ids_def by (metis option.distinct(1))
        with r True show False by (simp add: lk_def)
      qed
      with True have "map_of (po_pending p) temp = None" "map_of (po_temp_to_real p) temp = None" using g by (simp_all add: lk_def temp_def)
      then show ?thesis
        by (rule sub) (use True g in \<open>simp add: get_or_create_session_def Let_def given_def [symmetric] lk_def [symmetric] temp_def\<close>)
    next
      case False
      then have "\<exists>h i. get_or_create_session sid uuid (pr_created s) p = ((h, i, False), p)"
        using g by (auto simp: get_or_create_session_def Let_def given_def [symmetric] lk_def [symmetric] split: option.split)
      with assms(1) show ?thesis by (auto simp: pool_step_def p_def run_ok_def)
    qed
  qed
qed

lemma register_ok:
  assumes "run_ok s" "new_ids (RegisterId temp real) (pr_pool s)"
  shows "run_ok (pool_step (RegisterId temp real) s)"
proof (cases "map_of (po_pending (pr_pool s)) temp")
  case None
  with assms(1) show ?thesis by (simp add: pool_step_def register_real_session_id_def)
next
  case (Some h)
  define p where "p = pr_pool s"
  define p' where "p' = p\<lparr>po_pending := ddel temp (po_pending p), po_sessions := dset real h (po_sessions p),
      po_temp_to_real := dset temp real (po_temp_to_real p), po_real_to_temp := dset real temp (po_real_to_temp p)\<rparr>"
  have ok: "pool_ok p" using assms(1) by (simp add: run_ok_def p_def)
  have n: "real \<notin> set (dkeys (po_sessions p))" "map_of (po_sessions p) real = None"
    using assms(2) map_of_notin_iff [of "po_sessions p" real] by (simp_all add: new_ids_def p_def)
  then have r: "map_of (po_real_to_temp p) real = None" using ok unfolding pool_ok_def same_ids_def by blast
  have t: "map_of (po_temp_to_real p) temp = None" using ok Some unfolding pool_ok_def ids_apart_def p_def by (metis option.distinct(1))
  have "pool_ok p'" using ok r t
    by (simp add: pool_ok_def p'_def distinct_ddel distinct_dset inverse_dset same_ids_simps ids_apart_simps)
  moreover have "mset (live p') = mset (live p)"
    using mset_dset [OF n(1), of h] mset_dvalues_ddel [of "po_pending p" temp h] Some ok by (simp add: p'_def live_def pool_ok_def p_def)
  moreover have "pool_step (RegisterId temp real) s = s\<lparr>pr_pool := p'\<rparr>"
    using Some by (simp add: pool_step_def register_real_session_id_def p'_def p_def)
  ultimately show ?thesis using assms(1) by (simp add: run_ok_def p_def)
qed

lemma remove_ok:
  assumes "run_ok s" shows "run_ok (pool_step (RemoveId i) s)"
proof -
  define p where "p = pr_pool s"
  have ok: "pool_ok p" and m: "mset (live p) + mset (pr_stopped s) = mset [0..<pr_created s]" using assms by (simp_all add: run_ok_def p_def)
  consider (pending) h where "map_of (po_pending p) i = Some h" | (real) h where "map_of (po_pending p) i = None" "map_of (po_sessions p) i = Some h"
    | (unknown) "map_of (po_pending p) i = None" "map_of (po_sessions p) i = None" by (cases "map_of (po_pending p) i"; cases "map_of (po_sessions p) i") auto
  then show ?thesis
  proof cases
    case pending
    let ?p = "p\<lparr>po_pending := ddel i (po_pending p)\<rparr>"
    have "pool_ok ?p"
      using ok by (simp add: pool_ok_def distinct_ddel ids_apart_simps)
    moreover have "mset (live p) = add_mset h (mset (live ?p))" using mset_dvalues_ddel [of "po_pending p" i h] ok pending by (simp add: live_def pool_ok_def)
    ultimately show ?thesis using m pending by (simp add: pool_step_def remove_session_def p_def run_ok_def)
  next
    case real
    then obtain t where t: "map_of (po_real_to_temp p) i = Some t" using ok unfolding pool_ok_def same_ids_def by (metis not_None_eq)
    let ?p = "p\<lparr>po_sessions := ddel i (po_sessions p), po_real_to_temp := ddel i (po_real_to_temp p), po_temp_to_real := ddel t (po_temp_to_real p)\<rparr>"
    have "pool_ok ?p" using ok inverse_ddel [OF _ t] by (simp add: pool_ok_def distinct_ddel same_ids_simps ids_apart_simps)
    moreover have "mset (live p) = add_mset h (mset (live ?p))" using mset_dvalues_ddel [of "po_sessions p" i h] ok real by (simp add: live_def pool_ok_def)
    ultimately show ?thesis using m real t by (simp add: pool_step_def remove_session_def p_def run_ok_def Let_def)
  next
    case unknown
    with assms show ?thesis by (simp add: pool_step_def remove_session_def p_def)
  qed
qed

lemma pool_stop_all_ok: "run_ok s \<Longrightarrow> run_ok (pool_step StopAll s)"
  by (simp add: run_ok_def pool_step_def pool_stop_all_def pool_ok_def inverse_maps_def same_ids_def ids_apart_def new_pool_def live_def ac_simps)

lemma pool_run_ok: "run_ok s \<Longrightarrow> ids_stay_new evs s \<Longrightarrow> run_ok (fold pool_step evs s)"
proof (induction evs arbitrary: s)
  case (Cons ev evs)
  then have "run_ok (pool_step ev s)" by (cases ev) (simp_all add: get_ok register_ok remove_ok pool_stop_all_ok)
  with Cons show ?case by simp
qed simp

text \<open>
  C39: as long as ids are new when they enter the pool, no session is lost and none is shared between two ids:
  every session ever created is either in the pool, once, or was stopped, once; the maps between
  temporary and real ids stay inverse to each other, and a mapped id leads to a session of the pool.
\<close>

theorem pool_loses_no_session:
  assumes "ids_stay_new evs \<lparr>pr_pool = new_pool, pr_created = 0, pr_stopped = []\<rparr>"
  shows "let s = pool_runs evs; p = pr_pool s
    in mset (live p) + mset (pr_stopped s) = mset [0..<pr_created s] \<and>
       (\<forall>t r. map_of (po_temp_to_real p) t = Some r \<longleftrightarrow> map_of (po_real_to_temp p) r = Some t) \<and>
       (\<forall>r. map_of (po_real_to_temp p) r = None \<longleftrightarrow> map_of (po_sessions p) r = None)"
proof -
  have "run_ok \<lparr>pr_pool = new_pool, pr_created = 0, pr_stopped = []\<rparr>" by (simp add: run_ok_def pool_ok_def inverse_maps_def same_ids_def ids_apart_def new_pool_def live_def)
  from pool_run_ok [OF this assms] show ?thesis by (simp add: pool_runs_def run_ok_def pool_ok_def inverse_maps_def same_ids_def Let_def)
qed

definition example_pool :: "pool_event list" where
  "example_pool =
     [GetSession None ''0123456789'', RegisterId ''pending_01234567'' ''real'', GetSession (Some ''real'') ''ffff'',
      GetSession None ''aaaaaaaaaa'', RemoveId ''real'']"

lemma pool_loses_no_session_witness:
  "let s = pool_runs example_pool in mset (live (pr_pool s)) + mset (pr_stopped s) = mset [0..<2] \<and> pr_stopped s = [0]"
proof -
  have "ids_stay_new example_pool \<lparr>pr_pool = new_pool, pr_created = 0, pr_stopped = []\<rparr>" by code_simp
  note p = pool_loses_no_session [OF this, unfolded Let_def, THEN conjunct1]
  have c: "pr_created (pool_runs example_pool) = 2" "pr_stopped (pool_runs example_pool) = [0]" by code_simp+
  show ?thesis using p unfolding Let_def c by simp
qed

text \<open>A real id that is registered twice drops the session that had it without stopping it.\<close>

lemma registered_twice_is_lost:
  "let s = pool_runs [GetSession None ''0123456789'', RegisterId ''pending_01234567'' ''real'', GetSession None ''aaaaaaaaaa'', RegisterId ''pending_aaaaaaaa'' ''real'']
   in live (pr_pool s) = [1] \<and> pr_stopped s = [] \<and> pr_created s = 2"
  by code_simp

end
