(* ===== verification/Session_Store.thy ===== *)
theory Session_Store
  imports Py_Json
begin

text \<open>
  The store of chat sessions (\<open>messaging/session.py\<close>): trees, the tree of each node, and the log of message
  ids of each chat with its cap, saved to one file after a delay.  A method is atomic under the lock; the
  write of a snapshot happens outside it, so it is a step of its own.

  Objects of a file are taken to be objects where the store keeps them as such; a set of ids is a list
  in the order of insertion.
\<close>

section \<open>State\<close>

record log_rec =
  lr_id :: string
  lr_ts :: string
  lr_direction :: string
  lr_kind :: string

record store =
  st_trees :: jdict
  st_nodes :: jdict
  st_log :: "(string, log_rec list) dict"
  st_ids :: "(string, string list) dict"
  st_cap :: "int option"
  st_dirty :: bool
  st_timer :: bool
  st_file :: "json option"
  st_writes :: "json list"

definition empty_store :: "int option \<Rightarrow> json option \<Rightarrow> store" where
  "empty_store cap file =
     \<lparr>st_trees = [], st_nodes = [], st_log = [], st_ids = [], st_cap = cap, st_dirty = False, st_timer = False,
      st_file = file, st_writes = []\<rparr>"

section \<open>Loading\<close>

definition loaded_text :: "json \<Rightarrow> string" where
  "loaded_text j = (if truthy j then py_str j else [])"

text \<open>One record of a log, with the records kept so far.\<close>

definition load_record :: "json \<Rightarrow> log_rec list \<Rightarrow> log_rec list" where
  "load_record item cleaned =
     (case item of
        JObj it \<Rightarrow>
          (if jget it ''message_id'' = JNull then cleaned
           else if py_str (jget it ''message_id'') \<in> set (map lr_id cleaned) then cleaned
           else cleaned @ [\<lparr>lr_id = py_str (jget it ''message_id''), lr_ts = loaded_text (jget it ''ts''),
                  lr_direction = loaded_text (jget it ''direction''), lr_kind = loaded_text (jget it ''kind'')\<rparr>])
      | _ \<Rightarrow> cleaned)"

definition load_chat :: "string \<times> json \<Rightarrow> store \<Rightarrow> store" where
  "load_chat entry s =
     (case entry of
        (chat_key, JArr items) \<Rightarrow>
          (let cleaned = fold load_record items []
           in s\<lparr>st_log := dset chat_key cleaned (st_log s), st_ids := dset chat_key (map lr_id cleaned) (st_ids s)\<rparr>)
      | _ \<Rightarrow> s)"

definition obj_or_empty :: "json \<Rightarrow> jdict" where
  "obj_or_empty j = (case j of JObj d \<Rightarrow> d | _ \<Rightarrow> [])"

definition load_data :: "json \<Rightarrow> store \<Rightarrow> store" where
  "load_data data s =
     (case data of
        JObj d \<Rightarrow>
          fold load_chat (obj_or_empty (jget d ''message_log''))
            (s\<lparr>st_trees := obj_or_empty (jget d ''trees''), st_nodes := obj_or_empty (jget d ''node_to_tree'')\<rparr>)
      | _ \<Rightarrow> s)"

definition new_store :: "int option \<Rightarrow> json option \<Rightarrow> store" where
  "new_store cap file =
     (case file of None \<Rightarrow> empty_store cap None | Some data \<Rightarrow> load_data data (empty_store cap file))"

section \<open>Saving\<close>

definition rec_json :: "log_rec \<Rightarrow> json" where
  "rec_json r =
     JObj [(''message_id'', JStr (lr_id r)), (''ts'', JStr (lr_ts r)), (''direction'', JStr (lr_direction r)), (''kind'', JStr (lr_kind r))]"

definition snapshot :: "store \<Rightarrow> json" where
  "snapshot s =
     JObj [(''trees'', JObj (st_trees s)), (''node_to_tree'', JObj (st_nodes s)),
           (''message_log'', JObj (map (\<lambda>(k, items). (k, JArr (map rec_json items))) (st_log s)))]"

definition schedule_save :: "store \<Rightarrow> store" where
  "schedule_save s = s\<lparr>st_dirty := True, st_timer := True\<rparr>"

definition save_from_timer :: "store \<Rightarrow> store" where
  "save_from_timer s =
     (if \<not> st_dirty s then s\<lparr>st_timer := False\<rparr>
      else s\<lparr>st_writes := st_writes s @ [snapshot s], st_dirty := False, st_timer := False\<rparr>)"

definition flush_save :: "store \<Rightarrow> store" where
  "flush_save s = s\<lparr>st_writes := st_writes s @ [snapshot s], st_dirty := False, st_timer := False\<rparr>"

text \<open>The end of the write at a place of the list, and whether it succeeded.\<close>

definition write_ends :: "nat \<Rightarrow> bool \<Rightarrow> store \<Rightarrow> store" where
  "write_ends i ok s =
     (if i < length (st_writes s)
      then (let rest = take i (st_writes s) @ drop (Suc i) (st_writes s)
            in if ok then s\<lparr>st_file := Some (st_writes s ! i), st_writes := rest\<rparr>
               else s\<lparr>st_writes := rest, st_dirty := True\<rparr>)
      else s)"

section \<open>Methods\<close>

definition make_chat_key :: "string \<Rightarrow> string \<Rightarrow> string" where
  "make_chat_key platform chat_id = platform @ '':'' @ chat_id"

definition ids_in :: "string \<Rightarrow> store \<Rightarrow> string list" where
  "ids_in chat_key s = (case map_of (st_ids s) chat_key of Some ids \<Rightarrow> ids | None \<Rightarrow> [])"

definition log_in :: "string \<Rightarrow> store \<Rightarrow> log_rec list" where
  "log_in chat_key s = (case map_of (st_log s) chat_key of Some items \<Rightarrow> items | None \<Rightarrow> [])"

text \<open>\<open>items[-cap:]\<close>, when there are more.\<close>

definition capped :: "int option \<Rightarrow> log_rec list \<Rightarrow> log_rec list" where
  "capped cap items =
     (case cap of
        Some c \<Rightarrow> (if 0 < c \<and> c < int (length items) then drop (length items - nat c) items else items)
      | None \<Rightarrow> items)"

definition record_message_id :: "string \<Rightarrow> string \<Rightarrow> string option \<Rightarrow> string \<Rightarrow> string \<Rightarrow> string \<Rightarrow> store \<Rightarrow> store" where
  "record_message_id platform chat_id message_id direction kind now s =
     (case message_id of
        None \<Rightarrow> s
      | Some mid \<Rightarrow>
          (let chat_key = make_chat_key platform chat_id;
               seen = ids_in chat_key s;
               s = (if map_of (st_ids s) chat_key = None then s\<lparr>st_ids := dset chat_key [] (st_ids s)\<rparr> else s)
           in if mid \<in> set seen then s
              else (let items = log_in chat_key s @ [\<lparr>lr_id = mid, lr_ts = now, lr_direction = direction, lr_kind = kind\<rparr>];
                        kept = capped (st_cap s) items;
                        ids = (if length kept < length items then map lr_id kept else seen @ [mid])
                    in schedule_save (s\<lparr>st_log := dset chat_key kept (st_log s), st_ids := dset chat_key ids (st_ids s)\<rparr>))))"

definition logged_message_ids :: "string \<Rightarrow> string \<Rightarrow> store \<Rightarrow> string list" where
  "logged_message_ids platform chat_id s =
     map lr_id (log_in (make_chat_key platform chat_id) s)"

definition clear_all :: "store \<Rightarrow> store" where
  "clear_all s = flush_save (s\<lparr>st_trees := [], st_nodes := [], st_log := [], st_ids := []\<rparr>)"

definition tree_nodes :: "jdict \<Rightarrow> string list" where
  "tree_nodes tree_data = dkeys (obj_or_empty (jget tree_data ''nodes''))"

definition save_tree :: "string \<Rightarrow> jdict \<Rightarrow> store \<Rightarrow> store" where
  "save_tree root_id tree_data s =
     schedule_save (s\<lparr>st_trees := dset root_id (JObj tree_data) (st_trees s),
       st_nodes := fold (\<lambda>n. dset n (JStr root_id)) (tree_nodes tree_data) (st_nodes s)\<rparr>)"

definition store_get_tree :: "string \<Rightarrow> store \<Rightarrow> json" where
  "store_get_tree root_id s = jget (st_trees s) root_id"

definition store_register_node :: "string \<Rightarrow> string \<Rightarrow> store \<Rightarrow> store" where
  "store_register_node node_id root_id s = schedule_save (s\<lparr>st_nodes := dset node_id (JStr root_id) (st_nodes s)\<rparr>)"

definition remove_node_mappings :: "string list \<Rightarrow> store \<Rightarrow> store" where
  "remove_node_mappings node_ids s = schedule_save (s\<lparr>st_nodes := fold ddel node_ids (st_nodes s)\<rparr>)"

definition store_remove_tree :: "string \<Rightarrow> store \<Rightarrow> store" where
  "store_remove_tree root_id s =
     (let tree_data = jget (st_trees s) root_id; s = s\<lparr>st_trees := ddel root_id (st_trees s)\<rparr>
      in if truthy tree_data
         then schedule_save (s\<lparr>st_nodes := fold ddel (tree_nodes (obj_or_empty tree_data)) (st_nodes s)\<rparr>) else s)"

definition sync_from_tree_data :: "jdict \<Rightarrow> jdict \<Rightarrow> store \<Rightarrow> store" where
  "sync_from_tree_data trees node_to_tree s = schedule_save (s\<lparr>st_trees := trees, st_nodes := node_to_tree\<rparr>)"

section \<open>Runs\<close>

datatype store_event =
    RecordId string string "string option" string string string
  | ClearAll
  | SaveTree string jdict
  | RegisterNode string string
  | RemoveMappings "string list"
  | RemoveTree string
  | SyncTrees jdict jdict
  | TimerFires
  | FlushPending
  | WriteEnds nat bool

definition store_step :: "store_event \<Rightarrow> store \<Rightarrow> store" where
  "store_step ev s =
     (case ev of
        RecordId platform chat_id mid direction kind now \<Rightarrow> record_message_id platform chat_id mid direction kind now s
      | ClearAll \<Rightarrow> clear_all s
      | SaveTree root data \<Rightarrow> save_tree root data s
      | RegisterNode n root \<Rightarrow> store_register_node n root s
      | RemoveMappings ns \<Rightarrow> remove_node_mappings ns s
      | RemoveTree root \<Rightarrow> store_remove_tree root s
      | SyncTrees trees nodes \<Rightarrow> sync_from_tree_data trees nodes s
      | TimerFires \<Rightarrow> (if st_timer s then save_from_timer s else s)
      | FlushPending \<Rightarrow> flush_save s
      | WriteEnds i ok \<Rightarrow> write_ends i ok s)"

definition store_runs :: "store_event list \<Rightarrow> store \<Rightarrow> store" where
  "store_runs evs s = fold store_step evs s"

section \<open>Logs\<close>

text \<open>The ids beside a log are its own, once each, and a log has at most as many records as its cap.\<close>

definition log_ok :: "store \<Rightarrow> bool" where
  "log_ok s \<longleftrightarrow>
     distinct (dkeys (st_log s)) \<and> st_ids s = map (\<lambda>(k, items). (k, map lr_id items)) (st_log s) \<and>
     (\<forall>(k, items) \<in> set (st_log s). distinct (map lr_id items))"

lemma map_of_ids: "map_of (map (\<lambda>(k, items). (k, map lr_id items)) l) k = map_option (map lr_id) (map_of l k)"
  by (induction l) auto

lemma dset_ids: "dset k (map lr_id v) (map (\<lambda>(k, items). (k, map lr_id items)) l) = map (\<lambda>(k, items). (k, map lr_id items)) (dset k v l)"
  by (induction l) auto

lemma dset_twice: "dset k v (dset k w d) = dset k v d"
  by (induction d) auto

lemma dset_all: "(\<forall>(k', v') \<in> set d. P v') \<Longrightarrow> P v \<Longrightarrow> \<forall>(k', v') \<in> set (dset k v d). P v'"
  by (induction d) auto

lemma log_ok_set:
  assumes "log_ok s" "distinct (map lr_id kept)" "st_log s' = dset k kept (st_log s)" "st_ids s' = dset k (map lr_id kept) (st_ids s)"
  shows "log_ok s'"
  using assms dset_all [of "st_log s" "\<lambda>items. distinct (map lr_id items)" kept k]
  by (simp add: log_ok_def dset_ids distinct_dset)

lemma capped_facts: "distinct (map lr_id items) \<Longrightarrow> distinct (map lr_id (capped cap items))"
  "\<not> length (capped cap items) < length items \<Longrightarrow> capped cap items = items" "suffix (capped cap items) items"
  by (auto simp: capped_def drop_map [symmetric] suffix_drop split: option.splits if_splits)

lemma ids_in_log: "log_ok s \<Longrightarrow> ids_in k s = map lr_id (log_in k s)"
  by (auto simp: ids_in_def log_in_def log_ok_def map_of_ids split: option.split)

lemma record_new:
  assumes "log_ok s" "mid \<notin> set (map lr_id (log_in (make_chat_key p c) s))"
    and "kept = capped (st_cap s) (log_in (make_chat_key p c) s @ [\<lparr>lr_id = mid, lr_ts = now, lr_direction = d, lr_kind = kd\<rparr>])"
  shows "record_message_id p c (Some mid) d kd now s =
    schedule_save (s\<lparr>st_log := dset (make_chat_key p c) kept (st_log s), st_ids := dset (make_chat_key p c) (map lr_id kept) (st_ids s)\<rparr>)"
proof -
  define k where "k = make_chat_key p c"
  define items where "items = log_in k s @ [\<lparr>lr_id = mid, lr_ts = now, lr_direction = d, lr_kind = kd\<rparr>]"
  have n: "mid \<notin> set (ids_in k s)" using assms(2) by (simp add: ids_in_log [OF assms(1)] k_def)
  have l: "log_in k (s\<lparr>st_ids := x\<rparr>) = log_in k s" for x by (simp add: log_in_def)
  have i: "(if length kept < length items then map lr_id kept else ids_in k s @ [mid]) = map lr_id kept"
  proof (cases "length kept < length items")
    case False
    then have "kept = items" using capped_facts(2) [of "st_cap s" items] by (simp add: assms(3) items_def k_def)
    then show ?thesis by (simp add: items_def ids_in_log [OF assms(1)])
  qed simp
  have kept: "capped (st_cap s) items = kept" and len: "length items = Suc (length (log_in k s))"
    by (simp_all add: assms(3) items_def k_def)
  have "record_message_id p c (Some mid) d kd now s =
      (let s' = (if map_of (st_ids s) k = None then s\<lparr>st_ids := dset k [] (st_ids s)\<rparr> else s)
       in schedule_save (s'\<lparr>st_log := dset k kept (st_log s),
            st_ids := dset k (if length kept < length items then map lr_id kept else ids_in k s @ [mid]) (st_ids s')\<rparr>))"
    using n by (simp add: record_message_id_def k_def [symmetric] Let_def l kept [unfolded items_def] len)
  then show ?thesis unfolding i by (simp add: Let_def dset_twice k_def)
qed

lemma record_old:
  assumes "log_ok s" "mid \<in> set (map lr_id (log_in (make_chat_key p c) s))"
  shows "record_message_id p c (Some mid) d kd now s = s"
proof -
  have m: "mid \<in> set (ids_in (make_chat_key p c) s)" using assms by (simp add: ids_in_log)
  then obtain ids where "map_of (st_ids s) (make_chat_key p c) = Some ids"
    by (cases "map_of (st_ids s) (make_chat_key p c)") (simp_all add: ids_in_def)
  with m show ?thesis by (simp add: record_message_id_def Let_def)
qed

lemma log_in_distinct: "log_ok s \<Longrightarrow> distinct (map lr_id (log_in k s))"
  by (auto simp: log_ok_def log_in_def dest!: map_of_SomeD split: option.split)

lemma record_log_ok:
  assumes "log_ok s" shows "log_ok (record_message_id p c mid d kd now s)"
proof (cases mid)
  case None with assms show ?thesis by (simp add: record_message_id_def)
next
  case (Some m)
  define kept where "kept = capped (st_cap s) (log_in (make_chat_key p c) s @ [\<lparr>lr_id = m, lr_ts = now, lr_direction = d, lr_kind = kd\<rparr>])"
  show ?thesis
  proof (cases "m \<in> set (map lr_id (log_in (make_chat_key p c) s))")
    case True with record_old [OF assms] Some assms show ?thesis by simp
  next
    case False
    then have "distinct (map lr_id kept)" unfolding kept_def
      by (intro capped_facts(1)) (use log_in_distinct [OF assms] in simp)
    from log_ok_set [OF assms this, where k = "make_chat_key p c"] record_new [OF assms False kept_def]
    show ?thesis by (simp add: Some schedule_save_def)
  qed
qed

section \<open>A snapshot is read back\<close>

definition contents :: "store \<Rightarrow> jdict \<times> jdict \<times> (string, log_rec list) dict \<times> (string, string list) dict" where
  "contents s = (st_trees s, st_nodes s, st_log s, st_ids s)"

lemma loaded_text_JStr [simp]: "loaded_text (JStr t) = t"
  by (simp add: loaded_text_def py_str_def)

lemma load_record_json: "lr_id r \<notin> set (map lr_id acc) \<Longrightarrow> load_record (rec_json r) acc = acc @ [r]"
  by (cases r) (simp add: load_record_def rec_json_def py_str_def del: set_map)

lemma load_records: "distinct (map lr_id (acc @ items)) \<Longrightarrow> fold load_record (map rec_json items) acc = acc @ items"
proof (induction items arbitrary: acc)
  case (Cons r items)
  then have "lr_id r \<notin> set (map lr_id acc)" by auto
  with Cons.IH [of "acc @ [r]"] Cons.prems show ?case by (simp add: load_record_json del: set_map)
qed simp

definition ids_of :: "(string, log_rec list) dict \<Rightarrow> (string, string list) dict" where
  "ids_of l = map (\<lambda>(k, items). (k, map lr_id items)) l"

lemma load_chats:
  "distinct (dkeys (st_log s @ l)) \<Longrightarrow> \<forall>(k, items) \<in> set l. distinct (map lr_id items) \<Longrightarrow> st_ids s = ids_of (st_log s) \<Longrightarrow>
   fold load_chat (map (\<lambda>(k, items). (k, JArr (map rec_json items))) l) s = s\<lparr>st_log := st_log s @ l, st_ids := ids_of (st_log s @ l)\<rparr>"
proof (induction l arbitrary: s)
  case (Cons e l)
  obtain k items where e: "e = (k, items)" by (cases e)
  have keys: "dkeys (ids_of l) = dkeys l" for l by (auto simp: ids_of_def)
  have n: "k \<notin> set (dkeys (st_log s))" and n': "k \<notin> set (dkeys (st_ids s))"
    using Cons.prems(1) unfolding Cons.prems(3) keys by (auto simp: e)
  have r: "fold load_record (map rec_json items) [] = items" using load_records [of "[]" items] Cons.prems(2) by (auto simp: e)
  have "load_chat (k, JArr (map rec_json items)) s = s\<lparr>st_log := st_log s @ [(k, items)], st_ids := ids_of (st_log s @ [(k, items)])\<rparr>"
    using n n' Cons.prems(3) by (simp add: load_chat_def r dset_new ids_of_def del: set_map)
  with Cons.IH [of "s\<lparr>st_log := st_log s @ [(k, items)], st_ids := ids_of (st_log s @ [(k, items)])\<rparr>"] Cons.prems
  show ?case by (simp add: e)
qed (simp add: ids_of_def)

lemma load_snapshot:
  assumes "log_ok s" shows "contents (new_store cap (Some (snapshot s))) = contents s"
proof -
  have l: "distinct (dkeys (st_log s))" "\<forall>(k, items) \<in> set (st_log s). distinct (map lr_id items)" "st_ids s = ids_of (st_log s)"
    using assms by (auto simp: log_ok_def ids_of_def)
  define s0 where "s0 = (empty_store cap (Some (snapshot s)))\<lparr>st_trees := st_trees s, st_nodes := st_nodes s\<rparr>"
  have "new_store cap (Some (snapshot s)) = fold load_chat (map (\<lambda>(k, items). (k, JArr (map rec_json items))) (st_log s)) s0"
    by (simp add: new_store_def load_data_def snapshot_def obj_or_empty_def s0_def)
  also have "\<dots> = s0\<lparr>st_log := st_log s, st_ids := ids_of (st_log s)\<rparr>"
    using load_chats [of s0 "st_log s"] l by (simp add: s0_def empty_store_def ids_of_def)
  finally show ?thesis using l(3) by (simp add: contents_def s0_def)
qed

lemma load_log_ok: "log_ok s \<Longrightarrow> log_ok (fold load_chat es s)"
proof (induction es arbitrary: s)
  case (Cons e es)
  have cleaned: "distinct (map lr_id (fold load_record items acc))" if "distinct (map lr_id acc)" for items acc
    using that by (induction items arbitrary: acc) (auto simp: load_record_def simp del: set_map split: json.split)
  have "log_ok (load_chat e s)"
  proof (cases e)
    case (Pair k j)
    show ?thesis
    proof (cases j)
      case (JArr items)
      with Pair show ?thesis using log_ok_set [OF Cons.prems cleaned [of "[]" items]] by (simp add: load_chat_def Let_def)
    qed (use Cons.prems Pair in \<open>simp_all add: load_chat_def\<close>)
  qed
  with Cons.IH show ?case by simp
qed simp

lemma new_store_ok: "log_ok (new_store cap disk)"
proof -
  have e: "log_ok (empty_store cap disk\<lparr>st_trees := t, st_nodes := n\<rparr>)" for t n by (simp add: log_ok_def empty_store_def)
  have "log_ok (load_data data (empty_store cap disk))" for data
    using e load_log_ok [OF e] by (cases data) (simp_all add: load_data_def log_ok_def empty_store_def)
  with e [of "[]" "[]"] show ?thesis by (cases disk) (simp_all add: new_store_def log_ok_def empty_store_def)
qed

section \<open>Nothing is lost when writes end in order\<close>

definition persisted :: "store \<Rightarrow> bool" where
  "persisted s \<longleftrightarrow>
     st_dirty s \<or> st_writes s \<noteq> [] \<and> last (st_writes s) = snapshot s \<or>
     st_writes s = [] \<and> contents (new_store (st_cap s) (st_file s)) = contents s"

lemma dirty_persisted: "st_dirty s \<Longrightarrow> persisted s"
  by (simp add: persisted_def)

lemma log_ok_frame [simp]:
  "log_ok (s\<lparr>st_trees := t\<rparr>) = log_ok s" "log_ok (s\<lparr>st_nodes := n\<rparr>) = log_ok s" "log_ok (s\<lparr>st_dirty := b\<rparr>) = log_ok s"
  "log_ok (s\<lparr>st_timer := b\<rparr>) = log_ok s" "log_ok (s\<lparr>st_writes := ws\<rparr>) = log_ok s" "log_ok (s\<lparr>st_file := f\<rparr>) = log_ok s"
  by (simp_all add: log_ok_def)

lemma snapshot_frame [simp]:
  "snapshot (s\<lparr>st_dirty := b\<rparr>) = snapshot s" "snapshot (s\<lparr>st_timer := b\<rparr>) = snapshot s" "snapshot (s\<lparr>st_writes := ws\<rparr>) = snapshot s"
  "snapshot (s\<lparr>st_file := f\<rparr>) = snapshot s" "contents (s\<lparr>st_dirty := b\<rparr>) = contents s" "contents (s\<lparr>st_timer := b\<rparr>) = contents s"
  "contents (s\<lparr>st_writes := ws\<rparr>) = contents s" "contents (s\<lparr>st_file := f\<rparr>) = contents s"
  by (simp_all add: snapshot_def contents_def)


lemma log_ok_empty: "log_ok (s\<lparr>st_log := [], st_ids := []\<rparr>)"
  by (simp add: log_ok_def)

lemma step_log_ok: "log_ok s \<Longrightarrow> log_ok (store_step ev s)"
  using log_ok_empty [of "s\<lparr>st_trees := [], st_nodes := []\<rparr>"]
  by (cases ev) (auto simp: store_step_def record_log_ok clear_all_def save_tree_def store_register_node_def remove_node_mappings_def
      store_remove_tree_def sync_from_tree_data_def save_from_timer_def flush_save_def write_ends_def schedule_save_def Let_def)

text \<open>
  Writes end in the order in which they began, and no tree that is removed is an empty object, which the
  code would take out without saving.
\<close>

definition orderly :: "store_event \<Rightarrow> store \<Rightarrow> bool" where
  "orderly ev s =
     (case ev of
        WriteEnds i ok \<Rightarrow> i = 0
      | RemoveTree root \<Rightarrow> truthy (jget (st_trees s) root) \<or> root \<notin> set (dkeys (st_trees s))
      | _ \<Rightarrow> True)"

fun orderly_run :: "store_event list \<Rightarrow> store \<Rightarrow> bool" where
  "orderly_run [] s = True"
| "orderly_run (ev # evs) s = (orderly ev s \<and> orderly_run evs (store_step ev s))"

lemma write_persisted:
  assumes "persisted s" "log_ok s"
  shows "persisted (write_ends 0 ok s)"
proof (cases "st_writes s")
  case Nil with assms(1) show ?thesis by (simp add: write_ends_def)
next
  case (Cons w ws)
  show ?thesis
  proof (cases "ok \<and> \<not> st_dirty s")
    case False with Cons show ?thesis by (auto simp: write_ends_def persisted_def)
  next
    case True
    with Cons assms(1) have l: "last (w # ws) = snapshot s" by (simp add: persisted_def)
    with True Cons load_snapshot [OF assms(2), of "st_cap s"] show ?thesis
      by (cases ws) (auto simp: write_ends_def persisted_def)
  qed
qed

lemma step_persisted:
  assumes "persisted s" "log_ok s" "orderly ev s"
  shows "persisted (store_step ev s)"
proof (cases ev)
  case (RecordId p c m d kd now)
  have "record_message_id p c m d kd now s = s \<or> st_dirty (record_message_id p c m d kd now s)"
  proof (cases m)
    case (Some mid)
    show ?thesis
      using record_old [OF assms(2), of mid p c d kd now] record_new [OF assms(2), of mid p c _ now d kd, OF _ refl] Some
      by (cases "mid \<in> set (map lr_id (log_in (make_chat_key p c) s))") (simp_all add: schedule_save_def del: set_map)
  qed (simp add: record_message_id_def)
  with assms(1) RecordId show ?thesis by (auto simp: store_step_def dirty_persisted)
next
  case (RemoveTree root)
  show ?thesis
  proof (cases "truthy (jget (st_trees s) root)")
    case True
    then show ?thesis by (simp add: RemoveTree store_step_def store_remove_tree_def Let_def schedule_save_def dirty_persisted)
  next
    case False
    with assms(3) RemoveTree have "root \<notin> set (dkeys (st_trees s))" by (simp add: orderly_def)
    then have "ddel root (st_trees s) = st_trees s" by (simp add: delete_idem)
    with False assms(1) show ?thesis by (simp add: RemoveTree store_step_def store_remove_tree_def Let_def)
  qed
next
  case TimerFires
  with assms(1) show ?thesis by (auto simp: store_step_def save_from_timer_def persisted_def)
next
  case (WriteEnds i ok)
  with assms write_persisted show ?thesis by (simp add: store_step_def orderly_def)
qed (auto simp: store_step_def clear_all_def save_tree_def store_register_node_def remove_node_mappings_def sync_from_tree_data_def
    flush_save_def schedule_save_def persisted_def)

lemma runs_persisted: "persisted s \<Longrightarrow> log_ok s \<Longrightarrow> orderly_run evs s \<Longrightarrow> persisted (store_runs evs s) \<and> log_ok (store_runs evs s)"
  by (induction evs arbitrary: s) (simp_all add: store_runs_def step_persisted step_log_ok)

lemma new_store_persisted: "persisted (new_store cap file)"
proof -
  have f: "st_file (fold load_chat es s) = st_file s \<and> st_cap (fold load_chat es s) = st_cap s \<and> st_writes (fold load_chat es s) = st_writes s" for es s
    by (induction es arbitrary: s) (auto simp: load_chat_def Let_def split: json.split)
  have "st_file (new_store cap file) = file \<and> st_cap (new_store cap file) = cap \<and> st_writes (new_store cap file) = []"
    by (auto simp: new_store_def load_data_def empty_store_def f split: option.split json.split)
  then show ?thesis by (simp add: persisted_def)
qed


definition example_store_run :: "store_event list" where
  "example_store_run =
     [SaveTree ''r'' [(''nodes'', JObj [(''n'', JNull)])], RecordId ''tg'' ''1'' (Some ''7'') ''in'' ''content'' ''t'', TimerFires, WriteEnds 0 True]"


definition example_late_run :: "store_event list" where
  "example_late_run =
     [SaveTree ''r'' [(''nodes'', JObj [(''n'', JNull)])], TimerFires, ClearAll, WriteEnds 1 True, WriteEnds 0 True]"

text \<open>
  The order matters: the write of a timer that ends after that of \<open>clear_all\<close> brings the cleared sessions back,
  and nothing is left to be saved.
\<close>

lemma late_write_restores_cleared:
  "let s = store_runs example_late_run (new_store None None)
   in st_trees s = [] \<and> \<not> st_dirty s \<and> st_writes s = [] \<and>
      store_get_tree ''r'' (new_store None (st_file s)) = JObj [(''nodes'', JObj [(''n'', JNull)])]"
  by code_simp

end
