(* ===== verification/Spec2Isabelle.thy ===== *)
theory Spec2Isabelle
  imports Rate_Limit Tree_Manager Think_Tags Heuristic_Tools OpenAI_Contract OpenAI_Text Native_Contract Responses_Text Responses_Names Responses_Kept Chat_Order
    Web_Tools Message_Pace Transcript_Shown Session_Pool Session_Store
begin

text \<open>
  A verification library of a proxy between clients of the Anthropic Messages API (or of the OpenAI
  Responses API) and model providers, with a chat front end for a command line agent.

  \<^bold>\<open>The program.\<close>  A client posts a conversation.  For a provider that speaks OpenAI chat,
  \<open>core/anthropic/conversion.py\<close> rewrites it, the provider's limiter (\<open>providers/rate_limit.py\<close>) admits the
  request, and \<open>providers/transports/openai_chat\<close> turns the chunks that come back into Anthropic events
  with the builder of \<open>core/anthropic/sse.py\<close>: text passes the parser of \<open><think>\<close> tags and the one of
  tool calls written as text, tool-call deltas are assembled into blocks, and a stream that breaks is
  held back, retried, continued or repaired.  For a provider that speaks Anthropic,
  \<open>providers/transports/anthropic_messages\<close> passes its events through a policy on blocks and a tracker of
  what went out, with the same kind of recovery.  Requests that force a web tool are answered by the
  proxy (\<open>api/web_tools\<close>), and clients of the Responses API are served by translating their request and
  the Anthropic stream that answers it (\<open>core/openai_responses\<close>).  The chat front end (\<open>messaging\<close>) keeps a
  tree of messages for each conversation, runs one node of a tree at a time with a session of the agent,
  shows the events of the agent as a transcript, sends its messages through a queue that compacts and
  paces them, and stores trees and sessions for a restart.

  \<^bold>\<open>Shared theories.\<close>  \<open>Py_Prelude\<close>, \<open>Py_Json\<close>, \<open>Py_Net\<close> and \<open>Py_Hash\<close> hold what the code uses of Python:
  string methods, dictionaries as association lists in insertion order, \<open>json.loads\<close> and \<open>json.dumps\<close>,
  URLs and addresses, SHA-1 on 32-bit words.  \<open>Stream_Contracts\<close> is the checker of
  \<open>core/anthropic/stream_contracts.py\<close>; \<open>Stream_Producer\<close> states what a producer of events must keep to satisfy it
  as the locale \<open>block_source\<close>, which the builder, the tool assembler (through \<open>focused_source\<close>), the
  policy, the tracker and the native runner interpret.  \<open>Sse_Text\<close> shows that the text of events is read
  back as those events (\<open>payload_codec\<close>, for each way the code has of writing them).

  \<^bold>\<open>Parts and theories.\<close>
    \<^item> \<open>Think_Tags\<close> (\<open>thinking.py\<close>), \<open>Heuristic_Tools\<close> (\<open>tools.py\<close>): the two text parsers; \<open>Think_Tags\<close> refines a
      parser of the whole text.
    \<^item> \<open>Sse_Builder\<close>, \<open>Builder_Tracking\<close> (\<open>sse.py\<close>), \<open>Tool_Calls\<close>, \<open>Tool_Tracking\<close> (\<open>tool_calls.py\<close>, \<open>usage.py\<close>),
      \<open>OpenAI_Stream\<close>, \<open>OpenAI_Contract\<close>, \<open>OpenAI_Text\<close> (\<open>openai_chat/stream.py\<close>, \<open>recovery.py\<close>): the stream made from
      chat chunks; every run satisfies the contract, and what is remembered is what was sent.
    \<^item> \<open>Stream_Recovery\<close> (\<open>stream_recovery.py\<close>, \<open>stream_recovery_session.py\<close>): the holdback, continuations and
      the repair of tool arguments.
    \<^item> \<open>Native_Policy\<close>, \<open>Policy_Facts\<close>, \<open>Policy_Contract\<close> (\<open>native_sse_block_policy.py\<close>), \<open>Emitted_Tracker\<close>,
      \<open>Tracker_Facts\<close>, \<open>Tracker_Tails\<close> (\<open>emitted_sse_tracker.py\<close>), \<open>Native_Stream\<close>, \<open>Native_Recovery\<close>,
      \<open>Native_Contract\<close> (\<open>anthropic_messages/stream.py\<close>, \<open>recovery.py\<close>, \<open>provider_stream_error.py\<close>): native streams.
    \<^item> \<open>Chat_Conversion\<close>, \<open>Chat_Kept\<close>, \<open>Chat_Order\<close> (\<open>conversion.py\<close>): what the conversion keeps, and that calls
      are answered before anything else is said.
    \<^item> \<open>Responses_Tools\<close>, \<open>Responses_Names\<close>, \<open>Responses_Input\<close>, \<open>Responses_Kept\<close>, \<open>Responses_Stream\<close>,
      \<open>Responses_Contract\<close>, \<open>Responses_Text\<close> (\<open>core/openai_responses\<close>): tools, requests and streams of the Responses API.
    \<^item> \<open>Rate_Limit\<close> (\<open>core/rate_limit.py\<close>, \<open>providers/rate_limit.py\<close>): windows, slots and retries.
    \<^item> \<open>Message_Tree\<close>, \<open>Tree_Shape\<close> (\<open>trees/data.py\<close>), \<open>Tree_Queue\<close>, \<open>Tree_Runs\<close>, \<open>Tree_Manager\<close>
      (\<open>trees/queue_manager.py\<close>): trees, their queues and their index; \<open>forest\<close> is the contract of the walks.
    \<^item> \<open>Web_Fetch\<close>, \<open>Web_Tools\<close> (\<open>api/web_tools\<close>): the guard of a URL, the fetch, and the turn.
    \<^item> \<open>Message_Limiter\<close>, \<open>Message_Pace\<close> (\<open>messaging/limiter.py\<close>): the queue of outgoing messages.
    \<^item> \<open>Transcript\<close>, \<open>Transcript_Render\<close>, \<open>Transcript_Shown\<close> (\<open>messaging/transcript.py\<close>): segments in a store, their
      rendering within the limit of a message, and what the transcript shows of a stream that keeps the contract.
    \<^item> \<open>Cli_Events\<close> (\<open>event_parser.py\<close>, \<open>cli_event_constants.py\<close>, \<open>node_event_pipeline.py\<close>, \<open>handler.py\<close>): the events of
      the agent and the run of a node, down to the return of its session.
    \<^item> \<open>Session_Pool\<close> (\<open>cli/manager.py\<close>), \<open>Session_Store\<close> (\<open>messaging/session.py\<close>): the sessions of the agent, and
      what a restart reads back.

  \<^bold>\<open>How the code is rendered.\<close>  A class is a record of its attributes and a method a function on it.  An
  exception is the left value of a sum.  A Python generator is a step that yields frames and may raise
  after some of them (\<open>gen\<close>).  Coroutines are split where they suspend: what lies between two
  suspensions is one atomic step, and runs are sequences of such steps in any order the scheduler may
  take.  Loops over data are structural recursions; the redirects of a fetch and the attempts of a retry
  are counted down from the limits of the code; the walks over a tree and the parsers, whose loops are not
  structural, have their termination proved.  No result depends on fuel.

  \<^bold>\<open>Bounds of the model.\<close>  Characters are the first 256 code points, so a constant outside them (the
  bullet of the tool marker) is an argument.  Floats of JSON are kept as their texts, times are exact
  rationals, and a sleep lasts at least as long as it was asked to where it matters.  Clock readings, random
  identifiers, the tokenizer, schema validation, name resolution, HTTP answers, \<open>html.parser\<close> and
  callbacks are arguments, used without assumptions except where a property names one.

  \<^bold>\<open>Not modelled.\<close>  Logging and tracing; HTTP clients and the wiring of the web application (\<open>api/app.py\<close>,
  \<open>runtime.py\<close>, \<open>routes.py\<close>); settings, the admin pages and their manifest (tables of fields and input or
  output); provider classes, which only name a transport and fill a request body; process management and the
  command line; the chat platforms, which call the modules above through third-party clients; the entry of
  messages and commands in \<open>handler.py\<close>, the throttle of \<open>ui_updates.py\<close>; the code graph integration, dynamic modules, speech recognition, smoke tests and scripts.  The manifest lists them with the reason
  for each.
\<close>

end
